(* ===== verification/Prelude.thy ===== *)
theory Prelude
  imports Main "HOL-Library.Word" "HOL-Library.Char_ord" "HOL-Library.List_Lexorder"
begin

text \<open>
  Shared vocabulary of the GistDB development: names for the machine types, the
  constants and type identifiers of the headers \<open>constants.hpp\<close> and \<open>types.hpp\<close>, the
  errors a C++ operation can end in, the sequencing of fallible computations, and the
  generic lemmas on lists and bytes that several components use.

  \<^item> \<open>std::size_t\<close> values are natural numbers; the 32- and 64-bit fields that are stored,
    transmitted or can wrap around are words of that width.
  \<^item> \<open>std::string\<close> is \<^typ>\<open>string\<close>, one character per byte; its order is the
    lexicographic order of \<open>List_Lexorder\<close> over the byte order of \<open>Char_ord\<close>.
  \<^item> A thrown exception is an \<open>Inl\<close> result carrying the exception class and its message.
    Behaviour that the C++ standard leaves undefined (reading a \<open>std::vector\<close> out of
    range, signed overflow, dereferencing a null pointer) is the error \<open>UndefinedBehaviour\<close>,
    so that a theorem that an operation returns \<open>Inr\<close> excludes it.
\<close>

unbundle bit_operations_syntax

section \<open>Machine types\<close>

type_synonym byte = "8 word"
type_synonym bytes = "byte list"
type_synonym uint32 = "32 word"
type_synonym int32 = "32 word"
type_synonym uint64 = "64 word"
type_synonym int64 = "64 word"

text \<open>A \<open>float\<close> and a \<open>double\<close> are their IEEE-754 bit patterns, kept apart from the integers.\<close>

datatype float32 = Float32 (f32_bits: "32 word")
datatype float64 = Float64 (f64_bits: "64 word")

section \<open>Constants and type identifiers\<close>

definition kPageSizeBytes :: nat where "kPageSizeBytes = 4096"
definition kVectorSize :: nat where "kVectorSize = 1024"
definition kRowGroupSize :: nat where "kRowGroupSize = 10240"
definition kVectorsPerRowGroup :: nat where "kVectorsPerRowGroup = kRowGroupSize div kVectorSize"
definition kZoneMapPrefixLength :: nat where "kZoneMapPrefixLength = 8"
definition kHeaderPageId :: uint32 where "kHeaderPageId = 0"
definition kFirstDataPageId :: uint32 where "kFirstDataPageId = kHeaderPageId + 1"

datatype TypeId = kInteger | kFloat | kVarchar

fun FixedWidthByteSize :: "TypeId \<Rightarrow> nat option" where
  "FixedWidthByteSize kInteger = Some 4"
| "FixedWidthByteSize kFloat = Some 4"
| "FixedWidthByteSize kVarchar = None"

definition IsFixedWidth :: "TypeId \<Rightarrow> bool" where
  "IsFixedWidth type = (FixedWidthByteSize type \<noteq> None)"

section \<open>Results of fallible operations\<close>

datatype error =
    RuntimeError string
  | InvalidArgument string
  | OutOfRange string
  | BadVariantAccess
  | ParseError string
  | ResolutionError string
  | TypeCoercionError string
  | BindError string
  | UndefinedBehaviour string
  | OutOfFuel

type_synonym 'a result = "error + 'a"

fun rbind :: "'a result \<Rightarrow> ('a \<Rightarrow> 'b result) \<Rightarrow> 'b result" where
  "rbind (Inl e) f = Inl e"
| "rbind (Inr x) f = f x"

fun rmap :: "('a \<Rightarrow> 'b result) \<Rightarrow> 'a list \<Rightarrow> 'b list result" where
  "rmap f [] = Inr []"
| "rmap f (x # xs) = rbind (f x) (\<lambda>y. rbind (rmap f xs) (\<lambda>ys. Inr (y # ys)))"

fun rfold :: "('a \<Rightarrow> 's \<Rightarrow> 's result) \<Rightarrow> 'a list \<Rightarrow> 's \<Rightarrow> 's result" where
  "rfold f [] s = Inr s"
| "rfold f (x # xs) s = rbind (f x s) (rfold f xs)"

text \<open>\<open>operator[]\<close> of a vector: out of range it is undefined behaviour.\<close>

definition vec_at :: "'a list \<Rightarrow> nat \<Rightarrow> 'a result" where
  "vec_at xs i = (if i < length xs then Inr (xs ! i)
     else Inl (UndefinedBehaviour ''vector index out of range''))"

text \<open>
  Operations on a mutable object: the result, and the object afterwards, also when the
  operation throws.
\<close>

type_synonym ('s, 'a) action = "'s \<Rightarrow> 'a result \<times> 's"

definition sreturn :: "'a \<Rightarrow> ('s, 'a) action" where
  "sreturn x s = (Inr x, s)"

definition sthrow :: "error \<Rightarrow> ('s, 'a) action" where
  "sthrow e s = (Inl e, s)"

definition sbind :: "('s, 'a) action \<Rightarrow> ('a \<Rightarrow> ('s, 'b) action) \<Rightarrow> ('s, 'b) action" where
  "sbind m f s = (case m s of (Inl e, s') \<Rightarrow> (Inl e, s') | (Inr x, s') \<Rightarrow> f x s')"

definition sresult :: "'a result \<Rightarrow> ('s, 'a) action" where
  "sresult r s = (r, s)"

fun smap :: "('a \<Rightarrow> ('s, 'b) action) \<Rightarrow> 'a list \<Rightarrow> ('s, 'b list) action" where
  "smap f [] = sreturn []"
| "smap f (x # xs) = sbind (f x) (\<lambda>y. sbind (smap f xs) (\<lambda>ys. sreturn (y # ys)))"

section \<open>Generic lemmas\<close>

named_theorems result_simps \<open>equations that run fallible computations\<close>

lemma rbind_Inr_iff [result_simps]:
  "rbind m f = Inr y \<longleftrightarrow> (\<exists>x. m = Inr x \<and> f x = Inr y)"
  by (cases m) auto

lemma rbind_Inl_iff:
  "rbind m f = Inl e \<longleftrightarrow> m = Inl e \<or> (\<exists>x. m = Inr x \<and> f x = Inl e)"
  by (cases m) auto

lemma rbind_cong [fundef_cong]:
  "m = m' \<Longrightarrow> (\<And>x. m' = Inr x \<Longrightarrow> f x = f' x) \<Longrightarrow> rbind m f = rbind m' f'"
  by (cases m') auto

lemma rbind_assoc: "rbind (rbind m f) g = rbind m (\<lambda>x. rbind (f x) g)"
  by (cases m) auto

lemma rbind_Inr_right [simp]: "rbind m Inr = m"
  by (cases m) auto

lemma rmap_cong [fundef_cong]:
  "xs = ys \<Longrightarrow> (\<And>x. x \<in> set ys \<Longrightarrow> f x = g x) \<Longrightarrow> rmap f xs = rmap g ys"
  by (induction ys arbitrary: xs) auto

lemma rfold_cong [fundef_cong]:
  "xs = ys \<Longrightarrow> s = t \<Longrightarrow> (\<And>x u. x \<in> set ys \<Longrightarrow> f x u = g x u) \<Longrightarrow> rfold f xs s = rfold g ys t"
proof (induction ys arbitrary: xs s t)
  case (Cons y ys)
  have "rfold f ys u = rfold g ys u" for u
    by (rule Cons.IH) (use Cons.prems(3) in auto)
  then have "rfold f ys = rfold g ys"
    by (rule ext)
  with Cons.prems show ?case
    by simp
qed simp

lemma rmap_Inr: "(\<And>x. x \<in> set xs \<Longrightarrow> f x = Inr (g x)) \<Longrightarrow> rmap f xs = Inr (map g xs)"
  by (induction xs) auto

lemma rmap_append:
  "rmap f (xs @ ys) = rbind (rmap f xs) (\<lambda>us. rbind (rmap f ys) (\<lambda>vs. Inr (us @ vs)))"
  by (induction xs) (simp_all add: rbind_assoc)

lemma rmap_Inr_length: "rmap f xs = Inr ys \<Longrightarrow> length ys = length xs"
  by (induction xs arbitrary: ys) (auto simp: result_simps)

lemma rmap_Inr_nth: "rmap f xs = Inr ys \<Longrightarrow> i < length xs \<Longrightarrow> f (xs ! i) = Inr (ys ! i)"
proof (induction xs arbitrary: ys i)
  case (Cons x xs)
  then show ?case
    by (cases i) (auto simp: result_simps)
qed simp

lemma rfold_append: "rfold f (xs @ ys) s = rbind (rfold f xs s) (rfold f ys)"
proof (induction xs arbitrary: s)
  case (Cons x xs)
  have "rfold f (xs @ ys) = (\<lambda>s. rbind (rfold f xs s) (rfold f ys))"
    by (rule ext) (rule Cons.IH)
  then show ?case
    by (simp add: rbind_assoc)
qed simp

lemma rfold_Inr: "(\<And>x s. x \<in> set xs \<Longrightarrow> f x s = Inr (g x s)) \<Longrightarrow> rfold f xs s = Inr (fold g xs s)"
  by (induction xs arbitrary: s) auto

lemma vec_at_Inr [simp]: "i < length xs \<Longrightarrow> vec_at xs i = Inr (xs ! i)"
  by (simp add: vec_at_def)

lemma vec_at_Inr_iff [result_simps]: "vec_at xs i = Inr y \<longleftrightarrow> i < length xs \<and> y = xs ! i"
  by (auto simp: vec_at_def)

lemma sbind_Inr: "m s = (Inr x, s') \<Longrightarrow> sbind m f s = f x s'"
  by (simp add: sbind_def)

lemma sbind_Inl: "m s = (Inl e, s') \<Longrightarrow> sbind m f s = (Inl e, s')"
  by (simp add: sbind_def)

lemma sbind_Inr_iff [result_simps]:
  "sbind m f s = (Inr y, t) \<longleftrightarrow> (\<exists>x s'. m s = (Inr x, s') \<and> f x s' = (Inr y, t))"
  by (auto simp: sbind_def split: prod.splits sum.splits)

lemma saction_simps [simp]:
  "sbind (sreturn x) f s = f x s" "sbind (sthrow e) f s = (Inl e, s)"
  "sreturn x s = (Inr x, s)" "sthrow e s = (Inl e, s)" "sresult r s = (r, s)"
  "sbind (sresult (Inr x)) f s = f x s" "sbind (sresult (Inl e)) f s = (Inl e, s)"
  by (simp_all add: sbind_def sreturn_def sthrow_def sresult_def)

lemmas size_consts = kPageSizeBytes_def kVectorSize_def kRowGroupSize_def
  kZoneMapPrefixLength_def kHeaderPageId_def kFirstDataPageId_def

lemma take_drop_append_middle: "take (length ys) (drop (length xs) (xs @ ys @ zs)) = ys"
  by simp

subsection \<open>Strings as bytes\<close>

definition byte_of_char :: "char \<Rightarrow> byte" where
  "byte_of_char c = word_of_nat (of_char c)"

definition char_of_byte :: "byte \<Rightarrow> char" where
  "char_of_byte b = char_of (unat b)"

definition bytes_of_string :: "string \<Rightarrow> bytes" where
  "bytes_of_string s = map byte_of_char s"

definition string_of_bytes :: "bytes \<Rightarrow> string" where
  "string_of_bytes bs = map char_of_byte bs"

lemma unat_byte_of_char [simp]: "unat (byte_of_char c) = of_char c"
  by (simp add: byte_of_char_def unat_of_nat)

lemma char_of_byte_of_char [simp]: "char_of_byte (byte_of_char c) = c"
  by (simp add: char_of_byte_def)

lemma byte_of_char_of_byte [simp]: "byte_of_char (char_of_byte b) = b"
proof -
  have "unat b mod 256 = unat b"
    using unsigned_less [of b, where ?'a = nat] by simp
  then show ?thesis
    by (simp add: byte_of_char_def char_of_byte_def)
qed

lemma string_of_bytes_of_string [simp]: "string_of_bytes (bytes_of_string s) = s"
  by (simp add: string_of_bytes_def bytes_of_string_def o_def)

lemma bytes_of_string_of_bytes [simp]: "bytes_of_string (string_of_bytes bs) = bs"
  by (simp add: string_of_bytes_def bytes_of_string_def o_def)

lemma length_bytes_of_string [simp]: "length (bytes_of_string s) = length s"
  by (simp add: bytes_of_string_def)

lemma length_string_of_bytes [simp]: "length (string_of_bytes s) = length s"
  by (simp add: string_of_bytes_def)

lemma bytes_of_string_append [simp]:
  "bytes_of_string (s @ t) = bytes_of_string s @ bytes_of_string t"
  by (simp add: bytes_of_string_def)

lemma bytes_of_string_inject [simp]: "bytes_of_string s = bytes_of_string t \<longleftrightarrow> s = t"
  by (metis string_of_bytes_of_string)

subsection \<open>Fixed-width integers\<close>

lemma unat_of_nat_small [simp]:
  "n < 2 ^ LENGTH('a) \<Longrightarrow> unat (word_of_nat n :: 'a::len word) = n"
  by (simp add: unat_of_nat)

lemma unat_less_power: "unat (w :: 'a::len word) < 2 ^ LENGTH('a)"
  by (rule unsigned_less)

lemma int32_compare: "(x::int32) <s y \<longleftrightarrow> sint x < sint y"
  by (rule word_sless_alt)

section \<open>Operations that keep a property of the state\<close>

definition keeps :: "('s \<Rightarrow> bool) \<Rightarrow> ('s, 'a) action \<Rightarrow> bool" where
  "keeps I m = (\<forall>s. I s \<longrightarrow> I (snd (m s)))"

named_theorems keeps_intros \<open>rules that propagate a property of the state through a computation\<close>

lemma keepsI: "(\<And>s. I s \<Longrightarrow> I (snd (m s))) \<Longrightarrow> keeps I m"
  by (simp add: keeps_def)

lemma keepsD: "keeps I m \<Longrightarrow> I s \<Longrightarrow> m s = (x, s') \<Longrightarrow> I s'"
  unfolding keeps_def by (metis snd_conv)

lemma keeps_snd: "keeps I m \<Longrightarrow> I s \<Longrightarrow> I (snd (m s))"
  by (simp add: keeps_def)

lemma keeps_sbind [keeps_intros]: "keeps I m \<Longrightarrow> (\<And>x. keeps I (f x)) \<Longrightarrow> keeps I (sbind m f)"
  unfolding keeps_def sbind_def by (auto split: prod.splits sum.splits)

lemma keeps_return [keeps_intros]: "keeps I (sreturn x)" "keeps I (sthrow e)" "keeps I (sresult r)" "keeps I (\<lambda>s. (f s, s))"
  by (simp_all add: keeps_def sreturn_def sthrow_def sresult_def)

lemma keeps_smap [keeps_intros]: "(\<And>x. keeps I (f x)) \<Longrightarrow> keeps I (smap f xs)"
  by (induction xs) (auto intro!: keeps_intros)

lemma keeps_if [keeps_intros]: "(b \<Longrightarrow> keeps I m) \<Longrightarrow> (\<not> b \<Longrightarrow> keeps I m') \<Longrightarrow> keeps I (if b then m else m')"
  by simp

end
