(* ===== verification/ByteIO.thy ===== *)
theory ByteIO
  imports Prelude
begin

text \<open>
  The module \<open>serialization/byte_io\<close>: the little-endian writers that append to a byte
  buffer and the \<open>ByteReader\<close> that consumes one. The locale \<open>codec\<close> is the contract that
  the footer, the file header, the schema section and the catalog rely on: what a reader
  returns on the bytes its writer appended, wherever they stand in a buffer.
\<close>

section \<open>Writers\<close>

definition WriteU8 :: "bytes \<Rightarrow> byte \<Rightarrow> bytes" where
  "WriteU8 buf value = buf @ [value]"

definition WriteU32 :: "bytes \<Rightarrow> uint32 \<Rightarrow> bytes" where
  "WriteU32 buf value = fold (\<lambda>i b. b @ [ucast (drop_bit (8 * i) value AND 0xFF)]) [0..<4] buf"

definition WriteU64 :: "bytes \<Rightarrow> uint64 \<Rightarrow> bytes" where
  "WriteU64 buf value = fold (\<lambda>i b. b @ [ucast (drop_bit (8 * i) value AND 0xFF)]) [0..<8] buf"

definition WriteFloat :: "bytes \<Rightarrow> float32 \<Rightarrow> bytes" where
  "WriteFloat buf value = WriteU32 buf (f32_bits value)"

definition WriteString :: "bytes \<Rightarrow> string \<Rightarrow> bytes" where
  "WriteString buf value = WriteU32 buf (word_of_nat (length value)) @ bytes_of_string value"

section \<open>ByteReader\<close>

record ByteReader =
  br_bytes :: bytes
  br_pos :: nat

definition ReadU8 :: "ByteReader \<Rightarrow> (byte \<times> ByteReader) result" where
  "ReadU8 r = rbind (vec_at (br_bytes r) (br_pos r)) (\<lambda>b. Inr (b, r\<lparr>br_pos := br_pos r + 1\<rparr>))"

text \<open>The loop \<open>for (i = 0; i < n; ++i) value |= bytes_[pos_++] << (8 * i)\<close>, from index \<open>i\<close>.\<close>

fun read_le :: "nat \<Rightarrow> nat \<Rightarrow> 'a::len word \<Rightarrow> ByteReader \<Rightarrow> ('a word \<times> ByteReader) result" where
  "read_le 0 i value r = Inr (value, r)"
| "read_le (Suc n) i value r =
     rbind (ReadU8 r) (\<lambda>(b, r'). read_le n (Suc i) (value OR push_bit (8 * i) (ucast b)) r')"

definition ReadU32 :: "ByteReader \<Rightarrow> (uint32 \<times> ByteReader) result" where
  "ReadU32 r = read_le 4 0 0 r"

definition ReadU64 :: "ByteReader \<Rightarrow> (uint64 \<times> ByteReader) result" where
  "ReadU64 r = read_le 8 0 0 r"

definition ReadFloat :: "ByteReader \<Rightarrow> (float32 \<times> ByteReader) result" where
  "ReadFloat r = rbind (ReadU32 r) (\<lambda>(bits, r'). Inr (Float32 bits, r'))"

definition ReadFixedBytes :: "nat \<Rightarrow> ByteReader \<Rightarrow> (string \<times> ByteReader) result" where
  "ReadFixedBytes len r =
     (if br_pos r + len \<le> length (br_bytes r)
      then Inr (string_of_bytes (take len (drop (br_pos r) (br_bytes r))), r\<lparr>br_pos := br_pos r + len\<rparr>)
      else Inl (UndefinedBehaviour ''string range past the end of the buffer''))"

definition ReadString :: "ByteReader \<Rightarrow> (string \<times> ByteReader) result" where
  "ReadString r = rbind (ReadU32 r) (\<lambda>(len, r'). ReadFixedBytes (unat len) r')"

definition Skip :: "nat \<Rightarrow> ByteReader \<Rightarrow> ByteReader" where
  "Skip count r = r\<lparr>br_pos := br_pos r + count\<rparr>"

text \<open>A reader over \<open>bs\<close> that has consumed \<open>n\<close> bytes.\<close>

abbreviation reader_at :: "bytes \<Rightarrow> nat \<Rightarrow> ByteReader" where
  "reader_at bs n \<equiv> \<lparr>br_bytes = bs, br_pos = n\<rparr>"

text \<open>The loop that reads \<open>n\<close> elements one after the other into a vector.\<close>

fun read_list :: "(ByteReader \<Rightarrow> ('a \<times> ByteReader) result) \<Rightarrow> nat \<Rightarrow> ByteReader \<Rightarrow>
    ('a list \<times> ByteReader) result" where
  "read_list rd 0 r = Inr ([], r)"
| "read_list rd (Suc n) r =
     rbind (rd r) (\<lambda>(v, r'). rbind (read_list rd n r') (\<lambda>(vs, r''). Inr (v # vs, r'')))"

section \<open>The codec contract\<close>

text \<open>
  \<open>parses rd bs v\<close>: wherever the bytes \<open>bs\<close> stand in a buffer, the reader \<open>rd\<close> positioned at
  their start returns \<open>v\<close> and stops right behind them. The rules below compose it along the
  sequencing of reads.
\<close>

definition parses :: "(ByteReader \<Rightarrow> ('a \<times> ByteReader) result) \<Rightarrow> bytes \<Rightarrow> 'a \<Rightarrow> bool" where
  "parses rd bs v = (\<forall>pre rest. rd (reader_at (pre @ bs @ rest) (length pre)) =
     Inr (v, reader_at (pre @ bs @ rest) (length pre + length bs)))"

lemma parsesI:
  "(\<And>pre rest. rd (reader_at (pre @ bs @ rest) (length pre)) =
     Inr (v, reader_at (pre @ bs @ rest) (length pre + length bs))) \<Longrightarrow> parses rd bs v"
  by (simp add: parses_def)

lemma parsesD:
  "parses rd bs v \<Longrightarrow> rd (reader_at (pre @ bs @ rest) (length pre)) =
     Inr (v, reader_at (pre @ bs @ rest) (length pre + length bs))"
  by (simp add: parses_def)

lemma parses_return: "parses (\<lambda>r. Inr (v, r)) [] v"
  by (simp add: parses_def)

lemma parses_bind:
  assumes "parses rd bs v" and "parses (\<lambda>r. k (v, r)) cs w"
  shows "parses (\<lambda>r. rbind (rd r) k) (bs @ cs) w"
proof (rule parsesI)
  fix pre rest
  from parsesD [OF assms(1), of pre "cs @ rest"] parsesD [OF assms(2), of "pre @ bs" rest]
  show "rbind (rd (reader_at (pre @ (bs @ cs) @ rest) (length pre))) k =
      Inr (w, reader_at (pre @ (bs @ cs) @ rest) (length pre + length (bs @ cs)))"
    by (simp add: add.assoc)
qed

lemma parses_map: "parses rd bs v \<Longrightarrow> parses (\<lambda>r. rbind (rd r) (\<lambda>(x, r). Inr (f x, r))) bs (f v)"
  by (simp add: parses_def)

lemma parses_whole:
  "parses rd bs v \<Longrightarrow> rd (reader_at (bs @ rest) 0) = Inr (v, reader_at (bs @ rest) (length bs))"
  using parsesD [of rd bs v "[]" rest] by simp

locale codec =
  fixes wr :: "bytes \<Rightarrow> 'a \<Rightarrow> bytes"
    and rd :: "ByteReader \<Rightarrow> ('a \<times> ByteReader) result"
    and ok :: "'a \<Rightarrow> bool"
  assumes wr_appends: "wr buf v = buf @ wr [] v"
    and rd_wr: "ok v \<Longrightarrow> parses rd (wr [] v) v"
begin

text \<open>Rewriting towards a flat concatenation of the fields.\<close>

lemma wr_append: "wr (xs @ ys) v = xs @ wr ys v"
  by (metis append_assoc wr_appends)

lemma wr_Cons: "wr (x # xs) v = x # wr xs v"
  using wr_append [of "[x]"] by simp

lemma wr_wr: "wr (wr [] u) v = wr [] u @ wr [] v"
  by (rule wr_appends)

lemmas wr_norm = wr_append wr_Cons wr_wr

lemma fold_wr_appends: "fold (\<lambda>v b. wr b v) vs buf = buf @ fold (\<lambda>v b. wr b v) vs []"
proof (induction vs arbitrary: buf)
  case (Cons v vs)
  from Cons.IH [of "wr buf v"] Cons.IH [of "wr [] v"] show ?case
    by (simp add: wr_appends [of buf])
qed simp

lemma fold_wr_Cons:
  "fold (\<lambda>v b. wr b v) (v # vs) [] = wr [] v @ fold (\<lambda>v b. wr b v) vs []"
  using fold_wr_appends [of vs "wr [] v"] by simp

lemma read_list_wr:
  "list_all ok vs \<Longrightarrow> parses (read_list rd (length vs)) (fold (\<lambda>v b. wr b v) vs []) vs"
proof (induction vs)
  case Nil
  have "read_list rd 0 = (\<lambda>r. Inr ([], r))"
    by (rule ext) simp
  then show ?case
    by (simp add: parses_return)
next
  case (Cons v vs)
  then have head: "parses rd (wr [] v) v"
    and tail: "parses (read_list rd (length vs)) (fold (\<lambda>v b. wr b v) vs []) vs"
    by (simp_all add: rd_wr)
  have "parses (\<lambda>r. rbind (rd r) (\<lambda>(v, r'). rbind (read_list rd (length vs) r')
      (\<lambda>(vs, r''). Inr (v # vs, r'')))) (wr [] v @ fold (\<lambda>v b. wr b v) vs []) (v # vs)"
    by (rule parses_bind [OF head]) (use parses_map [OF tail, of "(#) v"] in simp)
  moreover have "read_list rd (length (v # vs)) = (\<lambda>r. rbind (rd r) (\<lambda>(v, r').
      rbind (read_list rd (length vs) r') (\<lambda>(vs, r''). Inr (v # vs, r''))))"
    by (rule ext) simp
  ultimately show ?case
    by (simp only: fold_wr_Cons)
qed

end

section \<open>Little-endian integers\<close>

lemma fold_snoc_map: "fold (\<lambda>i b. b @ [f i]) is buf = buf @ map f is"
  by (induction "is" arbitrary: buf) simp_all

text \<open>Byte \<open>i\<close> of a word, least significant first.\<close>

definition le_byte :: "'a::len word \<Rightarrow> nat \<Rightarrow> byte" where
  "le_byte w i = ucast (drop_bit (8 * i) w AND 0xFF)"

lemma bit_le_byte: "bit (le_byte w i) n \<longleftrightarrow> n < 8 \<and> bit w (8 * i + n)"
proof -
  have "(0xFF :: 'a word) = mask 8"
    by (simp add: mask_eq_exp_minus_1)
  then have "le_byte w i = ucast (drop_bit (8 * i) w AND mask 8)"
    by (simp only: le_byte_def)
  then show ?thesis
    by (simp only:) (auto simp: bit_simps dest: bit_imp_le_length)
qed

lemma take_bit_step:
  "take_bit (8 * i) w OR push_bit (8 * i) (ucast (le_byte w i)) = take_bit (8 * Suc i) w"
proof (rule bit_word_eqI)
  fix n
  assume "n < LENGTH('a)"
  then show "bit (take_bit (8 * i) w OR push_bit (8 * i) (ucast (le_byte w i))) n =
      bit (take_bit (8 * Suc i) w) n"
    by (cases "n < 8 * i") (auto simp: bit_simps bit_le_byte)
qed

lemma read_le_bytes:
  assumes "k = length pre"
  shows "read_le n i (take_bit (8 * i) w)
      (reader_at (pre @ map (le_byte w) [i..<i + n] @ rest) k) =
    Inr (take_bit (8 * (i + n)) w, reader_at (pre @ map (le_byte w) [i..<i + n] @ rest) (k + n))"
  using assms
proof (induction n arbitrary: i pre k)
  case (Suc n)
  have range: "[i..<Suc (i + n)] = i # [Suc i..<Suc (i + n)]"
    by (simp add: upt_conv_Cons)
  from Suc.prems have "Suc k = length (pre @ [le_byte w i])"
    by simp
  from Suc.IH [OF this, of "Suc i"] Suc.prems show ?case
    by (simp add: range ReadU8_def nth_append take_bit_step del: upt_Suc)
qed simp

lemma WriteU32_eq: "WriteU32 buf v = buf @ map (le_byte v) [0..<4]"
  by (simp add: WriteU32_def le_byte_def fold_snoc_map)

lemma WriteU64_eq: "WriteU64 buf v = buf @ map (le_byte v) [0..<8]"
  by (simp add: WriteU64_def le_byte_def fold_snoc_map)

lemma length_WriteU8 [simp]: "length (WriteU8 buf v) = length buf + 1"
  by (simp add: WriteU8_def)

lemma length_WriteU32 [simp]: "length (WriteU32 buf v) = length buf + 4"
  by (simp add: WriteU32_eq)

lemma length_WriteU64 [simp]: "length (WriteU64 buf v) = length buf + 8"
  by (simp add: WriteU64_eq)

section \<open>The readers and writers satisfy the contract\<close>

text \<open>A string's length prefix is 32 bits wide, so a string is readable when it fits.\<close>

definition string_ok :: "string \<Rightarrow> bool" where
  "string_ok s = (length s < 2 ^ 32)"

lemma parses_ReadFixedBytes: "parses (ReadFixedBytes (length s)) (bytes_of_string s) s"
  by (rule parsesI) (simp add: ReadFixedBytes_def)

interpretation u8: codec WriteU8 ReadU8 "\<lambda>_. True"
  by unfold_locales (simp_all add: WriteU8_def ReadU8_def nth_append parses_def)

interpretation u32: codec WriteU32 ReadU32 "\<lambda>_. True"
proof
  show "parses ReadU32 (WriteU32 [] v) v" for v
  proof (rule parsesI)
    fix pre rest :: bytes
    show "ReadU32 (reader_at (pre @ WriteU32 [] v @ rest) (length pre)) =
        Inr (v, reader_at (pre @ WriteU32 [] v @ rest) (length pre + length (WriteU32 [] v)))"
      using read_le_bytes [OF refl, of 4 0 v pre rest]
      by (simp add: ReadU32_def WriteU32_eq take_bit_word_eq_self del: upt_rec_numeral)
  qed
qed (simp add: WriteU32_eq)

interpretation u64: codec WriteU64 ReadU64 "\<lambda>_. True"
proof
  show "parses ReadU64 (WriteU64 [] v) v" for v
  proof (rule parsesI)
    fix pre rest :: bytes
    show "ReadU64 (reader_at (pre @ WriteU64 [] v @ rest) (length pre)) =
        Inr (v, reader_at (pre @ WriteU64 [] v @ rest) (length pre + length (WriteU64 [] v)))"
      using read_le_bytes [OF refl, of 8 0 v pre rest]
      by (simp add: ReadU64_def WriteU64_eq take_bit_word_eq_self del: upt_rec_numeral)
  qed
qed (simp add: WriteU64_eq)

lemma ReadFloat_fun: "ReadFloat = (\<lambda>r. rbind (ReadU32 r) (\<lambda>(bits, r). Inr (Float32 bits, r)))"
  by (rule ext) (simp add: ReadFloat_def)

interpretation float_codec: codec WriteFloat ReadFloat "\<lambda>_. True"
proof
  show "WriteFloat buf v = buf @ WriteFloat [] v" for buf v
    unfolding WriteFloat_def by (rule u32.wr_appends)
  show "parses ReadFloat (WriteFloat [] v) v" for v
    using parses_map [OF u32.rd_wr [of "f32_bits v"], of Float32]
    by (simp add: ReadFloat_fun WriteFloat_def)
qed

lemma ReadString_fun:
  "ReadString = (\<lambda>r. rbind (ReadU32 r) (\<lambda>(len, r). ReadFixedBytes (unat len) r))"
  by (rule ext) (simp add: ReadString_def)

interpretation string_codec: codec WriteString ReadString string_ok
proof
  fix s
  assume "string_ok s"
  then have len: "unat (word_of_nat (length s) :: uint32) = length s"
    by (simp add: string_ok_def)
  have "parses ReadString (WriteU32 [] (word_of_nat (length s)) @ bytes_of_string s) s"
    unfolding ReadString_fun
    by (rule parses_bind [OF u32.rd_wr [OF TrueI]]) (simp only: prod.case len parses_ReadFixedBytes)
  then show "parses ReadString (WriteString [] s) s"
    by (simp add: WriteString_def)
qed (simp add: WriteString_def WriteU32_eq)

lemmas codec_appends = u8.wr_appends u32.wr_appends u64.wr_appends float_codec.wr_appends
  string_codec.wr_appends

end
