(* ===== verification/Bitmap.thy ===== *)
theory Bitmap
  imports Prelude
begin

text \<open>
  \<open>storage/validity_bitmap\<close>: one bit per row, packed into bytes, least significant bit
  first. The bitmap is refined against its contents, the list of its rows' bits; the locale
  \<open>bit_vector\<close> states that contract and the interpretation at the end discharges it for
  the packed representation. Columns, data chunks and boolean evaluation results all rely
  on it.
\<close>

section \<open>The packed bitmap\<close>

record ValidityBitmap =
  vb_num_rows :: nat
  vb_bytes :: bytes

definition kBitsPerByte :: nat where "kBitsPerByte = 8"

definition MakeValidityBitmap :: "nat \<Rightarrow> bool \<Rightarrow> ValidityBitmap" where
  "MakeValidityBitmap num_rows default_valid =
     \<lparr>vb_num_rows = num_rows,
      vb_bytes = replicate ((num_rows + kBitsPerByte - 1) div kBitsPerByte)
                   (if default_valid then 0xFF else 0x00)\<rparr>"

definition SetValid :: "ValidityBitmap \<Rightarrow> nat \<Rightarrow> bool \<Rightarrow> ValidityBitmap result" where
  "SetValid vb index is_valid =
     (let byte_index = index div kBitsPerByte;
          bit_mask = push_bit (index mod kBitsPerByte) 1 :: byte
      in rbind (vec_at (vb_bytes vb) byte_index) (\<lambda>b.
           Inr (vb\<lparr>vb_bytes := (vb_bytes vb)[byte_index :=
             (if is_valid then b OR bit_mask else b AND NOT bit_mask)]\<rparr>)))"

definition IsValid :: "ValidityBitmap \<Rightarrow> nat \<Rightarrow> bool result" where
  "IsValid vb index =
     (let byte_index = index div kBitsPerByte;
          bit_mask = push_bit (index mod kBitsPerByte) 1 :: byte
      in rbind (vec_at (vb_bytes vb) byte_index) (\<lambda>b. Inr (b AND bit_mask \<noteq> 0)))"

definition IsNull :: "ValidityBitmap \<Rightarrow> nat \<Rightarrow> bool result" where
  "IsNull vb index = rbind (IsValid vb index) (\<lambda>v. Inr (\<not> v))"

definition PushBack :: "ValidityBitmap \<Rightarrow> bool \<Rightarrow> ValidityBitmap result" where
  "PushBack vb is_valid =
     (let num_rows = vb_num_rows vb + 1;
          needed_bytes = (num_rows + kBitsPerByte - 1) div kBitsPerByte;
          bytes = (if length (vb_bytes vb) < needed_bytes
                   then vb_bytes vb @ replicate (needed_bytes - length (vb_bytes vb)) 0x00
                   else vb_bytes vb)
      in SetValid (vb\<lparr>vb_num_rows := num_rows, vb_bytes := bytes\<rparr>) (num_rows - 1) is_valid)"

definition Size :: "ValidityBitmap \<Rightarrow> nat" where
  "Size vb = vb_num_rows vb"

definition CountNulls :: "ValidityBitmap \<Rightarrow> nat result" where
  "CountNulls vb = rfold (\<lambda>i count. rbind (IsNull vb i) (\<lambda>b. Inr (count + (if b then 1 else 0))))
     [0..<vb_num_rows vb] 0"

definition ByteSize :: "ValidityBitmap \<Rightarrow> nat" where
  "ByteSize vb = length (vb_bytes vb)"

section \<open>Invariant and contents\<close>

text \<open>
  The constructor and \<open>PushBack\<close> keep the byte vector exactly as long as the rows need.
  Bits beyond the last row are unconstrained: the constructor sets them, \<open>PushBack\<close> clears
  the ones of a fresh byte.
\<close>

definition vb_inv :: "ValidityBitmap \<Rightarrow> bool" where
  "vb_inv vb = (length (vb_bytes vb) = (vb_num_rows vb + 7) div 8)"

definition packed_bit :: "bytes \<Rightarrow> nat \<Rightarrow> bool" where
  "packed_bit bs i = bit (bs ! (i div 8)) (i mod 8)"

definition vb_bits :: "ValidityBitmap \<Rightarrow> bool list" where
  "vb_bits vb = map (packed_bit (vb_bytes vb)) [0..<vb_num_rows vb]"

section \<open>The contract of a growable bit vector\<close>

locale bit_vector =
  fixes make :: "nat \<Rightarrow> bool \<Rightarrow> 'v"
    and set_at :: "'v \<Rightarrow> nat \<Rightarrow> bool \<Rightarrow> 'v result"
    and get_at :: "'v \<Rightarrow> nat \<Rightarrow> bool result"
    and push :: "'v \<Rightarrow> bool \<Rightarrow> 'v result"
    and invar :: "'v \<Rightarrow> bool"
    and bits :: "'v \<Rightarrow> bool list"
  assumes make_spec: "invar (make n b) \<and> bits (make n b) = replicate n b"
    and set_spec: "invar v \<Longrightarrow> i < length (bits v) \<Longrightarrow>
      \<exists>v'. set_at v i b = Inr v' \<and> invar v' \<and> bits v' = (bits v)[i := b]"
    and get_spec: "invar v \<Longrightarrow> i < length (bits v) \<Longrightarrow> get_at v i = Inr (bits v ! i)"
    and push_spec: "invar v \<Longrightarrow> \<exists>v'. push v b = Inr v' \<and> invar v' \<and> bits v' = bits v @ [b]"
begin

text \<open>The loop \<open>for (i = 0; i < n; ++i) v.SetValid(i, f(i))\<close> that every evaluator pass runs.\<close>

lemma set_loop:
  assumes "invar v" and "n \<le> length (bits v)"
    and "\<And>i. i < n \<Longrightarrow> f i = Inr (g i)"
  shows "\<exists>v'. rfold (\<lambda>i v. rbind (f i) (set_at v i)) [0..<n] v = Inr v' \<and> invar v' \<and>
    bits v' = map g [0..<n] @ drop n (bits v)"
  using assms(2,3)
proof (induction n)
  case 0
  with assms(1) show ?case by simp
next
  case (Suc n)
  then obtain v' where v': "rfold (\<lambda>i v. rbind (f i) (set_at v i)) [0..<n] v = Inr v'"
      "invar v'" "bits v' = map g [0..<n] @ drop n (bits v)"
    by (auto simp: less_Suc_eq)
  from v'(3) Suc.prems(1) have len: "n < length (bits v')"
    by simp
  from set_spec [OF v'(2) len, of "g n"] obtain v'' where v'': "set_at v' n (g n) = Inr v''"
      "invar v''" "bits v'' = (bits v')[n := g n]"
    by blast
  moreover have "(bits v')[n := g n] = map g [0..<Suc n] @ drop (Suc n) (bits v)"
    using Suc.prems(1) by (simp add: v'(3) list_update_append upd_conv_take_nth_drop drop_Suc
        flip: tl_drop)
  ultimately show ?case
    using Suc.prems(2) v'(1) by (simp add: rfold_append)
qed

lemma set_loop_full:
  assumes "invar v" and "length (bits v) = n" and "\<And>i. i < n \<Longrightarrow> f i = Inr (g i)"
  shows "\<exists>v'. rfold (\<lambda>i v. rbind (f i) (set_at v i)) [0..<n] v = Inr v' \<and> invar v' \<and>
    bits v' = map g [0..<n]"
  using set_loop [OF assms(1) _ assms(3), of n] assms(2) by simp

lemma push_loop:
  assumes "invar v"
  shows "\<exists>v'. rfold (\<lambda>b v. push v b) bs v = Inr v' \<and> invar v' \<and> bits v' = bits v @ bs"
  using assms
proof (induction bs arbitrary: v)
  case (Cons b bs)
  from push_spec [OF Cons.prems, of b] obtain v' where "push v b = Inr v'" "invar v'"
      "bits v' = bits v @ [b]"
    by blast
  with Cons.IH [of v'] show ?case
    by simp
qed simp

end

section \<open>The packed bitmap is a growable bit vector\<close>

lemma length_vb_bits [simp]: "length (vb_bits vb) = vb_num_rows vb"
  by (simp add: vb_bits_def)

lemma packed_bit_update:
  assumes "i div 8 < length bs"
  shows "packed_bit (bs[i div 8 := (if b then bs ! (i div 8) OR push_bit (i mod 8) 1
      else bs ! (i div 8) AND NOT (push_bit (i mod 8) 1))]) j =
    (if j = i then b else packed_bit bs j)"
proof -
  have "j div 8 = i div 8 \<Longrightarrow> j mod 8 = i mod 8 \<Longrightarrow> j = i"
    by (metis div_mult_mod_eq)
  moreover have "j mod 8 < 8" by simp
  ultimately show ?thesis
    using assms by (cases "j div 8 = i div 8") (auto simp: packed_bit_def bit_simps)
qed

lemma vb_byte_bound: "vb_inv vb \<Longrightarrow> i < vb_num_rows vb \<Longrightarrow> i div 8 < length (vb_bytes vb)"
  by (simp add: vb_inv_def)

lemma IsValid_in_range:
  "i div 8 < length (vb_bytes vb) \<Longrightarrow> IsValid vb i = Inr (packed_bit (vb_bytes vb) i)"
  by (simp add: IsValid_def kBitsPerByte_def Let_def packed_bit_def and_exp_eq_0_iff_not_bit)

lemma IsValid_bits: "vb_inv vb \<Longrightarrow> i < vb_num_rows vb \<Longrightarrow> IsValid vb i = Inr (vb_bits vb ! i)"
  by (simp add: IsValid_in_range vb_byte_bound vb_bits_def)

lemma IsNull_bits: "vb_inv vb \<Longrightarrow> i < vb_num_rows vb \<Longrightarrow> IsNull vb i = Inr (\<not> vb_bits vb ! i)"
  by (simp add: IsNull_def IsValid_bits)

lemma SetValid_bits:
  assumes "vb_inv vb" and "i < vb_num_rows vb"
  shows "\<exists>vb'. SetValid vb i b = Inr vb' \<and> vb_inv vb' \<and> vb_bits vb' = (vb_bits vb)[i := b]"
proof -
  let ?bs = "vb_bytes vb"
  let ?bs' = "?bs[i div 8 := (if b then ?bs ! (i div 8) OR push_bit (i mod 8) 1
      else ?bs ! (i div 8) AND NOT (push_bit (i mod 8) 1))]"
  have bound: "i div 8 < length ?bs"
    using assms by (rule vb_byte_bound)
  then have "SetValid vb i b = Inr (vb\<lparr>vb_bytes := ?bs'\<rparr>)"
    by (simp add: SetValid_def kBitsPerByte_def Let_def)
  moreover have "vb_bits (vb\<lparr>vb_bytes := ?bs'\<rparr>) = (vb_bits vb)[i := b]"
    by (rule nth_equalityI)
      (auto simp: vb_bits_def packed_bit_update [OF bound] nth_list_update simp del: upt_Suc)
  ultimately show ?thesis
    using assms(1) by (simp add: vb_inv_def)
qed

lemma PushBack_bits:
  assumes "vb_inv vb"
  shows "\<exists>vb'. PushBack vb b = Inr vb' \<and> vb_inv vb' \<and> vb_bits vb' = vb_bits vb @ [b]"
proof -
  let ?n = "vb_num_rows vb"
  let ?bs = "(if length (vb_bytes vb) < (8 + ?n) div 8
      then vb_bytes vb @ replicate ((8 + ?n) div 8 - length (vb_bytes vb)) 0 else vb_bytes vb)"
  let ?grown = "vb\<lparr>vb_num_rows := ?n + 1, vb_bytes := ?bs\<rparr>"
  have step: "PushBack vb b = SetValid ?grown ?n b"
    by (simp add: PushBack_def kBitsPerByte_def Let_def)
  have inv: "vb_inv ?grown"
    using assms by (auto simp: vb_inv_def)
  have "packed_bit ?bs i = packed_bit (vb_bytes vb) i" if "i < ?n" for i
    using vb_byte_bound [OF assms that] by (simp add: packed_bit_def nth_append)
  then have "take ?n (vb_bits ?grown) = vb_bits vb"
    by (simp add: vb_bits_def take_map)
  then have "(vb_bits ?grown)[?n := b] = vb_bits vb @ [b]"
    by (simp add: upd_conv_take_nth_drop)
  with SetValid_bits [OF inv, of ?n b] step show ?thesis
    by simp
qed

lemma MakeValidityBitmap_bits:
  "vb_inv (MakeValidityBitmap n b) \<and> vb_bits (MakeValidityBitmap n b) = replicate n b"
proof
  show inv: "vb_inv (MakeValidityBitmap n b)"
    by (simp add: vb_inv_def MakeValidityBitmap_def kBitsPerByte_def)
  have "packed_bit (replicate ((7 + n) div 8) (if b then 0xFF else 0)) i = b" if "i < n" for i
  proof -
    have "(0xFF :: byte) = mask 8"
      by (simp add: mask_eq_exp_minus_1)
    moreover have "bit (mask 8 :: byte) (i mod 8)"
      by (simp only: bit_mask_iff) simp
    ultimately have "bit (0xFF :: byte) (i mod 8)"
      by (simp only:)
    moreover have "i div 8 < (7 + n) div 8"
      using vb_byte_bound [OF inv, of i] that
      by (simp add: MakeValidityBitmap_def kBitsPerByte_def)
    ultimately show ?thesis
      by (simp add: packed_bit_def)
  qed
  then show "vb_bits (MakeValidityBitmap n b) = replicate n b"
    by (intro nth_equalityI)
      (simp_all add: vb_bits_def MakeValidityBitmap_def kBitsPerByte_def split: if_splits)
qed

interpretation vb: bit_vector MakeValidityBitmap SetValid IsValid PushBack vb_inv vb_bits
  by unfold_locales (simp_all add: MakeValidityBitmap_bits SetValid_bits IsValid_bits PushBack_bits)

lemma CountNulls_bits:
  assumes "vb_inv vb"
  shows "CountNulls vb = Inr (length (filter Not (vb_bits vb)))"
proof -
  have "rfold (\<lambda>i count. rbind (IsNull vb i) (\<lambda>b. Inr (count + (if b then 1 else 0)))) [0..<n] 0 =
      Inr (length (filter Not (take n (vb_bits vb))))" if "n \<le> vb_num_rows vb" for n
    using that
  proof (induction n)
    case (Suc n)
    then show ?case
      by (simp add: rfold_append IsNull_bits [OF assms] take_Suc_conv_app_nth)
  qed simp
  from this [of "vb_num_rows vb"] show ?thesis
    by (simp add: CountNulls_def)
qed

end
