(* ===== verification/Floats.thy ===== *)
theory Floats
  imports Prelude
begin

text \<open>
  The IEEE-754 arithmetic of C++'s \<open>float\<close> (binary32) and \<open>double\<close> (binary64) that the
  engine uses: comparison, the four operations rounded to nearest even, and the
  conversions between the two formats and from integers. A value is decoded into an exact
  dyadic number \<open>\<plusminus> m * 2 ^ e\<close>, the operation is carried out exactly on integers, and the
  result is rounded once. A format is given by its fraction width \<open>mw\<close> and exponent width
  \<open>ew\<close>. The sign and payload of a generated NaN are implementation-defined in IEEE-754; the
  model uses the positive quiet NaN.
\<close>

section \<open>Exact values\<close>

datatype fp = FNaN | FInf bool | FFin bool nat int

definition fp_emin :: "nat \<Rightarrow> nat \<Rightarrow> int" where
  "fp_emin mw ew = 2 - 2 ^ (ew - 1) - int mw"

definition fp_decode :: "nat \<Rightarrow> nat \<Rightarrow> nat \<Rightarrow> fp" where
  "fp_decode mw ew b =
     (let frac = b mod 2 ^ mw; ex = (b div 2 ^ mw) mod 2 ^ ew; s = odd (b div 2 ^ (mw + ew))
      in if ex = 2 ^ ew - 1 then (if frac = 0 then FInf s else FNaN)
         else if ex = 0 then FFin s frac (fp_emin mw ew)
         else FFin s (2 ^ mw + frac) (fp_emin mw ew + int ex - 1))"

fun bit_length :: "nat \<Rightarrow> nat" where
  "bit_length n = (if n = 0 then 0 else Suc (bit_length (n div 2)))"

declare bit_length.simps [simp del]

text \<open>Divide by \<open>2 ^ d\<close>, rounding to nearest, ties to even.\<close>

definition round_shift :: "nat \<Rightarrow> nat \<Rightarrow> nat" where
  "round_shift m d =
     (let q = m div 2 ^ d; r = m mod 2 ^ d
      in if 2 ^ d < 2 * r \<or> (2 * r = 2 ^ d \<and> odd q) then q + 1 else q)"

definition fp_sign_bits :: "nat \<Rightarrow> nat \<Rightarrow> bool \<Rightarrow> nat" where
  "fp_sign_bits mw ew s = (if s then 2 ^ (mw + ew) else 0)"

definition fp_inf_bits :: "nat \<Rightarrow> nat \<Rightarrow> nat" where
  "fp_inf_bits mw ew = (2 ^ ew - 1) * 2 ^ mw"

definition fp_round :: "nat \<Rightarrow> nat \<Rightarrow> bool \<Rightarrow> nat \<Rightarrow> int \<Rightarrow> nat" where
  "fp_round mw ew s m e =
     (let emin = fp_emin mw ew;
          e' = max emin (e + int (bit_length m) - int (mw + 1));
          q = (if e' \<le> e then m * 2 ^ nat (e - e') else round_shift m (nat (e' - e)));
          mag = nat (e' - emin) * 2 ^ mw + q
      in fp_sign_bits mw ew s + (if m = 0 then 0 else min mag (fp_inf_bits mw ew)))"

fun fp_encode :: "nat \<Rightarrow> nat \<Rightarrow> fp \<Rightarrow> nat" where
  "fp_encode mw ew FNaN = fp_inf_bits mw ew + 2 ^ (mw - 1)"
| "fp_encode mw ew (FInf s) = fp_sign_bits mw ew s + fp_inf_bits mw ew"
| "fp_encode mw ew (FFin s m e) = fp_round mw ew s m e"

section \<open>Exact operations\<close>

definition signed_int :: "bool \<Rightarrow> nat \<Rightarrow> int" where
  "signed_int s m = (if s then - int m else int m)"

fun fp_add :: "fp \<Rightarrow> fp \<Rightarrow> fp" where
  "fp_add FNaN _ = FNaN"
| "fp_add _ FNaN = FNaN"
| "fp_add (FInf s) (FInf t) = (if s = t then FInf s else FNaN)"
| "fp_add (FInf s) (FFin _ _ _) = FInf s"
| "fp_add (FFin _ _ _) (FInf t) = FInf t"
| "fp_add (FFin s m e) (FFin t n f) =
     (let g = min e f;
          z = signed_int s (m * 2 ^ nat (e - g)) + signed_int t (n * 2 ^ nat (f - g))
      in if z = 0 then FFin (s \<and> t) 0 g else FFin (z < 0) (nat \<bar>z\<bar>) g)"

fun fp_neg :: "fp \<Rightarrow> fp" where
  "fp_neg FNaN = FNaN"
| "fp_neg (FInf s) = FInf (\<not> s)"
| "fp_neg (FFin s m e) = FFin (\<not> s) m e"

definition fp_sub :: "fp \<Rightarrow> fp \<Rightarrow> fp" where
  "fp_sub x y = fp_add x (fp_neg y)"

fun fp_mul :: "fp \<Rightarrow> fp \<Rightarrow> fp" where
  "fp_mul FNaN _ = FNaN"
| "fp_mul _ FNaN = FNaN"
| "fp_mul (FInf s) (FInf t) = FInf (s \<noteq> t)"
| "fp_mul (FInf s) (FFin t n _) = (if n = 0 then FNaN else FInf (s \<noteq> t))"
| "fp_mul (FFin s m _) (FInf t) = (if m = 0 then FNaN else FInf (s \<noteq> t))"
| "fp_mul (FFin s m e) (FFin t n f) = FFin (s \<noteq> t) (m * n) (e + f)"

text \<open>
  The quotient is computed to at least \<open>mw + 3\<close> significant bits, with a sticky bit for a
  non-zero remainder, so that rounding it once is correct.
\<close>

fun fp_div :: "nat \<Rightarrow> fp \<Rightarrow> fp \<Rightarrow> fp" where
  "fp_div mw FNaN _ = FNaN"
| "fp_div mw _ FNaN = FNaN"
| "fp_div mw (FInf s) (FInf t) = FNaN"
| "fp_div mw (FInf s) (FFin t _ _) = FInf (s \<noteq> t)"
| "fp_div mw (FFin s _ e) (FInf t) = FFin (s \<noteq> t) 0 e"
| "fp_div mw (FFin s m e) (FFin t n f) =
     (if n = 0 then (if m = 0 then FNaN else FInf (s \<noteq> t))
      else let k = mw + 3 + bit_length n; q = (m * 2 ^ k) div n; r = (m * 2 ^ k) mod n
           in FFin (s \<noteq> t) (2 * q + (if r = 0 then 0 else 1)) (e - f - int k - 1))"

section \<open>float and double\<close>

definition f32_fp :: "float32 \<Rightarrow> fp" where "f32_fp x = fp_decode 23 8 (unat (f32_bits x))"
definition f64_fp :: "float64 \<Rightarrow> fp" where "f64_fp x = fp_decode 52 11 (unat (f64_bits x))"
definition fp_f32 :: "fp \<Rightarrow> float32" where "fp_f32 v = Float32 (word_of_nat (fp_encode 23 8 v))"
definition fp_f64 :: "fp \<Rightarrow> float64" where "fp_f64 v = Float64 (word_of_nat (fp_encode 52 11 v))"

definition f32_is_nan :: "float32 \<Rightarrow> bool" where "f32_is_nan x = (f32_fp x = FNaN)"

text \<open>
  The order of floats: a finite binary32 value is an integer multiple of \<open>2 ^ -149\<close>, and the
  infinities lie beyond every finite one.
\<close>

definition f32_rank :: "float32 \<Rightarrow> int" where
  "f32_rank x = (case f32_fp x of
       FNaN \<Rightarrow> 0
     | FInf s \<Rightarrow> signed_int s (2 ^ 278)
     | FFin s m e \<Rightarrow> signed_int s (m * 2 ^ nat (e + 149)))"

definition f32_less :: "float32 \<Rightarrow> float32 \<Rightarrow> bool" where
  "f32_less x y = (\<not> f32_is_nan x \<and> \<not> f32_is_nan y \<and> f32_rank x < f32_rank y)"

definition f32_less_eq :: "float32 \<Rightarrow> float32 \<Rightarrow> bool" where
  "f32_less_eq x y = (\<not> f32_is_nan x \<and> \<not> f32_is_nan y \<and> f32_rank x \<le> f32_rank y)"

definition f32_equal :: "float32 \<Rightarrow> float32 \<Rightarrow> bool" where
  "f32_equal x y = (\<not> f32_is_nan x \<and> \<not> f32_is_nan y \<and> f32_rank x = f32_rank y)"

definition f32_add :: "float32 \<Rightarrow> float32 \<Rightarrow> float32" where
  "f32_add x y = fp_f32 (fp_add (f32_fp x) (f32_fp y))"
definition f32_sub :: "float32 \<Rightarrow> float32 \<Rightarrow> float32" where
  "f32_sub x y = fp_f32 (fp_sub (f32_fp x) (f32_fp y))"
definition f32_mul :: "float32 \<Rightarrow> float32 \<Rightarrow> float32" where
  "f32_mul x y = fp_f32 (fp_mul (f32_fp x) (f32_fp y))"
definition f32_div :: "float32 \<Rightarrow> float32 \<Rightarrow> float32" where
  "f32_div x y = fp_f32 (fp_div 23 (f32_fp x) (f32_fp y))"
definition f64_add :: "float64 \<Rightarrow> float64 \<Rightarrow> float64" where
  "f64_add x y = fp_f64 (fp_add (f64_fp x) (f64_fp y))"
definition f64_div :: "float64 \<Rightarrow> float64 \<Rightarrow> float64" where
  "f64_div x y = fp_f64 (fp_div 52 (f64_fp x) (f64_fp y))"

definition f32_of_int :: "int \<Rightarrow> float32" where
  "f32_of_int i = fp_f32 (FFin (i < 0) (nat \<bar>i\<bar>) 0)"
definition f64_of_int :: "int \<Rightarrow> float64" where
  "f64_of_int i = fp_f64 (FFin (i < 0) (nat \<bar>i\<bar>) 0)"
definition f64_of_f32 :: "float32 \<Rightarrow> float64" where "f64_of_f32 x = fp_f64 (f32_fp x)"
definition f32_of_f64 :: "float64 \<Rightarrow> float32" where "f32_of_f64 x = fp_f32 (f64_fp x)"

abbreviation f32_zero :: float32 where "f32_zero \<equiv> Float32 0"
abbreviation f64_zero :: float64 where "f64_zero \<equiv> Float64 0"

section \<open>The order of floats\<close>

lemma f32_less_irrefl [simp]: "\<not> f32_less x x"
  by (simp add: f32_less_def)

lemma f32_less_asym: "f32_less x y \<Longrightarrow> \<not> f32_less y x"
  by (simp add: f32_less_def)

lemma f32_less_trans: "f32_less x y \<Longrightarrow> f32_less y z \<Longrightarrow> f32_less x z"
  by (simp add: f32_less_def)

text \<open>On values that are not NaN the order is a total preorder: not less is transitive.\<close>

lemma f32_not_less_trans:
  "\<not> f32_is_nan y \<Longrightarrow> \<not> f32_less y x \<Longrightarrow> \<not> f32_less z y \<Longrightarrow> \<not> f32_less z x"
  by (auto simp: f32_less_def)

lemma f32_equal_iff: "\<not> f32_is_nan x \<Longrightarrow> \<not> f32_is_nan y \<Longrightarrow>
    f32_equal x y \<longleftrightarrow> \<not> f32_less x y \<and> \<not> f32_less y x"
  by (auto simp: f32_equal_def f32_less_def)

lemma f32_less_eq_iff: "f32_less_eq x y \<longleftrightarrow> f32_less x y \<or> f32_equal x y"
  by (auto simp: f32_less_eq_def f32_equal_def f32_less_def)

subsection \<open>Evaluation of concrete floats\<close>

lemma bit_length_rec [simp]:
  "bit_length 0 = 0"
  "bit_length (numeral num.One) = 1"
  "bit_length (numeral (num.Bit0 n)) = Suc (bit_length (numeral n))"
  "bit_length (numeral (num.Bit1 n)) = Suc (bit_length (numeral n))"
  "bit_length (Suc 0) = 1"
  by (subst bit_length.simps, simp add: bit_length.simps)+

lemmas float_eval = f32_fp_def f64_fp_def fp_f32_def fp_f64_def fp_decode_def fp_emin_def
  round_shift_def fp_sign_bits_def fp_inf_bits_def fp_round_def signed_int_def fp_sub_def
  f32_is_nan_def f32_rank_def f32_less_def f32_less_eq_def f32_equal_def f32_add_def f32_sub_def
  f32_mul_def f32_div_def f64_add_def f64_div_def f32_of_int_def f64_of_int_def
  f64_of_f32_def f32_of_f64_def Let_def

text \<open>Reference values: \<open>1.5\<close>, \<open>0.1 + 0.2\<close>, \<open>1 / 3\<close>, \<open>16777217\<close> and \<open>1 / 0\<close> in binary32.\<close>

lemma float_reference_values:
  "f32_add (f32_of_int 1) (Float32 0x3F000000) = Float32 0x3FC00000"
  "f32_add (Float32 0x3DCCCCCD) (Float32 0x3E4CCCCD) = Float32 0x3E99999A"
  "f32_div (f32_of_int 1) (f32_of_int 3) = Float32 0x3EAAAAAB"
  "f32_of_int 16777217 = Float32 0x4B800000"
  "f32_div (f32_of_int 1) f32_zero = Float32 0x7F800000"
  "f64_of_f32 (Float32 0x3DCCCCCD) = Float64 0x3FB99999A0000000"
  "f32_of_f64 (Float64 0x3FB999999999999A) = Float32 0x3DCCCCCD"
  "f32_less (f32_of_int (- 1)) (Float32 0x00000001)"
  by (simp_all add: float_eval)

end
