(* ===== verification/Columns.thy ===== *)
theory Columns
  imports Bitmap Floats
begin

text \<open>
  \<open>storage/fixed_width_column\<close> and \<open>storage/varchar_column\<close>, and the variant over the
  three column types that staging, chunks, joins and aggregation pass around.

  A column is abstracted to its list of \<^emph>\<open>cells\<close>: the raw stored value of a row together
  with its validity bit. The raw value matters even for a null row, because the expression
  evaluator computes on it before it masks nulls. The locale \<open>column_store\<close> is the contract
  all column types share; its loop lemma is what every copying loop of the engine rests on.
\<close>

section \<open>FixedWidthColumn\<close>

record 'a FixedWidthColumn =
  fw_values :: "'a list"
  fw_validity :: ValidityBitmap

definition EmptyFixedWidth :: "'a FixedWidthColumn" where
  "EmptyFixedWidth = \<lparr>fw_values = [], fw_validity = MakeValidityBitmap 0 True\<rparr>"

definition fw_Append :: "'a FixedWidthColumn \<Rightarrow> 'a \<Rightarrow> 'a FixedWidthColumn result" where
  "fw_Append c value = rbind (PushBack (fw_validity c) True) (\<lambda>v.
     Inr \<lparr>fw_values = fw_values c @ [value], fw_validity = v\<rparr>)"

text \<open>\<open>zero\<close> is the value-initialised \<open>T{}\<close> of the element type.\<close>

definition fw_AppendNull :: "'a \<Rightarrow> 'a FixedWidthColumn \<Rightarrow> 'a FixedWidthColumn result" where
  "fw_AppendNull zero c = rbind (PushBack (fw_validity c) False) (\<lambda>v.
     Inr \<lparr>fw_values = fw_values c @ [zero], fw_validity = v\<rparr>)"

definition fw_GetValue :: "'a FixedWidthColumn \<Rightarrow> nat \<Rightarrow> 'a result" where
  "fw_GetValue c index = vec_at (fw_values c) index"

definition fw_SetValue :: "'a FixedWidthColumn \<Rightarrow> nat \<Rightarrow> 'a \<Rightarrow> 'a FixedWidthColumn result" where
  "fw_SetValue c index value =
     (if index < length (fw_values c)
      then rbind (SetValid (fw_validity c) index True) (\<lambda>v.
             Inr \<lparr>fw_values = (fw_values c)[index := value], fw_validity = v\<rparr>)
      else Inl (UndefinedBehaviour ''vector index out of range''))"

definition fw_SetNull :: "'a FixedWidthColumn \<Rightarrow> nat \<Rightarrow> bool \<Rightarrow> 'a FixedWidthColumn result" where
  "fw_SetNull c index is_null = rbind (SetValid (fw_validity c) index (\<not> is_null)) (\<lambda>v.
     Inr (c\<lparr>fw_validity := v\<rparr>))"

definition fw_IsNull :: "'a FixedWidthColumn \<Rightarrow> nat \<Rightarrow> bool result" where
  "fw_IsNull c index = IsNull (fw_validity c) index"

definition fw_IsValid :: "'a FixedWidthColumn \<Rightarrow> nat \<Rightarrow> bool result" where
  "fw_IsValid c index = IsValid (fw_validity c) index"

definition fw_Size :: "'a FixedWidthColumn \<Rightarrow> nat" where
  "fw_Size c = length (fw_values c)"

section \<open>VarcharColumn\<close>

record VarcharColumn =
  vc_data_buffer :: bytes
  vc_offsets :: "int32 list"
  vc_validity :: ValidityBitmap

definition EmptyVarchar :: VarcharColumn where
  "EmptyVarchar = \<lparr>vc_data_buffer = [], vc_offsets = [0], vc_validity = MakeValidityBitmap 0 True\<rparr>"

definition vc_Append :: "VarcharColumn \<Rightarrow> string \<Rightarrow> VarcharColumn result" where
  "vc_Append c value =
     (let data = vc_data_buffer c @ bytes_of_string value
      in rbind (PushBack (vc_validity c) True) (\<lambda>v.
           Inr \<lparr>vc_data_buffer = data, vc_offsets = vc_offsets c @ [word_of_nat (length data)],
                vc_validity = v\<rparr>))"

definition vc_AppendNull :: "VarcharColumn \<Rightarrow> VarcharColumn result" where
  "vc_AppendNull c = rbind (PushBack (vc_validity c) False) (\<lambda>v.
     Inr \<lparr>vc_data_buffer = vc_data_buffer c,
          vc_offsets = vc_offsets c @ [word_of_nat (length (vc_data_buffer c))], vc_validity = v\<rparr>)"

text \<open>
  The 32-bit signed offsets are sign-extended to \<open>std::size_t\<close>; a view that does not lie
  inside the data buffer is undefined behaviour when it is read.
\<close>

definition vc_GetValue :: "VarcharColumn \<Rightarrow> nat \<Rightarrow> string result" where
  "vc_GetValue c index =
     rbind (vec_at (vc_offsets c) index) (\<lambda>s.
     rbind (vec_at (vc_offsets c) (index + 1)) (\<lambda>e.
       let start = unat (scast s :: uint64); end = unat (scast e :: uint64)
       in if start \<le> end \<and> end \<le> length (vc_data_buffer c)
          then Inr (string_of_bytes (take (end - start) (drop start (vc_data_buffer c))))
          else Inl (UndefinedBehaviour ''string_view outside the data buffer'')))"

definition vc_IsNull :: "VarcharColumn \<Rightarrow> nat \<Rightarrow> bool result" where
  "vc_IsNull c index = IsNull (vc_validity c) index"

definition vc_IsValid :: "VarcharColumn \<Rightarrow> nat \<Rightarrow> bool result" where
  "vc_IsValid c index = IsValid (vc_validity c) index"

definition vc_Size :: "VarcharColumn \<Rightarrow> nat" where
  "vc_Size c = length (vc_offsets c) - 1"

section \<open>The column contract\<close>

text \<open>
  \<open>load\<close> is the number of bytes a column's buffer holds and \<open>weight\<close> what a value adds; an
  append is only defined to be readable while the load stays below \<open>capacity\<close>.
\<close>

locale column_store =
  fixes empty :: "'c"
    and append :: "'c \<Rightarrow> 'v \<Rightarrow> 'c result"
    and append_null :: "'c \<Rightarrow> 'c result"
    and get :: "'c \<Rightarrow> nat \<Rightarrow> 'v result"
    and is_null :: "'c \<Rightarrow> nat \<Rightarrow> bool result"
    and size_of :: "'c \<Rightarrow> nat"
    and invar :: "'c \<Rightarrow> bool"
    and cells :: "'c \<Rightarrow> ('v \<times> bool) list"
    and zero :: "'v"
    and weight :: "'v \<Rightarrow> nat"
    and load :: "'c \<Rightarrow> nat"
    and capacity :: nat
  assumes empty_spec: "invar empty" "cells empty = []" "load empty = 0"
    and append_spec: "invar c \<Longrightarrow> load c + weight v < capacity \<Longrightarrow>
      \<exists>c'. append c v = Inr c' \<and> invar c' \<and> cells c' = cells c @ [(v, True)] \<and>
        load c' = load c + weight v"
    and append_null_spec: "invar c \<Longrightarrow>
      \<exists>c'. append_null c = Inr c' \<and> invar c' \<and> cells c' = cells c @ [(zero, False)] \<and>
        load c' = load c"
    and get_spec: "invar c \<Longrightarrow> i < length (cells c) \<Longrightarrow> get c i = Inr (fst (cells c ! i))"
    and is_null_spec: "invar c \<Longrightarrow> i < length (cells c) \<Longrightarrow> is_null c i = Inr (\<not> snd (cells c ! i))"
    and size_spec: "invar c \<Longrightarrow> size_of c = length (cells c)"
    and zero_weight: "weight zero = 0"
begin

text \<open>Appending a nullable value: a valid cell keeps its value, a null one is zeroed.\<close>

definition append_cell :: "'v option \<Rightarrow> 'c \<Rightarrow> 'c result" where
  "append_cell x c = (case x of None \<Rightarrow> append_null c | Some v \<Rightarrow> append c v)"

definition cell_of :: "'v option \<Rightarrow> 'v \<times> bool" where
  "cell_of x = (case x of None \<Rightarrow> (zero, False) | Some v \<Rightarrow> (v, True))"

definition opt_weight :: "'v option \<Rightarrow> nat" where
  "opt_weight x = (case x of None \<Rightarrow> 0 | Some v \<Rightarrow> weight v)"

lemma append_cell_spec:
  assumes "invar c" and "load c + opt_weight x < capacity"
  shows "\<exists>c'. append_cell x c = Inr c' \<and> invar c' \<and> cells c' = cells c @ [cell_of x] \<and>
    load c' = load c + opt_weight x"
proof (cases x)
  case None
  with append_null_spec [OF assms(1)] show ?thesis
    by (simp add: append_cell_def cell_of_def opt_weight_def)
next
  case (Some v)
  with append_spec [OF assms(1), of v] assms(2) show ?thesis
    by (simp add: append_cell_def cell_of_def opt_weight_def)
qed

lemma append_loop:
  assumes "invar c" and "load c + sum_list (map opt_weight xs) < capacity"
  shows "\<exists>c'. rfold append_cell xs c = Inr c' \<and> invar c' \<and> cells c' = cells c @ map cell_of xs \<and>
    load c' = load c + sum_list (map opt_weight xs)"
  using assms
proof (induction xs arbitrary: c)
  case (Cons x xs)
  from append_cell_spec [OF Cons.prems(1), of x] Cons.prems(2) obtain c' where
    "append_cell x c = Inr c'" "invar c'" "cells c' = cells c @ [cell_of x]"
    "load c' = load c + opt_weight x"
    by auto
  with Cons.IH [of c'] Cons.prems(2) show ?case
    by (simp add: add.assoc)
qed simp

end

section \<open>Fixed-width columns satisfy it\<close>

definition fw_inv :: "'a FixedWidthColumn \<Rightarrow> bool" where
  "fw_inv c = (vb_inv (fw_validity c) \<and> vb_num_rows (fw_validity c) = length (fw_values c))"

definition fw_cells :: "'a FixedWidthColumn \<Rightarrow> ('a \<times> bool) list" where
  "fw_cells c = zip (fw_values c) (vb_bits (fw_validity c))"

lemma fw_cells_length [simp]: "fw_inv c \<Longrightarrow> length (fw_cells c) = length (fw_values c)"
  by (simp add: fw_inv_def fw_cells_def)

lemma fw_push:
  assumes "fw_inv c" and "PushBack (fw_validity c) b = Inr v"
  shows "fw_inv \<lparr>fw_values = fw_values c @ [x], fw_validity = v\<rparr>"
    and "fw_cells \<lparr>fw_values = fw_values c @ [x], fw_validity = v\<rparr> = fw_cells c @ [(x, b)]"
proof -
  from assms have v: "vb_inv v" "vb_bits v = vb_bits (fw_validity c) @ [b]"
    using vb.push_spec [of "fw_validity c" b] by (auto simp: fw_inv_def)
  then have "vb_num_rows v = Suc (vb_num_rows (fw_validity c))"
    by (metis length_append_singleton length_vb_bits)
  with v assms(1) show "fw_inv \<lparr>fw_values = fw_values c @ [x], fw_validity = v\<rparr>"
    and "fw_cells \<lparr>fw_values = fw_values c @ [x], fw_validity = v\<rparr> = fw_cells c @ [(x, b)]"
    by (simp_all add: fw_inv_def fw_cells_def)
qed

lemma fw_Append_spec:
  assumes "fw_inv c"
  shows "\<exists>c'. fw_Append c x = Inr c' \<and> fw_inv c' \<and> fw_cells c' = fw_cells c @ [(x, True)]"
proof -
  from vb.push_spec [of "fw_validity c" True] assms obtain v where
    "PushBack (fw_validity c) True = Inr v"
    by (auto simp: fw_inv_def)
  with fw_push [OF assms this] show ?thesis
    by (simp add: fw_Append_def)
qed

lemma fw_AppendNull_spec:
  assumes "fw_inv c"
  shows "\<exists>c'. fw_AppendNull z c = Inr c' \<and> fw_inv c' \<and> fw_cells c' = fw_cells c @ [(z, False)]"
proof -
  from vb.push_spec [of "fw_validity c" False] assms obtain v where
    "PushBack (fw_validity c) False = Inr v"
    by (auto simp: fw_inv_def)
  with fw_push [OF assms this] show ?thesis
    by (simp add: fw_AppendNull_def)
qed

lemma fw_GetValue_cells:
  "fw_inv c \<Longrightarrow> i < length (fw_values c) \<Longrightarrow> fw_GetValue c i = Inr (fst (fw_cells c ! i))"
  by (simp add: fw_GetValue_def fw_cells_def fw_inv_def)

lemma fw_IsValid_cells:
  "fw_inv c \<Longrightarrow> i < length (fw_values c) \<Longrightarrow> fw_IsValid c i = Inr (snd (fw_cells c ! i))"
  by (simp add: fw_IsValid_def fw_cells_def fw_inv_def IsValid_bits)

lemma fw_IsNull_cells:
  "fw_inv c \<Longrightarrow> i < length (fw_values c) \<Longrightarrow> fw_IsNull c i = Inr (\<not> snd (fw_cells c ! i))"
  by (simp add: fw_IsNull_def fw_cells_def fw_inv_def IsNull_bits)

lemma fw_SetNull_spec:
  assumes "fw_inv c" and "i < length (fw_values c)"
  shows "\<exists>c'. fw_SetNull c i b = Inr c' \<and> fw_inv c' \<and>
    fw_cells c' = (fw_cells c)[i := (fst (fw_cells c ! i), \<not> b)]"
proof -
  from vb.set_spec [of "fw_validity c" i "\<not> b"] assms obtain v where v:
    "SetValid (fw_validity c) i (\<not> b) = Inr v" "vb_inv v"
    "vb_bits v = (vb_bits (fw_validity c))[i := \<not> b]"
    by (auto simp: fw_inv_def)
  from v(3) have "vb_num_rows v = vb_num_rows (fw_validity c)"
    by (metis length_list_update length_vb_bits)
  moreover have "zip (fw_values c) ((vb_bits (fw_validity c))[i := \<not> b]) =
      (fw_cells c)[i := (fw_values c ! i, \<not> b)]"
    by (simp add: fw_cells_def update_zip)
  ultimately show ?thesis
    using v assms by (simp add: fw_SetNull_def fw_inv_def fw_cells_def)
qed

lemma fw_SetValue_spec:
  assumes "fw_inv c" and "i < length (fw_values c)"
  shows "\<exists>c'. fw_SetValue c i x = Inr c' \<and> fw_inv c' \<and> fw_cells c' = (fw_cells c)[i := (x, True)]"
proof -
  from vb.set_spec [of "fw_validity c" i True] assms obtain v where v:
    "SetValid (fw_validity c) i True = Inr v" "vb_inv v"
    "vb_bits v = (vb_bits (fw_validity c))[i := True]"
    by (auto simp: fw_inv_def)
  from v(3) have "vb_num_rows v = vb_num_rows (fw_validity c)"
    by (metis length_list_update length_vb_bits)
  with v assms show ?thesis
    by (simp add: fw_SetValue_def fw_inv_def fw_cells_def update_zip)
qed

lemma EmptyFixedWidth_spec: "fw_inv EmptyFixedWidth" "fw_cells EmptyFixedWidth = []"
  using MakeValidityBitmap_bits [of 0 True]
  by (simp_all add: fw_inv_def fw_cells_def EmptyFixedWidth_def MakeValidityBitmap_def)

interpretation int_column: column_store
  EmptyFixedWidth fw_Append "fw_AppendNull (0::int32)" fw_GetValue fw_IsNull fw_Size
  fw_inv fw_cells 0 "\<lambda>_. 0" "\<lambda>_. 0" 1
  by unfold_locales
    (simp_all add: EmptyFixedWidth_spec fw_Append_spec fw_AppendNull_spec fw_GetValue_cells
      fw_IsNull_cells fw_Size_def)

interpretation float_column: column_store
  EmptyFixedWidth fw_Append "fw_AppendNull f32_zero" fw_GetValue fw_IsNull fw_Size
  fw_inv fw_cells f32_zero "\<lambda>_. 0" "\<lambda>_. 0" 1
  by unfold_locales
    (simp_all add: EmptyFixedWidth_spec fw_Append_spec fw_AppendNull_spec fw_GetValue_cells
      fw_IsNull_cells fw_Size_def)

section \<open>Varchar columns satisfy it\<close>

definition vc_inv :: "VarcharColumn \<Rightarrow> bool" where
  "vc_inv c = (vb_inv (vc_validity c) \<and> length (vc_offsets c) = vb_num_rows (vc_validity c) + 1 \<and>
     sorted (map unat (vc_offsets c)) \<and> unat (last (vc_offsets c)) = length (vc_data_buffer c) \<and>
     length (vc_data_buffer c) < 2 ^ 31)"

definition slice :: "nat \<Rightarrow> nat \<Rightarrow> 'a list \<Rightarrow> 'a list" where
  "slice s e xs = take (e - s) (drop s xs)"

definition vc_string :: "VarcharColumn \<Rightarrow> nat \<Rightarrow> string" where
  "vc_string c i = string_of_bytes
     (slice (unat (vc_offsets c ! i)) (unat (vc_offsets c ! Suc i)) (vc_data_buffer c))"

definition vc_cells :: "VarcharColumn \<Rightarrow> (string \<times> bool) list" where
  "vc_cells c = map (\<lambda>i. (vc_string c i, vb_bits (vc_validity c) ! i)) [0..<vb_num_rows (vc_validity c)]"

lemma length_vc_cells [simp]: "length (vc_cells c) = vb_num_rows (vc_validity c)"
  by (simp add: vc_cells_def)

lemma unat_scast_nonneg:
  assumes "unat (w :: int32) < 2 ^ 31"
  shows "unat (scast w :: uint64) = unat w"
proof -
  from assms have "take_bit 31 w = w"
    by (metis unsigned_take_bit_eq take_bit_nat_eq_self word_unat_eq_iff)
  then have "\<not> bit w 31"
    by (metis bit_take_bit_iff less_irrefl)
  then have "n < 31" if "bit w n" for n
    using bit_imp_le_length [OF that] that by (cases "n = 31") auto
  with \<open>\<not> bit w 31\<close> have "scast w = (ucast w :: uint64)"
    by (intro bit_word_eqI) (fastforce simp: bit_simps min_def split: if_splits)
  then show ?thesis
    using assms by (simp add: unsigned_ucast_eq take_bit_nat_eq_self)
qed

lemma vc_offset_bound:
  assumes "vc_inv c" and "i < length (vc_offsets c)"
  shows "unat (vc_offsets c ! i) \<le> length (vc_data_buffer c)"
proof -
  have "map unat (vc_offsets c) ! i \<le> map unat (vc_offsets c) ! (length (vc_offsets c) - 1)"
    using assms by (intro sorted_nth_mono) (auto simp: vc_inv_def)
  moreover have "vc_offsets c \<noteq> []"
    using assms(2) by auto
  ultimately show ?thesis
    using assms by (auto simp: vc_inv_def last_conv_nth)
qed

lemma vc_offset_mono:
  assumes "vc_inv c" and "Suc i < length (vc_offsets c)"
  shows "unat (vc_offsets c ! i) \<le> unat (vc_offsets c ! Suc i)"
  using assms sorted_nth_mono [of "map unat (vc_offsets c)" i "Suc i"] by (simp add: vc_inv_def)

lemma vc_GetValue_string:
  assumes "vc_inv c" and "i < vb_num_rows (vc_validity c)"
  shows "vc_GetValue c i = Inr (vc_string c i)"
proof -
  have len: "Suc i < length (vc_offsets c)"
    using assms by (simp add: vc_inv_def)
  have "unat (vc_offsets c ! i) < 2 ^ 31" "unat (vc_offsets c ! Suc i) < 2 ^ 31"
    using vc_offset_bound [OF assms(1), of i] vc_offset_bound [OF assms(1), of "Suc i"] assms len
    by (simp_all add: vc_inv_def)
  then show ?thesis
    using len vc_offset_bound [OF assms(1), of "Suc i"] vc_offset_mono [OF assms(1) len]
    by (simp add: vc_GetValue_def vc_string_def slice_def unat_scast_nonneg Let_def)
qed

text \<open>One step of growth: the buffer gets \<open>bs\<close> appended and a row with validity \<open>b\<close> is added.\<close>

lemma vc_grow:
  assumes inv: "vc_inv c" and push: "PushBack (vc_validity c) b = Inr v"
    and small: "length (vc_data_buffer c) + length bs < 2 ^ 31"
  defines "c' \<equiv> \<lparr>vc_data_buffer = vc_data_buffer c @ bs,
      vc_offsets = vc_offsets c @ [word_of_nat (length (vc_data_buffer c) + length bs)],
      vc_validity = v\<rparr>"
  shows "vc_inv c'" and "vc_cells c' = vc_cells c @ [(string_of_bytes bs, b)]"
proof -
  let ?n = "vb_num_rows (vc_validity c)"
  from inv push have v: "vb_inv v" "vb_bits v = vb_bits (vc_validity c) @ [b]"
    using vb.push_spec [of "vc_validity c" b] by (auto simp: vc_inv_def)
  then have rows: "vb_num_rows v = Suc ?n"
    by (metis length_append_singleton length_vb_bits)
  have new: "unat (word_of_nat (length (vc_data_buffer c) + length bs) :: int32) =
      length (vc_data_buffer c) + length bs"
    using small by (intro unat_of_nat_small) simp
  have "x \<le> length (vc_data_buffer c)" if "x \<in> set (map unat (vc_offsets c))" for x
    using that vc_offset_bound [OF inv] by (auto simp: in_set_conv_nth)
  then have "sorted (map unat (vc_offsets c) @ [length (vc_data_buffer c) + length bs])"
    using inv by (auto simp: sorted_append vc_inv_def trans_le_add1)
  with inv v(1) rows small show "vc_inv c'"
    unfolding vc_inv_def c'_def by (simp add: new del: of_nat_add)
  have ne: "vc_offsets c \<noteq> []" and lenoff: "length (vc_offsets c) = Suc ?n"
    using inv by (auto simp: vc_inv_def)
  have old: "vc_string c' i = vc_string c i" if "i < ?n" for i
  proof -
    from that lenoff have "Suc i < length (vc_offsets c)" by simp
    with vc_offset_bound [OF inv this] vc_offset_mono [OF inv this] that lenoff show ?thesis
      by (simp add: vc_string_def slice_def c'_def nth_append)
  qed
  have "unat (vc_offsets c ! ?n) = length (vc_data_buffer c)"
    using inv ne lenoff by (simp add: vc_inv_def last_conv_nth)
  then have last: "vc_string c' ?n = string_of_bytes bs"
    using lenoff by (simp add: vc_string_def slice_def c'_def nth_append new del: of_nat_add)
  have "vc_cells c' = map (\<lambda>i. (vc_string c' i, vb_bits v ! i)) [0..<Suc ?n]"
    by (simp only: vc_cells_def rows) (simp add: c'_def rows)
  also have "\<dots> = vc_cells c @ [(string_of_bytes bs, b)]"
    by (simp add: last old v(2) nth_append vc_cells_def)
  finally show "vc_cells c' = vc_cells c @ [(string_of_bytes bs, b)]" .
qed

lemma vc_Append_spec:
  assumes "vc_inv c" and "length (vc_data_buffer c) + length s < 2 ^ 31"
  shows "\<exists>c'. vc_Append c s = Inr c' \<and> vc_inv c' \<and> vc_cells c' = vc_cells c @ [(s, True)] \<and>
    length (vc_data_buffer c') = length (vc_data_buffer c) + length s"
proof -
  from vb.push_spec [of "vc_validity c" True] assms obtain v where v:
    "PushBack (vc_validity c) True = Inr v"
    by (auto simp: vc_inv_def)
  from vc_grow [OF assms(1) v, of "bytes_of_string s"] assms(2) v show ?thesis
    by (simp add: vc_Append_def Let_def)
qed

lemma vc_AppendNull_spec:
  assumes "vc_inv c"
  shows "\<exists>c'. vc_AppendNull c = Inr c' \<and> vc_inv c' \<and> vc_cells c' = vc_cells c @ [([], False)] \<and>
    length (vc_data_buffer c') = length (vc_data_buffer c)"
proof -
  from vb.push_spec [of "vc_validity c" False] assms obtain v where v:
    "PushBack (vc_validity c) False = Inr v"
    by (auto simp: vc_inv_def)
  from vc_grow [OF assms v, of "[]"] assms v show ?thesis
    by (simp add: vc_AppendNull_def vc_inv_def string_of_bytes_def)
qed

lemma vc_IsNull_cells:
  "vc_inv c \<Longrightarrow> i < length (vc_cells c) \<Longrightarrow> vc_IsNull c i = Inr (\<not> snd (vc_cells c ! i))"
  by (simp add: vc_IsNull_def vc_cells_def vc_inv_def IsNull_bits)

lemma vc_IsValid_cells:
  "vc_inv c \<Longrightarrow> i < length (vc_cells c) \<Longrightarrow> vc_IsValid c i = Inr (snd (vc_cells c ! i))"
  by (simp add: vc_IsValid_def vc_cells_def vc_inv_def IsValid_bits)

lemma vc_GetValue_cells:
  "vc_inv c \<Longrightarrow> i < length (vc_cells c) \<Longrightarrow> vc_GetValue c i = Inr (fst (vc_cells c ! i))"
  by (simp add: vc_GetValue_string) (simp add: vc_cells_def)

lemma vc_Size_cells: "vc_inv c \<Longrightarrow> vc_Size c = length (vc_cells c)"
  by (simp add: vc_Size_def vc_inv_def)

lemma EmptyVarchar_spec: "vc_inv EmptyVarchar" "vc_cells EmptyVarchar = []"
  "vc_data_buffer EmptyVarchar = []"
  using MakeValidityBitmap_bits [of 0 True]
  by (simp_all add: vc_inv_def vc_cells_def EmptyVarchar_def MakeValidityBitmap_def)

interpretation varchar_column: column_store
  EmptyVarchar vc_Append vc_AppendNull vc_GetValue vc_IsNull vc_Size
  vc_inv vc_cells "[]" length "\<lambda>c. length (vc_data_buffer c)" "2 ^ 31"
  by unfold_locales
    (simp_all only: EmptyVarchar_spec vc_Append_spec vc_AppendNull_spec vc_IsNull_cells
      vc_GetValue_cells vc_Size_cells list.size)

end
