(* ===== verification/ZoneMaps.thy ===== *)
theory ZoneMaps
  imports Columns
begin

text \<open>
  \<open>storage/zone_map\<close>, \<open>storage/page_range\<close>, \<open>storage/column_footer_entry\<close> and
  \<open>storage/row_group_footer_entry\<close>: the per-column minimum and maximum kept in the footer,
  and the footer entries that carry them. The C++ templates over \<open>std::int32_t\<close> and
  \<open>float\<close> take the element type's \<open>operator<\<close> and its \<open>T{}\<close> as arguments here.

  Two locales state what the zone maps rely on: \<open>strict_order\<close> (enough for the invariant
  that makes a zone map survive serialization, NaN included) and \<open>scalar_order\<close> (a total
  preorder away from NaN, which makes the bounds cover every value).
\<close>

section \<open>Zone maps\<close>

definition std_min :: "('a \<Rightarrow> 'a \<Rightarrow> bool) \<Rightarrow> 'a \<Rightarrow> 'a \<Rightarrow> 'a" where
  "std_min lt a b = (if lt b a then b else a)"

definition std_max :: "('a \<Rightarrow> 'a \<Rightarrow> bool) \<Rightarrow> 'a \<Rightarrow> 'a \<Rightarrow> 'a" where
  "std_max lt a b = (if lt a b then b else a)"

record 'a ZoneMap =
  zm_has_values :: bool
  zm_min :: 'a
  zm_max :: 'a

definition EmptyZoneMap :: "'a \<Rightarrow> 'a ZoneMap" where
  "EmptyZoneMap zero = \<lparr>zm_has_values = False, zm_min = zero, zm_max = zero\<rparr>"

definition zm_Update :: "('a \<Rightarrow> 'a \<Rightarrow> bool) \<Rightarrow> 'a ZoneMap \<Rightarrow> 'a \<Rightarrow> 'a ZoneMap" where
  "zm_Update lt z value =
     (if \<not> zm_has_values z then z\<lparr>zm_min := value, zm_max := value, zm_has_values := True\<rparr>
      else z\<lparr>zm_min := std_min lt (zm_min z) value, zm_max := std_max lt (zm_max z) value\<rparr>)"

definition TruncatePrefix :: "string \<Rightarrow> string" where
  "TruncatePrefix value = take (min (length value) kZoneMapPrefixLength) value"

record VarcharZoneMap =
  vz_has_values :: bool
  vz_min_prefix :: string
  vz_max_prefix :: string

definition EmptyVarcharZoneMap :: VarcharZoneMap where
  "EmptyVarcharZoneMap = \<lparr>vz_has_values = False, vz_min_prefix = [], vz_max_prefix = []\<rparr>"

definition vz_Update :: "VarcharZoneMap \<Rightarrow> string \<Rightarrow> VarcharZoneMap" where
  "vz_Update z value =
     (let prefix = TruncatePrefix value
      in if \<not> vz_has_values z
         then z\<lparr>vz_min_prefix := prefix, vz_max_prefix := prefix, vz_has_values := True\<rparr>
         else z\<lparr>vz_min_prefix := std_min (<) (vz_min_prefix z) prefix,
                vz_max_prefix := std_max (<) (vz_max_prefix z) prefix\<rparr>)"

section \<open>Footer entries\<close>

record PageRange =
  start_page_id :: uint32
  page_count :: uint32

record 'a FixedWidthColumnFooterEntry =
  fe_pages :: PageRange
  fe_null_count :: uint32
  fe_zone_map :: "'a ZoneMap"

definition fe_Build :: "('a \<Rightarrow> 'a \<Rightarrow> bool) \<Rightarrow> 'a \<Rightarrow> 'a FixedWidthColumn \<Rightarrow> PageRange \<Rightarrow>
    'a FixedWidthColumnFooterEntry result" where
  "fe_Build lt zero column pages =
     rfold (\<lambda>i entry. rbind (fw_IsNull column i) (\<lambda>is_null.
         if is_null then Inr (entry\<lparr>fe_null_count := fe_null_count entry + 1\<rparr>)
         else rbind (fw_GetValue column i) (\<lambda>v.
           Inr (entry\<lparr>fe_zone_map := zm_Update lt (fe_zone_map entry) v\<rparr>))))
       [0..<fw_Size column]
       \<lparr>fe_pages = pages, fe_null_count = 0, fe_zone_map = EmptyZoneMap zero\<rparr>"

definition fe_FromFields :: "PageRange \<Rightarrow> uint32 \<Rightarrow> 'a ZoneMap \<Rightarrow> 'a FixedWidthColumnFooterEntry" where
  "fe_FromFields pages null_count zone =
     \<lparr>fe_pages = pages, fe_null_count = null_count, fe_zone_map = zone\<rparr>"

record VarcharColumnFooterEntry =
  ve_offsets_pages :: PageRange
  ve_data_pages :: PageRange
  ve_null_count :: uint32
  ve_zone_map :: VarcharZoneMap

definition ve_Build :: "VarcharColumn \<Rightarrow> PageRange \<Rightarrow> PageRange \<Rightarrow> VarcharColumnFooterEntry result" where
  "ve_Build column offsets_pages data_pages =
     rfold (\<lambda>i entry. rbind (vc_IsNull column i) (\<lambda>is_null.
         if is_null then Inr (entry\<lparr>ve_null_count := ve_null_count entry + 1\<rparr>)
         else rbind (vc_GetValue column i) (\<lambda>v.
           Inr (entry\<lparr>ve_zone_map := vz_Update (ve_zone_map entry) v\<rparr>))))
       [0..<vc_Size column]
       \<lparr>ve_offsets_pages = offsets_pages, ve_data_pages = data_pages, ve_null_count = 0,
        ve_zone_map = EmptyVarcharZoneMap\<rparr>"

definition ve_FromFields ::
    "PageRange \<Rightarrow> PageRange \<Rightarrow> uint32 \<Rightarrow> VarcharZoneMap \<Rightarrow> VarcharColumnFooterEntry" where
  "ve_FromFields offsets_pages data_pages null_count zone =
     \<lparr>ve_offsets_pages = offsets_pages, ve_data_pages = data_pages, ve_null_count = null_count,
      ve_zone_map = zone\<rparr>"

datatype ColumnFooterEntry =
    IntEntry "int32 FixedWidthColumnFooterEntry"
  | FloatEntry "float32 FixedWidthColumnFooterEntry"
  | VarcharEntry VarcharColumnFooterEntry

record RowGroupFooterEntry =
  rg_table_id :: uint32
  rg_row_count :: uint32
  rg_validity_bitmap_region :: PageRange
  rg_columns :: "ColumnFooterEntry list"

definition rg_Column :: "RowGroupFooterEntry \<Rightarrow> nat \<Rightarrow> ColumnFooterEntry result" where
  "rg_Column rg ordinal = vec_at (rg_columns rg) ordinal"

section \<open>Laws of the element order\<close>

locale strict_order =
  fixes lt :: "'a \<Rightarrow> 'a \<Rightarrow> bool"
  assumes lt_asym: "lt x y \<Longrightarrow> \<not> lt y x"
    and lt_trans: "lt x y \<Longrightarrow> lt y z \<Longrightarrow> lt x z"
begin

lemma lt_irrefl: "\<not> lt x x"
  using lt_asym by blast

text \<open>
  What serialization can reproduce: a zone map with values whose bounds are the same value
  or strictly ordered, or the untouched empty one.
\<close>

definition zone_wf :: "'a \<Rightarrow> 'a ZoneMap \<Rightarrow> bool" where
  "zone_wf zero z = (if zm_has_values z then zm_min z = zm_max z \<or> lt (zm_min z) (zm_max z)
     else z = EmptyZoneMap zero)"

lemma zone_wf_empty: "zone_wf zero (EmptyZoneMap zero)"
  by (simp add: zone_wf_def EmptyZoneMap_def)

lemma zone_wf_update: "zone_wf zero z \<Longrightarrow> zone_wf zero (zm_Update lt z v)"
  by (auto simp: zone_wf_def zm_Update_def std_min_def std_max_def dest: lt_asym lt_trans)

lemma zone_rebuild:
  assumes "zone_wf zero z" and "zm_has_values z"
  shows "zm_Update lt (zm_Update lt (EmptyZoneMap zero) (zm_min z)) (zm_max z) = z"
  using assms by (cases z)
    (auto simp: zone_wf_def zm_Update_def std_min_def std_max_def EmptyZoneMap_def lt_irrefl
      dest: lt_asym)

end

locale scalar_order = strict_order +
  fixes comparable :: "'a \<Rightarrow> bool"
  assumes not_lt_trans: "comparable y \<Longrightarrow> \<not> lt y x \<Longrightarrow> \<not> lt z y \<Longrightarrow> \<not> lt z x"
begin

definition zone_covers :: "'a ZoneMap \<Rightarrow> 'a list \<Rightarrow> bool" where
  "zone_covers z vs = (zm_has_values z = (vs \<noteq> []) \<and>
     (vs \<noteq> [] \<longrightarrow> zm_min z \<in> set vs \<and> zm_max z \<in> set vs \<and>
       (\<forall>v \<in> set vs. \<not> lt v (zm_min z) \<and> \<not> lt (zm_max z) v)))"

lemma zone_covers_empty: "zone_covers (EmptyZoneMap zero) []"
  by (simp add: zone_covers_def EmptyZoneMap_def)

lemma zone_covers_update:
  assumes "zone_covers z vs" and "list_all comparable (vs @ [v])"
  shows "zone_covers (zm_Update lt z v) (vs @ [v])"
proof (cases "vs = []")
  case True
  with assms(1) show ?thesis
    by (simp add: zone_covers_def zm_Update_def lt_irrefl)
next
  case False
  with assms have z: "zm_has_values z" "zm_min z \<in> set vs" "zm_max z \<in> set vs"
    "\<And>u. u \<in> set vs \<Longrightarrow> \<not> lt u (zm_min z) \<and> \<not> lt (zm_max z) u"
    and ok: "comparable v" "comparable (zm_min z)" "comparable (zm_max z)"
    by (auto simp: zone_covers_def list_all_iff)
  let ?lo = "if lt v (zm_min z) then v else zm_min z"
  let ?hi = "if lt (zm_max z) v then v else zm_max z"
  have upd: "zm_Update lt z v = z\<lparr>zm_min := ?lo, zm_max := ?hi\<rparr>"
    using z(1) by (simp add: zm_Update_def std_min_def std_max_def)
  have below: "\<not> lt u ?lo" if "u \<in> set (vs @ [v])" for u
    using that z(4) [of u] not_lt_trans [OF ok(2), of v u] lt_asym lt_irrefl by auto
  have above: "\<not> lt ?hi u" if "u \<in> set (vs @ [v])" for u
    using that z(4) [of u] not_lt_trans [OF ok(3), of u v] lt_asym lt_irrefl by auto
  from z(1-3) show ?thesis
    using below above unfolding upd zone_covers_def by simp
qed

lemma zone_covers_fold:
  assumes "list_all comparable (us @ vs)" and "zone_covers z us"
  shows "zone_covers (fold (\<lambda>v z. zm_Update lt z v) vs z) (us @ vs)"
  using assms
proof (induction vs arbitrary: us z)
  case (Cons v vs)
  from Cons.prems have "zone_covers (zm_Update lt z v) (us @ [v])"
    by (intro zone_covers_update) auto
  with Cons.IH [of "us @ [v]"] Cons.prems(1) show ?case
    by simp
qed simp

end

interpretation int_order: scalar_order "word_sless :: int32 \<Rightarrow> _" "\<lambda>_. True"
  by unfold_locales (auto simp: word_sless_alt)

interpretation float_order: scalar_order f32_less "\<lambda>x. \<not> f32_is_nan x"
  by unfold_locales (auto dest: f32_less_asym f32_less_trans f32_not_less_trans)

interpretation string_order: scalar_order "(<) :: string \<Rightarrow> _" "\<lambda>_. True"
  by unfold_locales auto

section \<open>Varchar zone maps\<close>

text \<open>A \<open>VarcharZoneMap\<close> is a zone map over truncated strings.\<close>

definition vz_zone :: "VarcharZoneMap \<Rightarrow> string ZoneMap" where
  "vz_zone z = \<lparr>zm_has_values = vz_has_values z, zm_min = vz_min_prefix z, zm_max = vz_max_prefix z\<rparr>"

lemma vz_zone_update: "vz_zone (vz_Update z s) = zm_Update (<) (vz_zone z) (TruncatePrefix s)"
  by (simp add: vz_zone_def vz_Update_def zm_Update_def Let_def)

lemma vz_zone_empty: "vz_zone EmptyVarcharZoneMap = EmptyZoneMap []"
  by (simp add: vz_zone_def EmptyVarcharZoneMap_def EmptyZoneMap_def)

lemma vz_zone_inject [simp]: "vz_zone z = vz_zone z' \<longleftrightarrow> z = z'"
  by (cases z, cases z') (auto simp: vz_zone_def)

lemma TruncatePrefix_eq: "TruncatePrefix s = take 8 s"
  by (simp add: TruncatePrefix_def kZoneMapPrefixLength_def min_def)

text \<open>Truncation is monotone, so a prefix bound bounds the full strings' prefixes.\<close>

lemma take_mono_string: "(s :: string) \<le> t \<Longrightarrow> take n s \<le> take n t"
proof (induction n arbitrary: s t)
  case (Suc n)
  then show ?case
    by (cases s; cases t) (auto simp: Cons_le_Cons)
qed simp

section \<open>Building an entry from a column\<close>

text \<open>
  The values a column shows and the number of its nulls. \<open>Build\<close> scans the column once: it
  folds the non-null values into the zone map, in row order, and counts the nulls modulo
  \<open>2 ^ 32\<close>.
\<close>

definition valid_values :: "('v \<times> bool) list \<Rightarrow> 'v list" where
  "valid_values cs = map fst (filter snd cs)"

definition null_total :: "('v \<times> bool) list \<Rightarrow> nat" where
  "null_total cs = length (filter (\<lambda>c. \<not> snd c) cs)"

lemma fe_Build_eq:
  assumes "fw_inv column"
  shows "fe_Build lt zero column pages = Inr
    \<lparr>fe_pages = pages, fe_null_count = word_of_nat (null_total (fw_cells column)),
     fe_zone_map = fold (\<lambda>v z. zm_Update lt z v) (valid_values (fw_cells column)) (EmptyZoneMap zero)\<rparr>"
proof -
  let ?step = "\<lambda>i entry. rbind (fw_IsNull column i) (\<lambda>is_null.
         if is_null then Inr (entry\<lparr>fe_null_count := fe_null_count entry + 1\<rparr>)
         else rbind (fw_GetValue column i) (\<lambda>v.
           Inr (entry\<lparr>fe_zone_map := zm_Update lt (fe_zone_map entry) v\<rparr>)))"
  let ?cs = "fw_cells column"
  have "rfold ?step [0..<n] \<lparr>fe_pages = pages, fe_null_count = 0, fe_zone_map = EmptyZoneMap zero\<rparr> =
      Inr \<lparr>fe_pages = pages, fe_null_count = word_of_nat (null_total (take n ?cs)),
        fe_zone_map = fold (\<lambda>v z. zm_Update lt z v) (valid_values (take n ?cs)) (EmptyZoneMap zero)\<rparr>"
    if "n \<le> length ?cs" for n
    using that
  proof (induction n)
    case (Suc n)
    with assms have "n < length (fw_values column)" by simp
    with Suc show ?case
      by (simp add: rfold_append fw_IsNull_cells [OF assms] fw_GetValue_cells [OF assms]
          take_Suc_conv_app_nth null_total_def valid_values_def)
  qed (simp add: null_total_def valid_values_def)
  from this [of "length ?cs"] assms show ?thesis
    by (simp add: fe_Build_def fw_Size_def)
qed

lemma ve_Build_eq:
  assumes "vc_inv column"
  shows "ve_Build column offsets_pages data_pages = Inr
    \<lparr>ve_offsets_pages = offsets_pages, ve_data_pages = data_pages,
     ve_null_count = word_of_nat (null_total (vc_cells column)),
     ve_zone_map = fold (\<lambda>v z. vz_Update z v) (valid_values (vc_cells column)) EmptyVarcharZoneMap\<rparr>"
proof -
  let ?step = "\<lambda>i entry. rbind (vc_IsNull column i) (\<lambda>is_null.
         if is_null then Inr (entry\<lparr>ve_null_count := ve_null_count entry + 1\<rparr>)
         else rbind (vc_GetValue column i) (\<lambda>v.
           Inr (entry\<lparr>ve_zone_map := vz_Update (ve_zone_map entry) v\<rparr>)))"
  let ?cs = "vc_cells column"
  have "rfold ?step [0..<n] \<lparr>ve_offsets_pages = offsets_pages, ve_data_pages = data_pages,
        ve_null_count = 0, ve_zone_map = EmptyVarcharZoneMap\<rparr> =
      Inr \<lparr>ve_offsets_pages = offsets_pages, ve_data_pages = data_pages,
        ve_null_count = word_of_nat (null_total (take n ?cs)),
        ve_zone_map = fold (\<lambda>v z. vz_Update z v) (valid_values (take n ?cs)) EmptyVarcharZoneMap\<rparr>"
    if "n \<le> length ?cs" for n
    using that
  proof (induction n)
    case (Suc n)
    then have "n < length ?cs" by simp
    with Suc show ?case
      by (simp add: rfold_append vc_IsNull_cells [OF assms] vc_GetValue_cells [OF assms]
          take_Suc_conv_app_nth null_total_def valid_values_def del: length_vc_cells)
  qed (simp add: null_total_def valid_values_def)
  from this [of "length ?cs"] assms show ?thesis
    by (simp add: ve_Build_def vc_Size_cells del: length_vc_cells)
qed

end
