(* ===== verification/FooterFormat.thy ===== *)
theory FooterFormat
  imports ByteIO ZoneMaps
begin

text \<open>
  \<open>storage/footer\<close>: the footer is the list of all row groups' entries, serialized with a
  tag byte per column. Each writer and reader pair of the file is an instance of the
  \<open>codec\<close> contract, so that the round trip of the whole footer is a composition of
  the parts. A column entry can be read back when its zone map is one that \<open>Update\<close> builds.
\<close>

section \<open>Writers\<close>

definition kColumnTagInteger :: byte where "kColumnTagInteger = 0"
definition kColumnTagFloat :: byte where "kColumnTagFloat = 1"
definition kColumnTagVarchar :: byte where "kColumnTagVarchar = 2"

definition WritePageRange :: "bytes \<Rightarrow> PageRange \<Rightarrow> bytes" where
  "WritePageRange buf pr = WriteU32 (WriteU32 buf (start_page_id pr)) (page_count pr)"

definition WriteFixedPrefix :: "bytes \<Rightarrow> string \<Rightarrow> bytes" where
  "WriteFixedPrefix buf data =
     fold (\<lambda>i b. b @ [if i < length data then byte_of_char (data ! i) else 0])
       [0..<kZoneMapPrefixLength] (WriteU8 buf (word_of_nat (length data)))"

text \<open>\<open>WriteScalar<std::int32_t>\<close> is \<open>WriteU32\<close>, \<open>WriteScalar<float>\<close> is \<open>WriteFloat\<close>.\<close>

definition WriteFixedWidthEntry ::
    "(bytes \<Rightarrow> 'a \<Rightarrow> bytes) \<Rightarrow> bytes \<Rightarrow> 'a FixedWidthColumnFooterEntry \<Rightarrow> bytes" where
  "WriteFixedWidthEntry WriteScalar buf entry =
     (let buf = WritePageRange buf (fe_pages entry);
          buf = WriteU32 buf (fe_null_count entry);
          buf = WriteU8 buf (if zm_has_values (fe_zone_map entry) then 1 else 0)
      in if zm_has_values (fe_zone_map entry)
         then WriteScalar (WriteScalar buf (zm_min (fe_zone_map entry))) (zm_max (fe_zone_map entry))
         else buf)"

definition WriteVarcharEntry :: "bytes \<Rightarrow> VarcharColumnFooterEntry \<Rightarrow> bytes" where
  "WriteVarcharEntry buf entry =
     (let buf = WritePageRange buf (ve_offsets_pages entry);
          buf = WritePageRange buf (ve_data_pages entry);
          buf = WriteU32 buf (ve_null_count entry);
          buf = WriteU8 buf (if vz_has_values (ve_zone_map entry) then 1 else 0)
      in if vz_has_values (ve_zone_map entry)
         then WriteFixedPrefix (WriteFixedPrefix buf (vz_min_prefix (ve_zone_map entry)))
                (vz_max_prefix (ve_zone_map entry))
         else buf)"

fun WriteColumn :: "bytes \<Rightarrow> ColumnFooterEntry \<Rightarrow> bytes" where
  "WriteColumn buf (IntEntry entry) = WriteFixedWidthEntry WriteU32 (WriteU8 buf kColumnTagInteger) entry"
| "WriteColumn buf (FloatEntry entry) = WriteFixedWidthEntry WriteFloat (WriteU8 buf kColumnTagFloat) entry"
| "WriteColumn buf (VarcharEntry entry) = WriteVarcharEntry (WriteU8 buf kColumnTagVarchar) entry"

section \<open>Readers\<close>

definition ReadPageRange :: "ByteReader \<Rightarrow> (PageRange \<times> ByteReader) result" where
  "ReadPageRange r =
     rbind (ReadU32 r) (\<lambda>(start, r). rbind (ReadU32 r) (\<lambda>(count, r).
       Inr (\<lparr>start_page_id = start, page_count = count\<rparr>, r)))"

text \<open>\<open>std::string::resize\<close> truncates, or pads with zero bytes.\<close>

definition resize_string :: "nat \<Rightarrow> string \<Rightarrow> string" where
  "resize_string n s = take n s @ replicate (n - length s) (CHR 0x00)"

definition ReadFixedPrefixValue :: "ByteReader \<Rightarrow> (string \<times> ByteReader) result" where
  "ReadFixedPrefixValue r =
     rbind (ReadU8 r) (\<lambda>(len, r). rbind (ReadFixedBytes kZoneMapPrefixLength r) (\<lambda>(value, r).
       Inr (resize_string (unat len) value, r)))"

definition ReadFixedWidthEntry ::
    "(ByteReader \<Rightarrow> ('a \<times> ByteReader) result) \<Rightarrow> ('a \<Rightarrow> 'a \<Rightarrow> bool) \<Rightarrow> 'a \<Rightarrow> ByteReader \<Rightarrow>
     ('a FixedWidthColumnFooterEntry \<times> ByteReader) result" where
  "ReadFixedWidthEntry ReadScalar lt zero r =
     rbind (ReadPageRange r) (\<lambda>(pages, r).
     rbind (ReadU32 r) (\<lambda>(null_count, r).
     rbind (ReadU8 r) (\<lambda>(has_values, r).
       if has_values \<noteq> 0
       then rbind (ReadScalar r) (\<lambda>(min_value, r). rbind (ReadScalar r) (\<lambda>(max_value, r).
              Inr (fe_FromFields pages null_count
                (zm_Update lt (zm_Update lt (EmptyZoneMap zero) min_value) max_value), r)))
       else Inr (fe_FromFields pages null_count (EmptyZoneMap zero), r))))"

definition ReadVarcharEntry :: "ByteReader \<Rightarrow> (VarcharColumnFooterEntry \<times> ByteReader) result" where
  "ReadVarcharEntry r =
     rbind (ReadPageRange r) (\<lambda>(offsets_pages, r).
     rbind (ReadPageRange r) (\<lambda>(data_pages, r).
     rbind (ReadU32 r) (\<lambda>(null_count, r).
     rbind (ReadU8 r) (\<lambda>(has_values, r).
       if has_values \<noteq> 0
       then rbind (ReadFixedPrefixValue r) (\<lambda>(min_prefix, r).
            rbind (ReadFixedPrefixValue r) (\<lambda>(max_prefix, r).
              Inr (ve_FromFields offsets_pages data_pages null_count
                (vz_Update (vz_Update EmptyVarcharZoneMap min_prefix) max_prefix), r)))
       else Inr (ve_FromFields offsets_pages data_pages null_count EmptyVarcharZoneMap, r)))))"

definition ReadColumn :: "ByteReader \<Rightarrow> (ColumnFooterEntry \<times> ByteReader) result" where
  "ReadColumn r = rbind (ReadU8 r) (\<lambda>(tag, r).
     if tag = kColumnTagInteger
     then rbind (ReadFixedWidthEntry ReadU32 word_sless 0 r) (\<lambda>(e, r). Inr (IntEntry e, r))
     else if tag = kColumnTagFloat
     then rbind (ReadFixedWidthEntry ReadFloat f32_less f32_zero r) (\<lambda>(e, r). Inr (FloatEntry e, r))
     else rbind (ReadVarcharEntry r) (\<lambda>(e, r). Inr (VarcharEntry e, r)))"

section \<open>Footer\<close>

record Footer =
  ft_row_groups :: "RowGroupFooterEntry list"

definition EmptyFooter :: Footer where
  "EmptyFooter = \<lparr>ft_row_groups = []\<rparr>"

definition ft_AddRowGroup :: "Footer \<Rightarrow> RowGroupFooterEntry \<Rightarrow> Footer" where
  "ft_AddRowGroup f entry = f\<lparr>ft_row_groups := ft_row_groups f @ [entry]\<rparr>"

definition WriteRowGroup :: "bytes \<Rightarrow> RowGroupFooterEntry \<Rightarrow> bytes" where
  "WriteRowGroup buf row_group =
     (let buf = WriteU32 buf (rg_table_id row_group);
          buf = WriteU32 buf (rg_row_count row_group);
          buf = WritePageRange buf (rg_validity_bitmap_region row_group);
          buf = WriteU32 buf (word_of_nat (length (rg_columns row_group)))
      in fold (\<lambda>c b. WriteColumn b c) (rg_columns row_group) buf)"

definition Footer_Serialize :: "Footer \<Rightarrow> bytes" where
  "Footer_Serialize f =
     fold (\<lambda>rg b. WriteRowGroup b rg) (ft_row_groups f)
       (WriteU32 [] (word_of_nat (length (ft_row_groups f))))"

definition ReadRowGroup :: "ByteReader \<Rightarrow> (RowGroupFooterEntry \<times> ByteReader) result" where
  "ReadRowGroup r =
     rbind (ReadU32 r) (\<lambda>(table_id, r).
     rbind (ReadU32 r) (\<lambda>(row_count, r).
     rbind (ReadPageRange r) (\<lambda>(validity_region, r).
     rbind (ReadU32 r) (\<lambda>(num_columns, r).
     rbind (read_list ReadColumn (unat num_columns) r) (\<lambda>(columns, r).
       Inr (\<lparr>rg_table_id = table_id, rg_row_count = row_count,
             rg_validity_bitmap_region = validity_region, rg_columns = columns\<rparr>, r))))))"

definition Footer_Deserialize :: "bytes \<Rightarrow> Footer result" where
  "Footer_Deserialize bs =
     rbind (ReadU32 (reader_at bs 0)) (\<lambda>(num_row_groups, r).
     rbind (read_list ReadRowGroup (unat num_row_groups) r) (\<lambda>(row_groups, r).
       Inr (fold (\<lambda>rg f. ft_AddRowGroup f rg) row_groups EmptyFooter)))"

section \<open>Well-formed entries\<close>

definition vz_wf :: "VarcharZoneMap \<Rightarrow> bool" where
  "vz_wf z = (string_order.zone_wf [] (vz_zone z) \<and>
     length (vz_min_prefix z) \<le> kZoneMapPrefixLength \<and>
     length (vz_max_prefix z) \<le> kZoneMapPrefixLength)"

fun entry_wf :: "ColumnFooterEntry \<Rightarrow> bool" where
  "entry_wf (IntEntry e) = int_order.zone_wf 0 (fe_zone_map e)"
| "entry_wf (FloatEntry e) = float_order.zone_wf f32_zero (fe_zone_map e)"
| "entry_wf (VarcharEntry e) = vz_wf (ve_zone_map e)"

definition row_group_wf :: "RowGroupFooterEntry \<Rightarrow> bool" where
  "row_group_wf rg = (length (rg_columns rg) < 2 ^ 32 \<and> list_all entry_wf (rg_columns rg))"

definition footer_wf :: "Footer \<Rightarrow> bool" where
  "footer_wf f = (length (ft_row_groups f) < 2 ^ 32 \<and> list_all row_group_wf (ft_row_groups f))"

section \<open>The codecs of the parts\<close>

lemma WritePageRange_Nil:
  "WritePageRange [] v = WriteU32 [] (start_page_id v) @ WriteU32 [] (page_count v) @ []"
  by (simp add: WritePageRange_def WriteU32_eq)

interpretation page_range: codec WritePageRange ReadPageRange "\<lambda>_. True"
proof
  show "WritePageRange buf v = buf @ WritePageRange [] v" for buf v
    by (simp add: WritePageRange_def WriteU32_eq)
  show "parses ReadPageRange (WritePageRange [] v) v" for v
  proof -
    have "\<lparr>start_page_id = start_page_id v, page_count = page_count v\<rparr> = v"
      by simp
    with parses_return [of v] show ?thesis
      unfolding WritePageRange_Nil ReadPageRange_def [abs_def]
      by - (rule parses_bind [OF u32.rd_wr [OF TrueI]], unfold prod.case,
        rule parses_bind [OF u32.rd_wr [OF TrueI]], simp only: prod.case)
  qed
qed

subsection \<open>Truncated prefixes\<close>

definition prefix_ok :: "string \<Rightarrow> bool" where
  "prefix_ok s = (length s \<le> kZoneMapPrefixLength)"

definition padded :: "string \<Rightarrow> string" where
  "padded s = s @ replicate (8 - length s) (CHR 0x00)"

lemma byte_of_char_0: "byte_of_char (CHR 0x00) = 0"
  by (simp add: byte_of_char_def)

lemma map_padded:
  assumes "length s \<le> 8"
  shows "map (\<lambda>i. if i < length s then byte_of_char (s ! i) else 0) [0..<8] = bytes_of_string (padded s)"
  using assms
  by (intro nth_equalityI)
    (auto simp: padded_def bytes_of_string_def nth_append byte_of_char_0 simp del: upt_rec_numeral)

lemma WriteFixedPrefix_Nil:
  assumes "prefix_ok s"
  shows "WriteFixedPrefix [] s = WriteU8 [] (word_of_nat (length s)) @ bytes_of_string (padded s) @ []"
  using assms map_padded [of s]
  by (simp add: WriteFixedPrefix_def kZoneMapPrefixLength_def fold_snoc_map prefix_ok_def
      del: upt_rec_numeral)

interpretation prefix_codec: codec WriteFixedPrefix ReadFixedPrefixValue prefix_ok
proof
  show "WriteFixedPrefix buf v = buf @ WriteFixedPrefix [] v" for buf v
    by (simp add: WriteFixedPrefix_def fold_snoc_map WriteU8_def del: upt_rec_numeral)
next
  fix s
  assume ok: "prefix_ok s"
  then have len: "length (padded s) = kZoneMapPrefixLength"
    "unat (word_of_nat (length s) :: byte) = length s"
    by (simp_all add: padded_def prefix_ok_def kZoneMapPrefixLength_def)
  have "resize_string (length s) (padded s) = s"
    by (simp add: resize_string_def padded_def)
  then have "parses (\<lambda>r. Inr (resize_string (unat (word_of_nat (length s) :: byte)) (padded s), r)) [] s"
    by (simp only: len parses_return)
  then show "parses ReadFixedPrefixValue (WriteFixedPrefix [] s) s"
    unfolding WriteFixedPrefix_Nil [OF ok] ReadFixedPrefixValue_def [abs_def]
    by (intro parses_bind [OF u8.rd_wr [OF TrueI], THEN iffD1 [OF refl]])
      (unfold prod.case, rule parses_bind [OF parses_ReadFixedBytes [of "padded s", unfolded len(1)]],
        simp)
qed

subsection \<open>Fixed-width entries, for any scalar codec and order\<close>

lemma WriteFixedWidthEntry_Nil:
  assumes "codec wr rd ok"
  shows "WriteFixedWidthEntry wr [] e =
    WritePageRange [] (fe_pages e) @ WriteU32 [] (fe_null_count e) @
    WriteU8 [] (if zm_has_values (fe_zone_map e) then 1 else 0) @
    (if zm_has_values (fe_zone_map e)
     then wr [] (zm_min (fe_zone_map e)) @ wr [] (zm_max (fe_zone_map e)) @ [] else [])"
  by (simp add: WriteFixedWidthEntry_def Let_def WriteU8_def WriteU32_eq WritePageRange_def
      codec.wr_norm [OF assms])

lemma fixed_width_entry_codec:
  assumes sc: "codec wr rd (\<lambda>_. True)" and so: "strict_order lt"
  shows "codec (WriteFixedWidthEntry wr) (ReadFixedWidthEntry rd lt zero)
    (\<lambda>e. strict_order.zone_wf lt zero (fe_zone_map e))"
proof
  show "WriteFixedWidthEntry wr buf e = buf @ WriteFixedWidthEntry wr [] e" for buf e
    by (simp add: WriteFixedWidthEntry_def Let_def WriteU8_def WriteU32_eq WritePageRange_def
        codec.wr_norm [OF sc])
next
  fix e :: "'a FixedWidthColumnFooterEntry"
  assume wf: "strict_order.zone_wf lt zero (fe_zone_map e)"
  have rd: "parses rd (wr [] v) v" for v
    using codec.rd_wr [OF sc] by simp
  have e: "fe_FromFields (fe_pages e) (fe_null_count e) (fe_zone_map e) = e"
    by (simp add: fe_FromFields_def)
  have zone: "parses (\<lambda>r. if (if zm_has_values (fe_zone_map e) then 1 else 0 :: byte) \<noteq> 0
       then rbind (rd r) (\<lambda>(min_value, r). rbind (rd r) (\<lambda>(max_value, r).
              Inr (fe_FromFields (fe_pages e) (fe_null_count e)
                (zm_Update lt (zm_Update lt (EmptyZoneMap zero) min_value) max_value), r)))
       else Inr (fe_FromFields (fe_pages e) (fe_null_count e) (EmptyZoneMap zero), r))
     (if zm_has_values (fe_zone_map e)
      then wr [] (zm_min (fe_zone_map e)) @ wr [] (zm_max (fe_zone_map e)) @ [] else []) e"
  proof (cases "zm_has_values (fe_zone_map e)")
    case True
    have "parses (\<lambda>r. Inr (fe_FromFields (fe_pages e) (fe_null_count e)
        (zm_Update lt (zm_Update lt (EmptyZoneMap zero) (zm_min (fe_zone_map e)))
          (zm_max (fe_zone_map e))), r)) [] e"
      using strict_order.zone_rebuild [OF so wf True] parses_return [of e] by (simp add: e)
    then have "parses (\<lambda>r. rbind (rd r) (\<lambda>(min_value, r). rbind (rd r) (\<lambda>(max_value, r).
              Inr (fe_FromFields (fe_pages e) (fe_null_count e)
                (zm_Update lt (zm_Update lt (EmptyZoneMap zero) min_value) max_value), r))))
        (wr [] (zm_min (fe_zone_map e)) @ wr [] (zm_max (fe_zone_map e)) @ []) e"
      by - (rule parses_bind [OF rd], unfold prod.case, rule parses_bind [OF rd], simp)
    with True show ?thesis
      by simp
  next
    case False
    with wf have "fe_zone_map e = EmptyZoneMap zero"
      by (simp add: strict_order.zone_wf_def [OF so])
    with False show ?thesis
      using parses_return [of e] e by simp
  qed
  show "parses (ReadFixedWidthEntry rd lt zero) (WriteFixedWidthEntry wr [] e) e"
    unfolding WriteFixedWidthEntry_Nil [OF sc] ReadFixedWidthEntry_def [abs_def]
    by (rule parses_bind [OF page_range.rd_wr [OF TrueI]], unfold prod.case,
        rule parses_bind [OF u32.rd_wr [OF TrueI]], unfold prod.case,
        rule parses_bind [OF u8.rd_wr [OF TrueI]], unfold prod.case) (rule zone)
qed

interpretation int_entry: codec "WriteFixedWidthEntry WriteU32" "ReadFixedWidthEntry ReadU32 word_sless 0"
  "\<lambda>e. int_order.zone_wf 0 (fe_zone_map e)"
  by (rule fixed_width_entry_codec [OF u32.codec_axioms int_order.strict_order_axioms])

interpretation float_entry: codec "WriteFixedWidthEntry WriteFloat"
  "ReadFixedWidthEntry ReadFloat f32_less f32_zero"
  "\<lambda>e. float_order.zone_wf f32_zero (fe_zone_map e)"
  by (rule fixed_width_entry_codec [OF float_codec.codec_axioms float_order.strict_order_axioms])

subsection \<open>Varchar entries\<close>

lemma WriteVarcharEntry_Nil:
  "WriteVarcharEntry [] e =
    WritePageRange [] (ve_offsets_pages e) @ WritePageRange [] (ve_data_pages e) @
    WriteU32 [] (ve_null_count e) @
    WriteU8 [] (if vz_has_values (ve_zone_map e) then 1 else 0) @
    (if vz_has_values (ve_zone_map e)
     then WriteFixedPrefix [] (vz_min_prefix (ve_zone_map e)) @
       WriteFixedPrefix [] (vz_max_prefix (ve_zone_map e)) @ [] else [])"
  by (simp add: WriteVarcharEntry_def Let_def WriteU8_def WriteU32_eq WritePageRange_def
      prefix_codec.wr_norm)

lemma vz_rebuild:
  assumes "vz_wf z" and "vz_has_values z"
  shows "vz_Update (vz_Update EmptyVarcharZoneMap (vz_min_prefix z)) (vz_max_prefix z) = z"
proof -
  have "vz_zone (vz_Update (vz_Update EmptyVarcharZoneMap (vz_min_prefix z)) (vz_max_prefix z)) =
      zm_Update (<) (zm_Update (<) (EmptyZoneMap []) (zm_min (vz_zone z))) (zm_max (vz_zone z))"
    using assms(1)
    by (simp add: vz_zone_update vz_zone_empty TruncatePrefix_eq vz_wf_def kZoneMapPrefixLength_def)
      (simp add: vz_zone_def)
  also have "\<dots> = vz_zone z"
    using assms by (intro string_order.zone_rebuild [where zero = "[]"])
      (simp_all add: vz_wf_def, simp add: vz_zone_def)
  finally show ?thesis
    by simp
qed

interpretation varchar_entry: codec WriteVarcharEntry ReadVarcharEntry "\<lambda>e. vz_wf (ve_zone_map e)"
proof
  show "WriteVarcharEntry buf e = buf @ WriteVarcharEntry [] e" for buf e
    by (simp add: WriteVarcharEntry_def Let_def WriteU8_def WriteU32_eq WritePageRange_def
        prefix_codec.wr_norm)
next
  fix e :: VarcharColumnFooterEntry
  assume wf: "vz_wf (ve_zone_map e)"
  let ?z = "ve_zone_map e"
  let ?mk = "ve_FromFields (ve_offsets_pages e) (ve_data_pages e) (ve_null_count e)"
  have e: "?mk ?z = e"
    by (simp add: ve_FromFields_def)
  from wf have pre: "prefix_ok (vz_min_prefix ?z)" "prefix_ok (vz_max_prefix ?z)"
    by (simp_all add: vz_wf_def prefix_ok_def)
  have zone: "parses (\<lambda>r. if (if vz_has_values ?z then 1 else 0 :: byte) \<noteq> 0
       then rbind (ReadFixedPrefixValue r) (\<lambda>(min_prefix, r).
            rbind (ReadFixedPrefixValue r) (\<lambda>(max_prefix, r).
              Inr (?mk (vz_Update (vz_Update EmptyVarcharZoneMap min_prefix) max_prefix), r)))
       else Inr (?mk EmptyVarcharZoneMap, r))
     (if vz_has_values ?z then WriteFixedPrefix [] (vz_min_prefix ?z) @
       WriteFixedPrefix [] (vz_max_prefix ?z) @ [] else []) e"
  proof (cases "vz_has_values ?z")
    case True
    have "parses (\<lambda>r. Inr (?mk (vz_Update (vz_Update EmptyVarcharZoneMap (vz_min_prefix ?z))
        (vz_max_prefix ?z)), r)) [] e"
      using vz_rebuild [OF wf True] parses_return [of e] by (simp add: e)
    then have "parses (\<lambda>r. rbind (ReadFixedPrefixValue r) (\<lambda>(min_prefix, r).
            rbind (ReadFixedPrefixValue r) (\<lambda>(max_prefix, r).
              Inr (?mk (vz_Update (vz_Update EmptyVarcharZoneMap min_prefix) max_prefix), r))))
        (WriteFixedPrefix [] (vz_min_prefix ?z) @ WriteFixedPrefix [] (vz_max_prefix ?z) @ []) e"
      by - (rule parses_bind [OF prefix_codec.rd_wr [OF pre(1)]], unfold prod.case,
          rule parses_bind [OF prefix_codec.rd_wr [OF pre(2)]], simp)
    with True show ?thesis
      by simp
  next
    case False
    with wf have "vz_zone ?z = vz_zone EmptyVarcharZoneMap"
      by (simp add: vz_wf_def string_order.zone_wf_def vz_zone_empty) (simp add: vz_zone_def)
    with False show ?thesis
      using parses_return [of e] e by simp
  qed
  show "parses ReadVarcharEntry (WriteVarcharEntry [] e) e"
    unfolding WriteVarcharEntry_Nil ReadVarcharEntry_def [abs_def]
    by (rule parses_bind [OF page_range.rd_wr [OF TrueI]], unfold prod.case,
        rule parses_bind [OF page_range.rd_wr [OF TrueI]], unfold prod.case,
        rule parses_bind [OF u32.rd_wr [OF TrueI]], unfold prod.case,
        rule parses_bind [OF u8.rd_wr [OF TrueI]], unfold prod.case) (rule zone)
qed

subsection \<open>Columns, row groups, footers\<close>

lemma WriteColumn_Nil:
  "WriteColumn [] (IntEntry a) = WriteU8 [] kColumnTagInteger @ WriteFixedWidthEntry WriteU32 [] a"
  "WriteColumn [] (FloatEntry b) = WriteU8 [] kColumnTagFloat @ WriteFixedWidthEntry WriteFloat [] b"
  "WriteColumn [] (VarcharEntry c) = WriteU8 [] kColumnTagVarchar @ WriteVarcharEntry [] c"
  by (simp_all only: WriteColumn.simps int_entry.wr_appends [of "WriteU8 _ _"]
      float_entry.wr_appends [of "WriteU8 _ _"] varchar_entry.wr_appends [of "WriteU8 _ _"])

interpretation column_entry: codec WriteColumn ReadColumn entry_wf
proof
  show "WriteColumn buf c = buf @ WriteColumn [] c" for buf c
    by (cases c) (simp_all add: WriteColumn_Nil WriteU8_def int_entry.wr_norm float_entry.wr_norm
        varchar_entry.wr_norm)
next
  fix c
  assume wf: "entry_wf c"
  note tags = kColumnTagInteger_def kColumnTagFloat_def kColumnTagVarchar_def
  show "parses ReadColumn (WriteColumn [] c) c"
  proof (cases c)
    case (IntEntry e)
    with wf show ?thesis
      unfolding IntEntry WriteColumn_Nil ReadColumn_def [abs_def]
      by (intro parses_bind [OF u8.rd_wr [OF TrueI]])
        (use parses_map [OF int_entry.rd_wr, of e IntEntry] in \<open>simp add: tags\<close>)
  next
    case (FloatEntry e)
    with wf show ?thesis
      unfolding FloatEntry WriteColumn_Nil ReadColumn_def [abs_def]
      by (intro parses_bind [OF u8.rd_wr [OF TrueI]])
        (use parses_map [OF float_entry.rd_wr, of e FloatEntry] in \<open>simp add: tags\<close>)
  next
    case (VarcharEntry e)
    with wf show ?thesis
      unfolding VarcharEntry WriteColumn_Nil ReadColumn_def [abs_def]
      by (intro parses_bind [OF u8.rd_wr [OF TrueI]])
        (use parses_map [OF varchar_entry.rd_wr, of e VarcharEntry] in \<open>simp add: tags\<close>)
  qed
qed

lemma WriteRowGroup_flat:
  "WriteRowGroup buf rg = buf @ WriteU32 [] (rg_table_id rg) @ WriteU32 [] (rg_row_count rg) @
     WritePageRange [] (rg_validity_bitmap_region rg) @
     WriteU32 [] (word_of_nat (length (rg_columns rg))) @
     fold (\<lambda>c b. WriteColumn b c) (rg_columns rg) [] @ []"
  unfolding WriteRowGroup_def Let_def
  by (subst column_entry.fold_wr_appends) (simp add: WriteU32_eq WritePageRange_def)

interpretation row_group_codec: codec WriteRowGroup ReadRowGroup row_group_wf
proof
  show "WriteRowGroup buf rg = buf @ WriteRowGroup [] rg" for buf rg
    by (simp add: WriteRowGroup_flat)
next
  fix rg
  assume wf: "row_group_wf rg"
  then have len: "unat (word_of_nat (length (rg_columns rg)) :: uint32) = length (rg_columns rg)"
    and cols: "list_all entry_wf (rg_columns rg)"
    by (simp_all add: row_group_wf_def)
  have "\<lparr>rg_table_id = rg_table_id rg, rg_row_count = rg_row_count rg,
      rg_validity_bitmap_region = rg_validity_bitmap_region rg, rg_columns = rg_columns rg\<rparr> = rg"
    by simp
  with parses_return [of rg] show "parses ReadRowGroup (WriteRowGroup [] rg) rg"
    unfolding WriteRowGroup_flat ReadRowGroup_def [abs_def] append_Nil
    by - (rule parses_bind [OF u32.rd_wr [OF TrueI]], unfold prod.case,
        rule parses_bind [OF u32.rd_wr [OF TrueI]], unfold prod.case,
        rule parses_bind [OF page_range.rd_wr [OF TrueI]], unfold prod.case,
        rule parses_bind [OF u32.rd_wr [OF TrueI]], unfold prod.case len,
        rule parses_bind [OF column_entry.read_list_wr [OF cols]], simp only: prod.case)
qed

lemma fold_AddRowGroup:
  "ft_row_groups (fold (\<lambda>rg f. ft_AddRowGroup f rg) rgs f) = ft_row_groups f @ rgs"
  by (induction rgs arbitrary: f) (simp_all add: ft_AddRowGroup_def)

text \<open>The footer of any list of well-formed row groups is read back unchanged.\<close>

lemma footer_codec:
  assumes "footer_wf f"
  shows "Footer_Deserialize (Footer_Serialize f) = Inr f"
proof -
  let ?n = "word_of_nat (length (ft_row_groups f)) :: uint32"
  let ?body = "fold (\<lambda>rg b. WriteRowGroup b rg) (ft_row_groups f) []"
  from assms have n: "unat ?n = length (ft_row_groups f)"
    and rgs: "list_all row_group_wf (ft_row_groups f)"
    by (simp_all add: footer_wf_def)
  have ser: "Footer_Serialize f = WriteU32 [] ?n @ ?body"
    unfolding Footer_Serialize_def by (rule row_group_codec.fold_wr_appends)
  have "ReadU32 (reader_at (WriteU32 [] ?n @ ?body) 0) =
      Inr (?n, reader_at (WriteU32 [] ?n @ ?body) (length (WriteU32 [] ?n)))"
    by (rule parses_whole) (rule u32.rd_wr [OF TrueI])
  moreover have "read_list ReadRowGroup (unat ?n)
        (reader_at (WriteU32 [] ?n @ ?body @ []) (length (WriteU32 [] ?n))) =
      Inr (ft_row_groups f, reader_at (WriteU32 [] ?n @ ?body @ [])
        (length (WriteU32 [] ?n) + length ?body))"
    unfolding n by (rule parsesD) (rule row_group_codec.read_list_wr [OF rgs])
  ultimately have "Footer_Deserialize (Footer_Serialize f) =
      Inr (fold (\<lambda>rg f. ft_AddRowGroup f rg) (ft_row_groups f) EmptyFooter)"
    unfolding Footer_Deserialize_def ser by simp
  moreover have "fold (\<lambda>rg f. ft_AddRowGroup f rg) (ft_row_groups f) EmptyFooter = f"
    using fold_AddRowGroup [of "ft_row_groups f" EmptyFooter]
    by (intro Footer.equality) (simp_all add: EmptyFooter_def)
  ultimately show ?thesis
    by simp
qed

section \<open>Entries built from columns are well-formed\<close>

lemma fold_zone_wf:
  assumes "strict_order lt" and "strict_order.zone_wf lt zero z"
  shows "strict_order.zone_wf lt zero (fold (\<lambda>v z. zm_Update lt z v) vs z)"
  using assms(2) by (induction vs arbitrary: z) (simp_all add: strict_order.zone_wf_update [OF assms(1)])

lemma fe_Build_wf:
  assumes "fw_inv column" and "strict_order lt" and "fe_Build lt zero column pages = Inr e"
  shows "strict_order.zone_wf lt zero (fe_zone_map e)"
  using assms(3) fold_zone_wf [OF assms(2) strict_order.zone_wf_empty [OF assms(2)]]
  by (auto simp: fe_Build_eq [OF assms(1)])

lemma vz_fold_wf: "vz_wf z \<Longrightarrow> vz_wf (fold (\<lambda>v z. vz_Update z v) vs z)"
proof (induction vs arbitrary: z)
  case (Cons v vs)
  have "string_order.zone_wf [] (vz_zone (vz_Update z v))"
    using Cons.prems by (simp add: vz_wf_def vz_zone_update string_order.zone_wf_update)
  moreover have "length (TruncatePrefix v) \<le> kZoneMapPrefixLength"
    by (simp add: TruncatePrefix_def)
  ultimately have "vz_wf (vz_Update z v)"
    using Cons.prems by (simp add: vz_wf_def vz_Update_def Let_def std_min_def std_max_def)
  then show ?case
    by (simp add: Cons.IH)
qed simp

lemma ve_Build_wf:
  assumes "vc_inv column" and "ve_Build column offsets_pages data_pages = Inr e"
  shows "vz_wf (ve_zone_map e)"
proof -
  have "vz_wf EmptyVarcharZoneMap"
    by (simp add: vz_wf_def vz_zone_empty string_order.zone_wf_empty)
      (simp add: EmptyVarcharZoneMap_def)
  then show ?thesis
    using assms(2) vz_fold_wf by (auto simp: ve_Build_eq [OF assms(1)])
qed

end
