(* ===== verification/Schema.thy ===== *)
theory Schema
  imports FooterFormat
begin

text \<open>
  \<open>catalog/column_def\<close>, \<open>catalog/schema_section\<close> and \<open>catalog/table_object\<close>: table schemas,
  their serialized form, and the in-memory table with its row groups.
\<close>

section \<open>SchemaSection\<close>

record ColumnDef =
  cd_name :: string
  cd_type :: TypeId
  cd_ordinal :: uint32

record TableSchemaEntry =
  ts_table_id :: uint32
  ts_table_name :: string
  ts_columns :: "ColumnDef list"

record SchemaSection =
  next_table_id :: uint32
  ss_tables :: "TableSchemaEntry list"

definition EmptySchemaSection :: SchemaSection where
  "EmptySchemaSection = \<lparr>next_table_id = 0, ss_tables = []\<rparr>"

definition ss_AddTable :: "SchemaSection \<Rightarrow> string \<Rightarrow> ColumnDef list \<Rightarrow> uint32 \<times> SchemaSection" where
  "ss_AddTable s table_name columns =
     (let table_id = next_table_id s
      in (table_id, s\<lparr>next_table_id := table_id + 1,
            ss_tables := ss_tables s @ [\<lparr>ts_table_id = table_id, ts_table_name = table_name,
                                         ts_columns = columns\<rparr>]\<rparr>))"

fun type_byte :: "TypeId \<Rightarrow> byte" where
  "type_byte kInteger = 0"
| "type_byte kFloat = 1"
| "type_byte kVarchar = 2"

definition WriteColumnDef :: "bytes \<Rightarrow> ColumnDef \<Rightarrow> bytes" where
  "WriteColumnDef buf c =
     WriteU32 (WriteU8 (WriteString buf (cd_name c)) (type_byte (cd_type c))) (cd_ordinal c)"

definition ReadTypeId :: "ByteReader \<Rightarrow> (TypeId \<times> ByteReader) result" where
  "ReadTypeId r = rbind (ReadU8 r) (\<lambda>(raw, r).
     if raw > type_byte kVarchar
     then Inl (RuntimeError ''SchemaSection::Deserialize: invalid TypeId byte'')
     else Inr (if raw = 0 then kInteger else if raw = 1 then kFloat else kVarchar, r))"

definition ReadColumnDef :: "ByteReader \<Rightarrow> (ColumnDef \<times> ByteReader) result" where
  "ReadColumnDef r =
     rbind (ReadString r) (\<lambda>(name, r).
     rbind (ReadTypeId r) (\<lambda>(type, r).
     rbind (ReadU32 r) (\<lambda>(ordinal, r).
       Inr (\<lparr>cd_name = name, cd_type = type, cd_ordinal = ordinal\<rparr>, r))))"

definition WriteTableSchema :: "bytes \<Rightarrow> TableSchemaEntry \<Rightarrow> bytes" where
  "WriteTableSchema buf t =
     fold (\<lambda>c b. WriteColumnDef b c) (ts_columns t)
       (WriteU32 (WriteString (WriteU32 buf (ts_table_id t)) (ts_table_name t))
          (word_of_nat (length (ts_columns t))))"

definition ReadTableSchema :: "ByteReader \<Rightarrow> (TableSchemaEntry \<times> ByteReader) result" where
  "ReadTableSchema r =
     rbind (ReadU32 r) (\<lambda>(table_id, r).
     rbind (ReadString r) (\<lambda>(table_name, r).
     rbind (ReadU32 r) (\<lambda>(num_columns, r).
     rbind (read_list ReadColumnDef (unat num_columns) r) (\<lambda>(columns, r).
       Inr (\<lparr>ts_table_id = table_id, ts_table_name = table_name, ts_columns = columns\<rparr>, r)))))"

definition SchemaSection_Serialize :: "SchemaSection \<Rightarrow> bytes" where
  "SchemaSection_Serialize s =
     fold (\<lambda>t b. WriteTableSchema b t) (ss_tables s)
       (WriteU32 (WriteU32 [] (next_table_id s)) (word_of_nat (length (ss_tables s))))"

definition SchemaSection_Deserialize :: "bytes \<Rightarrow> SchemaSection result" where
  "SchemaSection_Deserialize bs =
     rbind (ReadU32 (reader_at bs 0)) (\<lambda>(next_id, r).
     rbind (ReadU32 r) (\<lambda>(num_tables, r).
     rbind (read_list ReadTableSchema (unat num_tables) r) (\<lambda>(tables, r).
       Inr \<lparr>next_table_id = next_id, ss_tables = tables\<rparr>)))"

section \<open>TableObject\<close>

record TableObject =
  to_table_id :: uint32
  to_table_name :: string
  to_columns :: "ColumnDef list"
  to_column_ordinal_map :: "(string \<times> uint32) list"
  to_row_groups :: "RowGroupFooterEntry list"
  to_total_row_count :: uint64

text \<open>\<open>emplace\<close> keeps the first of two entries with the same key.\<close>

definition emplace :: "'k \<Rightarrow> 'v \<Rightarrow> ('k \<times> 'v) list \<Rightarrow> ('k \<times> 'v) list" where
  "emplace k v m = (if map_of m k = None then m @ [(k, v)] else m)"

definition MakeTableObject :: "uint32 \<Rightarrow> string \<Rightarrow> ColumnDef list \<Rightarrow> TableObject" where
  "MakeTableObject table_id table_name columns =
     \<lparr>to_table_id = table_id, to_table_name = table_name, to_columns = columns,
      to_column_ordinal_map = fold (\<lambda>c m. emplace (cd_name c) (cd_ordinal c) m) columns [],
      to_row_groups = [], to_total_row_count = 0\<rparr>"

definition to_Column :: "TableObject \<Rightarrow> nat \<Rightarrow> ColumnDef result" where
  "to_Column t ordinal = vec_at (to_columns t) ordinal"

definition FindColumn :: "TableObject \<Rightarrow> string \<Rightarrow> ColumnDef option result" where
  "FindColumn t name =
     (case map_of (to_column_ordinal_map t) name of
        None \<Rightarrow> Inr None
      | Some ordinal \<Rightarrow> rbind (to_Column t (unat ordinal)) (\<lambda>c. Inr (Some c)))"

definition to_AddRowGroup :: "TableObject \<Rightarrow> RowGroupFooterEntry \<Rightarrow> TableObject result" where
  "to_AddRowGroup t rg =
     (if rg_table_id rg \<noteq> to_table_id t
      then Inl (InvalidArgument ''TableObject::AddRowGroup: row group's table_id does not match'')
      else Inr (t\<lparr>to_total_row_count := to_total_row_count t + ucast (rg_row_count rg),
                  to_row_groups := to_row_groups t @ [rg]\<rparr>))"

section \<open>The schema codec\<close>

definition column_def_ok :: "ColumnDef \<Rightarrow> bool" where
  "column_def_ok c = string_ok (cd_name c)"

definition table_schema_ok :: "TableSchemaEntry \<Rightarrow> bool" where
  "table_schema_ok t = (string_ok (ts_table_name t) \<and> length (ts_columns t) < 2 ^ 32 \<and>
     list_all column_def_ok (ts_columns t))"

definition schema_ok :: "SchemaSection \<Rightarrow> bool" where
  "schema_ok s = (length (ss_tables s) < 2 ^ 32 \<and> list_all table_schema_ok (ss_tables s))"

lemma ReadTypeId_type_byte: "parses ReadTypeId (WriteU8 [] (type_byte t)) t"
proof -
  have "parses (\<lambda>r. rbind (ReadU8 r) (\<lambda>(raw, r).
      if raw > type_byte kVarchar
      then Inl (RuntimeError ''SchemaSection::Deserialize: invalid TypeId byte'')
      else Inr (if raw = 0 then kInteger else if raw = 1 then kFloat else kVarchar, r)))
      (WriteU8 [] (type_byte t) @ []) t"
    by (rule parses_bind [OF u8.rd_wr [OF TrueI]], cases t) (simp_all add: parses_return)
  then show ?thesis
    by (simp add: ReadTypeId_def [abs_def])
qed

interpretation column_def: codec WriteColumnDef ReadColumnDef column_def_ok
proof
  show "WriteColumnDef buf v = buf @ WriteColumnDef [] v" for buf v
    by (simp add: WriteColumnDef_def WriteU32_eq WriteU8_def WriteString_def)
next
  fix c
  assume "column_def_ok c"
  then have name: "string_ok (cd_name c)" by (simp add: column_def_ok_def)
  have flat: "WriteColumnDef [] c = WriteString [] (cd_name c) @
      WriteU8 [] (type_byte (cd_type c)) @ WriteU32 [] (cd_ordinal c) @ []"
    by (simp add: WriteColumnDef_def WriteU32_eq WriteU8_def WriteString_def)
  have "\<lparr>cd_name = cd_name c, cd_type = cd_type c, cd_ordinal = cd_ordinal c\<rparr> = c" by simp
  with parses_return [of c] show "parses ReadColumnDef (WriteColumnDef [] c) c"
    unfolding flat ReadColumnDef_def [abs_def]
    by - (rule parses_bind [OF string_codec.rd_wr [OF name]], unfold prod.case,
        rule parses_bind [OF ReadTypeId_type_byte], unfold prod.case,
        rule parses_bind [OF u32.rd_wr [OF TrueI]], simp only: prod.case)
qed

lemma WriteTableSchema_flat:
  "WriteTableSchema buf t = buf @ WriteU32 [] (ts_table_id t) @ WriteString [] (ts_table_name t) @
     WriteU32 [] (word_of_nat (length (ts_columns t))) @
     fold (\<lambda>c b. WriteColumnDef b c) (ts_columns t) [] @ []"
  unfolding WriteTableSchema_def
  by (subst column_def.fold_wr_appends) (simp add: WriteU32_eq WriteString_def)

interpretation table_schema: codec WriteTableSchema ReadTableSchema table_schema_ok
proof
  show "WriteTableSchema buf t = buf @ WriteTableSchema [] t" for buf t
    by (simp add: WriteTableSchema_flat)
next
  fix t
  assume "table_schema_ok t"
  then have name: "string_ok (ts_table_name t)" and cols: "list_all column_def_ok (ts_columns t)"
    and len: "unat (word_of_nat (length (ts_columns t)) :: uint32) = length (ts_columns t)"
    by (simp_all add: table_schema_ok_def)
  have "\<lparr>ts_table_id = ts_table_id t, ts_table_name = ts_table_name t, ts_columns = ts_columns t\<rparr> = t"
    by simp
  with parses_return [of t] show "parses ReadTableSchema (WriteTableSchema [] t) t"
    unfolding WriteTableSchema_flat ReadTableSchema_def [abs_def] append_Nil
    by - (rule parses_bind [OF u32.rd_wr [OF TrueI]], unfold prod.case,
        rule parses_bind [OF string_codec.rd_wr [OF name]], unfold prod.case,
        rule parses_bind [OF u32.rd_wr [OF TrueI]], unfold prod.case len,
        rule parses_bind [OF column_def.read_list_wr [OF cols]], simp only: prod.case)
qed

lemma SchemaSection_Serialize_flat:
  "SchemaSection_Serialize s = WriteU32 [] (next_table_id s) @
     WriteU32 [] (word_of_nat (length (ss_tables s))) @
     fold (\<lambda>t b. WriteTableSchema b t) (ss_tables s) []"
  unfolding SchemaSection_Serialize_def
  by (subst table_schema.fold_wr_appends) (simp add: WriteU32_eq)

text \<open>A schema is read back unchanged.\<close>

lemma schema_codec:
  assumes "schema_ok s"
  shows "SchemaSection_Deserialize (SchemaSection_Serialize s) = Inr s"
proof -
  from assms have tabs: "list_all table_schema_ok (ss_tables s)"
    and len: "unat (word_of_nat (length (ss_tables s)) :: uint32) = length (ss_tables s)"
    by (simp_all add: schema_ok_def)
  have "\<lparr>next_table_id = next_table_id s, ss_tables = ss_tables s\<rparr> = s" by simp
  with parses_return [of s] have "parses (\<lambda>r. rbind (ReadU32 r) (\<lambda>(next_id, r).
     rbind (ReadU32 r) (\<lambda>(num_tables, r).
     rbind (read_list ReadTableSchema (unat num_tables) r) (\<lambda>(tables, r).
       Inr (\<lparr>next_table_id = next_id, ss_tables = tables\<rparr>, r)))))
     (WriteU32 [] (next_table_id s) @ WriteU32 [] (word_of_nat (length (ss_tables s))) @
      fold (\<lambda>t b. WriteTableSchema b t) (ss_tables s) [] @ []) s"
    by - (rule parses_bind [OF u32.rd_wr [OF TrueI]], unfold prod.case,
        rule parses_bind [OF u32.rd_wr [OF TrueI]], unfold prod.case len,
        rule parses_bind [OF table_schema.read_list_wr [OF tabs]], simp only: prod.case)
  from parses_whole [OF this, of "[]"] show ?thesis
    by (auto simp: SchemaSection_Deserialize_def SchemaSection_Serialize_flat result_simps
        split: prod.splits)
qed

end
