(* ===== verification/Disk.thy ===== *)
theory Disk
  imports ByteIO
begin

text \<open>
  \<open>storage/file_header\<close> and \<open>storage/disk_manager\<close>. The database file is its byte contents;
  \<open>pwrite\<close> past the end leaves a hole of zero bytes, \<open>pread\<close> past the end is short. What the
  operating system does with a request is a parameter, carried in the field \<open>dm_os\<close>: the
  number of bytes it transfers, or \<open>None\<close> for a failed call. \<open>reliable\<close> is the hypothesis
  that every request is carried out completely.

  The lemmas at the end give the view the buffer pool and the scans have of the file: a
  partial map from page ids to 4096-byte pages.
\<close>

section \<open>FileHeader\<close>

definition kMagic :: bytes where
  "kMagic = bytes_of_string ''GISTDB01''"

definition kSerializedSize :: nat where "kSerializedSize = 20"

record FileHeader =
  meta_offset :: uint64
  next_free_page_id :: uint32

definition FileHeader_Serialize :: "FileHeader \<Rightarrow> bytes" where
  "FileHeader_Serialize h = WriteU32 (WriteU64 kMagic (meta_offset h)) (next_free_page_id h)"

definition FileHeader_Deserialize :: "bytes \<Rightarrow> FileHeader result" where
  "FileHeader_Deserialize bs =
     (if length bs < kSerializedSize
      then Inl (RuntimeError ''FileHeader::Deserialize: buffer too small to be a valid header'')
      else if take (length kMagic) bs \<noteq> kMagic
      then Inl (RuntimeError ''FileHeader::Deserialize: magic mismatch -- not a GistDB file'')
      else rbind (ReadU64 (Skip (length kMagic) (reader_at bs 0))) (\<lambda>(mo, r).
           rbind (ReadU32 r) (\<lambda>(nf, r). Inr \<lparr>meta_offset = mo, next_free_page_id = nf\<rparr>)))"

section \<open>The operating system\<close>

datatype syscall = SysOpen | SysPwrite nat nat | SysPread nat nat | SysFstat

type_synonym os = "syscall \<Rightarrow> nat option"

definition write_at :: "bytes \<Rightarrow> nat \<Rightarrow> bytes \<Rightarrow> bytes" where
  "write_at file offset data =
     (if data = [] then file
      else take offset file @ replicate (offset - length file) 0 @ data @
           drop (offset + length data) file)"

definition pwrite :: "os \<Rightarrow> bytes \<Rightarrow> nat \<Rightarrow> bytes \<Rightarrow> nat option \<times> bytes" where
  "pwrite os file offset data =
     (case os (SysPwrite offset (length data)) of
        None \<Rightarrow> (None, file)
      | Some k \<Rightarrow> (Some (min k (length data)), write_at file offset (take k data)))"

definition pread :: "os \<Rightarrow> bytes \<Rightarrow> nat \<Rightarrow> nat \<Rightarrow> bytes option" where
  "pread os file offset count =
     (case os (SysPread offset count) of
        None \<Rightarrow> None
      | Some k \<Rightarrow> Some (take (min k count) (drop offset file)))"

definition reliable :: "os \<Rightarrow> bool" where
  "reliable os = (os SysOpen \<noteq> None \<and> os SysFstat \<noteq> None \<and>
     (\<forall>offset n. os (SysPwrite offset n) = Some n \<and> os (SysPread offset n) = Some n))"

section \<open>DiskManager\<close>

record DiskManager =
  dm_os :: os
  dm_file :: bytes
  dm_header :: FileHeader

definition PersistHeader :: "(DiskManager, unit) action" where
  "PersistHeader dm =
     (let bytes = FileHeader_Serialize (dm_header dm)
      in case pwrite (dm_os dm) (dm_file dm) 0 bytes of
           (written, file) \<Rightarrow>
             (if written = Some (length bytes) then Inr ()
              else Inl (RuntimeError ''DiskManager::PersistHeader: failed to persist file header''),
              dm\<lparr>dm_file := file\<rparr>))"

definition FileSize :: "DiskManager \<Rightarrow> nat result" where
  "FileSize dm = (if dm_os dm SysFstat = None
     then Inl (RuntimeError ''DiskManager::FileSize: fstat failed'')
     else Inr (length (dm_file dm)))"

text \<open>
  \<open>existing\<close> is the file that already stands at the path, if any: \<open>O_EXCL\<close> makes
  \<open>CreateNew\<close> fail on it, and \<open>Open\<close> needs it.
\<close>

definition DiskManager_CreateNew :: "os \<Rightarrow> bytes option \<Rightarrow> DiskManager result" where
  "DiskManager_CreateNew os existing =
     (if existing \<noteq> None \<or> os SysOpen = None
      then Inl (RuntimeError ''DiskManager::CreateNew: failed to create'')
      else let dm = \<lparr>dm_os = os, dm_file = [],
                 dm_header = \<lparr>meta_offset = word_of_nat kSerializedSize,
                              next_free_page_id = kFirstDataPageId\<rparr>\<rparr>
           in case PersistHeader dm of (Inl e, _) \<Rightarrow> Inl e | (Inr _, dm') \<Rightarrow> Inr dm')"

definition DiskManager_Open :: "os \<Rightarrow> bytes option \<Rightarrow> DiskManager result" where
  "DiskManager_Open os existing =
     (case existing of
        None \<Rightarrow> Inl (RuntimeError ''DiskManager::Open: failed to open'')
      | Some file \<Rightarrow>
          if os SysOpen = None then Inl (RuntimeError ''DiskManager::Open: failed to open'')
          else (case pread os file 0 kSerializedSize of
              None \<Rightarrow> Inl (RuntimeError ''DiskManager::Open: failed to read header'')
            | Some header_bytes \<Rightarrow>
                if length header_bytes \<noteq> kSerializedSize
                then Inl (RuntimeError ''DiskManager::Open: failed to read header'')
                else rbind (FileHeader_Deserialize header_bytes) (\<lambda>header.
                       Inr \<lparr>dm_os = os, dm_file = file, dm_header = header\<rparr>)))"

definition AllocatePages :: "uint32 \<Rightarrow> (DiskManager, uint32) action" where
  "AllocatePages count dm =
     (if count = 0
      then (Inl (InvalidArgument ''DiskManager::AllocatePages: count must be > 0''), dm)
      else let start = next_free_page_id (dm_header dm);
               dm1 = dm\<lparr>dm_header := (dm_header dm)\<lparr>next_free_page_id := start + count\<rparr>\<rparr>
           in sbind PersistHeader (\<lambda>_. sreturn start) dm1)"

definition WritePages :: "uint32 \<Rightarrow> bytes \<Rightarrow> (DiskManager, unit) action" where
  "WritePages start data dm =
     (if start = kHeaderPageId
      then (Inl (InvalidArgument ''DiskManager::WritePages: page 0 is reserved for the file header''), dm)
      else if data = [] \<or> length data mod kPageSizeBytes \<noteq> 0
      then (Inl (InvalidArgument
        ''DiskManager::WritePages: data size must be a non-zero multiple of the page size''), dm)
      else case pwrite (dm_os dm) (dm_file dm) (unat start * kPageSizeBytes) data of
             (written, file) \<Rightarrow>
               (if written = Some (length data) then Inr ()
                else Inl (RuntimeError ''DiskManager::WritePages: short or failed write''),
                dm\<lparr>dm_file := file\<rparr>))"

definition ReadPages :: "DiskManager \<Rightarrow> uint32 \<Rightarrow> uint32 \<Rightarrow> bytes result" where
  "ReadPages dm start count =
     (if count = 0 then Inl (InvalidArgument ''DiskManager::ReadPages: count must be > 0'')
      else if start = kHeaderPageId
      then Inl (InvalidArgument ''DiskManager::ReadPages: page 0 is reserved for the file header'')
      else let size = unat count * kPageSizeBytes
           in case pread (dm_os dm) (dm_file dm) (unat start * kPageSizeBytes) size of
                None \<Rightarrow> Inl (RuntimeError ''DiskManager::ReadPages: short or failed read'')
              | Some buffer \<Rightarrow>
                  if length buffer \<noteq> size
                  then Inl (RuntimeError ''DiskManager::ReadPages: short or failed read'')
                  else Inr buffer)"

definition WriteMetadataBlob :: "bytes \<Rightarrow> (DiskManager, unit) action" where
  "WriteMetadataBlob blob dm =
     (let page_region_end = unat (next_free_page_id (dm_header dm)) * kPageSizeBytes
      in sbind (\<lambda>dm. (FileSize dm, dm)) (\<lambda>size.
           let append_offset = max size page_region_end
           in sbind (\<lambda>dm. if blob = [] then (Inr (), dm)
                else case pwrite (dm_os dm) (dm_file dm) append_offset blob of
                       (written, file) \<Rightarrow>
                         (if written = Some (length blob) then Inr ()
                          else Inl (RuntimeError
                            ''DiskManager::WriteMetadataBlob: short or failed write''),
                          dm\<lparr>dm_file := file\<rparr>))
              (\<lambda>_ dm. PersistHeader
                 (dm\<lparr>dm_header := (dm_header dm)\<lparr>meta_offset := word_of_nat append_offset\<rparr>\<rparr>))) dm)"

definition ReadMetadataBlob :: "DiskManager \<Rightarrow> bytes result" where
  "ReadMetadataBlob dm =
     rbind (FileSize dm) (\<lambda>total_size.
       let offset = unat (meta_offset (dm_header dm))
       in if total_size < offset
          then Inl (RuntimeError
            ''DiskManager::ReadMetadataBlob: meta_offset points beyond end of file -- corrupt header'')
          else let blob_size = total_size - offset
               in if blob_size = 0 then Inr []
                  else (case pread (dm_os dm) (dm_file dm) offset blob_size of
                      None \<Rightarrow> Inl (RuntimeError ''DiskManager::ReadMetadataBlob: short or failed read'')
                    | Some buffer \<Rightarrow>
                        if length buffer \<noteq> blob_size
                        then Inl (RuntimeError ''DiskManager::ReadMetadataBlob: short or failed read'')
                        else Inr buffer))"

definition NextFreePageId :: "DiskManager \<Rightarrow> uint32" where
  "NextFreePageId dm = next_free_page_id (dm_header dm)"

section \<open>The header codec\<close>

lemma length_kMagic [simp]: "length kMagic = 8"
  by (simp add: kMagic_def)

lemma FileHeader_Serialize_eq:
  "FileHeader_Serialize h = kMagic @ WriteU64 [] (meta_offset h) @ WriteU32 [] (next_free_page_id h) @ []"
  by (simp add: FileHeader_Serialize_def WriteU64_eq WriteU32_eq)

lemma length_FileHeader_Serialize [simp]: "length (FileHeader_Serialize h) = 20"
  by (simp add: FileHeader_Serialize_eq)

lemma FileHeader_codec:
  "FileHeader_Deserialize (FileHeader_Serialize h @ rest) = Inr h"
proof -
  let ?mo = "WriteU64 [] (meta_offset h)" and ?nf = "WriteU32 [] (next_free_page_id h)"
  have "ReadU64 (reader_at (kMagic @ ?mo @ ?nf @ rest) (length kMagic)) =
      Inr (meta_offset h, reader_at (kMagic @ ?mo @ ?nf @ rest) (length kMagic + length ?mo))"
    by (rule parsesD) (rule u64.rd_wr [OF TrueI])
  moreover have "ReadU32 (reader_at ((kMagic @ ?mo) @ ?nf @ rest) (length (kMagic @ ?mo))) =
      Inr (next_free_page_id h, reader_at ((kMagic @ ?mo) @ ?nf @ rest)
        (length (kMagic @ ?mo) + length ?nf))"
    by (rule parsesD) (rule u32.rd_wr [OF TrueI])
  ultimately show ?thesis
    by (simp add: FileHeader_Deserialize_def FileHeader_Serialize_eq kSerializedSize_def Skip_def)
qed

section \<open>The file under reliable input and output\<close>

lemma pwrite_reliable:
  "reliable os \<Longrightarrow> pwrite os file offset data = (Some (length data), write_at file offset data)"
  by (simp add: pwrite_def reliable_def)

lemma pread_reliable:
  "reliable os \<Longrightarrow> pread os file offset count = Some (take count (drop offset file))"
  by (simp add: pread_def reliable_def)

lemma length_write_at [simp]:
  "data \<noteq> [] \<Longrightarrow> length (write_at file offset data) = max (length file) (offset + length data)"
  by (auto simp: write_at_def max_def min_def)

lemma read_write_at_same: "take (length data) (drop offset (write_at file offset data)) = data"
  if "data \<noteq> []"
proof (cases "offset \<le> length file")
  case True
  with that show ?thesis by (simp add: write_at_def)
next
  case False
  with that show ?thesis by (simp add: write_at_def)
qed

lemma nth_write_at_other:
  "i < length file \<Longrightarrow> i < offset \<or> offset + length data \<le> i \<Longrightarrow> write_at file offset data ! i = file ! i"
  by (auto simp: write_at_def nth_append min_def)

text \<open>A read that stays inside the old file and does not meet the written range is unchanged.\<close>

lemma read_write_at_other:
  assumes "s + n \<le> length file" and "s + n \<le> offset \<or> offset + length data \<le> s"
  shows "take n (drop s (write_at file offset data)) = take n (drop s file)"
proof (rule nth_equalityI)
  have "length file \<le> length (write_at file offset data)"
    by (cases "data = []") (simp_all, simp add: write_at_def)
  with assms(1) show "length (take n (drop s (write_at file offset data))) = length (take n (drop s file))"
    by simp
  fix i
  assume "i < length (take n (drop s (write_at file offset data)))"
  then have "i < n" by simp
  with assms have "write_at file offset data ! (s + i) = file ! (s + i)"
    by (intro nth_write_at_other) auto
  with \<open>i < n\<close> assms(1) \<open>length file \<le> length (write_at file offset data)\<close>
  show "take n (drop s (write_at file offset data)) ! i = take n (drop s file) ! i"
    by simp
qed

lemma write_at_append:
  "length file \<le> offset \<Longrightarrow> data \<noteq> [] \<Longrightarrow>
    write_at file offset data = file @ replicate (offset - length file) 0 @ data"
  by (simp add: write_at_def)

section \<open>The page view\<close>

definition page_slice :: "nat \<Rightarrow> bytes \<Rightarrow> bytes" where
  "page_slice i bs = take kPageSizeBytes (drop (i * kPageSizeBytes) bs)"

definition dm_page :: "DiskManager \<Rightarrow> uint32 \<Rightarrow> bytes option" where
  "dm_page dm p =
     (if p \<noteq> kHeaderPageId \<and> (unat p + 1) * kPageSizeBytes \<le> length (dm_file dm)
      then Some (page_slice (unat p) (dm_file dm)) else None)"

text \<open>
  Between operations the header on disk is the one in memory, and the page counter has
  not wrapped around.
\<close>

definition dm_inv :: "DiskManager \<Rightarrow> bool" where
  "dm_inv dm = (reliable (dm_os dm) \<and> kSerializedSize \<le> length (dm_file dm) \<and>
     take kSerializedSize (dm_file dm) = FileHeader_Serialize (dm_header dm) \<and>
     next_free_page_id (dm_header dm) \<noteq> 0)"

definition pages_kept :: "DiskManager \<Rightarrow> DiskManager \<Rightarrow> bool" where
  "pages_kept dm dm' = (\<forall>p x. dm_page dm p = Some x \<longrightarrow> dm_page dm' p = Some x)"

lemma pages_kept_refl: "pages_kept dm dm"
  by (simp add: pages_kept_def)

lemma pages_kept_trans: "pages_kept a b \<Longrightarrow> pages_kept b c \<Longrightarrow> pages_kept a c"
  by (simp add: pages_kept_def)

lemma length_dm_page: "dm_page dm p = Some x \<Longrightarrow> length x = kPageSizeBytes"
  by (auto simp: dm_page_def page_slice_def kPageSizeBytes_def split: if_splits)

lemma ReadPages_one:
  assumes "reliable (dm_os dm)"
  shows "ReadPages dm p 1 = (case dm_page dm p of Some x \<Rightarrow> Inr x
    | None \<Rightarrow> if p = kHeaderPageId
        then Inl (InvalidArgument ''DiskManager::ReadPages: page 0 is reserved for the file header'')
        else Inl (RuntimeError ''DiskManager::ReadPages: short or failed read''))"
  using assms by (auto simp: ReadPages_def dm_page_def page_slice_def pread_reliable Let_def
      kPageSizeBytes_def)

text \<open>Writes that leave the page region's existing bytes alone keep all pages.\<close>

lemma dm_page_write_other:
  assumes "dm_page dm p = Some x" and "dm_file dm' = write_at (dm_file dm) offset data"
    and "(unat p + 1) * kPageSizeBytes \<le> offset \<or> offset + length data \<le> unat p * kPageSizeBytes"
  shows "dm_page dm' p = Some x"
proof -
  from assms(1) have p: "p \<noteq> kHeaderPageId" "(unat p + 1) * kPageSizeBytes \<le> length (dm_file dm)"
    and x: "x = page_slice (unat p) (dm_file dm)"
    by (auto simp: dm_page_def split: if_splits)
  have "length (dm_file dm) \<le> length (dm_file dm')"
    unfolding assms(2) by (cases "data = []") (simp_all, simp add: write_at_def)
  moreover have "page_slice (unat p) (dm_file dm') = x"
    unfolding x page_slice_def assms(2)
    using p(2) assms(3) by (intro read_write_at_other) (auto simp: algebra_simps)
  ultimately show ?thesis
    using p by (simp add: dm_page_def)
qed

lemma header_before_pages:
  "dm_page dm p = Some x \<Longrightarrow> kSerializedSize \<le> unat p * kPageSizeBytes"
proof -
  assume "dm_page dm p = Some x"
  then have "p \<noteq> 0"
    by (auto simp: dm_page_def kHeaderPageId_def split: if_splits)
  then have "1 \<le> unat p"
    by (simp add: Suc_leI unat_gt_0)
  then show ?thesis
    by (simp add: kSerializedSize_def kPageSizeBytes_def)
qed

lemma PersistHeader_spec:
  assumes "reliable (dm_os dm)"
  defines "dm' \<equiv> dm\<lparr>dm_file := write_at (dm_file dm) 0 (FileHeader_Serialize (dm_header dm))\<rparr>"
  shows "PersistHeader dm = (Inr (), dm')" and "pages_kept dm dm'"
    and "next_free_page_id (dm_header dm) \<noteq> 0 \<Longrightarrow> dm_inv dm'"
    and "length (dm_file dm') = max (length (dm_file dm)) 20"
proof -
  have ne: "FileHeader_Serialize h \<noteq> []" for h
    by (metis length_FileHeader_Serialize list.size(3) zero_neq_numeral)
  show "PersistHeader dm = (Inr (), dm')"
    using assms by (simp add: PersistHeader_def pwrite_reliable Let_def)
  show "pages_kept dm dm'"
    unfolding pages_kept_def
  proof (intro allI impI)
    fix p x
    assume page: "dm_page dm p = Some x"
    show "dm_page dm' p = Some x"
      by (rule dm_page_write_other [OF page, of _ 0 "FileHeader_Serialize (dm_header dm)"])
        (use header_before_pages [OF page] in \<open>simp_all add: dm'_def kSerializedSize_def\<close>)
  qed
  show len: "length (dm_file dm') = max (length (dm_file dm)) 20"
    using ne by (simp add: dm'_def)
  show "dm_inv dm'" if "next_free_page_id (dm_header dm) \<noteq> 0"
    using that assms(1) read_write_at_same [OF ne, of "dm_header dm" 0 "dm_file dm"] ne
    by (simp add: dm_inv_def dm'_def kSerializedSize_def)
qed

lemma AllocatePages_spec:
  assumes "dm_inv dm" and "count \<noteq> 0"
    and room: "unat (next_free_page_id (dm_header dm)) + unat count < 2 ^ 32"
  obtains dm' where "AllocatePages count dm = (Inr (next_free_page_id (dm_header dm)), dm')"
    "dm_inv dm'" "pages_kept dm dm'" "dm_file dm' = write_at (dm_file dm) 0
       (FileHeader_Serialize (dm_header dm'))"
    "next_free_page_id (dm_header dm') = next_free_page_id (dm_header dm) + count"
    "meta_offset (dm_header dm') = meta_offset (dm_header dm)"
    "length (dm_file dm') = length (dm_file dm)" "dm_os dm' = dm_os dm"
proof -
  let ?n = "next_free_page_id (dm_header dm)"
  let ?dm1 = "dm\<lparr>dm_header := (dm_header dm)\<lparr>next_free_page_id := ?n + count\<rparr>\<rparr>"
  let ?dm' = "?dm1\<lparr>dm_file := write_at (dm_file ?dm1) 0 (FileHeader_Serialize (dm_header ?dm1))\<rparr>"
  from assms(1) have rel: "reliable (dm_os ?dm1)" and len: "20 \<le> length (dm_file dm)"
    by (simp_all add: dm_inv_def kSerializedSize_def)
  have "unat (?n + count) = unat ?n + unat count"
    using room by (simp add: unat_word_ariths)
  moreover have "unat ?n \<noteq> 0"
    using assms(1) by (simp add: dm_inv_def unat_eq_0)
  ultimately have "?n + count \<noteq> 0"
    by (metis add_is_0 unat_0)
  then have "next_free_page_id (dm_header ?dm1) \<noteq> 0"
    by simp
  note ph = PersistHeader_spec [OF rel]
  have "pages_kept dm ?dm1"
    by (simp add: pages_kept_def dm_page_def)
  then have "pages_kept dm ?dm'"
    using ph(2) by (rule pages_kept_trans)
  moreover have "AllocatePages count dm = (Inr ?n, ?dm')"
    using assms(2) ph(1) by (simp add: AllocatePages_def Let_def sbind_def)
  moreover have "length (dm_file ?dm') = length (dm_file dm)"
    using ph(4) len by simp
  ultimately show thesis
    using that [of ?dm'] ph(3) \<open>next_free_page_id (dm_header ?dm1) \<noteq> 0\<close> by simp
qed

text \<open>A page of a multi-page write is the corresponding slice of the data.\<close>

lemma WritePages_spec:
  assumes "dm_inv dm" and "start \<noteq> 0" and "length data = k * kPageSizeBytes" and "0 < k"
  obtains dm' where "WritePages start data dm = (Inr (), dm')" "dm_inv dm'"
    "dm_header dm' = dm_header dm" "dm_os dm' = dm_os dm"
    "dm_file dm' = write_at (dm_file dm) (unat start * kPageSizeBytes) data"
    "length (dm_file dm') = max (length (dm_file dm)) ((unat start + k) * kPageSizeBytes)"
    "\<And>p i. i < k \<Longrightarrow> unat p = unat start + i \<Longrightarrow> dm_page dm' p = Some (page_slice i data)"
    "\<And>p x. dm_page dm p = Some x \<Longrightarrow> unat p < unat start \<or> unat start + k \<le> unat p \<Longrightarrow>
       dm_page dm' p = Some x"
proof -
  let ?off = "unat start * kPageSizeBytes"
  let ?dm' = "dm\<lparr>dm_file := write_at (dm_file dm) ?off data\<rparr>"
  have ne: "data \<noteq> []"
    using assms(3,4) by (auto simp: kPageSizeBytes_def)
  have pos: "1 \<le> unat start"
    using assms(2) by (simp add: Suc_leI unat_gt_0)
  have rel: "reliable (dm_os dm)"
    using assms(1) by (simp add: dm_inv_def)
  have "WritePages start data dm = (Inr (), ?dm')"
    using assms(2,3) ne rel by (simp add: WritePages_def kHeaderPageId_def pwrite_reliable)
  moreover have "length (dm_file ?dm') = max (length (dm_file dm)) ((unat start + k) * kPageSizeBytes)"
    using ne assms(3) by (simp add: algebra_simps)
  moreover have "dm_inv ?dm'"
  proof -
    have "take 20 (drop 0 (write_at (dm_file dm) ?off data)) = take 20 (drop 0 (dm_file dm))"
      using assms(1) pos
      by (intro read_write_at_other) (auto simp: dm_inv_def kSerializedSize_def kPageSizeBytes_def)
    with assms(1) ne show ?thesis
      by (simp add: dm_inv_def kSerializedSize_def le_max_iff_disj)
  qed
  moreover have "dm_page ?dm' p = Some (page_slice i data)"
    if "i < k" "unat p = unat start + i" for p i
  proof -
    have "page_slice (unat p) (dm_file ?dm') =
        take kPageSizeBytes (drop (i * kPageSizeBytes) (take (length data) (drop ?off (dm_file ?dm'))))"
    proof -
      have "i * kPageSizeBytes + kPageSizeBytes \<le> length data"
        using that(1) assms(3) by (metis Suc_leI add.commute mult_Suc mult_le_mono1)
      then show ?thesis
        by (simp add: page_slice_def that(2) drop_take min_def algebra_simps)
    qed
    then have "page_slice (unat p) (dm_file ?dm') = page_slice i data"
      using read_write_at_same [OF ne, of ?off "dm_file dm"] by (simp add: page_slice_def)
    moreover have "(unat p + 1) * kPageSizeBytes \<le> length (dm_file ?dm')"
      using that ne assms(3) mult_le_mono1 [of "unat p + 1" "unat start + k" kPageSizeBytes]
      by (simp add: le_max_iff_disj algebra_simps)
    moreover have "p \<noteq> kHeaderPageId"
      using that(2) pos by (auto simp: kHeaderPageId_def)
    ultimately show ?thesis
      by (simp add: dm_page_def)
  qed
  moreover have "dm_page ?dm' p = Some x"
    if "dm_page dm p = Some x" "unat p < unat start \<or> unat start + k \<le> unat p" for p x
  proof (rule dm_page_write_other [OF that(1), of _ ?off data])
    have "(unat p + 1) * kPageSizeBytes \<le> ?off" if "unat p < unat start"
      using that by (intro mult_le_mono1) simp
    moreover have "?off + length data \<le> unat p * kPageSizeBytes" if "unat start + k \<le> unat p"
      using that assms(3) by (simp add: mult_le_mono1 flip: add_mult_distrib)
    ultimately show "(unat p + 1) * kPageSizeBytes \<le> ?off \<or> ?off + length data \<le> unat p * kPageSizeBytes"
      using that(2) by blast
  qed simp
  ultimately show thesis
    by (intro that [of ?dm']) simp_all
qed

section \<open>Metadata blobs\<close>

lemma WriteMetadataBlob_spec:
  assumes inv: "dm_inv dm" and ne: "blob \<noteq> []"
  defines "off \<equiv> max (length (dm_file dm)) (unat (next_free_page_id (dm_header dm)) * kPageSizeBytes)"
  assumes small: "off < 2 ^ 64"
  obtains dm' where "WriteMetadataBlob blob dm = (Inr (), dm')" "dm_inv dm'" "pages_kept dm dm'"
    "dm_header dm' = (dm_header dm)\<lparr>meta_offset := word_of_nat off\<rparr>" "dm_os dm' = dm_os dm"
    "length (dm_file dm') = off + length blob" "drop off (dm_file dm') = blob"
proof -
  let ?file = "write_at (dm_file dm) off blob"
  let ?dm1 = "dm\<lparr>dm_file := ?file, dm_header := (dm_header dm)\<lparr>meta_offset := word_of_nat off\<rparr>\<rparr>"
  let ?dm' = "?dm1\<lparr>dm_file := write_at ?file 0 (FileHeader_Serialize (dm_header ?dm1))\<rparr>"
  from inv have rel: "reliable (dm_os dm)" and len: "20 \<le> length (dm_file dm)"
    by (simp_all add: dm_inv_def kSerializedSize_def)
  then have "dm_os dm SysFstat \<noteq> None"
    by (simp add: reliable_def)
  note ph = PersistHeader_spec [of ?dm1]
  have appended: "?file = dm_file dm @ replicate (off - length (dm_file dm)) 0 @ blob"
    using ne by (intro write_at_append) (simp_all add: off_def)
  have "WriteMetadataBlob blob dm = (Inr (), ?dm')"
    using ph(1) rel \<open>dm_os dm SysFstat \<noteq> None\<close> ne
    by (simp add: WriteMetadataBlob_def FileSize_def Let_def sbind_def pwrite_reliable off_def)
  moreover have "dm_inv ?dm'"
    using ph(3) rel inv by (simp add: dm_inv_def)
  moreover have "pages_kept dm ?dm'"
  proof -
    have "pages_kept dm ?dm1"
      unfolding pages_kept_def
    proof (intro allI impI)
      fix p x
      assume page: "dm_page dm p = Some x"
      then have "(unat p + 1) * kPageSizeBytes \<le> length (dm_file dm)"
        by (auto simp: dm_page_def split: if_splits)
      then show "dm_page ?dm1 p = Some x"
        by (intro dm_page_write_other [OF page, of _ off blob]) (simp_all add: off_def le_max_iff_disj)
    qed
    from this ph(2) rel show ?thesis
      by (simp add: pages_kept_trans)
  qed
  moreover have "off \<le> length ?file" "length ?file = off + length blob"
    using ne by (simp_all add: off_def)
  moreover have "length (dm_file ?dm') = off + length blob"
    using ph(4) rel len ne by (simp add: off_def)
  moreover have "drop off (dm_file ?dm') = blob"
  proof -
    have "take (length blob) (drop off (dm_file ?dm')) = take (length blob) (drop off ?file)"
      using ne len by (simp, intro read_write_at_other) (simp_all add: off_def)
    also have "\<dots> = blob"
      by (rule read_write_at_same [OF ne])
    finally show ?thesis
      using \<open>length (dm_file ?dm') = off + length blob\<close> by simp
  qed
  ultimately show thesis
    by (intro that [of ?dm']) simp_all
qed

lemma ReadMetadataBlob_spec:
  assumes "dm_inv dm" and "meta_offset (dm_header dm) = word_of_nat off" and "off < 2 ^ 64"
    and "off \<le> length (dm_file dm)"
  shows "ReadMetadataBlob dm = Inr (drop off (dm_file dm))"
proof -
  from assms(1) have rel: "reliable (dm_os dm)"
    by (simp add: dm_inv_def)
  then have "dm_os dm SysFstat \<noteq> None"
    by (simp add: reliable_def)
  with rel assms(2-4) show ?thesis
    by (simp add: ReadMetadataBlob_def FileSize_def Let_def pread_reliable)
qed

lemma DiskManager_Open_spec:
  assumes "dm_inv dm"
  shows "DiskManager_Open (dm_os dm) (Some (dm_file dm)) = Inr dm"
proof -
  from assms have rel: "reliable (dm_os dm)" and len: "kSerializedSize \<le> length (dm_file dm)"
    and hdr: "take kSerializedSize (dm_file dm) = FileHeader_Serialize (dm_header dm)"
    by (simp_all add: dm_inv_def)
  then have "dm_os dm SysOpen \<noteq> None"
    by (simp add: reliable_def)
  with rel len hdr FileHeader_codec [of "dm_header dm" "[]"] show ?thesis
    by (simp add: DiskManager_Open_def pread_reliable kSerializedSize_def)
qed

end
