(* ===== verification/Catalog.thy ===== *)
theory Catalog
  imports Schema Disk "HOL-Library.AList" "HOL-Library.Multiset"
begin

text \<open>
  \<open>catalog/catalog\<close>. \<open>tables_by_name_\<close> is an association list; the order in which the
  implementation's hash table enumerates its keys is not specified, so it is a function
  carried in the field \<open>cat_order\<close>, of which \<open>enumerates\<close> says that it enumerates the keys it
  is given. A pointer to a table is the name it is stored under.

  Metadata survives a flush and a reopen: that is the theorem of this theory.
\<close>

section \<open>Operations\<close>

record Catalog =
  cat_disk :: DiskManager
  cat_schema :: SchemaSection
  cat_tables :: "(string \<times> TableObject) list"
  cat_order :: "string list \<Rightarrow> string list"

definition CombineSchemaAndFooter :: "SchemaSection \<Rightarrow> Footer \<Rightarrow> bytes" where
  "CombineSchemaAndFooter schema footer =
     (let schema_bytes = SchemaSection_Serialize schema;
          footer_bytes = Footer_Serialize footer
      in WriteU32 [] (word_of_nat (length schema_bytes)) @ schema_bytes @ footer_bytes)"

definition SplitSchemaAndFooter :: "bytes \<Rightarrow> (SchemaSection \<times> Footer) result" where
  "SplitSchemaAndFooter combined =
     rbind (ReadU32 (reader_at combined 0)) (\<lambda>(schema_length, r).
       if length combined < 4 + unat schema_length
       then Inl (UndefinedBehaviour ''iterator past the end of the metadata blob'')
       else rbind (SchemaSection_Deserialize (take (unat schema_length) (drop 4 combined))) (\<lambda>schema.
            rbind (Footer_Deserialize (drop (4 + unat schema_length) combined)) (\<lambda>footer.
              Inr (schema, footer))))"

definition catalog_rows :: "Catalog \<Rightarrow> (string \<times> TableObject) list" where
  "catalog_rows c = map (\<lambda>n. (n, the (map_of (cat_tables c) n))) (cat_order c (map fst (cat_tables c)))"

definition PersistMetadata :: "(Catalog, unit) action" where
  "PersistMetadata c =
     (let footer = fold (\<lambda>entry f. fold (\<lambda>rg f. ft_AddRowGroup f rg) (to_row_groups (snd entry)) f)
                     (catalog_rows c) EmptyFooter
      in case WriteMetadataBlob (CombineSchemaAndFooter (cat_schema c) footer) (cat_disk c) of
           (res, dm) \<Rightarrow> (res, c\<lparr>cat_disk := dm\<rparr>))"

definition MakeCatalog :: "(string list \<Rightarrow> string list) \<Rightarrow> DiskManager \<Rightarrow> Catalog" where
  "MakeCatalog order dm =
     \<lparr>cat_disk = dm, cat_schema = EmptySchemaSection, cat_tables = [], cat_order = order\<rparr>"

definition add_table_entry ::
    "TableSchemaEntry \<Rightarrow> (string \<times> TableObject) list \<times> (uint32 \<times> string) list \<Rightarrow>
     (string \<times> TableObject) list \<times> (uint32 \<times> string) list" where
  "add_table_entry e = (\<lambda>(tables, table_by_id).
     (emplace (ts_table_name e) (MakeTableObject (ts_table_id e) (ts_table_name e) (ts_columns e)) tables,
      emplace (ts_table_id e) (ts_table_name e) table_by_id))"

definition attach_row_group ::
    "(uint32 \<times> string) list \<Rightarrow> RowGroupFooterEntry \<Rightarrow> (string \<times> TableObject) list \<Rightarrow>
     (string \<times> TableObject) list result" where
  "attach_row_group table_by_id rg tables =
     (case map_of table_by_id (rg_table_id rg) of
        None \<Rightarrow> Inl (RuntimeError
          ''Catalog::Open: row group references an unknown table_id -- corrupt metadata'')
      | Some name \<Rightarrow>
          rbind (to_AddRowGroup (the (map_of tables name)) rg) (\<lambda>t.
            Inr (AList.update name t tables)))"

definition ReconstructFromDisk :: "Catalog \<Rightarrow> Catalog result" where
  "ReconstructFromDisk c =
     rbind (ReadMetadataBlob (cat_disk c)) (\<lambda>combined.
     rbind (SplitSchemaAndFooter combined) (\<lambda>(schema, footer).
       case fold add_table_entry (ss_tables schema) (cat_tables c, []) of (tables, table_by_id) \<Rightarrow>
       rbind (rfold (attach_row_group table_by_id) (ft_row_groups footer) tables) (\<lambda>tables.
         Inr (c\<lparr>cat_schema := schema, cat_tables := tables\<rparr>))))"

definition Catalog_CreateNew :: "(string list \<Rightarrow> string list) \<Rightarrow> os \<Rightarrow> bytes option \<Rightarrow> Catalog result" where
  "Catalog_CreateNew order os existing =
     rbind (DiskManager_CreateNew os existing) (\<lambda>dm.
       case PersistMetadata (MakeCatalog order dm) of (Inl e, _) \<Rightarrow> Inl e | (Inr _, c) \<Rightarrow> Inr c)"

definition Catalog_Open :: "(string list \<Rightarrow> string list) \<Rightarrow> os \<Rightarrow> bytes option \<Rightarrow> Catalog result" where
  "Catalog_Open order os existing =
     rbind (DiskManager_Open os existing) (\<lambda>dm. ReconstructFromDisk (MakeCatalog order dm))"

definition CreateTable :: "string \<Rightarrow> ColumnDef list \<Rightarrow> (Catalog, uint32) action" where
  "CreateTable table_name columns c =
     (if map_of (cat_tables c) table_name \<noteq> None
      then (Inl (InvalidArgument
        (''Catalog::CreateTable: table '' @ [CHR 0x27] @ table_name @ [CHR 0x27] @ '' already exists'')), c)
      else case ss_AddTable (cat_schema c) table_name columns of (table_id, schema) \<Rightarrow>
             sbind PersistMetadata (\<lambda>_. sreturn table_id)
               (c\<lparr>cat_schema := schema,
                  cat_tables := emplace table_name (MakeTableObject table_id table_name columns)
                    (cat_tables c)\<rparr>))"

definition GetTable :: "Catalog \<Rightarrow> string \<Rightarrow> TableObject option" where
  "GetTable c table_name = map_of (cat_tables c) table_name"

definition GetTableById :: "Catalog \<Rightarrow> uint32 \<Rightarrow> TableObject option" where
  "GetTableById c table_id = map_option snd (find (\<lambda>(_, t). to_table_id t = table_id) (catalog_rows c))"

definition Flush :: "(Catalog, unit) action" where
  "Flush = PersistMetadata"

text \<open>The destructor persists too, and swallows every exception.\<close>

definition Catalog_destructor :: "Catalog \<Rightarrow> DiskManager" where
  "Catalog_destructor c = cat_disk (snd (PersistMetadata c))"

definition cat_AddRowGroup :: "string \<Rightarrow> RowGroupFooterEntry \<Rightarrow> (Catalog, unit) action" where
  "cat_AddRowGroup table_name rg c =
     (case map_of (cat_tables c) table_name of
        None \<Rightarrow> (Inl (InvalidArgument (''Catalog::AddRowGroup: unknown table '' @
          [CHR 0x27] @ table_name @ [CHR 0x27])), c)
      | Some t \<Rightarrow>
          (case to_AddRowGroup t rg of
             Inl e \<Rightarrow> (Inl e, c)
           | Inr t' \<Rightarrow> (Inr (), c\<lparr>cat_tables := AList.update table_name t' (cat_tables c)\<rparr>)))"

definition TableNames :: "Catalog \<Rightarrow> string list" where
  "TableNames c = sort (map fst (catalog_rows c))"

section \<open>Invariant\<close>

definition enumerates :: "('a list \<Rightarrow> 'a list) \<Rightarrow> bool" where
  "enumerates order = (\<forall>xs. mset (order xs) = mset xs)"

text \<open>The table of a schema entry that holds given row groups.\<close>

definition loaded_table :: "TableSchemaEntry \<Rightarrow> RowGroupFooterEntry list \<Rightarrow> TableObject" where
  "loaded_table e rgs = (MakeTableObject (ts_table_id e) (ts_table_name e) (ts_columns e))
     \<lparr>to_row_groups := rgs, to_total_row_count := sum_list (map (\<lambda>rg. ucast (rg_row_count rg)) rgs)\<rparr>"

definition tables_of :: "TableSchemaEntry list \<Rightarrow> (string \<Rightarrow> RowGroupFooterEntry list) \<Rightarrow>
    (string \<times> TableObject) list" where
  "tables_of es G = map (\<lambda>e. (ts_table_name e, loaded_table e (G (ts_table_name e)))) es"

definition schema_inv :: "SchemaSection \<Rightarrow> bool" where
  "schema_inv s = (schema_ok s \<and> distinct (map ts_table_name (ss_tables s)) \<and>
     map ts_table_id (ss_tables s) = map word_of_nat [0..<length (ss_tables s)] \<and>
     next_table_id s = word_of_nat (length (ss_tables s)))"

definition catalog_holds :: "Catalog \<Rightarrow> (string \<Rightarrow> RowGroupFooterEntry list) \<Rightarrow> bool" where
  "catalog_holds c G = (
     dm_inv (cat_disk c) \<and> enumerates (cat_order c) \<and> schema_inv (cat_schema c) \<and>
     cat_tables c = tables_of (ss_tables (cat_schema c)) G \<and>
     (\<forall>e \<in> set (ss_tables (cat_schema c)). \<forall>rg \<in> set (G (ts_table_name e)).
        rg_table_id rg = ts_table_id e \<and> row_group_wf rg))"

text \<open>Every length the file format stores in a fixed-width field fits.\<close>

definition metadata_footer :: "Catalog \<Rightarrow> Footer" where
  "metadata_footer c = \<lparr>ft_row_groups = concat (map (to_row_groups \<circ> snd) (catalog_rows c))\<rparr>"

definition metadata_fits :: "Catalog \<Rightarrow> bool" where
  "metadata_fits c = (length (SchemaSection_Serialize (cat_schema c)) < 2 ^ 32 \<and>
     length (ft_row_groups (metadata_footer c)) < 2 ^ 32 \<and>
     max (length (dm_file (cat_disk c)))
       (unat (next_free_page_id (dm_header (cat_disk c))) * kPageSizeBytes) < 2 ^ 64)"

section \<open>Reading the metadata back\<close>

lemma CombineSchemaAndFooter_split:
  assumes "schema_ok s" and "footer_wf f" and "length (SchemaSection_Serialize s) < 2 ^ 32"
  shows "SplitSchemaAndFooter (CombineSchemaAndFooter s f) = Inr (s, f)"
proof -
  let ?n = "word_of_nat (length (SchemaSection_Serialize s)) :: uint32"
  have n: "unat ?n = length (SchemaSection_Serialize s)"
    using assms(3) by (simp add: unat_of_nat_small)
  have "ReadU32 (reader_at (WriteU32 [] ?n @ rest) 0) =
      Inr (?n, reader_at (WriteU32 [] ?n @ rest) (length (WriteU32 [] ?n)))" for rest
    by (rule parses_whole) (rule u32.rd_wr [OF TrueI])
  with n schema_codec [OF assms(1)] footer_codec [OF assms(2)] show ?thesis
    by (simp add: SplitSchemaAndFooter_def CombineSchemaAndFooter_def Let_def)
qed

lemma fold_emplace_distinct:
  assumes "distinct (map k xs)" and "\<forall>x \<in> set xs. map_of m (k x) = None"
  shows "fold (\<lambda>x m. emplace (k x) (v x) m) xs m = m @ map (\<lambda>x. (k x, v x)) xs"
  using assms
proof (induction xs arbitrary: m)
  case (Cons x xs)
  then have "map_of (m @ [(k x, v x)]) (k y) = None" if "y \<in> set xs" for y
    using that by (auto simp: map_add_def) (metis imageI)
  with Cons show ?case
    by (simp add: emplace_def)
qed simp

lemma fold_add_table_entry:
  "fold add_table_entry es (tables, ids) =
    (fold (\<lambda>e m. emplace (ts_table_name e)
       (MakeTableObject (ts_table_id e) (ts_table_name e) (ts_columns e)) m) es tables,
     fold (\<lambda>e m. emplace (ts_table_id e) (ts_table_name e) m) es ids)"
  by (induction es arbitrary: tables ids) (simp_all add: add_table_entry_def)

lemma loaded_table_Nil:
  "loaded_table e [] = MakeTableObject (ts_table_id e) (ts_table_name e) (ts_columns e)"
  by (simp add: loaded_table_def MakeTableObject_def)

lemma loaded_table_add:
  "rg_table_id rg = ts_table_id e \<Longrightarrow>
    to_AddRowGroup (loaded_table e rgs) rg = Inr (loaded_table e (rgs @ [rg]))"
  by (simp add: to_AddRowGroup_def loaded_table_def MakeTableObject_def)

lemma map_fst_tables_of: "map fst (tables_of es G) = map ts_table_name es"
  by (simp add: tables_of_def)

lemma map_of_tables_of:
  "distinct (map ts_table_name es) \<Longrightarrow> e \<in> set es \<Longrightarrow>
    map_of (tables_of es G) (ts_table_name e) = Some (loaded_table e (G (ts_table_name e)))"
  by (rule map_of_is_SomeI) (auto simp: tables_of_def comp_def)

lemma update_tables_of:
  assumes "distinct (map ts_table_name es)" and "e \<in> set es"
  shows "AList.update (ts_table_name e) (loaded_table e rgs) (tables_of es G) =
    tables_of es (G(ts_table_name e := rgs))"
  using assms
proof (induction es)
  case (Cons d es)
  show ?case
  proof (cases "e = d")
    case True
    with Cons.prems show ?thesis by (auto simp: tables_of_def) (metis imageI)
  next
    case False
    with Cons show ?thesis by (auto simp: tables_of_def)
  qed
qed simp

lemma schema_inv_ids:
  assumes "schema_inv s"
  shows "distinct (map ts_table_id (ss_tables s))" and "distinct (map ts_table_name (ss_tables s))"
    and "\<And>e e'. e \<in> set (ss_tables s) \<Longrightarrow> e' \<in> set (ss_tables s) \<Longrightarrow>
      ts_table_id e = ts_table_id e' \<longleftrightarrow> ts_table_name e = ts_table_name e'"
proof -
  have "inj_on (word_of_nat :: nat \<Rightarrow> uint32) {0..<length (ss_tables s)}"
    using assms by (intro inj_on_inverseI [of _ unat]) (auto simp: schema_inv_def schema_ok_def unat_of_nat_small)
  then show ids: "distinct (map ts_table_id (ss_tables s))"
    using assms by (simp add: schema_inv_def distinct_map)
  show names: "distinct (map ts_table_name (ss_tables s))"
    using assms by (simp add: schema_inv_def)
  show "ts_table_id e = ts_table_id e' \<longleftrightarrow> ts_table_name e = ts_table_name e'"
    if "e \<in> set (ss_tables s)" "e' \<in> set (ss_tables s)" for e e'
    using ids names that by (auto simp: distinct_map dest: inj_onD)
qed

text \<open>Attaching row groups appends each to the groups of its table.\<close>

lemma attach_row_groups:
  assumes names: "distinct (map ts_table_name es)" and ids: "distinct (map ts_table_id es)"
    and rgs: "\<forall>rg \<in> set rgs. rg_table_id rg \<in> ts_table_id ` set es"
  shows "rfold (attach_row_group (map (\<lambda>e. (ts_table_id e, ts_table_name e)) es)) rgs (tables_of es G) =
    Inr (tables_of es (\<lambda>n. G n @ filter (\<lambda>rg. \<exists>e \<in> set es. ts_table_name e = n \<and> rg_table_id rg = ts_table_id e) rgs))"
  using rgs
proof (induction rgs arbitrary: G)
  case (Cons rg rgs)
  let ?ids = "map (\<lambda>e. (ts_table_id e, ts_table_name e)) es"
  obtain e where e: "e \<in> set es" "rg_table_id rg = ts_table_id e"
    using Cons.prems by auto
  let ?G = "G(ts_table_name e := G (ts_table_name e) @ [rg])"
  have "map_of ?ids (ts_table_id e) = Some (ts_table_name e)"
    using ids e(1) by (intro map_of_is_SomeI) (auto simp: comp_def)
  then have "attach_row_group ?ids rg (tables_of es G) = Inr (tables_of es ?G)"
    using map_of_tables_of [OF names e(1)] update_tables_of [OF names e(1)] e(2)
    by (simp add: attach_row_group_def loaded_table_add)
  moreover have "(\<lambda>n. ?G n @ filter (\<lambda>rg. \<exists>e \<in> set es. ts_table_name e = n \<and> rg_table_id rg = ts_table_id e) rgs) =
      (\<lambda>n. G n @ filter (\<lambda>rg. \<exists>e \<in> set es. ts_table_name e = n \<and> rg_table_id rg = ts_table_id e) (rg # rgs))"
    using e names ids by (auto simp: fun_eq_iff distinct_map dest: inj_onD)
  ultimately show ?case
    using Cons by simp
qed (simp add: tables_of_def)

lemma filter_concat_one:
  assumes "distinct ns" and "n \<in> set ns"
    and "\<And>m rg. m \<in> set ns \<Longrightarrow> rg \<in> set (G m) \<Longrightarrow> P rg \<longleftrightarrow> m = n"
  shows "filter P (concat (map G ns)) = G n"
  using assms
proof (induction ns)
  case (Cons m ns)
  show ?case
  proof (cases "m = n")
    case True
    then have "filter P (concat (map G ns)) = []"
      using Cons.prems by (fastforce simp: filter_empty_conv)
    moreover have "filter P (G m) = G m"
      using Cons.prems(3) True by (auto intro!: filter_True)
    ultimately show ?thesis using True by simp
  next
    case False
    then have "filter P (G m) = []"
      using Cons.prems(3) by (auto simp: filter_empty_conv)
    with False Cons show ?thesis by simp
  qed
qed simp

section \<open>Flush and reopen\<close>

lemma enumeratesD:
  assumes "enumerates order"
  shows "mset (order xs) = mset xs" "set (order xs) = set xs" "distinct (order xs) = distinct xs"
proof -
  show m: "mset (order xs) = mset xs"
    using assms by (simp add: enumerates_def)
  then show "set (order xs) = set xs" "distinct (order xs) = distinct xs"
    by (metis set_mset_mset, metis mset_eq_imp_distinct_iff)
qed

lemma catalog_rows_groups:
  assumes "catalog_holds c G"
  shows "concat (map (to_row_groups \<circ> snd) (catalog_rows c)) =
    concat (map G (cat_order c (map ts_table_name (ss_tables (cat_schema c)))))"
proof -
  let ?es = "ss_tables (cat_schema c)"
  from assms have tabs: "cat_tables c = tables_of ?es G" and names: "distinct (map ts_table_name ?es)"
    and ord: "enumerates (cat_order c)"
    by (simp_all add: catalog_holds_def schema_inv_def)
  have "to_row_groups (the (map_of (tables_of ?es G) n)) = G n"
    if "n \<in> set (cat_order c (map ts_table_name ?es))" for n
    using that map_of_tables_of [OF names, where G = G] enumeratesD(2) [OF ord]
    by (auto simp: loaded_table_def)
  then show ?thesis
    by (simp add: catalog_rows_def tabs map_fst_tables_of comp_def cong: map_cong)
qed

lemma PersistMetadata_footer:
  "PersistMetadata c = (case WriteMetadataBlob (CombineSchemaAndFooter (cat_schema c) (metadata_footer c))
     (cat_disk c) of (res, dm) \<Rightarrow> (res, c\<lparr>cat_disk := dm\<rparr>))"
proof -
  have "fold (\<lambda>entry f. fold (\<lambda>rg f. ft_AddRowGroup f rg) (to_row_groups (snd entry)) f) rows f =
      \<lparr>ft_row_groups = ft_row_groups f @ concat (map (to_row_groups \<circ> snd) rows)\<rparr>"
    for rows :: "(string \<times> TableObject) list" and f :: Footer
  proof (induction rows arbitrary: f)
    case (Cons r rows)
    then show ?case by (simp add: fold_AddRowGroup)
  qed simp
  then show ?thesis
    by (simp add: PersistMetadata_def Let_def metadata_footer_def EmptyFooter_def)
qed

lemma metadata_footer_wf:
  assumes "catalog_holds c G" and "metadata_fits c"
  shows "footer_wf (metadata_footer c)"
proof -
  let ?es = "ss_tables (cat_schema c)"
  have "set (cat_order c (map ts_table_name ?es)) = ts_table_name ` set ?es"
    using assms(1) enumeratesD(2) [of "cat_order c"] by (simp add: catalog_holds_def)
  then have "list_all row_group_wf (concat (map G (cat_order c (map ts_table_name ?es))))"
    using assms(1) by (auto simp: list_all_iff catalog_holds_def)
  then show ?thesis
    using assms(2) catalog_rows_groups [OF assms(1)]
    by (simp add: footer_wf_def metadata_fits_def) (simp add: metadata_footer_def)
qed

lemma ReconstructFromDisk_flushed:
  assumes holds: "catalog_holds c G" and fits: "metadata_fits c"
    and blob: "ReadMetadataBlob dm = Inr (CombineSchemaAndFooter (cat_schema c) (metadata_footer c))"
  shows "ReconstructFromDisk (MakeCatalog order dm) =
    Inr \<lparr>cat_disk = dm, cat_schema = cat_schema c, cat_tables = cat_tables c, cat_order = order\<rparr>"
proof -
  let ?es = "ss_tables (cat_schema c)"
  let ?ids = "map (\<lambda>e. (ts_table_id e, ts_table_name e)) ?es"
  let ?rgs = "concat (map G (cat_order c (map ts_table_name ?es)))"
  from holds have si: "schema_inv (cat_schema c)" and tabs: "cat_tables c = tables_of ?es G"
    and ord: "enumerates (cat_order c)"
    and own: "\<And>e rg. e \<in> set ?es \<Longrightarrow> rg \<in> set (G (ts_table_name e)) \<Longrightarrow> rg_table_id rg = ts_table_id e"
    by (auto simp: catalog_holds_def)
  note ids = schema_inv_ids [OF si]
  have split: "SplitSchemaAndFooter (CombineSchemaAndFooter (cat_schema c) (metadata_footer c)) =
      Inr (cat_schema c, metadata_footer c)"
    using si fits metadata_footer_wf [OF holds fits]
    by (intro CombineSchemaAndFooter_split) (simp_all add: schema_inv_def metadata_fits_def)
  have entries: "fold add_table_entry ?es ([], []) = (tables_of ?es (\<lambda>_. []), ?ids)"
    using ids(1,2) by (simp add: fold_add_table_entry fold_emplace_distinct tables_of_def loaded_table_Nil)
  have oset: "set (cat_order c (map ts_table_name ?es)) = ts_table_name ` set ?es"
    and odist: "distinct (cat_order c (map ts_table_name ?es))"
    using enumeratesD(2,3) [OF ord] ids(2) by auto
  have grp: "filter (\<lambda>rg. \<exists>e \<in> set ?es. ts_table_name e = ts_table_name d \<and> rg_table_id rg = ts_table_id e) ?rgs =
      G (ts_table_name d)" if d: "d \<in> set ?es" for d
  proof (rule filter_concat_one [OF odist])
    show "ts_table_name d \<in> set (cat_order c (map ts_table_name ?es))"
      using d oset by simp
    fix m rg
    assume "m \<in> set (cat_order c (map ts_table_name ?es))" and rg: "rg \<in> set (G m)"
    then obtain e where e: "e \<in> set ?es" "m = ts_table_name e" using oset by auto
    with rg own have "rg_table_id rg = ts_table_id e" by simp
    with e show "(\<exists>e \<in> set ?es. ts_table_name e = ts_table_name d \<and> rg_table_id rg = ts_table_id e)
        \<longleftrightarrow> m = ts_table_name d"
      using ids(3) by metis
  qed
  have "rfold (attach_row_group ?ids) ?rgs (tables_of ?es (\<lambda>_. [])) = Inr (tables_of ?es G)"
  proof -
    have "\<forall>rg \<in> set ?rgs. rg_table_id rg \<in> ts_table_id ` set ?es"
      using oset own by fastforce
    from attach_row_groups [OF ids(2,1) this, of "\<lambda>_. []"] show ?thesis
      using grp by (simp add: tables_of_def cong: map_cong)
  qed
  then show ?thesis
    using blob split entries catalog_rows_groups [OF holds]
    by (simp add: ReconstructFromDisk_def MakeCatalog_def tabs) (simp add: metadata_footer_def)
qed

lemma flush_reopen:
  assumes holds: "catalog_holds c G" and fits: "metadata_fits c"
  obtains c' where "Flush c = (Inr (), c')" "catalog_holds c' G"
    "cat_schema c' = cat_schema c" "cat_tables c' = cat_tables c" "cat_order c' = cat_order c"
    "pages_kept (cat_disk c) (cat_disk c')"
    "next_free_page_id (dm_header (cat_disk c')) = next_free_page_id (dm_header (cat_disk c))"
    "Catalog_Open (cat_order c) (dm_os (cat_disk c')) (Some (dm_file (cat_disk c'))) = Inr c'"
proof -
  let ?dm = "cat_disk c"
  let ?off = "max (length (dm_file ?dm)) (unat (next_free_page_id (dm_header ?dm)) * kPageSizeBytes)"
  let ?blob = "CombineSchemaAndFooter (cat_schema c) (metadata_footer c)"
  from holds have inv: "dm_inv ?dm" by (simp add: catalog_holds_def)
  have "length (WriteU32 [] x) \<noteq> 0" for x by simp
  then have ne: "?blob \<noteq> []"
    by (metis CombineSchemaAndFooter_def append_is_Nil_conv list.size(3))
  from fits have small: "?off < 2 ^ 64" by (simp add: metadata_fits_def)
  obtain dm' where dm': "WriteMetadataBlob ?blob ?dm = (Inr (), dm')" "dm_inv dm'" "pages_kept ?dm dm'"
    "dm_header dm' = (dm_header ?dm)\<lparr>meta_offset := word_of_nat ?off\<rparr>"
    "length (dm_file dm') = ?off + length ?blob" "drop ?off (dm_file dm') = ?blob"
    by (rule WriteMetadataBlob_spec [OF inv ne small])
  let ?c' = "c\<lparr>cat_disk := dm'\<rparr>"
  have "Flush c = (Inr (), ?c')"
    by (simp add: Flush_def PersistMetadata_footer dm'(1))
  moreover have "catalog_holds ?c' G"
    using holds dm'(2) by (simp add: catalog_holds_def)
  moreover have "Catalog_Open (cat_order c) (dm_os dm') (Some (dm_file dm')) = Inr ?c'"
  proof -
    have "ReadMetadataBlob dm' = Inr (drop ?off (dm_file dm'))"
      using dm'(4,5) small by (intro ReadMetadataBlob_spec [OF dm'(2)]) simp_all
    then have "ReadMetadataBlob dm' = Inr ?blob"
      by (simp only: dm'(6))
    from ReconstructFromDisk_flushed [OF holds fits this, of "cat_order c"]
    show ?thesis
      by (simp add: Catalog_Open_def DiskManager_Open_spec [OF dm'(2)])
  qed
  ultimately show thesis
    using that [of ?c'] dm'(3,4) by simp
qed

section \<open>Creating tables and adding row groups\<close>

definition with_table :: "string \<Rightarrow> ColumnDef list \<Rightarrow> Catalog \<Rightarrow> Catalog" where
  "with_table name cols c =
     c\<lparr>cat_schema := snd (ss_AddTable (cat_schema c) name cols),
       cat_tables := cat_tables c @ [(name, MakeTableObject (next_table_id (cat_schema c)) name cols)]\<rparr>"

lemma map_of_cat_tables:
  assumes "catalog_holds c G"
  shows "map_of (cat_tables c) name = None \<longleftrightarrow> name \<notin> ts_table_name ` set (ss_tables (cat_schema c))"
  using assms by (simp add: catalog_holds_def map_of_eq_None_iff tables_of_def image_image)

lemma with_table_holds:
  assumes holds: "catalog_holds c G" and new: "map_of (cat_tables c) name = None"
    and ok: "string_ok name" "length cols < 2 ^ 32" "list_all column_def_ok cols"
    and room: "length (ss_tables (cat_schema c)) + 1 < 2 ^ 32"
  shows "catalog_holds (with_table name cols c) (G(name := []))"
proof -
  let ?es = "ss_tables (cat_schema c)" and ?c = "with_table name cols c"
  let ?e = "\<lparr>ts_table_id = next_table_id (cat_schema c), ts_table_name = name, ts_columns = cols\<rparr>"
  have es: "ss_tables (cat_schema ?c) = ?es @ [?e]"
    and nx: "next_table_id (cat_schema ?c) = next_table_id (cat_schema c) + 1"
    and eqs: "cat_disk ?c = cat_disk c" "cat_order ?c = cat_order c"
    by (simp_all add: with_table_def ss_AddTable_def Let_def)
  have fresh: "name \<notin> ts_table_name ` set ?es"
    using map_of_cat_tables [OF holds] new by simp
  then have keep: "ts_table_name e \<noteq> name" if "e \<in> set ?es" for e
    using that by auto
  have si: "schema_inv (cat_schema c)" and tabs: "cat_tables c = tables_of ?es G"
    using holds by (simp_all add: catalog_holds_def)
  have "schema_inv (cat_schema ?c)"
    using si ok room fresh
    by (simp add: schema_inv_def schema_ok_def es nx table_schema_ok_def add.commute)
  moreover have "cat_tables ?c = tables_of (?es @ [?e]) (G(name := []))"
    using keep by (simp add: with_table_def tabs tables_of_def loaded_table_Nil)
  moreover have "\<forall>e \<in> set (?es @ [?e]). \<forall>rg \<in> set ((G(name := [])) (ts_table_name e)).
      rg_table_id rg = ts_table_id e \<and> row_group_wf rg"
    using holds keep by (auto simp: catalog_holds_def)
  ultimately show ?thesis
    using holds by (simp add: catalog_holds_def es eqs)
qed

lemma CreateTable_flushes:
  "map_of (cat_tables c) name = None \<Longrightarrow>
    CreateTable name cols c = sbind Flush (\<lambda>_. sreturn (next_table_id (cat_schema c))) (with_table name cols c)"
  by (simp add: CreateTable_def with_table_def ss_AddTable_def Let_def emplace_def Flush_def)

lemma cat_AddRowGroup_holds:
  assumes holds: "catalog_holds c G" and e: "e \<in> set (ss_tables (cat_schema c))"
    and rg: "rg_table_id rg = ts_table_id e" "row_group_wf rg"
  defines "name \<equiv> ts_table_name e"
  defines "c' \<equiv> c\<lparr>cat_tables := tables_of (ss_tables (cat_schema c)) (G(name := G name @ [rg]))\<rparr>"
  shows "cat_AddRowGroup name rg c = (Inr (), c')" and "catalog_holds c' (G(name := G name @ [rg]))"
proof -
  let ?es = "ss_tables (cat_schema c)"
  from holds have names: "distinct (map ts_table_name ?es)" and tabs: "cat_tables c = tables_of ?es G"
    and ids: "schema_inv (cat_schema c)"
    by (simp_all add: catalog_holds_def schema_inv_def)
  show "cat_AddRowGroup name rg c = (Inr (), c')"
    using map_of_tables_of [OF names e] update_tables_of [OF names e] rg(1)
    by (simp add: cat_AddRowGroup_def tabs name_def c'_def loaded_table_add)
  have "e' = e" if "e' \<in> set ?es" "ts_table_name e' = name" for e'
    using names that e by (auto simp: name_def distinct_map dest: inj_onD)
  then show "catalog_holds c' (G(name := G name @ [rg]))"
    using holds rg by (auto simp: catalog_holds_def c'_def)
qed

lemma cat_AddRowGroup_unknown:
  "map_of (cat_tables c) name = None \<Longrightarrow> cat_AddRowGroup name rg c =
    (Inl (InvalidArgument (''Catalog::AddRowGroup: unknown table '' @ [CHR 0x27] @ name @ [CHR 0x27])), c)"
  by (simp add: cat_AddRowGroup_def)

lemma GetTable_holds:
  assumes "catalog_holds c G" and "e \<in> set (ss_tables (cat_schema c))"
  shows "GetTable c (ts_table_name e) = Some (loaded_table e (G (ts_table_name e)))"
  using assms map_of_tables_of by (simp add: GetTable_def catalog_holds_def schema_inv_def)

text \<open>Lookup by id does not depend on the enumeration order, because ids are unique.\<close>

lemma GetTableById_holds:
  assumes holds: "catalog_holds c G" and e: "e \<in> set (ss_tables (cat_schema c))"
  shows "GetTableById c (ts_table_id e) = Some (loaded_table e (G (ts_table_name e)))"
proof -
  let ?es = "ss_tables (cat_schema c)"
  from holds have names: "distinct (map ts_table_name ?es)" and tabs: "cat_tables c = tables_of ?es G"
    and si: "schema_inv (cat_schema c)" and ord: "enumerates (cat_order c)"
    by (simp_all add: catalog_holds_def schema_inv_def)
  let ?P = "\<lambda>(_ :: string, t). to_table_id t = ts_table_id e"
  have row: "r = (ts_table_name e, loaded_table e (G (ts_table_name e)))"
    if "r \<in> set (catalog_rows c)" "?P r" for r
  proof -
    from that(1) obtain d where d: "d \<in> set ?es" "r = (ts_table_name d, loaded_table d (G (ts_table_name d)))"
      using map_of_tables_of [OF names, where G = G] enumeratesD(2) [OF ord]
      by (auto simp: catalog_rows_def tabs map_fst_tables_of)
    with that(2) have "ts_table_id d = ts_table_id e"
      by (simp add: loaded_table_def MakeTableObject_def)
    with schema_inv_ids(1) [OF si] d(1) e have "d = e"
      by (auto simp: distinct_map dest: inj_onD)
    with d(2) show ?thesis by simp
  qed
  have "(ts_table_name e, loaded_table e (G (ts_table_name e))) \<in> set (catalog_rows c)"
    using e map_of_tables_of [OF names e, of G] enumeratesD(2) [OF ord]
    by (force simp: catalog_rows_def tabs map_fst_tables_of)
  moreover have "?P (ts_table_name e, loaded_table e (G (ts_table_name e)))"
    by (simp add: loaded_table_def MakeTableObject_def)
  ultimately obtain r where "find ?P (catalog_rows c) = Some r"
    by (metis (no_types, lifting) find_None_iff2 not_None_eq)
  then have "r \<in> set (catalog_rows c)" "?P r" and fr: "find ?P (catalog_rows c) = Some r"
    by (auto simp: find_Some_iff in_set_conv_nth)
  from row [OF this(1,2)] fr show ?thesis
    by (simp add: GetTableById_def)
qed

lemma TableNames_holds:
  assumes "catalog_holds c G"
  shows "TableNames c = sort (map ts_table_name (ss_tables (cat_schema c)))"
proof -
  have "map fst (catalog_rows c) = cat_order c (map ts_table_name (ss_tables (cat_schema c)))"
    using assms by (simp add: catalog_rows_def catalog_holds_def map_fst_tables_of comp_def)
  moreover have "sort (map ts_table_name (ss_tables (cat_schema c))) =
      sort (cat_order c (map ts_table_name (ss_tables (cat_schema c))))"
    using assms enumeratesD(1) [of "cat_order c"]
    by (intro properties_for_sort) (simp_all add: catalog_holds_def)
  ultimately show ?thesis
    by (simp add: TableNames_def)
qed

section \<open>A new database\<close>

lemma DiskManager_CreateNew_ok:
  assumes "reliable os"
  obtains dm where "DiskManager_CreateNew os None = Inr dm" "dm_inv dm" "dm_os dm = os"
    "next_free_page_id (dm_header dm) = kFirstDataPageId" "length (dm_file dm) = 20"
proof -
  let ?dm = "\<lparr>dm_os = os, dm_file = [], dm_header = \<lparr>meta_offset = word_of_nat kSerializedSize,
      next_free_page_id = kFirstDataPageId\<rparr>\<rparr>"
  have rel: "reliable (dm_os ?dm)" using assms by simp
  have "os SysOpen \<noteq> None" using assms by (simp add: reliable_def)
  with PersistHeader_spec [OF rel] that show thesis
    by (simp add: DiskManager_CreateNew_def Let_def kFirstDataPageId_def kHeaderPageId_def)
qed

lemma Catalog_CreateNew_holds:
  assumes "reliable os" and "enumerates order"
  obtains c where "Catalog_CreateNew order os None = Inr c" "catalog_holds c (\<lambda>_. [])"
    "cat_schema c = EmptySchemaSection" "next_free_page_id (dm_header (cat_disk c)) = kFirstDataPageId"
proof -
  obtain dm where dm: "DiskManager_CreateNew os None = Inr dm" "dm_inv dm" "dm_os dm = os"
    "next_free_page_id (dm_header dm) = kFirstDataPageId" "length (dm_file dm) = 20"
    by (rule DiskManager_CreateNew_ok [OF assms(1)])
  let ?c = "MakeCatalog order dm"
  have holds: "catalog_holds ?c (\<lambda>_. [])"
    using dm(2) assms(2)
    by (simp add: catalog_holds_def MakeCatalog_def tables_of_def EmptySchemaSection_def schema_inv_def schema_ok_def)
  have "order [] = []"
    using enumeratesD(1) [OF assms(2), of "[]"] by simp
  then have "metadata_fits ?c"
    by (simp add: metadata_fits_def metadata_footer_def catalog_rows_def MakeCatalog_def dm(4,5)
        SchemaSection_Serialize_def EmptySchemaSection_def kFirstDataPageId_def kHeaderPageId_def kPageSizeBytes_def)
  from flush_reopen [OF holds this] obtain c where
    c: "Flush ?c = (Inr (), c)" "catalog_holds c (\<lambda>_. [])" "cat_schema c = cat_schema ?c"
      "next_free_page_id (dm_header (cat_disk c)) = next_free_page_id (dm_header (cat_disk ?c))"
    by metis
  with dm show thesis
    using that [of c] by (simp add: Catalog_CreateNew_def Flush_def) (simp add: MakeCatalog_def)
qed

section \<open>Properties\<close>

text \<open>A small database: one table of two columns with one row group, all reads and writes complete.\<close>

definition complete_os :: os where
  "complete_os call = (case call of SysPwrite _ n \<Rightarrow> Some n | SysPread _ n \<Rightarrow> Some n | _ \<Rightarrow> Some 0)"

definition example_header :: FileHeader where
  "example_header = \<lparr>meta_offset = 20, next_free_page_id = 3\<rparr>"

definition example_disk :: DiskManager where
  "example_disk = \<lparr>dm_os = complete_os, dm_file = FileHeader_Serialize example_header,
     dm_header = example_header\<rparr>"

definition example_group :: RowGroupFooterEntry where
  "example_group = \<lparr>rg_table_id = 0, rg_row_count = 5,
     rg_validity_bitmap_region = \<lparr>start_page_id = 2, page_count = 1\<rparr>,
     rg_columns = [IntEntry \<lparr>fe_pages = \<lparr>start_page_id = 1, page_count = 1\<rparr>, fe_null_count = 5,
       fe_zone_map = EmptyZoneMap 0\<rparr>]\<rparr>"

definition example_schema :: SchemaSection where
  "example_schema = \<lparr>next_table_id = 1, ss_tables =
     [\<lparr>ts_table_id = 0, ts_table_name = ''t'',
       ts_columns = [\<lparr>cd_name = ''a'', cd_type = kInteger, cd_ordinal = 0\<rparr>]\<rparr>]\<rparr>"

definition example_groups :: "string \<Rightarrow> RowGroupFooterEntry list" where
  "example_groups name = (if name = ''t'' then [example_group] else [])"

definition example_catalog :: Catalog where
  "example_catalog = \<lparr>cat_disk = example_disk, cat_schema = example_schema,
     cat_tables = tables_of (ss_tables example_schema) example_groups, cat_order = rev\<rparr>"

lemma reliable_complete_os: "reliable complete_os"
  by (simp add: reliable_def complete_os_def)

lemma dm_inv_example_disk: "dm_inv example_disk"
  by (simp add: dm_inv_def example_disk_def reliable_complete_os kSerializedSize_def example_header_def)

lemma example_catalog_holds: "catalog_holds example_catalog example_groups"
  by (auto simp: catalog_holds_def example_catalog_def dm_inv_example_disk enumerates_def schema_inv_def
      example_schema_def schema_ok_def table_schema_ok_def column_def_ok_def string_ok_def
      example_groups_def example_group_def row_group_wf_def int_order.zone_wf_empty)

lemma example_metadata_fits: "metadata_fits example_catalog"
  by (simp add: metadata_fits_def example_catalog_def metadata_footer_def catalog_rows_def tables_of_def
      example_schema_def example_groups_def SchemaSection_Serialize_def WriteTableSchema_def
      WriteColumnDef_def WriteString_def example_disk_def example_header_def kPageSizeBytes_def
      loaded_table_def)

text \<open>
  C9: flushing a catalog writes metadata from which \<open>Catalog::Open\<close> rebuilds the same
  catalog (schema section, tables with their row groups in order, file header), in whatever
  order the hash table enumerates its keys, and the flush leaves every data page alone.
\<close>

theorem catalog_survives_reopen:
  assumes "catalog_holds c G" and "metadata_fits c"
  shows "\<exists>c'. Flush c = (Inr (), c') \<and> cat_schema c' = cat_schema c \<and> cat_tables c' = cat_tables c \<and>
    pages_kept (cat_disk c) (cat_disk c') \<and>
    Catalog_Open (cat_order c) (dm_os (cat_disk c')) (Some (dm_file (cat_disk c'))) = Inr c'"
  by (rule flush_reopen [OF assms]) blast

theorem catalog_survives_reopen_witness:
  "\<exists>c'. Flush example_catalog = (Inr (), c') \<and>
    Catalog_Open rev (dm_os (cat_disk c')) (Some (dm_file (cat_disk c'))) = Inr c' \<and>
    map_of (cat_tables c') ''t'' = Some (loaded_table (hd (ss_tables example_schema)) [example_group])"
  using catalog_survives_reopen [OF example_catalog_holds example_metadata_fits]
  by (auto simp: example_catalog_def tables_of_def example_schema_def example_groups_def)

end
