(* ===== verification/Replacer.thy ===== *)
theory Replacer
  imports Prelude
begin

text \<open>
  \<open>storage/replacer\<close>: the LRU replacer of the buffer pool. An iterator of the linked list is
  named by the frame id of its node, which is unique because the list holds every id at most
  once (an invariant proved below). The counter \<open>evictable_count_\<close> is a \<open>size_t\<close> and wraps.

  The replacer refines a list of pairs of frame and evictability, least recently used first;
  the locale \<open>replacement_policy\<close> is what the buffer pool relies on.
\<close>

type_synonym frame_id_t = int32

section \<open>Operations\<close>

record LruReplacer =
  evictable_count :: uint64
  lru_order :: "frame_id_t list"
  lru_position :: "frame_id_t \<rightharpoonup> frame_id_t"
  lru_entries :: "frame_id_t \<rightharpoonup> bool"

definition MakeLruReplacer :: "nat \<Rightarrow> LruReplacer" where
  "MakeLruReplacer num_frames = \<lparr>evictable_count = 0, lru_order = [],
     lru_position = Map.empty, lru_entries = Map.empty\<rparr>"

definition RecordAccess :: "frame_id_t \<Rightarrow> LruReplacer \<Rightarrow> LruReplacer" where
  "RecordAccess frame r =
     (let r1 = (case lru_position r frame of
                  Some node \<Rightarrow> r\<lparr>lru_order := remove1 node (lru_order r)\<rparr>
                | None \<Rightarrow> r\<lparr>lru_entries :=
                    (case lru_entries r frame of
                       None \<Rightarrow> (lru_entries r)(frame \<mapsto> False) | Some _ \<Rightarrow> lru_entries r)\<rparr>)
      in r1\<lparr>lru_order := lru_order r1 @ [frame],
            lru_position := (lru_position r1)(frame \<mapsto> frame)\<rparr>)"

definition SetEvictable :: "frame_id_t \<Rightarrow> bool \<Rightarrow> (LruReplacer, unit) action" where
  "SetEvictable frame set_evictable r =
     (case lru_entries r frame of
        None \<Rightarrow> (Inl (OutOfRange ''LruReplacer::SetEvictable: unknown frame_id''), r)
      | Some evictable \<Rightarrow>
          if evictable = set_evictable then (Inr (), r)
          else (Inr (), r\<lparr>lru_entries := (lru_entries r)(frame \<mapsto> set_evictable),
                 evictable_count := evictable_count r + (if set_evictable then 1 else - 1)\<rparr>))"

definition forget_frame :: "frame_id_t \<Rightarrow> frame_id_t \<Rightarrow> LruReplacer \<Rightarrow> LruReplacer" where
  "forget_frame node frame r =
     r\<lparr>lru_order := remove1 node (lru_order r),
       lru_position := (lru_position r)(frame := None),
       lru_entries := (lru_entries r)(frame := None),
       evictable_count := evictable_count r - 1\<rparr>"

fun evict_loop :: "LruReplacer \<Rightarrow> frame_id_t list \<Rightarrow> frame_id_t option result \<times> LruReplacer" where
  "evict_loop r [] = (Inr None, r)"
| "evict_loop r (f # rest) =
     (case lru_entries r f of
        None \<Rightarrow> (Inl (OutOfRange ''unordered_map::at''), r)
      | Some True \<Rightarrow> (Inr (Some f), forget_frame f f r)
      | Some False \<Rightarrow> evict_loop r rest)"

definition Evict :: "(LruReplacer, frame_id_t option) action" where
  "Evict r = evict_loop r (lru_order r)"

definition Remove :: "frame_id_t \<Rightarrow> (LruReplacer, unit) action" where
  "Remove frame r =
     (case lru_entries r frame of
        None \<Rightarrow> (Inr (), r)
      | Some False \<Rightarrow> (Inl (RuntimeError ''LruReplacer::Remove: frame is not evictable''), r)
      | Some True \<Rightarrow>
          (case lru_position r frame of
             None \<Rightarrow> (Inl (OutOfRange ''unordered_map::at''), r)
           | Some node \<Rightarrow> (Inr (), forget_frame node frame r)))"

definition LruReplacer_Size :: "LruReplacer \<Rightarrow> uint64" where
  "LruReplacer_Size r = evictable_count r"

section \<open>Invariant and abstraction\<close>

definition lru_evictable :: "LruReplacer \<Rightarrow> frame_id_t \<Rightarrow> bool" where
  "lru_evictable r f = (lru_entries r f = Some True)"

definition lru_inv :: "LruReplacer \<Rightarrow> bool" where
  "lru_inv r = (distinct (lru_order r) \<and>
     lru_position r = (\<lambda>f. if f \<in> set (lru_order r) then Some f else None) \<and>
     dom (lru_entries r) = set (lru_order r) \<and>
     evictable_count r = word_of_nat (card {f. lru_evictable r f}))"

definition lru_view :: "LruReplacer \<Rightarrow> (frame_id_t \<times> bool) list" where
  "lru_view r = map (\<lambda>f. (f, lru_evictable r f)) (lru_order r)"

text \<open>The abstract replacer: an association list from least to most recently used.\<close>

definition spec_record :: "'f \<Rightarrow> ('f \<times> bool) list \<Rightarrow> ('f \<times> bool) list" where
  "spec_record f xs =
     filter (\<lambda>(g, _). g \<noteq> f) xs @ [(f, (f, True) \<in> set xs)]"

definition spec_set :: "'f \<Rightarrow> bool \<Rightarrow> ('f \<times> bool) list \<Rightarrow> ('f \<times> bool) list" where
  "spec_set f b xs = map (\<lambda>(g, e). (g, if g = f then b else e)) xs"

definition spec_drop :: "'f \<Rightarrow> ('f \<times> bool) list \<Rightarrow> ('f \<times> bool) list" where
  "spec_drop f xs = filter (\<lambda>(g, _). g \<noteq> f) xs"

definition spec_victim :: "('f \<times> bool) list \<Rightarrow> 'f option" where
  "spec_victim xs = map_option fst (find snd xs)"

lemma lru_inv_empty: "lru_inv (MakeLruReplacer n)" "lru_view (MakeLruReplacer n) = []"
  by (auto simp: lru_inv_def MakeLruReplacer_def lru_view_def lru_evictable_def)

lemma lru_order_view: "map fst (lru_view r) = lru_order r"
  by (simp add: lru_view_def comp_def)

lemma lru_invD:
  assumes "lru_inv r"
  shows "distinct (lru_order r)" "dom (lru_entries r) = set (lru_order r)"
    "lru_position r f = (if f \<in> set (lru_order r) then Some f else None)"
    "f \<in> set (lru_order r) \<longleftrightarrow> (\<exists>b. lru_entries r f = Some b)"
    "finite {f. lru_evictable r f}" "lru_evictable r f \<Longrightarrow> f \<in> set (lru_order r)"
proof -
  show "distinct (lru_order r)" and dom: "dom (lru_entries r) = set (lru_order r)"
    and "lru_position r f = (if f \<in> set (lru_order r) then Some f else None)"
    using assms by (auto simp: lru_inv_def)
  from dom show iff: "f \<in> set (lru_order r) \<longleftrightarrow> (\<exists>b. lru_entries r f = Some b)" for f
    by auto
  then show "lru_evictable r f \<Longrightarrow> f \<in> set (lru_order r)"
    unfolding lru_evictable_def by blast
  from iff have "{f. lru_evictable r f} \<subseteq> set (lru_order r)"
    by (auto simp: lru_evictable_def)
  then show "finite {f. lru_evictable r f}"
    by (rule finite_subset) simp
qed

lemma remove_frame: "distinct xs \<Longrightarrow> remove1 f xs = filter (\<lambda>g. g \<noteq> f) xs"
  by (simp add: distinct_remove1_removeAll removeAll_filter_not_eq eq_commute)

lemma filter_absent: "f \<notin> set xs \<Longrightarrow> filter (\<lambda>g. g \<noteq> f) xs = xs"
  by (induction xs) auto

lemma RecordAccess_fields:
  assumes "lru_inv r"
  shows "lru_order (RecordAccess f r) = filter (\<lambda>g. g \<noteq> f) (lru_order r) @ [f]"
    and "lru_position (RecordAccess f r) = (lru_position r)(f \<mapsto> f)"
    and "lru_entries (RecordAccess f r) =
      (if lru_entries r f = None then (lru_entries r)(f \<mapsto> False) else lru_entries r)"
    and "evictable_count (RecordAccess f r) = evictable_count r"
    and "lru_evictable (RecordAccess f r) = lru_evictable r"
  using lru_invD [OF assms]
  by (auto simp: RecordAccess_def Let_def remove_frame filter_absent lru_evictable_def fun_eq_iff
      split: option.splits)

lemma RecordAccess_refines:
  assumes "lru_inv r"
  shows "lru_inv (RecordAccess f r)" and "lru_view (RecordAccess f r) = spec_record f (lru_view r)"
proof -
  show "lru_inv (RecordAccess f r)"
    using assms by (auto simp: lru_inv_def RecordAccess_fields [OF assms])
  show "lru_view (RecordAccess f r) = spec_record f (lru_view r)"
    using lru_invD(6) [OF assms]
    by (auto simp: lru_view_def RecordAccess_fields [OF assms] spec_record_def filter_map comp_def)
qed

lemma SetEvictable_refines:
  assumes "lru_inv r" and "f \<in> set (lru_order r)"
  obtains r' where "SetEvictable f b r = (Inr (), r')" "lru_inv r'"
    "lru_view r' = spec_set f b (lru_view r)" "lru_order r' = lru_order r"
    "lru_evictable r' = (lru_evictable r)(f := b)"
proof -
  obtain e where e: "lru_entries r f = Some e"
    using assms lru_invD(4) by blast
  let ?r' = "snd (SetEvictable f b r)"
  have res: "SetEvictable f b r = (Inr (), ?r')" and ord: "lru_order ?r' = lru_order r"
    and pos: "lru_position ?r' = lru_position r"
    and ent: "lru_entries ?r' = (lru_entries r)(f \<mapsto> b)"
    and cnt: "evictable_count ?r' =
      evictable_count r + (if e = b then 0 else if b then 1 else - 1)"
    by (auto simp: SetEvictable_def e)
  from ent e have ev: "lru_evictable ?r' = (lru_evictable r)(f := b)"
    by (auto simp: lru_evictable_def fun_eq_iff)
  note fin = lru_invD(5) [OF assms(1)]
  have "evictable_count ?r' = word_of_nat (card {g. lru_evictable ?r' g})"
  proof (cases "e = b")
    case True
    then have "(lru_evictable r)(f := b) = lru_evictable r"
      using e by (auto simp: lru_evictable_def fun_eq_iff)
    with True assms(1) show ?thesis by (simp add: cnt ev lru_inv_def)
  next
    case False
    let ?E = "{g. lru_evictable r g}"
    have "{g. ((lru_evictable r)(f := b)) g} = (if b then insert f ?E else ?E - {f})"
      by auto
    moreover have "f \<in> ?E \<longleftrightarrow> e"
      using e by (simp add: lru_evictable_def)
    ultimately show ?thesis
      using False fin assms(1) card_gt_0_iff [of ?E]
      by (auto simp: cnt ev lru_inv_def of_nat_diff)
  qed
  then have "lru_inv ?r'"
    using assms by (auto simp: lru_inv_def ord pos ent)
  moreover have "lru_view ?r' = spec_set f b (lru_view r)"
    by (auto simp: lru_view_def ord ev spec_set_def)
  ultimately show thesis
    using that res ord ev by blast
qed

lemma forget_frame_refines:
  assumes "lru_inv r" and "lru_evictable r f"
  shows "lru_inv (forget_frame f f r)" and "lru_view (forget_frame f f r) = spec_drop f (lru_view r)"
    and "lru_order (forget_frame f f r) = filter (\<lambda>g. g \<noteq> f) (lru_order r)"
    and "lru_evictable (forget_frame f f r) = (lru_evictable r)(f := False)"
proof -
  let ?r' = "forget_frame f f r" and ?E = "{g. lru_evictable r g}"
  show ord: "lru_order ?r' = filter (\<lambda>g. g \<noteq> f) (lru_order r)"
    using lru_invD(1) [OF assms(1)] by (simp add: forget_frame_def remove_frame)
  show ev: "lru_evictable ?r' = (lru_evictable r)(f := False)"
    by (auto simp: forget_frame_def lru_evictable_def fun_eq_iff)
  have set: "{g. ((lru_evictable r)(f := False)) g} = ?E - {f}"
    by auto
  have "0 < card ?E"
    using assms lru_invD(5) [OF assms(1)] card_gt_0_iff by blast
  then have "evictable_count ?r' = word_of_nat (card {g. lru_evictable ?r' g})"
    using assms lru_invD(5) [OF assms(1)]
    by (simp only: ev set) (simp add: forget_frame_def lru_inv_def of_nat_diff)
  moreover have "lru_position ?r' = (lru_position r)(f := None)"
      "lru_entries ?r' = (lru_entries r)(f := None)"
    by (simp_all add: forget_frame_def)
  ultimately show "lru_inv ?r'"
    using assms(1) by (auto simp: lru_inv_def ord)
  show "lru_view ?r' = spec_drop f (lru_view r)"
    by (auto simp: lru_view_def ord ev spec_drop_def filter_map comp_def)
qed

lemma evict_loop_find:
  assumes "set xs \<subseteq> dom (lru_entries r)"
  shows "evict_loop r xs = (case find (lru_evictable r) xs of
    None \<Rightarrow> (Inr None, r) | Some f \<Rightarrow> (Inr (Some f), forget_frame f f r))"
  using assms by (induction xs) (auto simp: lru_evictable_def split: option.splits bool.splits)

lemma Evict_find:
  assumes "lru_inv r"
  shows "Evict r = (case find (lru_evictable r) (lru_order r) of
    None \<Rightarrow> (Inr None, r) | Some f \<Rightarrow> (Inr (Some f), forget_frame f f r))"
  unfolding Evict_def using lru_invD(2) [OF assms] by (intro evict_loop_find) simp

lemma find_view: "find snd (lru_view r) = map_option (\<lambda>f. (f, True)) (find (lru_evictable r) (lru_order r))"
proof -
  have "find snd (map (\<lambda>f. (f, lru_evictable r f)) xs) =
      map_option (\<lambda>f. (f, True)) (find (lru_evictable r) xs)" for xs
    by (induction xs) auto
  then show ?thesis
    by (simp add: lru_view_def)
qed

lemma Evict_refines:
  assumes "lru_inv r"
  shows "fst (Evict r) = Inr (spec_victim (lru_view r))" and "lru_inv (snd (Evict r))"
    and "lru_view (snd (Evict r)) = (case spec_victim (lru_view r) of
      None \<Rightarrow> lru_view r | Some f \<Rightarrow> spec_drop f (lru_view r))"
proof -
  have "lru_evictable r f" if "find (lru_evictable r) (lru_order r) = Some f" for f
    using that by (auto simp: find_Some_iff)
  with assms forget_frame_refines [OF assms]
  show "fst (Evict r) = Inr (spec_victim (lru_view r))" "lru_inv (snd (Evict r))"
    "lru_view (snd (Evict r)) = (case spec_victim (lru_view r) of
      None \<Rightarrow> lru_view r | Some f \<Rightarrow> spec_drop f (lru_view r))"
    by (auto simp: Evict_find spec_victim_def find_view split: option.splits)
qed

lemma Remove_refines:
  assumes "lru_inv r"
  shows "Remove f r =
    (if f \<notin> set (lru_order r) then (Inr (), r)
     else if lru_evictable r f then (Inr (), forget_frame f f r)
     else (Inl (RuntimeError ''LruReplacer::Remove: frame is not evictable''), r))"
  using lru_invD [OF assms]
  by (auto simp: Remove_def lru_evictable_def split: option.splits bool.splits)

section \<open>What the buffer pool relies on\<close>

text \<open>
  A replacer keeps a set of tracked frames and a subset of evictable ones; an eviction takes
  one evictable frame out and fails only when there is none.
\<close>

locale replacement_policy =
  fixes record_access :: "'f \<Rightarrow> 'r \<Rightarrow> 'r"
    and set_evictable :: "'f \<Rightarrow> bool \<Rightarrow> ('r, unit) action"
    and evict :: "('r, 'f option) action"
    and inv :: "'r \<Rightarrow> bool"
    and tracked :: "'r \<Rightarrow> 'f set"
    and evictable :: "'r \<Rightarrow> 'f set"
  assumes record_inv: "inv r \<Longrightarrow> inv (record_access f r)"
    and record_tracked: "inv r \<Longrightarrow> tracked (record_access f r) = insert f (tracked r)"
    and record_evictable: "inv r \<Longrightarrow> evictable (record_access f r) = evictable r"
    and set_evictable_ok: "inv r \<Longrightarrow> f \<in> tracked r \<Longrightarrow>
      \<exists>r'. set_evictable f b r = (Inr (), r') \<and> inv r' \<and> tracked r' = tracked r \<and>
        evictable r' = (if b then insert f (evictable r) else evictable r - {f})"
    and evict_ok: "inv r \<Longrightarrow>
      (\<exists>f r'. evict r = (Inr (Some f), r') \<and> f \<in> evictable r \<and> inv r' \<and>
         tracked r' = tracked r - {f} \<and> evictable r' = evictable r - {f}) \<or>
      (evict r = (Inr None, r) \<and> evictable r = {})"
    and evictable_tracked: "inv r \<Longrightarrow> evictable r \<subseteq> tracked r"
begin

text \<open>Recording an access and pinning the frame, as \<open>FetchPage\<close> does, cannot fail.\<close>

lemma pin_ok:
  assumes "inv r"
  obtains r' where "set_evictable f False (record_access f r) = (Inr (), r')" "inv r'"
    "tracked r' = insert f (tracked r)" "evictable r' = evictable r - {f}"
  using set_evictable_ok [of "record_access f r" f False] record_inv [OF assms]
    record_tracked [OF assms] record_evictable [OF assms]
  by auto

lemma unpin_ok:
  assumes "inv r" and "f \<in> tracked r"
  obtains r' where "set_evictable f True r = (Inr (), r')" "inv r'"
    "tracked r' = tracked r" "evictable r' = insert f (evictable r)"
  using set_evictable_ok [OF assms, of True] by auto

lemma evict_some:
  assumes "inv r" and "evictable r \<noteq> {}"
  obtains f r' where "evict r = (Inr (Some f), r')" "f \<in> evictable r" "inv r'"
    "tracked r' = tracked r - {f}" "evictable r' = evictable r - {f}"
  using evict_ok [OF assms(1)] assms(2) by auto

end

interpretation lru: replacement_policy RecordAccess SetEvictable Evict lru_inv
  "\<lambda>r. set (lru_order r)" "\<lambda>r. {f. lru_evictable r f}"
proof
  fix r f b
  assume inv: "lru_inv r"
  show "lru_inv (RecordAccess f r)"
    by (rule RecordAccess_refines(1) [OF inv])
  show "set (lru_order (RecordAccess f r)) = insert f (set (lru_order r))"
    by (auto simp: RecordAccess_fields [OF inv])
  show "{g. lru_evictable (RecordAccess f r) g} = {g. lru_evictable r g}"
    by (simp add: RecordAccess_fields [OF inv])
  show "{f. lru_evictable r f} \<subseteq> set (lru_order r)"
    using lru_invD(6) [OF inv] by auto
  show "(\<exists>f r'. Evict r = (Inr (Some f), r') \<and> f \<in> {f. lru_evictable r f} \<and> lru_inv r' \<and>
         set (lru_order r') = set (lru_order r) - {f} \<and>
         {g. lru_evictable r' g} = {g. lru_evictable r g} - {f}) \<or>
      (Evict r = (Inr None, r) \<and> {f. lru_evictable r f} = {})"
  proof (cases "find (lru_evictable r) (lru_order r)")
    case None
    then have "Evict r = (Inr None, r)"
      by (simp add: Evict_find [OF inv])
    moreover have "{f. lru_evictable r f} = {}"
      using None lru_invD(6) [OF inv] by (auto simp: find_None_iff)
    ultimately show ?thesis by blast
  next
    case (Some f)
    then have "lru_evictable r f"
      by (auto simp: find_Some_iff)
    with forget_frame_refines [OF inv this] Some show ?thesis
      by (auto simp: Evict_find [OF inv] split: if_splits)
  qed
  assume "f \<in> set (lru_order r)"
  then obtain r' where "SetEvictable f b r = (Inr (), r')" "lru_inv r'"
    "lru_order r' = lru_order r" "lru_evictable r' = (lru_evictable r)(f := b)"
    by (rule SetEvictable_refines [OF inv])
  then show "\<exists>r'. SetEvictable f b r = (Inr (), r') \<and> lru_inv r' \<and>
      set (lru_order r') = set (lru_order r) \<and>
      {g. lru_evictable r' g} = (if b then insert f {f. lru_evictable r f} else {f. lru_evictable r f} - {f})"
    by (auto split: if_splits)
qed

end
