(* ===== verification/BufferPool.thy ===== *)
theory BufferPool
  imports Disk Replacer
begin

text \<open>
  \<open>storage/buffer_pool_manager\<close>. The pool and the disk manager it points to are the two
  halves of the state. \<open>pages_\<close>, one array of \<open>pool_size * kPageSizeBytes\<close> bytes, is the list
  of its page-sized slices, and the pointer that \<open>FetchPage\<close> returns is the frame it points
  into. Every operation returns its state on the error paths too: what an exception leaves
  behind is part of the behaviour.

  The locale \<open>page_cache\<close> is the contract the scan operators use: every page reads as it does
  on disk, and the frame of a pinned page stays where it is.
\<close>

section \<open>Operations\<close>

record FrameMeta =
  frame_page_id :: uint32
  pin_count :: nat
  is_dirty :: bool
  in_use :: bool

record BufferPoolManager =
  pool_size :: nat
  bp_pages :: "bytes list"
  bp_frames :: "FrameMeta list"
  page_table :: "uint32 \<rightharpoonup> frame_id_t"
  free_list :: "frame_id_t list"
  bp_replacer :: LruReplacer

type_synonym pool_state = "BufferPoolManager \<times> DiskManager"

definition empty_frame :: FrameMeta where
  "empty_frame = \<lparr>frame_page_id = 0, pin_count = 0, is_dirty = False, in_use = False\<rparr>"

definition MakeBufferPoolManager :: "nat \<Rightarrow> BufferPoolManager" where
  "MakeBufferPoolManager n =
     \<lparr>pool_size = n, bp_pages = replicate n (replicate kPageSizeBytes 0),
      bp_frames = replicate n empty_frame, page_table = Map.empty,
      free_list = map word_of_nat [0..<n], bp_replacer = MakeLruReplacer n\<rparr>"

definition meta_at :: "BufferPoolManager \<Rightarrow> frame_id_t \<Rightarrow> FrameMeta" where
  "meta_at bp frame = bp_frames bp ! unat frame"

definition page_at :: "BufferPoolManager \<Rightarrow> frame_id_t \<Rightarrow> bytes" where
  "page_at bp frame = bp_pages bp ! unat frame"

definition set_meta :: "frame_id_t \<Rightarrow> FrameMeta \<Rightarrow> BufferPoolManager \<Rightarrow> BufferPoolManager" where
  "set_meta frame m bp = bp\<lparr>bp_frames := (bp_frames bp)[unat frame := m]\<rparr>"

text \<open>Indexing \<open>frames_\<close> or \<open>pages_\<close> out of range is undefined.\<close>

definition valid_frame :: "BufferPoolManager \<Rightarrow> frame_id_t \<Rightarrow> bool" where
  "valid_frame bp frame = (unat frame < length (bp_frames bp) \<and> unat frame < length (bp_pages bp))"

definition on_replacer :: "(LruReplacer, 'a) action \<Rightarrow> (pool_state, 'a) action" where
  "on_replacer act = (\<lambda>(bp, dm).
     case act (bp_replacer bp) of (res, r) \<Rightarrow> (res, (bp\<lparr>bp_replacer := r\<rparr>, dm)))"

definition on_disk :: "(DiskManager, 'a) action \<Rightarrow> (pool_state, 'a) action" where
  "on_disk act = (\<lambda>(bp, dm). case act dm of (res, dm') \<Rightarrow> (res, (bp, dm')))"

definition FindFreeFrame :: "(pool_state, frame_id_t option) action" where
  "FindFreeFrame = (\<lambda>(bp, dm).
     if free_list bp \<noteq> []
     then (Inr (Some (last (free_list bp))), (bp\<lparr>free_list := butlast (free_list bp)\<rparr>, dm))
     else on_replacer Evict (bp, dm))"

definition touch_frame :: "frame_id_t \<Rightarrow> (pool_state, frame_id_t) action" where
  "touch_frame frame =
     sbind (on_replacer (\<lambda>r. SetEvictable frame False (RecordAccess frame r))) (\<lambda>_. sreturn frame)"

text \<open>The old page of the frame is written back when dirty, and leaves the page table.\<close>

definition vacate_frame :: "frame_id_t \<Rightarrow> (pool_state, unit) action" where
  "vacate_frame frame = (\<lambda>(bp, dm).
     let m = meta_at bp frame
     in if \<not> in_use m then (Inr (), (bp, dm))
        else sbind (if is_dirty m then on_disk (WritePages (frame_page_id m) (page_at bp frame))
                    else sreturn ())
               (\<lambda>_ (bp, dm). (Inr (), (bp\<lparr>page_table := (page_table bp)(frame_page_id m := None)\<rparr>, dm)))
               (bp, dm))"

definition load_frame :: "frame_id_t \<Rightarrow> uint32 \<Rightarrow> (pool_state, unit) action" where
  "load_frame frame page_id = (\<lambda>(bp, dm).
     case ReadPages dm page_id 1 of
       Inl e \<Rightarrow> (Inl e, (bp, dm))
     | Inr data \<Rightarrow>
         (Inr (), ((set_meta frame \<lparr>frame_page_id = page_id, pin_count = 1, is_dirty = False, in_use = True\<rparr>
            bp)\<lparr>bp_pages := (bp_pages bp)[unat frame := data],
                page_table := (page_table bp)(page_id \<mapsto> frame)\<rparr>, dm)))"

definition FetchPage :: "uint32 \<Rightarrow> (pool_state, frame_id_t) action" where
  "FetchPage page_id = (\<lambda>(bp, dm).
     case page_table bp page_id of
       Some frame \<Rightarrow>
         if \<not> valid_frame bp frame then (Inl (UndefinedBehaviour ''frames_ index''), (bp, dm))
         else let m = meta_at bp frame
              in touch_frame frame (set_meta frame (m\<lparr>pin_count := pin_count m + 1\<rparr>) bp, dm)
     | None \<Rightarrow>
         sbind FindFreeFrame (\<lambda>maybe_frame. case maybe_frame of
             None \<Rightarrow> sthrow (RuntimeError ''BufferPoolManager::FetchPage: no free or evictable frame'')
           | Some frame \<Rightarrow>
               (\<lambda>(bp, dm). if \<not> valid_frame bp frame
                  then (Inl (UndefinedBehaviour ''frames_ index''), (bp, dm))
                  else sbind (vacate_frame frame) (\<lambda>_.
                       sbind (load_frame frame page_id) (\<lambda>_. touch_frame frame)) (bp, dm)))
           (bp, dm))"

definition UnpinPage :: "uint32 \<Rightarrow> bool \<Rightarrow> (pool_state, unit) action" where
  "UnpinPage page_id dirty = (\<lambda>(bp, dm).
     case page_table bp page_id of
       None \<Rightarrow> (Inr (), (bp, dm))
     | Some frame \<Rightarrow>
         if \<not> valid_frame bp frame then (Inl (UndefinedBehaviour ''frames_ index''), (bp, dm))
         else let m = meta_at bp frame
              in if pin_count m = 0 then (Inr (), (bp, dm))
                 else let m' = m\<lparr>pin_count := pin_count m - 1, is_dirty := is_dirty m \<or> dirty\<rparr>;
                          bp' = set_meta frame m' bp
                      in if pin_count m' = 0
                         then on_replacer (SetEvictable frame True) (bp', dm)
                         else (Inr (), (bp', dm)))"

text \<open>
  The destructor writes back every dirty frame in frame order. An exception that leaves a
  destructor ends the program; here it ends the loop.
\<close>

fun flush_frames :: "BufferPoolManager \<Rightarrow> nat list \<Rightarrow> (DiskManager, unit) action" where
  "flush_frames bp [] = sreturn ()"
| "flush_frames bp (i # is) =
     (let m = bp_frames bp ! i
      in sbind (if in_use m \<and> is_dirty m then WritePages (frame_page_id m) (bp_pages bp ! i)
                else sreturn ())
           (\<lambda>_. flush_frames bp is))"

definition BufferPoolManager_destructor :: "BufferPoolManager \<Rightarrow> (DiskManager, unit) action" where
  "BufferPoolManager_destructor bp = flush_frames bp [0..<length (bp_frames bp)]"

section \<open>Invariant and page view\<close>

definition frames_of :: "BufferPoolManager \<Rightarrow> frame_id_t set" where
  "frames_of bp = {f. unat f < pool_size bp}"

definition used_frames :: "BufferPoolManager \<Rightarrow> frame_id_t set" where
  "used_frames bp = {f \<in> frames_of bp. in_use (meta_at bp f)}"

definition bp_inv :: "BufferPoolManager \<Rightarrow> bool" where
  "bp_inv bp = (
     length (bp_pages bp) = pool_size bp \<and> length (bp_frames bp) = pool_size bp \<and>
     pool_size bp \<le> 2 ^ 31 \<and> list_all (\<lambda>x. length x = kPageSizeBytes) (bp_pages bp) \<and>
     (\<forall>p f. page_table bp p = Some f \<longleftrightarrow>
        f \<in> used_frames bp \<and> frame_page_id (meta_at bp f) = p) \<and>
     distinct (free_list bp) \<and> set (free_list bp) = frames_of bp - used_frames bp \<and>
     lru_inv (bp_replacer bp) \<and> set (lru_order (bp_replacer bp)) = used_frames bp \<and>
     {f. lru_evictable (bp_replacer bp) f} = {f \<in> used_frames bp. pin_count (meta_at bp f) = 0})"

definition coherent :: "pool_state \<Rightarrow> bool" where
  "coherent = (\<lambda>(bp, dm). \<forall>f \<in> used_frames bp.
     (case dm_page dm (frame_page_id (meta_at bp f)) of
        None \<Rightarrow> False
      | Some x \<Rightarrow> is_dirty (meta_at bp f) \<or> page_at bp f = x))"

definition pool_inv :: "pool_state \<Rightarrow> bool" where
  "pool_inv = (\<lambda>(bp, dm). bp_inv bp \<and> dm_inv dm \<and> coherent (bp, dm))"

definition pool_page :: "pool_state \<Rightarrow> uint32 \<Rightarrow> bytes option" where
  "pool_page = (\<lambda>(bp, dm) p. case page_table bp p of
     Some f \<Rightarrow> Some (page_at bp f) | None \<Rightarrow> dm_page dm p)"

definition pins :: "pool_state \<Rightarrow> uint32 \<Rightarrow> nat" where
  "pins = (\<lambda>(bp, dm) p. case page_table bp p of Some f \<Rightarrow> pin_count (meta_at bp f) | None \<Rightarrow> 0)"

definition pool_room :: "pool_state \<Rightarrow> bool" where
  "pool_room = (\<lambda>(bp, dm). card {p. 0 < pins (bp, dm) p} < pool_size bp)"

text \<open>The pool after one frame's metadata, page, and bookkeeping have been replaced.\<close>

lemma bp_invD:
  assumes "bp_inv bp"
  shows "length (bp_pages bp) = pool_size bp" "length (bp_frames bp) = pool_size bp"
    "page_table bp p = Some f \<longleftrightarrow> f \<in> used_frames bp \<and> frame_page_id (meta_at bp f) = p"
    "set (free_list bp) = frames_of bp - used_frames bp" "lru_inv (bp_replacer bp)"
    "set (lru_order (bp_replacer bp)) = used_frames bp"
    "{f. lru_evictable (bp_replacer bp) f} = {f \<in> used_frames bp. pin_count (meta_at bp f) = 0}"
    "used_frames bp \<subseteq> frames_of bp" "f \<in> frames_of bp \<Longrightarrow> valid_frame bp f"
    "distinct (free_list bp)"
  using assms by (simp_all add: bp_inv_def used_frames_def frames_of_def valid_frame_def) auto

definition replace_frame ::
    "frame_id_t \<Rightarrow> FrameMeta \<Rightarrow> bytes \<Rightarrow> (uint32 \<rightharpoonup> frame_id_t) \<Rightarrow> frame_id_t list \<Rightarrow> LruReplacer \<Rightarrow>
     BufferPoolManager \<Rightarrow> BufferPoolManager" where
  "replace_frame f m x table free r bp =
     bp\<lparr>bp_frames := (bp_frames bp)[unat f := m], bp_pages := (bp_pages bp)[unat f := x],
        page_table := table, free_list := free, bp_replacer := r\<rparr>"

lemma replace_frame_sel [simp]:
  "page_table (replace_frame f m x table free r bp) = table"
  "pool_size (replace_frame f m x table free r bp) = pool_size bp"
  "free_list (replace_frame f m x table free r bp) = free"
  "bp_replacer (replace_frame f m x table free r bp) = r"
  by (simp_all add: replace_frame_def)

lemma replace_frame_at:
  assumes "bp_inv bp" and "f \<in> frames_of bp"
  shows "meta_at (replace_frame f m x table free r bp) g = (if g = f then m else meta_at bp g)"
    and "page_at (replace_frame f m x table free r bp) g = (if g = f then x else page_at bp g)"
    and "frames_of (replace_frame f m x table free r bp) = frames_of bp"
  using assms by (auto simp: replace_frame_def meta_at_def page_at_def frames_of_def bp_invD
      nth_list_update word_unat_eq_iff)

lemma replace_frame_used:
  assumes "bp_inv bp" and "f \<in> frames_of bp" and "in_use m"
  shows "used_frames (replace_frame f m x table free r bp) = insert f (used_frames bp)"
  using assms by (auto simp: used_frames_def replace_frame_at)

lemma replace_frame_inv:
  assumes inv: "bp_inv bp" and f: "f \<in> frames_of bp" and m: "in_use m" and x: "length x = kPageSizeBytes"
    and table: "\<And>q g. table q = Some g \<longleftrightarrow>
      (if g = f then q = frame_page_id m else g \<in> used_frames bp \<and> frame_page_id (meta_at bp g) = q)"
    and free: "distinct free" "set free = frames_of bp - insert f (used_frames bp)"
    and r: "lru_inv r" "set (lru_order r) = insert f (used_frames bp)"
      "{g. lru_evictable r g} = {g. g \<noteq> f \<and> lru_evictable (bp_replacer bp) g} \<union>
         (if pin_count m = 0 then {f} else {})"
  shows "bp_inv (replace_frame f m x table free r bp)"
proof -
  note at = replace_frame_at [OF inv f] and used = replace_frame_used [OF inv f m]
  have "list_all (\<lambda>x. length x = kPageSizeBytes) ((bp_pages bp)[unat f := x])"
    using inv x set_update_subset_insert [of "bp_pages bp" "unat f" x]
    by (auto simp: bp_inv_def list_all_iff)
  moreover have "{g. lru_evictable r g} =
      {g \<in> insert f (used_frames bp). pin_count (if g = f then m else meta_at bp g) = 0}"
    using bp_invD(7) [OF inv] by (auto simp: r(3))
  ultimately show ?thesis
    using inv table free r(1,2)
    unfolding bp_inv_def at used by (simp add: replace_frame_def) auto
qed

section \<open>Pages and pins after a frame is replaced\<close>

lemma pool_page_used:
  "bp_inv bp \<Longrightarrow> f \<in> used_frames bp \<Longrightarrow> pool_page (bp, dm) (frame_page_id (meta_at bp f)) = Some (page_at bp f)"
  by (simp add: pool_page_def bp_invD(3) split: option.splits) (metis bp_invD(3) option.distinct(1) option.inject)

lemma pins_cached: "page_table bp p = Some f \<Longrightarrow> pins (bp, dm) p = pin_count (meta_at bp f)"
  by (simp add: pins_def)

text \<open>
  Replacing the metadata of a frame in use (same page, contents not touched) changes only
  the pin count of its page.
\<close>

lemma repin_pool:
  assumes inv: "pool_inv (bp, dm)" and f: "page_table bp p = Some f"
    and m: "in_use m" "frame_page_id m = p" "is_dirty (meta_at bp f) \<longrightarrow> is_dirty m"
    and r: "lru_inv r" "set (lru_order r) = used_frames bp"
      "{g. lru_evictable r g} = {g. g \<noteq> f \<and> lru_evictable (bp_replacer bp) g} \<union>
         (if pin_count m = 0 then {f} else {})"
  defines "bp' \<equiv> replace_frame f m (page_at bp f) (page_table bp) (free_list bp) r bp"
  shows "pool_inv (bp', dm)" and "pool_page (bp', dm) = pool_page (bp, dm)"
    and "pins (bp', dm) = (pins (bp, dm))(p := pin_count m)"
    and "page_table bp' = page_table bp" and "pool_size bp' = pool_size bp"
proof -
  from inv have bpi: "bp_inv bp" by (simp add: pool_inv_def)
  note D = bp_invD [OF bpi]
  from f have fu: "f \<in> used_frames bp" and fp: "frame_page_id (meta_at bp f) = p"
    by (simp_all add: D(3))
  then have ff: "f \<in> frames_of bp" using D(8) by blast
  note at = replace_frame_at [OF bpi ff] and used = replace_frame_used [OF bpi ff m(1)]
  have fu': "insert f (used_frames bp) = used_frames bp" using fu by blast
  show "page_table bp' = page_table bp" and "pool_size bp' = pool_size bp"
    by (simp_all add: bp'_def)
  show "pool_page (bp', dm) = pool_page (bp, dm)"
    by (auto simp: fun_eq_iff pool_page_def bp'_def at split: option.splits)
  show "pins (bp', dm) = (pins (bp, dm))(p := pin_count m)"
  proof
    fix q
    have "page_table bp q = Some f \<longleftrightarrow> q = p"
      using fu fp by (auto simp: D(3))
    then show "pins (bp', dm) q = ((pins (bp, dm))(p := pin_count m)) q"
      using f by (auto simp: pins_def bp'_def at split: option.splits)
  qed
  have "length (page_at bp f) = kPageSizeBytes"
    using bpi ff by (simp add: page_at_def frames_of_def bp_inv_def list_all_length)
  then have "bp_inv bp'"
    unfolding bp'_def using D(4,10) fu fu' m r
    by (intro replace_frame_inv bpi ff) (auto simp: D(3) fp)
  moreover have "coherent (bp', dm)"
    using inv m fp by (auto simp: coherent_def pool_inv_def bp'_def at used fu' split: option.splits)
  ultimately show "pool_inv (bp', dm)"
    using inv by (simp add: pool_inv_def)
qed

section \<open>UnpinPage and the hit path of FetchPage\<close>

lemma FetchPage_hit:
  assumes inv: "pool_inv (bp, dm)" and f: "page_table bp p = Some f"
  obtains bp' where "FetchPage p (bp, dm) = (Inr f, (bp', dm))" "pool_inv (bp', dm)"
    "pool_page (bp', dm) = pool_page (bp, dm)" "pins (bp', dm) = (pins (bp, dm))(p := pins (bp, dm) p + 1)"
    "page_table bp' = page_table bp" "pool_size bp' = pool_size bp"
proof -
  from inv have bpi: "bp_inv bp" by (simp add: pool_inv_def)
  note D = bp_invD [OF bpi]
  from f have fu: "f \<in> used_frames bp" and fp: "frame_page_id (meta_at bp f) = p"
    by (simp_all add: D(3))
  then have "valid_frame bp f" and iu: "in_use (meta_at bp f)"
    using D(8,9) by (auto simp: used_frames_def)
  obtain r where r: "SetEvictable f False (RecordAccess f (bp_replacer bp)) = (Inr (), r)" "lru_inv r"
    "set (lru_order r) = insert f (set (lru_order (bp_replacer bp)))"
    "{g. lru_evictable r g} = {g. lru_evictable (bp_replacer bp) g} - {f}"
    by (rule lru.pin_ok [OF D(5)])
  let ?m = "(meta_at bp f)\<lparr>pin_count := pin_count (meta_at bp f) + 1\<rparr>"
  let ?bp' = "replace_frame f ?m (page_at bp f) (page_table bp) (free_list bp) r bp"
  have "FetchPage p (bp, dm) = (Inr f, (?bp', dm))"
    using f r(1) \<open>valid_frame bp f\<close>
    by (simp add: FetchPage_def Let_def touch_frame_def on_replacer_def sbind_def set_meta_def
        replace_frame_def page_at_def)
  moreover have "insert f (used_frames bp) = used_frames bp" using fu by blast
  moreover have "{g. lru_evictable r g} = {g. g \<noteq> f \<and> lru_evictable (bp_replacer bp) g} \<union>
         (if pin_count ?m = 0 then {f} else {})"
    using r(4) by auto
  ultimately show thesis
    using repin_pool [OF inv f, of ?m r] r(2,3) iu fp D(6) pins_cached [OF f] that by simp
qed

lemma UnpinPage_pinned:
  assumes inv: "pool_inv (bp, dm)" and pin: "0 < pins (bp, dm) p"
  obtains bp' where "UnpinPage p d (bp, dm) = (Inr (), (bp', dm))" "pool_inv (bp', dm)"
    "pool_page (bp', dm) = pool_page (bp, dm)" "pins (bp', dm) = (pins (bp, dm))(p := pins (bp, dm) p - 1)"
    "page_table bp' = page_table bp" "pool_size bp' = pool_size bp"
proof -
  from inv have bpi: "bp_inv bp" by (simp add: pool_inv_def)
  note D = bp_invD [OF bpi]
  from pin obtain f where f: "page_table bp p = Some f"
    by (auto simp: pins_def split: option.splits)
  then have fu: "f \<in> used_frames bp" and fp: "frame_page_id (meta_at bp f) = p"
    by (simp_all add: D(3))
  then have vf: "valid_frame bp f" and iu: "in_use (meta_at bp f)"
    using D(8,9) by (auto simp: used_frames_def)
  obtain r where r: "SetEvictable f True (bp_replacer bp) = (Inr (), r)" "lru_inv r"
    "set (lru_order r) = set (lru_order (bp_replacer bp))"
    "{g. lru_evictable r g} = insert f {g. lru_evictable (bp_replacer bp) g}"
    by (rule lru.unpin_ok [OF D(5), of f]) (use fu D(6) in auto)
  let ?m = "(meta_at bp f)\<lparr>pin_count := pin_count (meta_at bp f) - 1,
      is_dirty := is_dirty (meta_at bp f) \<or> d\<rparr>"
  let ?r = "if pin_count ?m = 0 then r else bp_replacer bp"
  let ?bp' = "replace_frame f ?m (page_at bp f) (page_table bp) (free_list bp) ?r bp"
  have "UnpinPage p d (bp, dm) = (Inr (), (?bp', dm))"
    using f r(1) vf pin pins_cached [OF f, of dm]
    by (auto simp: UnpinPage_def Let_def on_replacer_def set_meta_def replace_frame_def page_at_def)
  moreover have "f \<notin> {g. lru_evictable (bp_replacer bp) g}"
    using D(7) pin pins_cached [OF f, of dm] by simp
  then have "{g. lru_evictable ?r g} = {g. g \<noteq> f \<and> lru_evictable (bp_replacer bp) g} \<union>
         (if pin_count ?m = 0 then {f} else {})"
    using r(4) by (cases "pin_count ?m = 0") auto
  ultimately show thesis
    using repin_pool [OF inv f, of ?m ?r] r(2,3) iu fp D(5,6) pins_cached [OF f] that by simp
qed

section \<open>The miss path of FetchPage\<close>

lemma card_frames: "n \<le> 2 ^ 32 \<Longrightarrow> card {f :: frame_id_t. unat f < n} = n"
proof -
  assume n: "n \<le> 2 ^ 32"
  have "{f :: frame_id_t. unat f < n} = word_of_nat ` {..<n}"
  proof (intro set_eqI iffI)
    fix f :: frame_id_t
    assume "f \<in> {f. unat f < n}"
    then have "f = word_of_nat (unat f)" "unat f \<in> {..<n}" by auto
    then show "f \<in> word_of_nat ` {..<n}" by blast
  qed (use n in \<open>auto simp: unat_of_nat_small\<close>)
  moreover have "inj_on (word_of_nat :: nat \<Rightarrow> frame_id_t) {..<n}"
    using n by (intro inj_on_inverseI [of _ unat]) (simp add: unat_of_nat_small)
  ultimately show ?thesis
    by (simp add: card_image)
qed

lemma room_available:
  assumes inv: "bp_inv bp" and room: "pool_room (bp, dm)"
  shows "free_list bp \<noteq> [] \<or> {f. lru_evictable (bp_replacer bp) f} \<noteq> {}"
proof (rule ccontr)
  note D = bp_invD [OF inv]
  assume "\<not> ?thesis"
  then have none: "free_list bp = []" "{f \<in> used_frames bp. pin_count (meta_at bp f) = 0} = {}"
    using D(7) by auto
  with D(4,8) have all: "used_frames bp = frames_of bp" by auto
  let ?pid = "\<lambda>f. frame_page_id (meta_at bp f)"
  have inj: "inj_on ?pid (used_frames bp)"
  proof (rule inj_onI)
    fix f g
    assume "f \<in> used_frames bp" "g \<in> used_frames bp" "?pid f = ?pid g"
    then have "page_table bp (?pid f) = Some f" "page_table bp (?pid f) = Some g"
      by (simp_all add: D(3))
    then show "f = g" by simp
  qed
  have "page_table bp (?pid f) = Some f" if "f \<in> used_frames bp" for f
    using that by (simp add: D(3))
  then have "?pid ` used_frames bp \<subseteq> {p. 0 < pins (bp, dm) p}"
    using none(2) by (auto simp: pins_def)
  moreover have "{p. 0 < pins (bp, dm) p} \<subseteq> ?pid ` used_frames bp"
    by (auto simp: pins_def D(3) split: option.splits)
  ultimately have "{p. 0 < pins (bp, dm) p} = ?pid ` used_frames bp" by blast
  then have "card {p. 0 < pins (bp, dm) p} = card (frames_of bp)"
    using inj by (simp add: card_image all)
  also have "\<dots> = pool_size bp"
    using inv by (simp add: frames_of_def bp_inv_def card_frames)
  finally show False
    using room by (simp add: pool_room_def)
qed

lemma FindFreeFrame_ok:
  assumes inv: "bp_inv bp" and room: "pool_room (bp, dm)"
  obtains f free r where
    "FindFreeFrame (bp, dm) = (Inr (Some f), (bp\<lparr>free_list := free, bp_replacer := r\<rparr>, dm))"
    "f \<in> frames_of bp" "f \<in> used_frames bp \<Longrightarrow> pin_count (meta_at bp f) = 0"
    "distinct free" "set free = frames_of bp - insert f (used_frames bp)"
    "lru_inv r" "set (lru_order r) = used_frames bp - {f}"
    "{g. lru_evictable r g} = {g. lru_evictable (bp_replacer bp) g} - {f}"
proof (cases "free_list bp = []")
  case False
  note D = bp_invD [OF inv]
  let ?f = "last (free_list bp)" and ?free = "butlast (free_list bp)"
  have split: "free_list bp = ?free @ [?f]" using False by simp
  with D(10) have "distinct (?free @ [?f])" by metis
  moreover have fs: "set (?free @ [?f]) = frames_of bp - used_frames bp"
    using D(4) split by metis
  ultimately have "distinct ?free" "set ?free = frames_of bp - insert ?f (used_frames bp)"
      "?f \<in> frames_of bp" "?f \<notin> used_frames bp"
    by auto
  moreover have "FindFreeFrame (bp, dm) = (Inr (Some ?f),
      (bp\<lparr>free_list := ?free, bp_replacer := bp_replacer bp\<rparr>, dm))"
    using False by (simp add: FindFreeFrame_def)
  moreover have "{g. lru_evictable (bp_replacer bp) g} - {?f} = {g. lru_evictable (bp_replacer bp) g}"
    "used_frames bp - {?f} = used_frames bp"
    using D(7) \<open>?f \<notin> used_frames bp\<close> by auto
  ultimately show thesis
    using that [where f = ?f and free = ?free and r = "bp_replacer bp"] D(5,6) by auto
next
  case True
  note D = bp_invD [OF inv]
  with True room_available [OF inv room] have "{f. lru_evictable (bp_replacer bp) f} \<noteq> {}" by simp
  from lru.evict_some [OF D(5) this] obtain f r where
    f: "Evict (bp_replacer bp) = (Inr (Some f), r)" "f \<in> {f. lru_evictable (bp_replacer bp) f}" and
    r: "lru_inv r" "set (lru_order r) = set (lru_order (bp_replacer bp)) - {f}"
      "{g. lru_evictable r g} = {g. lru_evictable (bp_replacer bp) g} - {f}" .
  from f(2) D(7) have fu: "f \<in> used_frames bp" "pin_count (meta_at bp f) = 0" by auto
  have fs: "set (free_list bp) = frames_of bp - insert f (used_frames bp)"
    using D(4) fu(1) by auto
  have "FindFreeFrame (bp, dm) = (Inr (Some f), (bp\<lparr>free_list := free_list bp, bp_replacer := r\<rparr>, dm))"
    using True f(1) by (simp add: FindFreeFrame_def on_replacer_def)
  then show thesis
    using that [where f = f and free = "free_list bp" and r = r] fu D(6,8,10) r fs by auto
qed

lemma WritePages_one:
  assumes "dm_inv dm" and "dm_page dm p = Some y" and "length x = kPageSizeBytes"
  obtains dm' where "WritePages p x dm = (Inr (), dm')" "dm_inv dm'" "dm_header dm' = dm_header dm"
    "dm_page dm' = (dm_page dm)(p \<mapsto> x)"
proof -
  from assms(2) have p: "p \<noteq> 0" "(unat p + 1) * kPageSizeBytes \<le> length (dm_file dm)"
    by (auto simp: dm_page_def kHeaderPageId_def split: if_splits)
  obtain dm' where dm': "WritePages p x dm = (Inr (), dm')" "dm_inv dm'" "dm_header dm' = dm_header dm"
    and len: "length (dm_file dm') = max (length (dm_file dm)) ((unat p + 1) * kPageSizeBytes)"
    and same: "\<And>q i. i < 1 \<Longrightarrow> unat q = unat p + i \<Longrightarrow> dm_page dm' q = Some (page_slice i x)"
    and other: "\<And>q z. dm_page dm q = Some z \<Longrightarrow> unat q < unat p \<or> unat p + 1 \<le> unat q \<Longrightarrow>
       dm_page dm' q = Some z"
    by (rule WritePages_spec [OF assms(1) p(1), where k = 1 and data = x]) (simp_all add: assms(3))
  have "dm_page dm' q = ((dm_page dm)(p \<mapsto> x)) q" for q
  proof (cases "q = p")
    case True
    then show ?thesis
      using same [of 0 q] assms(3) by (simp add: page_slice_def)
  next
    case False
    then have "unat q < unat p \<or> unat p + 1 \<le> unat q"
      by (metis Suc_eq_plus1 linorder_neqE_nat not_less_eq_eq word_unat_eq_iff nat_less_le not_le)
    moreover have "dm_page dm q = None \<longleftrightarrow> dm_page dm' q = None"
      using p(2) len by (simp add: dm_page_def)
    ultimately show ?thesis
      using False other [of q] by (cases "dm_page dm q") simp_all
  qed
  with dm' show thesis
    using that by blast
qed

text \<open>Vacating an unpinned frame keeps what every page reads as.\<close>

lemma vacate_frame_ok:
  assumes inv: "pool_inv (bp, dm)" and f: "f \<in> frames_of bp"
    and bp1: "bp_frames bp1 = bp_frames bp" "bp_pages bp1 = bp_pages bp" "page_table bp1 = page_table bp"
  defines "table \<equiv> if f \<in> used_frames bp
    then (page_table bp)(frame_page_id (meta_at bp f) := None) else page_table bp"
  obtains dm' where "vacate_frame f (bp1, dm) = (Inr (), (bp1\<lparr>page_table := table\<rparr>, dm'))"
    "dm_inv dm'" "dm_header dm' = dm_header dm"
    "\<And>q. pool_page (bp, dm) q = (case table q of Some g \<Rightarrow> Some (page_at bp g) | None \<Rightarrow> dm_page dm' q)"
    "\<And>g. g \<in> used_frames bp \<Longrightarrow> g \<noteq> f \<Longrightarrow>
      dm_page dm' (frame_page_id (meta_at bp g)) = dm_page dm (frame_page_id (meta_at bp g))"
proof -
  from inv have bpi: "bp_inv bp" and dmi: "dm_inv dm" by (simp_all add: pool_inv_def)
  note D = bp_invD [OF bpi]
  have at1: "meta_at bp1 f = meta_at bp f" "page_at bp1 f = page_at bp f"
    by (simp_all add: meta_at_def page_at_def bp1)
  let ?m = "meta_at bp f"
  show thesis
  proof (cases "f \<in> used_frames bp")
    case False
    then have "\<not> in_use ?m" using f by (simp add: used_frames_def)
    then have "vacate_frame f (bp1, dm) = (Inr (), (bp1\<lparr>page_table := table\<rparr>, dm))"
      using False bp1(3) by (simp add: vacate_frame_def at1 Let_def table_def)
    with False dmi show ?thesis
      by (intro that [of dm]) (simp_all add: table_def pool_page_def)
  next
    case True
    then have iu: "in_use ?m" by (simp add: used_frames_def)
    from True have pt: "page_table bp (frame_page_id ?m) = Some f" by (simp add: D(3))
    from inv True obtain y where y: "dm_page dm (frame_page_id ?m) = Some y"
        "is_dirty ?m \<or> page_at bp f = y"
      by (fastforce simp: pool_inv_def coherent_def split: option.splits)
    have other: "frame_page_id (meta_at bp g) \<noteq> frame_page_id ?m"
      if "g \<in> used_frames bp" "g \<noteq> f" for g
      using that True D(3) [of "frame_page_id ?m" f] D(3) [of "frame_page_id ?m" g] by auto
    obtain dm' where dm': "(if is_dirty ?m then WritePages (frame_page_id ?m) (page_at bp f) else sreturn ()) dm
         = (Inr (), dm')" "dm_inv dm'" "dm_header dm' = dm_header dm"
      "dm_page dm' = (dm_page dm)(frame_page_id ?m \<mapsto> page_at bp f)"
    proof (cases "is_dirty ?m")
      case True
      have "length (page_at bp f) = kPageSizeBytes"
        using bpi f by (simp add: page_at_def frames_of_def bp_inv_def list_all_length)
      from WritePages_one [OF dmi y(1) this] show ?thesis
        using that True by auto
    next
      case False
      then have "dm_page dm = (dm_page dm)(frame_page_id ?m \<mapsto> page_at bp f)"
        using y by (simp add: fun_upd_idem)
      then show ?thesis
        using that [of dm] False dmi by simp
    qed
    have "vacate_frame f (bp1, dm) = (Inr (), (bp1\<lparr>page_table := table\<rparr>, dm'))"
      using dm'(1) iu True bp1(3)
      by (auto simp: vacate_frame_def at1 Let_def sbind_def on_disk_def table_def split: if_splits)
    moreover have "pool_page (bp, dm) q =
        (case table q of Some g \<Rightarrow> Some (page_at bp g) | None \<Rightarrow> dm_page dm' q)" for q
      using True pt by (simp add: pool_page_def table_def dm'(4) split: option.splits)
    ultimately show ?thesis
      using that [of dm'] dm' other by simp
  qed
qed

lemma FetchPage_miss:
  assumes inv: "pool_inv (bp, dm)" and pt: "page_table bp p = None"
    and page: "pool_page (bp, dm) p = Some x" and room: "pool_room (bp, dm)"
  obtains f bp' dm' where "FetchPage p (bp, dm) = (Inr f, (bp', dm'))" "pool_inv (bp', dm')"
    "pool_page (bp', dm') = pool_page (bp, dm)" "pins (bp', dm') = (pins (bp, dm))(p := pins (bp, dm) p + 1)"
    "page_table bp' p = Some f" "\<And>q. 0 < pins (bp, dm) q \<Longrightarrow> page_table bp' q = page_table bp q"
    "pool_size bp' = pool_size bp" "dm_header dm' = dm_header dm"
proof -
  from inv have bpi: "bp_inv bp" and dmi: "dm_inv dm" by (simp_all add: pool_inv_def)
  note D = bp_invD [OF bpi]
  obtain f free r where ff: "FindFreeFrame (bp, dm) = (Inr (Some f), (bp\<lparr>free_list := free, bp_replacer := r\<rparr>, dm))"
    and f: "f \<in> frames_of bp" "f \<in> used_frames bp \<Longrightarrow> pin_count (meta_at bp f) = 0"
    and free: "distinct free" "set free = frames_of bp - insert f (used_frames bp)"
    and r: "lru_inv r" "set (lru_order r) = used_frames bp - {f}"
      "{g. lru_evictable r g} = {g. lru_evictable (bp_replacer bp) g} - {f}"
    by (rule FindFreeFrame_ok [OF bpi room]) blast
  let ?bp1 = "bp\<lparr>free_list := free, bp_replacer := r\<rparr>"
  define table where "table = (if f \<in> used_frames bp
    then (page_table bp)(frame_page_id (meta_at bp f) := None) else page_table bp)"
  obtain dm' where vac: "vacate_frame f (?bp1, dm) = (Inr (), (?bp1\<lparr>page_table := table\<rparr>, dm'))"
    and dmi': "dm_inv dm'" and hdr: "dm_header dm' = dm_header dm"
    and view: "\<And>q. pool_page (bp, dm) q =
      (case table q of Some g \<Rightarrow> Some (page_at bp g) | None \<Rightarrow> dm_page dm' q)"
    and keep: "\<And>g. g \<in> used_frames bp \<Longrightarrow> g \<noteq> f \<Longrightarrow>
      dm_page dm' (frame_page_id (meta_at bp g)) = dm_page dm (frame_page_id (meta_at bp g))"
    using vacate_frame_ok [OF inv f(1), of ?bp1, folded table_def] by auto
  have tp: "table p = None" using pt by (simp add: table_def)
  have tab: "table q = Some g \<longleftrightarrow> g \<noteq> f \<and> g \<in> used_frames bp \<and> frame_page_id (meta_at bp g) = q" for q g
  proof (cases "f \<in> used_frames bp")
    case True
    then have "page_table bp (frame_page_id (meta_at bp f)) = Some f" by (simp add: D(3))
    moreover have "page_table bp (frame_page_id (meta_at bp f)) = Some g"
      if "g \<in> used_frames bp" "frame_page_id (meta_at bp g) = frame_page_id (meta_at bp f)"
      using that by (simp add: D(3))
    ultimately have "g = f" if "g \<in> used_frames bp" "frame_page_id (meta_at bp g) = frame_page_id (meta_at bp f)"
      using that by (metis option.inject)
    with True show ?thesis by (simp add: D(3) table_def) blast
  next
    case False
    then show ?thesis by (simp add: D(3) table_def) blast
  qed
  from view [of p] tp page have dx: "dm_page dm' p = Some x" by simp
  then have rd: "ReadPages dm' p 1 = Inr x" and lx: "length x = kPageSizeBytes"
    using dmi' by (simp_all add: ReadPages_one dm_inv_def length_dm_page)
  obtain r' where r': "SetEvictable f False (RecordAccess f r) = (Inr (), r')" "lru_inv r'"
    "set (lru_order r') = insert f (set (lru_order r))"
    "{g. lru_evictable r' g} = {g. lru_evictable r g} - {f}"
    by (rule lru.pin_ok [OF r(1)])
  let ?m = "\<lparr>frame_page_id = p, pin_count = 1, is_dirty = False, in_use = True\<rparr>"
  let ?bp' = "replace_frame f ?m x (table(p \<mapsto> f)) free r' bp"
  note at = replace_frame_at [OF bpi f(1)]
  have used: "used_frames ?bp' = insert f (used_frames bp)"
    by (rule replace_frame_used [OF bpi f(1)]) simp
  have res: "FetchPage p (bp, dm) = (Inr f, (?bp', dm'))"
    using pt ff vac rd r'(1) D(9) [OF f(1)]
    by (simp add: FetchPage_def sbind_def valid_frame_def load_frame_def touch_frame_def
        on_replacer_def set_meta_def replace_frame_def)
  have "bp_inv ?bp'"
  proof (rule replace_frame_inv [OF bpi f(1)])
    show "(table(p \<mapsto> f)) q = Some g \<longleftrightarrow> (if g = f then q = frame_page_id ?m
        else g \<in> used_frames bp \<and> frame_page_id (meta_at bp g) = q)" for q g
      using tab [of q g] tp tab [of p g] by (cases "q = p") auto
    show "{g. lru_evictable r' g} = {g. g \<noteq> f \<and> lru_evictable (bp_replacer bp) g} \<union>
         (if pin_count ?m = 0 then {f} else {})"
      using r'(4) r(3) by auto
  qed (use free r' r lx in auto)
  moreover have "coherent (?bp', dm')"
    unfolding coherent_def prod.case used
  proof
    fix g
    assume "g \<in> insert f (used_frames bp)"
    moreover have "case dm_page dm (frame_page_id (meta_at bp g)) of None \<Rightarrow> False
        | Some y \<Rightarrow> is_dirty (meta_at bp g) \<or> page_at bp g = y" if "g \<in> used_frames bp"
      using inv that unfolding pool_inv_def coherent_def by blast
    ultimately show "case dm_page dm' (frame_page_id (meta_at ?bp' g)) of None \<Rightarrow> False
        | Some y \<Rightarrow> is_dirty (meta_at ?bp' g) \<or> page_at ?bp' g = y"
      unfolding at using dx keep [of g] by (cases "g = f") simp_all
  qed
  ultimately have inv': "pool_inv (?bp', dm')" using dmi' by (simp add: pool_inv_def)
  have gf: "table q = Some g \<Longrightarrow> g \<noteq> f" for q g
    using tab by blast
  have unpinned: "table q = page_table bp q \<or>
      table q = None \<and> page_table bp q = Some f \<and> pin_count (meta_at bp f) = 0" for q
    using f(2) by (simp add: table_def D(3))
  have "pool_page (?bp', dm') = pool_page (bp, dm)"
  proof
    show "pool_page (?bp', dm') q = pool_page (bp, dm) q" for q
    proof (cases "q = p")
      case True
      with page show ?thesis by (simp add: pool_page_def at)
    next
      case False
      then show ?thesis
        unfolding view by (auto simp: pool_page_def at dest: gf split: option.splits)
    qed
  qed
  moreover have pinseq: "pins (?bp', dm') = (pins (bp, dm))(p := pins (bp, dm) p + 1)"
  proof
    show "pins (?bp', dm') q = ((pins (bp, dm))(p := pins (bp, dm) p + 1)) q" for q
      using pt unpinned [of q] by (auto simp: pins_def at dest: gf split: option.splits)
  qed
  moreover have "page_table ?bp' q = page_table bp q" if "0 < pins (bp, dm) q" for q
    using that pt unpinned [of q] by (auto simp: pins_def split: option.splits)
  ultimately show thesis
    using that [OF res inv'] hdr by simp
qed

section \<open>What the scans rely on\<close>

text \<open>A page is copied out of the pool by fetching it, reading through the pointer and unpinning it.\<close>

definition copy_page ::
    "(uint32 \<Rightarrow> ('s, 'p) action) \<Rightarrow> (uint32 \<Rightarrow> bool \<Rightarrow> ('s, unit) action) \<Rightarrow> ('s \<Rightarrow> 'p \<Rightarrow> bytes) \<Rightarrow>
     uint32 \<Rightarrow> ('s, bytes) action" where
  "copy_page fetch unpin deref p =
     sbind (fetch p) (\<lambda>ptr.
     sbind (\<lambda>s. (Inr (deref s ptr), s)) (\<lambda>data.
     sbind (unpin p False) (\<lambda>_. sreturn data)))"

locale page_cache =
  fixes fetch :: "uint32 \<Rightarrow> ('s, 'p) action"
    and unpin :: "uint32 \<Rightarrow> bool \<Rightarrow> ('s, unit) action"
    and deref :: "'s \<Rightarrow> 'p \<Rightarrow> bytes"
    and inv :: "'s \<Rightarrow> bool"
    and page :: "'s \<Rightarrow> uint32 \<rightharpoonup> bytes"
    and pinned :: "'s \<Rightarrow> uint32 \<Rightarrow> nat"
    and frame_of :: "'s \<Rightarrow> uint32 \<rightharpoonup> 'p"
    and capacity :: "'s \<Rightarrow> nat"
    and backing :: "'s \<Rightarrow> 'e"
  assumes fetch_ok: "inv s \<Longrightarrow> page s p = Some x \<Longrightarrow> card {q. 0 < pinned s q} < capacity s \<Longrightarrow>
      \<exists>f s'. fetch p s = (Inr f, s') \<and> inv s' \<and> page s' = page s \<and> frame_of s' p = Some f \<and>
        pinned s' = (pinned s)(p := pinned s p + 1) \<and> capacity s' = capacity s \<and>
        backing s' = backing s \<and> (\<forall>q. 0 < pinned s q \<longrightarrow> frame_of s' q = frame_of s q)"
    and unpin_ok: "inv s \<Longrightarrow> 0 < pinned s p \<Longrightarrow>
      \<exists>s'. unpin p d s = (Inr (), s') \<and> inv s' \<and> page s' = page s \<and> frame_of s' = frame_of s \<and>
        pinned s' = (pinned s)(p := pinned s p - 1) \<and> capacity s' = capacity s \<and> backing s' = backing s"
    and deref_page: "inv s \<Longrightarrow> frame_of s p = Some f \<Longrightarrow> page s p = Some (deref s f)"
begin

definition kept :: "'s \<Rightarrow> 's \<Rightarrow> bool" where
  "kept s s' = (inv s' \<and> page s' = page s \<and> pinned s' = pinned s \<and> capacity s' = capacity s \<and>
     backing s' = backing s \<and> (\<forall>q. 0 < pinned s q \<longrightarrow> frame_of s' q = frame_of s q))"

lemma kept_refl: "inv s \<Longrightarrow> kept s s"
  by (simp add: kept_def)

lemma kept_trans: "kept a b \<Longrightarrow> kept b c \<Longrightarrow> kept a c"
  by (auto simp: kept_def)

lemma copy_page_ok:
  assumes "inv s" and "page s p = Some x" and "card {q. 0 < pinned s q} < capacity s"
  obtains s' where "copy_page fetch unpin deref p s = (Inr x, s')" "kept s s'"
proof -
  obtain f s1 where f: "fetch p s = (Inr f, s1)" "inv s1" "page s1 = page s" "frame_of s1 p = Some f"
    "pinned s1 = (pinned s)(p := pinned s p + 1)" "capacity s1 = capacity s" "backing s1 = backing s"
    "\<forall>q. 0 < pinned s q \<longrightarrow> frame_of s1 q = frame_of s q"
    using fetch_ok [OF assms] by blast
  then have d: "deref s1 f = x"
    using deref_page [of s1 p f] assms(2) by simp
  obtain s2 where u: "unpin p False s1 = (Inr (), s2)" "inv s2" "page s2 = page s1" "frame_of s2 = frame_of s1"
    "pinned s2 = (pinned s1)(p := pinned s1 p - 1)" "capacity s2 = capacity s1" "backing s2 = backing s1"
    using unpin_ok [of s1 p False] f(2,5) by auto
  have "copy_page fetch unpin deref p s = (Inr x, s2)"
    by (simp add: copy_page_def sbind_def f(1) u(1) d)
  moreover have "kept s s2"
    using f u by (auto simp: kept_def)
  ultimately show thesis by (rule that)
qed

text \<open>Copying a sequence of pages, with other pages pinned meanwhile.\<close>

lemma copy_pages_ok:
  assumes "inv s" and "list_all2 (\<lambda>p x. page s p = Some x) ps xs" and "card {q. 0 < pinned s q} < capacity s"
  shows "\<exists>s'. smap (copy_page fetch unpin deref) ps s = (Inr xs, s') \<and> kept s s'"
  using assms
proof (induction ps arbitrary: s xs)
  case Nil
  then show ?case by (simp add: kept_refl)
next
  case (Cons p ps)
  then obtain x ys where xs: "xs = x # ys" "page s p = Some x" "list_all2 (\<lambda>p x. page s p = Some x) ps ys"
    by (auto simp: list_all2_Cons1)
  obtain s1 where s1: "copy_page fetch unpin deref p s = (Inr x, s1)" "kept s s1"
    by (rule copy_page_ok [OF Cons.prems(1) xs(2) Cons.prems(3)])
  then have "inv s1" "page s1 = page s" "pinned s1 = pinned s" "capacity s1 = capacity s"
    by (auto simp: kept_def)
  then obtain s2 where s2: "smap (copy_page fetch unpin deref) ps s1 = (Inr ys, s2)" "kept s1 s2"
    using Cons.IH [of s1 ys] xs(3) Cons.prems(3) by auto
  show ?case
    using s1 s2 kept_trans by (auto simp: xs(1) sbind_def)
qed

text \<open>
  A page stays readable through its pointer while other pages come and go: the pattern of a
  scan that holds one page pinned during further reads.
\<close>

lemma deref_kept:
  assumes "kept s s'" and "inv s" and "frame_of s p = Some f" and "0 < pinned s p" and "page s p = Some x"
  shows "deref s' f = x"
proof -
  have "inv s'" "page s' p = Some x" "frame_of s' p = Some f"
    using assms by (auto simp: kept_def)
  then show ?thesis
    using deref_page [of s' p f] by simp
qed

end

definition deref_frame :: "pool_state \<Rightarrow> frame_id_t \<Rightarrow> bytes" where
  "deref_frame = (\<lambda>(bp, dm) f. page_at bp f)"

interpretation cache: page_cache FetchPage UnpinPage deref_frame pool_inv pool_page pins
  "\<lambda>(bp, dm). page_table bp" "\<lambda>(bp, dm). pool_size bp" "\<lambda>(bp, dm). dm_header dm"
proof (unfold_locales, goal_cases)
  case (1 s p x)
  obtain bp dm where s: "s = (bp, dm)" by (cases s)
  with 1 have inv: "pool_inv (bp, dm)" and page: "pool_page (bp, dm) p = Some x"
    and room: "pool_room (bp, dm)"
    by (simp_all add: pool_room_def)
  show ?case
  proof (cases "page_table bp p")
    case None
    obtain f bp' dm' where "FetchPage p (bp, dm) = (Inr f, (bp', dm'))" "pool_inv (bp', dm')"
      "pool_page (bp', dm') = pool_page (bp, dm)" "pins (bp', dm') = (pins (bp, dm))(p := pins (bp, dm) p + 1)"
      "page_table bp' p = Some f" "\<And>q. 0 < pins (bp, dm) q \<Longrightarrow> page_table bp' q = page_table bp q"
      "pool_size bp' = pool_size bp" "dm_header dm' = dm_header dm"
      by (rule FetchPage_miss [OF inv None page room]) blast
    then show ?thesis unfolding s by auto
  next
    case (Some f)
    obtain bp' where "FetchPage p (bp, dm) = (Inr f, (bp', dm))" "pool_inv (bp', dm)"
      "pool_page (bp', dm) = pool_page (bp, dm)" "pins (bp', dm) = (pins (bp, dm))(p := pins (bp, dm) p + 1)"
      "page_table bp' = page_table bp" "pool_size bp' = pool_size bp"
      by (rule FetchPage_hit [OF inv Some])
    with Some show ?thesis unfolding s by auto
  qed
next
  case (2 s p d)
  obtain bp dm where s: "s = (bp, dm)" by (cases s)
  with 2 obtain bp' where "UnpinPage p d (bp, dm) = (Inr (), (bp', dm))" "pool_inv (bp', dm)"
    "pool_page (bp', dm) = pool_page (bp, dm)" "pins (bp', dm) = (pins (bp, dm))(p := pins (bp, dm) p - 1)"
    "page_table bp' = page_table bp" "pool_size bp' = pool_size bp"
    using UnpinPage_pinned by metis
  then show ?case unfolding s by auto
next
  case (3 s p f)
  then show ?case
    by (cases s) (simp add: deref_frame_def pool_page_def)
qed

section \<open>The empty pool and the final flush\<close>

lemma pool_inv_empty:
  assumes "dm_inv dm" and "n \<le> 2 ^ 31"
  shows "pool_inv (MakeBufferPoolManager n, dm)" and "pool_page (MakeBufferPoolManager n, dm) = dm_page dm"
    and "pins (MakeBufferPoolManager n, dm) = (\<lambda>_. 0)"
proof -
  let ?bp = "MakeBufferPoolManager n"
  have used: "used_frames ?bp = {}"
    by (auto simp: used_frames_def frames_of_def MakeBufferPoolManager_def meta_at_def empty_frame_def)
  have "distinct (map (word_of_nat :: nat \<Rightarrow> frame_id_t) [0..<n])"
    using assms(2) by (auto simp: distinct_map unat_of_nat_small intro!: inj_on_inverseI [of _ unat])
  moreover have "set (map (word_of_nat :: nat \<Rightarrow> frame_id_t) [0..<n]) = frames_of ?bp"
  proof (intro set_eqI iffI)
    fix f :: frame_id_t
    assume "f \<in> frames_of ?bp"
    then have "unat f \<in> set [0..<n]"
      by (auto simp: frames_of_def MakeBufferPoolManager_def)
    then have "(word_of_nat (unat f) :: frame_id_t) \<in> word_of_nat ` set [0..<n]" by blast
    then show "f \<in> set (map word_of_nat [0..<n])" by simp
  qed (use assms(2) in \<open>auto simp: frames_of_def MakeBufferPoolManager_def unat_of_nat_small\<close>)
  moreover have "{f. lru_evictable (MakeLruReplacer n) f} = {}"
    by (simp add: lru_evictable_def MakeLruReplacer_def)
  ultimately have "bp_inv ?bp"
    using assms(2) lru_inv_empty [of n] lru_order_view [of "MakeLruReplacer n"]
    by (simp add: bp_inv_def used) (simp add: MakeBufferPoolManager_def list_all_iff)
  then show "pool_inv (?bp, dm)"
    using assms(1) by (simp add: pool_inv_def coherent_def used)
  show "pool_page (?bp, dm) = dm_page dm" "pins (?bp, dm) = (\<lambda>_. 0)"
    by (simp_all add: fun_eq_iff pool_page_def pins_def MakeBufferPoolManager_def)
qed

definition dirty_frame :: "BufferPoolManager \<Rightarrow> nat \<Rightarrow> bool" where
  "dirty_frame bp i = (in_use (bp_frames bp ! i) \<and> is_dirty (bp_frames bp ! i))"

definition frame_binding :: "BufferPoolManager \<Rightarrow> nat \<Rightarrow> uint32 \<times> bytes" where
  "frame_binding bp i = (frame_page_id (bp_frames bp ! i), bp_pages bp ! i)"

lemma flush_frames_ok:
  assumes "dm_inv dm"
    and "\<forall>i \<in> set is. length (bp_pages bp ! i) = kPageSizeBytes \<and>
      (dirty_frame bp i \<longrightarrow> dm_page dm (frame_page_id (bp_frames bp ! i)) \<noteq> None)"
  shows "\<exists>dm'. flush_frames bp is dm = (Inr (), dm') \<and> dm_inv dm' \<and> dm_header dm' = dm_header dm \<and>
    dm_page dm' = dm_page dm ++ map_of (map (frame_binding bp) (rev (filter (dirty_frame bp) is)))"
  using assms
proof (induction "is" arbitrary: dm)
  case Nil
  then show ?case by simp
next
  case (Cons i "is")
  let ?p = "frame_page_id (bp_frames bp ! i)" and ?x = "bp_pages bp ! i"
  show ?case
  proof (cases "dirty_frame bp i")
    case True
    then obtain y where "dm_page dm ?p = Some y" using Cons.prems(2) by auto
    from WritePages_one [OF Cons.prems(1) this, of ?x] Cons.prems(2) obtain dm1 where
      dm1: "WritePages ?p ?x dm = (Inr (), dm1)" "dm_inv dm1" "dm_header dm1 = dm_header dm"
        "dm_page dm1 = (dm_page dm)(?p \<mapsto> ?x)" by auto
    have "\<forall>j \<in> set is. length (bp_pages bp ! j) = kPageSizeBytes \<and>
        (dirty_frame bp j \<longrightarrow> dm_page dm1 (frame_page_id (bp_frames bp ! j)) \<noteq> None)"
      using Cons.prems(2) by (simp add: dm1(4))
    from Cons.IH [OF dm1(2) this] dm1(3,4) obtain dm' where
      "flush_frames bp is dm1 = (Inr (), dm')" "dm_inv dm'" "dm_header dm' = dm_header dm"
      "dm_page dm' = (dm_page dm)(?p \<mapsto> ?x) ++ map_of (map (frame_binding bp) (rev (filter (dirty_frame bp) is)))"
      by (metis (no_types, lifting))
    moreover from True have "in_use (bp_frames bp ! i)" "is_dirty (bp_frames bp ! i)"
        "frame_binding bp i = (?p, ?x)"
      by (simp_all add: dirty_frame_def frame_binding_def)
    ultimately show ?thesis
      using True dm1(1) by (simp add: sbind_def Let_def)
  next
    case False
    with Cons.IH [OF Cons.prems(1)] Cons.prems(2) show ?thesis
      by (auto simp: dirty_frame_def Let_def)
  qed
qed

lemma destructor_ok:
  assumes inv: "pool_inv (bp, dm)"
  obtains dm' where "BufferPoolManager_destructor bp dm = (Inr (), dm')" "dm_inv dm'"
    "dm_header dm' = dm_header dm" "dm_page dm' = pool_page (bp, dm)"
proof -
  from inv have bpi: "bp_inv bp" and dmi: "dm_inv dm" by (simp_all add: pool_inv_def)
  note D = bp_invD [OF bpi]
  let ?is = "[0..<length (bp_frames bp)]"
  have idx: "\<exists>f \<in> frames_of bp. unat f = i" if "i < pool_size bp" for i
    using bpi that by (intro bexI [of _ "word_of_nat i"]) (auto simp: frames_of_def bp_inv_def unat_of_nat_small)
  have du: "dirty_frame bp (unat f) \<longleftrightarrow> f \<in> used_frames bp \<and> is_dirty (meta_at bp f)"
    if "f \<in> frames_of bp" for f
    using that by (simp add: dirty_frame_def used_frames_def meta_at_def)
  have ondisk: "dm_page dm (frame_page_id (meta_at bp f)) \<noteq> None" if "f \<in> used_frames bp" for f
    using inv that by (fastforce simp: pool_inv_def coherent_def split: option.splits)
  have "length (bp_pages bp ! i) = kPageSizeBytes \<and>
      (dirty_frame bp i \<longrightarrow> dm_page dm (frame_page_id (bp_frames bp ! i)) \<noteq> None)" if "i \<in> set ?is" for i
  proof -
    from that D(2) obtain f where f: "f \<in> frames_of bp" "unat f = i" using idx by auto
    then have "dm_page dm (frame_page_id (bp_frames bp ! i)) \<noteq> None" if "dirty_frame bp i"
      using ondisk [of f] du [of f] that by (simp add: meta_at_def)
    moreover have "length (bp_pages bp ! i) = kPageSizeBytes"
      using bpi that by (simp add: bp_inv_def list_all_length)
    ultimately show ?thesis by blast
  qed
  from flush_frames_ok [OF dmi, of ?is bp] this obtain dm' where
    dm': "BufferPoolManager_destructor bp dm = (Inr (), dm')" "dm_inv dm'" "dm_header dm' = dm_header dm"
    and pg: "dm_page dm' = dm_page dm ++ map_of (map (frame_binding bp) (rev (filter (dirty_frame bp) ?is)))"
    (is "_ = _ ++ map_of ?bs")
    by (auto simp: BufferPoolManager_destructor_def)
  have mem: "(q, x) \<in> set ?bs \<longleftrightarrow>
      (\<exists>f. page_table bp q = Some f \<and> is_dirty (meta_at bp f) \<and> x = page_at bp f)" for q x
    using idx du D(2,8) by (force simp: D(3) frame_binding_def meta_at_def page_at_def frames_of_def)
  have "dm_page dm' q = pool_page (bp, dm) q" for q
  proof (cases "map_of ?bs q")
    case None
    then have nd: "(q, x) \<notin> set ?bs" for x
      by (metis map_of_eq_None_iff fst_conv image_eqI)
    have "page_at bp f = the (dm_page dm q)" if f: "page_table bp q = Some f" for f
      using inv f nd [of "page_at bp f"] mem [of q "page_at bp f"]
      by (fastforce simp: pool_inv_def coherent_def D(3) split: option.splits)
    moreover have "dm_page dm q \<noteq> None" if "page_table bp q = Some f" for f
      using ondisk that by (auto simp: D(3))
    ultimately show ?thesis
      using None by (auto simp: pg map_add_def pool_page_def split: option.splits)
  next
    case (Some x)
    then have "(q, x) \<in> set ?bs" by (rule map_of_SomeD)
    then have "pool_page (bp, dm) q = Some x"
      unfolding mem by (auto simp: pool_page_def)
    with Some show ?thesis by (simp add: pg)
  qed
  then have "dm_page dm' = pool_page (bp, dm)" ..
  with dm' show thesis by (rule that)
qed

section \<open>A failed read loses a frame\<close>

text \<open>
  When \<open>ReadPages\<close> throws, the frame found for the page is already out of the free list or
  of the replacer and is put back into neither.
\<close>

lemma failed_fetch_leaks:
  assumes inv: "pool_inv (bp, dm)" and pt: "page_table bp p = None"
    and page: "dm_page dm p = None" and room: "pool_room (bp, dm)"
  shows "\<exists>e f bp' dm'. FetchPage p (bp, dm) = (Inl e, (bp', dm')) \<and> f \<in> frames_of bp' \<and>
    f \<notin> set (free_list bp') \<and> f \<notin> set (lru_order (bp_replacer bp')) \<and>
    (\<forall>q. page_table bp' q \<noteq> Some f)"
proof -
  from inv have bpi: "bp_inv bp" by (simp add: pool_inv_def)
  note D = bp_invD [OF bpi]
  obtain f free r where ff: "FindFreeFrame (bp, dm) = (Inr (Some f), (bp\<lparr>free_list := free, bp_replacer := r\<rparr>, dm))"
    and f: "f \<in> frames_of bp" and free: "set free = frames_of bp - insert f (used_frames bp)"
    and r: "set (lru_order r) = used_frames bp - {f}"
    by (rule FindFreeFrame_ok [OF bpi room]) blast
  let ?bp1 = "bp\<lparr>free_list := free, bp_replacer := r\<rparr>"
  define table where "table = (if f \<in> used_frames bp
    then (page_table bp)(frame_page_id (meta_at bp f) := None) else page_table bp)"
  obtain dm' where vac: "vacate_frame f (?bp1, dm) = (Inr (), (?bp1\<lparr>page_table := table\<rparr>, dm'))"
    and dmi': "dm_inv dm'"
    and view: "\<And>q. pool_page (bp, dm) q =
      (case table q of Some g \<Rightarrow> Some (page_at bp g) | None \<Rightarrow> dm_page dm' q)"
    by (rule vacate_frame_ok [OF inv f, of ?bp1, folded table_def]) simp_all
  have "table p = None" using pt by (simp add: table_def)
  with view [of p] pt page have "dm_page dm' p = None" by (simp add: pool_page_def)
  then obtain e where rd: "ReadPages dm' p 1 = Inl e"
    using dmi' by (cases "p = kHeaderPageId") (simp_all add: ReadPages_one dm_inv_def)
  have "FetchPage p (bp, dm) = (Inl e, (?bp1\<lparr>page_table := table\<rparr>, dm'))"
    using pt ff vac rd D(9) [OF f]
    by (simp add: FetchPage_def sbind_def valid_frame_def load_frame_def)
  moreover have "table q \<noteq> Some f" for q
    by (simp add: table_def D(3))
  ultimately show ?thesis
    using f free r by (intro exI [of _ e] exI [of _ f]) (auto simp: frames_of_def)
qed

end
