(* ===== verification/StorageProps.thy ===== *)
theory StorageProps
  imports Catalog BufferPool
begin

text \<open>
  The main properties of the storage engine and the catalog, each with a concrete instance
  where its hypotheses hold: the file formats, the columnar encodings and their statistics,
  the page file, the replacer and the buffer pool, and table creation.
\<close>

section \<open>Concrete states\<close>

text \<open>A database file of two data pages, and an empty pool of two frames over it.\<close>

definition paged_disk :: DiskManager where
  "paged_disk = \<lparr>dm_os = complete_os, dm_file = FileHeader_Serialize example_header @ replicate 12268 0,
     dm_header = example_header\<rparr>"

definition paged_pool :: pool_state where
  "paged_pool = (MakeBufferPoolManager 2, paged_disk)"

lemma dm_inv_paged_disk: "dm_inv paged_disk"
  by (simp add: dm_inv_def paged_disk_def reliable_complete_os kSerializedSize_def example_header_def)

lemma paged_disk_pages: "dm_page paged_disk 1 = Some (replicate 4096 0)" "dm_page paged_disk 7 = None"
  by (simp_all add: dm_page_def paged_disk_def page_slice_def kPageSizeBytes_def kHeaderPageId_def)

lemma paged_pool_ready:
  "pool_inv paged_pool" "pool_page paged_pool = dm_page paged_disk" "pool_room paged_pool"
  using pool_inv_empty [OF dm_inv_paged_disk, of 2]
  by (simp_all add: paged_pool_def pool_room_def MakeBufferPoolManager_def)

section \<open>File formats\<close>

text \<open>
  The file header of a database is read back exactly as it was written, whatever bytes
  follow it in the file.
\<close>

theorem header_roundtrip: "FileHeader_Deserialize (FileHeader_Serialize h @ rest) = Inr h"
  by (rule FileHeader_codec)

lemma read_le_total:
  "br_pos r + n \<le> length (br_bytes r) \<Longrightarrow> \<exists>w. read_le n i v r = Inr (w, r\<lparr>br_pos := br_pos r + n\<rparr>)"
proof (induction n arbitrary: i v r)
  case (Suc n)
  have "ReadU8 r = Inr (br_bytes r ! br_pos r, r\<lparr>br_pos := Suc (br_pos r)\<rparr>)"
    using Suc.prems by (simp add: ReadU8_def)
  with Suc.IH [of "r\<lparr>br_pos := Suc (br_pos r)\<rparr>"] Suc.prems show ?case by auto
qed simp

text \<open>
  A file header is accepted exactly when the buffer is long enough and starts with the
  magic number; otherwise the error says which of the two failed.
\<close>

theorem header_acceptance:
  "if length bs < 20
   then FileHeader_Deserialize bs = Inl (RuntimeError ''FileHeader::Deserialize: buffer too small to be a valid header'')
   else if take 8 bs \<noteq> bytes_of_string ''GISTDB01''
   then FileHeader_Deserialize bs = Inl (RuntimeError ''FileHeader::Deserialize: magic mismatch -- not a GistDB file'')
   else \<exists>h. FileHeader_Deserialize bs = Inr h"
proof -
  have "\<exists>h. FileHeader_Deserialize bs = Inr h" if len: "20 \<le> length bs" and magic: "take 8 bs = kMagic"
  proof -
    obtain mo where "ReadU64 (reader_at bs 8) = Inr (mo, reader_at bs 16)"
      using read_le_total [of "reader_at bs 8" 8 0 0] len by (auto simp: ReadU64_def)
    moreover obtain nf where "ReadU32 (reader_at bs 16) = Inr (nf, reader_at bs 20)"
      using read_le_total [of "reader_at bs 16" 4 0 0] len by (auto simp: ReadU32_def)
    ultimately show ?thesis
      using len magic by (simp add: FileHeader_Deserialize_def kSerializedSize_def Skip_def)
  qed
  then show ?thesis by (simp add: FileHeader_Deserialize_def kSerializedSize_def) (simp add: kMagic_def)
qed

text \<open>
  C26: the footer (row groups with page ranges, null counts and zone maps) is read back
  unchanged, for every footer whose zone maps are ones the engine builds.
\<close>

theorem footer_roundtrip: "footer_wf f \<Longrightarrow> Footer_Deserialize (Footer_Serialize f) = Inr f"
  by (rule footer_codec)

theorem footer_roundtrip_witness:
  "Footer_Deserialize (Footer_Serialize \<lparr>ft_row_groups = [example_group]\<rparr>) = Inr \<lparr>ft_row_groups = [example_group]\<rparr>"
  by (rule footer_roundtrip)
    (simp add: footer_wf_def row_group_wf_def example_group_def int_order.zone_wf_empty)

text \<open>C27: the schema section is read back unchanged.\<close>

theorem schema_roundtrip: "schema_ok s \<Longrightarrow> SchemaSection_Deserialize (SchemaSection_Serialize s) = Inr s"
  by (rule schema_codec)

theorem schema_roundtrip_witness:
  "SchemaSection_Deserialize (SchemaSection_Serialize example_schema) = Inr example_schema"
  by (rule schema_roundtrip)
    (simp add: example_schema_def schema_ok_def table_schema_ok_def column_def_ok_def string_ok_def)

section \<open>Columns and their statistics\<close>

text \<open>
  C32: a validity bitmap is a bit vector. Setting bit \<open>i\<close> succeeds in range, changes bit \<open>i\<close> and
  no other, and keeps the representation invariant; the packed bytes are never observable.
\<close>

theorem bitmap_set_get:
  assumes "vb_inv vb" and "i < vb_num_rows vb" and "j < vb_num_rows vb"
  shows "\<exists>vb'. SetValid vb i b = Inr vb' \<and> vb_inv vb' \<and>
    IsValid vb' j = (if j = i then Inr b else IsValid vb j) \<and>
    CountNulls vb' = Inr (length (filter Not ((vb_bits vb)[i := b])))"
proof -
  obtain vb' where v: "SetValid vb i b = Inr vb'" "vb_inv vb'" "vb_bits vb' = (vb_bits vb)[i := b]"
    using SetValid_bits [OF assms(1,2)] by blast
  then have "vb_num_rows vb' = vb_num_rows vb" by (metis length_list_update length_vb_bits)
  with v assms show ?thesis by (auto simp: IsValid_bits CountNulls_bits)
qed

theorem bitmap_set_get_witness:
  "\<exists>vb'. SetValid (MakeValidityBitmap 9 True) 8 False = Inr vb' \<and> IsValid vb' 8 = Inr False"
  using bitmap_set_get [of "MakeValidityBitmap 9 True" 8 8 False] MakeValidityBitmap_bits [of 9 True]
  by (auto simp: MakeValidityBitmap_def)

text \<open>
  C30: the strings and nulls appended to a variable-width column are read back in order, as
  long as their total size stays below the range of the 32-bit offsets.
\<close>

theorem varchar_append_read:
  assumes "sum_list (map (\<lambda>x. case x of None \<Rightarrow> 0 | Some s \<Rightarrow> length s) xs) < 2 ^ 31"
  shows "\<exists>c. rfold (\<lambda>x c. case x of None \<Rightarrow> vc_AppendNull c | Some s \<Rightarrow> vc_Append c s) xs EmptyVarchar = Inr c \<and>
    vc_Size c = length xs \<and> (\<forall>i < length xs. vc_IsNull c i = Inr (xs ! i = None) \<and>
      vc_GetValue c i = Inr (case xs ! i of None \<Rightarrow> [] | Some s \<Rightarrow> s))"
proof -
  have "\<exists>c. rfold varchar_column.append_cell xs EmptyVarchar = Inr c \<and> vc_inv c \<and>
      vc_cells c = vc_cells EmptyVarchar @ map varchar_column.cell_of xs"
    using varchar_column.append_loop [of EmptyVarchar xs] assms EmptyVarchar_spec
    unfolding varchar_column.opt_weight_def [abs_def] by auto
  moreover have "varchar_column.append_cell = (\<lambda>x c. case x of None \<Rightarrow> vc_AppendNull c | Some s \<Rightarrow> vc_Append c s)"
    by (intro ext) (simp add: varchar_column.append_cell_def)
  ultimately obtain c where c: "rfold (\<lambda>x c. case x of None \<Rightarrow> vc_AppendNull c | Some s \<Rightarrow> vc_Append c s) xs EmptyVarchar = Inr c"
    "vc_inv c" "vc_cells c = map varchar_column.cell_of xs"
    using EmptyVarchar_spec by auto
  have "length (vc_cells c) = length xs" by (simp only: c(3) length_map)
  with c vc_Size_cells [OF c(2)] vc_IsNull_cells [OF c(2)] vc_GetValue_cells [OF c(2)] show ?thesis
    by (auto simp del: length_vc_cells simp: varchar_column.cell_of_def split: option.splits)
qed

theorem varchar_append_read_witness:
  "\<exists>c. rfold (\<lambda>x c. case x of None \<Rightarrow> vc_AppendNull c | Some s \<Rightarrow> vc_Append c s) [Some ''ab'', None, Some []] EmptyVarchar = Inr c \<and>
    vc_GetValue c 0 = Inr ''ab'' \<and> vc_IsNull c 1 = Inr True \<and> vc_IsNull c 2 = Inr False"
proof -
  let ?xs = "[Some ''ab'', None, Some []]"
  from varchar_append_read [of ?xs] obtain c where
    c: "rfold (\<lambda>x c. case x of None \<Rightarrow> vc_AppendNull c | Some s \<Rightarrow> vc_Append c s) ?xs EmptyVarchar = Inr c"
    "\<forall>i < length ?xs. vc_IsNull c i = Inr (?xs ! i = None) \<and>
      vc_GetValue c i = Inr (case ?xs ! i of None \<Rightarrow> [] | Some s \<Rightarrow> s)" by fastforce
  from c(1) c(2) [rule_format, of 0] c(2) [rule_format, of 1] c(2) [rule_format, of 2] show ?thesis by simp
qed

text \<open>
  C31: the zone map of a column without NaN is exact. It has values iff some row is not null,
  its bounds are values of the column, and no valid value lies outside them; the null count
  is the number of null rows modulo \<open>2 ^ 32\<close>.
\<close>

theorem zone_map_exact:
  assumes "fw_inv c" and "list_all (\<lambda>x. \<not> f32_is_nan x) (valid_values (fw_cells c))"
  shows "\<exists>e. fe_Build f32_less f32_zero c pages = Inr e \<and>
    float_order.zone_covers (fe_zone_map e) (valid_values (fw_cells c)) \<and>
    fe_null_count e = word_of_nat (null_total (fw_cells c))"
  using float_order.zone_covers_fold [of "[]" "valid_values (fw_cells c)" "EmptyZoneMap f32_zero"]
    float_order.zone_covers_empty assms(2) by (simp add: fe_Build_eq [OF assms(1)])

theorem zone_map_exact_witness:
  "\<exists>c e. fw_Append EmptyFixedWidth (Float32 0x3F800000) = Inr c \<and>
    fe_Build f32_less f32_zero c \<lparr>start_page_id = 1, page_count = 1\<rparr> = Inr e \<and>
    zm_min (fe_zone_map e) = Float32 0x3F800000 \<and> fe_null_count e = 0"
proof -
  obtain c where c: "fw_Append EmptyFixedWidth (Float32 0x3F800000) = Inr c" "fw_inv c"
    "fw_cells c = [(Float32 0x3F800000, True)]"
    using fw_Append_spec [OF EmptyFixedWidth_spec(1), of "Float32 0x3F800000"] EmptyFixedWidth_spec(2) by auto
  then have "valid_values (fw_cells c) = [Float32 0x3F800000]" "null_total (fw_cells c) = 0"
    by (simp_all add: valid_values_def null_total_def)
  with zone_map_exact [OF c(2), of "\<lparr>start_page_id = 1, page_count = 1\<rparr>"] c(1) show ?thesis
    by (auto simp: float_order.zone_covers_def float_eval)
qed

section \<open>The page file\<close>

text \<open>
  C28: pages that were written are read back, other pages and the file header are left alone,
  and the header page itself can be neither written nor read.
\<close>

theorem pages_written_are_read:
  assumes "dm_inv dm" and "start \<noteq> 0" and "length data = k * kPageSizeBytes" and "0 < k"
    and "unat start + k \<le> 2 ^ 32"
  shows "\<exists>dm'. WritePages start data dm = (Inr (), dm') \<and> dm_inv dm' \<and> dm_header dm' = dm_header dm \<and>
    (\<forall>i < k. ReadPages dm' (start + word_of_nat i) 1 = Inr (page_slice i data)) \<and>
    (\<forall>p. unat p < unat start \<or> unat start + k \<le> unat p \<longrightarrow> dm_page dm p \<noteq> None \<longrightarrow>
       ReadPages dm' p 1 = ReadPages dm p 1)"
proof -
  obtain dm' where w: "WritePages start data dm = (Inr (), dm')" "dm_inv dm'" "dm_header dm' = dm_header dm"
    "\<And>p i. i < k \<Longrightarrow> unat p = unat start + i \<Longrightarrow> dm_page dm' p = Some (page_slice i data)"
    "\<And>p x. dm_page dm p = Some x \<Longrightarrow> unat p < unat start \<or> unat start + k \<le> unat p \<Longrightarrow> dm_page dm' p = Some x"
    by (rule WritePages_spec [OF assms(1-4)]) blast
  have "unat (start + word_of_nat i) = unat start + i" if "i < k" for i
    using that assms(5) by (simp add: unat_word_ariths)
  then have "ReadPages dm' (start + word_of_nat i) 1 = Inr (page_slice i data)" if "i < k" for i
    using w(2,4) that by (simp add: ReadPages_one dm_inv_def)
  moreover have "ReadPages dm' p 1 = ReadPages dm p 1"
    if "unat p < unat start \<or> unat start + k \<le> unat p" "dm_page dm p \<noteq> None" for p
    using that w(2,5) assms(1) by (auto simp: ReadPages_one dm_inv_def)
  ultimately show ?thesis using w(1-3) by blast
qed

theorem pages_written_are_read_witness:
  "\<exists>dm'. WritePages 1 (replicate 4096 7) paged_disk = (Inr (), dm') \<and>
    ReadPages dm' 1 1 = Inr (page_slice 0 (replicate 4096 7))"
  using pages_written_are_read [OF dm_inv_paged_disk, of 1 "replicate 4096 7" 1]
  by (auto simp: kPageSizeBytes_def)

text \<open>Invalid requests to the page file are refused without touching it.\<close>

theorem page_requests_refused:
  assumes "length data mod kPageSizeBytes \<noteq> 0"
  shows "WritePages kHeaderPageId data dm =
      (Inl (InvalidArgument ''DiskManager::WritePages: page 0 is reserved for the file header''), dm) \<and>
    (\<exists>e. WritePages start [] dm = (Inl e, dm)) \<and> (\<exists>e. WritePages start data dm = (Inl e, dm)) \<and>
    AllocatePages 0 dm = (Inl (InvalidArgument ''DiskManager::AllocatePages: count must be > 0''), dm)"
  using assms by (auto simp: WritePages_def AllocatePages_def)

theorem page_requests_refused_witness:
  "\<exists>e. WritePages 1 [1, 2, 3] paged_disk = (Inl e, paged_disk)"
  using page_requests_refused [of "[1, 2, 3]" paged_disk 1] by (simp add: kPageSizeBytes_def)

text \<open>
  C29: page allocation hands out consecutive, previously unallocated page ids: two successive
  allocations are disjoint, and the new counter is on disk, so reopening the file continues
  behind them.
\<close>

theorem allocations_disjoint:
  assumes "dm_inv dm" and "m \<noteq> 0" and "n \<noteq> 0"
    and "unat (next_free_page_id (dm_header dm)) + unat m + unat n < 2 ^ 32"
  shows "\<exists>a b dm1 dm2. AllocatePages m dm = (Inr a, dm1) \<and> AllocatePages n dm1 = (Inr b, dm2) \<and>
    unat a = unat (next_free_page_id (dm_header dm)) \<and> unat b = unat a + unat m \<and> pages_kept dm dm2 \<and>
    DiskManager_Open (dm_os dm2) (Some (dm_file dm2)) = Inr dm2 \<and>
    unat (NextFreePageId dm2) = unat b + unat n"
proof -
  let ?nf = "next_free_page_id (dm_header dm)"
  have r1: "unat ?nf + unat m < 2 ^ 32" using assms(4) by simp
  obtain dm1 where a: "AllocatePages m dm = (Inr ?nf, dm1)" "dm_inv dm1" "pages_kept dm dm1"
    "next_free_page_id (dm_header dm1) = ?nf + m"
    by (rule AllocatePages_spec [OF assms(1,2) r1])
  have u1: "unat (?nf + m) = unat ?nf + unat m" using r1 by (simp add: unat_word_ariths)
  then have r2: "unat (next_free_page_id (dm_header dm1)) + unat n < 2 ^ 32" using assms(4) a(4) by simp
  obtain dm2 where b: "AllocatePages n dm1 = (Inr (next_free_page_id (dm_header dm1)), dm2)" "dm_inv dm2"
    "pages_kept dm1 dm2" "next_free_page_id (dm_header dm2) = next_free_page_id (dm_header dm1) + n"
    by (rule AllocatePages_spec [OF a(2) assms(3) r2])
  have "unat (?nf + m + n) = unat ?nf + unat m + unat n"
    using assms(4) by (simp add: unat_word_ariths)
  then show ?thesis
    using a b u1 DiskManager_Open_spec [OF b(2)] pages_kept_trans [OF a(3) b(3)]
    by (simp add: NextFreePageId_def)
qed

theorem allocations_disjoint_witness:
  "\<exists>a b dm1 dm2. AllocatePages 2 paged_disk = (Inr a, dm1) \<and> AllocatePages 1 dm1 = (Inr b, dm2) \<and>
    unat a = 3 \<and> unat b = 5"
proof -
  have "unat (next_free_page_id (dm_header paged_disk)) + unat (2 :: uint32) + unat (1 :: uint32) < 2 ^ 32"
    by (simp add: paged_disk_def example_header_def)
  from allocations_disjoint [OF dm_inv_paged_disk _ _ this] show ?thesis
    by (auto simp: paged_disk_def example_header_def)
qed

section \<open>The buffer pool\<close>

text \<open>
  C24: the LRU replacer implements the abstract one, a list of frames from least to most
  recently used with their evictability: an eviction returns the least recently used
  evictable frame and forgets it, an access moves a frame to the end, and marking a frame
  changes only its own flag.
\<close>

theorem lru_implements_policy:
  assumes "lru_inv r"
  shows "lru_view (RecordAccess f r) = spec_record f (lru_view r) \<and> lru_inv (RecordAccess f r) \<and>
    fst (Evict r) = Inr (spec_victim (lru_view r)) \<and> lru_inv (snd (Evict r)) \<and>
    lru_view (snd (Evict r)) = (case spec_victim (lru_view r) of
      None \<Rightarrow> lru_view r | Some g \<Rightarrow> spec_drop g (lru_view r)) \<and>
    (if f \<in> set (lru_order r)
     then fst (SetEvictable f b r) = Inr () \<and> lru_inv (snd (SetEvictable f b r)) \<and>
       lru_view (snd (SetEvictable f b r)) = spec_set f b (lru_view r)
     else SetEvictable f b r = (Inl (OutOfRange ''LruReplacer::SetEvictable: unknown frame_id''), r))"
proof (cases "f \<in> set (lru_order r)")
  case True
  obtain r' where "SetEvictable f b r = (Inr (), r')" "lru_inv r'" "lru_view r' = spec_set f b (lru_view r)"
    by (rule SetEvictable_refines [OF assms True])
  then show ?thesis using RecordAccess_refines [OF assms] Evict_refines [OF assms] True by simp
next
  case False
  then have "lru_entries r f = None" using lru_invD(4) [OF assms, of f] by (cases "lru_entries r f") auto
  then show ?thesis
    using RecordAccess_refines [OF assms] Evict_refines [OF assms] False by (simp add: SetEvictable_def)
qed

theorem lru_implements_policy_witness:
  "lru_view (RecordAccess 3 (MakeLruReplacer 4)) = [(3, False)]"
  using lru_implements_policy [OF lru_inv_empty(1), of 3 4 True]
  by (simp add: lru_inv_empty spec_record_def)

text \<open>
  C22: fetching any existing page from a pool with an unpinned or free frame succeeds. The
  returned frame holds the page's current contents, the page gains one pin, no page changes
  its contents whatever had to be evicted and written back, and pages pinned by others stay
  in their frames.
\<close>

theorem fetch_is_coherent:
  assumes "pool_inv s" and "pool_page s p = Some x" and "pool_room s"
  shows "\<exists>f s'. FetchPage p s = (Inr f, s') \<and> deref_frame s' f = x \<and> pool_inv s' \<and>
    pool_page s' = pool_page s \<and> pins s' = (pins s)(p := pins s p + 1) \<and>
    (\<forall>q. 0 < pins s q \<longrightarrow> page_table (fst s') q = page_table (fst s) q)"
proof -
  have "card {q. 0 < pins s q} < (case s of (bp, dm) \<Rightarrow> pool_size bp)"
    using assms(3) by (cases s) (simp add: pool_room_def)
  from cache.fetch_ok [OF assms(1,2) this] obtain f s' where f: "FetchPage p s = (Inr f, s')" "pool_inv s'"
    "pool_page s' = pool_page s" "page_table (fst s') p = Some f" "pins s' = (pins s)(p := pins s p + 1)"
    "\<forall>q. 0 < pins s q \<longrightarrow> page_table (fst s') q = page_table (fst s) q"
    by (auto simp: case_prod_beta)
  moreover have "deref_frame s' f = x"
    using cache.deref_page [OF f(2), of p f] f(3,4) assms(2) by (simp add: case_prod_beta)
  ultimately show ?thesis by blast
qed

theorem fetch_is_coherent_witness:
  "\<exists>f s'. FetchPage 1 paged_pool = (Inr f, s') \<and> deref_frame s' f = replicate 4096 0 \<and> pins s' 1 = 1"
  using fetch_is_coherent [OF paged_pool_ready(1) _ paged_pool_ready(3), of 1 "replicate 4096 0"]
    pool_inv_empty(3) [OF dm_inv_paged_disk, of 2]
  by (auto simp: paged_pool_ready(2) paged_disk_pages) (simp add: paged_pool_def)

text \<open>
  C23: destroying the pool writes every dirty page back. Afterwards the file holds, page by
  page, what the pool showed, and its header is unchanged.
\<close>

theorem destructor_flushes:
  assumes "pool_inv (bp, dm)"
  shows "\<exists>dm'. BufferPoolManager_destructor bp dm = (Inr (), dm') \<and> dm_inv dm' \<and>
    dm_header dm' = dm_header dm \<and> dm_page dm' = pool_page (bp, dm)"
  by (rule destructor_ok [OF assms]) blast

theorem destructor_flushes_witness:
  "\<exists>dm'. BufferPoolManager_destructor (MakeBufferPoolManager 2) paged_disk = (Inr (), dm') \<and>
    dm_page dm' 1 = Some (replicate 4096 0)"
  using destructor_flushes [of "MakeBufferPoolManager 2" paged_disk] paged_pool_ready
  by (auto simp: paged_pool_def paged_disk_pages)

text \<open>
  A fetch of a page that is not in the file throws and loses a frame: the frame taken for
  the page is afterwards in neither the free list nor the replacer, and no page maps to it,
  so no later fetch can use it.
\<close>

theorem failed_fetch_loses_frame:
  assumes "pool_inv (bp, dm)" and "page_table bp p = None" and "dm_page dm p = None" and "pool_room (bp, dm)"
  shows "\<exists>e f bp' dm'. FetchPage p (bp, dm) = (Inl e, (bp', dm')) \<and> f \<in> frames_of bp' \<and>
    f \<notin> set (free_list bp') \<and> f \<notin> set (lru_order (bp_replacer bp')) \<and> (\<forall>q. page_table bp' q \<noteq> Some f)"
  by (rule failed_fetch_leaks [OF assms])

theorem failed_fetch_loses_frame_witness:
  "\<exists>e f bp' dm'. FetchPage 7 (MakeBufferPoolManager 2, paged_disk) = (Inl e, (bp', dm')) \<and> f \<in> frames_of bp' \<and>
    f \<notin> set (free_list bp') \<and> f \<notin> set (lru_order (bp_replacer bp')) \<and> (\<forall>q. page_table bp' q \<noteq> Some f)"
  using failed_fetch_loses_frame [of "MakeBufferPoolManager 2" paged_disk 7] paged_pool_ready paged_disk_pages
  by (simp add: paged_pool_def) (simp add: MakeBufferPoolManager_def)

section \<open>The catalog\<close>

text \<open>
  C25: \<open>CREATE TABLE\<close> is durable and refuses duplicates. A new name gives a table with the next
  id, no rows and the given columns, and the file as it stands afterwards opens to the same
  catalog; an existing name changes nothing.
\<close>

theorem create_table_durable:
  assumes "catalog_holds c G" and "metadata_fits (with_table name cols c)"
    and "string_ok name" "length cols < 2 ^ 32" "list_all column_def_ok cols"
    and "length (ss_tables (cat_schema c)) + 1 < 2 ^ 32"
  shows "(map_of (cat_tables c) name \<noteq> None \<longrightarrow> (\<exists>e. CreateTable name cols c = (Inl e, c))) \<and>
    (map_of (cat_tables c) name = None \<longrightarrow> (\<exists>c'. CreateTable name cols c = (Inr (next_table_id (cat_schema c)), c') \<and>
      catalog_holds c' (G(name := [])) \<and>
      GetTable c' name = Some (MakeTableObject (next_table_id (cat_schema c)) name cols) \<and>
      Catalog_Open (cat_order c) (dm_os (cat_disk c')) (Some (dm_file (cat_disk c'))) = Inr c'))"
proof (intro conjI impI)
  assume "map_of (cat_tables c) name \<noteq> None"
  then show "\<exists>e. CreateTable name cols c = (Inl e, c)" by (auto simp: CreateTable_def)
next
  assume new: "map_of (cat_tables c) name = None"
  let ?e = "\<lparr>ts_table_id = next_table_id (cat_schema c), ts_table_name = name, ts_columns = cols\<rparr>"
  have holds: "catalog_holds (with_table name cols c) (G(name := []))"
    by (rule with_table_holds [OF assms(1) new assms(3-6)])
  obtain c' where c': "Flush (with_table name cols c) = (Inr (), c')" "catalog_holds c' (G(name := []))"
    "cat_schema c' = cat_schema (with_table name cols c)" "cat_tables c' = cat_tables (with_table name cols c)"
    "cat_order c' = cat_order (with_table name cols c)"
    "Catalog_Open (cat_order (with_table name cols c)) (dm_os (cat_disk c')) (Some (dm_file (cat_disk c'))) = Inr c'"
    by (rule flush_reopen [OF holds assms(2)])
  have "?e \<in> set (ss_tables (cat_schema c'))" by (simp add: c'(3) with_table_def ss_AddTable_def Let_def)
  from GetTable_holds [OF c'(2) this] have "GetTable c' name = Some (MakeTableObject (next_table_id (cat_schema c)) name cols)"
    by (simp add: loaded_table_Nil)
  then show "\<exists>c'. CreateTable name cols c = (Inr (next_table_id (cat_schema c)), c') \<and>
      catalog_holds c' (G(name := [])) \<and>
      GetTable c' name = Some (MakeTableObject (next_table_id (cat_schema c)) name cols) \<and>
      Catalog_Open (cat_order c) (dm_os (cat_disk c')) (Some (dm_file (cat_disk c'))) = Inr c'"
    using c' by (auto simp: CreateTable_flushes [OF new] sbind_def with_table_def Let_def)
qed

definition example_columns :: "ColumnDef list" where
  "example_columns = [\<lparr>cd_name = ''x'', cd_type = kVarchar, cd_ordinal = 0\<rparr>]"

lemma example_table_fits: "metadata_fits (with_table ''u'' example_columns example_catalog)"
  by (simp add: metadata_fits_def example_catalog_def metadata_footer_def catalog_rows_def tables_of_def
      example_schema_def example_groups_def SchemaSection_Serialize_def WriteTableSchema_def
      WriteColumnDef_def WriteString_def example_disk_def example_header_def kPageSizeBytes_def
      loaded_table_def with_table_def ss_AddTable_def example_columns_def MakeTableObject_def Let_def emplace_def)

theorem create_table_durable_witness:
  "\<exists>c'. CreateTable ''u'' example_columns example_catalog = (Inr 1, c') \<and>
    GetTable c' ''u'' = Some (MakeTableObject 1 ''u'' example_columns) \<and>
    Catalog_Open rev (dm_os (cat_disk c')) (Some (dm_file (cat_disk c'))) = Inr c'"
proof -
  have "map_of (cat_tables example_catalog) ''u'' = None" "next_table_id (cat_schema example_catalog) = 1"
    "cat_order example_catalog = rev"
    by (simp_all add: example_catalog_def tables_of_def example_schema_def)
  then show ?thesis
    using create_table_durable [OF example_catalog_holds example_table_fits]
    by (auto simp: string_ok_def example_columns_def column_def_ok_def example_catalog_def example_schema_def)
qed

end
