(* ===== verification/Chunk.thy ===== *)
theory Chunk
  imports Columns
begin

text \<open>
  \<open>execution/data_chunk\<close> and the variant over the three column types that staging, chunks,
  joins and aggregation pass around. A \<open>ColumnView\<close> points into storage its producer keeps
  until the next call; a chunk here holds the columns themselves.

  A chunk is abstracted to the list of its selected rows.
\<close>

section \<open>Values and columns of any type\<close>

datatype ConstValue = VInt int32 | VFloat float32 | VString string

datatype ColumnVariant =
    IntColumn "int32 FixedWidthColumn"
  | FloatColumn "float32 FixedWidthColumn"
  | StringColumn VarcharColumn

fun EmptyColumn :: "TypeId \<Rightarrow> ColumnVariant" where
  "EmptyColumn kInteger = IntColumn EmptyFixedWidth"
| "EmptyColumn kFloat = FloatColumn EmptyFixedWidth"
| "EmptyColumn kVarchar = StringColumn EmptyVarchar"

fun col_Size :: "ColumnVariant \<Rightarrow> nat" where
  "col_Size (IntColumn c) = fw_Size c"
| "col_Size (FloatColumn c) = fw_Size c"
| "col_Size (StringColumn c) = vc_Size c"

fun col_IsNull :: "ColumnVariant \<Rightarrow> nat \<Rightarrow> bool result" where
  "col_IsNull (IntColumn c) i = fw_IsNull c i"
| "col_IsNull (FloatColumn c) i = fw_IsNull c i"
| "col_IsNull (StringColumn c) i = vc_IsNull c i"

fun col_IsValid :: "ColumnVariant \<Rightarrow> nat \<Rightarrow> bool result" where
  "col_IsValid (IntColumn c) i = fw_IsValid c i"
| "col_IsValid (FloatColumn c) i = fw_IsValid c i"
| "col_IsValid (StringColumn c) i = vc_IsValid c i"

fun col_GetValue :: "ColumnVariant \<Rightarrow> nat \<Rightarrow> ConstValue result" where
  "col_GetValue (IntColumn c) i = rbind (fw_GetValue c i) (\<lambda>v. Inr (VInt v))"
| "col_GetValue (FloatColumn c) i = rbind (fw_GetValue c i) (\<lambda>v. Inr (VFloat v))"
| "col_GetValue (StringColumn c) i = rbind (vc_GetValue c i) (\<lambda>v. Inr (VString v))"

fun col_AppendNull :: "ColumnVariant \<Rightarrow> ColumnVariant result" where
  "col_AppendNull (IntColumn c) = rbind (fw_AppendNull 0 c) (\<lambda>c. Inr (IntColumn c))"
| "col_AppendNull (FloatColumn c) = rbind (fw_AppendNull f32_zero c) (\<lambda>c. Inr (FloatColumn c))"
| "col_AppendNull (StringColumn c) = rbind (vc_AppendNull c) (\<lambda>c. Inr (StringColumn c))"

fun col_Append :: "ColumnVariant \<Rightarrow> ConstValue \<Rightarrow> ColumnVariant result" where
  "col_Append (IntColumn c) (VInt v) = rbind (fw_Append c v) (\<lambda>c. Inr (IntColumn c))"
| "col_Append (FloatColumn c) (VFloat v) = rbind (fw_Append c v) (\<lambda>c. Inr (FloatColumn c))"
| "col_Append (StringColumn c) (VString v) = rbind (vc_Append c v) (\<lambda>c. Inr (StringColumn c))"
| "col_Append _ _ = Inl BadVariantAccess"

fun column_type :: "ColumnVariant \<Rightarrow> TypeId" where
  "column_type (IntColumn _) = kInteger"
| "column_type (FloatColumn _) = kFloat"
| "column_type (StringColumn _) = kVarchar"

text \<open>One row of \<open>src\<close> appended to \<open>dst\<close>: the loop body of every copy in the engine.\<close>

definition copy_row :: "ColumnVariant \<Rightarrow> nat \<Rightarrow> ColumnVariant \<Rightarrow> ColumnVariant result" where
  "copy_row src i dst =
     rbind (col_IsNull src i) (\<lambda>is_null.
       if is_null then col_AppendNull dst else rbind (col_GetValue src i) (col_Append dst))"

section \<open>DataChunk\<close>

record DataChunk =
  dc_row_count :: nat
  dc_selection :: ValidityBitmap
  dc_columns :: "ColumnVariant list"

definition MakeDataChunk :: "nat \<Rightarrow> DataChunk result" where
  "MakeDataChunk row_count =
     (if row_count > kVectorSize
      then Inl (InvalidArgument ''DataChunk: row_count exceeds kVectorSize'')
      else Inr \<lparr>dc_row_count = row_count, dc_selection = MakeValidityBitmap row_count True,
                dc_columns = []\<rparr>)"

definition dc_AddColumn :: "DataChunk \<Rightarrow> ColumnVariant \<Rightarrow> DataChunk result" where
  "dc_AddColumn dc column =
     (if col_Size column \<noteq> dc_row_count dc
      then Inl (InvalidArgument ''DataChunk::AddColumn: column size does not match chunk row count'')
      else Inr (dc\<lparr>dc_columns := dc_columns dc @ [column]\<rparr>))"

definition dc_Column :: "DataChunk \<Rightarrow> nat \<Rightarrow> ColumnVariant result" where
  "dc_Column dc ordinal = vec_at (dc_columns dc) ordinal"

definition IsRowSelected :: "DataChunk \<Rightarrow> nat \<Rightarrow> bool result" where
  "IsRowSelected dc index = IsValid (dc_selection dc) index"

definition SetRowSelected :: "DataChunk \<Rightarrow> nat \<Rightarrow> bool \<Rightarrow> DataChunk result" where
  "SetRowSelected dc index selected =
     rbind (SetValid (dc_selection dc) index selected) (\<lambda>v. Inr (dc\<lparr>dc_selection := v\<rparr>))"

definition CountSelectedRows :: "DataChunk \<Rightarrow> nat result" where
  "CountSelectedRows dc =
     rbind (CountNulls (dc_selection dc)) (\<lambda>n. Inr (dc_row_count dc - n))"

section \<open>Cells\<close>

type_synonym cell = "ConstValue \<times> bool"

fun zero_value :: "TypeId \<Rightarrow> ConstValue" where
  "zero_value kInteger = VInt 0"
| "zero_value kFloat = VFloat f32_zero"
| "zero_value kVarchar = VString []"

fun value_type :: "ConstValue \<Rightarrow> TypeId" where
  "value_type (VInt _) = kInteger"
| "value_type (VFloat _) = kFloat"
| "value_type (VString _) = kVarchar"

fun value_weight :: "ConstValue \<Rightarrow> nat" where
  "value_weight (VString s) = length s"
| "value_weight _ = 0"

fun col_inv :: "ColumnVariant \<Rightarrow> bool" where
  "col_inv (IntColumn c) = fw_inv c"
| "col_inv (FloatColumn c) = fw_inv c"
| "col_inv (StringColumn c) = vc_inv c"

fun col_cells :: "ColumnVariant \<Rightarrow> cell list" where
  "col_cells (IntColumn c) = map (\<lambda>(v, b). (VInt v, b)) (fw_cells c)"
| "col_cells (FloatColumn c) = map (\<lambda>(v, b). (VFloat v, b)) (fw_cells c)"
| "col_cells (StringColumn c) = map (\<lambda>(v, b). (VString v, b)) (vc_cells c)"

fun col_load :: "ColumnVariant \<Rightarrow> nat" where
  "col_load (StringColumn c) = length (vc_data_buffer c)"
| "col_load _ = 0"

text \<open>What a copy makes of a cell: the raw value under a null is lost.\<close>

definition null_cell :: "TypeId \<Rightarrow> cell" where
  "null_cell t = (zero_value t, False)"

fun clean_cell :: "cell \<Rightarrow> cell" where
  "clean_cell (v, b) = (if b then (v, True) else null_cell (value_type v))"

abbreviation varchar_capacity :: nat where
  "varchar_capacity \<equiv> 2 ^ 31"

lemma EmptyColumn_spec:
  "col_inv (EmptyColumn t)" "col_cells (EmptyColumn t) = []" "column_type (EmptyColumn t) = t"
  "col_load (EmptyColumn t) = 0"
  by (cases t; simp add: EmptyFixedWidth_spec EmptyVarchar_spec)+

lemma col_Size_cells: "col_inv c \<Longrightarrow> col_Size c = length (col_cells c)"
  by (cases c) (simp_all add: int_column.size_spec float_column.size_spec varchar_column.size_spec)

lemma col_IsNull_cells:
  "col_inv c \<Longrightarrow> i < length (col_cells c) \<Longrightarrow> col_IsNull c i = Inr (\<not> snd (col_cells c ! i))"
  by (cases c) (simp_all add: fw_IsNull_cells vc_IsNull_cells split: prod.splits)

lemma col_IsValid_cells:
  "col_inv c \<Longrightarrow> i < length (col_cells c) \<Longrightarrow> col_IsValid c i = Inr (snd (col_cells c ! i))"
  by (cases c) (simp_all add: fw_IsValid_cells vc_IsValid_cells split: prod.splits)

lemma col_GetValue_cells:
  "col_inv c \<Longrightarrow> i < length (col_cells c) \<Longrightarrow> col_GetValue c i = Inr (fst (col_cells c ! i))"
  by (cases c) (simp_all add: fw_GetValue_cells vc_GetValue_cells split: prod.splits)

lemma col_cells_typed:
  "cell \<in> set (col_cells c) \<Longrightarrow> value_type (fst cell) = column_type c"
  by (cases c) auto

lemma col_Append_spec:
  assumes "col_inv c" and "value_type v = column_type c" and "col_load c + value_weight v < varchar_capacity"
  shows "\<exists>c'. col_Append c v = Inr c' \<and> col_inv c' \<and> col_cells c' = col_cells c @ [(v, True)] \<and>
    column_type c' = column_type c \<and> col_load c' = col_load c + value_weight v"
proof (cases c)
  case (IntColumn d)
  with assms(2) obtain x where "v = VInt x" by (cases v) simp_all
  with IntColumn assms fw_Append_spec [of d x] show ?thesis by auto
next
  case (FloatColumn d)
  with assms(2) obtain x where "v = VFloat x" by (cases v) simp_all
  with FloatColumn assms fw_Append_spec [of d x] show ?thesis by auto
next
  case (StringColumn d)
  with assms(2) obtain x where "v = VString x" by (cases v) simp_all
  with StringColumn assms vc_Append_spec [of d x] show ?thesis by auto
qed

lemma col_AppendNull_spec:
  assumes "col_inv c"
  shows "\<exists>c'. col_AppendNull c = Inr c' \<and> col_inv c' \<and>
    col_cells c' = col_cells c @ [null_cell (column_type c)] \<and>
    column_type c' = column_type c \<and> col_load c' = col_load c"
proof (cases c)
  case (IntColumn d)
  with assms fw_AppendNull_spec [of d 0] show ?thesis by (force simp: null_cell_def)
next
  case (FloatColumn d)
  with assms fw_AppendNull_spec [of d f32_zero] show ?thesis by (force simp: null_cell_def)
next
  case (StringColumn d)
  with assms vc_AppendNull_spec [of d] show ?thesis by (force simp: null_cell_def)
qed

lemma copy_row_spec:
  assumes "col_inv src" and "i < length (col_cells src)" and "col_inv dst"
    and "column_type dst = column_type src"
    and "col_load dst + value_weight (fst (clean_cell (col_cells src ! i))) < varchar_capacity"
  shows "\<exists>dst'. copy_row src i dst = Inr dst' \<and> col_inv dst' \<and>
    col_cells dst' = col_cells dst @ [clean_cell (col_cells src ! i)] \<and>
    column_type dst' = column_type dst \<and>
    col_load dst' = col_load dst + value_weight (fst (clean_cell (col_cells src ! i)))"
proof (cases "col_cells src ! i")
  case (Pair v b)
  have ty: "value_type v = column_type src"
    using col_cells_typed [OF nth_mem [OF assms(2)]] Pair by simp
  have zw: "value_weight (zero_value t) = 0" for t by (cases t) simp_all
  show ?thesis
  proof (cases b)
    case True
    with Pair assms ty col_Append_spec [of dst v] show ?thesis
      by (simp add: copy_row_def col_IsNull_cells col_GetValue_cells)
  next
    case False
    with Pair assms ty col_AppendNull_spec [of dst] show ?thesis
      by (simp add: copy_row_def col_IsNull_cells null_cell_def zw)
  qed
qed

lemma copy_rows_spec:
  assumes "col_inv src" and "\<forall>i \<in> set is. i < length (col_cells src)" and "col_inv dst"
    and "column_type dst = column_type src"
    and "col_load dst + sum_list (map (\<lambda>i. value_weight (fst (clean_cell (col_cells src ! i)))) is)
      < varchar_capacity"
  shows "\<exists>dst'. rfold (copy_row src) is dst = Inr dst' \<and> col_inv dst' \<and>
    col_cells dst' = col_cells dst @ map (\<lambda>i. clean_cell (col_cells src ! i)) is \<and>
    column_type dst' = column_type dst"
  using assms
proof (induction "is" arbitrary: dst)
  case (Cons i "is")
  then obtain dst' where "copy_row src i dst = Inr dst'" "col_inv dst'"
    "col_cells dst' = col_cells dst @ [clean_cell (col_cells src ! i)]" "column_type dst' = column_type dst"
    "col_load dst' = col_load dst + value_weight (fst (clean_cell (col_cells src ! i)))"
    using copy_row_spec [of src i dst] by auto
  with Cons.IH [of dst'] Cons.prems show ?case
    by (simp add: add.assoc)
qed simp

section \<open>Chunks as rows\<close>

definition chunk_inv :: "DataChunk \<Rightarrow> bool" where
  "chunk_inv dc = (vb_inv (dc_selection dc) \<and> vb_num_rows (dc_selection dc) = dc_row_count dc \<and>
     dc_row_count dc \<le> kVectorSize \<and>
     list_all (\<lambda>c. col_inv c \<and> length (col_cells c) = dc_row_count dc) (dc_columns dc))"

definition chunk_row :: "DataChunk \<Rightarrow> nat \<Rightarrow> cell list" where
  "chunk_row dc i = map (\<lambda>c. col_cells c ! i) (dc_columns dc)"

definition row_selected :: "DataChunk \<Rightarrow> nat \<Rightarrow> bool" where
  "row_selected dc i = vb_bits (dc_selection dc) ! i"

definition chunk_rows :: "DataChunk \<Rightarrow> cell list list" where
  "chunk_rows dc = map (chunk_row dc) (filter (row_selected dc) [0..<dc_row_count dc])"

definition chunk_types :: "DataChunk \<Rightarrow> TypeId list" where
  "chunk_types dc = map column_type (dc_columns dc)"

lemma MakeDataChunk_spec:
  assumes "n \<le> kVectorSize"
  shows "\<exists>dc. MakeDataChunk n = Inr dc \<and> chunk_inv dc \<and> dc_row_count dc = n \<and> dc_columns dc = [] \<and>
    vb_bits (dc_selection dc) = replicate n True"
  using assms MakeValidityBitmap_bits [of n True]
  by (auto simp: MakeDataChunk_def chunk_inv_def) (metis length_replicate length_vb_bits)

lemma dc_AddColumn_spec:
  assumes "chunk_inv dc" and "col_inv c"
  shows "dc_AddColumn dc c = (if length (col_cells c) = dc_row_count dc
    then Inr (dc\<lparr>dc_columns := dc_columns dc @ [c]\<rparr>)
    else Inl (InvalidArgument ''DataChunk::AddColumn: column size does not match chunk row count''))"
    and "length (col_cells c) = dc_row_count dc \<Longrightarrow> chunk_inv (dc\<lparr>dc_columns := dc_columns dc @ [c]\<rparr>)"
  using assms by (simp_all add: dc_AddColumn_def chunk_inv_def col_Size_cells)

lemma IsRowSelected_spec:
  "chunk_inv dc \<Longrightarrow> i < dc_row_count dc \<Longrightarrow> IsRowSelected dc i = Inr (row_selected dc i)"
  by (simp add: IsRowSelected_def chunk_inv_def IsValid_bits row_selected_def)

lemma SetRowSelected_spec:
  assumes "chunk_inv dc" and "i < dc_row_count dc"
  shows "\<exists>v. SetRowSelected dc i b = Inr (dc\<lparr>dc_selection := v\<rparr>) \<and> chunk_inv (dc\<lparr>dc_selection := v\<rparr>) \<and>
    vb_bits v = (vb_bits (dc_selection dc))[i := b]"
proof -
  obtain v where "SetValid (dc_selection dc) i b = Inr v" "vb_inv v"
    "vb_bits v = (vb_bits (dc_selection dc))[i := b]"
    using SetValid_bits [of "dc_selection dc" i b] assms by (auto simp: chunk_inv_def)
  moreover from this(3) have "vb_num_rows v = dc_row_count dc"
    using assms(1) by (metis chunk_inv_def length_list_update length_vb_bits)
  ultimately show ?thesis
    using assms(1) by (auto simp: SetRowSelected_def chunk_inv_def)
qed

lemma CountSelectedRows_spec:
  assumes "chunk_inv dc"
  shows "CountSelectedRows dc = Inr (length (chunk_rows dc))"
proof -
  let ?bs = "vb_bits (dc_selection dc)"
  have len: "length ?bs = dc_row_count dc" using assms by (simp add: chunk_inv_def)
  have "length (chunk_rows dc) = length (filter (\<lambda>i. ?bs ! i) [0..<length ?bs])"
    unfolding chunk_rows_def row_selected_def len by simp
  also have "\<dots> = length (filter id ?bs)"
    by (metis (no_types, lifting) comp_def filter_map id_apply length_map map_nth filter_cong)
  finally have "length (chunk_rows dc) = dc_row_count dc - length (filter Not ?bs)"
    using sum_length_filter_compl [of id ?bs] len by simp
  then show ?thesis
    using assms by (simp add: CountSelectedRows_def CountNulls_bits chunk_inv_def)
qed

end
