(* ===== verification/Expressions.thy ===== *)
theory Expressions
  imports Chunk "HOL-Library.Signed_Division"
begin

text \<open>
  \<open>execution/bound_expression\<close> and \<open>execution/expression_evaluator\<close>. The evaluator works a
  column at a time: it computes the raw value of every row, null or not, and masks nulls in
  a second pass. Signed overflow in the first pass is undefined behaviour, also on a row
  whose result is masked.

  The row semantics \<open>eval_cells\<close> evaluates one row at a time, given the cell of every column
  reference; \<open>eval_row\<close> reads the cells by position; the theorem at the end is that
  vectorised evaluation of a well-typed expression computes it on every row.
\<close>

section \<open>BoundExpression\<close>

datatype ExpressionType = etInteger | etFloat | etVarchar | etBoolean

fun ToExpressionType :: "TypeId \<Rightarrow> ExpressionType" where
  "ToExpressionType kInteger = etInteger"
| "ToExpressionType kFloat = etFloat"
| "ToExpressionType kVarchar = etVarchar"

datatype BinaryOperator =
    kAdd | kSubtract | kMultiply | kDivide
  | kEqual | kNotEqual | kLessThan | kLessThanOrEqual | kGreaterThan | kGreaterThanOrEqual
  | kAnd | kOr

datatype UnaryOperator = kNot

record BoundColumnRef =
  cr_table_id :: uint32
  cr_ordinal :: uint32
  cr_type :: TypeId

datatype BoundExpression =
    ColumnRefNode BoundColumnRef
  | ConstNode ConstValue
  | BinaryOpNode BinaryOperator BoundExpression BoundExpression ExpressionType
  | UnaryOpNode UnaryOperator BoundExpression

definition IsArithmeticOperator :: "BinaryOperator \<Rightarrow> bool" where
  "IsArithmeticOperator op = (op = kAdd \<or> op = kSubtract \<or> op = kMultiply \<or> op = kDivide)"

definition IsLogicalOperator :: "BinaryOperator \<Rightarrow> bool" where
  "IsLogicalOperator op = (op = kAnd \<or> op = kOr)"

fun ResultTypeForBinaryOp :: "BinaryOperator \<Rightarrow> ExpressionType \<Rightarrow> ExpressionType" where
  "ResultTypeForBinaryOp kAdd t = t"
| "ResultTypeForBinaryOp kSubtract t = t"
| "ResultTypeForBinaryOp kMultiply t = t"
| "ResultTypeForBinaryOp kDivide t = t"
| "ResultTypeForBinaryOp _ t = etBoolean"

fun ResultType :: "BoundExpression \<Rightarrow> ExpressionType" where
  "ResultType (ColumnRefNode ref) = ToExpressionType (cr_type ref)"
| "ResultType (ConstNode v) = ToExpressionType (value_type v)"
| "ResultType (BinaryOpNode op l r t) = ResultTypeForBinaryOp op t"
| "ResultType (UnaryOpNode op e) = etBoolean"

definition MakeColumnRef :: "uint32 \<Rightarrow> uint32 \<Rightarrow> TypeId \<Rightarrow> BoundExpression" where
  "MakeColumnRef table_id ordinal type =
     ColumnRefNode \<lparr>cr_table_id = table_id, cr_ordinal = ordinal, cr_type = type\<rparr>"

definition MakeIntConst :: "int32 \<Rightarrow> BoundExpression" where "MakeIntConst v = ConstNode (VInt v)"
definition MakeFloatConst :: "float32 \<Rightarrow> BoundExpression" where "MakeFloatConst v = ConstNode (VFloat v)"
definition MakeStringConst :: "string \<Rightarrow> BoundExpression" where "MakeStringConst v = ConstNode (VString v)"

definition MakeArithmeticOp ::
    "BinaryOperator \<Rightarrow> BoundExpression \<Rightarrow> BoundExpression \<Rightarrow> ExpressionType \<Rightarrow> BoundExpression" where
  "MakeArithmeticOp op left right result_type = BinaryOpNode op left right result_type"

definition MakeBooleanOp :: "BinaryOperator \<Rightarrow> BoundExpression \<Rightarrow> BoundExpression \<Rightarrow> BoundExpression" where
  "MakeBooleanOp op left right = BinaryOpNode op left right etInteger"

definition MakeNot :: "BoundExpression \<Rightarrow> BoundExpression" where
  "MakeNot operand = UnaryOpNode kNot operand"

section \<open>Scalar operations\<close>

text \<open>Signed \<open>int32\<close> arithmetic: a result outside the range is undefined behaviour.\<close>

definition int32_result :: "int \<Rightarrow> int32 result" where
  "int32_result x = (if - (2 ^ 31) \<le> x \<and> x < 2 ^ 31 then Inr (word_of_int x)
     else Inl (UndefinedBehaviour ''signed integer overflow''))"

fun ApplyIntArithmetic :: "BinaryOperator \<Rightarrow> int32 \<Rightarrow> int32 \<Rightarrow> int32 result" where
  "ApplyIntArithmetic kAdd l r = int32_result (sint l + sint r)"
| "ApplyIntArithmetic kSubtract l r = int32_result (sint l - sint r)"
| "ApplyIntArithmetic kMultiply l r = int32_result (sint l * sint r)"
| "ApplyIntArithmetic kDivide l r = (if r = 0 then Inr 0 else int32_result (sint l sdiv sint r))"
| "ApplyIntArithmetic _ l r = Inr 0"

fun ApplyFloatArithmetic :: "BinaryOperator \<Rightarrow> float32 \<Rightarrow> float32 \<Rightarrow> float32" where
  "ApplyFloatArithmetic kAdd l r = f32_add l r"
| "ApplyFloatArithmetic kSubtract l r = f32_sub l r"
| "ApplyFloatArithmetic kMultiply l r = f32_mul l r"
| "ApplyFloatArithmetic kDivide l r = f32_div l r"
| "ApplyFloatArithmetic _ l r = f32_zero"

text \<open>The comparison operators of the element type are its arguments.\<close>

fun ApplyComparison ::
    "('a \<Rightarrow> 'a \<Rightarrow> bool) \<Rightarrow> ('a \<Rightarrow> 'a \<Rightarrow> bool) \<Rightarrow> ('a \<Rightarrow> 'a \<Rightarrow> bool) \<Rightarrow> BinaryOperator \<Rightarrow> 'a \<Rightarrow> 'a \<Rightarrow> bool" where
  "ApplyComparison eq lt le kEqual l r = eq l r"
| "ApplyComparison eq lt le kNotEqual l r = (\<not> eq l r)"
| "ApplyComparison eq lt le kLessThan l r = lt l r"
| "ApplyComparison eq lt le kLessThanOrEqual l r = le l r"
| "ApplyComparison eq lt le kGreaterThan l r = lt r l"
| "ApplyComparison eq lt le kGreaterThanOrEqual l r = le r l"
| "ApplyComparison eq lt le _ l r = False"

definition compare_ints :: "BinaryOperator \<Rightarrow> int32 \<Rightarrow> int32 \<Rightarrow> bool" where
  "compare_ints = ApplyComparison (=) word_sless word_sle"

definition compare_floats :: "BinaryOperator \<Rightarrow> float32 \<Rightarrow> float32 \<Rightarrow> bool" where
  "compare_floats = ApplyComparison f32_equal f32_less f32_less_eq"

definition compare_strings :: "BinaryOperator \<Rightarrow> string \<Rightarrow> string \<Rightarrow> bool" where
  "compare_strings = ApplyComparison (=) (<) (\<le>)"

section \<open>ExpressionEvaluator\<close>

record BooleanResult =
  bool_values :: ValidityBitmap
  bool_validity :: ValidityBitmap

datatype EvaluationResult = ColumnResult ColumnVariant | BoolResult BooleanResult

definition EvaluateColumnRef :: "BoundColumnRef \<Rightarrow> DataChunk \<Rightarrow> EvaluationResult result" where
  "EvaluateColumnRef ref chunk =
     rbind (dc_Column chunk (unat (cr_ordinal ref))) (\<lambda>col.
     rbind (rfold (copy_row col) [0..<col_Size col] (EmptyColumn (column_type col))) (\<lambda>r.
       Inr (ColumnResult r)))"

definition EvaluateConst :: "ConstValue \<Rightarrow> nat \<Rightarrow> EvaluationResult result" where
  "EvaluateConst v row_count =
     rbind (rfold (\<lambda>_ c. col_Append c v) [0..<row_count] (EmptyColumn (value_type v))) (\<lambda>r.
       Inr (ColumnResult r))"

fun IsFloatResult :: "EvaluationResult \<Rightarrow> bool" where
  "IsFloatResult (ColumnResult (FloatColumn _)) = True"
| "IsFloatResult _ = False"

fun AsFloat :: "EvaluationResult \<Rightarrow> nat \<Rightarrow> float32 result" where
  "AsFloat (ColumnResult (FloatColumn c)) i = fw_GetValue c i"
| "AsFloat (ColumnResult (IntColumn c)) i = rbind (fw_GetValue c i) (\<lambda>v. Inr (f32_of_int (sint v)))"
| "AsFloat _ i = Inl BadVariantAccess"

fun AsInt :: "EvaluationResult \<Rightarrow> nat \<Rightarrow> int32 result" where
  "AsInt (ColumnResult (IntColumn c)) i = fw_GetValue c i"
| "AsInt _ i = Inl BadVariantAccess"

fun AsString :: "EvaluationResult \<Rightarrow> nat \<Rightarrow> string result" where
  "AsString (ColumnResult (StringColumn c)) i = vc_GetValue c i"
| "AsString _ i = Inl BadVariantAccess"

fun IsValidAt :: "EvaluationResult \<Rightarrow> nat \<Rightarrow> bool result" where
  "IsValidAt (ColumnResult c) i = col_IsValid c i"
| "IsValidAt (BoolResult b) i = IsValid (bool_validity b) i"

definition both_valid :: "EvaluationResult \<Rightarrow> EvaluationResult \<Rightarrow> nat \<Rightarrow> bool result" where
  "both_valid left right i = rbind (IsValidAt left i) (\<lambda>b. if b then IsValidAt right i else Inr False)"

definition EvaluateArithmeticInt ::
    "BinaryOperator \<Rightarrow> EvaluationResult \<Rightarrow> EvaluationResult \<Rightarrow> nat \<Rightarrow> EvaluationResult result" where
  "EvaluateArithmeticInt op left right row_count =
     rbind (rfold (\<lambda>i c.
         rbind (rbind (AsInt left i) (\<lambda>l. rbind (AsInt right i) (\<lambda>r. ApplyIntArithmetic op l r)))
           (fw_Append c)) [0..<row_count] EmptyFixedWidth) (\<lambda>raw.
     rbind (rfold (\<lambda>i c.
         rbind (rbind (both_valid left right i) (\<lambda>operands_valid.
                if op = kDivide then rbind (AsInt right i) (\<lambda>r. Inr (\<not> operands_valid \<or> r = 0))
                else Inr (\<not> operands_valid)))
           (\<lambda>mask. if mask then fw_SetNull c i True else Inr c)) [0..<row_count] raw) (\<lambda>c.
       Inr (ColumnResult (IntColumn c))))"

definition EvaluateArithmeticFloat ::
    "BinaryOperator \<Rightarrow> EvaluationResult \<Rightarrow> EvaluationResult \<Rightarrow> nat \<Rightarrow> EvaluationResult result" where
  "EvaluateArithmeticFloat op left right row_count =
     rbind (rfold (\<lambda>i c.
         rbind (rbind (AsFloat left i) (\<lambda>l. rbind (AsFloat right i) (\<lambda>r. Inr (ApplyFloatArithmetic op l r))))
           (fw_Append c)) [0..<row_count] EmptyFixedWidth) (\<lambda>raw.
     rbind (rfold (\<lambda>i c.
         rbind (rbind (both_valid left right i) (\<lambda>v. Inr (\<not> v)))
           (\<lambda>mask. if mask then fw_SetNull c i True else Inr c)) [0..<row_count] raw) (\<lambda>c.
       Inr (ColumnResult (FloatColumn c))))"

definition CompareRow :: "BinaryOperator \<Rightarrow> EvaluationResult \<Rightarrow> EvaluationResult \<Rightarrow> nat \<Rightarrow> bool result" where
  "CompareRow op left right i =
     (case left of
        ColumnResult (StringColumn _) \<Rightarrow>
          rbind (AsString left i) (\<lambda>l. rbind (AsString right i) (\<lambda>r. Inr (compare_strings op l r)))
      | _ \<Rightarrow>
          if IsFloatResult left \<or> IsFloatResult right
          then rbind (AsFloat left i) (\<lambda>l. rbind (AsFloat right i) (\<lambda>r. Inr (compare_floats op l r)))
          else rbind (AsInt left i) (\<lambda>l. rbind (AsInt right i) (\<lambda>r. Inr (compare_ints op l r))))"

text \<open>Both bitmaps of a boolean result start all true and are set row by row.\<close>

definition make_boolean ::
    "nat \<Rightarrow> (nat \<Rightarrow> bool result) \<Rightarrow> (nat \<Rightarrow> bool result) \<Rightarrow> EvaluationResult result" where
  "make_boolean row_count value valid =
     rbind (rfold (\<lambda>i vb. rbind (value i) (SetValid vb i)) [0..<row_count] (MakeValidityBitmap row_count True)) (\<lambda>vs.
     rbind (rfold (\<lambda>i vb. rbind (valid i) (SetValid vb i)) [0..<row_count] (MakeValidityBitmap row_count True)) (\<lambda>ok.
       Inr (BoolResult \<lparr>bool_values = vs, bool_validity = ok\<rparr>)))"

definition EvaluateComparison ::
    "BinaryOperator \<Rightarrow> EvaluationResult \<Rightarrow> EvaluationResult \<Rightarrow> nat \<Rightarrow> EvaluationResult result" where
  "EvaluateComparison op left right row_count =
     make_boolean row_count (CompareRow op left right) (both_valid left right)"

definition EvaluateLogical ::
    "BinaryOperator \<Rightarrow> BooleanResult \<Rightarrow> BooleanResult \<Rightarrow> nat \<Rightarrow> EvaluationResult result" where
  "EvaluateLogical op left right row_count =
     make_boolean row_count
       (\<lambda>i. rbind (IsValid (bool_values left) i) (\<lambda>l.
          if op = kAnd then (if l then IsValid (bool_values right) i else Inr False)
          else (if l then Inr True else IsValid (bool_values right) i)))
       (both_valid (BoolResult left) (BoolResult right))"

fun get_bool :: "EvaluationResult \<Rightarrow> BooleanResult result" where
  "get_bool (BoolResult b) = Inr b"
| "get_bool _ = Inl BadVariantAccess"

definition EvaluateNot :: "BooleanResult \<Rightarrow> nat \<Rightarrow> EvaluationResult result" where
  "EvaluateNot b row_count =
     make_boolean row_count (\<lambda>i. rbind (IsValid (bool_values b) i) (\<lambda>v. Inr (\<not> v)))
       (IsValid (bool_validity b))"

fun EvaluateExpr :: "BoundExpression \<Rightarrow> DataChunk \<Rightarrow> EvaluationResult result" where
  "EvaluateExpr (ColumnRefNode ref) chunk = EvaluateColumnRef ref chunk"
| "EvaluateExpr (ConstNode v) chunk = EvaluateConst v (dc_row_count chunk)"
| "EvaluateExpr (BinaryOpNode op l r t) chunk =
     rbind (EvaluateExpr l chunk) (\<lambda>left.
     rbind (EvaluateExpr r chunk) (\<lambda>right.
       if IsArithmeticOperator op
       then (if t = etFloat then EvaluateArithmeticFloat op left right (dc_row_count chunk)
             else EvaluateArithmeticInt op left right (dc_row_count chunk))
       else if IsLogicalOperator op
       then rbind (get_bool left) (\<lambda>lb. rbind (get_bool right) (\<lambda>rb.
              EvaluateLogical op lb rb (dc_row_count chunk)))
       else EvaluateComparison op left right (dc_row_count chunk)))"
| "EvaluateExpr (UnaryOpNode op e) chunk =
     rbind (EvaluateExpr e chunk) (\<lambda>operand.
     rbind (get_bool operand) (\<lambda>b. EvaluateNot b (dc_row_count chunk)))"

section \<open>Row semantics\<close>

datatype row_value = RVal ConstValue | RBool bool

type_synonym row_cell = "row_value \<times> bool"

fun as_int :: "row_value \<Rightarrow> int32 result" where
  "as_int (RVal (VInt v)) = Inr v"
| "as_int _ = Inl BadVariantAccess"

fun as_float :: "row_value \<Rightarrow> float32 result" where
  "as_float (RVal (VFloat v)) = Inr v"
| "as_float (RVal (VInt v)) = Inr (f32_of_int (sint v))"
| "as_float _ = Inl BadVariantAccess"

fun as_bool :: "row_value \<Rightarrow> bool result" where
  "as_bool (RBool b) = Inr b"
| "as_bool _ = Inl BadVariantAccess"

fun compare_values :: "BinaryOperator \<Rightarrow> row_value \<Rightarrow> row_value \<Rightarrow> bool result" where
  "compare_values op (RVal (VString l)) (RVal (VString r)) = Inr (compare_strings op l r)"
| "compare_values op (RVal (VInt l)) (RVal (VInt r)) = Inr (compare_ints op l r)"
| "compare_values op l r = rbind (as_float l) (\<lambda>x. rbind (as_float r) (\<lambda>y. Inr (compare_floats op x y)))"

fun eval_cells :: "(BoundColumnRef \<Rightarrow> cell) \<Rightarrow> BoundExpression \<Rightarrow> row_cell result" where
  "eval_cells cells (ColumnRefNode ref) =
     (case clean_cell (cells ref) of (v, b) \<Rightarrow> Inr (RVal v, b))"
| "eval_cells cells (ConstNode v) = Inr (RVal v, True)"
| "eval_cells cells (BinaryOpNode op l r t) =
     rbind (eval_cells cells l) (\<lambda>(x, xb).
     rbind (eval_cells cells r) (\<lambda>(y, yb).
       if IsArithmeticOperator op
       then (if t = etFloat
             then rbind (as_float x) (\<lambda>a. rbind (as_float y) (\<lambda>b.
                    Inr (RVal (VFloat (ApplyFloatArithmetic op a b)), xb \<and> yb)))
             else rbind (as_int x) (\<lambda>a. rbind (as_int y) (\<lambda>b.
                  rbind (ApplyIntArithmetic op a b) (\<lambda>c.
                    Inr (RVal (VInt c), xb \<and> yb \<and> \<not> (op = kDivide \<and> b = 0))))))
       else if IsLogicalOperator op
       then rbind (as_bool x) (\<lambda>a. rbind (as_bool y) (\<lambda>b.
              Inr (RBool (if op = kAnd then a \<and> b else a \<or> b), xb \<and> yb)))
       else rbind (compare_values op x y) (\<lambda>c. Inr (RBool c, xb \<and> yb))))"
| "eval_cells cells (UnaryOpNode op e) =
     rbind (eval_cells cells e) (\<lambda>(x, xb). rbind (as_bool x) (\<lambda>a. Inr (RBool (\<not> a), xb)))"

definition eval_row :: "BoundExpression \<Rightarrow> cell list \<Rightarrow> row_cell result" where
  "eval_row e row = eval_cells (\<lambda>ref. row ! unat (cr_ordinal ref)) e"

lemma eval_row_simps [simp]:
  "eval_row (ColumnRefNode ref) row =
     (case clean_cell (row ! unat (cr_ordinal ref)) of (v, b) \<Rightarrow> Inr (RVal v, b))"
  "eval_row (ConstNode v) row = Inr (RVal v, True)"
  "eval_row (BinaryOpNode op l r t) row =
     rbind (eval_row l row) (\<lambda>(x, xb).
     rbind (eval_row r row) (\<lambda>(y, yb).
       if IsArithmeticOperator op
       then (if t = etFloat
             then rbind (as_float x) (\<lambda>a. rbind (as_float y) (\<lambda>b.
                    Inr (RVal (VFloat (ApplyFloatArithmetic op a b)), xb \<and> yb)))
             else rbind (as_int x) (\<lambda>a. rbind (as_int y) (\<lambda>b.
                  rbind (ApplyIntArithmetic op a b) (\<lambda>c.
                    Inr (RVal (VInt c), xb \<and> yb \<and> \<not> (op = kDivide \<and> b = 0))))))
       else if IsLogicalOperator op
       then rbind (as_bool x) (\<lambda>a. rbind (as_bool y) (\<lambda>b.
              Inr (RBool (if op = kAnd then a \<and> b else a \<or> b), xb \<and> yb)))
       else rbind (compare_values op x y) (\<lambda>c. Inr (RBool c, xb \<and> yb))))"
  "eval_row (UnaryOpNode uop e) row =
     rbind (eval_row e row) (\<lambda>(x, xb). rbind (as_bool x) (\<lambda>a. Inr (RBool (\<not> a), xb)))"
  by (simp_all add: eval_row_def)

section \<open>Typing\<close>

definition numeric :: "ExpressionType \<Rightarrow> bool" where
  "numeric t = (t = etInteger \<or> t = etFloat)"

text \<open>
  What binding guarantees of an expression over columns of the given types. The bound on
  string literals keeps a column that repeats one within the range of its 32-bit offsets.
\<close>

fun expr_wt :: "TypeId list \<Rightarrow> BoundExpression \<Rightarrow> bool" where
  "expr_wt ts (ColumnRefNode ref) =
     (unat (cr_ordinal ref) < length ts \<and> ts ! unat (cr_ordinal ref) = cr_type ref)"
| "expr_wt ts (ConstNode v) = (value_weight v < 2 ^ 21)"
| "expr_wt ts (BinaryOpNode op l r t) =
     (expr_wt ts l \<and> expr_wt ts r \<and>
      (if IsArithmeticOperator op
       then (t = etInteger \<and> ResultType l = etInteger \<and> ResultType r = etInteger) \<or>
            (t = etFloat \<and> numeric (ResultType l) \<and> numeric (ResultType r))
       else if IsLogicalOperator op then ResultType l = etBoolean \<and> ResultType r = etBoolean
       else (ResultType l = etVarchar \<and> ResultType r = etVarchar) \<or>
            (numeric (ResultType l) \<and> numeric (ResultType r))))"
| "expr_wt ts (UnaryOpNode op e) = (expr_wt ts e \<and> ResultType e = etBoolean)"

fun result_cells :: "EvaluationResult \<Rightarrow> row_cell list" where
  "result_cells (ColumnResult c) = map (\<lambda>(v, b). (RVal v, b)) (col_cells c)"
| "result_cells (BoolResult b) = zip (map RBool (vb_bits (bool_values b))) (vb_bits (bool_validity b))"

fun result_inv :: "nat \<Rightarrow> EvaluationResult \<Rightarrow> bool" where
  "result_inv n (ColumnResult c) = (col_inv c \<and> length (col_cells c) = n)"
| "result_inv n (BoolResult b) = (vb_inv (bool_values b) \<and> vb_num_rows (bool_values b) = n \<and>
     vb_inv (bool_validity b) \<and> vb_num_rows (bool_validity b) = n)"

fun result_type :: "EvaluationResult \<Rightarrow> ExpressionType" where
  "result_type (ColumnResult c) = ToExpressionType (column_type c)"
| "result_type (BoolResult _) = etBoolean"

section \<open>Loops over rows\<close>

lemma rfold_fails:
  "i \<in> set is \<Longrightarrow> f i = Inl e \<Longrightarrow> \<exists>e'. rfold (\<lambda>i c. rbind (f i) (h i c)) is c = Inl e'"
proof (induction "is" arbitrary: c)
  case (Cons j "is")
  show ?case
  proof (cases "f j")
    case (Inr x)
    with Cons have "i \<in> set is" by auto
    show ?thesis
    proof (cases "h j c x")
      case (Inr c')
      from Cons.IH [OF \<open>i \<in> set is\<close> Cons.prems(2), of c'] show ?thesis
        using \<open>f j = Inr x\<close> Inr by simp
    qed (use Inr in simp)
  qed simp
qed simp

lemma fw_append_loop:
  assumes "\<And>i. i < n \<Longrightarrow> f i = Inr (g i)"
  shows "\<exists>c. rfold (\<lambda>i c. rbind (f i) (fw_Append c)) [0..<n] EmptyFixedWidth = Inr c \<and> fw_inv c \<and>
    fw_cells c = map (\<lambda>i. (g i, True)) [0..<n]"
  using assms
proof (induction n)
  case 0
  then show ?case by (simp add: EmptyFixedWidth_spec)
next
  case (Suc n)
  then obtain c where c: "rfold (\<lambda>i c. rbind (f i) (fw_Append c)) [0..<n] EmptyFixedWidth = Inr c"
    "fw_inv c" "fw_cells c = map (\<lambda>i. (g i, True)) [0..<n]" by auto
  from fw_Append_spec [OF c(2), of "g n"] Suc.prems [of n] c show ?case
    by (auto simp: rfold_append)
qed

lemma fw_mask_loop:
  assumes "fw_inv c" and "length (fw_cells c) = n" and "\<And>i. i < n \<Longrightarrow> p i = Inr (q i)"
  shows "\<exists>c'. rfold (\<lambda>i c. rbind (p i) (\<lambda>mask. if mask then fw_SetNull c i True else Inr c)) [0..<n] c = Inr c' \<and>
    fw_inv c' \<and> fw_cells c' = map (\<lambda>i. (fst (fw_cells c ! i), snd (fw_cells c ! i) \<and> \<not> q i)) [0..<n]"
proof -
  have "\<exists>c'. rfold (\<lambda>i c. rbind (p i) (\<lambda>mask. if mask then fw_SetNull c i True else Inr c)) [0..<k] c = Inr c' \<and>
    fw_inv c' \<and> length (fw_cells c') = n \<and>
    (\<forall>i<n. fw_cells c' ! i = (fst (fw_cells c ! i), snd (fw_cells c ! i) \<and> \<not> (i < k \<and> q i)))"
    if "k \<le> n" for k
    using that
  proof (induction k)
    case 0
    with assms show ?case by simp
  next
    case (Suc k)
    then obtain c' where c': "rfold (\<lambda>i c. rbind (p i) (\<lambda>mask. if mask then fw_SetNull c i True else Inr c)) [0..<k] c = Inr c'"
      "fw_inv c'" "length (fw_cells c') = n"
      "\<forall>i<n. fw_cells c' ! i = (fst (fw_cells c ! i), snd (fw_cells c ! i) \<and> \<not> (i < k \<and> q i))"
      by auto
    then have "k < length (fw_values c')" using Suc.prems by simp
    from fw_SetNull_spec [OF c'(2) this, of True] c' Suc.prems assms(3) [of k]
    show ?case
      by (auto simp: rfold_append nth_list_update less_Suc_eq)
  qed
  from this [of n] obtain c' where c': "rfold (\<lambda>i c. rbind (p i) (\<lambda>mask. if mask then fw_SetNull c i True else Inr c)) [0..<n] c = Inr c'"
    "fw_inv c'" "length (fw_cells c') = n"
    "\<forall>i<n. fw_cells c' ! i = (fst (fw_cells c ! i), snd (fw_cells c ! i) \<and> \<not> (i < n \<and> q i))" by auto
  then show ?thesis
    by (auto intro!: nth_equalityI)
qed

lemma make_boolean_spec:
  assumes "\<And>i. i < n \<Longrightarrow> val i = Inr (f i)" and "\<And>i. i < n \<Longrightarrow> valid i = Inr (g i)"
  shows "\<exists>b. make_boolean n val valid = Inr (BoolResult b) \<and> result_inv n (BoolResult b) \<and>
    result_cells (BoolResult b) = map (\<lambda>i. (RBool (f i), g i)) [0..<n]"
proof -
  note mk = MakeValidityBitmap_bits [of n True]
  from mk vb.set_loop_full [where v = "MakeValidityBitmap n True" and f = val and g = f, OF _ _ assms(1)] obtain vs where
    vs: "rfold (\<lambda>i vb. rbind (val i) (SetValid vb i)) [0..<n] (MakeValidityBitmap n True) = Inr vs"
      "vb_inv vs" "vb_bits vs = map f [0..<n]" by auto
  from mk vb.set_loop_full [where v = "MakeValidityBitmap n True" and f = valid and g = g, OF _ _ assms(2)] obtain ok where
    ok: "rfold (\<lambda>i vb. rbind (valid i) (SetValid vb i)) [0..<n] (MakeValidityBitmap n True) = Inr ok"
      "vb_inv ok" "vb_bits ok = map g [0..<n]" by auto
  have "vb_num_rows vs = n" "vb_num_rows ok = n"
    using arg_cong [OF vs(3), of length] arg_cong [OF ok(3), of length] by simp_all
  with vs ok show ?thesis
    by (auto simp: make_boolean_def intro!: nth_equalityI)
qed

lemma make_boolean_fails:
  "i < n \<Longrightarrow> val i = Inl e \<Longrightarrow> \<exists>e'. make_boolean n val valid = Inl e'"
  using rfold_fails [of i "[0..<n]" val e "\<lambda>i vb. SetValid vb i" "MakeValidityBitmap n True"]
  by (auto simp: make_boolean_def)

section \<open>Accessors read the cells\<close>

lemma result_cells_length: "result_inv n r \<Longrightarrow> length (result_cells r) = n"
  by (cases r) simp_all

lemma AsInt_cells:
  assumes "result_inv n r" and "i < n"
  shows "AsInt r i = as_int (fst (result_cells r ! i))"
proof (cases r)
  case (ColumnResult c)
  with assms col_GetValue_cells [of c i] show ?thesis
    by (cases c) (auto simp: fw_GetValue_cells split: prod.splits)
qed (use assms in simp)

lemma AsFloat_cells:
  assumes "result_inv n r" and "i < n"
  shows "AsFloat r i = as_float (fst (result_cells r ! i))"
proof (cases r)
  case (ColumnResult c)
  with assms show ?thesis
    by (cases c) (auto simp: fw_GetValue_cells split: prod.splits)
qed (use assms in simp)

lemma IsValidAt_cells:
  "result_inv n r \<Longrightarrow> i < n \<Longrightarrow> IsValidAt r i = Inr (snd (result_cells r ! i))"
  by (cases r) (auto simp: col_IsValid_cells IsValid_bits split: prod.splits)

lemma both_valid_cells:
  "result_inv n l \<Longrightarrow> result_inv n r \<Longrightarrow> i < n \<Longrightarrow>
    both_valid l r i = Inr (snd (result_cells l ! i) \<and> snd (result_cells r ! i))"
  by (simp add: both_valid_def IsValidAt_cells)

lemma result_cases [case_names int float string bool]:
  obtains c where "r = ColumnResult (IntColumn c)" | c where "r = ColumnResult (FloatColumn c)"
  | c where "r = ColumnResult (StringColumn c)" | b where "r = BoolResult b"
  by (metis ColumnVariant.exhaust EvaluationResult.exhaust)

lemma CompareRow_cells:
  assumes "result_inv n l" and "result_inv n r" and "i < n"
  shows "CompareRow op l r i = compare_values op (fst (result_cells l ! i)) (fst (result_cells r ! i))"
  using assms
  by (cases l rule: result_cases; cases r rule: result_cases)
    (auto simp: CompareRow_def fw_GetValue_cells vc_GetValue_cells split: prod.splits)

section \<open>Columns copied whole\<close>

lemma vc_weights:
  assumes "vc_inv c"
  shows "sum_list (map (length \<circ> fst) (vc_cells c)) \<le> length (vc_data_buffer c)"
proof -
  let ?n = "vb_num_rows (vc_validity c)" and ?o = "\<lambda>i. unat (vc_offsets c ! i)"
  have len: "length (vc_offsets c) = ?n + 1" using assms by (simp add: vc_inv_def)
  have "length (vc_string c i) = ?o (Suc i) - ?o i" if "i < ?n" for i
    using vc_offset_bound [OF assms, of "Suc i"] that len by (simp add: vc_string_def slice_def)
  moreover have "(\<Sum>i<k. ?o (Suc i) - ?o i) + ?o 0 \<le> ?o k" if "k \<le> ?n" for k
    using that
  proof (induction k)
    case (Suc k)
    with vc_offset_mono [OF assms, of k] len show ?case by simp
  qed simp
  ultimately have "(\<Sum>i<?n. length (vc_string c i)) \<le> ?o ?n"
    by (fastforce simp: le_diff_conv)
  also have "\<dots> \<le> length (vc_data_buffer c)"
    using vc_offset_bound [OF assms, of ?n] len by simp
  finally show ?thesis
    by (simp add: vc_cells_def comp_def interv_sum_list_conv_sum_set_nat atLeast0LessThan)
qed

lemma map_nth_upt: "map (\<lambda>i. f (xs ! i)) [0..<length xs] = map f xs"
  by (rule nth_equalityI) simp_all

lemma col_weights:
  "col_inv c \<Longrightarrow> sum_list (map (value_weight \<circ> fst) (col_cells c)) \<le> col_load c"
  using vc_weights by (cases c) (auto simp: comp_def case_prod_unfold)

lemma col_load_bound: "col_inv c \<Longrightarrow> col_load c < varchar_capacity"
  by (cases c) (simp_all add: vc_inv_def)

lemma copy_column_spec:
  assumes "col_inv c"
  shows "\<exists>c'. rfold (copy_row c) [0..<col_Size c] (EmptyColumn (column_type c)) = Inr c' \<and> col_inv c' \<and>
    col_cells c' = map clean_cell (col_cells c) \<and> column_type c' = column_type c"
proof -
  let ?w = "\<lambda>x. value_weight (fst x)"
  have clean: "?w (clean_cell x) \<le> ?w x" for x
    by (cases x; cases "fst x") (auto simp: null_cell_def)
  have "sum_list (map (\<lambda>i. ?w (clean_cell (col_cells c ! i))) [0..<col_Size c]) =
      sum_list (map (\<lambda>x. ?w (clean_cell x)) (col_cells c))"
    unfolding col_Size_cells [OF assms] map_nth_upt [of "\<lambda>x. ?w (clean_cell x)"] ..
  also have "\<dots> \<le> sum_list (map ?w (col_cells c))"
    by (rule sum_list_mono) (rule clean)
  also have "\<dots> < varchar_capacity"
    using col_weights [OF assms] col_load_bound [OF assms] by (simp add: comp_def)
  finally have "\<exists>c'. rfold (copy_row c) [0..<col_Size c] (EmptyColumn (column_type c)) = Inr c' \<and> col_inv c' \<and>
    col_cells c' = col_cells (EmptyColumn (column_type c)) @
      map (\<lambda>i. clean_cell (col_cells c ! i)) [0..<col_Size c] \<and> column_type c' = column_type (EmptyColumn (column_type c))"
    by (intro copy_rows_spec assms) (simp_all add: EmptyColumn_spec col_Size_cells [OF assms])
  moreover have "map (\<lambda>i. clean_cell (col_cells c ! i)) [0..<col_Size c] = map clean_cell (col_cells c)"
    by (simp add: col_Size_cells [OF assms] map_nth_upt)
  ultimately show ?thesis
    by (simp add: EmptyColumn_spec)
qed

lemma const_column_spec:
  assumes "n * value_weight v < varchar_capacity"
  shows "\<exists>c. rfold (\<lambda>_ c. col_Append c v) [0..<n] (EmptyColumn (value_type v)) = Inr c \<and> col_inv c \<and>
    col_cells c = replicate n (v, True) \<and> column_type c = value_type v \<and> col_load c = n * value_weight v"
  using assms
proof (induction n)
  case 0
  then show ?case by (simp add: EmptyColumn_spec)
next
  case (Suc n)
  then obtain c where c: "rfold (\<lambda>_ c. col_Append c v) [0..<n] (EmptyColumn (value_type v)) = Inr c" "col_inv c"
    "col_cells c = replicate n (v, True)" "column_type c = value_type v" "col_load c = n * value_weight v"
    by auto
  with col_Append_spec [of c v] Suc.prems show ?case
    by (auto simp: rfold_append replicate_append_same)
qed

section \<open>Vectorised evaluation computes the row semantics\<close>

definition eval_agrees :: "BoundExpression \<Rightarrow> DataChunk \<Rightarrow> EvaluationResult result \<Rightarrow> bool" where
  "eval_agrees e dc res = (case res of
     Inr r \<Rightarrow> result_inv (dc_row_count dc) r \<and> result_type r = ResultType e \<and>
       (\<forall>i < dc_row_count dc. eval_row e (chunk_row dc i) = Inr (result_cells r ! i))
   | Inl _ \<Rightarrow> (\<exists>i < dc_row_count dc. \<exists>err. eval_row e (chunk_row dc i) = Inl err))"

text \<open>A loop either runs over all rows or stops at a row it fails on.\<close>

lemma rows_total:
  obtains g where "\<And>i. i < n \<Longrightarrow> f i = Inr (g i)" | i e where "i < n" "f i = Inl e"
proof (cases "\<exists>i<n. \<exists>e. f i = Inl e")
  case False
  then have "f i = Inr (projr (f i))" if "i < n" for i
    using that by (cases "f i") auto
  then show thesis by (rule that(1))
next
  case True
  then obtain i e where "i < n" "f i = Inl e" by blast
  then show thesis by (rule that(2))
qed

lemma make_boolean_agrees:
  assumes e: "ResultType e = etBoolean"
    and rows: "\<And>i. i < dc_row_count dc \<Longrightarrow>
      eval_row e (chunk_row dc i) = rbind (val i) (\<lambda>v. Inr (RBool v, g i))"
    and valid: "\<And>i. i < dc_row_count dc \<Longrightarrow> valid i = Inr (g i)"
  shows "eval_agrees e dc (make_boolean (dc_row_count dc) val valid)"
proof (cases rule: rows_total [where f = val and n = "dc_row_count dc"])
  case (1 f)
  from make_boolean_spec [where val = val and f = f and valid = valid and g = g, OF 1 valid]
  obtain b where "make_boolean (dc_row_count dc) val valid = Inr (BoolResult b)"
    "result_inv (dc_row_count dc) (BoolResult b)"
    "result_cells (BoolResult b) = map (\<lambda>i. (RBool (f i), g i)) [0..<dc_row_count dc]" by blast
  with 1 rows e show ?thesis
    by (simp add: eval_agrees_def del: result_cells.simps)
next
  case (2 i err)
  with make_boolean_fails [where val = val and valid = valid, OF 2] rows show ?thesis
    by (fastforce simp: eval_agrees_def)
qed

lemma arithmetic_loop:
  assumes wrap: "\<And>v. value_type (mk v) = t" "\<And>c. column_type (con c) = t"
      "\<And>c. col_inv (con c) = fw_inv c" "\<And>c. col_cells (con c) = map (\<lambda>(v, b). (mk v, b)) (fw_cells c)"
    and e: "ResultType e = ToExpressionType t"
    and rows: "\<And>i. i < dc_row_count dc \<Longrightarrow>
      eval_row e (chunk_row dc i) = rbind (f i) (\<lambda>v. Inr (RVal (mk v), \<not> q i))"
    and mask: "\<And>i. i < dc_row_count dc \<Longrightarrow> (\<exists>v. f i = Inr v) \<Longrightarrow> p i = Inr (q i)"
  shows "eval_agrees e dc
    (rbind (rfold (\<lambda>i c. rbind (f i) (fw_Append c)) [0..<dc_row_count dc] EmptyFixedWidth) (\<lambda>raw.
     rbind (rfold (\<lambda>i c. rbind (p i) (\<lambda>mask. if mask then fw_SetNull c i True else Inr c))
       [0..<dc_row_count dc] raw) (\<lambda>c. Inr (ColumnResult (con c)))))"
proof (cases rule: rows_total [where f = f and n = "dc_row_count dc"])
  case (1 g)
  let ?n = "dc_row_count dc"
  from fw_append_loop [of ?n f g, OF 1] obtain raw where
    raw: "rfold (\<lambda>i c. rbind (f i) (fw_Append c)) [0..<?n] EmptyFixedWidth = Inr raw" "fw_inv raw"
      "fw_cells raw = map (\<lambda>i. (g i, True)) [0..<?n]" by auto
  have "p i = Inr (q i)" if "i < ?n" for i
    using mask [OF that] 1 [OF that] by simp
  from fw_mask_loop [OF raw(2), of ?n p q, OF _ this] raw(3) obtain c where
    "rfold (\<lambda>i c. rbind (p i) (\<lambda>mask. if mask then fw_SetNull c i True else Inr c)) [0..<?n] raw = Inr c"
    "fw_inv c" "fw_cells c = map (\<lambda>i. (g i, \<not> q i)) [0..<?n]" by auto
  with raw 1 rows wrap e show ?thesis
    by (simp add: eval_agrees_def)
next
  case (2 i err)
  then have "\<exists>e'. rfold (\<lambda>i c. rbind (f i) (fw_Append c)) [0..<dc_row_count dc] EmptyFixedWidth = Inl e'"
    using rfold_fails [of i "[0..<dc_row_count dc]" f err "\<lambda>i. fw_Append" EmptyFixedWidth] by simp
  with 2 rows show ?thesis
    by (fastforce simp: eval_agrees_def)
qed

lemma EvaluateColumnRef_agrees:
  assumes inv: "chunk_inv dc" and wt: "expr_wt (chunk_types dc) (ColumnRefNode ref)"
  shows "eval_agrees (ColumnRefNode ref) dc (EvaluateColumnRef ref dc)"
proof -
  let ?k = "unat (cr_ordinal ref)"
  define col where "col = dc_columns dc ! ?k"
  have k: "?k < length (dc_columns dc)" and ty: "column_type col = cr_type ref"
    using wt by (auto simp: chunk_types_def col_def)
  then have ci: "col_inv col" "length (col_cells col) = dc_row_count dc"
    using inv by (auto simp: chunk_inv_def list_all_length col_def)
  from copy_column_spec [OF ci(1)] obtain c where
    c: "rfold (copy_row col) [0..<col_Size col] (EmptyColumn (column_type col)) = Inr c" "col_inv c"
      "col_cells c = map clean_cell (col_cells col)" "column_type c = column_type col" by blast
  have "EvaluateColumnRef ref dc = Inr (ColumnResult c)"
    using k c(1) by (simp add: EvaluateColumnRef_def dc_Column_def flip: col_def)
  moreover have "chunk_row dc i ! ?k = col_cells col ! i" for i
    using k by (simp add: chunk_row_def col_def)
  ultimately show ?thesis
    using c ci ty by (simp add: eval_agrees_def split: prod.splits)
qed

lemma EvaluateConst_agrees:
  assumes inv: "chunk_inv dc" and wt: "expr_wt ts (ConstNode v)"
  shows "eval_agrees (ConstNode v) dc (EvaluateConst v (dc_row_count dc))"
proof -
  have "dc_row_count dc * value_weight v \<le> 1024 * value_weight v"
    using inv by (simp add: chunk_inv_def kVectorSize_def)
  also have "\<dots> < varchar_capacity" using wt by simp
  finally obtain c where "rfold (\<lambda>_ c. col_Append c v) [0..<dc_row_count dc] (EmptyColumn (value_type v)) = Inr c"
    "col_inv c" "col_cells c = replicate (dc_row_count dc) (v, True)" "column_type c = value_type v"
    using const_column_spec [of "dc_row_count dc" v] by auto
  then show ?thesis
    by (simp add: EvaluateConst_def eval_agrees_def)
qed

lemma as_of_type:
  assumes "result_inv n r" and "i < n"
  shows "result_type r = etInteger \<Longrightarrow> \<exists>v. as_int (fst (result_cells r ! i)) = Inr v"
    and "numeric (result_type r) \<Longrightarrow> \<exists>v. as_float (fst (result_cells r ! i)) = Inr v"
  using assms by (cases r rule: result_cases; auto simp: numeric_def split: prod.splits)+

text \<open>
  The operator nodes, given results for the operands that agree with the row semantics.
\<close>

lemma EvaluateBinary_agrees:
  fixes l r op t dc
  defines "n \<equiv> dc_row_count dc" and "e \<equiv> BinaryOpNode op l r t"
  assumes wt: "expr_wt ts e"
    and L: "result_inv n L" "result_type L = ResultType l"
      "\<And>i. i < n \<Longrightarrow> eval_row l (chunk_row dc i) = Inr (result_cells L ! i)"
    and R: "result_inv n R" "result_type R = ResultType r"
      "\<And>i. i < n \<Longrightarrow> eval_row r (chunk_row dc i) = Inr (result_cells R ! i)"
  shows "eval_agrees e dc
    (if IsArithmeticOperator op
     then (if t = etFloat then EvaluateArithmeticFloat op L R n else EvaluateArithmeticInt op L R n)
     else if IsLogicalOperator op
     then rbind (get_bool L) (\<lambda>lb. rbind (get_bool R) (\<lambda>rb. EvaluateLogical op lb rb n))
     else EvaluateComparison op L R n)"
proof -
  note acc = AsInt_cells [OF L(1)] AsInt_cells [OF R(1)] AsFloat_cells [OF L(1)] AsFloat_cells [OF R(1)]
    both_valid_cells [OF L(1) R(1)] CompareRow_cells [OF L(1) R(1)]
  consider (flt) "IsArithmeticOperator op" "t = etFloat" | (int) "IsArithmeticOperator op" "t = etInteger"
    | (log) "\<not> IsArithmeticOperator op" "IsLogicalOperator op"
    | (cmp) "\<not> IsArithmeticOperator op" "\<not> IsLogicalOperator op"
    using wt by (auto simp: e_def split: if_splits)
  then show ?thesis
  proof cases
    case flt
    have "ResultTypeForBinaryOp op t = t"
      using flt(1) by (cases op) (simp_all add: IsArithmeticOperator_def)
    with flt show ?thesis
      unfolding EvaluateArithmeticFloat_def n_def
      by (simp, intro arithmetic_loop [where mk = VFloat and t = kFloat and
            q = "\<lambda>i. \<not> (snd (result_cells L ! i) \<and> snd (result_cells R ! i))"])
        (auto simp: e_def acc [unfolded n_def] L(3) [unfolded n_def] R(3) [unfolded n_def] rbind_assoc
          split: prod.splits)
  next
    case int
    have "ResultTypeForBinaryOp op t = t"
      using int(1) by (cases op) (simp_all add: IsArithmeticOperator_def)
    moreover have "result_type L = etInteger" "result_type R = etInteger"
      using wt int L(2) R(2) by (auto simp: e_def)
    then have ints: "\<exists>v. as_int (fst (result_cells L ! i)) = Inr v" "\<exists>v. as_int (fst (result_cells R ! i)) = Inr v"
      if "i < n" for i
      using as_of_type(1) L(1) R(1) that by blast+
    ultimately show ?thesis
      using int unfolding EvaluateArithmeticInt_def n_def
      by (simp, intro arithmetic_loop [where mk = VInt and t = kInteger and
            q = "\<lambda>i. \<not> (snd (result_cells L ! i) \<and> snd (result_cells R ! i)) \<or>
              op = kDivide \<and> as_int (fst (result_cells R ! i)) = Inr 0"])
        (use ints in \<open>fastforce simp: e_def acc [unfolded n_def] L(3) [unfolded n_def] R(3) [unfolded n_def]
          rbind_assoc n_def split: prod.splits\<close>)+
  next
    case log
    have "ResultType l = etBoolean" "ResultType r = etBoolean"
      using wt log by (auto simp: e_def)
    then obtain lb rb where b: "L = BoolResult lb" "R = BoolResult rb"
      using L(2) R(2) by (cases L rule: result_cases; cases R rule: result_cases) auto
    have "ResultTypeForBinaryOp op t = etBoolean"
      using log(1) by (cases op) (simp_all add: IsArithmeticOperator_def)
    moreover have vals: "IsValid (bool_values lb) i = Inr (vb_bits (bool_values lb) ! i)"
        "IsValid (bool_values rb) i = Inr (vb_bits (bool_values rb) ! i)" if "i < n" for i
      using L(1) R(1) that b by (simp_all add: IsValid_bits)
    ultimately show ?thesis
      using log L(1) R(1) unfolding EvaluateLogical_def n_def
      by (simp add: b, intro make_boolean_agrees [where
            g = "\<lambda>i. snd (result_cells L ! i) \<and> snd (result_cells R ! i)"])
        (auto simp: e_def acc [unfolded n_def] L(3) [unfolded n_def] R(3) [unfolded n_def] b n_def both_valid_def
          IsValid_bits)
  next
    case cmp
    have "ResultTypeForBinaryOp op t = etBoolean"
      using cmp(1) by (cases op) (simp_all add: IsArithmeticOperator_def)
    with cmp show ?thesis
      unfolding EvaluateComparison_def n_def
      by (simp, intro make_boolean_agrees [where
            g = "\<lambda>i. snd (result_cells L ! i) \<and> snd (result_cells R ! i)"])
        (auto simp: e_def acc [unfolded n_def] L(3) [unfolded n_def] R(3) [unfolded n_def] split: prod.splits)
  qed
qed

lemma EvaluateExpr_agrees:
  assumes inv: "chunk_inv dc" and wt: "expr_wt (chunk_types dc) e"
  shows "eval_agrees e dc (EvaluateExpr e dc)"
  using wt
proof (induction e)
  case (ColumnRefNode ref)
  then show ?case using EvaluateColumnRef_agrees [OF inv] by simp
next
  case (ConstNode v)
  then show ?case using EvaluateConst_agrees [OF inv] by simp
next
  case (BinaryOpNode op l r t)
  let ?n = "dc_row_count dc"
  from BinaryOpNode have l: "eval_agrees l dc (EvaluateExpr l dc)" and r: "eval_agrees r dc (EvaluateExpr r dc)"
    by simp_all
  show ?case
  proof (cases "EvaluateExpr l dc")
    case (Inl err)
    then obtain i err' where "i < ?n" "eval_row l (chunk_row dc i) = Inl err'"
      using l by (auto simp: eval_agrees_def)
    then have "i < ?n" "eval_row (BinaryOpNode op l r t) (chunk_row dc i) = Inl err'" by simp_all
    with Inl show ?thesis by (auto simp: eval_agrees_def simp del: eval_row_simps)
  next
    case L: (Inr L)
    with l have l': "result_inv ?n L" "result_type L = ResultType l"
      "\<And>i. i < ?n \<Longrightarrow> eval_row l (chunk_row dc i) = Inr (result_cells L ! i)"
      by (simp_all add: eval_agrees_def)
    show ?thesis
    proof (cases "EvaluateExpr r dc")
      case (Inl err)
      then obtain i err' where "i < ?n" "eval_row r (chunk_row dc i) = Inl err'"
        using r by (auto simp: eval_agrees_def)
      then have "i < ?n" "eval_row (BinaryOpNode op l r t) (chunk_row dc i) = Inl err'"
        using l'(3) [of i] by (simp_all split: prod.splits)
      with L Inl show ?thesis by (auto simp: eval_agrees_def simp del: eval_row_simps)
    next
      case R: (Inr R)
      with r have r': "result_inv ?n R" "result_type R = ResultType r"
        "\<And>i. i < ?n \<Longrightarrow> eval_row r (chunk_row dc i) = Inr (result_cells R ! i)"
        by (simp_all add: eval_agrees_def)
      from EvaluateBinary_agrees [OF BinaryOpNode.prems l' r'] L R show ?thesis by simp
    qed
  qed
next
  case (UnaryOpNode op e)
  let ?n = "dc_row_count dc"
  from UnaryOpNode have e: "eval_agrees e dc (EvaluateExpr e dc)" and ty: "ResultType e = etBoolean"
    by simp_all
  show ?case
  proof (cases "EvaluateExpr e dc")
    case (Inl err)
    then obtain i err' where "i < ?n" "eval_row e (chunk_row dc i) = Inl err'"
      using e by (auto simp: eval_agrees_def)
    then have "i < ?n" "eval_row (UnaryOpNode op e) (chunk_row dc i) = Inl err'" by simp_all
    with Inl show ?thesis by (auto simp: eval_agrees_def simp del: eval_row_simps)
  next
    case (Inr R)
    with e ty obtain b where b: "R = BoolResult b" "result_inv ?n (BoolResult b)"
      "\<And>i. i < ?n \<Longrightarrow> eval_row e (chunk_row dc i) = Inr (result_cells (BoolResult b) ! i)"
      by (cases R rule: result_cases) (auto simp: eval_agrees_def)
    then have "eval_agrees (UnaryOpNode op e) dc (EvaluateNot b ?n)"
      unfolding EvaluateNot_def
      by (intro make_boolean_agrees [where g = "\<lambda>i. vb_bits (bool_validity b) ! i"])
        (simp_all add: IsValid_bits)
    with Inr b(1) show ?thesis by simp
  qed
qed

section \<open>Null propagation\<close>

fun columns_of :: "BoundExpression \<Rightarrow> nat set" where
  "columns_of (ColumnRefNode ref) = {unat (cr_ordinal ref)}"
| "columns_of (ConstNode v) = {}"
| "columns_of (BinaryOpNode op l r t) = columns_of l \<union> columns_of r"
| "columns_of (UnaryOpNode op e) = columns_of e"

text \<open>
  Nulls propagate strictly through every operator, the logical ones included: a result is
  valid only when every column it reads is, so \<open>NULL OR TRUE\<close> is null.
\<close>

lemma eval_row_strict:
  "eval_row e row = Inr (v, True) \<Longrightarrow> i \<in> columns_of e \<Longrightarrow> snd (row ! i)"
proof (induction e arbitrary: v)
  case (ColumnRefNode ref)
  then show ?case by (cases "row ! unat (cr_ordinal ref)") (auto simp: null_cell_def split: if_splits)
next
  case (BinaryOpNode op l r t)
  from BinaryOpNode.prems(1) obtain x y where "eval_row l row = Inr (x, True)" "eval_row r row = Inr (y, True)"
    by (auto simp: result_simps split: if_splits)
  with BinaryOpNode show ?case by auto
next
  case (UnaryOpNode op e)
  then obtain x where "eval_row e row = Inr (x, True)" by (auto simp: result_simps)
  with UnaryOpNode show ?case by auto
qed simp

text \<open>Evaluation depends only on the columns it reads.\<close>

lemma eval_row_cong:
  "(\<And>i. i \<in> columns_of e \<Longrightarrow> row ! i = row' ! i) \<Longrightarrow> eval_row e row = eval_row e row'"
  by (induction e) auto

end
