(* ===== verification/Insert.thy ===== *)
theory Insert
  imports Catalog Expressions
begin

text \<open>
  \<open>execution/insert_executor\<close>: rows are staged in memory column by column and written as a
  row group of pages when the staging area is full or the statement ends. The state of an
  insert is the executor and the catalog it refers to; the executor reads only the parts of
  its table that never change, so it holds the table object itself.

  \<open>group_holds\<close> says what the pages and the footer entry of a row group must contain; a flush
  establishes it, and the scan reads it.
\<close>

section \<open>Serialization\<close>

text \<open>The values are copied byte by byte, which writes them as on a little-endian target.\<close>

definition SerializeFixedWidth :: "('a \<Rightarrow> uint32) \<Rightarrow> 'a FixedWidthColumn \<Rightarrow> nat \<Rightarrow> bytes result" where
  "SerializeFixedWidth bits column row_count =
     rfold (\<lambda>i bytes. rbind (fw_GetValue column i) (\<lambda>v. Inr (WriteU32 bytes (bits v)))) [0..<row_count] []"

definition SerializeVarchar :: "VarcharColumn \<Rightarrow> nat \<Rightarrow> (bytes \<times> bytes) result" where
  "SerializeVarchar column row_count =
     rbind (rfold (\<lambda>i (offsets_bytes, data_bytes, running_offset).
         rbind (vc_GetValue column i) (\<lambda>v.
           let running_offset = running_offset + word_of_nat (length v)
           in Inr (WriteU32 offsets_bytes running_offset, data_bytes @ bytes_of_string v, running_offset)))
       [0..<row_count] (WriteU32 [] 0, [], 0 :: uint32)) (\<lambda>(offsets_bytes, data_bytes, _).
     Inr (offsets_bytes, data_bytes))"

definition set_bit_at :: "nat \<Rightarrow> nat \<Rightarrow> bytes \<Rightarrow> bytes result" where
  "set_bit_at byte_index bit_index bytes =
     (if byte_index < length bytes
      then Inr (bytes[byte_index := bytes ! byte_index OR push_bit bit_index 1])
      else Inl (UndefinedBehaviour ''vector index out of range''))"

definition BuildValidityBitmapBytes :: "ColumnVariant list \<Rightarrow> nat \<Rightarrow> bytes result" where
  "BuildValidityBitmapBytes columns row_count =
     (let bytes_per_column = (row_count + 7) div 8
      in rfold (\<lambda>col bytes.
           rfold (\<lambda>row bytes.
             rbind (col_IsNull (columns ! col) row) (\<lambda>is_null.
               if is_null then Inr bytes
               else set_bit_at (col * bytes_per_column + row div 8) (row mod 8) bytes))
             [0..<row_count] bytes)
         [0..<length columns] (replicate (bytes_per_column * length columns) 0))"

section \<open>Staging\<close>

record Staging =
  st_columns :: "ColumnVariant list"
  st_row_count :: nat

definition MakeStaging :: "TableObject \<Rightarrow> Staging" where
  "MakeStaging table = \<lparr>st_columns = map (\<lambda>c. EmptyColumn (cd_type c)) (to_columns table), st_row_count = 0\<rparr>"

definition append_value :: "ColumnVariant \<Rightarrow> ConstValue \<Rightarrow> ColumnVariant result" where
  "append_value column v =
     (if value_type v = column_type column then col_Append column v
      else Inl (RuntimeError ''InsertExecutor: bound value type doesn't match target column type''))"

fun append_values :: "nat \<Rightarrow> BoundExpression list \<Rightarrow> (ColumnVariant list, unit) action" where
  "append_values i [] columns = (Inr (), columns)"
| "append_values i (ConstNode v # row) columns =
     (if i < length columns
      then (case append_value (columns ! i) v of
              Inl e \<Rightarrow> (Inl e, columns)
            | Inr c \<Rightarrow> append_values (i + 1) row (columns[i := c]))
      else (Inl (UndefinedBehaviour ''vector index out of range''), columns))"
| "append_values i (_ # row) columns =
     (Inl (RuntimeError ''InsertExecutor: INSERT values must be bound literal constants''), columns)"

text \<open>A row that fails half-way leaves the values it appended behind.\<close>

definition AppendRow :: "BoundExpression list \<Rightarrow> (Staging, unit) action" where
  "AppendRow row st =
     (case append_values 0 row (st_columns st) of
        (Inl e, columns) \<Rightarrow> (Inl e, st\<lparr>st_columns := columns\<rparr>)
      | (Inr _, columns) \<Rightarrow> (Inr (), st\<lparr>st_columns := columns, st_row_count := st_row_count st + 1\<rparr>))"

section \<open>InsertExecutor\<close>

record InsertExecutor =
  ie_table :: TableObject
  ie_staging :: Staging

type_synonym insert_state = "InsertExecutor \<times> Catalog"

definition MakeInsertExecutor :: "Catalog \<Rightarrow> uint32 \<Rightarrow> InsertExecutor result" where
  "MakeInsertExecutor catalog table_id =
     (case GetTableById catalog table_id of
        None \<Rightarrow> Inl (UndefinedBehaviour ''null pointer dereference'')
      | Some table \<Rightarrow> Inr \<lparr>ie_table = table, ie_staging = MakeStaging table\<rparr>)"

definition pad_and_write :: "bytes \<Rightarrow> (DiskManager, PageRange) action" where
  "pad_and_write bytes =
     (let page_count = word_of_nat ((length bytes + kPageSizeBytes - 1) div kPageSizeBytes) :: uint32;
          size = unat page_count * kPageSizeBytes;
          padded = take size bytes @ replicate (size - length bytes) 0
      in sbind (AllocatePages page_count) (\<lambda>start_page.
         sbind (WritePages start_page padded) (\<lambda>_.
           sreturn \<lparr>start_page_id = start_page, page_count = page_count\<rparr>)))"

definition flush_column :: "nat \<Rightarrow> ColumnVariant \<Rightarrow> (DiskManager, ColumnFooterEntry) action" where
  "flush_column row_count column =
     (case column of
        IntColumn c \<Rightarrow>
          sbind (sresult (SerializeFixedWidth id c row_count)) (\<lambda>bytes.
          sbind (pad_and_write bytes) (\<lambda>pages.
          sbind (sresult (fe_Build word_sless 0 c pages)) (\<lambda>e. sreturn (IntEntry e))))
      | FloatColumn c \<Rightarrow>
          sbind (sresult (SerializeFixedWidth f32_bits c row_count)) (\<lambda>bytes.
          sbind (pad_and_write bytes) (\<lambda>pages.
          sbind (sresult (fe_Build f32_less f32_zero c pages)) (\<lambda>e. sreturn (FloatEntry e))))
      | StringColumn c \<Rightarrow>
          sbind (sresult (SerializeVarchar c row_count)) (\<lambda>(offsets_bytes, data_bytes).
          sbind (pad_and_write offsets_bytes) (\<lambda>offsets_pages.
          sbind (pad_and_write data_bytes) (\<lambda>data_pages.
          sbind (sresult (ve_Build c offsets_pages data_pages)) (\<lambda>e. sreturn (VarcharEntry e))))))"

definition on_catalog_disk :: "(DiskManager, 'a) action \<Rightarrow> (insert_state, 'a) action" where
  "on_catalog_disk act = (\<lambda>(ie, cat).
     case act (cat_disk cat) of (res, dm) \<Rightarrow> (res, (ie, cat\<lparr>cat_disk := dm\<rparr>)))"

definition FlushRowGroup :: "(insert_state, unit) action" where
  "FlushRowGroup = (\<lambda>(ie, cat).
     let row_count = st_row_count (ie_staging ie);
         columns = st_columns (ie_staging ie);
         table = ie_table ie
     in if row_count = 0 then (Inr (), (ie, cat))
        else sbind (on_catalog_disk (smap (flush_column row_count) columns)) (\<lambda>column_entries.
             sbind (sresult (BuildValidityBitmapBytes columns row_count)) (\<lambda>bitmap_bytes.
             sbind (on_catalog_disk (pad_and_write bitmap_bytes)) (\<lambda>bitmap_range.
               (\<lambda>(ie, cat).
                  case cat_AddRowGroup (to_table_name table)
                      \<lparr>rg_table_id = to_table_id table, rg_row_count = word_of_nat row_count,
                       rg_validity_bitmap_region = bitmap_range, rg_columns = column_entries\<rparr> cat of
                    (Inl e, cat) \<Rightarrow> (Inl e, (ie, cat))
                  | (Inr _, cat) \<Rightarrow> (Inr (), (ie\<lparr>ie_staging := MakeStaging table\<rparr>, cat))))))
             (ie, cat))"

definition InsertRow :: "BoundExpression list \<Rightarrow> (insert_state, unit) action" where
  "InsertRow row = (\<lambda>(ie, cat).
     case AppendRow row (ie_staging ie) of
       (Inl e, st) \<Rightarrow> (Inl e, (ie\<lparr>ie_staging := st\<rparr>, cat))
     | (Inr _, st) \<Rightarrow>
         if st_row_count st \<ge> kRowGroupSize
         then FlushRowGroup (ie\<lparr>ie_staging := st\<rparr>, cat)
         else (Inr (), (ie\<lparr>ie_staging := st\<rparr>, cat)))"

definition InsertFinish :: "(insert_state, unit) action" where
  "InsertFinish = FlushRowGroup"

section \<open>What a stored row group contains\<close>

text \<open>A page region that holds bytes, padded with zeros to whole pages.\<close>

definition padded_to_pages :: "nat \<Rightarrow> bytes \<Rightarrow> bytes" where
  "padded_to_pages k bs = bs @ replicate (k * kPageSizeBytes - length bs) 0"

definition region_holds :: "(uint32 \<rightharpoonup> bytes) \<Rightarrow> PageRange \<Rightarrow> bytes \<Rightarrow> bool" where
  "region_holds P rng bs = (
     length bs \<le> unat (page_count rng) * kPageSizeBytes \<and>
     unat (page_count rng) * kPageSizeBytes < length bs + kPageSizeBytes \<and>
     unat (start_page_id rng) + unat (page_count rng) < 2 ^ 32 \<and>
     (\<forall>k < unat (page_count rng). P (start_page_id rng + word_of_nat k) =
        Some (page_slice k (padded_to_pages (unat (page_count rng)) bs))))"

definition fixed_bytes :: "('a \<Rightarrow> uint32) \<Rightarrow> 'a list \<Rightarrow> bytes" where
  "fixed_bytes bits vs = concat (map (\<lambda>v. WriteU32 [] (bits v)) vs)"

definition string_offsets :: "string list \<Rightarrow> nat list" where
  "string_offsets ss = map (\<lambda>k. sum_list (map length (take k ss))) [0..<length ss + 1]"

fun column_holds :: "(uint32 \<rightharpoonup> bytes) \<Rightarrow> ColumnFooterEntry \<Rightarrow> cell list \<Rightarrow> bool" where
  "column_holds P (IntEntry e) cells = (\<exists>vs. map fst cells = map VInt vs \<and>
     region_holds P (fe_pages e) (fixed_bytes id vs))"
| "column_holds P (FloatEntry e) cells = (\<exists>vs. map fst cells = map VFloat vs \<and>
     region_holds P (fe_pages e) (fixed_bytes f32_bits vs))"
| "column_holds P (VarcharEntry e) cells = (\<exists>ss. map fst cells = map VString ss \<and>
     sum_list (map length ss) < 2 ^ 31 \<and>
     region_holds P (ve_offsets_pages e) (fixed_bytes word_of_nat (string_offsets ss)) \<and>
     region_holds P (ve_data_pages e) (concat (map bytes_of_string ss)))"

text \<open>The zone map of an entry bounds the valid values, when none of them is a NaN.\<close>

definition valid_ints :: "cell list \<Rightarrow> int32 list" where
  "valid_ints cells = concat (map (\<lambda>(v, b). case v of VInt x \<Rightarrow> if b then [x] else [] | _ \<Rightarrow> []) cells)"

definition valid_floats :: "cell list \<Rightarrow> float32 list" where
  "valid_floats cells = concat (map (\<lambda>(v, b). case v of VFloat x \<Rightarrow> if b then [x] else [] | _ \<Rightarrow> []) cells)"

fun entry_covers :: "ColumnFooterEntry \<Rightarrow> cell list \<Rightarrow> bool" where
  "entry_covers (IntEntry e) cells = int_order.zone_covers (fe_zone_map e) (valid_ints cells)"
| "entry_covers (FloatEntry e) cells =
     (list_all (\<lambda>x. \<not> f32_is_nan x) (valid_floats cells) \<longrightarrow>
      float_order.zone_covers (fe_zone_map e) (valid_floats cells))"
| "entry_covers (VarcharEntry e) cells = True"

definition bitmap_holds :: "bytes \<Rightarrow> nat \<Rightarrow> cell list list \<Rightarrow> bool" where
  "bitmap_holds bm n cellss = (
     length bm = (n + 7) div 8 * length cellss \<and>
     (\<forall>c < length cellss. \<forall>i < n.
        bit (bm ! (c * ((n + 7) div 8) + i div 8)) (i mod 8) = snd (cellss ! c ! i)))"

fun entry_regions :: "ColumnFooterEntry \<Rightarrow> PageRange list" where
  "entry_regions (IntEntry e) = [fe_pages e]"
| "entry_regions (FloatEntry e) = [fe_pages e]"
| "entry_regions (VarcharEntry e) = [ve_offsets_pages e, ve_data_pages e]"

definition region_end :: "PageRange \<Rightarrow> nat" where
  "region_end rng = unat (start_page_id rng) + unat (page_count rng)"

text \<open>
  A row group with the given cells, one list per column. Every region of a column ends
  before the bitmap does, so that the page behind it exists.
\<close>

definition group_holds :: "(uint32 \<rightharpoonup> bytes) \<Rightarrow> RowGroupFooterEntry \<Rightarrow> cell list list \<Rightarrow> bool" where
  "group_holds P rg cellss = (
     0 < unat (rg_row_count rg) \<and> unat (rg_row_count rg) \<le> kRowGroupSize \<and>
     list_all (\<lambda>cells. length cells = unat (rg_row_count rg)) cellss \<and>
     list_all2 (column_holds P) (rg_columns rg) cellss \<and>
     list_all2 entry_covers (rg_columns rg) cellss \<and>
     (\<exists>bm. region_holds P (rg_validity_bitmap_region rg) bm \<and>
        bitmap_holds bm (unat (rg_row_count rg)) cellss) \<and>
     list_all (list_all (\<lambda>rng. region_end rng < region_end (rg_validity_bitmap_region rg) \<and>
         unat (start_page_id rng) \<noteq> 0 \<and> P (word_of_nat (region_end rng)) \<noteq> None)
       \<circ> entry_regions) (rg_columns rg))"

section \<open>Writing regions\<close>

text \<open>What writing new pages keeps: everything below the first free page.\<close>

definition extends :: "DiskManager \<Rightarrow> DiskManager \<Rightarrow> bool" where
  "extends dm dm' = (dm_inv dm' \<and> dm_os dm' = dm_os dm \<and>
     unat (next_free_page_id (dm_header dm)) \<le> unat (next_free_page_id (dm_header dm')) \<and>
     (\<forall>p x. unat p < unat (next_free_page_id (dm_header dm)) \<longrightarrow> dm_page dm p = Some x \<longrightarrow>
        dm_page dm' p = Some x))"

abbreviation next_free :: "DiskManager \<Rightarrow> nat" where
  "next_free dm \<equiv> unat (next_free_page_id (dm_header dm))"

lemma extends_refl: "dm_inv dm \<Longrightarrow> extends dm dm"
  by (simp add: extends_def)

lemma extends_trans: "extends a b \<Longrightarrow> extends b c \<Longrightarrow> extends a c"
  by (auto simp: extends_def)

lemma region_holds_mono:
  assumes "region_holds P rng bs" and "\<And>k. k < unat (page_count rng) \<Longrightarrow>
    P' (start_page_id rng + word_of_nat k) = P (start_page_id rng + word_of_nat k)"
  shows "region_holds P' rng bs"
  using assms by (simp add: region_holds_def)

lemma region_page_unat:
  assumes "region_end rng < 2 ^ 32" and "k < unat (page_count rng)"
  shows "unat (start_page_id rng + word_of_nat k) = unat (start_page_id rng) + k"
  using assms by (simp add: region_end_def unat_word_ariths)

lemma region_holds_extends:
  assumes "region_holds (dm_page dm) rng bs" and "extends dm dm'" and "region_end rng \<le> next_free dm"
  shows "region_holds (dm_page dm') rng bs"
proof (rule region_holds_mono [OF assms(1)])
  fix k
  assume k: "k < unat (page_count rng)"
  have "region_end rng < 2 ^ 32" using assms(1) by (simp add: region_holds_def region_end_def)
  then have "unat (start_page_id rng + word_of_nat k) < next_free dm"
    using region_page_unat [OF _ k] k assms(3) by (simp add: region_end_def)
  then show "dm_page dm' (start_page_id rng + word_of_nat k) = dm_page dm (start_page_id rng + word_of_nat k)"
    using assms(1,2) k by (auto simp: extends_def region_holds_def)
qed

lemma length_padded: "length bs \<le> k * kPageSizeBytes \<Longrightarrow> length (padded_to_pages k bs) = k * kPageSizeBytes"
  by (simp add: padded_to_pages_def)

lemma ceil_div_bounds:
  fixes n d :: nat
  assumes "0 < d"
  shows "n \<le> (n + d - 1) div d * d" and "(n + d - 1) div d * d < n + d"
proof -
  have "(n + d - 1) div d * d + (n + d - 1) mod d = n + d - 1" by (rule div_mult_mod_eq)
  moreover have "(n + d - 1) mod d < d" using assms by simp
  ultimately show "n \<le> (n + d - 1) div d * d" "(n + d - 1) div d * d < n + d"
    using assms by linarith+
qed

lemma pad_and_write_spec:
  assumes inv: "dm_inv dm" and ne: "bs \<noteq> []"
    and room: "next_free dm + (length bs + kPageSizeBytes - 1) div kPageSizeBytes < 2 ^ 32"
  obtains rng dm' where "pad_and_write bs dm = (Inr rng, dm')" "extends dm dm'"
    "region_holds (dm_page dm') rng bs" "unat (start_page_id rng) = next_free dm"
    "next_free dm' = region_end rng" "unat (page_count rng) = (length bs + kPageSizeBytes - 1) div kPageSizeBytes"
    "0 < unat (page_count rng)"
proof -
  let ?k = "(length bs + kPageSizeBytes - 1) div kPageSizeBytes"
  let ?pc = "word_of_nat ?k :: uint32"
  let ?nf = "next_free_page_id (dm_header dm)"
  have k: "unat ?pc = ?k" using room by (simp add: unat_of_nat_small)
  have ps: "kPageSizeBytes = 4096" by (simp add: kPageSizeBytes_def)
  have kpos: "0 < ?k" using ne by (cases bs) (simp_all add: ps div_greater_zero_iff)
  have fit: "length bs \<le> ?k * kPageSizeBytes" "?k * kPageSizeBytes < length bs + kPageSizeBytes"
    using ceil_div_bounds [of kPageSizeBytes "length bs"] by (simp_all add: ps)
  have pad: "take (?k * kPageSizeBytes) bs @ replicate (?k * kPageSizeBytes - length bs) 0 = padded_to_pages ?k bs"
    using fit(1) by (simp add: padded_to_pages_def)
  have "?pc \<noteq> 0" using k kpos by (metis less_irrefl unat_0)
  moreover have "unat ?nf + unat ?pc < 2 ^ 32" using room k by simp
  ultimately obtain dm1 where a: "AllocatePages ?pc dm = (Inr ?nf, dm1)" "dm_inv dm1" "pages_kept dm dm1"
    "next_free_page_id (dm_header dm1) = ?nf + ?pc" "dm_os dm1 = dm_os dm"
    by (rule AllocatePages_spec [OF inv])
  have nf0: "?nf \<noteq> 0" using inv by (simp add: dm_inv_def)
  obtain dm2 where w: "WritePages ?nf (padded_to_pages ?k bs) dm1 = (Inr (), dm2)" "dm_inv dm2"
    "dm_header dm2 = dm_header dm1" "dm_os dm2 = dm_os dm1"
    "\<And>p i. i < ?k \<Longrightarrow> unat p = unat ?nf + i \<Longrightarrow> dm_page dm2 p = Some (page_slice i (padded_to_pages ?k bs))"
    "\<And>p x. dm_page dm1 p = Some x \<Longrightarrow> unat p < unat ?nf \<or> unat ?nf + ?k \<le> unat p \<Longrightarrow> dm_page dm2 p = Some x"
    by (rule WritePages_spec [OF a(2) nf0 length_padded [OF fit(1)] kpos]) blast
  let ?rng = "\<lparr>start_page_id = ?nf, page_count = ?pc\<rparr>"
  have res: "pad_and_write bs dm = (Inr ?rng, dm2)"
    using a(1) w(1) pad k by (simp add: pad_and_write_def Let_def sbind_def)
  have nf2: "next_free dm2 = unat ?nf + ?k"
    using room k by (simp add: w(3) a(4) unat_word_ariths)
  have "extends dm dm2"
    using w(2,4,6) a(3,5) nf2 by (auto simp: extends_def pages_kept_def)
  moreover have "region_holds (dm_page dm2) ?rng bs"
    using fit room k w(5) by (auto simp: region_holds_def unat_word_ariths)
  ultimately show thesis
    using that [OF res] nf2 k kpos by (simp add: region_end_def)
qed

section \<open>Serialized columns\<close>

lemma rfold_upt_Suc: "rfold f [0..<Suc k] s = rbind (rfold f [0..<k] s) (f k)"
  by (cases "rfold f [0..<k] s"; simp add: rfold_append) (cases "f k (projr (rfold f [0..<k] s))"; simp)

lemma fixed_bytes_snoc: "fixed_bytes bits (vs @ [v]) = WriteU32 (fixed_bytes bits vs) (bits v)"
  by (simp add: fixed_bytes_def WriteU32_eq)

lemma length_fixed_bytes [simp]: "length (fixed_bytes bits vs) = 4 * length vs"
  by (induction vs) (simp_all add: fixed_bytes_def)

lemma SerializeFixedWidth_spec:
  assumes "fw_inv c" and "n = length (fw_values c)"
  shows "SerializeFixedWidth bits c n = Inr (fixed_bytes bits (fw_values c))"
proof -
  have "rfold (\<lambda>i bytes. rbind (fw_GetValue c i) (\<lambda>v. Inr (WriteU32 bytes (bits v)))) [0..<k] [] =
      Inr (fixed_bytes bits (take k (fw_values c)))" if "k \<le> n" for k
    using that
  proof (induction k)
    case (Suc k)
    then show ?case
      using assms(2) by (simp add: rfold_append fw_GetValue_def take_Suc_conv_app_nth fixed_bytes_snoc)
  qed (simp add: fixed_bytes_def)
  from this [of n] assms(2) show ?thesis
    by (simp add: SerializeFixedWidth_def)
qed

lemma SerializeVarchar_spec:
  assumes inv: "vc_inv c" and n: "n = length (vc_cells c)"
  defines "ss \<equiv> map fst (vc_cells c)"
  shows "SerializeVarchar c n = Inr (fixed_bytes word_of_nat (string_offsets ss), concat (map bytes_of_string ss))"
proof -
  let ?sum = "\<lambda>k. sum_list (map length (take k ss))"
  let ?offs = "\<lambda>k. fixed_bytes (word_of_nat :: nat \<Rightarrow> uint32) (map ?sum [0..<Suc k])"
  have "rfold (\<lambda>i (offsets_bytes, data_bytes, running_offset).
         rbind (vc_GetValue c i) (\<lambda>v.
           let running_offset = running_offset + word_of_nat (length v)
           in Inr (WriteU32 offsets_bytes running_offset, data_bytes @ bytes_of_string v, running_offset)))
       [0..<k] (WriteU32 [] 0, [], 0 :: uint32) =
      Inr (?offs k, concat (map bytes_of_string (take k ss)), word_of_nat (?sum k))" if "k \<le> n" for k
    using that
  proof (induction k)
    case 0
    then show ?case by (simp add: fixed_bytes_def)
  next
    case (Suc k)
    have "vc_GetValue c k = Inr (ss ! k)" and tk: "take (Suc k) ss = take k ss @ [ss ! k]"
      using Suc.prems n vc_GetValue_cells [OF inv, of k]
      by (simp_all add: ss_def take_Suc_conv_app_nth)
    moreover have "?offs (Suc k) = WriteU32 (?offs k) (word_of_nat (?sum (Suc k)))"
      using fixed_bytes_snoc [of word_of_nat "map ?sum [0..<Suc k]" "?sum (Suc k)"] by simp
    ultimately show ?case
      using Suc by (simp add: rfold_upt_Suc Let_def tk del: upt_Suc)
  qed
  from this [of n] show ?thesis
    by (simp add: SerializeVarchar_def string_offsets_def n ss_def del: upt_Suc)
qed

section \<open>The shared bitmap\<close>

lemma set_bit_at_spec:
  assumes "j < length bs" and "b < 8"
  shows "\<exists>bs'. set_bit_at j b bs = Inr bs' \<and> length bs' = length bs \<and>
    (\<forall>k < length bs. \<forall>a < 8. bit (bs' ! k) a \<longleftrightarrow> bit (bs ! k) a \<or> (k = j \<and> a = b))"
  using assms by (auto simp: set_bit_at_def nth_list_update bit_simps bit_1_iff simp flip: push_bit_eq_mult)

lemma bitmap_rows:
  assumes "col_inv col" and "n = length (col_cells col)" and "base + (n + 7) div 8 \<le> length bs"
  shows "\<exists>bs'. rfold (\<lambda>row bytes. rbind (col_IsNull col row) (\<lambda>is_null. if is_null then Inr bytes
      else set_bit_at (base + row div 8) (row mod 8) bytes)) [0..<n] bs = Inr bs' \<and> length bs' = length bs \<and>
    (\<forall>k < length bs. \<forall>a < 8. bit (bs' ! k) a \<longleftrightarrow> bit (bs ! k) a \<or>
       (\<exists>i < n. snd (col_cells col ! i) \<and> k = base + i div 8 \<and> a = i mod 8))"
proof -
  let ?step = "\<lambda>row bytes. rbind (col_IsNull col row) (\<lambda>is_null. if is_null then Inr bytes
      else set_bit_at (base + row div 8) (row mod 8) bytes)"
  have "\<exists>bs'. rfold ?step [0..<m] bs = Inr bs' \<and> length bs' = length bs \<and>
    (\<forall>k < length bs. \<forall>a < 8. bit (bs' ! k) a \<longleftrightarrow> bit (bs ! k) a \<or>
       (\<exists>i < m. snd (col_cells col ! i) \<and> k = base + i div 8 \<and> a = i mod 8))" if "m \<le> n" for m
    using that
  proof (induction m)
    case (Suc m)
    then obtain bs' where bs': "rfold ?step [0..<m] bs = Inr bs'" "length bs' = length bs"
      "\<forall>k < length bs. \<forall>a < 8. bit (bs' ! k) a \<longleftrightarrow> bit (bs ! k) a \<or>
         (\<exists>i < m. snd (col_cells col ! i) \<and> k = base + i div 8 \<and> a = i mod 8)" by auto
    have null: "col_IsNull col m = Inr (\<not> snd (col_cells col ! m))"
      using Suc.prems assms(1,2) by (simp add: col_IsNull_cells)
    show ?case
    proof (cases "snd (col_cells col ! m)")
      case False
      with bs' null show ?thesis by (auto simp: rfold_append less_Suc_eq)
    next
      case True
      have "base + m div 8 < length bs'"
        using Suc.prems assms(3) bs'(2) by linarith
      from set_bit_at_spec [OF this, of "m mod 8"] obtain bs'' where
        "set_bit_at (base + m div 8) (m mod 8) bs' = Inr bs''" "length bs'' = length bs'"
        "\<forall>k < length bs'. \<forall>a < 8. bit (bs'' ! k) a \<longleftrightarrow> bit (bs' ! k) a \<or> (k = base + m div 8 \<and> a = m mod 8)"
        by auto
      with True bs' null show ?thesis
        by (auto simp: rfold_append less_Suc_eq)
    qed
  qed simp
  from this [of n] show ?thesis by simp
qed

lemma bitmap_position:
  fixes c i c' i' w :: nat
  assumes "c * w + i div 8 = c' * w + i' div 8" and "i mod 8 = i' mod 8" and "i div 8 < w" and "i' div 8 < w"
  shows "c = c'" and "i = i'"
proof -
  show c: "c = c'"
    using assms(1,3,4) by (metis div_mult_self3 div_less add_0_right less_nat_zero_code not_gr_zero)
  with assms(1) have "i div 8 = i' div 8" by simp
  with assms(2) show "i = i'" by (metis div_mult_mod_eq)
qed

lemma BuildValidityBitmapBytes_spec:
  assumes "list_all (\<lambda>c. col_inv c \<and> length (col_cells c) = n) cols"
  shows "\<exists>bm. BuildValidityBitmapBytes cols n = Inr bm \<and> bitmap_holds bm n (map col_cells cols)"
proof -
  let ?w = "(n + 7) div 8"
  let ?step = "\<lambda>col. rfold (\<lambda>row bytes. rbind (col_IsNull (cols ! col) row) (\<lambda>is_null. if is_null then Inr bytes
      else set_bit_at (col * ?w + row div 8) (row mod 8) bytes)) [0..<n]"
  have "\<exists>bm. rfold ?step [0..<m] (replicate (?w * length cols) 0) = Inr bm \<and> length bm = ?w * length cols \<and>
      (\<forall>k < length bm. \<forall>a < 8. bit (bm ! k) a \<longleftrightarrow>
         (\<exists>c < m. \<exists>i < n. snd (col_cells (cols ! c) ! i) \<and> k = c * ?w + i div 8 \<and> a = i mod 8))"
    if "m \<le> length cols" for m
    using that
  proof (induction m)
    case (Suc m)
    then obtain bm where bm: "rfold ?step [0..<m] (replicate (?w * length cols) 0) = Inr bm"
      "length bm = ?w * length cols"
      "\<forall>k < length bm. \<forall>a < 8. bit (bm ! k) a \<longleftrightarrow>
         (\<exists>c < m. \<exists>i < n. snd (col_cells (cols ! c) ! i) \<and> k = c * ?w + i div 8 \<and> a = i mod 8)" by auto
    have "col_inv (cols ! m)" "n = length (col_cells (cols ! m))"
      using assms Suc.prems by (simp_all add: list_all_length)
    moreover have "m * ?w + ?w \<le> length bm"
      using Suc.prems mult_le_mono1 [of "Suc m" "length cols" ?w] by (simp add: bm(2) mult.commute)
    ultimately obtain bm' where "?step m bm = Inr bm'" "length bm' = length bm"
      "\<forall>k < length bm. \<forall>a < 8. bit (bm' ! k) a \<longleftrightarrow> bit (bm ! k) a \<or>
         (\<exists>i < n. snd (col_cells (cols ! m) ! i) \<and> k = m * ?w + i div 8 \<and> a = i mod 8)"
      using bitmap_rows [of "cols ! m" n "m * ?w" bm] by blast
    with bm show ?case
      by (simp only: rfold_upt_Suc rbind.simps) (auto simp: less_Suc_eq)
  qed simp
  from this [of "length cols"] obtain bm where
    bm: "BuildValidityBitmapBytes cols n = Inr bm" "length bm = ?w * length cols"
      "\<forall>k < length bm. \<forall>a < 8. bit (bm ! k) a \<longleftrightarrow>
         (\<exists>c < length cols. \<exists>i < n. snd (col_cells (cols ! c) ! i) \<and> k = c * ?w + i div 8 \<and> a = i mod 8)"
    by (auto simp: BuildValidityBitmapBytes_def Let_def)
  have "bit (bm ! (c * ?w + i div 8)) (i mod 8) = snd (col_cells (cols ! c) ! i)"
    if "c < length cols" "i < n" for c i
  proof -
    have w: "j div 8 < ?w" if "j < n" for j using that by linarith
    have "c * ?w + i div 8 < Suc c * ?w" using w [OF that(2)] by simp
    also have "\<dots> \<le> length cols * ?w" using that(1) by (intro mult_le_mono1) simp
    finally have "c * ?w + i div 8 < length bm" by (simp add: bm(2) mult.commute)
    then have "bit (bm ! (c * ?w + i div 8)) (i mod 8) \<longleftrightarrow>
        (\<exists>c' < length cols. \<exists>i' < n. snd (col_cells (cols ! c') ! i') \<and>
           c * ?w + i div 8 = c' * ?w + i' div 8 \<and> i mod 8 = i' mod 8)"
      using bm(3) by simp
    also have "\<dots> \<longleftrightarrow> snd (col_cells (cols ! c) ! i)"
      using that bitmap_position [of c ?w i] w by (metis (no_types, lifting))
    finally show ?thesis .
  qed
  with bm(1,2) show ?thesis
    by (auto simp: bitmap_holds_def)
qed

section \<open>Flushing a column\<close>

lemma valid_ints_IntColumn: "valid_ints (col_cells (IntColumn c)) = valid_values (fw_cells c)"
proof -
  have "concat (map (\<lambda>(v, b). case v of VInt x \<Rightarrow> if b then [x] else [] | _ \<Rightarrow> [])
      (map (\<lambda>(v, b). (VInt v, b)) cs)) = valid_values cs" for cs :: "(int32 \<times> bool) list"
    by (induction cs) (auto simp: valid_values_def)
  then show ?thesis by (simp add: valid_ints_def)
qed

lemma valid_floats_FloatColumn: "valid_floats (col_cells (FloatColumn c)) = valid_values (fw_cells c)"
proof -
  have "concat (map (\<lambda>(v, b). case v of VFloat x \<Rightarrow> if b then [x] else [] | _ \<Rightarrow> [])
      (map (\<lambda>(v, b). (VFloat v, b)) cs)) = valid_values cs" for cs :: "(float32 \<times> bool) list"
    by (induction cs) (auto simp: valid_values_def)
  then show ?thesis by (simp add: valid_floats_def)
qed

text \<open>
  A column is flushable when its rows fit a row group and, for strings, when there is at
  least one byte of data: \<open>AllocatePages\<close> rejects an empty region.
\<close>

fun has_data :: "ColumnVariant \<Rightarrow> bool" where
  "has_data (StringColumn c) = (\<exists>s \<in> set (map fst (vc_cells c)). s \<noteq> [])"
| "has_data _ = True"

definition flushable :: "nat \<Rightarrow> ColumnVariant \<Rightarrow> bool" where
  "flushable n col = (col_inv col \<and> length (col_cells col) = n \<and> has_data col)"

text \<open>An upper bound on the pages a column of a row group takes.\<close>

definition kColumnPages :: nat where "kColumnPages = 2 ^ 20"

definition flushed :: "DiskManager \<Rightarrow> DiskManager \<Rightarrow> ColumnFooterEntry \<Rightarrow> cell list \<Rightarrow> bool" where
  "flushed dm dm' entry cells = (column_holds (dm_page dm') entry cells \<and> entry_covers entry cells \<and>
     entry_wf entry \<and> (\<forall>rng \<in> set (entry_regions entry).
       next_free dm \<le> unat (start_page_id rng) \<and> region_end rng \<le> next_free dm'))"

lemma flush_fixed:
  assumes inv: "dm_inv dm" and c: "fw_inv c" "length (fw_values c) = n" and n: "0 < n" "n \<le> kRowGroupSize"
    and room: "next_free dm + kColumnPages < 2 ^ 32"
  obtains rng dm' where "SerializeFixedWidth bits c n = Inr (fixed_bytes bits (fw_values c))"
    "pad_and_write (fixed_bytes bits (fw_values c)) dm = (Inr rng, dm')" "extends dm dm'"
    "next_free dm' \<le> next_free dm + kColumnPages" "region_holds (dm_page dm') rng (fixed_bytes bits (fw_values c))"
    "unat (start_page_id rng) = next_free dm" "region_end rng = next_free dm'"
proof -
  have ne: "fixed_bytes bits (fw_values c) \<noteq> []"
    using c(2) n(1) by (metis length_fixed_bytes length_0_conv mult_is_0 not_gr_zero zero_neq_numeral)
  have pages: "(length (fixed_bytes bits (fw_values c)) + kPageSizeBytes - 1) div kPageSizeBytes \<le> kColumnPages"
    using n(2) c(2) by (simp add: size_consts kColumnPages_def)
  then have "next_free dm + (length (fixed_bytes bits (fw_values c)) + kPageSizeBytes - 1) div kPageSizeBytes < 2 ^ 32"
    using room by linarith
  from pad_and_write_spec [OF inv ne this] obtain rng dm' where
    "pad_and_write (fixed_bytes bits (fw_values c)) dm = (Inr rng, dm')" "extends dm dm'"
    "region_holds (dm_page dm') rng (fixed_bytes bits (fw_values c))" "unat (start_page_id rng) = next_free dm"
    "next_free dm' = region_end rng"
    "unat (page_count rng) = (length (fixed_bytes bits (fw_values c)) + kPageSizeBytes - 1) div kPageSizeBytes"
    by metis
  then show thesis
    using that SerializeFixedWidth_spec [OF c(1)] c(2) pages by (simp add: region_end_def)
qed

lemma fst_fw_cells: "fw_inv c \<Longrightarrow> map fst (fw_cells c) = fw_values c"
  by (simp add: fw_cells_def fw_inv_def)

lemma flush_int_column:
  assumes inv: "dm_inv dm" and col: "flushable n (IntColumn c)" and n: "0 < n" "n \<le> kRowGroupSize"
    and room: "next_free dm + kColumnPages < 2 ^ 32"
  shows "\<exists>entry dm'. flush_column n (IntColumn c) dm = (Inr entry, dm') \<and> extends dm dm' \<and>
    next_free dm' \<le> next_free dm + kColumnPages \<and> flushed dm dm' entry (col_cells (IntColumn c))"
proof -
  from col have c: "fw_inv c" "length (fw_values c) = n" by (auto simp: flushable_def)
  obtain rng dm' where d: "SerializeFixedWidth id c n = Inr (fixed_bytes id (fw_values c))"
    "pad_and_write (fixed_bytes id (fw_values c)) dm = (Inr rng, dm')" "extends dm dm'"
    "next_free dm' \<le> next_free dm + kColumnPages" "region_holds (dm_page dm') rng (fixed_bytes id (fw_values c))"
    "unat (start_page_id rng) = next_free dm" "region_end rng = next_free dm'"
    by (rule flush_fixed [OF inv c n room])
  obtain e where e: "fe_Build word_sless 0 c rng = Inr e" "fe_pages e = rng"
    "fe_zone_map e = fold (\<lambda>v z. zm_Update word_sless z v) (valid_values (fw_cells c)) (EmptyZoneMap 0)"
    using fe_Build_eq [OF c(1)] by auto
  have "int_order.zone_wf 0 (fe_zone_map e)"
    by (rule fe_Build_wf [OF c(1) int_order.strict_order_axioms e(1)])
  moreover have "int_order.zone_covers (fe_zone_map e) (valid_values (fw_cells c))"
    using int_order.zone_covers_fold [of "[]" "valid_values (fw_cells c)" "EmptyZoneMap 0"]
      int_order.zone_covers_empty by (simp add: e(3) list_all_iff)
  moreover have "column_holds (dm_page dm') (IntEntry e) (col_cells (IntColumn c))"
    using d(5) e(2) by (auto simp: fst_fw_cells [OF c(1), symmetric] intro!: exI [of _ "fw_values c"])
  ultimately have "flushed dm dm' (IntEntry e) (col_cells (IntColumn c))"
    using d(6,7) e(2) valid_ints_IntColumn [of c] by (simp add: flushed_def)
  moreover have "flush_column n (IntColumn c) dm = (Inr (IntEntry e), dm')"
    using d(1,2) e(1) by (simp add: flush_column_def sbind_def)
  ultimately show ?thesis using d(3,4) by blast
qed

lemma flush_float_column:
  assumes inv: "dm_inv dm" and col: "flushable n (FloatColumn c)" and n: "0 < n" "n \<le> kRowGroupSize"
    and room: "next_free dm + kColumnPages < 2 ^ 32"
  shows "\<exists>entry dm'. flush_column n (FloatColumn c) dm = (Inr entry, dm') \<and> extends dm dm' \<and>
    next_free dm' \<le> next_free dm + kColumnPages \<and> flushed dm dm' entry (col_cells (FloatColumn c))"
proof -
  from col have c: "fw_inv c" "length (fw_values c) = n" by (auto simp: flushable_def)
  obtain rng dm' where d: "SerializeFixedWidth f32_bits c n = Inr (fixed_bytes f32_bits (fw_values c))"
    "pad_and_write (fixed_bytes f32_bits (fw_values c)) dm = (Inr rng, dm')" "extends dm dm'"
    "next_free dm' \<le> next_free dm + kColumnPages"
    "region_holds (dm_page dm') rng (fixed_bytes f32_bits (fw_values c))"
    "unat (start_page_id rng) = next_free dm" "region_end rng = next_free dm'"
    by (rule flush_fixed [OF inv c n room])
  obtain e where e: "fe_Build f32_less f32_zero c rng = Inr e" "fe_pages e = rng"
    "fe_zone_map e = fold (\<lambda>v z. zm_Update f32_less z v) (valid_values (fw_cells c)) (EmptyZoneMap f32_zero)"
    using fe_Build_eq [OF c(1)] by auto
  have "float_order.zone_wf f32_zero (fe_zone_map e)"
    by (rule fe_Build_wf [OF c(1) float_order.strict_order_axioms e(1)])
  moreover have "float_order.zone_covers (fe_zone_map e) (valid_values (fw_cells c))"
    if "list_all (\<lambda>x. \<not> f32_is_nan x) (valid_values (fw_cells c))"
    using float_order.zone_covers_fold [of "[]" "valid_values (fw_cells c)" "EmptyZoneMap f32_zero"] that
      float_order.zone_covers_empty by (simp add: e(3))
  moreover have "column_holds (dm_page dm') (FloatEntry e) (col_cells (FloatColumn c))"
    using d(5) e(2) by (auto simp: fst_fw_cells [OF c(1), symmetric] intro!: exI [of _ "fw_values c"])
  ultimately have "flushed dm dm' (FloatEntry e) (col_cells (FloatColumn c))"
    using d(6,7) e(2) valid_floats_FloatColumn [of c] by (simp add: flushed_def)
  moreover have "flush_column n (FloatColumn c) dm = (Inr (FloatEntry e), dm')"
    using d(1,2) e(1) by (simp add: flush_column_def sbind_def)
  ultimately show ?thesis using d(3,4) by blast
qed

lemma flush_string_column:
  assumes inv: "dm_inv dm" and col: "flushable n (StringColumn c)" and n: "0 < n" "n \<le> kRowGroupSize"
    and room: "next_free dm + kColumnPages < 2 ^ 32"
  shows "\<exists>entry dm'. flush_column n (StringColumn c) dm = (Inr entry, dm') \<and> extends dm dm' \<and>
    next_free dm' \<le> next_free dm + kColumnPages \<and> flushed dm dm' entry (col_cells (StringColumn c))"
proof -
  from col have c: "vc_inv c" "length (vc_cells c) = n" by (simp_all add: flushable_def)
  let ?ss = "map fst (vc_cells c)"
  let ?ob = "fixed_bytes (word_of_nat :: nat \<Rightarrow> uint32) (string_offsets ?ss)" and ?db = "concat (map bytes_of_string ?ss)"
  have sum: "sum_list (map length ?ss) < 2 ^ 31"
    using vc_weights [OF c(1)] c(1) by (simp add: vc_inv_def comp_def)
  have ldb: "length ?db = sum_list (map length ?ss)"
    by (simp add: length_concat comp_def)
  have lob: "length ?ob = 4 * (n + 1)" using c(2) by (simp add: string_offsets_def)
  have ne: "?ob \<noteq> []" using lob by (metis add_is_0 list.size(3) mult_is_0 one_neq_zero zero_neq_numeral)
  have ne2: "?db \<noteq> []"
    using col by (auto simp: flushable_def bytes_of_string_def)
  have po: "(length ?ob + kPageSizeBytes - 1) div kPageSizeBytes \<le> 11"
    unfolding lob using n(2) by (simp add: size_consts)
  have pd: "(length ?db + kPageSizeBytes - 1) div kPageSizeBytes \<le> 2 ^ 19 + 1"
    unfolding ldb using sum by (simp add: size_consts)
  have "next_free dm + (length ?ob + kPageSizeBytes - 1) div kPageSizeBytes < 2 ^ 32"
    using po room by (simp add: kColumnPages_def)
  from pad_and_write_spec [OF inv ne this] obtain r1 dm1 where
    d1: "pad_and_write ?ob dm = (Inr r1, dm1)" "extends dm dm1" "region_holds (dm_page dm1) r1 ?ob"
      "unat (start_page_id r1) = next_free dm" "next_free dm1 = region_end r1" "unat (page_count r1) \<le> 11"
    using po by (metis (no_types, lifting))
  have inv1: "dm_inv dm1" using d1(2) by (simp add: extends_def)
  have "next_free dm1 + (length ?db + kPageSizeBytes - 1) div kPageSizeBytes < 2 ^ 32"
    using pd room d1(4-6) by (simp add: kColumnPages_def region_end_def)
  from pad_and_write_spec [OF inv1 ne2 this] obtain r2 dm2 where
    d2: "pad_and_write ?db dm1 = (Inr r2, dm2)" "extends dm1 dm2" "region_holds (dm_page dm2) r2 ?db"
      "unat (start_page_id r2) = next_free dm1" "next_free dm2 = region_end r2" "unat (page_count r2) \<le> 2 ^ 19 + 1"
    using pd by (metis (no_types, lifting))
  obtain e where e: "ve_Build c r1 r2 = Inr e" "ve_offsets_pages e = r1" "ve_data_pages e = r2"
    using ve_Build_eq [OF c(1)] by auto
  have keep: "region_holds (dm_page dm2) r1 ?ob"
    using region_holds_extends [OF d1(3) d2(2)] d1(5) by simp
  have "map fst (col_cells (StringColumn c)) = map VString ?ss" by auto
  then have "column_holds (dm_page dm2) (VarcharEntry e) (col_cells (StringColumn c))"
    using keep d2(3) sum e(2,3) unfolding column_holds.simps by blast
  then have "flushed dm dm2 (VarcharEntry e) (col_cells (StringColumn c))"
    using ve_Build_wf [OF c(1) e(1)] d1(4,5) d2(4,5) e(2,3)
    by (simp add: flushed_def region_end_def del: column_holds.simps)
  moreover have "flush_column n (StringColumn c) dm = (Inr (VarcharEntry e), dm2)"
    using d1(1) d2(1) e(1) SerializeVarchar_spec [OF c(1), of n] c(2)
    by (simp add: flush_column_def sbind_def)
  moreover have "next_free dm2 \<le> next_free dm + kColumnPages"
    using d1(4-6) d2(4-6) by (simp add: region_end_def kColumnPages_def)
  ultimately show ?thesis using extends_trans [OF d1(2) d2(2)] by blast
qed

lemma flush_column_spec:
  assumes "dm_inv dm" and "flushable n col" and "0 < n" "n \<le> kRowGroupSize"
    and "next_free dm + kColumnPages < 2 ^ 32"
  shows "\<exists>entry dm'. flush_column n col dm = (Inr entry, dm') \<and> extends dm dm' \<and>
    next_free dm' \<le> next_free dm + kColumnPages \<and> flushed dm dm' entry (col_cells col)"
  using assms flush_int_column flush_float_column flush_string_column by (cases col) blast+

section \<open>Flushing a row group\<close>

lemma column_holds_extends:
  assumes "column_holds (dm_page dm) entry cells" and "extends dm dm'"
    and "\<forall>rng \<in> set (entry_regions entry). region_end rng \<le> next_free dm"
  shows "column_holds (dm_page dm') entry cells"
  using assms region_holds_extends [OF _ assms(2)] by (cases entry) fastforce+

lemma flushed_mono:
  assumes "flushed b c entry cells" and "extends a b" and "extends c d"
  shows "flushed a d entry cells"
  using assms column_holds_extends [OF _ assms(3), of entry cells]
  by (fastforce simp: flushed_def extends_def)

lemma flush_columns_spec:
  assumes "dm_inv dm" and "list_all (flushable n) cols" and "0 < n" "n \<le> kRowGroupSize"
    and "next_free dm + length cols * kColumnPages < 2 ^ 32"
  shows "\<exists>entries dm'. smap (flush_column n) cols dm = (Inr entries, dm') \<and> extends dm dm' \<and>
    next_free dm' \<le> next_free dm + length cols * kColumnPages \<and>
    list_all2 (flushed dm dm') entries (map col_cells cols)"
  using assms
proof (induction cols arbitrary: dm)
  case Nil
  then show ?case by (simp add: extends_refl)
next
  case (Cons col cols)
  from Cons.prems have "next_free dm + kColumnPages < 2 ^ 32" by simp
  with Cons.prems flush_column_spec [of dm n col] obtain entry dm1 where
    d1: "flush_column n col dm = (Inr entry, dm1)" "extends dm dm1"
      "next_free dm1 \<le> next_free dm + kColumnPages" "flushed dm dm1 entry (col_cells col)" by auto
  moreover from d1(2) have "dm_inv dm1" by (simp add: extends_def)
  ultimately obtain entries dm2 where
    d2: "smap (flush_column n) cols dm1 = (Inr entries, dm2)" "extends dm1 dm2"
      "next_free dm2 \<le> next_free dm1 + length cols * kColumnPages"
      "list_all2 (flushed dm1 dm2) entries (map col_cells cols)"
    using Cons.IH [of dm1] Cons.prems by auto
  have "flushed dm dm2 entry (col_cells col)"
    by (rule flushed_mono [OF d1(4) extends_refl d2(2)]) (rule Cons.prems(1))
  moreover have "list_all2 (flushed dm dm2) entries (map col_cells cols)"
  proof (rule list_all2_mono [OF d2(4)])
    have "extends dm2 dm2" using d2(2) by (simp add: extends_def)
    then show "flushed dm dm2 e cells" if "flushed dm1 dm2 e cells" for e cells
      by (rule flushed_mono [OF that d1(2)])
  qed
  ultimately show ?case
    using d1 d2 extends_trans [OF d1(2) d2(2)] by (simp add: sbind_def)
qed

lemma dm_page_below:
  assumes "dm_page dm q \<noteq> None" and "unat p \<le> unat q" and "p \<noteq> 0"
  shows "dm_page dm p \<noteq> None"
proof -
  have "(unat q + 1) * kPageSizeBytes \<le> length (dm_file dm)"
    using assms(1) by (auto simp: dm_page_def split: if_splits)
  moreover have "(unat p + 1) * kPageSizeBytes \<le> (unat q + 1) * kPageSizeBytes"
    using assms(2) by (intro mult_le_mono1) simp
  ultimately have "(unat p + 1) * kPageSizeBytes \<le> length (dm_file dm)" by (rule order_trans [rotated])
  then show ?thesis
    using assms(3) by (simp add: dm_page_def kHeaderPageId_def)
qed

text \<open>Every page of a region, and every page before its last one, exists.\<close>

lemma region_pages_exist:
  assumes "region_holds (dm_page dm) rng bs" and "0 < unat (page_count rng)"
    and "0 < k" and "k < region_end rng"
  shows "dm_page dm (word_of_nat k) \<noteq> None"
proof -
  let ?j = "unat (page_count rng) - 1"
  let ?q = "start_page_id rng + word_of_nat ?j"
  have bound: "region_end rng < 2 ^ 32" using assms(1) by (simp add: region_holds_def region_end_def)
  have "?j < unat (page_count rng)" using assms(2) by simp
  then have "dm_page dm ?q \<noteq> None"
    using assms(1) unfolding region_holds_def by (metis option.distinct(1))
  moreover have "unat ?q = region_end rng - 1"
    using region_page_unat [OF bound, of ?j] assms(2) by (simp add: region_end_def)
  moreover have k: "unat (word_of_nat k :: uint32) = k"
    using assms(4) bound by (intro unat_of_nat_small) simp
  moreover have "word_of_nat k \<noteq> (0 :: uint32)"
    using k assms(3) by (metis less_irrefl unat_0)
  ultimately show ?thesis
    using assms(4) dm_page_below [of dm ?q "word_of_nat k"] by simp
qed

lemma group_holds_extends:
  assumes "group_holds (dm_page dm) rg cellss" and "extends dm dm'"
    and "region_end (rg_validity_bitmap_region rg) \<le> next_free dm"
  shows "group_holds (dm_page dm') rg cellss"
proof -
  let ?E = "region_end (rg_validity_bitmap_region rg)"
  let ?ok = "\<lambda>P. list_all (\<lambda>rng. region_end rng < ?E \<and> unat (start_page_id rng) \<noteq> 0 \<and>
      P (word_of_nat (region_end rng)) \<noteq> None) \<circ> entry_regions"
  from assms(1) have small: "?E < 2 ^ 32"
    by (auto simp: group_holds_def region_holds_def region_end_def)
  have reg: "list_all (?ok (dm_page dm)) (rg_columns rg)" using assms(1) by (simp add: group_holds_def)
  have "dm_page dm' (word_of_nat (region_end rng)) \<noteq> None"
    if "dm_page dm (word_of_nat (region_end rng)) \<noteq> None" "region_end rng < ?E" for rng
  proof -
    have "unat (word_of_nat (region_end rng) :: uint32) < next_free dm"
      using that(2) assms(3) small by (simp add: unat_of_nat_small)
    with that(1) assms(2) show ?thesis by (auto simp: extends_def)
  qed
  with reg have "list_all (?ok (dm_page dm')) (rg_columns rg)"
    by (auto simp: list_all_iff)
  moreover have "list_all2 (column_holds (dm_page dm')) (rg_columns rg) cellss"
  proof (rule list.rel_mono_strong)
    show "list_all2 (column_holds (dm_page dm)) (rg_columns rg) cellss"
      using assms(1) by (simp add: group_holds_def)
    fix entry cells
    assume "entry \<in> set (rg_columns rg)" "column_holds (dm_page dm) entry cells"
    then show "column_holds (dm_page dm') entry cells"
      using reg assms(3) by (intro column_holds_extends [OF _ assms(2)]) (fastforce simp: list_all_iff)+
  qed
  moreover have "\<exists>bm. region_holds (dm_page dm') (rg_validity_bitmap_region rg) bm \<and>
      bitmap_holds bm (unat (rg_row_count rg)) cellss"
    using assms(1) region_holds_extends [OF _ assms(2,3)] unfolding group_holds_def by blast
  ultimately show ?thesis
    using assms(1) by (simp add: group_holds_def)
qed

lemma list_all2_conj_split:
  "list_all2 (\<lambda>x y. P x y \<and> Q x y) xs ys \<longleftrightarrow> list_all2 P xs ys \<and> list_all2 Q xs ys"
  by (auto simp: list_all2_conv_all_nth)

lemma flushed_group:
  fixes t :: uint32
  assumes entries: "list_all2 (flushed dm dm1) entries cellss" and inv: "dm_inv dm" and ext: "extends dm1 dm2"
    and bm: "region_holds (dm_page dm2) rng bm" "bitmap_holds bm n cellss" "0 < unat (page_count rng)"
      "unat (start_page_id rng) = next_free dm1" "next_free dm2 = region_end rng"
    and n: "0 < n" "n \<le> kRowGroupSize" "list_all (\<lambda>cells. length cells = n) cellss"
  defines "rg \<equiv> \<lparr>rg_table_id = t, rg_row_count = word_of_nat n, rg_validity_bitmap_region = rng, rg_columns = entries\<rparr>"
  shows "group_holds (dm_page dm2) rg cellss" and "list_all entry_wf entries"
proof -
  have rc: "unat (rg_row_count rg) = n"
    using n(2) by (simp add: rg_def kRowGroupSize_def unat_of_nat_small)
  have nf: "0 < next_free dm" using inv by (simp add: dm_inv_def unat_gt_0)
  have regs: "region_end r < region_end rng \<and> unat (start_page_id r) \<noteq> 0 \<and>
      dm_page dm2 (word_of_nat (region_end r)) \<noteq> None"
    if e: "e \<in> set entries" and mem: "r \<in> set (entry_regions e)" for e r
  proof -
    obtain i where "i < length entries" "entries ! i = e" using e by (auto simp: in_set_conv_nth)
    then have "flushed dm dm1 e (cellss ! i)"
      using entries by (auto simp: list_all2_conv_all_nth)
    with mem have r: "next_free dm \<le> unat (start_page_id r)" "region_end r \<le> next_free dm1"
      by (auto simp: flushed_def)
    have "region_end r < region_end rng" using r(2) bm(3,4) by (simp add: region_end_def)
    moreover have "0 < region_end r" using r(1) nf by (simp add: region_end_def)
    ultimately show ?thesis
      using region_pages_exist [OF bm(1,3), of "region_end r"] r(1) nf by simp
  qed
  have "list_all2 (column_holds (dm_page dm2)) entries cellss"
    using entries by (rule list.rel_mono_strong) (auto simp: flushed_def intro!: column_holds_extends [OF _ ext])
  moreover have "list_all2 entry_covers entries cellss"
    using entries by (rule list.rel_mono_strong) (simp add: flushed_def)
  moreover have "list_all (list_all (\<lambda>r. region_end r < region_end rng \<and> unat (start_page_id r) \<noteq> 0 \<and>
      dm_page dm2 (word_of_nat (region_end r)) \<noteq> None) \<circ> entry_regions) entries"
    using regs by (simp add: list_all_iff)
  ultimately show "group_holds (dm_page dm2) rg cellss"
    unfolding group_holds_def rc using n bm(1,2) by (auto simp: rg_def)
  show "list_all entry_wf entries"
    using entries by (auto simp: list_all_length list_all2_conv_all_nth flushed_def)
qed

text \<open>The pages of all row groups of a catalog lie below the first free page.\<close>

definition groups_stored :: "DiskManager \<Rightarrow> RowGroupFooterEntry list \<Rightarrow> cell list list list \<Rightarrow> bool" where
  "groups_stored dm rgs contents =
     list_all2 (\<lambda>rg cellss. group_holds (dm_page dm) rg cellss \<and>
        region_end (rg_validity_bitmap_region rg) \<le> next_free dm) rgs contents"

lemma groups_stored_extends:
  assumes "groups_stored dm rgs contents" and "extends dm dm'"
  shows "groups_stored dm' rgs contents"
proof -
  have "next_free dm \<le> next_free dm'" using assms(2) by (simp add: extends_def)
  then have "group_holds (dm_page dm') rg cellss \<and> region_end (rg_validity_bitmap_region rg) \<le> next_free dm'"
    if "group_holds (dm_page dm) rg cellss \<and> region_end (rg_validity_bitmap_region rg) \<le> next_free dm" for rg cellss
    using that group_holds_extends [OF _ assms(2)] by auto
  then show ?thesis
    using assms(1) unfolding groups_stored_def by (rule list_all2_mono [rotated])
qed

lemma FlushRowGroup_spec:
  fixes ie :: InsertExecutor and cat :: Catalog
  defines "cols \<equiv> st_columns (ie_staging ie)" and "n \<equiv> st_row_count (ie_staging ie)"
    and "name \<equiv> to_table_name (ie_table ie)"
  assumes holds: "catalog_holds cat G" and e: "e \<in> set (ss_tables (cat_schema cat))"
    and table: "to_table_name (ie_table ie) = ts_table_name e" "to_table_id (ie_table ie) = ts_table_id e"
    and cols: "list_all (flushable n) cols" "cols \<noteq> []" and n: "0 < n" "n \<le> kRowGroupSize"
    and room: "next_free (cat_disk cat) + (length cols + 1) * kColumnPages < 2 ^ 32"
  obtains rg cat' where
    "FlushRowGroup (ie, cat) = (Inr (), (ie\<lparr>ie_staging := MakeStaging (ie_table ie)\<rparr>, cat'))"
    "catalog_holds cat' (G(name := G name @ [rg]))" "cat_schema cat' = cat_schema cat" "cat_order cat' = cat_order cat"
    "extends (cat_disk cat) (cat_disk cat')" "next_free (cat_disk cat') \<le> next_free (cat_disk cat) + (length cols + 1) * kColumnPages"
    "groups_stored (cat_disk cat') [rg] [map col_cells cols]"
proof -
  let ?dm = "cat_disk cat"
  from holds have inv: "dm_inv ?dm" by (simp add: catalog_holds_def)
  from room have "next_free ?dm + length cols * kColumnPages < 2 ^ 32" by simp
  from flush_columns_spec [OF inv cols(1) n this] obtain entries dm1 where
    d1: "smap (flush_column n) cols ?dm = (Inr entries, dm1)" "extends ?dm dm1"
      "next_free dm1 \<le> next_free ?dm + length cols * kColumnPages"
      "list_all2 (flushed ?dm dm1) entries (map col_cells cols)" by blast
  have ci: "list_all (\<lambda>c. col_inv c \<and> length (col_cells c) = n) cols"
    using cols(1) by (simp add: list_all_iff flushable_def)
  from BuildValidityBitmapBytes_spec [OF ci] obtain bm where
    bm: "BuildValidityBitmapBytes cols n = Inr bm" "bitmap_holds bm n (map col_cells cols)" by blast
  have lbm: "length bm = (n + 7) div 8 * length cols" using bm(2) by (simp add: bitmap_holds_def)
  then have "length bm \<noteq> 0" using n(1) cols(2) by (simp add: div_eq_0_iff)
  then have bne: "bm \<noteq> []" by auto
  have ncols: "length cols < 2 ^ 12" using room by (simp add: kColumnPages_def)
  have "(n + 7) div 8 \<le> 1280" using n(2) by (simp add: kRowGroupSize_def)
  then have "length bm \<le> 1280 * length cols" unfolding lbm by (rule mult_le_mono1)
  then have "length bm + kPageSizeBytes - 1 \<le> 1280 * 2 ^ 12 + 4096"
    using ncols by (simp add: kPageSizeBytes_def)
  then have pb: "(length bm + kPageSizeBytes - 1) div kPageSizeBytes \<le> kColumnPages"
    by (simp add: kPageSizeBytes_def kColumnPages_def)
  have inv1: "dm_inv dm1" using d1(2) by (simp add: extends_def)
  have "next_free dm1 + (length bm + kPageSizeBytes - 1) div kPageSizeBytes < 2 ^ 32"
    using d1(3) pb room by simp
  from pad_and_write_spec [OF inv1 bne this] obtain rng dm2 where
    d2: "pad_and_write bm dm1 = (Inr rng, dm2)" "extends dm1 dm2" "region_holds (dm_page dm2) rng bm"
      "unat (start_page_id rng) = next_free dm1" "next_free dm2 = region_end rng"
      "unat (page_count rng) = (length bm + kPageSizeBytes - 1) div kPageSizeBytes" "0 < unat (page_count rng)"
    by metis
  let ?rg = "\<lparr>rg_table_id = ts_table_id e, rg_row_count = word_of_nat n, rg_validity_bitmap_region = rng,
      rg_columns = entries\<rparr>"
  have "list_all (\<lambda>cells. length cells = n) (map col_cells cols)"
    using ci by (simp add: list_all_iff)
  note fg = flushed_group(1) [OF d1(4) inv d2(2,3) bm(2) d2(7,4,5) n this, where t = "ts_table_id e"]
    flushed_group(2) [OF d1(4) inv d2(2,3) bm(2) d2(7,4,5) n this]
  have wf: "row_group_wf ?rg"
    using fg(2) list_all2_lengthD [OF d1(4)] ncols by (simp add: row_group_wf_def)
  have ext: "extends ?dm dm2" using extends_trans [OF d1(2) d2(2)] .
  let ?cat2 = "cat\<lparr>cat_disk := dm2\<rparr>"
  have "dm_inv dm2" using d2(2) by (simp add: extends_def)
  then have holds2: "catalog_holds ?cat2 G" using holds by (simp add: catalog_holds_def)
  have e2: "e \<in> set (ss_tables (cat_schema ?cat2))" using e by simp
  have id2: "rg_table_id ?rg = ts_table_id e" by simp
  note add = cat_AddRowGroup_holds [OF holds2 e2 id2 wf]
  let ?cat3 = "?cat2\<lparr>cat_tables := tables_of (ss_tables (cat_schema ?cat2))
      (G(ts_table_name e := G (ts_table_name e) @ [?rg]))\<rparr>"
  have "FlushRowGroup (ie, cat) = (Inr (), (ie\<lparr>ie_staging := MakeStaging (ie_table ie)\<rparr>, ?cat3))"
    using d1(1) bm(1) d2(1) add(1) table n(1)
    by (simp add: FlushRowGroup_def Let_def sbind_def on_catalog_disk_def flip: cols_def n_def)
  moreover have "groups_stored dm2 [?rg] [map col_cells cols]"
    using fg(1) d2(5) by (simp add: groups_stored_def)
  moreover have "next_free dm2 \<le> next_free ?dm + (length cols + 1) * kColumnPages"
    using d1(3) d2(4-6) pb by (simp add: region_end_def)
  ultimately show thesis
    using that [where cat' = ?cat3 and rg = ?rg] add(2) ext table(1) by (simp add: name_def)
qed

section \<open>Inserting rows\<close>

text \<open>The rows of a row group, and of a table as the concatenation of its row groups.\<close>

definition cells_rows :: "nat \<Rightarrow> cell list list \<Rightarrow> cell list list" where
  "cells_rows n cellss = map (\<lambda>i. map (\<lambda>cells. cells ! i) cellss) [0..<n]"

definition table_rows :: "RowGroupFooterEntry list \<Rightarrow> cell list list list \<Rightarrow> cell list list" where
  "table_rows rgs contents =
     concat (map (\<lambda>(rg, cellss). cells_rows (unat (rg_row_count rg)) cellss) (zip rgs contents))"

definition literal_row :: "ConstValue list \<Rightarrow> cell list" where
  "literal_row row = map (\<lambda>v. (v, True)) row"

text \<open>
  Literals an insert can store: of the column types, and no string so long that a row group
  of them overflows the 32-bit offsets, nor empty. An empty string is stored like any other
  unless all strings of its column in a row group are empty; requiring every string to be
  non-empty is the condition on single rows that excludes this.
\<close>

definition row_ok :: "TypeId list \<Rightarrow> ConstValue list \<Rightarrow> bool" where
  "row_ok ts row = (map value_type row = ts \<and> (\<forall>v \<in> set row. v \<noteq> VString [] \<and> value_weight v < 2 ^ 17))"

definition staged :: "TypeId list \<Rightarrow> Staging \<Rightarrow> ConstValue list list \<Rightarrow> bool" where
  "staged ts st rows = (st_row_count st = length rows \<and> length (st_columns st) = length ts \<and>
     list_all (row_ok ts) rows \<and>
     (\<forall>c < length ts. col_inv (st_columns st ! c) \<and> column_type (st_columns st ! c) = ts ! c \<and>
        col_cells (st_columns st ! c) = map (\<lambda>row. (row ! c, True)) rows \<and>
        col_load (st_columns st ! c) = sum_list (map (\<lambda>row. value_weight (row ! c)) rows)))"

lemma staged_empty: "staged (map cd_type (to_columns table)) (MakeStaging table) []"
  by (simp add: staged_def MakeStaging_def EmptyColumn_spec)

lemma row_ok_nth:
  assumes "row_ok ts row" and "c < length ts"
  shows "c < length row" "value_type (row ! c) = ts ! c" "row ! c \<noteq> VString []" "value_weight (row ! c) < 2 ^ 17"
proof -
  show "c < length row" using assms by (auto simp: row_ok_def)
  then show "value_type (row ! c) = ts ! c" "row ! c \<noteq> VString []" "value_weight (row ! c) < 2 ^ 17"
    using assms by (auto simp: row_ok_def)
qed

lemma append_values_spec:
  assumes "length cols = i + length vs" and "\<forall>k < length vs. col_inv (cols ! (i + k)) \<and>
    value_type (vs ! k) = column_type (cols ! (i + k)) \<and> col_load (cols ! (i + k)) + value_weight (vs ! k) < varchar_capacity"
  shows "\<exists>cols'. append_values i (map ConstNode vs) cols = (Inr (), cols') \<and> length cols' = length cols \<and>
    take i cols' = take i cols \<and> (\<forall>k < length vs. col_inv (cols' ! (i + k)) \<and>
      column_type (cols' ! (i + k)) = column_type (cols ! (i + k)) \<and>
      col_cells (cols' ! (i + k)) = col_cells (cols ! (i + k)) @ [(vs ! k, True)] \<and>
      col_load (cols' ! (i + k)) = col_load (cols ! (i + k)) + value_weight (vs ! k))"
  using assms
proof (induction vs arbitrary: i cols)
  case (Cons v vs)
  from Cons.prems have i: "i < length cols" and c0: "col_inv (cols ! i)" "value_type v = column_type (cols ! i)"
    "col_load (cols ! i) + value_weight v < varchar_capacity" by auto
  obtain c where c: "col_Append (cols ! i) v = Inr c" "col_inv c" "col_cells c = col_cells (cols ! i) @ [(v, True)]"
    "column_type c = column_type (cols ! i)" "col_load c = col_load (cols ! i) + value_weight v"
    using col_Append_spec [OF c0] by blast
  have "length (cols[i := c]) = Suc i + length vs" using Cons.prems(1) by simp
  moreover have "\<forall>k < length vs. col_inv (cols[i := c] ! (Suc i + k)) \<and>
      value_type (vs ! k) = column_type (cols[i := c] ! (Suc i + k)) \<and>
      col_load (cols[i := c] ! (Suc i + k)) + value_weight (vs ! k) < varchar_capacity"
    using Cons.prems(2) by (auto dest: spec [of _ "Suc _"])
  ultimately obtain cols' where cols': "append_values (Suc i) (map ConstNode vs) (cols[i := c]) = (Inr (), cols')"
    "length cols' = length (cols[i := c])" "take (Suc i) cols' = take (Suc i) (cols[i := c])"
    "\<forall>k < length vs. col_inv (cols' ! (Suc i + k)) \<and>
      column_type (cols' ! (Suc i + k)) = column_type (cols[i := c] ! (Suc i + k)) \<and>
      col_cells (cols' ! (Suc i + k)) = col_cells (cols[i := c] ! (Suc i + k)) @ [(vs ! k, True)] \<and>
      col_load (cols' ! (Suc i + k)) = col_load (cols[i := c] ! (Suc i + k)) + value_weight (vs ! k)"
    using Cons.IH [of "cols[i := c]" "Suc i"] by blast
  have "cols' ! i = c" "take i cols' = take i cols"
    using arg_cong [OF cols'(3), of "\<lambda>xs. xs ! i"] arg_cong [OF cols'(3), of "take i"] i by simp_all
  moreover have "append_values i (map ConstNode (v # vs)) cols = (Inr (), cols')"
    using c(1) i c0(2) cols'(1) by (simp add: append_value_def)
  moreover have "\<forall>k < length (v # vs). col_inv (cols' ! (i + k)) \<and>
      column_type (cols' ! (i + k)) = column_type (cols ! (i + k)) \<and>
      col_cells (cols' ! (i + k)) = col_cells (cols ! (i + k)) @ [((v # vs) ! k, True)] \<and>
      col_load (cols' ! (i + k)) = col_load (cols ! (i + k)) + value_weight ((v # vs) ! k)"
  proof (intro allI impI)
    fix k
    assume "k < length (v # vs)"
    then show "col_inv (cols' ! (i + k)) \<and> column_type (cols' ! (i + k)) = column_type (cols ! (i + k)) \<and>
      col_cells (cols' ! (i + k)) = col_cells (cols ! (i + k)) @ [((v # vs) ! k, True)] \<and>
      col_load (cols' ! (i + k)) = col_load (cols ! (i + k)) + value_weight ((v # vs) ! k)"
      using cols'(4) c \<open>cols' ! i = c\<close> by (cases k) auto
  qed
  ultimately show ?case using cols'(2) by auto
qed simp

lemma AppendRow_spec:
  assumes st: "staged ts st rows" and row: "row_ok ts row" and small: "length rows < kRowGroupSize"
  shows "\<exists>st'. AppendRow (map ConstNode row) st = (Inr (), st') \<and> staged ts st' (rows @ [row])"
proof -
  have len: "length row = length ts" using row by (auto simp: row_ok_def)
  have load: "sum_list (map (\<lambda>row. value_weight (row ! c)) rows) \<le> length rows * 2 ^ 17" if "c < length ts" for c
  proof -
    have "value_weight (r ! c) \<le> 2 ^ 17" if "r \<in> set rows" for r
      using st that row_ok_nth(4) [of ts r c] \<open>c < length ts\<close> by (fastforce simp: staged_def list_all_iff)
    then have "sum_list (map (\<lambda>r. value_weight (r ! c)) rows) \<le> sum_list (map (\<lambda>_. 2 ^ 17) rows)"
      by (rule sum_list_mono)
    then show ?thesis by (simp add: sum_list_triv)
  qed
  have "\<forall>k < length row. col_inv (st_columns st ! (0 + k)) \<and>
    value_type (row ! k) = column_type (st_columns st ! (0 + k)) \<and>
    col_load (st_columns st ! (0 + k)) + value_weight (row ! k) < varchar_capacity"
    using st len row_ok_nth [OF row] load small by (fastforce simp: staged_def kRowGroupSize_def)
  moreover have "length (st_columns st) = 0 + length row" using st len by (simp add: staged_def)
  ultimately obtain cols where cols: "append_values 0 (map ConstNode row) (st_columns st) = (Inr (), cols)"
    "length cols = length (st_columns st)" "\<forall>k < length row. col_inv (cols ! k) \<and>
      column_type (cols ! k) = column_type (st_columns st ! k) \<and>
      col_cells (cols ! k) = col_cells (st_columns st ! k) @ [(row ! k, True)] \<and>
      col_load (cols ! k) = col_load (st_columns st ! k) + value_weight (row ! k)"
    using append_values_spec [of "st_columns st" 0 row] by auto
  then show ?thesis
    using st row len by (auto simp: AppendRow_def staged_def)
qed

lemma staged_column:
  assumes "staged ts st rows" and "c < length ts" and "rows \<noteq> []"
  shows "flushable (length rows) (st_columns st ! c)"
proof -
  let ?col = "st_columns st ! c"
  from assms have col: "col_inv ?col" "col_cells ?col = map (\<lambda>row. (row ! c, True)) rows"
    and rows: "list_all (row_ok ts) rows"
    by (simp_all add: staged_def)
  have "has_data ?col"
  proof (cases ?col)
    case (StringColumn d)
    obtain r where r: "r \<in> set rows" using assms(3) by (cases rows) auto
    then have "(r ! c, True) \<in> set (col_cells ?col)" by (auto simp: col(2))
    then obtain s where s: "s \<in> set (map fst (vc_cells d))" "r ! c = VString s"
      using StringColumn by force
    moreover have "r ! c \<noteq> VString []"
      using row_ok_nth(3) [of ts r c] rows r assms(2) by (auto simp: list_all_iff)
    ultimately show ?thesis using StringColumn by auto
  qed simp_all
  with col show ?thesis by (simp add: flushable_def)
qed

lemma staged_rows:
  assumes "staged ts st rows"
  shows "cells_rows (length rows) (map col_cells (st_columns st)) = map literal_row rows"
proof (rule nth_equalityI)
  show "length (cells_rows (length rows) (map col_cells (st_columns st))) = length (map literal_row rows)"
    by (simp add: cells_rows_def)
  fix i
  assume "i < length (cells_rows (length rows) (map col_cells (st_columns st)))"
  then have i: "i < length rows" by (simp add: cells_rows_def)
  have "map (\<lambda>c. col_cells c ! i) (st_columns st) = literal_row (rows ! i)"
  proof (rule nth_equalityI)
    have "row_ok ts (rows ! i)" using assms i by (simp add: staged_def list_all_length)
    then have "length (rows ! i) = length ts" by (auto simp: row_ok_def)
    then show "length (map (\<lambda>c. col_cells c ! i) (st_columns st)) = length (literal_row (rows ! i))"
      using assms by (simp add: staged_def literal_row_def)
    show "map (\<lambda>c. col_cells c ! i) (st_columns st) ! k = literal_row (rows ! i) ! k"
      if "k < length (map (\<lambda>c. col_cells c ! i) (st_columns st))" for k
      using that assms i \<open>length (rows ! i) = length ts\<close> by (simp add: staged_def literal_row_def)
  qed
  then show "cells_rows (length rows) (map col_cells (st_columns st)) ! i = map literal_row rows ! i"
    using i by (simp add: cells_rows_def comp_def)
qed

lemma table_rows_append:
  "length rgs = length contents \<Longrightarrow>
    table_rows (rgs @ rgs') (contents @ contents') = table_rows rgs contents @ table_rows rgs' contents'"
  by (simp add: table_rows_def)

text \<open>The loop of an \<open>INSERT\<close> statement.\<close>

fun insert_rows :: "BoundExpression list list \<Rightarrow> (insert_state, unit) action" where
  "insert_rows [] = InsertFinish"
| "insert_rows (row # rows) = sbind (InsertRow row) (\<lambda>_. insert_rows rows)"

definition insert_ready ::
    "TypeId list \<Rightarrow> TableSchemaEntry \<Rightarrow> (string \<Rightarrow> RowGroupFooterEntry list) \<Rightarrow> cell list list list \<Rightarrow>
     ConstValue list list \<Rightarrow> insert_state \<Rightarrow> bool" where
  "insert_ready ts e G contents rows = (\<lambda>(ie, cat).
     catalog_holds cat G \<and> e \<in> set (ss_tables (cat_schema cat)) \<and> ts \<noteq> [] \<and>
     to_table_name (ie_table ie) = ts_table_name e \<and> to_table_id (ie_table ie) = ts_table_id e \<and>
     map cd_type (to_columns (ie_table ie)) = ts \<and>
     staged ts (ie_staging ie) rows \<and> length rows < kRowGroupSize \<and>
     groups_stored (cat_disk cat) (G (ts_table_name e)) contents)"

definition kGroupPages :: "TypeId list \<Rightarrow> nat" where
  "kGroupPages ts = (length ts + 1) * kColumnPages"

lemma flush_staged:
  assumes ready: "insert_ready ts e G contents rows0 (ie0, cat)" and st: "staged ts st rows"
    and n: "rows \<noteq> []" "length rows \<le> kRowGroupSize"
    and room: "next_free (cat_disk cat) + kGroupPages ts < 2 ^ 32"
  defines "name \<equiv> ts_table_name e" and "ie \<equiv> ie0\<lparr>ie_staging := st\<rparr>"
  obtains rg cs ie' cat' where "FlushRowGroup (ie, cat) = (Inr (), (ie', cat'))"
    "insert_ready ts e (G(name := G name @ [rg])) (contents @ [cs]) [] (ie', cat')"
    "extends (cat_disk cat) (cat_disk cat')" "cat_schema cat' = cat_schema cat"
    "next_free (cat_disk cat') \<le> next_free (cat_disk cat) + kGroupPages ts"
    "table_rows [rg] [cs] = map literal_row rows"
proof -
  from ready have holds: "catalog_holds cat G" and e: "e \<in> set (ss_tables (cat_schema cat))"
    and tn: "to_table_name (ie_table ie) = ts_table_name e" and ti: "to_table_id (ie_table ie) = ts_table_id e"
    and tc: "map cd_type (to_columns (ie_table ie)) = ts" and tne: "ts \<noteq> []"
    and old: "groups_stored (cat_disk cat) (G name) contents"
    by (simp_all add: insert_ready_def ie_def name_def)
  have cols: "length (st_columns st) = length ts" "st_row_count st = length rows"
    using st by (simp_all add: staged_def)
  have fl: "list_all (flushable (st_row_count (ie_staging ie))) (st_columns (ie_staging ie))"
    using staged_column [OF st _ n(1)] cols by (simp add: list_all_length ie_def)
  have ne: "st_columns (ie_staging ie) \<noteq> []" using cols tne by (auto simp: ie_def)
  have cnt: "0 < st_row_count (ie_staging ie)" "st_row_count (ie_staging ie) \<le> kRowGroupSize"
    using n cols by (simp_all add: ie_def)
  have room': "next_free (cat_disk cat) + (length (st_columns (ie_staging ie)) + 1) * kColumnPages < 2 ^ 32"
    using room cols by (simp add: ie_def kGroupPages_def)
  obtain rg cat' where f:
    "FlushRowGroup (ie, cat) = (Inr (), (ie\<lparr>ie_staging := MakeStaging (ie_table ie)\<rparr>, cat'))"
    "catalog_holds cat' (G(name := G name @ [rg]))" "cat_schema cat' = cat_schema cat"
    "extends (cat_disk cat) (cat_disk cat')"
    "next_free (cat_disk cat') \<le> next_free (cat_disk cat) + (length (st_columns (ie_staging ie)) + 1) * kColumnPages"
    "groups_stored (cat_disk cat') [rg] [map col_cells (st_columns (ie_staging ie))]"
    using FlushRowGroup_spec [OF holds e tn ti fl ne cnt room', unfolded tn, folded name_def] by blast
  let ?cs = "map col_cells (st_columns st)"
  have gs: "groups_stored (cat_disk cat') [rg] [?cs]" using f(6) by (simp add: ie_def)
  have "groups_stored (cat_disk cat') (G name @ [rg]) (contents @ [?cs])"
    using groups_stored_extends [OF old f(4)] gs unfolding groups_stored_def by (simp add: list_all2_appendI)
  moreover have "staged ts (MakeStaging (ie_table ie)) []"
    using staged_empty [of "ie_table ie"] tc by simp
  ultimately have "insert_ready ts e (G(name := G name @ [rg])) (contents @ [?cs]) []
      (ie\<lparr>ie_staging := MakeStaging (ie_table ie)\<rparr>, cat')"
    using ready f(2,3) by (simp add: insert_ready_def ie_def name_def kRowGroupSize_def)
  moreover have "unat (rg_row_count rg) = length rows"
  proof -
    have "list_all (\<lambda>cells. length cells = unat (rg_row_count rg)) ?cs"
      using gs by (simp add: groups_stored_def group_holds_def)
    moreover have "0 < length (st_columns st)" using cols tne by simp
    moreover have "length (col_cells (st_columns st ! 0)) = length rows"
      using st tne by (simp add: staged_def)
    ultimately show ?thesis by (simp add: list_all_length)
  qed
  then have "table_rows [rg] [?cs] = map literal_row rows"
    using staged_rows [OF st] by (simp add: table_rows_def)
  ultimately show thesis
    using that [where rg = rg and cs = ?cs and cat' = cat'] f(1,3,4,5) cols by (simp add: ie_def kGroupPages_def)
qed


text \<open>What a statement leaves behind: new row groups that hold exactly the rows it was given.\<close>

definition inserted ::
    "TypeId list \<Rightarrow> TableSchemaEntry \<Rightarrow> (string \<Rightarrow> RowGroupFooterEntry list) \<Rightarrow> cell list list list \<Rightarrow>
     ConstValue list list \<Rightarrow> Catalog \<Rightarrow> error + unit \<Rightarrow> insert_state \<Rightarrow> bool" where
  "inserted ts e G contents rows cat res s = (res = Inr () \<and> (\<exists>rgs cs.
     insert_ready ts e (G(ts_table_name e := G (ts_table_name e) @ rgs)) (contents @ cs) [] s \<and>
     extends (cat_disk cat) (cat_disk (snd s)) \<and> cat_schema (snd s) = cat_schema cat \<and>
     length rgs = length cs \<and> table_rows rgs cs = map literal_row rows))"

lemma inserted_trans:
  assumes "inserted ts e G contents rows cat (Inr ()) s"
    and "\<And>G' contents'. insert_ready ts e G' contents' [] s \<Longrightarrow>
      inserted ts e G' contents' rows' (snd s) res s'"
  shows "inserted ts e G contents (rows @ rows') cat res s'"
proof -
  from assms(1) obtain rgs cs where 1: "insert_ready ts e (G(ts_table_name e := G (ts_table_name e) @ rgs)) (contents @ cs) [] s"
    "extends (cat_disk cat) (cat_disk (snd s))" "cat_schema (snd s) = cat_schema cat"
    "length rgs = length cs" "table_rows rgs cs = map literal_row rows"
    by (auto simp: inserted_def)
  from assms(2) [OF 1(1)] obtain rgs' cs' where 2: "res = Inr ()"
    "insert_ready ts e (G(ts_table_name e := G (ts_table_name e) @ rgs @ rgs')) (contents @ cs @ cs') [] s'"
    "extends (cat_disk (snd s)) (cat_disk (snd s'))" "cat_schema (snd s') = cat_schema (snd s)"
    "length rgs' = length cs'" "table_rows rgs' cs' = map literal_row rows'"
    by (auto simp: inserted_def)
  show ?thesis
    unfolding inserted_def
    by (rule conjI [OF 2(1)], rule exI [of _ "rgs @ rgs'"], rule exI [of _ "cs @ cs'"])
      (use 1 2 extends_trans [OF 1(2) 2(3)] in \<open>simp add: table_rows_append\<close>)
qed

lemma flush_inserted:
  assumes ready: "insert_ready ts e G contents rows0 (ie, cat)" and st: "staged ts st rows"
    and n: "length rows \<le> kRowGroupSize"
    and room: "next_free (cat_disk cat) + kGroupPages ts < 2 ^ 32"
  obtains s where "FlushRowGroup (ie\<lparr>ie_staging := st\<rparr>, cat) = (Inr (), s)"
    "inserted ts e G contents rows cat (Inr ()) s"
    "next_free (cat_disk (snd s)) \<le> next_free (cat_disk cat) + kGroupPages ts"
proof (cases "rows = []")
  case True
  then have "FlushRowGroup (ie\<lparr>ie_staging := st\<rparr>, cat) = (Inr (), (ie\<lparr>ie_staging := st\<rparr>, cat))"
    using st by (simp add: FlushRowGroup_def staged_def Let_def)
  moreover have "insert_ready ts e G contents [] (ie\<lparr>ie_staging := st\<rparr>, cat)"
    using ready st True by (simp add: insert_ready_def kRowGroupSize_def)
  moreover have "extends (cat_disk cat) (cat_disk cat)"
    using ready by (intro extends_refl) (simp add: insert_ready_def catalog_holds_def)
  ultimately have "inserted ts e G contents rows cat (Inr ()) (ie\<lparr>ie_staging := st\<rparr>, cat)"
    unfolding inserted_def
    by (intro conjI refl exI [of _ "[]"]) (simp_all add: True table_rows_def)
  with \<open>FlushRowGroup _ = _\<close> show thesis using that by simp
next
  case False
  obtain rg cs ie' cat' where
    f: "FlushRowGroup (ie\<lparr>ie_staging := st\<rparr>, cat) = (Inr (), (ie', cat'))"
    "insert_ready ts e (G(ts_table_name e := G (ts_table_name e) @ [rg])) (contents @ [cs]) [] (ie', cat')"
    "extends (cat_disk cat) (cat_disk cat')" "cat_schema cat' = cat_schema cat"
    "next_free (cat_disk cat') \<le> next_free (cat_disk cat) + kGroupPages ts"
    "table_rows [rg] [cs] = map literal_row rows"
    by (rule flush_staged [OF ready st False n room])
  have "inserted ts e G contents rows cat (Inr ()) (ie', cat')"
    unfolding inserted_def by (rule conjI [OF refl], rule exI [of _ "[rg]"], rule exI [of _ "[cs]"]) (use f in simp)
  with f(1,5) show thesis using that by simp
qed

definition insert_room :: "TypeId list \<Rightarrow> nat \<Rightarrow> DiskManager \<Rightarrow> bool" where
  "insert_room ts rows dm = (next_free dm + (rows div kRowGroupSize + 1) * kGroupPages ts < 2 ^ 32)"

lemma insert_rows_spec:
  assumes "insert_ready ts e G contents pending s" and "list_all (row_ok ts) rows"
    and "insert_room ts (length pending + length rows) (cat_disk (snd s))"
  shows "\<exists>s'. insert_rows (map (map ConstNode) rows) s = (Inr (), s') \<and>
    inserted ts e G contents (pending @ rows) (snd s) (Inr ()) s'"
  using assms
proof (induction rows arbitrary: G contents pending s)
  case Nil
  obtain ie cat where s: "s = (ie, cat)" by (cases s)
  have st: "staged ts (ie_staging ie) pending" "length pending \<le> kRowGroupSize"
    using Nil.prems(1) by (simp_all add: insert_ready_def s)
  have "next_free (cat_disk cat) + kGroupPages ts < 2 ^ 32"
    using Nil.prems(3) by (simp add: insert_room_def s)
  from flush_inserted [OF Nil.prems(1) [unfolded s] st this] obtain s1 where
    "FlushRowGroup (ie, cat) = (Inr (), s1)" "inserted ts e G contents pending cat (Inr ()) s1"
    by simp blast
  then show ?case by (simp add: s InsertFinish_def)
next
  case (Cons row rows)
  obtain ie cat where s: "s = (ie, cat)" by (cases s)
  from Cons.prems(1) have st: "staged ts (ie_staging ie) pending" "length pending < kRowGroupSize"
    by (simp_all add: insert_ready_def s)
  have row: "row_ok ts row" "list_all (row_ok ts) rows" using Cons.prems(2) by simp_all
  from AppendRow_spec [OF st(1) row(1) st(2)] obtain st' where
    a: "AppendRow (map ConstNode row) (ie_staging ie) = (Inr (), st')" "staged ts st' (pending @ [row])" by blast
  have cnt: "st_row_count st' = Suc (length pending)" using a(2) by (simp add: staged_def)
  show ?case
  proof (cases "Suc (length pending) < kRowGroupSize")
    case True
    let ?s = "(ie\<lparr>ie_staging := st'\<rparr>, cat)"
    have "InsertRow (map ConstNode row) s = (Inr (), ?s)" using a(1) cnt True by (simp add: InsertRow_def s)
    moreover have "insert_ready ts e G contents (pending @ [row]) ?s"
      using Cons.prems(1) a(2) True by (simp add: insert_ready_def s)
    ultimately show ?thesis
      using Cons.IH [of G contents "pending @ [row]" ?s] row(2) Cons.prems(3) by (simp add: s sbind_def)
  next
    case False
    then have full: "length (pending @ [row]) = kRowGroupSize" using st(2) by simp
    have rows: "(length pending + length (row # rows)) div kRowGroupSize = length rows div kRowGroupSize + 1"
      using full by (metis Suc_eq_plus1 add.commute add_Suc_right div_add_self2 kRowGroupSize_def length_Cons length_append_singleton zero_neq_numeral add_Suc)
    have room: "next_free (cat_disk cat) + kGroupPages ts + (length rows div kRowGroupSize + 1) * kGroupPages ts < 2 ^ 32"
      using Cons.prems(3) by (simp only: rows insert_room_def s snd_conv) (simp add: algebra_simps)
    then have room1: "next_free (cat_disk cat) + kGroupPages ts < 2 ^ 32" by simp
    obtain s1 where f: "FlushRowGroup (ie\<lparr>ie_staging := st'\<rparr>, cat) = (Inr (), s1)"
      "inserted ts e G contents (pending @ [row]) cat (Inr ()) s1"
      "next_free (cat_disk (snd s1)) \<le> next_free (cat_disk cat) + kGroupPages ts"
      using flush_inserted [OF Cons.prems(1) [unfolded s] a(2) _ room1] full by auto
    have step: "InsertRow (map ConstNode row) s = (Inr (), s1)"
      using a(1) cnt False f(1) by (simp add: InsertRow_def s)
    have room2: "insert_room ts (length [] + length rows) (cat_disk (snd s1))"
      using room f(3) by (simp add: insert_room_def)
    have rest: "\<exists>s'. insert_rows (map (map ConstNode) rows) s1 = (Inr (), s') \<and>
        inserted ts e G' contents' rows (snd s1) (Inr ()) s'" if "insert_ready ts e G' contents' [] s1" for G' contents'
      using Cons.IH [OF that row(2) room2] by simp
    obtain G1 contents1 where "insert_ready ts e G1 contents1 [] s1" using f(2) by (auto simp: inserted_def)
    from rest [OF this] obtain s' where s': "insert_rows (map (map ConstNode) rows) s1 = (Inr (), s')" by blast
    have "inserted ts e G contents ((pending @ [row]) @ rows) cat (Inr ()) s'"
      by (rule inserted_trans [OF f(2)]) (use rest s' in auto)
    then show ?thesis using step s' by (simp add: s sbind_def)
  qed
qed

end
