(* ===== verification/Operators.thy ===== *)
theory Operators
  imports Expressions
begin

text \<open>
  \<open>execution/operator\<close>, \<open>execution/filter_operator\<close> and \<open>execution/projection_operator\<close>. An
  operator is the action its \<open>GetNext\<close> performs on its state; the virtual call on a child is
  an argument. \<open>produces\<close> is the sequence of chunks an operator yields until it is exhausted.
\<close>

section \<open>The operator interface\<close>

inductive produces :: "('s, 'c option) action \<Rightarrow> 's \<Rightarrow> 'c list \<Rightarrow> 's \<Rightarrow> bool" where
  exhausted: "get_next s = (Inr None, s') \<Longrightarrow> produces get_next s [] s'"
| next_chunk: "get_next s = (Inr (Some c), s') \<Longrightarrow> produces get_next s' cs s'' \<Longrightarrow>
    produces get_next s (c # cs) s''"

inductive_cases produces_NilE: "produces get_next s [] s'"
inductive_cases produces_ConsE: "produces get_next s (c # cs) s'"

lemma produces_same_start:
  assumes "produces get_next s cs t" and "get_next s' = get_next s"
  shows "produces get_next s' cs t"
  using assms by (cases rule: produces.cases) (simp_all add: produces.intros)

section \<open>FilterOperator\<close>

definition filter_chunk :: "BoundExpression \<Rightarrow> DataChunk \<Rightarrow> DataChunk result" where
  "filter_chunk predicate chunk =
     rbind (EvaluateExpr predicate chunk) (\<lambda>predicate_result.
     rbind (get_bool predicate_result) (\<lambda>bool_result.
       rfold (\<lambda>i chunk.
           rbind (rbind (IsRowSelected chunk i) (\<lambda>s. if \<not> s then Inr False
                  else rbind (IsValid (bool_values bool_result) i) (\<lambda>v. if \<not> v then Inr False
                  else IsValid (bool_validity bool_result) i)))
             (SetRowSelected chunk i))
         [0..<dc_row_count chunk] chunk))"

definition Filter_GetNext :: "('s, DataChunk option) action \<Rightarrow> BoundExpression \<Rightarrow>
    ('s, DataChunk option) action" where
  "Filter_GetNext child predicate =
     sbind child (\<lambda>chunk. case chunk of
         None \<Rightarrow> sreturn None
       | Some chunk \<Rightarrow> sresult (rbind (filter_chunk predicate chunk) (\<lambda>c. Inr (Some c))))"

section \<open>ProjectionOperator\<close>

definition add_projected :: "EvaluationResult \<Rightarrow> DataChunk \<Rightarrow> DataChunk result" where
  "add_projected r output =
     (case r of
        BoolResult _ \<Rightarrow> Inl (RuntimeError ''Projecting a bare boolean-valued expression is not yet supported'')
      | ColumnResult c \<Rightarrow> dc_AddColumn output c)"

definition project_chunk :: "BoundExpression list \<Rightarrow> DataChunk \<Rightarrow> DataChunk result" where
  "project_chunk expressions input =
     rbind (rmap (\<lambda>e. EvaluateExpr e input) expressions) (\<lambda>last_batch.
     rbind (MakeDataChunk (dc_row_count input)) (\<lambda>output.
     rbind (rfold (\<lambda>row output. rbind (IsRowSelected input row) (SetRowSelected output row))
              [0..<dc_row_count input] output) (\<lambda>output.
       rfold add_projected last_batch output)))"

definition Projection_GetNext :: "('s, DataChunk option) action \<Rightarrow> BoundExpression list \<Rightarrow>
    ('s, DataChunk option) action" where
  "Projection_GetNext child expressions =
     sbind child (\<lambda>input. case input of
         None \<Rightarrow> sreturn None
       | Some input \<Rightarrow> sresult (rbind (project_chunk expressions input) (\<lambda>c. Inr (Some c))))"

section \<open>Chunk-wise operators\<close>

text \<open>
  Filter and projection map one chunk to one chunk. A chunk-wise operator is given by such a
  function; whatever the child produces, it produces the images.
\<close>

definition chunkwise :: "('c \<Rightarrow> 'd result) \<Rightarrow> ('s, 'c option) action \<Rightarrow> ('s, 'd option) action" where
  "chunkwise f child = sbind child (\<lambda>c. case c of
     None \<Rightarrow> sreturn None | Some c \<Rightarrow> sresult (rbind (f c) (\<lambda>d. Inr (Some d))))"

lemma Filter_chunkwise: "Filter_GetNext child p = chunkwise (filter_chunk p) child"
  by (simp add: Filter_GetNext_def chunkwise_def)

lemma Projection_chunkwise: "Projection_GetNext child es = chunkwise (project_chunk es) child"
  by (simp add: Projection_GetNext_def chunkwise_def)

lemma chunkwise_produces:
  assumes "produces child s cs s'" and "\<And>c. c \<in> set cs \<Longrightarrow> f c = Inr (g c)"
  shows "produces (chunkwise f child) s (map g cs) s'"
  using assms
proof (induction rule: produces.induct)
  case (exhausted get_next s s')
  then show ?case
    by (auto intro!: produces.exhausted simp: chunkwise_def sbind_def)
next
  case (next_chunk get_next s c s' cs s'')
  then have fc: "f c = Inr (g c)" and IH: "produces (chunkwise f get_next) s' (map g cs) s''"
    by simp_all
  have "chunkwise f get_next s = (Inr (Some (g c)), s')"
    using next_chunk.hyps(1) fc by (simp add: chunkwise_def sbind_def)
  from produces.next_chunk [where get_next = "chunkwise f get_next", OF this IH] show ?case by simp
qed

lemma chunkwise_produces_Ex:
  assumes "produces child s cs s'" and "\<And>c. c \<in> set cs \<Longrightarrow> \<exists>d. f c = Inr d \<and> P c d"
  obtains ds where "produces (chunkwise f child) s ds s'" "list_all2 P cs ds"
proof -
  define g where "g c = projr (f c)" for c
  have g: "f c = Inr (g c)" "P c (g c)" if "c \<in> set cs" for c
    using assms(2) [OF that] by (auto simp: g_def)
  from chunkwise_produces [OF assms(1), of f g] g(1) have "produces (chunkwise f child) s (map g cs) s'" .
  moreover have "list_all2 P cs (map g cs)"
    using g(2) by (simp add: list_all2_map2 list.rel_refl_strong)
  ultimately show thesis by (rule that)
qed

section \<open>What the operators do to rows\<close>

definition row_passes :: "BoundExpression \<Rightarrow> cell list \<Rightarrow> bool" where
  "row_passes p row = (eval_row p row = Inr (RBool True, True))"

definition rows_defined :: "BoundExpression \<Rightarrow> DataChunk \<Rightarrow> bool" where
  "rows_defined e dc = (\<forall>i < dc_row_count dc. \<exists>v. eval_row e (chunk_row dc i) = Inr v)"

lemma selection_loop:
  assumes "chunk_inv dc" and "\<And>i. i < dc_row_count dc \<Longrightarrow>
      (\<And>d. chunk_inv d \<Longrightarrow> dc_row_count d = dc_row_count dc \<Longrightarrow> row_selected d i = row_selected dc i \<Longrightarrow>
         val i d = Inr (g i))"
  shows "\<exists>v. rfold (\<lambda>i dc. rbind (val i dc) (SetRowSelected dc i)) [0..<dc_row_count dc] dc =
      Inr (dc\<lparr>dc_selection := v\<rparr>) \<and> chunk_inv (dc\<lparr>dc_selection := v\<rparr>) \<and>
      vb_bits v = map g [0..<dc_row_count dc]"
proof -
  have "\<exists>v. rfold (\<lambda>i dc. rbind (val i dc) (SetRowSelected dc i)) [0..<k] dc = Inr (dc\<lparr>dc_selection := v\<rparr>) \<and>
      chunk_inv (dc\<lparr>dc_selection := v\<rparr>) \<and> length (vb_bits v) = dc_row_count dc \<and>
      (\<forall>i < dc_row_count dc. vb_bits v ! i = (if i < k then g i else row_selected dc i))"
    if "k \<le> dc_row_count dc" for k
    using that
  proof (induction k)
    case 0
    then show ?case using assms(1) by (auto simp: row_selected_def chunk_inv_def intro!: exI [of _ "dc_selection dc"])
  next
    case (Suc k)
    then obtain v where v: "rfold (\<lambda>i dc. rbind (val i dc) (SetRowSelected dc i)) [0..<k] dc = Inr (dc\<lparr>dc_selection := v\<rparr>)"
      "chunk_inv (dc\<lparr>dc_selection := v\<rparr>)" "length (vb_bits v) = dc_row_count dc"
      "\<forall>i < dc_row_count dc. vb_bits v ! i = (if i < k then g i else row_selected dc i)" by auto
    then have "row_selected (dc\<lparr>dc_selection := v\<rparr>) k = row_selected dc k"
      using Suc.prems by (simp add: row_selected_def)
    with assms(2) [of k "dc\<lparr>dc_selection := v\<rparr>"] v(2) Suc.prems
    have "val k (dc\<lparr>dc_selection := v\<rparr>) = Inr (g k)" by simp
    moreover from SetRowSelected_spec [OF v(2), of k "g k"] Suc.prems obtain w where
      "SetRowSelected (dc\<lparr>dc_selection := v\<rparr>) k (g k) = Inr (dc\<lparr>dc_selection := w\<rparr>)"
      "chunk_inv (dc\<lparr>dc_selection := w\<rparr>)" and w: "vb_bits w = (vb_bits v)[k := g k]" by auto
    moreover have "length (vb_bits w) = dc_row_count dc"
      using v(3) by (simp only: w length_list_update)
    ultimately show ?case
      using v(1,3,4) Suc.prems
      by (intro exI [of _ w]) (auto simp: rfold_append nth_list_update less_Suc_eq)
  qed
  from this [of "dc_row_count dc"] obtain v where
    "rfold (\<lambda>i dc. rbind (val i dc) (SetRowSelected dc i)) [0..<dc_row_count dc] dc = Inr (dc\<lparr>dc_selection := v\<rparr>)"
    "chunk_inv (dc\<lparr>dc_selection := v\<rparr>)" "length (vb_bits v) = dc_row_count dc"
    "\<forall>i < dc_row_count dc. vb_bits v ! i = g i" by auto
  then show ?thesis
    by (auto intro!: exI [of _ v] nth_equalityI)
qed

lemma filter_chunk_spec:
  assumes inv: "chunk_inv dc" and wt: "expr_wt (chunk_types dc) p" and bool: "ResultType p = etBoolean"
    and ok: "rows_defined p dc"
  shows "\<exists>dc'. filter_chunk p dc = Inr dc' \<and> chunk_inv dc' \<and> chunk_types dc' = chunk_types dc \<and>
    dc_row_count dc' = dc_row_count dc \<and> dc_columns dc' = dc_columns dc \<and>
    chunk_rows dc' = filter (row_passes p) (chunk_rows dc)"
proof -
  let ?n = "dc_row_count dc"
  obtain r where r: "EvaluateExpr p dc = Inr r" "result_inv ?n r" "result_type r = etBoolean"
    "\<And>i. i < ?n \<Longrightarrow> eval_row p (chunk_row dc i) = Inr (result_cells r ! i)"
    using EvaluateExpr_agrees [OF inv wt] ok bool
    by (cases "EvaluateExpr p dc") (auto simp: eval_agrees_def rows_defined_def)
  then obtain b where b: "r = BoolResult b" by (cases r rule: result_cases) simp_all
  let ?pass = "\<lambda>i. row_selected dc i \<and> vb_bits (bool_values b) ! i \<and> vb_bits (bool_validity b) ! i"
  have pass: "?pass i \<longleftrightarrow> row_selected dc i \<and> row_passes p (chunk_row dc i)" if "i < ?n" for i
    using r(2) r(4) [OF that] that by (auto simp: b row_passes_def)
  let ?val = "\<lambda>i chunk. rbind (IsRowSelected chunk i) (\<lambda>s. if \<not> s then Inr False
      else rbind (IsValid (bool_values b) i) (\<lambda>v. if \<not> v then Inr False
      else IsValid (bool_validity b) i))"
  have "?val i d = Inr (?pass i)" if "i < ?n" "chunk_inv d" "dc_row_count d = ?n"
      "row_selected d i = row_selected dc i" for i d
    using that r(2) by (simp add: b IsRowSelected_spec IsValid_bits)
  from selection_loop [where val = ?val and g = ?pass, OF inv this] obtain v where
    v: "rfold (\<lambda>i dc. rbind (?val i dc) (SetRowSelected dc i)) [0..<?n] dc = Inr (dc\<lparr>dc_selection := v\<rparr>)"
      "chunk_inv (dc\<lparr>dc_selection := v\<rparr>)" "vb_bits v = map ?pass [0..<?n]"
    by blast
  then have res: "filter_chunk p dc = Inr (dc\<lparr>dc_selection := v\<rparr>)"
    using r(1) by (simp add: filter_chunk_def b)
  have "chunk_row (dc\<lparr>dc_selection := v\<rparr>) = chunk_row dc"
    by (simp add: chunk_row_def fun_eq_iff)
  moreover have "filter (row_selected (dc\<lparr>dc_selection := v\<rparr>)) [0..<?n] =
      filter (\<lambda>i. row_selected dc i \<and> row_passes p (chunk_row dc i)) [0..<?n]"
    using pass by (intro filter_cong) (simp_all add: row_selected_def v(3))
  ultimately have "chunk_rows (dc\<lparr>dc_selection := v\<rparr>) = filter (row_passes p) (chunk_rows dc)"
    by (simp add: chunk_rows_def filter_map comp_def conj_commute)
  with v res show ?thesis
    by (auto simp: chunk_types_def)
qed

text \<open>The cell a projected expression gives.\<close>

definition projected_cell :: "BoundExpression \<Rightarrow> cell list \<Rightarrow> cell" where
  "projected_cell e row = (case eval_row e row of Inr (RVal v, b) \<Rightarrow> (v, b) | _ \<Rightarrow> (VInt 0, False))"

fun type_of :: "ExpressionType \<Rightarrow> TypeId" where
  "type_of etInteger = kInteger"
| "type_of etFloat = kFloat"
| "type_of _ = kVarchar"

lemma EvaluateExpr_column:
  assumes inv: "chunk_inv dc" and wt: "expr_wt (chunk_types dc) e" and ty: "ResultType e \<noteq> etBoolean"
    and ok: "rows_defined e dc"
  shows "\<exists>c. EvaluateExpr e dc = Inr (ColumnResult c) \<and> col_inv c \<and> column_type c = type_of (ResultType e) \<and>
    col_cells c = map (\<lambda>i. projected_cell e (chunk_row dc i)) [0..<dc_row_count dc]"
proof -
  let ?n = "dc_row_count dc"
  obtain r where r: "EvaluateExpr e dc = Inr r" "result_inv ?n r" "result_type r = ResultType e"
    "\<And>i. i < ?n \<Longrightarrow> eval_row e (chunk_row dc i) = Inr (result_cells r ! i)"
    using EvaluateExpr_agrees [OF inv wt] ok
    by (cases "EvaluateExpr e dc") (auto simp: eval_agrees_def rows_defined_def)
  with ty obtain c where c: "r = ColumnResult c" by (cases r) simp_all
  have "projected_cell e (chunk_row dc i) = col_cells c ! i" if "i < ?n" for i
    using r(2) r(4) [OF that] that by (cases "col_cells c ! i") (simp add: c projected_cell_def)
  then have "col_cells c = map (\<lambda>i. projected_cell e (chunk_row dc i)) [0..<?n]"
    using r(2) by (intro nth_equalityI) (simp_all add: c)
  moreover have "type_of (ToExpressionType t) = t" for t by (cases t) simp_all
  then have "column_type c = type_of (ResultType e)"
    using r(3) by (metis c result_type.simps(1))
  ultimately show ?thesis
    using r(1,2) by (simp add: c)
qed

lemma add_projected_loop:
  assumes "chunk_inv out" and "\<forall>c \<in> set cs. col_inv c \<and> length (col_cells c) = dc_row_count out"
  shows "rfold add_projected (map ColumnResult cs) out = Inr (out\<lparr>dc_columns := dc_columns out @ cs\<rparr>) \<and>
    chunk_inv (out\<lparr>dc_columns := dc_columns out @ cs\<rparr>)"
  using assms
proof (induction cs arbitrary: out)
  case (Cons c cs)
  then have "add_projected (ColumnResult c) out = Inr (out\<lparr>dc_columns := dc_columns out @ [c]\<rparr>)"
    and "chunk_inv (out\<lparr>dc_columns := dc_columns out @ [c]\<rparr>)"
    using dc_AddColumn_spec [of out c] by (simp_all add: add_projected_def)
  with Cons.IH [of "out\<lparr>dc_columns := dc_columns out @ [c]\<rparr>"] Cons.prems show ?case
    by simp
qed simp

lemma project_chunk_spec:
  assumes inv: "chunk_inv dc"
    and es: "\<forall>e \<in> set es. expr_wt (chunk_types dc) e \<and> ResultType e \<noteq> etBoolean \<and> rows_defined e dc"
  shows "\<exists>dc'. project_chunk es dc = Inr dc' \<and> chunk_inv dc' \<and> dc_row_count dc' = dc_row_count dc \<and>
    chunk_types dc' = map (type_of \<circ> ResultType) es \<and>
    chunk_rows dc' = map (\<lambda>row. map (\<lambda>e. projected_cell e row) es) (chunk_rows dc)"
proof -
  let ?n = "dc_row_count dc"
  have "\<exists>c. EvaluateExpr e dc = Inr (ColumnResult c) \<and> col_inv c \<and> column_type c = type_of (ResultType e) \<and>
      col_cells c = map (\<lambda>i. projected_cell e (chunk_row dc i)) [0..<?n]" if "e \<in> set es" for e
    using es that by (intro EvaluateExpr_column [OF inv]) auto
  then obtain col where col: "\<And>e. e \<in> set es \<Longrightarrow> EvaluateExpr e dc = Inr (ColumnResult (col e)) \<and> col_inv (col e) \<and>
      column_type (col e) = type_of (ResultType e) \<and>
      col_cells (col e) = map (\<lambda>i. projected_cell e (chunk_row dc i)) [0..<?n]" by metis
  then have batch: "rmap (\<lambda>e. EvaluateExpr e dc) es = Inr (map ColumnResult (map col es))"
    using rmap_Inr [of es "\<lambda>e. EvaluateExpr e dc" "\<lambda>e. ColumnResult (col e)"] by (simp add: comp_def)
  from inv have "?n \<le> kVectorSize" by (simp add: chunk_inv_def)
  from MakeDataChunk_spec [OF this] obtain out where
    out: "MakeDataChunk ?n = Inr out" "chunk_inv out" "dc_row_count out = ?n" "dc_columns out = []" by blast
  have "IsRowSelected dc i = Inr (row_selected dc i)" if "i < dc_row_count out" for i
    using IsRowSelected_spec [OF inv] that out(3) by simp
  from selection_loop [where val = "\<lambda>i _. IsRowSelected dc i" and g = "row_selected dc", OF out(2) this]
  obtain v where v: "rfold (\<lambda>row output. rbind (IsRowSelected dc row) (SetRowSelected output row)) [0..<?n] out =
      Inr (out\<lparr>dc_selection := v\<rparr>)" "chunk_inv (out\<lparr>dc_selection := v\<rparr>)"
      "vb_bits v = map (row_selected dc) [0..<?n]"
    using out(3) by auto
  let ?dc' = "out\<lparr>dc_selection := v, dc_columns := map col es\<rparr>"
  from add_projected_loop [OF v(2), of "map col es"] col out(3,4)
  have "rfold add_projected (map ColumnResult (map col es)) (out\<lparr>dc_selection := v\<rparr>) = Inr ?dc'" "chunk_inv ?dc'"
    by simp_all
  moreover from this have "project_chunk es dc = Inr ?dc'"
    using batch out(1) v(1) by (simp add: project_chunk_def)
  moreover have "chunk_types ?dc' = map (type_of \<circ> ResultType) es"
    using col by (simp add: chunk_types_def)
  moreover have "chunk_row ?dc' i = map (\<lambda>e. projected_cell e (chunk_row dc i)) es" if "i < ?n" for i
    using col that by (simp add: chunk_row_def)
  then have "chunk_rows ?dc' = map (\<lambda>row. map (\<lambda>e. projected_cell e row) es) (chunk_rows dc)"
    by (auto simp: chunk_rows_def out(3) row_selected_def v(3) comp_def intro!: map_cong filter_cong)
  ultimately show ?thesis
    using out(3) by auto
qed

section \<open>Row operators\<close>

text \<open>
  A chunk-wise operator whose effect on the selected rows is a function of them that
  distributes over concatenation. Its output rows are then that function of the input rows,
  independently of how the child cuts them into chunks.
\<close>

locale row_operator =
  fixes step :: "DataChunk \<Rightarrow> DataChunk result"
    and accepts :: "DataChunk \<Rightarrow> bool"
    and out_types :: "TypeId list"
    and on_rows :: "cell list list \<Rightarrow> cell list list"
  assumes step_rows: "accepts c \<Longrightarrow>
      \<exists>d. step c = Inr d \<and> chunk_inv d \<and> chunk_types d = out_types \<and> chunk_rows d = on_rows (chunk_rows c)"
    and on_rows_Nil: "on_rows [] = []"
    and on_rows_append: "on_rows (xs @ ys) = on_rows xs @ on_rows ys"
begin

lemma on_rows_concat: "on_rows (concat xss) = concat (map on_rows xss)"
  by (induction xss) (simp_all add: on_rows_Nil on_rows_append)

lemma produces_rows:
  assumes "produces child s cs s'" and "\<And>c. c \<in> set cs \<Longrightarrow> accepts c"
  obtains ds where "produces (chunkwise step child) s ds s'" "\<And>d. d \<in> set ds \<Longrightarrow> chunk_inv d \<and> chunk_types d = out_types"
    "concat (map chunk_rows ds) = on_rows (concat (map chunk_rows cs))"
proof -
  let ?P = "\<lambda>c d. chunk_inv d \<and> chunk_types d = out_types \<and> chunk_rows d = on_rows (chunk_rows c)"
  have step: "\<exists>d. step c = Inr d \<and> ?P c d" if "c \<in> set cs" for c
    using step_rows assms(2) that by blast
  obtain ds where ds: "produces (chunkwise step child) s ds s'" "list_all2 ?P cs ds"
    by (rule chunkwise_produces_Ex [OF assms(1), of step ?P]) (rule step)
  from ds(2) have "map chunk_rows ds = map (on_rows \<circ> chunk_rows) cs"
    by (induction rule: list_all2_induct) simp_all
  then have "concat (map chunk_rows ds) = on_rows (concat (map chunk_rows cs))"
    by (simp add: on_rows_concat)
  moreover have "chunk_inv d \<and> chunk_types d = out_types" if "d \<in> set ds" for d
    using ds(2) that by (induction rule: list_all2_induct) auto
  ultimately show thesis
    using that ds(1) by blast
qed

end

definition chunk_accepts :: "TypeId list \<Rightarrow> BoundExpression \<Rightarrow> DataChunk \<Rightarrow> bool" where
  "chunk_accepts ts e dc = (chunk_inv dc \<and> chunk_types dc = ts \<and> expr_wt ts e \<and> rows_defined e dc)"

interpretation filter_rows: row_operator "filter_chunk p"
  "\<lambda>dc. chunk_accepts ts p dc \<and> ResultType p = etBoolean" ts "filter (row_passes p)" for p ts
proof
  show "\<exists>d. filter_chunk p c = Inr d \<and> chunk_inv d \<and> chunk_types d = ts \<and>
      chunk_rows d = filter (row_passes p) (chunk_rows c)"
    if "chunk_accepts ts p c \<and> ResultType p = etBoolean" for c
    using filter_chunk_spec [of c p] that by (auto simp: chunk_accepts_def)
qed simp_all

interpretation project_rows: row_operator "project_chunk es"
  "\<lambda>dc. chunk_inv dc \<and> (\<forall>e \<in> set es. chunk_accepts (chunk_types dc) e dc \<and> ResultType e \<noteq> etBoolean)"
  "map (type_of \<circ> ResultType) es" "map (\<lambda>row. map (\<lambda>e. projected_cell e row) es)" for es
proof
  show "\<exists>d. project_chunk es c = Inr d \<and> chunk_inv d \<and> chunk_types d = map (type_of \<circ> ResultType) es \<and>
      chunk_rows d = map (\<lambda>row. map (\<lambda>e. projected_cell e row) es) (chunk_rows c)"
    if "chunk_inv c \<and> (\<forall>e \<in> set es. chunk_accepts (chunk_types c) e c \<and> ResultType e \<noteq> etBoolean)" for c
    using project_chunk_spec [of c es] that by (auto simp: chunk_accepts_def)
qed simp_all

end
