(* ===== verification/SeqScan.thy ===== *)
theory SeqScan
  imports BufferPool Insert Operators
begin

text \<open>
  \<open>execution/seq_scan_operator\<close>: a scan walks over the row groups of a table, skips those
  whose zone map rules its condition out, and turns each vector of at most \<open>kVectorSize\<close>
  rows into a chunk of the required columns, reading pages through the buffer pool. The
  state of a scan is the operator and the pool over its disk.

  The columns of a chunk are values here; in the code they are pointers into vectors of the
  operator that live until the next call.
\<close>

section \<open>Reading stored values\<close>

text \<open>Element \<open>i\<close> of memory read as an array of 32-bit integers.\<close>

definition u32_at :: "bytes \<Rightarrow> nat \<Rightarrow> uint32 result" where
  "u32_at bs i = rbind (ReadU32 (reader_at bs (4 * i))) (\<lambda>(v, _). Inr v)"

text \<open>A range of memory read as a \<open>std::string_view\<close>.\<close>

definition string_at :: "bytes \<Rightarrow> nat \<Rightarrow> nat \<Rightarrow> string result" where
  "string_at bs start len =
     (if start + len \<le> length bs then Inr (string_of_bytes (take len (drop start bs)))
      else Inl (UndefinedBehaviour ''string view out of range''))"

definition IsColumnValidAtRow :: "bytes \<Rightarrow> uint32 \<Rightarrow> nat \<Rightarrow> uint32 \<Rightarrow> bool result" where
  "IsColumnValidAtRow bitmap_region row_group_row_count column_ordinal row_in_group =
     (let bytes_per_column = unat ((row_group_row_count + 7) div 8)
      in rbind (vec_at bitmap_region (column_ordinal * bytes_per_column + unat row_in_group div 8)) (\<lambda>b.
           Inr (drop_bit (unat row_in_group mod 8) b AND 1 \<noteq> 0)))"

section \<open>Zone map pruning\<close>

datatype ZoneConstant = ZoneInt int32 | ZoneFloat float32

record ZoneMapSkipCondition =
  zs_ordinal :: nat
  zs_op :: BinaryOperator
  zs_constant :: ZoneConstant

definition zone_rules_out ::
    "('a \<Rightarrow> 'a \<Rightarrow> bool) \<Rightarrow> ('a \<Rightarrow> 'a \<Rightarrow> bool) \<Rightarrow> BinaryOperator \<Rightarrow> 'a ZoneMap \<Rightarrow> 'a \<Rightarrow> bool" where
  "zone_rules_out lt le op zone constant =
     (if \<not> zm_has_values zone then False
      else let min_val = zm_min zone; max_val = zm_max zone
           in case op of
                kGreaterThan \<Rightarrow> \<not> lt constant max_val
              | kGreaterThanOrEqual \<Rightarrow> \<not> le constant max_val
              | kLessThan \<Rightarrow> \<not> lt min_val constant
              | kLessThanOrEqual \<Rightarrow> \<not> le min_val constant
              | kEqual \<Rightarrow> lt constant min_val \<or> lt max_val constant
              | _ \<Rightarrow> False)"

definition ZoneMapRulesOutRowGroup :: "RowGroupFooterEntry \<Rightarrow> ZoneMapSkipCondition \<Rightarrow> bool result" where
  "ZoneMapRulesOutRowGroup row_group condition =
     rbind (rg_Column row_group (zs_ordinal condition)) (\<lambda>entry.
       case zs_constant condition of
         ZoneInt constant \<Rightarrow>
           (case entry of
              IntEntry e \<Rightarrow> Inr (zone_rules_out word_sless word_sle (zs_op condition) (fe_zone_map e) constant)
            | _ \<Rightarrow> Inl BadVariantAccess)
       | ZoneFloat constant \<Rightarrow>
           (case entry of
              FloatEntry e \<Rightarrow> Inr (zone_rules_out f32_less f32_less_eq (zs_op condition) (fe_zone_map e) constant)
            | _ \<Rightarrow> Inl BadVariantAccess))"

section \<open>SeqScanOperator\<close>

record SeqScanOperator =
  sc_table :: TableObject
  sc_required_ordinals :: "nat list"
  sc_zone_map_skip :: "ZoneMapSkipCondition option"
  sc_row_group_index :: nat
  sc_vector_index :: uint32

type_synonym scan_state = "SeqScanOperator \<times> pool_state"

definition MakeSeqScanOperator ::
    "TableObject \<Rightarrow> nat list \<Rightarrow> ZoneMapSkipCondition option \<Rightarrow> SeqScanOperator" where
  "MakeSeqScanOperator table required_ordinals zone_map_skip =
     \<lparr>sc_table = table, sc_required_ordinals = required_ordinals, sc_zone_map_skip = zone_map_skip,
      sc_row_group_index = 0, sc_vector_index = 0\<rparr>"

definition skips_group :: "ZoneMapSkipCondition option \<Rightarrow> RowGroupFooterEntry \<Rightarrow> bool result" where
  "skips_group zone_map_skip row_group =
     (case zone_map_skip of
        None \<Rightarrow> Inr False
      | Some condition \<Rightarrow> ZoneMapRulesOutRowGroup row_group condition)"

function AdvanceToUsableRowGroup :: "(SeqScanOperator, bool) action" where
  "AdvanceToUsableRowGroup sc =
     (if sc_row_group_index sc < length (to_row_groups (sc_table sc))
      then (case skips_group (sc_zone_map_skip sc) (to_row_groups (sc_table sc) ! sc_row_group_index sc) of
              Inl e \<Rightarrow> (Inl e, sc)
            | Inr True \<Rightarrow> AdvanceToUsableRowGroup
                (sc\<lparr>sc_row_group_index := sc_row_group_index sc + 1, sc_vector_index := 0\<rparr>)
            | Inr False \<Rightarrow> (Inr True, sc))
      else (Inr False, sc))"
  by pat_completeness auto
termination
  by (relation "measure (\<lambda>sc. length (to_row_groups (sc_table sc)) - sc_row_group_index sc)") auto

declare AdvanceToUsableRowGroup.simps [simp del]

abbreviation read_page :: "uint32 \<Rightarrow> (pool_state, bytes) action" where
  "read_page \<equiv> copy_page FetchPage UnpinPage deref_frame"

definition FetchWholeRegion :: "PageRange \<Rightarrow> (pool_state, bytes) action" where
  "FetchWholeRegion rng =
     sbind (smap (\<lambda>i. read_page (start_page_id rng + word_of_nat i)) [0..<unat (page_count rng)])
       (\<lambda>pages. sreturn (concat pages))"

text \<open>The two instances of the fixed-width template are told apart by the type of \<open>T\<close>.\<close>

fun fixed_width_pages :: "TypeId \<Rightarrow> ColumnFooterEntry \<Rightarrow> PageRange result" where
  "fixed_width_pages kInteger (IntEntry e) = Inr (fe_pages e)"
| "fixed_width_pages kFloat (FloatEntry e) = Inr (fe_pages e)"
| "fixed_width_pages _ _ = Inl BadVariantAccess"

fun value_of_bits :: "TypeId \<Rightarrow> uint32 \<Rightarrow> ConstValue" where
  "value_of_bits kInteger w = VInt w"
| "value_of_bits _ w = VFloat (Float32 w)"

definition fixed_width_rows ::
    "TypeId \<Rightarrow> bytes \<Rightarrow> bytes \<Rightarrow> uint32 \<Rightarrow> nat \<Rightarrow> uint32 \<Rightarrow> nat \<Rightarrow> ColumnVariant result" where
  "fixed_width_rows t page bitmap group_rows ordinal start_row row_count =
     rfold (\<lambda>i column.
         rbind (IsColumnValidAtRow bitmap group_rows ordinal (start_row + word_of_nat i)) (\<lambda>valid.
           if \<not> valid then col_AppendNull column
           else rbind (u32_at page i) (\<lambda>w. col_Append column (value_of_bits t w))))
       [0..<row_count] (EmptyColumn t)"

definition AppendFixedWidth ::
    "TypeId \<Rightarrow> DataChunk \<Rightarrow> RowGroupFooterEntry \<Rightarrow> nat \<Rightarrow> uint32 \<Rightarrow> nat \<Rightarrow> uint32 \<Rightarrow> (pool_state, DataChunk) action" where
  "AppendFixedWidth t chunk row_group ordinal start_row row_count vector_index =
     sbind (sresult (rbind (rg_Column row_group ordinal) (fixed_width_pages t))) (\<lambda>page_range.
       let page_id = start_page_id page_range + vector_index
       in sbind (FetchPage page_id) (\<lambda>page.
          sbind (FetchWholeRegion (rg_validity_bitmap_region row_group)) (\<lambda>bitmap.
          sbind (\<lambda>s. (fixed_width_rows t (deref_frame s page) bitmap (rg_row_count row_group)
                        ordinal start_row row_count, s)) (\<lambda>column.
          sbind (UnpinPage page_id False) (\<lambda>_.
            sresult (dc_AddColumn chunk column))))))"

fun varchar_pages :: "ColumnFooterEntry \<Rightarrow> (PageRange \<times> PageRange) result" where
  "varchar_pages (VarcharEntry e) = Inr (ve_offsets_pages e, ve_data_pages e)"
| "varchar_pages _ = Inl BadVariantAccess"

text \<open>
  The loop \<open>for (p = first; p <= last; ++p)\<close>. With the largest page id as \<open>last\<close> it does not
  stop and writes past its buffer.
\<close>

definition fetch_data_pages :: "uint32 \<Rightarrow> uint32 \<Rightarrow> (pool_state, bytes) action" where
  "fetch_data_pages first_page last_page =
     sbind (smap (\<lambda>p. read_page (word_of_nat p)) [unat first_page..<unat last_page + 1]) (\<lambda>pages.
       if last_page = -1 then sthrow (UndefinedBehaviour ''write past the end of a vector'')
       else sreturn (concat pages))"

definition varchar_rows ::
    "bytes \<Rightarrow> bytes \<Rightarrow> uint32 \<Rightarrow> bytes \<Rightarrow> uint32 \<Rightarrow> nat \<Rightarrow> uint32 \<Rightarrow> nat \<Rightarrow> ColumnVariant result" where
  "varchar_rows offsets scratch scratch_base bitmap group_rows ordinal start_row row_count =
     rfold (\<lambda>i column.
         rbind (IsColumnValidAtRow bitmap group_rows ordinal (start_row + word_of_nat i)) (\<lambda>valid.
         rbind (u32_at offsets (unat (start_row + word_of_nat i))) (\<lambda>o1.
         rbind (u32_at offsets (unat (start_row + word_of_nat i + 1))) (\<lambda>o2.
           let s = o1 - scratch_base; e = o2 - scratch_base
           in if \<not> valid then col_AppendNull column
              else rbind (string_at scratch (unat s) (unat (e - s))) (\<lambda>v. col_Append column (VString v))))))
       [0..<row_count] (EmptyColumn kVarchar)"

text \<open>
  The pages of a vector are those from the offset of its first row to the offset behind its
  last one. Offsets are written in ascending order; in a corrupt file they might descend, and
  then no page is fetched here, where the code asks for a buffer of a wrapped-around size.
\<close>

definition AppendVarchar ::
    "DataChunk \<Rightarrow> RowGroupFooterEntry \<Rightarrow> nat \<Rightarrow> uint32 \<Rightarrow> nat \<Rightarrow> (pool_state, DataChunk) action" where
  "AppendVarchar chunk row_group ordinal start_row row_count =
     sbind (sresult (rbind (rg_Column row_group ordinal) varchar_pages)) (\<lambda>(offsets_range, data_range).
     sbind (FetchWholeRegion offsets_range) (\<lambda>offsets.
     sbind (sresult (u32_at offsets (unat start_row))) (\<lambda>byte_start.
     sbind (sresult (u32_at offsets (unat (start_row + word_of_nat row_count)))) (\<lambda>byte_end.
       let first_data_page = start_page_id data_range + byte_start div 4096;
           last_data_page = start_page_id data_range + byte_end div 4096;
           scratch_base = (first_data_page - start_page_id data_range) * 4096;
           bitmap_page_id = start_page_id (rg_validity_bitmap_region row_group)
       in sbind (fetch_data_pages first_data_page last_data_page) (\<lambda>scratch.
          sbind (FetchPage bitmap_page_id) (\<lambda>bitmap_page.
          sbind (\<lambda>s. (varchar_rows offsets scratch scratch_base (deref_frame s bitmap_page)
                        (rg_row_count row_group) ordinal start_row row_count, s)) (\<lambda>column.
          sbind (UnpinPage bitmap_page_id False) (\<lambda>_.
            sresult (dc_AddColumn chunk column)))))))))"

definition AppendColumn ::
    "SeqScanOperator \<Rightarrow> RowGroupFooterEntry \<Rightarrow> uint32 \<Rightarrow> nat \<Rightarrow> DataChunk \<Rightarrow> nat \<Rightarrow> (pool_state, DataChunk) action" where
  "AppendColumn sc row_group start_row row_count chunk ordinal =
     sbind (sresult (to_Column (sc_table sc) ordinal)) (\<lambda>column.
       case cd_type column of
         kVarchar \<Rightarrow> AppendVarchar chunk row_group ordinal start_row row_count
       | t \<Rightarrow> AppendFixedWidth t chunk row_group ordinal start_row row_count (sc_vector_index sc))"

fun append_columns ::
    "SeqScanOperator \<Rightarrow> RowGroupFooterEntry \<Rightarrow> uint32 \<Rightarrow> nat \<Rightarrow> nat list \<Rightarrow> DataChunk \<Rightarrow>
     (pool_state, DataChunk) action" where
  "append_columns sc row_group start_row row_count [] chunk = sreturn chunk"
| "append_columns sc row_group start_row row_count (ordinal # ordinals) chunk =
     sbind (AppendColumn sc row_group start_row row_count chunk ordinal)
       (append_columns sc row_group start_row row_count ordinals)"

text \<open>One vector of the current row group as a chunk.\<close>

definition scan_vector :: "SeqScanOperator \<Rightarrow> RowGroupFooterEntry \<Rightarrow> (pool_state, DataChunk) action" where
  "scan_vector sc row_group =
     (let start_row = sc_vector_index sc * 1024;
          this_vector_rows = min kVectorSize (unat (rg_row_count row_group - start_row))
      in sbind (sresult (rbind (MakeDataChunk this_vector_rows)
                  (rfold (\<lambda>i chunk. SetRowSelected chunk i True) [0..<this_vector_rows]))) (\<lambda>chunk.
           append_columns sc row_group start_row this_vector_rows (sc_required_ordinals sc) chunk))"

definition next_vector :: "RowGroupFooterEntry \<Rightarrow> SeqScanOperator \<Rightarrow> SeqScanOperator" where
  "next_vector row_group sc =
     (let vector_index = sc_vector_index sc + 1
      in if unat vector_index * kVectorSize \<ge> unat (rg_row_count row_group)
         then sc\<lparr>sc_vector_index := 0, sc_row_group_index := sc_row_group_index sc + 1\<rparr>
         else sc\<lparr>sc_vector_index := vector_index\<rparr>)"

definition SeqScan_GetNext :: "(scan_state, DataChunk option) action" where
  "SeqScan_GetNext = (\<lambda>(sc, pool).
     case AdvanceToUsableRowGroup sc of
       (Inl e, sc) \<Rightarrow> (Inl e, (sc, pool))
     | (Inr False, sc) \<Rightarrow> (Inr None, (sc, pool))
     | (Inr True, sc) \<Rightarrow>
         (let row_group = to_row_groups (sc_table sc) ! sc_row_group_index sc
          in case scan_vector sc row_group pool of
               (Inl e, pool) \<Rightarrow> (Inl e, (sc, pool))
             | (Inr chunk, pool) \<Rightarrow> (Inr (Some chunk), (next_vector row_group sc, pool))))"

end
