(* ===== verification/ScanCorrect.thy ===== *)
theory ScanCorrect
  imports SeqScan
begin

text \<open>
  What a scan returns. A vector read from pages that hold a row group is the corresponding
  slice of its cells; a scan yields, vector by vector, the rows of all row groups that its
  zone map condition does not rule out; and a row group it skips has no row that satisfies
  the condition.
\<close>

section \<open>Memory\<close>

lemma u32_at_append:
  "length pre = 4 * i \<Longrightarrow> u32_at (pre @ WriteU32 [] w @ rest) i = Inr w"
  using parsesD [OF u32.rd_wr [OF TrueI, of w], of pre rest] by (simp add: u32_at_def)

lemma fixed_bytes_append: "fixed_bytes bits (us @ vs) = fixed_bytes bits us @ fixed_bytes bits vs"
  by (simp add: fixed_bytes_def)

lemma u32_at_fixed:
  assumes "i < length vs"
  shows "u32_at (fixed_bytes bits vs @ rest) i = Inr (bits (vs ! i))"
proof -
  have "fixed_bytes bits vs @ rest =
      fixed_bytes bits (take i vs) @ WriteU32 [] (bits (vs ! i)) @ fixed_bytes bits (drop (Suc i) vs) @ rest"
    by (subst id_take_nth_drop [OF assms]) (simp add: fixed_bytes_def)
  then show ?thesis
    using u32_at_append [of "fixed_bytes bits (take i vs)" i] assms by (simp add: min_def)
qed

lemma drop_fixed_bytes: "k \<le> length vs \<Longrightarrow> drop (4 * k) (fixed_bytes bits vs @ rest) = fixed_bytes bits (drop k vs) @ rest"
  using fixed_bytes_append [of bits "take k vs" "drop k vs"] by (simp add: min_def)

text \<open>Value \<open>i\<close> of page \<open>k\<close> is value \<open>k * kVectorSize + i\<close> of the column.\<close>

lemma u32_at_page:
  assumes "i < kVectorSize" and "k * kVectorSize + i < length vs"
  shows "u32_at (page_slice k (fixed_bytes bits vs @ rest)) i = Inr (bits (vs ! (k * kVectorSize + i)))"
proof -
  define ds where "ds = drop (k * kVectorSize) vs"
  have pos: "k * kPageSizeBytes = 4 * (k * kVectorSize)" by (simp add: size_consts)
  have "drop (k * kPageSizeBytes) (fixed_bytes bits vs @ rest) = fixed_bytes bits ds @ rest"
    unfolding pos ds_def by (rule drop_fixed_bytes) (use assms(2) in simp)
  moreover have "take kPageSizeBytes (fixed_bytes bits ds @ rest) =
      fixed_bytes bits (take kVectorSize ds) @ take (kPageSizeBytes - 4 * length ds) rest"
  proof -
    have "fixed_bytes bits ds = fixed_bytes bits (take kVectorSize ds) @ fixed_bytes bits (drop kVectorSize ds)"
      using fixed_bytes_append [of bits "take kVectorSize ds" "drop kVectorSize ds"] by simp
    moreover have "kPageSizeBytes = 4 * kVectorSize" by (simp add: size_consts)
    ultimately show ?thesis
      by (cases "length ds \<le> kVectorSize") (simp_all add: min_def)
  qed
  ultimately show ?thesis
    using assms u32_at_fixed [of i "take kVectorSize ds" bits "take (kPageSizeBytes - 4 * length ds) rest"]
    by (simp add: page_slice_def ds_def)
qed

lemma concat_page_slices:
  assumes "a \<le> b" and "b * kPageSizeBytes \<le> length bs"
  shows "concat (map (\<lambda>k. page_slice k bs) [a..<b]) = take ((b - a) * kPageSizeBytes) (drop (a * kPageSizeBytes) bs)"
  using assms
proof (induction b)
  case (Suc b)
  show ?case
  proof (cases "a = Suc b")
    case False
    then have "a \<le> b" using Suc.prems(1) by simp
    moreover have "(Suc b - a) * kPageSizeBytes = (b - a) * kPageSizeBytes + kPageSizeBytes"
      using \<open>a \<le> b\<close> by (simp add: Suc_diff_le)
    moreover have "(b - a) * kPageSizeBytes + a * kPageSizeBytes = b * kPageSizeBytes"
      using \<open>a \<le> b\<close> by (simp flip: distrib_right)
    ultimately show ?thesis
      using Suc by (simp add: take_add page_slice_def)
  qed simp
qed simp

lemma region_bytes:
  assumes "length bs \<le> n * kPageSizeBytes"
  shows "concat (map (\<lambda>k. page_slice k (padded_to_pages n bs)) [0..<n]) = padded_to_pages n bs"
  using concat_page_slices [of 0 n "padded_to_pages n bs"] length_padded [OF assms] by simp

lemma smap_map: "smap f (map g xs) = smap (\<lambda>x. f (g x)) xs"
  by (induction xs) simp_all

definition spare_frames :: "nat \<Rightarrow> pool_state \<Rightarrow> bool" where
  "spare_frames k s = (card {q. 0 < pins s q} + k \<le> pool_size (fst s))"

lemma spare_kept: "cache.kept s s' \<Longrightarrow> spare_frames k s' = spare_frames k s"
  by (auto simp: cache.kept_def spare_frames_def split: prod.splits)

lemma FetchWholeRegion_spec:
  assumes "pool_inv s" and "region_holds (pool_page s) rng bs" and "spare_frames 1 s"
  obtains s' where "FetchWholeRegion rng s = (Inr (padded_to_pages (unat (page_count rng)) bs), s')" "cache.kept s s'"
proof -
  let ?n = "unat (page_count rng)"
  let ?ids = "map (\<lambda>i. start_page_id rng + word_of_nat i) [0..<?n]"
  let ?pages = "map (\<lambda>k. page_slice k (padded_to_pages ?n bs)) [0..<?n]"
  have "list_all2 (\<lambda>p x. pool_page s p = Some x) ?ids ?pages"
    using assms(2) by (simp add: list_all2_conv_all_nth region_holds_def)
  moreover have "card {q. 0 < pins s q} < (case s of (bp, dm) \<Rightarrow> pool_size bp)"
    using assms(3) by (cases s) (simp add: spare_frames_def)
  ultimately obtain s' where s': "smap read_page ?ids s = (Inr ?pages, s')" "cache.kept s s'"
    using cache.copy_pages_ok [OF assms(1)] by blast
  have "length bs \<le> ?n * kPageSizeBytes" using assms(2) by (simp add: region_holds_def)
  from region_bytes [OF this] have "FetchWholeRegion rng s = (Inr (padded_to_pages ?n bs), s')"
    using s'(1) by (simp add: FetchWholeRegion_def smap_map sbind_def)
  with s'(2) show thesis by (rule that [rotated])
qed

section \<open>Validity\<close>

lemma bytes_per_column:
  assumes "unat rc \<le> kRowGroupSize"
  shows "unat ((rc + 7) div 8 :: uint32) = (unat rc + 7) div 8"
proof -
  have "unat (rc + 7) = unat rc + 7"
    using assms by (simp add: unat_word_ariths kRowGroupSize_def)
  then show ?thesis by (simp add: unat_div)
qed

lemma bitmap_index:
  fixes c i n m :: nat
  assumes "c < m" and "i < n"
  shows "c * ((n + 7) div 8) + i div 8 < (n + 7) div 8 * m"
proof -
  have "i div 8 < (n + 7) div 8" using assms(2) by simp
  moreover have "c * ((n + 7) div 8) + (n + 7) div 8 \<le> (n + 7) div 8 * m"
    using mult_le_mono1 [of "Suc c" m "(n + 7) div 8"] assms(1) by (simp add: mult.commute)
  ultimately show ?thesis by linarith
qed

lemma IsColumnValidAtRow_spec:
  assumes bm: "bitmap_holds bm (unat rc) cellss" and rc: "unat rc \<le> kRowGroupSize"
    and c: "c < length cellss" and i: "unat row < unat rc"
    and mem: "c * ((unat rc + 7) div 8) + unat row div 8 < length mem"
      "mem ! (c * ((unat rc + 7) div 8) + unat row div 8) = bm ! (c * ((unat rc + 7) div 8) + unat row div 8)"
  shows "IsColumnValidAtRow mem rc c row = Inr (snd (cellss ! c ! unat row))"
proof -
  have "drop_bit k b AND 1 \<noteq> 0 \<longleftrightarrow> bit b k" for k and b :: byte
    by (simp add: and_one_eq bit_iff_odd_drop_bit mod_2_eq_odd)
  then show ?thesis
    using bm c i mem by (simp add: IsColumnValidAtRow_def bytes_per_column [OF rc] bitmap_holds_def Let_def)
qed

section \<open>Building a column row by row\<close>

lemma append_cells_loop:
  assumes step: "\<And>i column. i < m \<Longrightarrow>
      step i column = (if snd (cell i) then col_Append column (fst (cell i)) else col_AppendNull column)"
    and type: "\<And>i. i < m \<Longrightarrow> value_type (fst (cell i)) = t"
    and weight: "sum_list (map (\<lambda>i. value_weight (fst (cell i))) [0..<m]) < varchar_capacity"
  shows "\<exists>column. rfold step [0..<m] (EmptyColumn t) = Inr column \<and> col_inv column \<and> column_type column = t \<and>
    col_cells column = map (\<lambda>i. clean_cell (cell i)) [0..<m]"
proof -
  have "\<exists>column. rfold step [0..<k] (EmptyColumn t) = Inr column \<and> col_inv column \<and> column_type column = t \<and>
    col_cells column = map (\<lambda>i. clean_cell (cell i)) [0..<k] \<and>
    col_load column \<le> sum_list (map (\<lambda>i. value_weight (fst (cell i))) [0..<k])" if "k \<le> m" for k
    using that
  proof (induction k)
    case (Suc k)
    then obtain col where col: "rfold step [0..<k] (EmptyColumn t) = Inr col" "col_inv col" "column_type col = t"
      "col_cells col = map (\<lambda>i. clean_cell (cell i)) [0..<k]"
      "col_load col \<le> sum_list (map (\<lambda>i. value_weight (fst (cell i))) [0..<k])" by auto
    have k: "k < m" using Suc.prems by simp
    obtain v b where vb: "cell k = (v, b)" by (cases "cell k")
    have ty: "value_type v = t" using type [OF k] vb by simp
    show ?case
    proof (cases b)
      case True
      have split: "[0..<m] = [0..<Suc k] @ [Suc k..<m]"
        using k upt_add_eq_append [of 0 "Suc k" "m - Suc k"] by simp
      have "sum_list (map (\<lambda>i. value_weight (fst (cell i))) [0..<Suc k]) < varchar_capacity"
        using weight unfolding split by simp
      then have "col_load col + value_weight v < varchar_capacity" using col(5) vb by simp
      from col_Append_spec [OF col(2) _ this] ty col True vb step [OF k, of col] show ?thesis
        by (auto simp: rfold_append)
    next
      case False
      from col_AppendNull_spec [OF col(2)] ty col False vb step [OF k, of col] show ?thesis
        by (auto simp: rfold_append)
    qed
  qed (simp add: EmptyColumn_spec)
  from this [of m] show ?thesis by auto
qed

text \<open>The slice of a column that a vector covers.\<close>

definition vector_cells :: "nat \<Rightarrow> nat \<Rightarrow> cell list \<Rightarrow> cell list" where
  "vector_cells start_row row_count cells = map (\<lambda>i. clean_cell (cells ! (start_row + i))) [0..<row_count]"

lemma fixed_width_rows_spec:
  assumes bm: "bitmap_holds bm (unat rc) cellss" and rc: "unat rc \<le> kRowGroupSize"
    and c: "c < length cellss" and start: "unat start_row + m \<le> unat rc"
    and mem: "length bm \<le> length mem" "take (length bm) mem = bm"
    and t: "t \<noteq> kVarchar" "\<forall>i < m. value_type (fst (cellss ! c ! (unat start_row + i))) = t"
    and page: "\<forall>i < m. \<exists>w. u32_at page i = Inr w \<and> value_of_bits t w = fst (cellss ! c ! (unat start_row + i))"
  shows "\<exists>column. fixed_width_rows t page mem rc c start_row m = Inr column \<and> col_inv column \<and>
    column_type column = t \<and> col_cells column = vector_cells (unat start_row) m (cellss ! c)"
proof -
  let ?cell = "\<lambda>i. cellss ! c ! (unat start_row + i)"
  let ?step = "\<lambda>i column. rbind (IsColumnValidAtRow mem rc c (start_row + word_of_nat i)) (\<lambda>valid.
           if \<not> valid then col_AppendNull column
           else rbind (u32_at page i) (\<lambda>w. col_Append column (value_of_bits t w)))"
  have step: "?step i column = (if snd (?cell i) then col_Append column (fst (?cell i)) else col_AppendNull column)"
    if i: "i < m" for i column
  proof -
    have row: "unat (start_row + word_of_nat i) = unat start_row + i"
      using i start rc by (simp add: unat_word_ariths kRowGroupSize_def)
    have idx: "c * ((unat rc + 7) div 8) + (unat start_row + i) div 8 < length bm"
      using bitmap_index [OF c, of "unat start_row + i" "unat rc"] bm i start by (simp add: bitmap_holds_def)
    then have "mem ! (c * ((unat rc + 7) div 8) + (unat start_row + i) div 8) =
        bm ! (c * ((unat rc + 7) div 8) + (unat start_row + i) div 8)"
      by (metis mem(2) nth_take)
    then have "IsColumnValidAtRow mem rc c (start_row + word_of_nat i) = Inr (snd (?cell i))"
      using IsColumnValidAtRow_spec [OF bm rc c, of "start_row + word_of_nat i" mem] row idx mem(1) i start by simp
    moreover obtain w where "u32_at page i = Inr w" "value_of_bits t w = fst (?cell i)" using page i by blast
    ultimately show ?thesis by simp
  qed
  have "value_weight (fst (?cell i)) = 0" if "i < m" for i
    using t that by (cases "fst (?cell i)") auto
  then have "map (\<lambda>i. value_weight (fst (?cell i))) [0..<m] = map (\<lambda>_. 0) [0..<m]"
    by (intro map_cong) simp_all
  then have w: "sum_list (map (\<lambda>i. value_weight (fst (?cell i))) [0..<m]) < varchar_capacity"
    by (simp only: sum_list_triv) simp
  show ?thesis
    unfolding fixed_width_rows_def vector_cells_def
    by (rule append_cells_loop [where cell = ?cell, OF step _ w]) (use t(2) in auto)
qed

section \<open>Fixed-width columns\<close>

text \<open>What a scan keeps of the pool: contents, pins and the pages held by others.\<close>

abbreviation scan_kept :: "pool_state \<Rightarrow> pool_state \<Rightarrow> bool" where
  "scan_kept \<equiv> cache.kept"

lemma fetch_spec:
  assumes "pool_inv s" and "pool_page s p = Some x" and "spare_frames (Suc k) s"
  obtains f s' where "FetchPage p s = (Inr f, s')" "pool_inv s'" "pool_page s' = pool_page s"
    "page_table (fst s') p = Some f" "pins s' = (pins s)(p := pins s p + 1)" "pool_size (fst s') = pool_size (fst s)"
    "dm_header (snd s') = dm_header (snd s)" "\<And>q. 0 < pins s q \<Longrightarrow> page_table (fst s') q = page_table (fst s) q"
    "spare_frames k s'"
proof -
  have "card {q. 0 < pins s q} < (case s of (bp, dm) \<Rightarrow> pool_size bp)"
    using assms(3) by (cases s) (simp add: spare_frames_def)
  from cache.fetch_ok [OF assms(1,2) this] obtain f s' where f: "FetchPage p s = (Inr f, s')" "pool_inv s'"
    "pool_page s' = pool_page s" "page_table (fst s') p = Some f" "pins s' = (pins s)(p := pins s p + 1)"
    "pool_size (fst s') = pool_size (fst s)" "dm_header (snd s') = dm_header (snd s)"
    "\<forall>q. 0 < pins s q \<longrightarrow> page_table (fst s') q = page_table (fst s) q"
    by (auto simp: case_prod_beta)
  have "card {q. 0 < pins s' q} \<le> Suc (card {q. 0 < pins s q})"
  proof -
    have "{q. 0 < pins s' q} = insert p {q. 0 < pins s q}" by (auto simp: f(5))
    then show ?thesis by (simp add: card_insert_le_m1 card_insert_if)
  qed
  then have "spare_frames k s'" using assms(3) f(6) by (simp add: spare_frames_def)
  with f that show thesis by blast
qed

text \<open>Reading through a pinned page while other pages are copied, then letting it go.\<close>

lemma unpin_spec:
  assumes "pool_inv s" and "pool_page s p = Some x" and f: "FetchPage p s = (Inr f, s1)" "pool_inv s1"
    "pool_page s1 = pool_page s" "page_table (fst s1) p = Some f" "pins s1 = (pins s)(p := pins s p + 1)"
    "pool_size (fst s1) = pool_size (fst s)" "dm_header (snd s1) = dm_header (snd s)"
    "\<And>q. 0 < pins s q \<Longrightarrow> page_table (fst s1) q = page_table (fst s) q"
    and k: "scan_kept s1 s2"
  obtains s3 where "deref_frame s2 f = x" "UnpinPage p False s2 = (Inr (), s3)" "scan_kept s s3"
proof -
  have k': "pool_inv s2" "pool_page s2 = pool_page s1" "pins s2 = pins s1" "pool_size (fst s2) = pool_size (fst s1)"
    "dm_header (snd s2) = dm_header (snd s1)" "\<And>q. 0 < pins s1 q \<Longrightarrow> page_table (fst s2) q = page_table (fst s1) q"
    using k by (auto simp: cache.kept_def case_prod_beta)
  have "deref_frame s2 f = x"
    by (rule cache.deref_kept [OF k f(2)]) (use f assms(2) in \<open>simp_all add: case_prod_beta\<close>)
  moreover have "0 < pins s2 p" by (simp add: k'(3) f(5))
  from cache.unpin_ok [OF k'(1) this, of False] obtain s3 where u: "UnpinPage p False s2 = (Inr (), s3)"
    "pool_inv s3" "pool_page s3 = pool_page s2" "page_table (fst s3) = page_table (fst s2)"
    "pins s3 = (pins s2)(p := pins s2 p - 1)" "pool_size (fst s3) = pool_size (fst s2)"
    "dm_header (snd s3) = dm_header (snd s2)"
    by (auto simp: case_prod_beta)
  moreover have "scan_kept s s3"
    using u f k' by (auto simp: cache.kept_def case_prod_beta)
  ultimately show thesis using that by blast
qed

definition cells_of_type :: "TypeId \<Rightarrow> cell list \<Rightarrow> bool" where
  "cells_of_type t cells = list_all (\<lambda>cell. value_type (fst cell) = t) cells"

lemma column_holds_fixed:
  assumes "column_holds P e cells" and "cells_of_type t cells" and "cells \<noteq> []" and "t \<noteq> kVarchar"
  obtains rng ws where "fixed_width_pages t e = Inr rng" "region_holds P rng (fixed_bytes id ws)"
    "map fst cells = map (value_of_bits t) ws"
proof -
  have ty: "t = value_type (hd (map fst cells))"
    using assms(2,3) by (cases cells) (simp_all add: cells_of_type_def)
  show thesis
  proof (cases e)
    case (IntEntry x)
    with assms(1) obtain vs where vs: "map fst cells = map VInt vs" "region_holds P (fe_pages x) (fixed_bytes id vs)"
      by auto
    moreover have "t = kInteger" using ty vs(1) assms(3) by (cases vs) simp_all
    ultimately show thesis using that [of "fe_pages x" vs] IntEntry by simp
  next
    case (FloatEntry x)
    with assms(1) obtain vs where vs: "map fst cells = map VFloat vs" "region_holds P (fe_pages x) (fixed_bytes f32_bits vs)"
      by auto
    moreover have "t = kFloat" using ty vs(1) assms(3) by (cases vs) simp_all
    moreover have "fixed_bytes f32_bits vs = fixed_bytes id (map f32_bits vs)" by (simp add: fixed_bytes_def comp_def)
    ultimately show thesis using that [of "fe_pages x" "map f32_bits vs"] FloatEntry by (simp add: comp_def)
  next
    case (VarcharEntry x)
    with assms(1) obtain ss where "map fst cells = map VString ss" by auto
    then show thesis using ty assms(3,4) by (cases ss) simp_all
  qed
qed

text \<open>The \<open>v\<close>-th vector of a row group with \<open>n\<close> rows has \<open>vector_rows n v\<close> rows.\<close>

definition vector_rows :: "nat \<Rightarrow> nat \<Rightarrow> nat" where
  "vector_rows n v = min kVectorSize (n - v * kVectorSize)"

lemma vector_start:
  assumes "unat vi * kVectorSize < n" and "n \<le> kRowGroupSize"
  shows "unat (vi * 1024 :: uint32) = unat vi * kVectorSize"
  using assms by (simp add: unat_word_ariths size_consts)

lemma vector_in_group: "v * kVectorSize < n \<Longrightarrow> v * kVectorSize + vector_rows n v \<le> n"
  by (simp add: vector_rows_def)

lemma group_holdsD:
  assumes "group_holds P rg cellss" and "c < length cellss"
  shows "c < length (rg_columns rg)" "column_holds P (rg_columns rg ! c) (cellss ! c)"
    "entry_covers (rg_columns rg ! c) (cellss ! c)" "length (cellss ! c) = unat (rg_row_count rg)"
    "\<And>rng. rng \<in> set (entry_regions (rg_columns rg ! c)) \<Longrightarrow>
       region_end rng < region_end (rg_validity_bitmap_region rg) \<and> P (word_of_nat (region_end rng)) \<noteq> None"
proof -
  from assms show c: "c < length (rg_columns rg)" by (auto simp: group_holds_def dest: list_all2_lengthD)
  with assms show "column_holds P (rg_columns rg ! c) (cellss ! c)"
    "entry_covers (rg_columns rg ! c) (cellss ! c)" "length (cellss ! c) = unat (rg_row_count rg)"
    by (simp_all add: group_holds_def list_all2_conv_all_nth list_all_length)
  show "region_end rng < region_end (rg_validity_bitmap_region rg) \<and> P (word_of_nat (region_end rng)) \<noteq> None"
    if "rng \<in> set (entry_regions (rg_columns rg ! c))" for rng
    using assms(1) nth_mem [OF c] that by (auto simp: group_holds_def list_all_iff)
qed

definition column_read :: "TypeId \<Rightarrow> cell list \<Rightarrow> ColumnVariant \<Rightarrow> bool" where
  "column_read t cells column = (col_inv column \<and> column_type column = t \<and> col_cells column = cells)"

lemma AppendFixedWidth_spec:
  assumes inv: "pool_inv s" and gh: "group_holds (pool_page s) rg cellss" and c: "c < length cellss"
    and t: "t \<noteq> kVarchar" "cells_of_type t (cellss ! c)" and spare: "spare_frames 2 s"
    and v: "unat vi * kVectorSize < unat (rg_row_count rg)"
  defines "m \<equiv> vector_rows (unat (rg_row_count rg)) (unat vi)"
  assumes chunk: "chunk_inv chunk" "dc_row_count chunk = m"
  obtains column s' where
    "AppendFixedWidth t chunk rg c (vi * 1024) m vi s = (Inr (chunk\<lparr>dc_columns := dc_columns chunk @ [column]\<rparr>), s')"
    "scan_kept s s'" "column_read t (vector_cells (unat vi * kVectorSize) m (cellss ! c)) column"
proof -
  let ?n = "unat (rg_row_count rg)" and ?bmr = "rg_validity_bitmap_region rg"
  have n: "?n \<le> kRowGroupSize" "0 < ?n" using gh by (simp_all add: group_holds_def)
  obtain bm where bm: "region_holds (pool_page s) ?bmr bm" "bitmap_holds bm ?n cellss"
    using gh by (auto simp: group_holds_def)
  note gd = group_holdsD [OF gh c]
  have "cellss ! c \<noteq> []" using gd(4) n(2) by auto
  then obtain rng ws where ws: "fixed_width_pages t (rg_columns rg ! c) = Inr rng"
    "region_holds (pool_page s) rng (fixed_bytes id ws)" "map fst (cellss ! c) = map (value_of_bits t) ws"
    by (rule column_holds_fixed [OF gd(2) t(2) _ t(1)])
  have lw: "length ws = ?n" using arg_cong [OF ws(3), of length] gd(4) by simp
  let ?pid = "start_page_id rng + vi" and ?pc = "unat (page_count rng)"
  let ?page = "page_slice (unat vi) (padded_to_pages ?pc (fixed_bytes id ws))"
  have "4 * ?n \<le> ?pc * kPageSizeBytes" using ws(2) lw by (simp add: region_holds_def)
  then have "unat vi < ?pc" using v by (simp add: size_consts)
  then have page: "pool_page s ?pid = Some ?page" using ws(2) by (auto simp: region_holds_def)
  obtain f s1 where f: "FetchPage ?pid s = (Inr f, s1)" "pool_inv s1" "pool_page s1 = pool_page s"
    "page_table (fst s1) ?pid = Some f" "pins s1 = (pins s)(?pid := pins s ?pid + 1)"
    "pool_size (fst s1) = pool_size (fst s)" "dm_header (snd s1) = dm_header (snd s)"
    "\<And>q. 0 < pins s q \<Longrightarrow> page_table (fst s1) q = page_table (fst s) q" "spare_frames 1 s1"
    by (rule fetch_spec [OF inv page, of 1]) (use spare in \<open>simp_all add: numeral_2_eq_2\<close>)
  let ?mem = "padded_to_pages (unat (page_count ?bmr)) bm"
  have "region_holds (pool_page s1) ?bmr bm" using bm(1) f(3) by simp
  then obtain s2 where s2: "FetchWholeRegion ?bmr s1 = (Inr ?mem, s2)" "scan_kept s1 s2"
    by (rule FetchWholeRegion_spec [OF f(2) _ f(9)])
  obtain s3 where s3: "deref_frame s2 f = ?page" "UnpinPage ?pid False s2 = (Inr (), s3)" "scan_kept s s3"
    by (rule unpin_spec [OF inv page f(1-8) s2(2)])
  have start: "unat (vi * 1024) = unat vi * kVectorSize" by (rule vector_start [OF v n(1)])
  have fit: "unat vi * kVectorSize + m \<le> ?n" unfolding m_def by (rule vector_in_group [OF v])
  have "u32_at ?page i = Inr (ws ! (unat vi * kVectorSize + i)) \<and>
      value_of_bits t (ws ! (unat vi * kVectorSize + i)) = fst (cellss ! c ! (unat vi * kVectorSize + i))" if "i < m" for i
  proof -
    have i: "i < kVectorSize" "unat vi * kVectorSize + i < length ws"
      using that fit lw by (simp_all add: m_def vector_rows_def) linarith
    from u32_at_page [OF i, of id] have "u32_at ?page i = Inr (ws ! (unat vi * kVectorSize + i))"
      by (simp add: padded_to_pages_def)
    moreover have "map fst (cellss ! c) ! (unat vi * kVectorSize + i) = map (value_of_bits t) ws ! (unat vi * kVectorSize + i)"
      by (simp only: ws(3))
    ultimately show ?thesis using i(2) lw gd(4) by simp
  qed
  then have vals: "\<forall>i < m. \<exists>w. u32_at ?page i = Inr w \<and> value_of_bits t w = fst (cellss ! c ! (unat (vi * 1024) + i))"
    unfolding start by blast
  have types: "\<forall>i < m. value_type (fst (cellss ! c ! (unat (vi * 1024) + i))) = t"
    unfolding start using t(2) fit gd(4) by (simp add: cells_of_type_def list_all_length)
  have mem: "length bm \<le> length ?mem" "take (length bm) ?mem = bm" by (simp_all add: padded_to_pages_def)
  from fixed_width_rows_spec [OF bm(2) n(1) c _ mem t(1) types vals] fit start obtain column where
    col: "fixed_width_rows t ?page ?mem (rg_row_count rg) c (vi * 1024) m = Inr column"
    "column_read t (vector_cells (unat vi * kVectorSize) m (cellss ! c)) column"
    by (auto simp: column_read_def)
  have "dc_AddColumn chunk column = Inr (chunk\<lparr>dc_columns := dc_columns chunk @ [column]\<rparr>)"
    using dc_AddColumn_spec(1) [OF chunk(1), of column] col(2) chunk(2) by (simp add: column_read_def vector_cells_def)
  then have "AppendFixedWidth t chunk rg c (vi * 1024) m vi s =
      (Inr (chunk\<lparr>dc_columns := dc_columns chunk @ [column]\<rparr>), s3)"
    using gd(1) ws(1) f(1) s2(1) s3(1,2) col(1)
    by (simp add: AppendFixedWidth_def rg_Column_def sbind_def Let_def)
  then show thesis using that s3(3) col(2) by blast
qed

section \<open>Variable-width columns\<close>

definition str_off :: "string list \<Rightarrow> nat \<Rightarrow> nat" where
  "str_off ss k = sum_list (map length (take k ss))"

lemma str_off_Suc: "k < length ss \<Longrightarrow> str_off ss (Suc k) = str_off ss k + length (ss ! k)"
  by (simp add: str_off_def take_Suc_conv_app_nth)

lemma str_off_mono: "j \<le> k \<Longrightarrow> str_off ss j \<le> str_off ss k"
proof -
  assume "j \<le> k"
  then have "take k ss = take j ss @ take (k - j) (drop j ss)"
    using take_add [of j "k - j" ss] by simp
  then show ?thesis by (simp add: str_off_def)
qed

lemma str_off_total: "str_off ss k \<le> sum_list (map length ss)"
  using str_off_mono [of k "max k (length ss)" ss] by (simp add: str_off_def)

lemma length_concat_bytes: "length (concat (map bytes_of_string ss)) = sum_list (map length ss)"
  by (induction ss) simp_all

lemma u32_at_offsets:
  assumes "k \<le> length ss"
  shows "u32_at (fixed_bytes word_of_nat (string_offsets ss) @ rest) k = Inr (word_of_nat (str_off ss k))"
proof -
  have "k < length (string_offsets ss)" using assms by (simp add: string_offsets_def)
  moreover have "string_offsets ss ! k = str_off ss k"
    using assms by (simp add: string_offsets_def str_off_def nth_append del: upt_Suc)
  ultimately show ?thesis using u32_at_fixed [of k "string_offsets ss" word_of_nat rest] by simp
qed

lemma data_slice:
  assumes "k < length ss"
  shows "take (length (ss ! k)) (drop (str_off ss k) (concat (map bytes_of_string ss) @ rest)) = bytes_of_string (ss ! k)"
proof -
  have "concat (map bytes_of_string ss) @ rest = concat (map bytes_of_string (take k ss)) @
      bytes_of_string (ss ! k) @ concat (map bytes_of_string (drop (Suc k) ss)) @ rest"
    by (subst id_take_nth_drop [OF assms]) simp
  moreover have "length (concat (map bytes_of_string (take k ss))) = str_off ss k"
    by (simp only: length_concat_bytes str_off_def)
  ultimately show ?thesis by simp
qed

lemma slice_of_slice:
  assumes "a \<le> i" and "i + len \<le> a + l" and "a + l \<le> length xs"
  shows "take len (drop (i - a) (take l (drop a xs) @ tail)) = take len (drop i xs)"
  using assms by (auto simp: drop_take min_def)

lemma fetch_data_pages_spec:
  assumes inv: "pool_inv s" and reg: "region_holds (pool_page s) rng bs" and spare: "spare_frames 1 s"
    and behind: "pool_page s (word_of_nat (region_end rng)) \<noteq> None" "region_end rng + 1 < 2 ^ 32"
    and ab: "a \<le> b" "b \<le> unat (page_count rng)"
  obtains tail s' where
    "fetch_data_pages (start_page_id rng + word_of_nat a) (start_page_id rng + word_of_nat b) s =
      (Inr (take ((min (b + 1) (unat (page_count rng)) - a) * kPageSizeBytes)
         (drop (a * kPageSizeBytes) (padded_to_pages (unat (page_count rng)) bs)) @ tail), s')" "scan_kept s s'"
proof -
  let ?pc = "unat (page_count rng)" and ?st = "unat (start_page_id rng)"
  define pad where "pad = padded_to_pages ?pc bs"
  have fit: "?st + ?pc + 1 < 2 ^ 32" using behind(2) by (simp add: region_end_def)
  obtain extra where extra: "pool_page s (word_of_nat (?st + ?pc)) = Some extra"
    using behind(1) by (auto simp: region_end_def)
  define pg where "pg k = (if k < ?pc then page_slice k pad else extra)" for k
  have id: "start_page_id rng + word_of_nat k = word_of_nat (?st + k)" for k by simp
  have un: "unat (start_page_id rng + word_of_nat k) = ?st + k" if "k \<le> ?pc" for k
    using that fit by (simp add: unat_word_ariths)
  have page: "pool_page s (word_of_nat (?st + k)) = Some (pg k)" if "k \<le> ?pc" for k
  proof (cases "k < ?pc")
    case True
    with reg show ?thesis by (simp only: pg_def pad_def if_True flip: id) (simp add: region_holds_def)
  next
    case False
    with that extra show ?thesis by (simp add: pg_def)
  qed
  let ?ids = "[unat (start_page_id rng + word_of_nat a)..<unat (start_page_id rng + word_of_nat b) + 1]"
  have ids: "?ids = map (\<lambda>k. ?st + k) [a..<b + 1]"
    using un ab by (intro nth_equalityI) (simp_all del: upt_Suc)
  have "list_all2 (\<lambda>p x. pool_page s p = Some x) (map word_of_nat ?ids) (map pg [a..<b + 1])"
    unfolding ids using page ab(2) by (simp add: list_all2_conv_all_nth del: upt_Suc of_nat_add)
  moreover have "card {q. 0 < pins s q} < (case s of (bp, dm) \<Rightarrow> pool_size bp)"
    using spare by (cases s) (simp add: spare_frames_def)
  ultimately obtain s' where s': "smap read_page (map word_of_nat ?ids) s = (Inr (map pg [a..<b + 1]), s')"
    "scan_kept s s'" using cache.copy_pages_ok [OF inv] by blast
  have "start_page_id rng + word_of_nat b \<noteq> -1"
  proof
    assume "start_page_id rng + word_of_nat b = -1"
    then have "?st + b = unat (-1 :: uint32)" using un [OF ab(2)] by metis
    then show False using fit ab(2) by (simp add: unsigned_minus_1_eq_mask mask_eq_exp_minus_1)
  qed
  then have run: "fetch_data_pages (start_page_id rng + word_of_nat a) (start_page_id rng + word_of_nat b) s =
      (Inr (concat (map pg [a..<b + 1])), s')"
    using s'(1) by (simp add: fetch_data_pages_def smap_map sbind_def)
  let ?c = "min (b + 1) ?pc"
  have lp: "length pad = ?pc * kPageSizeBytes"
    using reg unfolding pad_def by (intro length_padded) (simp add: region_holds_def)
  have split: "[a..<b + 1] = [a..<?c] @ [?c..<b + 1]"
    using ab upt_add_eq_append [of a ?c "b + 1 - ?c"] by simp
  have "map pg [a..<?c] = map (\<lambda>k. page_slice k pad) [a..<?c]" by (simp add: pg_def)
  then have "concat (map pg [a..<b + 1]) =
      concat (map (\<lambda>k. page_slice k pad) [a..<?c]) @ concat (map pg [?c..<b + 1])"
    by (simp only: split map_append concat_append)
  also have "concat (map (\<lambda>k. page_slice k pad) [a..<?c]) = take ((?c - a) * kPageSizeBytes) (drop (a * kPageSizeBytes) pad)"
    using ab by (intro concat_page_slices) (simp_all add: lp)
  finally show thesis using run s'(2) that unfolding pad_def by simp
qed

lemma varchar_rows_spec:
  assumes bm: "bitmap_holds bm (unat rc) cellss" and rc: "unat rc \<le> kRowGroupSize"
    and c: "c < length cellss" and start: "unat start_row + m \<le> unat rc"
    and mem: "(c + 1) * ((unat rc + 7) div 8) \<le> length mem"
      "\<And>j. j < (c + 1) * ((unat rc + 7) div 8) \<Longrightarrow> mem ! j = bm ! j"
    and ss: "map fst (cellss ! c) = map VString ss" "length ss = unat rc" "sum_list (map length ss) < 2 ^ 31"
    and base: "base \<le> str_off ss (unat start_row)"
    and scratch: "\<And>j. unat start_row \<le> j \<Longrightarrow> j < unat start_row + m \<Longrightarrow>
      string_at scratch (str_off ss j - base) (length (ss ! j)) = Inr (ss ! j)"
  shows "\<exists>column. varchar_rows (fixed_bytes word_of_nat (string_offsets ss) @ rest) scratch (word_of_nat base) mem
      rc c start_row m = Inr column \<and> column_read kVarchar (vector_cells (unat start_row) m (cellss ! c)) column"
proof -
  let ?cell = "\<lambda>i. cellss ! c ! (unat start_row + i)"
  let ?offsets = "fixed_bytes word_of_nat (string_offsets ss) @ rest"
  let ?step = "\<lambda>i column. rbind (IsColumnValidAtRow mem rc c (start_row + word_of_nat i)) (\<lambda>valid.
         rbind (u32_at ?offsets (unat (start_row + word_of_nat i))) (\<lambda>o1.
         rbind (u32_at ?offsets (unat (start_row + word_of_nat i + 1))) (\<lambda>o2.
           let s = o1 - word_of_nat base; e = o2 - word_of_nat base
           in if \<not> valid then col_AppendNull column
              else rbind (string_at scratch (unat s) (unat (e - s))) (\<lambda>v. col_Append column (VString v)))))"
  have cell: "fst (?cell i) = VString (ss ! (unat start_row + i))" if "i < m" for i
  proof -
    have "map fst (cellss ! c) ! (unat start_row + i) = map VString ss ! (unat start_row + i)" by (simp only: ss(1))
    moreover have "length (cellss ! c) = length ss" using arg_cong [OF ss(1), of length] by simp
    ultimately show ?thesis using that start ss(2) by simp
  qed
  have step: "?step i column = (if snd (?cell i) then col_Append column (fst (?cell i)) else col_AppendNull column)"
    if i: "i < m" for i column
  proof -
    let ?j = "unat start_row + i"
    have row: "unat (start_row + word_of_nat i) = ?j" "unat (start_row + word_of_nat i + 1) = Suc ?j"
      using i start rc by (simp_all add: unat_word_ariths kRowGroupSize_def)
    have "?j div 8 < (unat rc + 7) div 8" using i start by simp
    then have idx: "c * ((unat rc + 7) div 8) + ?j div 8 < (c + 1) * ((unat rc + 7) div 8)" by simp
    have valid: "IsColumnValidAtRow mem rc c (start_row + word_of_nat i) = Inr (snd (?cell i))"
      using IsColumnValidAtRow_spec [OF bm rc c, of "start_row + word_of_nat i" mem] row(1) idx mem(1) mem(2) [OF idx] i start
      by simp
    have offs: "u32_at ?offsets ?j = Inr (word_of_nat (str_off ss ?j))"
      "u32_at ?offsets (Suc ?j) = Inr (word_of_nat (str_off ss (Suc ?j)))"
      using i start ss(2) by (simp_all add: u32_at_offsets)
    have ge: "base \<le> str_off ss ?j" using base str_off_mono [of "unat start_row" ?j ss] by simp
    then have s: "word_of_nat (str_off ss ?j) - word_of_nat base = (word_of_nat (str_off ss ?j - base) :: uint32)" by simp
    have e: "word_of_nat (str_off ss (Suc ?j)) - word_of_nat base - word_of_nat (str_off ss ?j - base) =
        (word_of_nat (length (ss ! ?j)) :: uint32)"
      using ge i start ss(2) by (simp add: str_off_Suc)
    have "str_off ss ?j < 2 ^ 31" "length (ss ! ?j) < 2 ^ 31"
      using str_off_total [of ss ?j] str_off_total [of ss "Suc ?j"] str_off_Suc [of ?j ss] ss(2,3) i start by auto
    then have "unat (word_of_nat (str_off ss ?j - base) :: uint32) = str_off ss ?j - base"
      "unat (word_of_nat (length (ss ! ?j)) :: uint32) = length (ss ! ?j)"
      by (simp_all add: unat_of_nat_small del: unat_of_nat)
    with scratch [of ?j] i show ?thesis
      by (simp only: valid row offs rbind.simps Let_def s e) (simp add: cell [OF i])
  qed
  have types: "value_type (fst (?cell i)) = kVarchar" if "i < m" for i by (simp add: cell [OF that])
  have "map (\<lambda>i. value_weight (fst (?cell i))) [0..<m] = map length (take m (drop (unat start_row) ss))"
    using cell start ss(2) by (intro nth_equalityI) simp_all
  moreover have "sum_list (map length (take m (drop k ss))) \<le> sum_list (map length ss)" for k
  proof -
    have "ss = take k ss @ take m (drop k ss) @ drop m (drop k ss)" by (simp only: append_take_drop_id)
    then show ?thesis by (metis le_add1 le_add2 map_append order_trans sum_list_append)
  qed
  ultimately have weight: "sum_list (map (\<lambda>i. value_weight (fst (?cell i))) [0..<m]) < varchar_capacity"
    using ss(3) by (metis le_less_trans)
  show ?thesis
    unfolding varchar_rows_def vector_cells_def column_read_def
    by (rule append_cells_loop [where cell = ?cell, OF step types weight])
qed

lemma string_in_pages:
  assumes "a \<le> b" and "b \<le> pc" and j: "j < length ss" and dpc: "sum_list (map length ss) \<le> pc * kPageSizeBytes"
    and lo: "a * kPageSizeBytes \<le> str_off ss j" and hi: "str_off ss (Suc j) \<le> (b + 1) * kPageSizeBytes"
  shows "string_at (take ((min (b + 1) pc - a) * kPageSizeBytes) (drop (a * kPageSizeBytes)
      (padded_to_pages pc (concat (map bytes_of_string ss)))) @ tail)
    (str_off ss j - a * kPageSizeBytes) (length (ss ! j)) = Inr (ss ! j)"
proof -
  let ?data = "concat (map bytes_of_string ss)"
  let ?pad = "padded_to_pages pc ?data" and ?l = "(min (b + 1) pc - a) * kPageSizeBytes"
  have "a \<le> min (b + 1) pc" using assms(1,2) by simp
  then have l: "a * kPageSizeBytes + ?l = min (b + 1) pc * kPageSizeBytes"
    by (metis add_mult_distrib le_add_diff_inverse)
  have lp: "length ?pad = pc * kPageSizeBytes" by (rule length_padded) (use dpc in \<open>simp only: length_concat_bytes\<close>)
  have "str_off ss (Suc j) \<le> pc * kPageSizeBytes" using str_off_total [of ss "Suc j"] dpc by simp
  then have "str_off ss (Suc j) \<le> min (b + 1) pc * kPageSizeBytes" using hi by (simp add: min_def)
  then have top: "str_off ss j + length (ss ! j) \<le> a * kPageSizeBytes + ?l" using l str_off_Suc [OF j] by simp
  have cap: "a * kPageSizeBytes + ?l \<le> length ?pad" unfolding l lp by simp
  have "take (length (ss ! j)) (drop (str_off ss j - a * kPageSizeBytes)
      (take ?l (drop (a * kPageSizeBytes) ?pad) @ tail)) = take (length (ss ! j)) (drop (str_off ss j) ?pad)"
    by (rule slice_of_slice [OF lo top cap])
  also have "\<dots> = bytes_of_string (ss ! j)" unfolding padded_to_pages_def by (rule data_slice [OF j])
  finally have "take (length (ss ! j)) (drop (str_off ss j - a * kPageSizeBytes)
      (take ?l (drop (a * kPageSizeBytes) ?pad) @ tail)) = bytes_of_string (ss ! j)" .
  moreover have "str_off ss j - a * kPageSizeBytes + length (ss ! j) \<le>
      length (take ?l (drop (a * kPageSizeBytes) ?pad) @ tail)"
    using top lo cap by (simp only: length_append length_take length_drop) linarith
  ultimately show ?thesis by (simp only: string_at_def if_True string_of_bytes_of_string)
qed

text \<open>
  Only the first page of the bitmap is read for a \<open>VARCHAR\<close> column, so its validity bits
  must lie there.
\<close>

definition bits_in_first_page :: "nat \<Rightarrow> nat \<Rightarrow> bool" where
  "bits_in_first_page n c = ((c + 1) * ((n + 7) div 8) \<le> kPageSizeBytes)"

lemma column_holds_varchar:
  assumes "column_holds P e cells" and "cells_of_type kVarchar cells" and "cells \<noteq> []"
  obtains x ss where "e = VarcharEntry x" "map fst cells = map VString ss" "sum_list (map length ss) < 2 ^ 31"
    "region_holds P (ve_offsets_pages x) (fixed_bytes word_of_nat (string_offsets ss))"
    "region_holds P (ve_data_pages x) (concat (map bytes_of_string ss))"
proof (cases e)
  case (IntEntry x)
  with assms show thesis by (cases cells) (auto simp: cells_of_type_def)
next
  case (FloatEntry x)
  with assms show thesis by (cases cells) (auto simp: cells_of_type_def)
next
  case (VarcharEntry x)
  with assms(1) that show thesis by auto
qed

text \<open>
  The pages are fetched whatever the bitmap is; the rows are then read with one page of it.
\<close>

lemma AppendVarchar_reads:
  assumes inv: "pool_inv s" and gh: "group_holds (pool_page s) rg cellss" and c: "c < length cellss"
    and t: "cells_of_type kVarchar (cellss ! c)" and spare: "spare_frames 2 s"
    and v: "unat vi * kVectorSize < unat (rg_row_count rg)"
  defines "m \<equiv> vector_rows (unat (rg_row_count rg)) (unat vi)"
  obtains offsets scratch base mem s3 s4 where "length mem = kPageSizeBytes" "scan_kept s s4"
    "\<And>chunk. AppendVarchar chunk rg c (vi * 1024) m s =
       (case varchar_rows offsets scratch base mem (rg_row_count rg) c (vi * 1024) m of
          Inl e \<Rightarrow> (Inl e, s3) | Inr column \<Rightarrow> (dc_AddColumn chunk column, s4))"
    "bits_in_first_page (unat (rg_row_count rg)) c \<Longrightarrow>
       \<exists>column. varchar_rows offsets scratch base mem (rg_row_count rg) c (vi * 1024) m = Inr column \<and>
         column_read kVarchar (vector_cells (unat vi * kVectorSize) m (cellss ! c)) column"
proof -
  let ?rc = "rg_row_count rg" and ?bmr = "rg_validity_bitmap_region rg"
  have n: "unat ?rc \<le> kRowGroupSize" "0 < unat ?rc" using gh by (simp_all add: group_holds_def)
  obtain bm where bm: "region_holds (pool_page s) ?bmr bm" "bitmap_holds bm (unat ?rc) cellss"
    using gh by (auto simp: group_holds_def)
  note gd = group_holdsD [OF gh c]
  have "cellss ! c \<noteq> []" using gd(4) n(2) by auto
  then obtain x ss where x: "rg_columns rg ! c = VarcharEntry x" "map fst (cellss ! c) = map VString ss"
    "sum_list (map length ss) < 2 ^ 31"
    "region_holds (pool_page s) (ve_offsets_pages x) (fixed_bytes word_of_nat (string_offsets ss))"
    "region_holds (pool_page s) (ve_data_pages x) (concat (map bytes_of_string ss))"
    by (rule column_holds_varchar [OF gd(2) t])
  have lss: "length ss = unat ?rc" using arg_cong [OF x(2), of length] gd(4) by simp
  let ?dr = "ve_data_pages x" and ?or = "ve_offsets_pages x" and ?data = "concat (map bytes_of_string ss)"
  let ?pc = "unat (page_count ?dr)"
  let ?start = "unat vi * kVectorSize"
  have start: "unat (vi * 1024) = ?start" by (rule vector_start [OF v n(1)])
  have fit: "?start + m \<le> unat ?rc" unfolding m_def by (rule vector_in_group [OF v])
  have row_end: "unat (vi * 1024 + word_of_nat m) = ?start + m"
    using fit n(1) start by (simp add: unat_word_ariths kRowGroupSize_def)
  let ?b0 = "str_off ss ?start" and ?b1 = "str_off ss (?start + m)"
  define a where "a = ?b0 div kPageSizeBytes"
  define b where "b = ?b1 div kPageSizeBytes"
  have le: "?b0 \<le> ?b1" "?b1 \<le> sum_list (map length ss)" by (simp_all add: str_off_mono str_off_total)
  have dpc: "sum_list (map length ss) \<le> ?pc * kPageSizeBytes"
    using x(5) by (simp add: region_holds_def length_concat_bytes)
  have ab: "a \<le> b" "b \<le> ?pc"
  proof -
    show "a \<le> b" unfolding a_def b_def by (rule div_le_mono [OF le(1)])
    have "b \<le> ?pc * kPageSizeBytes div kPageSizeBytes" unfolding b_def by (rule div_le_mono) (use le dpc in simp)
    then show "b \<le> ?pc" by (simp add: kPageSizeBytes_def)
  qed
  have behind: "region_end ?dr < region_end ?bmr" "pool_page s (word_of_nat (region_end ?dr)) \<noteq> None"
    using gd(5) [of ?dr] x(1) by auto
  have "region_end ?dr + 1 < 2 ^ 32" using behind(1) bm(1) by (simp add: region_holds_def region_end_def)
  note data = x(5) and behind2 = behind(2) this
  have spare1: "spare_frames 1 s" using spare by (simp add: spare_frames_def)
  obtain s1 where s1: "FetchWholeRegion ?or s =
      (Inr (padded_to_pages (unat (page_count ?or)) (fixed_bytes word_of_nat (string_offsets ss))), s1)" "scan_kept s s1"
    by (rule FetchWholeRegion_spec [OF inv x(4) spare1])
  have k1: "pool_inv s1" "pool_page s1 = pool_page s" using s1(2) by (simp_all add: cache.kept_def)
  obtain tail s2 where s2: "fetch_data_pages (start_page_id ?dr + word_of_nat a) (start_page_id ?dr + word_of_nat b) s1 =
      (Inr (take ((min (b + 1) ?pc - a) * kPageSizeBytes) (drop (a * kPageSizeBytes) (padded_to_pages ?pc ?data)) @ tail), s2)"
      "scan_kept s1 s2"
    using fetch_data_pages_spec [OF k1(1) _ _ _ _ ab, unfolded k1(2), OF data _ behind2] spare_kept [OF s1(2), of 1] spare1
    by blast
  have kept2: "scan_kept s s2" by (rule cache.kept_trans [OF s1(2) s2(2)])
  then have k2: "pool_inv s2" "pool_page s2 = pool_page s" by (simp_all add: cache.kept_def)
  let ?pid = "start_page_id ?bmr" and ?mem = "page_slice 0 (padded_to_pages (unat (page_count ?bmr)) bm)"
  have lbm: "length bm = (unat ?rc + 7) div 8 * length cellss" using bm(2) by (simp add: bitmap_holds_def)
  have cb: "(c + 1) * ((unat ?rc + 7) div 8) \<le> length bm"
    unfolding lbm using c mult_le_mono1 [of "Suc c" "length cellss" "(unat ?rc + 7) div 8"] by (simp add: mult.commute)
  have "0 < (c + 1) * ((unat ?rc + 7) div 8)" using n(2) by (simp add: div_greater_zero_iff)
  then have "0 < length bm" using cb by (rule less_le_trans)
  then have bpc: "0 < unat (page_count ?bmr)" using bm(1) by (auto simp: region_holds_def intro: gr0I)
  then have page: "pool_page s2 ?pid = Some ?mem"
    using bm(1) k2(2) by (auto simp: region_holds_def dest: spec [of _ 0])
  obtain f s3 where f: "FetchPage ?pid s2 = (Inr f, s3)" "pool_inv s3" "pool_page s3 = pool_page s2"
    "page_table (fst s3) ?pid = Some f" "pins s3 = (pins s2)(?pid := pins s2 ?pid + 1)"
    "pool_size (fst s3) = pool_size (fst s2)" "dm_header (snd s3) = dm_header (snd s2)"
    "\<And>q. 0 < pins s2 q \<Longrightarrow> page_table (fst s3) q = page_table (fst s2) q"
    by (rule fetch_spec [OF k2(1) page, of 0]) (use spare1 spare_kept [OF kept2, of 1] in simp_all)
  obtain s4 where s4: "deref_frame s3 f = ?mem" "UnpinPage ?pid False s3 = (Inr (), s4)" "scan_kept s2 s4"
    by (rule unpin_spec [OF k2(1) page f(1-8) cache.kept_refl [OF f(2)]])
  define base where "base = a * kPageSizeBytes"
  let ?scratch = "take ((min (b + 1) ?pc - a) * kPageSizeBytes) (drop base (padded_to_pages ?pc ?data)) @ tail"
  have base: "base \<le> ?b0" by (simp add: base_def a_def)
  let ?offsets = "padded_to_pages (unat (page_count ?or)) (fixed_bytes word_of_nat (string_offsets ss))"
  have col: "\<exists>column. varchar_rows ?offsets ?scratch (word_of_nat base) ?mem ?rc c (vi * 1024) m = Inr column \<and>
      column_read kVarchar (vector_cells ?start m (cellss ! c)) column" if first_page: "bits_in_first_page (unat ?rc) c"
  proof -
    have base': "base \<le> str_off ss (unat (vi * 1024))" using base start by simp
    have str: "string_at ?scratch (str_off ss j - base) (length (ss ! j)) = Inr (ss ! j)"
      if j: "unat (vi * 1024) \<le> j" "j < unat (vi * 1024) + m" for j
      unfolding base_def
    proof (rule string_in_pages [OF _ ab(2)])
      show "j < length ss" "sum_list (map length ss) \<le> ?pc * kPageSizeBytes" using j fit lss start dpc by simp_all
      have "?b0 \<le> str_off ss j" by (rule str_off_mono) (use j start in simp)
      then show "a * kPageSizeBytes \<le> str_off ss j" using base by (simp add: base_def)
      have "str_off ss (Suc j) \<le> ?b1" by (rule str_off_mono) (use j start in simp)
      moreover have "?b1 < (b + 1) * kPageSizeBytes"
        using div_mult_mod_eq [of ?b1 kPageSizeBytes] mod_less_divisor [of kPageSizeBytes ?b1]
        by (simp add: b_def kPageSizeBytes_def)
      ultimately show "str_off ss (Suc j) \<le> (b + 1) * kPageSizeBytes" by simp
    qed (rule ab(1))
    have mem1: "(c + 1) * ((unat ?rc + 7) div 8) \<le> length ?mem"
      using first_page cb by (simp add: page_slice_def bits_in_first_page_def padded_to_pages_def trans_le_add1)
    have mem2: "?mem ! j = bm ! j" if "j < (c + 1) * ((unat ?rc + 7) div 8)" for j
      using that first_page cb by (simp add: page_slice_def bits_in_first_page_def padded_to_pages_def nth_append)
    from varchar_rows_spec [OF bm(2) n(1) c _ mem1 mem2 x(2) lss x(3) base' str] fit start show ?thesis
      unfolding padded_to_pages_def by auto
  qed
  have offs: "u32_at (padded_to_pages (unat (page_count ?or)) (fixed_bytes word_of_nat (string_offsets ss))) k =
      Inr (word_of_nat (str_off ss k))" if "k \<le> unat ?rc" for k
    unfolding padded_to_pages_def using that lss by (simp add: u32_at_offsets)
  have run: "AppendVarchar chunk rg c (vi * 1024) m s =
      (case varchar_rows ?offsets ?scratch (word_of_nat base) ?mem ?rc c (vi * 1024) m of
         Inl e \<Rightarrow> (Inl e, s3) | Inr column \<Rightarrow> (dc_AddColumn chunk column, s4))" for chunk
  proof -
    have small: "?b0 < 2 ^ 32" "?b1 < 2 ^ 32" using le x(3) by simp_all
    have div: "word_of_nat k div 4096 = (word_of_nat (k div kPageSizeBytes) :: uint32)" if "k < 2 ^ 32" for k
      using that by (intro word_unat_eq_iff [THEN iffD2]) (simp add: unat_div kPageSizeBytes_def less_imp_diff_less)
    have sb: "word_of_nat a * 4096 = (word_of_nat base :: uint32)"
      by (simp add: base_def kPageSizeBytes_def)
    have "rbind (rg_Column rg c) varchar_pages = Inr (?or, ?dr)" using gd(1) x(1) by (simp add: rg_Column_def)
    moreover have "?start \<le> unat ?rc" "?start + m \<le> unat ?rc" using fit by simp_all
    ultimately show ?thesis
      using s1(1) s2(1) f(1) s4(1,2)
      by (simp add: AppendVarchar_def sbind_def Let_def start row_end offs div [OF small(1)] div [OF small(2)] sb split: sum.split
          flip: a_def b_def base_def)
  qed
  have "length ?mem = kPageSizeBytes"
    using bpc bm(1) by (simp add: page_slice_def region_holds_def length_padded kPageSizeBytes_def)
  then show thesis by (rule that [OF _ cache.kept_trans [OF kept2 s4(3)] run col])
qed

lemma AppendVarchar_spec:
  assumes "pool_inv s" "group_holds (pool_page s) rg cellss" "c < length cellss"
    and "cells_of_type kVarchar (cellss ! c)" "spare_frames 2 s" "unat vi * kVectorSize < unat (rg_row_count rg)"
    and first_page: "bits_in_first_page (unat (rg_row_count rg)) c"
  defines "m \<equiv> vector_rows (unat (rg_row_count rg)) (unat vi)"
  assumes chunk: "chunk_inv chunk" "dc_row_count chunk = m"
  obtains column s' where
    "AppendVarchar chunk rg c (vi * 1024) m s = (Inr (chunk\<lparr>dc_columns := dc_columns chunk @ [column]\<rparr>), s')"
    "scan_kept s s'" "column_read kVarchar (vector_cells (unat vi * kVectorSize) m (cellss ! c)) column"
proof (rule AppendVarchar_reads [OF assms(1-6), folded m_def])
  fix offsets scratch base mem s3 s4
  assume r: "scan_kept s s4" "\<And>chunk. AppendVarchar chunk rg c (vi * 1024) m s =
       (case varchar_rows offsets scratch base mem (rg_row_count rg) c (vi * 1024) m of
          Inl e \<Rightarrow> (Inl e, s3) | Inr column \<Rightarrow> (dc_AddColumn chunk column, s4))"
    "bits_in_first_page (unat (rg_row_count rg)) c \<Longrightarrow>
       \<exists>column. varchar_rows offsets scratch base mem (rg_row_count rg) c (vi * 1024) m = Inr column \<and>
         column_read kVarchar (vector_cells (unat vi * kVectorSize) m (cellss ! c)) column"
  from r(3) [OF first_page] obtain column where col: "varchar_rows offsets scratch base mem (rg_row_count rg) c (vi * 1024) m = Inr column"
    "column_read kVarchar (vector_cells (unat vi * kVectorSize) m (cellss ! c)) column" by blast
  moreover have "dc_AddColumn chunk column = Inr (chunk\<lparr>dc_columns := dc_columns chunk @ [column]\<rparr>)"
    using dc_AddColumn_spec(1) [OF chunk(1), of column] col(2) chunk(2) by (simp add: column_read_def vector_cells_def)
  ultimately show thesis using that r(1,2) by simp
qed

text \<open>A vector whose first validity bit lies behind that page is read out of bounds.\<close>

lemma AppendVarchar_beyond:
  assumes "pool_inv s" "group_holds (pool_page s) rg cellss" "c < length cellss"
    and "cells_of_type kVarchar (cellss ! c)" "spare_frames 2 s" and v: "unat vi * kVectorSize < unat (rg_row_count rg)"
    and beyond: "kPageSizeBytes \<le> c * ((unat (rg_row_count rg) + 7) div 8) + unat vi * kVectorSize div 8"
  shows "fst (AppendVarchar chunk rg c (vi * 1024) (vector_rows (unat (rg_row_count rg)) (unat vi)) s) =
    Inl (UndefinedBehaviour ''vector index out of range'')"
proof (rule AppendVarchar_reads [OF assms(1-6)])
  let ?rc = "rg_row_count rg" and ?m = "vector_rows (unat (rg_row_count rg)) (unat vi)"
  fix offsets scratch base mem s3 s4
  assume mem: "length mem = kPageSizeBytes" and run: "\<And>chunk. AppendVarchar chunk rg c (vi * 1024) ?m s =
       (case varchar_rows offsets scratch base mem ?rc c (vi * 1024) ?m of
          Inl e \<Rightarrow> (Inl e, s3) | Inr column \<Rightarrow> (dc_AddColumn chunk column, s4))"
  have n: "unat ?rc \<le> kRowGroupSize" using assms(2) by (simp add: group_holds_def)
  have "unat (vi * 1024) = unat vi * kVectorSize" by (rule vector_start [OF v n])
  moreover have "unat ((?rc + 7) div 8) = (unat ?rc + 7) div 8"
    using n by (simp add: unat_div unat_word_ariths kRowGroupSize_def)
  ultimately have "IsColumnValidAtRow mem ?rc c (vi * 1024) = Inl (UndefinedBehaviour ''vector index out of range'')"
    using beyond mem by (simp add: IsColumnValidAtRow_def vec_at_def Let_def)
  moreover have "[0..<?m] = 0 # [1..<?m]" using v by (subst upt_conv_Cons) (simp_all add: vector_rows_def kVectorSize_def)
  ultimately have "varchar_rows offsets scratch base mem ?rc c (vi * 1024) ?m = Inl (UndefinedBehaviour ''vector index out of range'')"
    by (simp add: varchar_rows_def)
  then show ?thesis by (simp add: run)
qed

section \<open>Vectors\<close>

text \<open>
  What a scan requires of a row group: cells of the table's column types, and the required
  columns among them.
\<close>

definition scannable :: "TypeId list \<Rightarrow> nat list \<Rightarrow> RowGroupFooterEntry \<Rightarrow> cell list list \<Rightarrow> bool" where
  "scannable ts ords rg cellss = (list_all2 cells_of_type ts cellss \<and>
     list_all (\<lambda>c. c < length ts \<and> (ts ! c = kVarchar \<longrightarrow> bits_in_first_page (unat (rg_row_count rg)) c)) ords)"

definition scan_row :: "nat list \<Rightarrow> cell list list \<Rightarrow> nat \<Rightarrow> cell list" where
  "scan_row ords cellss i = map (\<lambda>c. clean_cell (cellss ! c ! i)) ords"

lemma AppendColumn_spec:
  assumes inv: "pool_inv s" and gh: "group_holds (pool_page s) rg cellss" and spare: "spare_frames 2 s"
    and table: "map cd_type (to_columns (sc_table sc)) = ts" and sb: "scannable ts [c] rg cellss"
    and v: "unat (sc_vector_index sc) * kVectorSize < unat (rg_row_count rg)"
  defines "m \<equiv> vector_rows (unat (rg_row_count rg)) (unat (sc_vector_index sc))"
  assumes chunk: "chunk_inv chunk" "dc_row_count chunk = m"
  shows "\<exists>column s'. AppendColumn sc rg (sc_vector_index sc * 1024) m chunk c s =
      (Inr (chunk\<lparr>dc_columns := dc_columns chunk @ [column]\<rparr>), s') \<and> scan_kept s s' \<and>
    column_read (ts ! c) (vector_cells (unat (sc_vector_index sc) * kVectorSize) m (cellss ! c)) column"
proof -
  from sb have c: "c < length ts" and fp: "ts ! c = kVarchar \<Longrightarrow> bits_in_first_page (unat (rg_row_count rg)) c"
    and cells: "list_all2 cells_of_type ts cellss" by (simp_all add: scannable_def)
  have cl: "c < length cellss" "cells_of_type (ts ! c) (cellss ! c)"
    using c cells by (simp_all add: list_all2_conv_all_nth)
  have lc: "c < length (to_columns (sc_table sc))" using table c by auto
  then have ty: "cd_type (to_columns (sc_table sc) ! c) = ts ! c" using table by auto
  show ?thesis
  proof (cases "ts ! c = kVarchar")
    case True
    obtain column s' where "AppendVarchar chunk rg c (sc_vector_index sc * 1024) m s =
      (Inr (chunk\<lparr>dc_columns := dc_columns chunk @ [column]\<rparr>), s')" "scan_kept s s'"
      "column_read kVarchar (vector_cells (unat (sc_vector_index sc) * kVectorSize) m (cellss ! c)) column"
      unfolding m_def
      by (rule AppendVarchar_spec [OF inv gh cl(1) _ spare v fp chunk [unfolded m_def]]) (use cl(2) True in simp_all)
    with lc ty True show ?thesis by (auto simp: AppendColumn_def to_Column_def)
  next
    case False
    obtain column s' where "AppendFixedWidth (ts ! c) chunk rg c (sc_vector_index sc * 1024) m (sc_vector_index sc) s =
      (Inr (chunk\<lparr>dc_columns := dc_columns chunk @ [column]\<rparr>), s')" "scan_kept s s'"
      "column_read (ts ! c) (vector_cells (unat (sc_vector_index sc) * kVectorSize) m (cellss ! c)) column"
      unfolding m_def
      by (rule AppendFixedWidth_spec [OF inv gh cl(1) False cl(2) spare v chunk [unfolded m_def]])
    with lc ty False show ?thesis by (cases "ts ! c") (auto simp: AppendColumn_def to_Column_def)
  qed
qed

lemma append_columns_spec:
  assumes "pool_inv s" and "group_holds (pool_page s) rg cellss" and "spare_frames 2 s"
    and table: "map cd_type (to_columns (sc_table sc)) = ts" and "scannable ts ords rg cellss"
    and v: "unat (sc_vector_index sc) * kVectorSize < unat (rg_row_count rg)"
    and "chunk_inv chunk" "dc_row_count chunk = vector_rows (unat (rg_row_count rg)) (unat (sc_vector_index sc))"
  shows "\<exists>cols s'. append_columns sc rg (sc_vector_index sc * 1024)
      (vector_rows (unat (rg_row_count rg)) (unat (sc_vector_index sc))) ords chunk s =
      (Inr (chunk\<lparr>dc_columns := dc_columns chunk @ cols\<rparr>), s') \<and> scan_kept s s' \<and>
    list_all2 (\<lambda>c column. column_read (ts ! c) (vector_cells (unat (sc_vector_index sc) * kVectorSize)
      (vector_rows (unat (rg_row_count rg)) (unat (sc_vector_index sc))) (cellss ! c)) column) ords cols"
  using assms(1,2,3,5,7,8)
proof (induction ords arbitrary: chunk s)
  case Nil
  then show ?case by (auto simp: cache.kept_refl)
next
  case (Cons c ords)
  let ?m = "vector_rows (unat (rg_row_count rg)) (unat (sc_vector_index sc))"
  let ?ok = "\<lambda>c column. column_read (ts ! c) (vector_cells (unat (sc_vector_index sc) * kVectorSize) ?m (cellss ! c)) column"
  have sb: "scannable ts [c] rg cellss" "scannable ts ords rg cellss" using Cons.prems(4) by (simp_all add: scannable_def)
  obtain column s1 where s1: "AppendColumn sc rg (sc_vector_index sc * 1024) ?m chunk c s =
      (Inr (chunk\<lparr>dc_columns := dc_columns chunk @ [column]\<rparr>), s1)" "scan_kept s s1" "?ok c column"
    using AppendColumn_spec [OF Cons.prems(1-3) table sb(1) v Cons.prems(5,6)] by blast
  let ?chunk = "chunk\<lparr>dc_columns := dc_columns chunk @ [column]\<rparr>"
  have k: "pool_inv s1" "group_holds (pool_page s1) rg cellss" "spare_frames 2 s1"
    using s1(2) Cons.prems(2,3) spare_kept [OF s1(2)] by (simp_all add: cache.kept_def)
  have "chunk_inv ?chunk"
    using dc_AddColumn_spec(2) [OF Cons.prems(5), of column] s1(3) Cons.prems(6)
    by (simp add: column_read_def vector_cells_def)
  from Cons.IH [OF k sb(2) this] Cons.prems(6) obtain cols s2 where
    s2: "append_columns sc rg (sc_vector_index sc * 1024) ?m ords ?chunk s1 =
      (Inr (?chunk\<lparr>dc_columns := dc_columns ?chunk @ cols\<rparr>), s2)" "scan_kept s1 s2" "list_all2 ?ok ords cols"
    by auto
  have "append_columns sc rg (sc_vector_index sc * 1024) ?m (c # ords) chunk s =
      (Inr (chunk\<lparr>dc_columns := dc_columns chunk @ (column # cols)\<rparr>), s2)"
    using s1(1) s2(1) by (simp add: sbind_def)
  then show ?case
    using cache.kept_trans [OF s1(2) s2(2)] s1(3) s2(3) by blast
qed

lemma select_all:
  assumes "chunk_inv dc" and "vb_bits (dc_selection dc) = replicate n True" and "k \<le> n" and "dc_row_count dc = n"
  shows "\<exists>v. rfold (\<lambda>i chunk. SetRowSelected chunk i True) [0..<k] dc = Inr (dc\<lparr>dc_selection := v\<rparr>) \<and>
    chunk_inv (dc\<lparr>dc_selection := v\<rparr>) \<and> vb_bits v = replicate n True"
  using assms(3)
proof (induction k)
  case 0
  then show ?case using assms by (auto intro!: exI [of _ "dc_selection dc"])
next
  case (Suc k)
  then obtain v where v: "rfold (\<lambda>i chunk. SetRowSelected chunk i True) [0..<k] dc = Inr (dc\<lparr>dc_selection := v\<rparr>)"
    "chunk_inv (dc\<lparr>dc_selection := v\<rparr>)" "vb_bits v = replicate n True" by auto
  from SetRowSelected_spec [OF v(2), of k True] Suc.prems assms(4) obtain w where
    w: "SetRowSelected (dc\<lparr>dc_selection := v\<rparr>) k True = Inr (dc\<lparr>dc_selection := w\<rparr>)"
    "chunk_inv (dc\<lparr>dc_selection := w\<rparr>)" "vb_bits w = (replicate n True)[k := True]"
    using v(3) by auto
  moreover have "(replicate n True)[k := True] = replicate n True"
    using Suc.prems by (simp add: list_update_same_conv)
  ultimately show ?case using v(1) by (auto simp: rfold_append)
qed

definition scanned_chunk :: "TypeId list \<Rightarrow> nat list \<Rightarrow> cell list list \<Rightarrow> nat list \<Rightarrow> DataChunk \<Rightarrow> bool" where
  "scanned_chunk ts ords cellss is dc = (chunk_inv dc \<and> chunk_types dc = map ((!) ts) ords \<and>
     chunk_rows dc = map (scan_row ords cellss) is)"

lemma scan_vector_spec:
  assumes inv: "pool_inv s" and gh: "group_holds (pool_page s) rg cellss" and spare: "spare_frames 2 s"
    and table: "map cd_type (to_columns (sc_table sc)) = ts"
    and sb: "scannable ts (sc_required_ordinals sc) rg cellss"
    and v: "unat (sc_vector_index sc) * kVectorSize < unat (rg_row_count rg)"
  defines "start \<equiv> unat (sc_vector_index sc) * kVectorSize"
  defines "m \<equiv> vector_rows (unat (rg_row_count rg)) (unat (sc_vector_index sc))"
  obtains dc s' where "scan_vector sc rg s = (Inr dc, s')" "scan_kept s s'"
    "scanned_chunk ts (sc_required_ordinals sc) cellss [start..<start + m] dc"
proof -
  let ?ords = "sc_required_ordinals sc" and ?vi = "sc_vector_index sc"
  have n: "unat (rg_row_count rg) \<le> kRowGroupSize" using gh by (simp add: group_holds_def)
  have st: "unat (?vi * 1024) = start" unfolding start_def by (rule vector_start [OF v n])
  have "unat (rg_row_count rg - ?vi * 1024) = unat (rg_row_count rg) - start"
    using v st by (subst unat_sub) (simp_all add: word_le_nat_alt start_def)
  then have rows: "min kVectorSize (unat (rg_row_count rg - ?vi * 1024)) = m" by (simp add: m_def vector_rows_def start_def)
  have mk: "m \<le> kVectorSize" by (simp add: m_def vector_rows_def)
  from MakeDataChunk_spec [OF mk] obtain dc where dc: "MakeDataChunk m = Inr dc" "chunk_inv dc"
    "dc_row_count dc = m" "dc_columns dc = []" "vb_bits (dc_selection dc) = replicate m True" by blast
  from select_all [OF dc(2,5) order_refl dc(3)] obtain vb where vb:
    "rfold (\<lambda>i chunk. SetRowSelected chunk i True) [0..<m] dc = Inr (dc\<lparr>dc_selection := vb\<rparr>)"
    "chunk_inv (dc\<lparr>dc_selection := vb\<rparr>)" "vb_bits vb = replicate m True" by blast
  let ?dc = "dc\<lparr>dc_selection := vb\<rparr>"
  obtain cols s' where cols: "append_columns sc rg (?vi * 1024) m ?ords ?dc s =
      (Inr (?dc\<lparr>dc_columns := dc_columns ?dc @ cols\<rparr>), s')" "scan_kept s s'"
    "list_all2 (\<lambda>c column. column_read (ts ! c) (vector_cells start m (cellss ! c)) column) ?ords cols"
    using append_columns_spec [OF inv gh spare table sb v vb(2)] dc(3) unfolding m_def start_def by auto
  let ?out = "dc\<lparr>dc_selection := vb, dc_columns := cols\<rparr>"
  have run: "scan_vector sc rg s = (Inr ?out, s')"
    using rows dc(1,4) vb(1) cols(1) by (simp add: scan_vector_def Let_def)
  have read: "col_inv (cols ! k) \<and> column_type (cols ! k) = ts ! (?ords ! k) \<and>
      col_cells (cols ! k) = vector_cells start m (cellss ! (?ords ! k))" if "k < length ?ords" for k
    using cols(3) that by (simp add: list_all2_conv_all_nth column_read_def)
  have len: "length cols = length ?ords" using cols(3) by (simp add: list_all2_lengthD)
  have "chunk_inv ?out"
    using vb(2) dc(3) read len by (simp add: chunk_inv_def list_all_length vector_cells_def)
  moreover have "chunk_types ?out = map ((!) ts) ?ords"
    using read len by (simp add: chunk_types_def list_eq_iff_nth_eq)
  moreover have "chunk_rows ?out = map (scan_row ?ords cellss) [start..<start + m]"
  proof -
    have row: "chunk_row ?out i = scan_row ?ords cellss (start + i)" if "i < m" for i
      using read len that by (simp add: chunk_row_def scan_row_def list_eq_iff_nth_eq vector_cells_def)
    have "filter (row_selected ?out) [0..<m] = [0..<m]"
      using vb(3) by (simp add: row_selected_def filter_id_conv)
    then have "chunk_rows ?out = map (chunk_row ?out) [0..<m]" using dc(3) by (simp add: chunk_rows_def)
    also have "\<dots> = map (\<lambda>i. scan_row ?ords cellss (start + i)) [0..<m]" using row by simp
    also have "\<dots> = map (scan_row ?ords cellss) [start..<start + m]"
      by (rule nth_equalityI) simp_all
    finally show ?thesis .
  qed
  ultimately show thesis using that run cols(2) by (simp add: scanned_chunk_def)
qed

section \<open>The whole scan\<close>

text \<open>The rows of one row group from a vector on, or none when the group is skipped.\<close>

definition group_rows ::
    "ZoneMapSkipCondition option \<Rightarrow> nat list \<Rightarrow> RowGroupFooterEntry \<Rightarrow> cell list list \<Rightarrow> nat \<Rightarrow> cell list list" where
  "group_rows skip ords rg cellss from_row =
     (if skips_group skip rg = Inr True then [] else map (scan_row ords cellss) [from_row..<unat (rg_row_count rg)])"

definition scan_rest :: "SeqScanOperator \<Rightarrow> cell list list list \<Rightarrow> cell list list" where
  "scan_rest sc contents =
     (let rgs = to_row_groups (sc_table sc); i = sc_row_group_index sc;
          rows = (\<lambda>j. group_rows (sc_zone_map_skip sc) (sc_required_ordinals sc) (rgs ! j) (contents ! j))
      in if i < length rgs
         then rows i (unat (sc_vector_index sc) * kVectorSize) @ concat (map (\<lambda>j. rows j 0) [Suc i..<length rgs])
         else [])"

definition scan_ready :: "TypeId list \<Rightarrow> cell list list list \<Rightarrow> scan_state \<Rightarrow> bool" where
  "scan_ready ts contents = (\<lambda>(sc, pool).
     let rgs = to_row_groups (sc_table sc); i = sc_row_group_index sc
     in pool_inv pool \<and> spare_frames 2 pool \<and> map cd_type (to_columns (sc_table sc)) = ts \<and>
        list_all2 (\<lambda>rg cellss. group_holds (pool_page pool) rg cellss \<and>
          scannable ts (sc_required_ordinals sc) rg cellss \<and>
          (\<exists>b. skips_group (sc_zone_map_skip sc) rg = Inr b)) rgs contents \<and>
        (i < length rgs \<longrightarrow> unat (sc_vector_index sc) * kVectorSize < unat (rg_row_count (rgs ! i))))"

lemma AdvanceToUsableRowGroup_here:
  assumes "sc_row_group_index sc < length (to_row_groups (sc_table sc))"
    and "skips_group (sc_zone_map_skip sc) (to_row_groups (sc_table sc) ! sc_row_group_index sc) = Inr False"
  shows "AdvanceToUsableRowGroup sc = (Inr True, sc)"
  using assms by (subst AdvanceToUsableRowGroup.simps) simp

lemma AdvanceToUsableRowGroup_skip:
  assumes "sc_row_group_index sc < length (to_row_groups (sc_table sc))"
    and "skips_group (sc_zone_map_skip sc) (to_row_groups (sc_table sc) ! sc_row_group_index sc) = Inr True"
  shows "SeqScan_GetNext (sc, pool) =
    SeqScan_GetNext (sc\<lparr>sc_row_group_index := sc_row_group_index sc + 1, sc_vector_index := 0\<rparr>, pool)"
  using assms by (simp add: SeqScan_GetNext_def AdvanceToUsableRowGroup.simps [of sc])

lemma scan_ready_kept:
  "scan_ready ts contents (sc, pool) \<Longrightarrow> scan_kept pool pool' \<Longrightarrow> scan_ready ts contents (sc, pool')"
  by (auto simp: scan_ready_def Let_def cache.kept_def spare_frames_def split: prod.splits)

text \<open>Moving on to the next row group.\<close>

abbreviation next_group :: "SeqScanOperator \<Rightarrow> SeqScanOperator" where
  "next_group sc \<equiv> sc\<lparr>sc_row_group_index := sc_row_group_index sc + 1, sc_vector_index := 0\<rparr>"

lemma next_group_ready:
  assumes "scan_ready ts contents (sc, pool)" and "sc_row_group_index sc < length (to_row_groups (sc_table sc))"
  shows "scan_ready ts contents (next_group sc, pool)"
  using assms by (auto simp: scan_ready_def Let_def list_all2_conv_all_nth group_holds_def)

lemma next_group_rest:
  assumes "sc_row_group_index sc < length (to_row_groups (sc_table sc))"
  shows "scan_rest sc contents =
    group_rows (sc_zone_map_skip sc) (sc_required_ordinals sc) (to_row_groups (sc_table sc) ! sc_row_group_index sc)
      (contents ! sc_row_group_index sc) (unat (sc_vector_index sc) * kVectorSize) @ scan_rest (next_group sc) contents"
  using assms by (auto simp: scan_rest_def Let_def upt_conv_Cons Suc_lessI)

text \<open>After one vector the remaining rows are those behind it.\<close>

lemma next_vector_spec:
  fixes sc pool contents
  defines "i \<equiv> sc_row_group_index sc"
  defines "rg \<equiv> to_row_groups (sc_table sc) ! i"
  defines "start \<equiv> unat (sc_vector_index sc) * kVectorSize"
  defines "m \<equiv> vector_rows (unat (rg_row_count rg)) (unat (sc_vector_index sc))"
  assumes ready: "scan_ready ts contents (sc, pool)" and i: "i < length (to_row_groups (sc_table sc))"
    and use: "skips_group (sc_zone_map_skip sc) rg = Inr False"
  shows "scan_ready ts contents (next_vector rg sc, pool)"
    and "scan_rest sc contents = map (scan_row (sc_required_ordinals sc) (contents ! i)) [start..<start + m] @
      scan_rest (next_vector rg sc) contents"
    and "(length (to_row_groups (sc_table sc)) - sc_row_group_index (next_vector rg sc)) * 20 - unat (sc_vector_index (next_vector rg sc))
      < (length (to_row_groups (sc_table sc)) - i) * 20 - unat (sc_vector_index sc)"
proof -
  let ?n = "unat (rg_row_count rg)" and ?vi = "sc_vector_index sc"
  from ready i have n: "start < ?n" "?n \<le> kRowGroupSize"
    by (auto simp: scan_ready_def Let_def list_all2_conv_all_nth group_holds_def i_def rg_def start_def)
  have small: "unat ?vi < 10" using n by (simp add: start_def size_consts)
  then have vi: "unat (?vi + 1) = unat ?vi + 1" by (simp add: unat_word_ariths)
  have split: "[start..<?n] = [start..<start + m] @ [start + m..<?n]"
    using n(1) upt_add_eq_append [of start "start + m" "?n - (start + m)"]
      vector_in_group [of "unat ?vi" ?n] by (simp add: m_def start_def)
  let ?rows = "\<lambda>k. map (scan_row (sc_required_ordinals sc) (contents ! i)) [k..<?n]"
  have rest: "scan_rest sc contents = ?rows start @ scan_rest (next_group sc) contents"
    using next_group_rest [of sc contents] i use by (simp add: i_def rg_def group_rows_def start_def)
  have "scan_ready ts contents (next_vector rg sc, pool) \<and> scan_rest sc contents =
      map (scan_row (sc_required_ordinals sc) (contents ! i)) [start..<start + m] @ scan_rest (next_vector rg sc) contents \<and>
    (length (to_row_groups (sc_table sc)) - sc_row_group_index (next_vector rg sc)) * 20 - unat (sc_vector_index (next_vector rg sc))
      < (length (to_row_groups (sc_table sc)) - i) * 20 - unat (sc_vector_index sc)"
  proof (cases "?n \<le> (unat ?vi + 1) * kVectorSize")
    case True
    then have "next_vector rg sc = next_group sc" by (simp add: next_vector_def vi Let_def)
    moreover have "start + m = ?n" using True n(1) by (simp add: m_def vector_rows_def start_def)
    moreover have "(length (to_row_groups (sc_table sc)) - Suc i) * 20 < (length (to_row_groups (sc_table sc)) - i) * 20 - unat ?vi"
      using i small by (simp add: diff_mult_distrib)
    ultimately show ?thesis using next_group_ready [OF ready] i rest by (simp add: i_def)
  next
    case False
    then have nv: "next_vector rg sc = sc\<lparr>sc_vector_index := ?vi + 1\<rparr>" by (simp add: next_vector_def vi Let_def)
    have m: "start + m = (unat ?vi + 1) * kVectorSize" using False by (simp add: m_def vector_rows_def start_def)
    have "scan_ready ts contents (next_vector rg sc, pool)"
      using ready False unfolding nv by (simp add: scan_ready_def Let_def vi rg_def i_def)
    moreover have "scan_rest (next_vector rg sc) contents = ?rows (start + m) @ scan_rest (next_group sc) contents"
      unfolding m nv using next_group_rest [of "sc\<lparr>sc_vector_index := ?vi + 1\<rparr>" contents] i use vi
      by (simp add: i_def rg_def group_rows_def)
    moreover have "(length (to_row_groups (sc_table sc)) - i) * 20 - (unat ?vi + 1) <
        (length (to_row_groups (sc_table sc)) - i) * 20 - unat ?vi"
      using i small by simp
    ultimately show ?thesis using rest vi unfolding nv by (simp add: split i_def)
  qed
  then show "scan_ready ts contents (next_vector rg sc, pool)"
    "scan_rest sc contents = map (scan_row (sc_required_ordinals sc) (contents ! i)) [start..<start + m] @
      scan_rest (next_vector rg sc) contents"
    "(length (to_row_groups (sc_table sc)) - sc_row_group_index (next_vector rg sc)) * 20 - unat (sc_vector_index (next_vector rg sc))
      < (length (to_row_groups (sc_table sc)) - i) * 20 - unat (sc_vector_index sc)"
    by blast+
qed

lemma next_vector_keeps [simp]:
  "sc_table (next_vector rg sc) = sc_table sc" "sc_required_ordinals (next_vector rg sc) = sc_required_ordinals sc"
  by (simp_all add: next_vector_def Let_def)

lemma scan_produces:
  assumes "scan_ready ts contents (sc, pool)"
  shows "\<exists>cs sc' pool'. produces SeqScan_GetNext (sc, pool) cs (sc', pool') \<and> scan_kept pool pool' \<and>
    list_all (\<lambda>dc. chunk_inv dc \<and> chunk_types dc = map ((!) ts) (sc_required_ordinals sc)) cs \<and>
    concat (map chunk_rows cs) = scan_rest sc contents"
  using assms
proof (induction "(length (to_row_groups (sc_table sc)) - sc_row_group_index sc) * 20 - unat (sc_vector_index sc)"
    arbitrary: sc pool rule: less_induct)
  case less
  let ?i = "sc_row_group_index sc" and ?rgs = "to_row_groups (sc_table sc)"
  show ?case
  proof (cases "?i < length ?rgs")
    case False
    then have "SeqScan_GetNext (sc, pool) = (Inr None, (sc, pool))"
      by (simp add: SeqScan_GetNext_def AdvanceToUsableRowGroup.simps [of sc])
    then have "produces SeqScan_GetNext (sc, pool) [] (sc, pool)" by (rule produces.exhausted)
    moreover have "scan_rest sc contents = []" using False by (simp add: scan_rest_def Let_def)
    moreover have "pool_inv pool" using less.prems by (simp add: scan_ready_def Let_def)
    ultimately show ?thesis
      using cache.kept_refl [of pool] by (intro exI [of _ "[]"] exI [of _ sc] exI [of _ pool]) simp
  next
    case True
    let ?rg = "?rgs ! ?i"
    have group: "group_holds (pool_page pool) ?rg (contents ! ?i)" "scannable ts (sc_required_ordinals sc) ?rg (contents ! ?i)"
      "\<exists>b. skips_group (sc_zone_map_skip sc) ?rg = Inr b" "unat (sc_vector_index sc) * kVectorSize < unat (rg_row_count ?rg)"
      and pool: "pool_inv pool" "spare_frames 2 pool" "map cd_type (to_columns (sc_table sc)) = ts"
      using less.prems True by (simp_all add: scan_ready_def Let_def list_all2_conv_all_nth)
    show ?thesis
    proof (cases "skips_group (sc_zone_map_skip sc) ?rg = Inr True")
      case skip: True
      have vi: "unat (sc_vector_index sc) < 10" using group(1,4) by (simp add: group_holds_def size_consts)
      have "(length ?rgs - Suc ?i) * 20 < (length ?rgs - ?i) * 20 - unat (sc_vector_index sc)"
        using True vi by (simp add: diff_mult_distrib)
      then obtain cs sc' pool' where cs: "produces SeqScan_GetNext (next_group sc, pool) cs (sc', pool')" "scan_kept pool pool'"
        "list_all (\<lambda>dc. chunk_inv dc \<and> chunk_types dc = map ((!) ts) (sc_required_ordinals sc)) cs"
        "concat (map chunk_rows cs) = scan_rest (next_group sc) contents"
        using less.hyps [OF _ next_group_ready [OF less.prems True]] by auto
      have "scan_rest sc contents = scan_rest (next_group sc) contents"
        using next_group_rest [OF True] skip by (simp add: group_rows_def)
      moreover have "produces SeqScan_GetNext (sc, pool) cs (sc', pool')"
        by (rule produces_same_start [OF cs(1)]) (simp add: AdvanceToUsableRowGroup_skip [OF True skip])
      ultimately show ?thesis
        using cs(2-4) by (intro exI [of _ cs] exI [of _ sc'] exI [of _ pool']) simp
    next
      case False
      then have use: "skips_group (sc_zone_map_skip sc) ?rg = Inr False" using group(3) by (auto split: bool.splits)
      obtain dc pool1 where v: "scan_vector sc ?rg pool = (Inr dc, pool1)" "scan_kept pool pool1"
        "scanned_chunk ts (sc_required_ordinals sc) (contents ! ?i)
          [unat (sc_vector_index sc) * kVectorSize..<unat (sc_vector_index sc) * kVectorSize +
            vector_rows (unat (rg_row_count ?rg)) (unat (sc_vector_index sc))] dc"
        by (rule scan_vector_spec [OF pool(1) group(1) pool(2,3) group(2,4)])
      have step: "SeqScan_GetNext (sc, pool) = (Inr (Some dc), (next_vector ?rg sc, pool1))"
        using v(1) by (simp add: SeqScan_GetNext_def AdvanceToUsableRowGroup_here [OF True use] Let_def)
      note nv = next_vector_spec [OF scan_ready_kept [OF less.prems v(2)] True use]
      from less.hyps [OF _ nv(1)] nv(3) obtain cs sc' pool' where
        cs: "produces SeqScan_GetNext (next_vector ?rg sc, pool1) cs (sc', pool')" "scan_kept pool1 pool'"
        "list_all (\<lambda>dc. chunk_inv dc \<and> chunk_types dc = map ((!) ts) (sc_required_ordinals sc)) cs"
        "concat (map chunk_rows cs) = scan_rest (next_vector ?rg sc) contents"
        by auto
      show ?thesis
        using produces.next_chunk [where get_next = SeqScan_GetNext, OF step cs(1)] cache.kept_trans [OF v(2) cs(2)]
          v(3) cs(3,4) nv(2)
        by (intro exI [of _ "dc # cs"] exI [of _ sc'] exI [of _ pool']) (simp add: scanned_chunk_def)
    qed
  qed
qed

text \<open>The rows of a table that a new scan returns, in terms of what is stored.\<close>

definition scanned_rows ::
    "ZoneMapSkipCondition option \<Rightarrow> nat list \<Rightarrow> RowGroupFooterEntry list \<Rightarrow> cell list list list \<Rightarrow> cell list list" where
  "scanned_rows skip ords rgs contents =
     concat (map (\<lambda>(rg, cellss). group_rows skip ords rg cellss 0) (zip rgs contents))"

lemma scan_rest_start:
  assumes "length (to_row_groups table) = length contents"
  shows "scan_rest (MakeSeqScanOperator table ords skip) contents = scanned_rows skip ords (to_row_groups table) contents"
proof -
  let ?rgs = "to_row_groups table"
  have "map (\<lambda>(rg, cellss). group_rows skip ords rg cellss 0) (zip ?rgs contents) =
      map (\<lambda>j. group_rows skip ords (?rgs ! j) (contents ! j) 0) [0..<length ?rgs]"
    using assms by (intro nth_equalityI) simp_all
  then show ?thesis
    by (cases "?rgs = []") (simp_all add: scan_rest_def scanned_rows_def MakeSeqScanOperator_def Let_def upt_conv_Cons)
qed

text \<open>Without pruning that is every stored row, reduced to the required columns.\<close>

lemma scanned_rows_all:
  assumes "list_all2 (\<lambda>rg cellss. scannable ts ords rg cellss) rgs contents"
  shows "scanned_rows None ords rgs contents =
    map (\<lambda>row. map (\<lambda>c. clean_cell (row ! c)) ords) (table_rows rgs contents)"
  using assms
proof (induction rule: list_all2_induct)
  case (Cons rg rgs cellss contents)
  have "length cellss = length ts" "\<forall>c \<in> set ords. c < length ts"
    using Cons.hyps(1) by (auto simp: scannable_def list_all_iff dest: list_all2_lengthD)
  then have "group_rows None ords rg cellss 0 =
      map (\<lambda>row. map (\<lambda>c. clean_cell (row ! c)) ords) (cells_rows (unat (rg_row_count rg)) cellss)"
    by (auto simp: group_rows_def skips_group_def cells_rows_def scan_row_def)
  with Cons.IH show ?case by (simp add: scanned_rows_def table_rows_def)
qed (simp add: scanned_rows_def table_rows_def)

section \<open>Pruning\<close>

locale comparison = scalar_order +
  fixes le eq :: "'a \<Rightarrow> 'a \<Rightarrow> bool"
  assumes le_up: "comparable y \<Longrightarrow> le z x \<Longrightarrow> \<not> lt y x \<Longrightarrow> le z y"
    and le_down: "comparable y \<Longrightarrow> le x z \<Longrightarrow> \<not> lt x y \<Longrightarrow> le y z"
    and eq_lt: "eq x z \<Longrightarrow> lt z y = lt x y" "eq x z \<Longrightarrow> lt y z = lt y x"
begin

lemma zone_rules_out_sound:
  assumes "zone_covers zone vs" and "list_all comparable vs" and "zone_rules_out lt le op zone c" and "v \<in> set vs"
  shows "\<not> ApplyComparison eq lt le op v c"
proof -
  from assms(1,4) have z: "zm_min zone \<in> set vs" "zm_max zone \<in> set vs" "\<not> lt v (zm_min zone)" "\<not> lt (zm_max zone) v"
    by (auto simp: zone_covers_def)
  with assms(2) have cmp: "comparable (zm_min zone)" "comparable (zm_max zone)" by (auto simp: list_all_iff)
  show ?thesis
    using assms(3) not_lt_trans [OF cmp(1), of c v] not_lt_trans [OF cmp(2), of v c] z
      le_up [OF cmp(2), of c v] le_down [OF cmp(1), of v c] eq_lt [of v c]
    by (cases op) (auto simp: zone_rules_out_def Let_def split: if_splits)
qed

end

interpretation int_comparison: comparison "word_sless :: int32 \<Rightarrow> _" "\<lambda>_. True" word_sle "(=)"
  by unfold_locales (auto simp: word_sless_alt word_sle_eq)

interpretation float_comparison: comparison f32_less "\<lambda>x. \<not> f32_is_nan x" f32_less_eq f32_equal
  by unfold_locales (auto simp: f32_less_def f32_less_eq_def f32_equal_def)

text \<open>The predicate a skip condition stands for, on the column at position \<open>k\<close> of a row.\<close>

fun zone_const :: "ZoneConstant \<Rightarrow> ConstValue" where
  "zone_const (ZoneInt c) = VInt c"
| "zone_const (ZoneFloat c) = VFloat c"

definition zone_predicate :: "ZoneMapSkipCondition \<Rightarrow> BoundColumnRef \<Rightarrow> BoundExpression" where
  "zone_predicate cond ref = BinaryOpNode (zs_op cond) (ColumnRefNode ref) (ConstNode (zone_const (zs_constant cond))) etInteger"

definition nan_free :: "cell list \<Rightarrow> bool" where
  "nan_free cells = list_all (\<lambda>x. \<not> f32_is_nan x) (valid_floats cells)"

lemma valid_cells:
  "cells ! i = (VInt x, True) \<Longrightarrow> i < length cells \<Longrightarrow> x \<in> set (valid_ints cells)"
  "cells ! i = (VFloat y, True) \<Longrightarrow> i < length cells \<Longrightarrow> y \<in> set (valid_floats cells)"
  unfolding valid_ints_def valid_floats_def by (force dest: nth_mem)+

lemma pruned_cell:
  assumes gh: "group_holds P rg cellss" and rule_out: "ZoneMapRulesOutRowGroup rg cond = Inr True"
    and nan: "nan_free (cellss ! zs_ordinal cond)" and i: "i < unat (rg_row_count rg)"
    and cell: "cellss ! zs_ordinal cond ! i = (v, True)" and op: "\<not> IsArithmeticOperator (zs_op cond)" "\<not> IsLogicalOperator (zs_op cond)"
  shows "compare_values (zs_op cond) (RVal v) (RVal (zone_const (zs_constant cond))) = Inr False"
proof -
  let ?c = "zs_ordinal cond" and ?op = "zs_op cond"
  have c: "?c < length cellss"
    using rule_out gh by (auto simp: ZoneMapRulesOutRowGroup_def rg_Column_def group_holds_def result_simps
        dest: list_all2_lengthD)
  note gd = group_holdsD [OF gh c]
  have entry: "rg_Column rg ?c = Inr (rg_columns rg ! ?c)" using gd(1) by (simp add: rg_Column_def)
  have cell_in: "v \<in> set (map fst (cellss ! ?c))" "i < length (cellss ! ?c)"
    using cell i gd(4) by (metis fst_conv length_map nth_map nth_mem, simp)
  show ?thesis
  proof (cases "zs_constant cond")
    case (ZoneInt k)
    with rule_out entry obtain e where e: "rg_columns rg ! ?c = IntEntry e"
      "zone_rules_out word_sless word_sle ?op (fe_zone_map e) k"
      by (auto simp: ZoneMapRulesOutRowGroup_def split: ColumnFooterEntry.splits)
    with gd(2) obtain vs where "map fst (cellss ! ?c) = map VInt vs" by auto
    with cell_in(1) obtain x where x: "v = VInt x" by auto
    have "\<not> compare_ints ?op x k"
      unfolding compare_ints_def
      by (rule int_comparison.zone_rules_out_sound [OF _ _ e(2)])
        (use gd(3) e(1) valid_cells(1) [OF _ cell_in(2)] cell x in \<open>auto simp: list_all_iff\<close>)
    then show ?thesis by (simp add: x ZoneInt)
  next
    case (ZoneFloat k)
    with rule_out entry obtain e where e: "rg_columns rg ! ?c = FloatEntry e"
      "zone_rules_out f32_less f32_less_eq ?op (fe_zone_map e) k"
      by (auto simp: ZoneMapRulesOutRowGroup_def split: ColumnFooterEntry.splits)
    with gd(2) obtain vs where "map fst (cellss ! ?c) = map VFloat vs" by auto
    with cell_in(1) obtain x where x: "v = VFloat x" by auto
    have "\<not> compare_floats ?op x k"
      unfolding compare_floats_def
      by (rule float_comparison.zone_rules_out_sound [OF _ _ e(2)])
        (use gd(3) nan e(1) valid_cells(2) [OF _ cell_in(2)] cell x in \<open>auto simp: nan_free_def\<close>)
    then show ?thesis by (simp add: x ZoneFloat)
  qed
qed

lemma zone_rules_out_op:
  "zone_rules_out lt le op z c \<Longrightarrow> \<not> IsArithmeticOperator op \<and> \<not> IsLogicalOperator op"
  by (cases op) (simp_all add: zone_rules_out_def IsArithmeticOperator_def IsLogicalOperator_def split: if_splits)

lemma zone_op_kind:
  assumes "ZoneMapRulesOutRowGroup rg cond = Inr True"
  shows "\<not> IsArithmeticOperator (zs_op cond)" "\<not> IsLogicalOperator (zs_op cond)"
proof -
  obtain e where "rg_Column rg (zs_ordinal cond) = Inr e"
    using assms by (auto simp: ZoneMapRulesOutRowGroup_def result_simps)
  with assms show "\<not> IsArithmeticOperator (zs_op cond)" "\<not> IsLogicalOperator (zs_op cond)"
    by (cases e; cases "zs_constant cond"; simp add: ZoneMapRulesOutRowGroup_def zone_rules_out_op)+
qed

lemma value_type_zero: "value_type (zero_value t) = t"
  by (cases t) simp_all

lemma pruned_row:
  assumes gh: "group_holds P rg cellss" and rule_out: "ZoneMapRulesOutRowGroup rg cond = Inr True"
    and nan: "nan_free (cellss ! zs_ordinal cond)" and i: "i < unat (rg_row_count rg)"
    and ref: "unat (cr_ordinal ref) < length ords" "ords ! unat (cr_ordinal ref) = zs_ordinal cond"
  shows "\<not> row_passes (zone_predicate cond ref) (scan_row ords cellss i)"
proof -
  obtain v b where cell: "cellss ! zs_ordinal cond ! i = (v, b)" by fastforce
  note op = zone_op_kind [OF rule_out]
  have "clean_cell (clean_cell (v, b)) = clean_cell (v, b)" by (cases b) (simp_all add: null_cell_def value_type_zero)
  then show ?thesis
    using pruned_cell [OF gh rule_out nan i _ op] cell ref op
    by (cases b) (auto simp: row_passes_def zone_predicate_def scan_row_def null_cell_def result_simps)
qed

text \<open>Pruning does not change what a filter lets through, if the filter implies the condition.\<close>

lemma pruning_invisible:
  assumes groups: "list_all2 (\<lambda>rg cellss. group_holds P rg cellss \<and> nan_free (cellss ! zs_ordinal cond)) rgs contents"
    and ref: "unat (cr_ordinal ref) < length ords" "ords ! unat (cr_ordinal ref) = zs_ordinal cond"
    and implies: "\<And>row. row_passes p row \<Longrightarrow> row_passes (zone_predicate cond ref) row"
  shows "filter (row_passes p) (scanned_rows (Some cond) ords rgs contents) =
    filter (row_passes p) (scanned_rows None ords rgs contents)"
  using groups
proof (induction rule: list_all2_induct)
  case (Cons rg rgs cellss contents)
  have "filter (row_passes p) (group_rows (Some cond) ords rg cellss 0) =
      filter (row_passes p) (group_rows None ords rg cellss 0)"
  proof (cases "ZoneMapRulesOutRowGroup rg cond = Inr True")
    case True
    have "\<not> row_passes p (scan_row ords cellss i)" if "i < unat (rg_row_count rg)" for i
      using pruned_row [OF _ True _ that ref, of P cellss] Cons.hyps(1) implies by blast
    then have "filter (row_passes p) (group_rows None ords rg cellss 0) = []"
      by (simp add: group_rows_def skips_group_def filter_empty_conv)
    with True show ?thesis by (simp add: group_rows_def skips_group_def)
  next
    case False
    then show ?thesis by (simp add: group_rows_def skips_group_def)
  qed
  with Cons.IH show ?case by (simp add: scanned_rows_def)
qed (simp add: scanned_rows_def)

end
