(* ===== verification/Pipeline.thy ===== *)
theory Pipeline
  imports Operators ByteIO
begin

text \<open>
  What the blocking operators share. Aggregation and the build side of a hash join drain
  their child: a \<open>while\<close> loop over \<open>GetNext\<close> around a loop over the selected rows. The loop
  over \<open>GetNext\<close> takes fuel; with more fuel than the child has chunks it never runs out. The
  locale \<open>row_consumer\<close> states what the body of the row loop must do, and gives the effect of
  the whole drain. Rows are identified by key bytes; \<open>self_delimiting\<close> encodings of values
  concatenate injectively.
\<close>

section \<open>Loops over a mutable object\<close>

fun seach :: "('a \<Rightarrow> ('s, unit) action) \<Rightarrow> 'a list \<Rightarrow> ('s, unit) action" where
  "seach f [] = sreturn ()"
| "seach f (x # xs) = sbind (f x) (\<lambda>_. seach f xs)"

lemma seach_append: "seach f (xs @ ys) s = sbind (seach f xs) (\<lambda>_. seach f ys) s"
  by (induction xs arbitrary: s) (auto simp: sbind_def split: prod.splits sum.splits)

text \<open>\<open>for (row = 0; row < chunk.RowCount(); ++row) if (chunk.IsRowSelected(row)) ...\<close>\<close>

definition each_selected :: "(DataChunk \<Rightarrow> nat \<Rightarrow> ('a, unit) action) \<Rightarrow> DataChunk \<Rightarrow> ('a, unit) action" where
  "each_selected process chunk =
     seach (\<lambda>row. sbind (sresult (IsRowSelected chunk row)) (\<lambda>sel.
              if \<not> sel then sreturn () else process chunk row)) [0..<dc_row_count chunk]"

text \<open>\<open>while (chunk = child.GetNext()) ...\<close>\<close>

fun drain_child ::
    "nat \<Rightarrow> ('s, DataChunk option) action \<Rightarrow> (DataChunk \<Rightarrow> ('a, unit) action) \<Rightarrow> ('a \<times> 's, unit) action" where
  "drain_child 0 child step a = (Inl OutOfFuel, a)"
| "drain_child (Suc fuel) child step (a, s) =
     (case child s of
        (Inl e, s') \<Rightarrow> (Inl e, (a, s'))
      | (Inr None, s') \<Rightarrow> (Inr (), (a, s'))
      | (Inr (Some chunk), s') \<Rightarrow>
          (case step chunk a of
             (Inl e, a') \<Rightarrow> (Inl e, (a', s'))
           | (Inr _, a') \<Rightarrow> drain_child fuel child step (a', s')))"

lemma length_chunk_row [simp]: "length (chunk_row dc i) = length (chunk_types dc)"
  by (simp add: chunk_row_def chunk_types_def)

lemma chunk_column:
  assumes "chunk_inv dc" and "c < length (chunk_types dc)" and "i < dc_row_count dc"
  obtains col where "dc_Column dc c = Inr col" "col_inv col" "i < length (col_cells col)"
    "column_type col = chunk_types dc ! c" "col_cells col ! i = chunk_row dc i ! c"
proof
  show "dc_Column dc c = Inr (dc_columns dc ! c)" using assms(2) by (simp add: dc_Column_def chunk_types_def)
qed (use assms in \<open>simp_all add: chunk_inv_def chunk_types_def chunk_row_def list_all_length\<close>)

section \<open>Consuming rows\<close>

locale row_consumer =
  fixes process :: "DataChunk \<Rightarrow> nat \<Rightarrow> ('a, unit) action"
    and accepts :: "DataChunk \<Rightarrow> bool"
    and fits :: "cell list list \<Rightarrow> bool"
    and consumed :: "cell list list \<Rightarrow> 'a \<Rightarrow> bool"
  assumes process_row: "accepts dc \<Longrightarrow> chunk_inv dc \<Longrightarrow> i < dc_row_count dc \<Longrightarrow>
      fits (rows @ [chunk_row dc i]) \<Longrightarrow> consumed rows a \<Longrightarrow>
      \<exists>a'. process dc i a = (Inr (), a') \<and> consumed (rows @ [chunk_row dc i]) a'"
    and fits_prefix: "fits (xs @ ys) \<Longrightarrow> fits xs"
begin

lemma each_selected_rows:
  assumes "accepts dc" and inv: "chunk_inv dc" and "fits (rows @ chunk_rows dc)" and "consumed rows a"
  shows "\<exists>a'. each_selected process dc a = (Inr (), a') \<and> consumed (rows @ chunk_rows dc) a'"
proof -
  let ?rows = "\<lambda>k. map (chunk_row dc) (filter (row_selected dc) [0..<k])"
  define body where "body = (\<lambda>row. sbind (sresult (IsRowSelected dc row)) (\<lambda>sel. if \<not> sel then sreturn () else process dc row))"
  have "\<exists>a'. seach body [0..<k] a = (Inr (), a') \<and> consumed (rows @ ?rows k) a'"
    if "k \<le> dc_row_count dc" "fits (rows @ ?rows k)" for k
    using that
  proof (induction k)
    case (Suc k)
    have "fits (rows @ ?rows k)"
      using Suc.prems(2) fits_prefix [of "rows @ ?rows k"] by (auto split: if_splits)
    then obtain a1 where a1: "seach body [0..<k] a = (Inr (), a1)" "consumed (rows @ ?rows k) a1"
      using Suc.IH Suc.prems(1) Suc_leD by blast
    have sel: "IsRowSelected dc k = Inr (row_selected dc k)"
      using IsRowSelected_spec [OF inv] Suc.prems(1) by simp
    show ?case
    proof (cases "row_selected dc k")
      case True
      with Suc.prems process_row [OF assms(1) inv, of k "rows @ ?rows k" a1] a1(2)
      obtain a2 where "process dc k a1 = (Inr (), a2)" "consumed (rows @ ?rows (Suc k)) a2" by auto
      moreover have "body k a1 = process dc k a1" using sel True by (simp add: body_def)
      ultimately show ?thesis using a1(1) by (simp add: seach_append sbind_Inr)
    next
      case False
      then have "body k a1 = (Inr (), a1)" using sel by (simp add: body_def)
      with a1 False show ?thesis by (simp add: seach_append sbind_Inr)
    qed
  qed (use assms(4) in simp)
  from this [of "dc_row_count dc"] assms(3) show ?thesis
    by (simp add: each_selected_def chunk_rows_def body_def)
qed

lemma drain_rows:
  assumes "produces child s cs s'" and "\<And>c. c \<in> set cs \<Longrightarrow> accepts c \<and> chunk_inv c"
    and "fits (rows @ concat (map chunk_rows cs))" and "consumed rows a" and "length cs < fuel"
  shows "\<exists>a'. drain_child fuel child (each_selected process) (a, s) = (Inr (), (a', s')) \<and>
    consumed (rows @ concat (map chunk_rows cs)) a'"
  using assms
proof (induction arbitrary: rows a fuel rule: produces.induct)
  case (exhausted get_next s s')
  then show ?case by (cases fuel) auto
next
  case (next_chunk get_next s c s' cs s'')
  obtain n where n: "fuel = Suc n" using next_chunk.prems by (cases fuel) auto
  have "fits (rows @ chunk_rows c)"
    using next_chunk.prems(2) fits_prefix [of "rows @ chunk_rows c"] by simp
  then obtain a1 where a1: "each_selected process c a = (Inr (), a1)" "consumed (rows @ chunk_rows c) a1"
    using each_selected_rows [of c rows a] next_chunk.prems by auto
  obtain a2 where "drain_child n get_next (each_selected process) (a1, s') = (Inr (), (a2, s''))"
    "consumed ((rows @ chunk_rows c) @ concat (map chunk_rows cs)) a2"
    using next_chunk.IH [where rows = "rows @ chunk_rows c" and a = a1 and fuel = n] next_chunk.prems a1(2) n
    by auto
  with a1(1) next_chunk.hyps(1) show ?case by (simp add: n)
qed

end

section \<open>Self-delimiting encodings\<close>

definition self_delimiting :: "('a \<Rightarrow> bool) \<Rightarrow> ('a \<Rightarrow> bytes) \<Rightarrow> bool" where
  "self_delimiting ok enc = (\<forall>v w r s. ok v \<longrightarrow> ok w \<longrightarrow> enc v @ r = enc w @ s \<longrightarrow> v = w \<and> r = s)"

lemma parses_self_delimiting:
  assumes "\<And>v. ok v \<Longrightarrow> parses rd (enc v) v"
  shows "self_delimiting ok enc"
  unfolding self_delimiting_def
proof (intro allI impI)
  fix v w r s
  assume "ok v" "ok w" and eq: "enc v @ r = enc w @ s"
  from parses_whole [OF assms [OF \<open>ok v\<close>], of r] parses_whole [OF assms [OF \<open>ok w\<close>], of s]
  have "v = w" "length (enc v) = length (enc w)" by (simp_all add: eq)
  with eq show "v = w \<and> r = s" by simp
qed

lemma self_delimiting_concat:
  assumes sd: "\<And>i. i < n \<Longrightarrow> self_delimiting (ok i) (enc i)" and len: "length vs = n" "length ws = n"
    and ok: "\<And>i. i < n \<Longrightarrow> ok i (vs ! i) \<and> ok i (ws ! i)"
    and eq: "concat (map (\<lambda>i. enc i (vs ! i)) [0..<n]) @ r = concat (map (\<lambda>i. enc i (ws ! i)) [0..<n]) @ s"
  shows "vs = ws \<and> r = s"
proof -
  have "(\<forall>i < k. vs ! i = ws ! i) \<and> r' = s'"
    if "k \<le> n" "concat (map (\<lambda>i. enc i (vs ! i)) [0..<k]) @ r' = concat (map (\<lambda>i. enc i (ws ! i)) [0..<k]) @ s'" for k r' s'
    using that
  proof (induction k arbitrary: r' s')
    case (Suc k)
    have "concat (map (\<lambda>i. enc i (vs ! i)) [0..<k]) @ enc k (vs ! k) @ r' =
        concat (map (\<lambda>i. enc i (ws ! i)) [0..<k]) @ enc k (ws ! k) @ s'"
      using Suc.prems(2) by simp
    from Suc.IH [OF _ this] Suc.prems(1)
    have ih: "\<forall>i < k. vs ! i = ws ! i" "enc k (vs ! k) @ r' = enc k (ws ! k) @ s'" by simp_all
    moreover have "vs ! k = ws ! k \<and> r' = s'"
      using sd [of k, unfolded self_delimiting_def, rule_format, OF _ _ _ ih(2)] ok [of k] Suc.prems(1) by simp
    ultimately show ?case by (auto simp: less_Suc_eq)
  qed simp
  from this [OF order_refl eq] len show ?thesis by (simp add: list_eq_iff_nth_eq)
qed

text \<open>Values of one type as bytes.\<close>

fun value_bytes :: "ConstValue \<Rightarrow> bytes" where
  "value_bytes (VInt v) = WriteU32 [] v"
| "value_bytes (VFloat v) = WriteFloat [] v"
| "value_bytes (VString s) = WriteString [] s"

fun read_value :: "TypeId \<Rightarrow> ByteReader \<Rightarrow> (ConstValue \<times> ByteReader) result" where
  "read_value kInteger = (\<lambda>r. rbind (ReadU32 r) (\<lambda>(x, r). Inr (VInt x, r)))"
| "read_value kFloat = (\<lambda>r. rbind (ReadFloat r) (\<lambda>(x, r). Inr (VFloat x, r)))"
| "read_value kVarchar = (\<lambda>r. rbind (ReadString r) (\<lambda>(x, r). Inr (VString x, r)))"

definition key_value_ok :: "TypeId \<Rightarrow> ConstValue \<Rightarrow> bool" where
  "key_value_ok t v = (value_type v = t \<and> value_weight v < 2 ^ 32)"

lemma parses_read_value:
  assumes "key_value_ok t v"
  shows "parses (read_value t) (value_bytes v) v"
proof (cases v)
  case (VInt x)
  with assms parses_map [OF u32.rd_wr [OF TrueI, of x], where f = VInt] show ?thesis
    by (auto simp: key_value_ok_def)
next
  case (VFloat x)
  with assms parses_map [OF float_codec.rd_wr [OF TrueI, of x], where f = VFloat] show ?thesis
    by (auto simp: key_value_ok_def)
next
  case (VString x)
  with assms have "string_ok x" and t: "t = kVarchar" by (auto simp: key_value_ok_def string_ok_def)
  from parses_map [OF string_codec.rd_wr [OF this(1)], where f = VString] show ?thesis
    by (simp add: t VString)
qed

section \<open>Columns built row by row\<close>

lemma clean_cell_twice [simp]: "clean_cell (clean_cell x) = clean_cell x"
proof (cases x)
  case (Pair v b)
  moreover have "value_type (zero_value t) = t" for t by (cases t) simp_all
  ultimately show ?thesis by (cases b) (simp_all add: null_cell_def)
qed

text \<open>Columns of types \<open>ts\<close> that hold exactly the rows \<open>rows\<close>.\<close>

definition cell_weight :: "cell \<Rightarrow> nat" where
  "cell_weight x = value_weight (fst x)"

lemma zero_value_weight [simp]: "value_weight (zero_value t) = 0"
  by (cases t) simp_all

lemma clean_cell_weight: "cell_weight (clean_cell x) \<le> cell_weight x"
  by (cases x) (simp add: cell_weight_def null_cell_def)

definition column_weight :: "nat \<Rightarrow> cell list list \<Rightarrow> nat" where
  "column_weight c rows = sum_list (map (\<lambda>r. cell_weight (r ! c)) rows)"

definition cols_hold :: "TypeId list \<Rightarrow> cell list list \<Rightarrow> ColumnVariant list \<Rightarrow> bool" where
  "cols_hold ts rows cols = (length cols = length ts \<and> (\<forall>c < length ts. col_inv (cols ! c) \<and>
     column_type (cols ! c) = ts ! c \<and> col_cells (cols ! c) = map (\<lambda>r. r ! c) rows \<and>
     col_load (cols ! c) = column_weight c rows))"

lemma cols_hold_empty: "cols_hold ts [] (map EmptyColumn ts)"
  by (simp add: cols_hold_def EmptyColumn_spec column_weight_def)

text \<open>One more row, each cell appended to its column, or copied from some source column.\<close>

definition appends :: "ColumnVariant result \<Rightarrow> ColumnVariant \<Rightarrow> cell \<Rightarrow> bool" where
  "appends r dst x = (col_load dst + cell_weight x < varchar_capacity \<longrightarrow>
     (\<exists>d. r = Inr d \<and> col_inv d \<and> column_type d = column_type dst \<and> col_cells d = col_cells dst @ [x] \<and>
        col_load d = col_load dst + cell_weight x))"

definition copies :: "ColumnVariant result \<Rightarrow> ColumnVariant \<Rightarrow> cell \<Rightarrow> bool" where
  "copies r dst x = (\<exists>src i. r = copy_row src i dst \<and> col_inv src \<and> i < length (col_cells src) \<and>
     column_type src = column_type dst \<and> clean_cell (col_cells src ! i) = x)"

lemma copies_appends:
  assumes "copies r dst x" and "col_inv dst"
  shows "appends r dst x"
proof -
  from assms(1) obtain src i where src: "r = copy_row src i dst" "col_inv src" "i < length (col_cells src)"
    "column_type src = column_type dst" "clean_cell (col_cells src ! i) = x"
    by (auto simp: copies_def)
  then show ?thesis
    using copy_row_spec [OF src(2,3) assms(2)] by (force simp: appends_def cell_weight_def)
qed

lemma append_value_appends:
  assumes "col_inv dst" and "case v of None \<Rightarrow> True | Some v \<Rightarrow> value_type v = column_type dst"
  shows "appends (case v of None \<Rightarrow> col_AppendNull dst | Some v \<Rightarrow> col_Append dst v) dst
    (case v of None \<Rightarrow> null_cell (column_type dst) | Some v \<Rightarrow> (v, True))"
proof (cases v)
  case None
  then show ?thesis
    using col_AppendNull_spec [OF assms(1)] by (auto simp: appends_def cell_weight_def null_cell_def)
next
  case (Some x)
  with col_Append_spec [of dst x] assms show ?thesis by (auto simp: appends_def cell_weight_def)
qed

lemma cols_hold_extend:
  assumes hold: "cols_hold ts rows cols"
    and f: "\<And>c. c < length ts \<Longrightarrow> appends (f (c, cols ! c)) (cols ! c) (row ! c)"
    and room: "\<And>c. c < length ts \<Longrightarrow> column_weight c (rows @ [row]) < varchar_capacity"
  shows "\<exists>cols'. rmap f (List.enumerate 0 cols) = Inr cols' \<and> cols_hold ts (rows @ [row]) cols'"
proof -
  have len: "length cols = length ts" using hold by (simp add: cols_hold_def)
  have "\<exists>d. f (c, cols ! c) = Inr d \<and> col_inv d \<and> column_type d = ts ! c \<and>
      col_cells d = map (\<lambda>r. r ! c) (rows @ [row]) \<and> col_load d = column_weight c (rows @ [row])"
    if c: "c < length ts" for c
    using f [OF c] room [OF c] hold c by (simp add: appends_def cols_hold_def column_weight_def)
  then obtain d where d: "\<And>c. c < length ts \<Longrightarrow> f (c, cols ! c) = Inr (d c) \<and> col_inv (d c) \<and> column_type (d c) = ts ! c \<and>
      col_cells (d c) = map (\<lambda>r. r ! c) (rows @ [row]) \<and> col_load (d c) = column_weight c (rows @ [row])"
    by metis
  have "rmap f (List.enumerate 0 cols) = Inr (map (\<lambda>p. d (fst p)) (List.enumerate 0 cols))"
    using d len by (intro rmap_Inr) (auto simp: in_set_enumerate_eq)
  moreover have "map (\<lambda>p. d (fst p)) (List.enumerate 0 cols) = map d [0..<length ts]"
    by (rule nth_equalityI) (simp_all add: nth_enumerate_eq len)
  moreover have "cols_hold ts (rows @ [row]) (map d [0..<length ts])"
    using d by (simp add: cols_hold_def)
  ultimately show ?thesis by auto
qed

lemma cols_hold_snoc:
  assumes "cols_hold ts rows cols"
    and "\<And>c. c < length ts \<Longrightarrow> copies (f (c, cols ! c)) (cols ! c) (row ! c)"
    and "\<And>c. c < length ts \<Longrightarrow> column_weight c (rows @ [row]) < varchar_capacity"
  shows "\<exists>cols'. rmap f (List.enumerate 0 cols) = Inr cols' \<and> cols_hold ts (rows @ [row]) cols'"
  using assms by (intro cols_hold_extend copies_appends) (auto simp: cols_hold_def)

text \<open>Values so short that \<open>kVectorSize\<close> of them fit the 32-bit offsets of a column.\<close>

definition light :: "cell list \<Rightarrow> bool" where
  "light row = list_all (\<lambda>x. cell_weight x < 2 ^ 21) row"

lemma light_clean: "light row \<Longrightarrow> light (map clean_cell row)"
  by (auto simp: light_def list_all_iff simp del: clean_cell.simps intro: le_less_trans [OF clean_cell_weight])

lemma light_column_weight:
  assumes "list_all (\<lambda>r. light r \<and> c < length r) rows" and "length rows \<le> kVectorSize"
  shows "column_weight c rows < varchar_capacity"
proof -
  have "cell_weight (r ! c) \<le> 2 ^ 21 - 1" if "r \<in> set rows" for r
  proof -
    have "light r" "c < length r" using assms(1) that by (auto simp: list_all_iff)
    then have "cell_weight (r ! c) < 2 ^ 21" by (simp add: light_def list_all_length)
    then show ?thesis by simp
  qed
  then have "column_weight c rows \<le> length rows * (2 ^ 21 - 1)"
    by (induction rows) (simp_all add: column_weight_def add_mono)
  also have "\<dots> \<le> 1024 * (2 ^ 21 - 1)" using assms(2) by (simp add: kVectorSize_def)
  finally show ?thesis by simp
qed

lemma cols_hold_append:
  assumes "cols_hold ts1 (map fst rows) cols1" and "cols_hold ts2 (map snd rows) cols2"
    and "\<And>r. r \<in> set rows \<Longrightarrow> length (fst r) = length ts1"
  shows "cols_hold (ts1 @ ts2) (map (\<lambda>(a, b). a @ b) rows) (cols1 @ cols2)"
  using assms
  by (auto simp: cols_hold_def nth_append column_weight_def comp_def split_beta intro!: arg_cong [of _ _ sum_list])

text \<open>A chunk over such columns.\<close>

lemma add_columns_loop:
  assumes "chunk_inv out" and "\<forall>c \<in> set cs. col_inv c \<and> length (col_cells c) = dc_row_count out"
  shows "rfold (\<lambda>c output. dc_AddColumn output c) cs out = Inr (out\<lparr>dc_columns := dc_columns out @ cs\<rparr>) \<and>
    chunk_inv (out\<lparr>dc_columns := dc_columns out @ cs\<rparr>)"
  using assms
proof (induction cs arbitrary: out)
  case (Cons c cs)
  then have "dc_AddColumn out c = Inr (out\<lparr>dc_columns := dc_columns out @ [c]\<rparr>)"
    and "chunk_inv (out\<lparr>dc_columns := dc_columns out @ [c]\<rparr>)"
    using dc_AddColumn_spec [of out c] by simp_all
  with Cons.IH [of "out\<lparr>dc_columns := dc_columns out @ [c]\<rparr>"] Cons.prems show ?case
    by simp
qed simp

lemma chunk_of_columns:
  assumes hold: "cols_hold ts rows cols" and len: "\<And>r. r \<in> set rows \<Longrightarrow> length r = length ts"
    and n: "length rows \<le> kVectorSize"
  shows "\<exists>dc. rbind (MakeDataChunk (length rows)) (rfold (\<lambda>c output. dc_AddColumn output c) cols) = Inr dc \<and>
    chunk_inv dc \<and> chunk_types dc = ts \<and> dc_row_count dc = length rows \<and> chunk_rows dc = rows"
proof -
  from MakeDataChunk_spec [OF n] obtain out where
    out: "MakeDataChunk (length rows) = Inr out" "chunk_inv out" "dc_row_count out = length rows" "dc_columns out = []"
      "vb_bits (dc_selection out) = replicate (length rows) True" by blast
  have cols: "length cols = length ts" "\<And>c. c < length ts \<Longrightarrow> col_inv (cols ! c) \<and>
      column_type (cols ! c) = ts ! c \<and> col_cells (cols ! c) = map (\<lambda>r. r ! c) rows"
    using hold by (simp_all add: cols_hold_def)
  let ?dc = "out\<lparr>dc_columns := cols\<rparr>"
  have "\<forall>c \<in> set cols. col_inv c \<and> length (col_cells c) = dc_row_count out"
    using cols out(3) by (auto simp: in_set_conv_nth)
  from add_columns_loop [OF out(2) this] out(4)
  have "rfold (\<lambda>c output. dc_AddColumn output c) cols out = Inr ?dc" "chunk_inv ?dc" by simp_all
  moreover have "chunk_types ?dc = ts"
    using cols by (auto simp: chunk_types_def intro!: nth_equalityI)
  moreover have "chunk_row ?dc i = rows ! i" if "i < length rows" for i
    using cols that len [of "rows ! i"] by (auto simp: chunk_row_def intro!: nth_equalityI)
  then have "chunk_rows ?dc = map ((!) rows) [0..<length rows]"
    using out(3,5) by (auto simp: chunk_rows_def row_selected_def cong: filter_cong intro!: map_cong)
  ultimately show ?thesis using out(1,3) by (auto simp: map_nth)
qed

end
