(* ===== verification/HashJoin.thy ===== *)
theory HashJoin
  imports Pipeline
begin

text \<open>
  \<open>execution/hash_join_operator\<close>: the build side is drained into columns and a hash table
  from key bytes to row numbers, then the probe side is streamed and every probe row emits
  one output row per matching build row, at most \<open>kVectorSize\<close> rows per chunk. A probe row
  with many matches is continued in the next chunk.

  A key is compared by its bytes. Rows with a null key never match. The two children act on
  one common state, the buffer pool below them.
\<close>

section \<open>Keys and rows\<close>

definition MakeEmptyColumns :: "TypeId list \<Rightarrow> ColumnVariant list" where
  "MakeEmptyColumns types = map EmptyColumn types"

definition MakeEmptyColumnsLike :: "DataChunk \<Rightarrow> ColumnVariant list" where
  "MakeEmptyColumnsLike chunk = map (\<lambda>c. EmptyColumn (column_type c)) (dc_columns chunk)"

text \<open>The bytes of a value in memory; a string is preceded by its length.\<close>

fun key_bytes :: "ConstValue \<Rightarrow> bytes" where
  "key_bytes (VInt v) = WriteU32 [] v"
| "key_bytes (VFloat v) = WriteU32 [] (f32_bits v)"
| "key_bytes (VString s) = WriteU32 [] (word_of_nat (length s)) @ bytes_of_string s"

fun join_key_from :: "DataChunk \<Rightarrow> nat list \<Rightarrow> nat \<Rightarrow> bytes \<Rightarrow> bytes option result" where
  "join_key_from chunk [] row key = Inr (Some key)"
| "join_key_from chunk (ordinal # ordinals) row key =
     rbind (dc_Column chunk ordinal) (\<lambda>col.
     rbind (col_IsNull col row) (\<lambda>is_null.
       if is_null then Inr None
       else rbind (col_GetValue col row) (\<lambda>v. join_key_from chunk ordinals row (key @ key_bytes v))))"

definition ComputeJoinKey :: "DataChunk \<Rightarrow> nat list \<Rightarrow> nat \<Rightarrow> bytes option result" where
  "ComputeJoinKey chunk key_ordinals row = join_key_from chunk key_ordinals row []"

text \<open>A column of another type than the chunk's is left as it is.\<close>

definition append_build_column :: "DataChunk \<Rightarrow> nat \<Rightarrow> nat \<times> ColumnVariant \<Rightarrow> ColumnVariant result" where
  "append_build_column chunk row = (\<lambda>(c, out_col).
     rbind (dc_Column chunk c) (\<lambda>in_col.
       if column_type in_col = column_type out_col then copy_row in_col row out_col else Inr out_col))"

definition AppendBuildRow :: "ColumnVariant list \<Rightarrow> DataChunk \<Rightarrow> nat \<Rightarrow> ColumnVariant list result" where
  "AppendBuildRow build_columns chunk row =
     rmap (append_build_column chunk row) (List.enumerate 0 build_columns)"

text \<open>\<open>std::get\<close> of the source's type on the output column, then one row copied.\<close>

definition append_as :: "ColumnVariant \<Rightarrow> nat \<Rightarrow> ColumnVariant \<Rightarrow> ColumnVariant result" where
  "append_as source row out =
     (if column_type out = column_type source then copy_row source row out else Inl BadVariantAccess)"

definition AppendFromColumnStorage :: "ColumnVariant list \<Rightarrow> nat \<Rightarrow> nat \<times> ColumnVariant \<Rightarrow> ColumnVariant result" where
  "AppendFromColumnStorage build_columns row = (\<lambda>(c, out).
     rbind (vec_at build_columns c) (\<lambda>source. append_as source row out))"

definition AppendFromChunkColumn :: "DataChunk \<Rightarrow> nat \<Rightarrow> nat \<times> ColumnVariant \<Rightarrow> ColumnVariant result" where
  "AppendFromChunkColumn chunk row = (\<lambda>(c, out).
     rbind (dc_Column chunk c) (\<lambda>source. append_as source row out))"

section \<open>HashJoinOperator\<close>

record HashJoinOperator =
  hj_build_key_ordinals :: "nat list"
  hj_probe_key_ordinals :: "nat list"
  hj_build_column_types :: "TypeId list"
  hj_built :: bool
  hj_build_columns :: "ColumnVariant list"
  hj_build_row_count :: nat
  hj_hash_table :: "bytes \<rightharpoonup> uint32 list"
  hj_current_probe_chunk :: "DataChunk option"
  hj_current_probe_row :: nat
  hj_current_matches :: "uint32 list"
  hj_current_match_index :: nat

definition MakeHashJoinOperator :: "nat list \<Rightarrow> nat list \<Rightarrow> TypeId list \<Rightarrow> HashJoinOperator" where
  "MakeHashJoinOperator build_key_ordinals probe_key_ordinals build_column_types =
     \<lparr>hj_build_key_ordinals = build_key_ordinals, hj_probe_key_ordinals = probe_key_ordinals,
      hj_build_column_types = build_column_types, hj_built = False, hj_build_columns = [],
      hj_build_row_count = 0, hj_hash_table = Map.empty, hj_current_probe_chunk = None,
      hj_current_probe_row = 0, hj_current_matches = [], hj_current_match_index = 0\<rparr>"

definition build_row :: "DataChunk \<Rightarrow> nat \<Rightarrow> (HashJoinOperator, unit) action" where
  "build_row chunk i hj =
     (case ComputeJoinKey chunk (hj_build_key_ordinals hj) i of
        Inl e \<Rightarrow> (Inl e, hj)
      | Inr None \<Rightarrow> (Inr (), hj)
      | Inr (Some key) \<Rightarrow>
          (let new_index = word_of_nat (hj_build_row_count hj) :: uint32
           in case AppendBuildRow (hj_build_columns hj) chunk i of
                Inl e \<Rightarrow> (Inl e, hj)
              | Inr columns \<Rightarrow>
                  (Inr (), hj\<lparr>hj_build_columns := columns, hj_build_row_count := hj_build_row_count hj + 1,
                     hj_hash_table := (hj_hash_table hj)(key \<mapsto>
                       (case hj_hash_table hj key of None \<Rightarrow> [] | Some rows \<Rightarrow> rows) @ [new_index])\<rparr>)))"

definition BuildPhase ::
    "nat \<Rightarrow> ('s, DataChunk option) action \<Rightarrow> (HashJoinOperator \<times> 's, unit) action" where
  "BuildPhase fuel build_child = (\<lambda>(hj, s).
     drain_child fuel build_child (each_selected build_row)
       (hj\<lparr>hj_build_columns := MakeEmptyColumns (hj_build_column_types hj)\<rparr>, s))"

text \<open>The inner loop: on to the next probe row that has a match.\<close>

function probe_advance :: "DataChunk \<Rightarrow> HashJoinOperator \<Rightarrow> HashJoinOperator result" where
  "probe_advance chunk hj =
     (if hj_current_probe_row hj < dc_row_count chunk \<and>
         hj_current_match_index hj \<ge> length (hj_current_matches hj)
      then rbind (IsRowSelected chunk (hj_current_probe_row hj)) (\<lambda>selected.
             if \<not> selected
             then probe_advance chunk (hj\<lparr>hj_current_probe_row := hj_current_probe_row hj + 1\<rparr>)
             else rbind (ComputeJoinKey chunk (hj_probe_key_ordinals hj) (hj_current_probe_row hj)) (\<lambda>key.
                    case key of
                      None \<Rightarrow> probe_advance chunk (hj\<lparr>hj_current_probe_row := hj_current_probe_row hj + 1\<rparr>)
                    | Some k \<Rightarrow>
                        (case hj_hash_table hj k of
                           Some (m # ms) \<Rightarrow> probe_advance chunk
                             (hj\<lparr>hj_current_matches := m # ms, hj_current_match_index := 0\<rparr>)
                         | _ \<Rightarrow> probe_advance chunk
                             (hj\<lparr>hj_current_matches := [], hj_current_match_index := 0,
                                 hj_current_probe_row := hj_current_probe_row hj + 1\<rparr>))))
      else Inr hj)"
  by pat_completeness auto
termination
  by (relation "measure (\<lambda>(chunk, hj). 2 * (dc_row_count chunk - hj_current_probe_row hj) +
        (if hj_current_match_index hj \<ge> length (hj_current_matches hj) then 1 else 0))") auto

declare probe_advance.simps [simp del]

text \<open>The outer loop, with the number of rows that still fit into the chunk.\<close>

type_synonym join_output = "ColumnVariant list \<times> ColumnVariant list"

fun probe_fill ::
    "nat \<Rightarrow> DataChunk \<Rightarrow> HashJoinOperator \<Rightarrow> join_output \<Rightarrow> nat \<Rightarrow> (HashJoinOperator \<times> join_output \<times> nat) result" where
  "probe_fill 0 chunk hj out emitted = Inr (hj, out, emitted)"
| "probe_fill (Suc room) chunk hj out emitted =
     rbind (probe_advance chunk hj) (\<lambda>hj.
       if hj_current_probe_row hj \<ge> dc_row_count chunk
       then Inr (hj\<lparr>hj_current_probe_chunk := None\<rparr>, out, emitted)
       else rbind (vec_at (hj_current_matches hj) (hj_current_match_index hj)) (\<lambda>build_row.
            rbind (rmap (AppendFromColumnStorage (hj_build_columns hj) (unat build_row))
                     (List.enumerate 0 (fst out))) (\<lambda>output_build.
            rbind (rmap (AppendFromChunkColumn chunk (hj_current_probe_row hj))
                     (List.enumerate 0 (snd out))) (\<lambda>output_probe.
              let hj = hj\<lparr>hj_current_match_index := hj_current_match_index hj + 1\<rparr>;
                  hj = (if hj_current_match_index hj \<ge> length (hj_current_matches hj)
                        then hj\<lparr>hj_current_probe_row := hj_current_probe_row hj + 1,
                                hj_current_matches := [], hj_current_match_index := 0\<rparr>
                        else hj)
              in probe_fill room chunk hj (output_build, output_probe) (emitted + 1)))))"

definition emit_joined :: "HashJoinOperator \<Rightarrow> DataChunk \<Rightarrow> (DataChunk \<times> HashJoinOperator) result" where
  "emit_joined hj probe_chunk =
     rbind (probe_fill kVectorSize probe_chunk hj
              (MakeEmptyColumns (hj_build_column_types hj), MakeEmptyColumnsLike probe_chunk) 0)
       (\<lambda>(hj, (output_build, output_probe), emitted).
     rbind (MakeDataChunk emitted) (\<lambda>output.
     rbind (rfold (\<lambda>c output. dc_AddColumn output c) output_build output) (\<lambda>output.
     rbind (rfold (\<lambda>c output. dc_AddColumn output c) output_probe output) (\<lambda>output.
       Inr (output, hj)))))"

definition ProbeNext ::
    "('s, DataChunk option) action \<Rightarrow> (HashJoinOperator \<times> 's, DataChunk option) action" where
  "ProbeNext probe_child = (\<lambda>(hj, s).
     let emit = (\<lambda>hj probe_chunk s. case emit_joined hj probe_chunk of
                   Inl e \<Rightarrow> (Inl e, (hj, s))
                 | Inr (output, hj) \<Rightarrow> (Inr (Some output), (hj, s)))
     in case hj_current_probe_chunk hj of
          Some probe_chunk \<Rightarrow> emit hj probe_chunk s
        | None \<Rightarrow>
            (case probe_child s of
               (Inl e, s) \<Rightarrow> (Inl e, (hj, s))
             | (Inr None, s) \<Rightarrow> (Inr None, (hj, s))
             | (Inr (Some probe_chunk), s) \<Rightarrow>
                 emit (hj\<lparr>hj_current_probe_chunk := Some probe_chunk, hj_current_probe_row := 0,
                          hj_current_matches := [], hj_current_match_index := 0\<rparr>) probe_chunk s))"

definition HashJoin_GetNext ::
    "nat \<Rightarrow> ('s, DataChunk option) action \<Rightarrow> ('s, DataChunk option) action \<Rightarrow>
     (HashJoinOperator \<times> 's, DataChunk option) action" where
  "HashJoin_GetNext fuel build_child probe_child = (\<lambda>(hj, s).
     if \<not> hj_built hj
     then sbind (BuildPhase fuel build_child) (\<lambda>_ (hj, s). ProbeNext probe_child (hj\<lparr>hj_built := True\<rparr>, s)) (hj, s)
     else ProbeNext probe_child (hj, s))"

end
