(* ===== verification/HashJoinCorrect.thy ===== *)
theory HashJoinCorrect
  imports HashJoin
begin

text \<open>
  The hash join returns the equi-join of its inputs: for every probe row, in order, the
  matching build rows in build order, and nothing for a row with a null key. The output does
  not depend on how the rows are cut into chunks.
\<close>

section \<open>Keys\<close>

definition join_key :: "nat list \<Rightarrow> cell list \<Rightarrow> bytes option" where
  "join_key ords row =
     (if list_all (\<lambda>c. snd (row ! c)) ords then Some (concat (map (\<lambda>c. key_bytes (fst (row ! c))) ords)) else None)"

lemma ComputeJoinKey_spec:
  assumes "chunk_inv dc" and "list_all (\<lambda>c. c < length (chunk_types dc)) ords" and "i < dc_row_count dc"
  shows "ComputeJoinKey dc ords i = Inr (join_key ords (chunk_row dc i))"
proof -
  have "join_key_from dc ords i key = Inr (map_option ((@) key) (join_key ords (chunk_row dc i)))" for key
    using assms(2)
  proof (induction ords arbitrary: key)
    case (Cons c ords)
    then have "c < length (chunk_types dc)" by simp
    then obtain col where "dc_Column dc c = Inr col" "col_inv col" "i < length (col_cells col)"
      "col_cells col ! i = chunk_row dc i ! c"
      by (rule chunk_column [OF assms(1) _ assms(3)])
    with Cons show ?case by (simp add: col_IsNull_cells col_GetValue_cells join_key_def)
  qed (simp add: join_key_def)
  moreover have "(@) [] = (\<lambda>k :: bytes. k)" by (simp add: fun_eq_iff)
  ultimately show ?thesis by (simp add: ComputeJoinKey_def option.map_ident)
qed

text \<open>Between values of one type, equal bytes are equal values.\<close>

lemma key_bytes_value_bytes: "key_bytes = value_bytes"
proof
  show "key_bytes v = value_bytes v" for v by (cases v) (simp_all add: WriteFloat_def WriteString_def)
qed

lemma key_bytes_self_delimiting: "self_delimiting (key_value_ok t) key_bytes"
  unfolding key_bytes_value_bytes by (rule parses_self_delimiting [OF parses_read_value])

lemma join_key_inject:
  assumes "length bords = length pords" and "join_key bords b = Some k" and "join_key pords p = Some k"
    and "\<And>i. i < length bords \<Longrightarrow> key_value_ok (ts ! i) (fst (b ! (bords ! i))) \<and> key_value_ok (ts ! i) (fst (p ! (pords ! i)))"
  shows "map (\<lambda>c. fst (b ! c)) bords = map (\<lambda>c. fst (p ! c)) pords"
proof -
  let ?vs = "map (\<lambda>c. fst (b ! c)) bords" and ?ws = "map (\<lambda>c. fst (p ! c)) pords" and ?n = "length bords"
  have bytes: "concat (map (\<lambda>i. key_bytes (vs ! i)) [0..<length vs]) = concat (map key_bytes vs)" for vs
    by (simp only: map_nth_upt [of key_bytes])
  have "concat (map key_bytes ?vs) = concat (map key_bytes ?ws)"
    using assms(2,3) by (simp add: join_key_def comp_def split: if_splits)
  then have "concat (map (\<lambda>i. key_bytes (?vs ! i)) [0..<?n]) @ [] = concat (map (\<lambda>i. key_bytes (?ws ! i)) [0..<?n]) @ []"
    using bytes [of ?vs] bytes [of ?ws] assms(1) by simp
  then show ?thesis
    using self_delimiting_concat [where ok = "\<lambda>i. key_value_ok (ts ! i)" and enc = "\<lambda>_. key_bytes" and n = ?n
        and vs = ?vs and ws = ?ws] key_bytes_self_delimiting assms(1,4) by simp
qed

text \<open>Equal join keys are equal valid key cells.\<close>

lemma join_keys_agree:
  assumes "length bords = length pords" and "length ts = length bords"
    and "\<And>i. i < length bords \<Longrightarrow> value_type (fst (b ! (bords ! i))) = ts ! i \<and> value_type (fst (p ! (pords ! i))) = ts ! i"
    and "\<And>i. i < length bords \<Longrightarrow> value_weight (fst (b ! (bords ! i))) < 2 ^ 32 \<and> value_weight (fst (p ! (pords ! i))) < 2 ^ 32"
  shows "(join_key pords p \<noteq> None \<and> join_key bords b = join_key pords p) \<longleftrightarrow>
    (\<forall>i < length bords. snd (b ! (bords ! i)) \<and> snd (p ! (pords ! i)) \<and> fst (b ! (bords ! i)) = fst (p ! (pords ! i)))"
    (is "?keys \<longleftrightarrow> ?cells")
proof
  assume ?keys
  then obtain k where k: "join_key bords b = Some k" "join_key pords p = Some k" by auto
  have "map (\<lambda>c. fst (b ! c)) bords = map (\<lambda>c. fst (p ! c)) pords"
    by (rule join_key_inject [OF assms(1) k, of ts]) (use assms(3,4) in \<open>simp add: key_value_ok_def\<close>)
  from arg_cong [OF this, of "\<lambda>xs. xs ! i" for i] assms(1)
  have "fst (b ! (bords ! i)) = fst (p ! (pords ! i))" if "i < length bords" for i
    using that by (metis nth_map)
  moreover have "list_all (\<lambda>c. snd (b ! c)) bords" "list_all (\<lambda>c. snd (p ! c)) pords"
    using k by (auto simp: join_key_def split: if_splits)
  ultimately show ?cells using assms(1) by (simp add: list_all_length)
next
  assume cells: ?cells
  then have "list_all (\<lambda>c. snd (b ! c)) bords" "list_all (\<lambda>c. snd (p ! c)) pords"
    using assms(1) by (simp_all add: list_all_length)
  moreover have "map (\<lambda>c. key_bytes (fst (b ! c))) bords = map (\<lambda>c. key_bytes (fst (p ! c))) pords"
    using cells assms(1) by (intro nth_equalityI) simp_all
  ultimately show ?keys by (simp add: join_key_def)
qed

section \<open>The build phase\<close>

definition keyed :: "nat list \<Rightarrow> cell list list \<Rightarrow> cell list list" where
  "keyed ords rows = map (map clean_cell) (filter (\<lambda>r. join_key ords r \<noteq> None) rows)"

definition key_rows :: "nat list \<Rightarrow> cell list list \<Rightarrow> bytes \<Rightarrow> nat list" where
  "key_rows ords rows k = filter (\<lambda>j. join_key ords (rows ! j) = Some k) [0..<length rows]"

definition table_of :: "nat list \<Rightarrow> cell list list \<Rightarrow> bytes \<rightharpoonup> uint32 list" where
  "table_of ords rows k = (if key_rows ords rows k = [] then None else Some (map word_of_nat (key_rows ords rows k)))"

definition build_fits :: "TypeId list \<Rightarrow> cell list list \<Rightarrow> bool" where
  "build_fits ts rows = (length rows < 2 ^ 32 \<and>
     (\<forall>c < length ts. column_weight c (map (map clean_cell) rows) < varchar_capacity))"

definition build_accepts :: "TypeId list \<Rightarrow> nat list \<Rightarrow> DataChunk \<Rightarrow> bool" where
  "build_accepts ts ords dc = (chunk_types dc = ts \<and> list_all (\<lambda>c. c < length ts) ords)"

definition built_from :: "TypeId list \<Rightarrow> nat list \<Rightarrow> nat list \<Rightarrow> cell list list \<Rightarrow> HashJoinOperator \<Rightarrow> bool" where
  "built_from ts bords pords rows hj =
     (hj_build_key_ordinals hj = bords \<and> hj_probe_key_ordinals hj = pords \<and> hj_build_column_types hj = ts \<and>
      hj_current_probe_chunk hj = None \<and> hj_build_row_count hj = length (keyed bords rows) \<and>
      cols_hold ts (keyed bords rows) (hj_build_columns hj) \<and>
      hj_hash_table hj = table_of bords (keyed bords rows))"

lemma join_key_clean:
  assumes "list_all (\<lambda>c. c < length row) ords"
  shows "join_key ords (map clean_cell row) = join_key ords row"
proof -
  have "snd (clean_cell x) = snd x" for x by (cases x) (simp add: null_cell_def)
  then have "list_all (\<lambda>c. snd (map clean_cell row ! c)) ords = list_all (\<lambda>c. snd (row ! c)) ords"
    using assms by (auto simp: list_all_iff)
  moreover have "map clean_cell row ! c = row ! c" if "c \<in> set ords" "list_all (\<lambda>c. snd (row ! c)) ords" for c
    using that assms by (cases "row ! c") (auto simp: list_all_iff)
  ultimately show ?thesis
    by (auto simp: join_key_def cong: map_cong)
qed

lemma key_rows_snoc:
  "key_rows ords (rows @ [r]) k = key_rows ords rows k @ (if join_key ords r = Some k then [length rows] else [])"
proof -
  have "filter (\<lambda>j. join_key ords ((rows @ [r]) ! j) = Some k) [0..<length rows] = key_rows ords rows k"
    unfolding key_rows_def by (rule filter_cong) (simp_all add: nth_append)
  then show ?thesis by (simp add: key_rows_def)
qed

lemma table_of_snoc:
  assumes "join_key ords r = Some k"
  shows "table_of ords (rows @ [r]) = (table_of ords rows)(k \<mapsto>
    (case table_of ords rows k of None \<Rightarrow> [] | Some is \<Rightarrow> is) @ [word_of_nat (length rows)])"
  using assms by (auto simp: table_of_def key_rows_snoc fun_eq_iff)

lemma keyed_snoc:
  "keyed ords (rows @ [r]) = keyed ords rows @ (if join_key ords r = None then [] else [map clean_cell r])"
  by (simp add: keyed_def)

lemma column_weight_mono:
  assumes "\<And>r. r \<in> set rows \<Longrightarrow> c < length r"
  shows "column_weight c (keyed ords rows) \<le> column_weight c (map (map clean_cell) rows)"
  using assms by (induction rows) (auto simp: column_weight_def keyed_def)

lemma column_weight_append: "column_weight c (xs @ ys) = column_weight c xs + column_weight c ys"
  by (simp add: column_weight_def)

lemma build_fits_prefix: "build_fits ts (xs @ ys) \<Longrightarrow> build_fits ts xs"
  by (auto simp: build_fits_def column_weight_append)

lemma build_row_spec:
  assumes acc: "build_accepts ts bords dc" and inv: "chunk_inv dc" and i: "i < dc_row_count dc"
    and fits: "build_fits ts (rows @ [chunk_row dc i])"
    and b: "built_from ts bords pords rows hj" "\<forall>r \<in> set rows. length r = length ts"
  shows "\<exists>hj'. build_row dc i hj = (Inr (), hj') \<and> built_from ts bords pords (rows @ [chunk_row dc i]) hj'"
proof -
  let ?r = "chunk_row dc i" and ?kept = "keyed bords rows"
  have ts: "chunk_types dc = ts" and ords: "list_all (\<lambda>c. c < length ts) bords"
    using acc by (simp_all add: build_accepts_def)
  have key: "ComputeJoinKey dc (hj_build_key_ordinals hj) i = Inr (join_key bords ?r)"
    using ComputeJoinKey_spec [OF inv _ i, of bords] ts ords b(1) by (simp add: built_from_def)
  show ?thesis
  proof (cases "join_key bords ?r")
    case None
    with key b(1) show ?thesis by (simp add: build_row_def built_from_def keyed_snoc)
  next
    case (Some k)
    have hold: "cols_hold ts ?kept (hj_build_columns hj)" using b(1) by (simp add: built_from_def)
    have "copies (append_build_column dc i (c, hj_build_columns hj ! c)) (hj_build_columns hj ! c) (map clean_cell ?r ! c)"
      if c: "c < length ts" for c
    proof -
      obtain col where "dc_Column dc c = Inr col" "col_inv col" "i < length (col_cells col)"
        "column_type col = ts ! c" "col_cells col ! i = ?r ! c"
        using chunk_column [OF inv, of c i] c ts i by auto
      with hold c ts show ?thesis
        by (auto simp: append_build_column_def copies_def cols_hold_def intro!: exI [of _ col] exI [of _ i])
    qed
    moreover have "column_weight c (?kept @ [map clean_cell ?r]) < varchar_capacity" if "c < length ts" for c
      using column_weight_mono [of rows c bords] b(2) fits that
      by (fastforce simp: build_fits_def column_weight_append intro: le_less_trans [OF add_right_mono])
    ultimately obtain cols where cols: "AppendBuildRow (hj_build_columns hj) dc i = Inr cols"
      "cols_hold ts (?kept @ [map clean_cell ?r]) cols"
      using cols_hold_snoc [OF hold, of "append_build_column dc i" "map clean_cell ?r"] unfolding AppendBuildRow_def by blast
    moreover have "join_key bords (map clean_cell ?r) = Some k"
      using join_key_clean [of ?r bords] ords ts Some by simp
    ultimately show ?thesis
      using key Some b(1) by (simp add: build_row_def built_from_def keyed_snoc table_of_snoc Let_def)
  qed
qed

interpretation build_side: row_consumer build_row "build_accepts ts bords" "build_fits ts"
  "\<lambda>rows hj. built_from ts bords pords rows hj \<and> (\<forall>r \<in> set rows. length r = length ts)" for ts bords pords
proof (unfold_locales, goal_cases)
  case (1 dc i rows hj)
  moreover from this have "length (chunk_row dc i) = length ts" by (simp add: build_accepts_def)
  ultimately show ?case using build_row_spec [of ts bords dc i rows pords hj] by auto
qed (rule build_fits_prefix)

lemma BuildPhase_spec:
  assumes "produces child s cs s'" and "\<And>c. c \<in> set cs \<Longrightarrow> chunk_inv c \<and> chunk_types c = ts"
    and "list_all (\<lambda>c. c < length ts) bords" and "build_fits ts (concat (map chunk_rows cs))" and "length cs < fuel"
  shows "\<exists>hj. BuildPhase fuel child (MakeHashJoinOperator bords pords ts, s) = (Inr (), (hj, s')) \<and>
    built_from ts bords pords (concat (map chunk_rows cs)) hj"
proof -
  let ?hj = "(MakeHashJoinOperator bords pords ts)\<lparr>hj_build_columns := MakeEmptyColumns ts\<rparr>"
  have "built_from ts bords pords [] ?hj"
    by (simp add: built_from_def MakeHashJoinOperator_def keyed_def MakeEmptyColumns_def cols_hold_empty
        table_of_def key_rows_def fun_eq_iff)
  with build_side.drain_rows [OF assms(1), of ts bords "[]" pords ?hj fuel] assms(2-5) show ?thesis
    by (auto simp: BuildPhase_def build_accepts_def MakeHashJoinOperator_def)
qed

section \<open>The probe phase\<close>

text \<open>A built operator; \<open>brows\<close> are the rows of the build side.\<close>

definition join_table :: "TypeId list \<Rightarrow> nat list \<Rightarrow> nat list \<Rightarrow> cell list list \<Rightarrow> HashJoinOperator \<Rightarrow> bool" where
  "join_table ts bords pords brows hj =
     (hj_built hj \<and> hj_probe_key_ordinals hj = pords \<and> hj_build_column_types hj = ts \<and>
      cols_hold ts (keyed bords brows) (hj_build_columns hj) \<and> hj_hash_table hj = table_of bords (keyed bords brows))"

definition at_probe :: "nat \<Rightarrow> uint32 list \<Rightarrow> nat \<Rightarrow> HashJoinOperator \<Rightarrow> HashJoinOperator" where
  "at_probe row matches index hj =
     hj\<lparr>hj_current_probe_row := row, hj_current_matches := matches, hj_current_match_index := index\<rparr>"

lemma join_table_at_probe [simp]: "join_table ts bords pords brows (at_probe r m i hj) = join_table ts bords pords brows hj"
  by (simp add: join_table_def at_probe_def)

lemma at_probe_simps [simp]:
  "hj_current_probe_row (at_probe r m i hj) = r" "hj_current_matches (at_probe r m i hj) = m"
  "hj_current_match_index (at_probe r m i hj) = i" "hj_current_probe_chunk (at_probe r m i hj) = hj_current_probe_chunk hj"
  "hj_probe_key_ordinals (at_probe r m i hj) = hj_probe_key_ordinals hj"
  "hj_hash_table (at_probe r m i hj) = hj_hash_table hj" "hj_build_columns (at_probe r m i hj) = hj_build_columns hj"
  "(at_probe r m i hj)\<lparr>hj_current_probe_row := r'\<rparr> = at_probe r' m i hj"
  "(at_probe r m i hj)\<lparr>hj_current_match_index := i'\<rparr> = at_probe r m i' hj"
  "(at_probe r m i hj)\<lparr>hj_current_matches := m', hj_current_match_index := i'\<rparr> = at_probe r m' i' hj"
  "(at_probe r m i hj)\<lparr>hj_current_matches := m', hj_current_match_index := i', hj_current_probe_row := r'\<rparr> = at_probe r' m' i' hj"
  "(at_probe r m i hj)\<lparr>hj_current_probe_row := r', hj_current_matches := m', hj_current_match_index := i'\<rparr> = at_probe r' m' i' hj"
  "at_probe r' m' i' (at_probe r m i hj) = at_probe r' m' i' hj"
  by (simp_all add: at_probe_def)

text \<open>The pairs of a build row and a probe row that are joined, for one probe row.\<close>

definition row_pairs :: "nat list \<Rightarrow> nat list \<Rightarrow> cell list list \<Rightarrow> cell list \<Rightarrow> (cell list \<times> cell list) list" where
  "row_pairs bords pords brows p =
     map (\<lambda>b. (map clean_cell b, map clean_cell p))
       (filter (\<lambda>b. join_key pords p \<noteq> None \<and> join_key bords b = join_key pords p) brows)"

lemma row_pairs_None: "join_key pords p = None \<Longrightarrow> row_pairs bords pords brows p = []"
  by (simp add: row_pairs_def)

lemma row_pairs_key_rows:
  assumes "join_key pords p = Some k" and "\<forall>r \<in> set brows. list_all (\<lambda>c. c < length r) bords"
  shows "row_pairs bords pords brows p =
    map (\<lambda>j. (keyed bords brows ! j, map clean_cell p)) (key_rows bords (keyed bords brows) k)"
proof -
  let ?kept = "keyed bords brows"
  have "map (\<lambda>j. (?kept ! j, map clean_cell p)) (key_rows bords ?kept k) =
      map (\<lambda>b. (b, map clean_cell p)) (map ((!) ?kept) (filter (\<lambda>j. join_key bords (?kept ! j) = Some k) [0..<length ?kept]))"
    by (simp add: key_rows_def)
  also have "map ((!) ?kept) (filter (\<lambda>j. join_key bords (?kept ! j) = Some k) [0..<length ?kept]) =
      filter (\<lambda>b. join_key bords b = Some k) ?kept"
    by (metis (no_types, lifting) comp_def filter_cong filter_map map_nth)
  also have "\<dots> = map (map clean_cell) (filter (\<lambda>b. join_key bords b = Some k) brows)"
    using assms(2) by (induction brows) (auto simp: keyed_def join_key_clean)
  finally show ?thesis using assms(1) by (simp add: row_pairs_def comp_def)
qed

definition rest_pairs ::
    "nat list \<Rightarrow> nat list \<Rightarrow> cell list list \<Rightarrow> DataChunk \<Rightarrow> nat \<Rightarrow> (cell list \<times> cell list) list" where
  "rest_pairs bords pords brows dc n =
     concat (map (\<lambda>i. row_pairs bords pords brows (chunk_row dc i)) (filter (row_selected dc) [n..<dc_row_count dc]))"

lemma rest_pairs_step:
  assumes "n < dc_row_count dc"
  shows "rest_pairs bords pords brows dc n =
    (if row_selected dc n then row_pairs bords pords brows (chunk_row dc n) else []) @ rest_pairs bords pords brows dc (Suc n)"
  using assms by (simp add: rest_pairs_def upt_conv_Cons)

text \<open>What the current chunk still has to give.\<close>

definition pending :: "nat list \<Rightarrow> nat list \<Rightarrow> cell list list \<Rightarrow> DataChunk \<Rightarrow> HashJoinOperator \<Rightarrow> (cell list \<times> cell list) list" where
  "pending bords pords brows dc hj =
     (if hj_current_matches hj = [] then rest_pairs bords pords brows dc (hj_current_probe_row hj)
      else map (\<lambda>j. (keyed bords brows ! unat j, map clean_cell (chunk_row dc (hj_current_probe_row hj))))
             (drop (hj_current_match_index hj) (hj_current_matches hj)) @
           rest_pairs bords pords brows dc (Suc (hj_current_probe_row hj)))"

definition probing :: "nat \<Rightarrow> DataChunk \<Rightarrow> HashJoinOperator \<Rightarrow> bool" where
  "probing kept dc hj =
     (if hj_current_matches hj = [] then hj_current_match_index hj = 0 \<and> hj_current_probe_row hj \<le> dc_row_count dc
      else hj_current_probe_row hj < dc_row_count dc \<and> row_selected dc (hj_current_probe_row hj) \<and>
           hj_current_match_index hj < length (hj_current_matches hj) \<and>
           list_all (\<lambda>j. unat j < kept) (hj_current_matches hj))"

lemma table_matches:
  assumes "length (keyed bords brows) < 2 ^ 32" and "table_of bords (keyed bords brows) k = Some ms"
  shows "ms \<noteq> []" "list_all (\<lambda>j. unat j < length (keyed bords brows)) ms"
    "map unat ms = key_rows bords (keyed bords brows) k"
proof -
  have ms: "ms = map word_of_nat (key_rows bords (keyed bords brows) k)" "ms \<noteq> []"
    using assms(2) by (auto simp: table_of_def split: if_splits)
  have "unat (word_of_nat j :: uint32) = j" if "j \<in> set (key_rows bords (keyed bords brows) k)" for j
    using that assms(1) by (intro unat_of_nat_small) (auto simp: key_rows_def)
  then show "map unat ms = key_rows bords (keyed bords brows) k" by (simp add: ms(1) comp_def map_idI)
  then have "unat j \<in> set (key_rows bords (keyed bords brows) k)" if "j \<in> set ms" for j
    using that by (metis image_eqI list.set_map)
  then show "list_all (\<lambda>j. unat j < length (keyed bords brows)) ms"
    by (auto simp: list_all_iff key_rows_def)
qed (use assms(2) in \<open>auto simp: table_of_def split: if_splits\<close>)

definition join_context :: "TypeId list \<Rightarrow> nat list \<Rightarrow> nat list \<Rightarrow> cell list list \<Rightarrow> DataChunk \<Rightarrow> bool" where
  "join_context ts bords pords brows dc =
     (list_all (\<lambda>c. c < length ts) bords \<and> (\<forall>r \<in> set brows. length r = length ts) \<and> length brows < 2 ^ 32 \<and>
      chunk_inv dc \<and> list_all (\<lambda>c. c < length (chunk_types dc)) pords)"

lemma length_keyed: "length (keyed ords rows) \<le> length rows"
  by (simp add: keyed_def)

lemma probe_advance_from:
  assumes cx: "join_context ts bords pords brows dc" and jt: "join_table ts bords pords brows hj" and n: "n \<le> dc_row_count dc"
  shows "\<exists>r m. probe_advance dc (at_probe n [] 0 hj) = Inr (at_probe r m 0 hj) \<and>
    probing (length (keyed bords brows)) dc (at_probe r m 0 hj) \<and> (m = [] \<longleftrightarrow> r = dc_row_count dc) \<and>
    pending bords pords brows dc (at_probe r m 0 hj) = rest_pairs bords pords brows dc n"
  using n
proof (induction "dc_row_count dc - n" arbitrary: n)
  case 0
  then have "n = dc_row_count dc" by simp
  then show ?case
    by (intro exI [of _ n] exI [of _ "[]"])
      (simp add: probe_advance.simps [of dc] probing_def pending_def rest_pairs_def)
next
  case (Suc d)
  then have n: "n < dc_row_count dc" by simp
  have inv: "chunk_inv dc" using cx by (simp add: join_context_def)
  have sel: "IsRowSelected dc n = Inr (row_selected dc n)" by (rule IsRowSelected_spec [OF inv n])
  have key: "ComputeJoinKey dc pords n = Inr (join_key pords (chunk_row dc n))"
    using ComputeJoinKey_spec [OF inv _ n] cx by (simp add: join_context_def)
  have small: "length (keyed bords brows) < 2 ^ 32"
    using le_less_trans [OF length_keyed] cx by (simp add: join_context_def)
  have ords: "\<forall>r \<in> set brows. list_all (\<lambda>c. c < length r) bords" using cx by (simp add: join_context_def)
  have next_row: "probe_advance dc (at_probe n [] 0 hj) = probe_advance dc (at_probe (Suc n) [] 0 hj)"
    if "\<not> row_selected dc n \<or> join_key pords (chunk_row dc n) = None \<or>
      (\<exists>k. join_key pords (chunk_row dc n) = Some k \<and> hj_hash_table hj k = None)"
    using that sel key n jt by (subst probe_advance.simps) (auto simp: join_table_def)
  have IH: "\<exists>r m. probe_advance dc (at_probe (Suc n) [] 0 hj) = Inr (at_probe r m 0 hj) \<and>
      probing (length (keyed bords brows)) dc (at_probe r m 0 hj) \<and> (m = [] \<longleftrightarrow> r = dc_row_count dc) \<and>
      pending bords pords brows dc (at_probe r m 0 hj) = rest_pairs bords pords brows dc (Suc n)"
    by (rule Suc.hyps(1)) (use Suc.hyps(2) n in simp_all)
  consider "\<not> row_selected dc n" | "row_selected dc n" "join_key pords (chunk_row dc n) = None"
    | k where "row_selected dc n" "join_key pords (chunk_row dc n) = Some k" "hj_hash_table hj k = None"
    | k ms where "row_selected dc n" "join_key pords (chunk_row dc n) = Some k" "hj_hash_table hj k = Some ms"
    by (cases "join_key pords (chunk_row dc n)"; cases "row_selected dc n"; auto)
  then show ?case
  proof cases
    case 1
    then show ?thesis using IH next_row by (simp add: rest_pairs_step [OF n])
  next
    case 2
    then show ?thesis using IH next_row by (simp add: rest_pairs_step [OF n] row_pairs_None)
  next
    case (3 k)
    then have "key_rows bords (keyed bords brows) k = []"
      using jt by (auto simp: join_table_def table_of_def split: if_splits)
    with 3 show ?thesis using IH next_row by (simp add: rest_pairs_step [OF n] row_pairs_key_rows [OF 3(2) ords])
  next
    case (4 k ms)
    then have "table_of bords (keyed bords brows) k = Some ms" using jt by (simp add: join_table_def)
    note ms = table_matches [OF small this]
    from ms(1) obtain x xs where x: "ms = x # xs" by (cases ms) auto
    have "probe_advance dc (at_probe n [] 0 hj) = probe_advance dc (at_probe n ms 0 hj)"
      using sel key n jt 4 by (subst probe_advance.simps) (simp add: join_table_def x)
    also have "\<dots> = Inr (at_probe n ms 0 hj)"
      by (subst probe_advance.simps) (simp add: x)
    finally have adv: "probe_advance dc (at_probe n [] 0 hj) = Inr (at_probe n ms 0 hj)" .
    have "row_pairs bords pords brows (chunk_row dc n) =
        map (\<lambda>j. (keyed bords brows ! unat j, map clean_cell (chunk_row dc n))) ms"
      unfolding row_pairs_key_rows [OF 4(2) ords] ms(3) [symmetric] by simp
    with adv ms(1,2) n 4(1) show ?thesis
      by (intro exI [of _ n] exI [of _ ms]) (simp add: probing_def pending_def rest_pairs_step [OF n])
  qed
qed

lemma at_probe_self: "hj = at_probe (hj_current_probe_row hj) (hj_current_matches hj) (hj_current_match_index hj) hj"
  by (simp add: at_probe_def)

lemma probe_advance_spec:
  assumes cx: "join_context ts bords pords brows dc" and jt: "join_table ts bords pords brows hj"
    and pr: "probing (length (keyed bords brows)) dc hj"
  shows "\<exists>r m i. probe_advance dc hj = Inr (at_probe r m i hj) \<and>
    probing (length (keyed bords brows)) dc (at_probe r m i hj) \<and> (m = [] \<longleftrightarrow> r = dc_row_count dc) \<and>
    pending bords pords brows dc (at_probe r m i hj) = pending bords pords brows dc hj"
proof (cases "hj_current_matches hj = []")
  case True
  then have self: "hj = at_probe (hj_current_probe_row hj) [] 0 hj"
    using pr at_probe_self [of hj] by (simp add: probing_def)
  have "pending bords pords brows dc hj = rest_pairs bords pords brows dc (hj_current_probe_row hj)"
    using True by (simp add: pending_def)
  with probe_advance_from [OF cx jt, of "hj_current_probe_row hj"] self pr True show ?thesis
    by (metis (no_types, lifting) probing_def)
next
  case False
  with pr have "probe_advance dc hj = Inr hj" by (simp add: probe_advance.simps [of dc hj] probing_def)
  with False pr at_probe_self [of hj] show ?thesis
    by (metis (no_types, lifting) less_irrefl probing_def)
qed

section \<open>Filling an output chunk\<close>

definition pair_ok :: "TypeId list \<Rightarrow> TypeId list \<Rightarrow> cell list \<times> cell list \<Rightarrow> bool" where
  "pair_ok ts ps = (\<lambda>(b, p). length b = length ts \<and> length p = length ps \<and> light b \<and> light p)"

definition join_out :: "TypeId list \<Rightarrow> TypeId list \<Rightarrow> (cell list \<times> cell list) list \<Rightarrow> join_output \<Rightarrow> bool" where
  "join_out ts ps done out = (cols_hold ts (map fst done) (fst out) \<and> cols_hold ps (map snd done) (snd out) \<and>
     list_all (pair_ok ts ps) done)"

lemma AppendFromColumnStorage_copies:
  assumes "cols_hold ts rows cols" and "c < length ts" and "j < length rows" and "column_type out = ts ! c"
    and "clean_cell (rows ! j ! c) = x"
  shows "copies (AppendFromColumnStorage cols j (c, out)) out x"
  using assms
  by (auto simp: AppendFromColumnStorage_def append_as_def copies_def cols_hold_def intro!: exI [of _ "cols ! c"] exI [of _ j])

lemma AppendFromChunkColumn_copies:
  assumes "chunk_inv dc" and "c < length (chunk_types dc)" and "i < dc_row_count dc" and "column_type out = chunk_types dc ! c"
    and "clean_cell (chunk_row dc i ! c) = x"
  shows "copies (AppendFromChunkColumn dc i (c, out)) out x"
proof -
  obtain col where "dc_Column dc c = Inr col" "col_inv col" "i < length (col_cells col)"
    "column_type col = chunk_types dc ! c" "col_cells col ! i = chunk_row dc i ! c"
    by (rule chunk_column [OF assms(1-3)])
  with assms(4,5) show ?thesis
    by (auto simp: AppendFromChunkColumn_def append_as_def copies_def intro!: exI [of _ col] exI [of _ i])
qed

lemma keyed_row:
  assumes "j < length (keyed bords brows)" and "\<forall>r \<in> set brows. length r = length ts"
  shows "length (keyed bords brows ! j) = length ts" "map clean_cell (keyed bords brows ! j) = keyed bords brows ! j"
proof -
  obtain r where "r \<in> set brows" "keyed bords brows ! j = map clean_cell r"
    using nth_mem [OF assms(1)] by (auto simp: keyed_def)
  with assms(2) show "length (keyed bords brows ! j) = length ts" "map clean_cell (keyed bords brows ! j) = keyed bords brows ! j"
    by (simp_all add: comp_def)
qed

definition join_light :: "nat list \<Rightarrow> cell list list \<Rightarrow> DataChunk \<Rightarrow> bool" where
  "join_light bords brows dc = (list_all light (keyed bords brows) \<and>
     list_all (\<lambda>r. light (map clean_cell r)) (chunk_rows dc))"

lemma selected_row_in: "i < dc_row_count dc \<Longrightarrow> row_selected dc i \<Longrightarrow> chunk_row dc i \<in> set (chunk_rows dc)"
  by (auto simp: chunk_rows_def)

lemma append_pair:
  assumes cx: "join_context ts bords pords brows dc" and jt: "join_table ts bords pords brows hj"
    and li: "join_light bords brows dc" and out: "join_out ts (chunk_types dc) done out" and room: "length done < kVectorSize"
    and j: "j < length (keyed bords brows)" and i: "i < dc_row_count dc" "row_selected dc i"
  shows "\<exists>ob op. rmap (AppendFromColumnStorage (hj_build_columns hj) j) (List.enumerate 0 (fst out)) = Inr ob \<and>
    rmap (AppendFromChunkColumn dc i) (List.enumerate 0 (snd out)) = Inr op \<and>
    join_out ts (chunk_types dc) (done @ [(keyed bords brows ! j, map clean_cell (chunk_row dc i))]) (ob, op)"
proof -
  let ?b = "keyed bords brows ! j" and ?p = "map clean_cell (chunk_row dc i)" and ?ps = "chunk_types dc"
  have b: "length ?b = length ts" "map clean_cell ?b = ?b" using keyed_row [OF j] cx by (auto simp: join_context_def)
  have ok: "pair_ok ts ?ps (?b, ?p)"
    using b(1) li j selected_row_in [OF i] by (auto simp: pair_ok_def join_light_def list_all_iff)
  have done_ok: "list_all (pair_ok ts ?ps) (done @ [(?b, ?p)])" using out ok by (simp add: join_out_def)
  have oc: "cols_hold ts (map fst done) (fst out)" "cols_hold ?ps (map snd done) (snd out)"
    using out by (simp_all add: join_out_def)
  have clean_b: "clean_cell (?b ! c) = ?b ! c" if "c < length ts" for c
    using that b by (metis nth_map)
  have "\<exists>ob. rmap (AppendFromColumnStorage (hj_build_columns hj) j) (List.enumerate 0 (fst out)) = Inr ob \<and>
      cols_hold ts (map fst done @ [?b]) ob"
  proof (rule cols_hold_snoc [OF oc(1)])
    fix c assume c: "c < length ts"
    show "copies (AppendFromColumnStorage (hj_build_columns hj) j (c, fst out ! c)) (fst out ! c) (?b ! c)"
      using jt oc(1) c j clean_b [OF c] by (intro AppendFromColumnStorage_copies) (auto simp: join_table_def cols_hold_def)
    have "list_all (\<lambda>r. light r \<and> c < length r) (map fst (done @ [(?b, ?p)]))"
      using done_ok c by (fastforce simp: list_all_iff pair_ok_def)
    from light_column_weight [OF this] room show "column_weight c (map fst done @ [?b]) < varchar_capacity" by simp
  qed
  moreover have "\<exists>op. rmap (AppendFromChunkColumn dc i) (List.enumerate 0 (snd out)) = Inr op \<and>
      cols_hold ?ps (map snd done @ [?p]) op"
  proof (rule cols_hold_snoc [OF oc(2)])
    fix c assume c: "c < length ?ps"
    show "copies (AppendFromChunkColumn dc i (c, snd out ! c)) (snd out ! c) (?p ! c)"
      using cx oc(2) c i by (intro AppendFromChunkColumn_copies) (auto simp: join_context_def cols_hold_def)
    have "list_all (\<lambda>r. light r \<and> c < length r) (map snd (done @ [(?b, ?p)]))"
      using done_ok c by (fastforce simp: list_all_iff pair_ok_def)
    from light_column_weight [OF this] room show "column_weight c (map snd done @ [?p]) < varchar_capacity" by simp
  qed
  ultimately show ?thesis using done_ok by (auto simp: join_out_def)
qed

lemma pending_head:
  assumes pr: "probing kept dc hj" and ne: "hj_current_matches hj \<noteq> []" and kept: "kept = length (keyed bords brows)"
  defines "i \<equiv> hj_current_match_index hj" and "r \<equiv> hj_current_probe_row hj"
  defines "hj' \<equiv> (if length (hj_current_matches hj) \<le> Suc i then at_probe (Suc r) [] 0 hj
    else at_probe r (hj_current_matches hj) (Suc i) hj)"
  shows "i < length (hj_current_matches hj)" "unat (hj_current_matches hj ! i) < kept" "r < dc_row_count dc" "row_selected dc r"
    "pending bords pords brows dc hj =
      (keyed bords brows ! unat (hj_current_matches hj ! i), map clean_cell (chunk_row dc r)) # pending bords pords brows dc hj'"
    "probing kept dc hj'"
proof -
  show i: "i < length (hj_current_matches hj)" and j: "unat (hj_current_matches hj ! i) < kept" and r: "r < dc_row_count dc"
    and sel: "row_selected dc r"
    using pr ne by (auto simp: probing_def i_def r_def list_all_length)
  show "pending bords pords brows dc hj =
      (keyed bords brows ! unat (hj_current_matches hj ! i), map clean_cell (chunk_row dc r)) # pending bords pords brows dc hj'"
    using i ne by (auto simp: pending_def hj'_def Cons_nth_drop_Suc [symmetric] simp flip: i_def r_def)
  show "probing kept dc hj'" using pr ne i r sel by (auto simp: probing_def hj'_def r_def)
qed

lemma probe_fill_spec:
  assumes cx: "join_context ts bords pords brows dc" and li: "join_light bords brows dc"
    and "join_table ts bords pords brows hj" and "probing (length (keyed bords brows)) dc hj"
    and "join_out ts (chunk_types dc) done out" and "length done + room \<le> kVectorSize"
  defines "pend \<equiv> pending bords pords brows dc"
  shows "\<exists>hj' out'. probe_fill room dc hj out (length done) = Inr (hj', out', length (done @ take room (pend hj))) \<and>
    join_out ts (chunk_types dc) (done @ take room (pend hj)) out' \<and> join_table ts bords pords brows hj' \<and>
    (if length (pend hj) < room then hj_current_probe_chunk hj' = None
     else hj_current_probe_chunk hj' = hj_current_probe_chunk hj \<and> probing (length (keyed bords brows)) dc hj' \<and>
       pend hj' = drop room (pend hj))"
  using assms(3-6)
proof (induction room arbitrary: hj out "done")
  case (Suc room)
  let ?n = "length (keyed bords brows)"
  obtain r m i where adv: "probe_advance dc hj = Inr (at_probe r m i hj)" "probing ?n dc (at_probe r m i hj)"
    "m = [] \<longleftrightarrow> r = dc_row_count dc" "pend (at_probe r m i hj) = pend hj"
    using probe_advance_spec [OF cx Suc.prems(1,2)] unfolding pend_def by blast
  show ?case
  proof (cases "m = []")
    case True
    then have "pend hj = []" using adv(3,4) by (simp add: pend_def pending_def rest_pairs_def)
    with adv True Suc.prems show ?thesis by (simp add: join_table_def at_probe_def)
  next
    case False
    define hj1 where "hj1 = (if length m \<le> Suc i then at_probe (Suc r) [] 0 hj else at_probe r m (Suc i) hj)"
    note hd = pending_head [OF adv(2) _ refl, simplified, OF False]
    let ?j = "unat (m ! i)" and ?pair = "(keyed bords brows ! unat (m ! i), map clean_cell (chunk_row dc r))"
    have pend: "pend hj = ?pair # pend hj1"
      using hd(5) [of pords] adv(4) by (cases "length m \<le> Suc i") (simp_all add: pend_def hj1_def)
    have pr': "probing ?n dc hj1" using hd(6) by (cases "length m \<le> Suc i") (simp_all add: hj1_def)
    have jt': "join_table ts bords pords brows hj1" using Suc.prems(1) by (simp add: hj1_def)
    obtain ob op where app: "rmap (AppendFromColumnStorage (hj_build_columns hj) ?j) (List.enumerate 0 (fst out)) = Inr ob"
      "rmap (AppendFromChunkColumn dc r) (List.enumerate 0 (snd out)) = Inr op"
      "join_out ts (chunk_types dc) (done @ [?pair]) (ob, op)"
      using append_pair [OF cx Suc.prems(1) li Suc.prems(3) _ hd(2,3,4)] Suc.prems(4) by auto
    have "probe_fill (Suc room) dc hj out (length done) = probe_fill room dc hj1 (ob, op) (length (done @ [?pair]))"
      using adv(1) app(1,2) hd(1,3) by (simp add: Let_def hj1_def)
    moreover have "length (done @ [?pair]) + room \<le> kVectorSize" using Suc.prems(4) by simp
    note Suc.IH [OF jt' pr' app(3) this]
    moreover have "hj_current_probe_chunk hj1 = hj_current_probe_chunk hj" by (simp add: hj1_def)
    ultimately show ?thesis
      by (cases "length (pend hj1) < room") (simp_all add: pend del: probe_fill.simps)
  qed
qed simp

section \<open>The output of the join\<close>

abbreviation merge :: "cell list \<times> cell list \<Rightarrow> cell list" where
  "merge \<equiv> \<lambda>(b, p). b @ p"

lemma emit_joined_spec:
  assumes cx: "join_context ts bords pords brows dc" and li: "join_light bords brows dc"
    and jt: "join_table ts bords pords brows hj" and pr: "probing (length (keyed bords brows)) dc hj"
  defines "pend \<equiv> pending bords pords brows dc"
  shows "\<exists>c hj'. emit_joined hj dc = Inr (c, hj') \<and> chunk_inv c \<and> chunk_types c = ts @ chunk_types dc \<and>
    chunk_rows c = map merge (take kVectorSize (pend hj)) \<and> join_table ts bords pords brows hj' \<and>
    (if length (pend hj) < kVectorSize then hj_current_probe_chunk hj' = None
     else hj_current_probe_chunk hj' = hj_current_probe_chunk hj \<and> probing (length (keyed bords brows)) dc hj' \<and>
       pend hj' = drop kVectorSize (pend hj))"
proof -
  let ?pairs = "take kVectorSize (pend hj)"
  let ?empty = "(MakeEmptyColumns ts, MakeEmptyColumnsLike dc)"
  have "MakeEmptyColumnsLike dc = map EmptyColumn (chunk_types dc)"
    by (simp add: MakeEmptyColumnsLike_def chunk_types_def)
  then have "join_out ts (chunk_types dc) [] ?empty"
    by (simp add: join_out_def MakeEmptyColumns_def cols_hold_empty)
  from probe_fill_spec [OF cx li jt pr this, of kVectorSize] obtain hj' ob op where
    fill: "probe_fill kVectorSize dc hj ?empty 0 = Inr (hj', (ob, op), length ?pairs)"
    "join_out ts (chunk_types dc) ?pairs (ob, op)" "join_table ts bords pords brows hj'"
    "if length (pend hj) < kVectorSize then hj_current_probe_chunk hj' = None
     else hj_current_probe_chunk hj' = hj_current_probe_chunk hj \<and> probing (length (keyed bords brows)) dc hj' \<and>
       pend hj' = drop kVectorSize (pend hj)"
    unfolding pend_def by auto
  have ok: "list_all (pair_ok ts (chunk_types dc)) ?pairs" using fill(2) by (simp add: join_out_def)
  have "cols_hold (ts @ chunk_types dc) (map merge ?pairs) (ob @ op)"
    by (rule cols_hold_append) (use fill(2) ok in \<open>auto simp: join_out_def list_all_iff pair_ok_def\<close>)
  moreover have "length r = length (ts @ chunk_types dc)" if "r \<in> set (map merge ?pairs)" for r
    using that ok by (auto simp: list_all_iff pair_ok_def)
  moreover have "length (map merge ?pairs) \<le> kVectorSize" by simp
  ultimately obtain c where c: "rbind (MakeDataChunk (length ?pairs)) (rfold (\<lambda>c output. dc_AddColumn output c) (ob @ op)) = Inr c"
    "chunk_inv c" "chunk_types c = ts @ chunk_types dc" "chunk_rows c = map merge ?pairs"
    using chunk_of_columns [of "ts @ chunk_types dc" "map merge ?pairs" "ob @ op"] by auto
  have "emit_joined hj dc = Inr (c, hj')"
    using c(1) fill(1) jt by (auto simp: emit_joined_def join_table_def rfold_append result_simps)
  with c(2-4) fill(3,4) show ?thesis by blast
qed

definition equi_join :: "nat list \<Rightarrow> nat list \<Rightarrow> cell list list \<Rightarrow> cell list list \<Rightarrow> cell list list" where
  "equi_join bords pords brows prows = concat (map (\<lambda>p.
     map (\<lambda>b. map clean_cell b @ map clean_cell p)
       (filter (\<lambda>b. join_key pords p \<noteq> None \<and> join_key bords b = join_key pords p) brows)) prows)"

lemma equi_join_pairs: "equi_join bords pords brows prows = map merge (concat (map (row_pairs bords pords brows) prows))"
  by (induction prows) (simp_all add: equi_join_def row_pairs_def)

lemma pending_start:
  "pending bords pords brows dc (at_probe 0 [] 0 hj) = concat (map (row_pairs bords pords brows) (chunk_rows dc))"
  by (simp add: pending_def rest_pairs_def chunk_rows_def comp_def)

definition joined_chunk :: "TypeId list \<Rightarrow> TypeId list \<Rightarrow> DataChunk \<Rightarrow> bool" where
  "joined_chunk ts ps c = (chunk_inv c \<and> chunk_types c = ts @ ps)"

lemma ProbeNext_current:
  assumes "hj_built hj" and "hj_current_probe_chunk hj = Some dc" and "emit_joined hj dc = Inr (c, hj')"
  shows "HashJoin_GetNext fuel bchild pchild (hj, s) = (Inr (Some c), (hj', s))"
  using assms by (simp add: HashJoin_GetNext_def ProbeNext_def Let_def)

text \<open>The chunks of one probe chunk, in front of what the rest gives.\<close>

lemma chunk_produces:
  assumes cx: "join_context ts bords pords brows dc" and li: "join_light bords brows dc"
    and rest: "\<And>hj. join_table ts bords pords brows hj \<Longrightarrow> hj_current_probe_chunk hj = None \<Longrightarrow>
      \<exists>cs hj'. produces (HashJoin_GetNext fuel bchild pchild) (hj, s) cs (hj', s') \<and>
        list_all (joined_chunk ts (chunk_types dc)) cs \<and> concat (map chunk_rows cs) = R"
    and "join_table ts bords pords brows hj" and "hj_current_probe_chunk hj = Some dc"
    and "probing (length (keyed bords brows)) dc hj"
  shows "\<exists>cs hj'. produces (HashJoin_GetNext fuel bchild pchild) (hj, s) cs (hj', s') \<and>
    list_all (joined_chunk ts (chunk_types dc)) cs \<and>
    concat (map chunk_rows cs) = map merge (pending bords pords brows dc hj) @ R"
  using assms(4-6)
proof (induction "length (pending bords pords brows dc hj)" arbitrary: hj rule: less_induct)
  case less
  let ?pend = "pending bords pords brows dc" and ?get = "HashJoin_GetNext fuel bchild pchild"
  obtain c hj1 where c: "emit_joined hj dc = Inr (c, hj1)" "joined_chunk ts (chunk_types dc) c"
    "chunk_rows c = map merge (take kVectorSize (?pend hj))" "join_table ts bords pords brows hj1"
    "if length (?pend hj) < kVectorSize then hj_current_probe_chunk hj1 = None
     else hj_current_probe_chunk hj1 = Some dc \<and> probing (length (keyed bords brows)) dc hj1 \<and>
       ?pend hj1 = drop kVectorSize (?pend hj)"
    using emit_joined_spec [OF cx li less.prems(1,3)] less.prems(2) unfolding joined_chunk_def by metis
  have step: "?get (hj, s) = (Inr (Some c), (hj1, s))"
    using ProbeNext_current [OF _ less.prems(2) c(1)] less.prems(1) by (simp add: join_table_def)
  have "\<exists>cs hj'. produces ?get (hj1, s) cs (hj', s') \<and> list_all (joined_chunk ts (chunk_types dc)) cs \<and>
      concat (map chunk_rows cs) = map merge (drop kVectorSize (?pend hj)) @ R"
  proof (cases "length (?pend hj) < kVectorSize")
    case True
    with rest [OF c(4)] c(5) show ?thesis by simp
  next
    case False
    then have "length (?pend hj1) < length (?pend hj)" using c(5) by (simp add: kVectorSize_def)
    from less.hyps [OF this c(4)] c(5) False show ?thesis by simp
  qed
  then obtain cs hj' where cs: "produces ?get (hj1, s) cs (hj', s')" "list_all (joined_chunk ts (chunk_types dc)) cs"
    "concat (map chunk_rows cs) = map merge (drop kVectorSize (?pend hj)) @ R" by blast
  have "map merge (take kVectorSize (?pend hj)) @ map merge (drop kVectorSize (?pend hj)) = map merge (?pend hj)"
    by (simp flip: map_append)
  then have "concat (map chunk_rows (c # cs)) = map merge (?pend hj) @ R"
    using c(3) cs(3) by (simp flip: append_assoc)
  with produces.next_chunk [where get_next = ?get, OF step cs(1)] c(2) cs(2) show ?case
    by (intro exI [of _ "c # cs"] exI [of _ hj']) simp
qed

lemma probe_produces:
  assumes "produces pchild s pcs s'"
    and "\<And>dc. dc \<in> set pcs \<Longrightarrow> join_context ts bords pords brows dc \<and> join_light bords brows dc \<and> chunk_types dc = ps"
    and "join_table ts bords pords brows hj" and "hj_current_probe_chunk hj = None"
  shows "\<exists>cs hj'. produces (HashJoin_GetNext fuel bchild pchild) (hj, s) cs (hj', s') \<and>
    list_all (joined_chunk ts ps) cs \<and>
    concat (map chunk_rows cs) = equi_join bords pords brows (concat (map chunk_rows pcs))"
  using assms
proof (induction arbitrary: hj rule: produces.induct)
  case (exhausted get_next s s')
  then have "HashJoin_GetNext fuel bchild get_next (hj, s) = (Inr None, (hj, s'))"
    by (simp add: HashJoin_GetNext_def ProbeNext_def join_table_def Let_def)
  then have "produces (HashJoin_GetNext fuel bchild get_next) (hj, s) [] (hj, s')" by (rule produces.exhausted)
  then show ?case by (intro exI [of _ "[]"] exI [of _ hj]) (simp add: equi_join_def)
next
  case (next_chunk get_next s dc s' pcs s'')
  let ?get = "HashJoin_GetNext fuel bchild get_next" and ?R = "equi_join bords pords brows (concat (map chunk_rows pcs))"
  let ?hj = "at_probe 0 [] 0 (hj\<lparr>hj_current_probe_chunk := Some dc\<rparr>)"
  have dc: "join_context ts bords pords brows dc" "join_light bords brows dc" "chunk_types dc = ps"
    using next_chunk.prems(1) [of dc] by simp_all
  have jt: "join_table ts bords pords brows ?hj" using next_chunk.prems(2) by (simp add: join_table_def at_probe_def)
  have "?get (hj, s) = ?get (?hj, s')"
    using next_chunk.hyps(1) next_chunk.prems(2,3)
    by (simp add: HashJoin_GetNext_def ProbeNext_def join_table_def at_probe_def Let_def)
  moreover have "\<exists>cs hj'. produces ?get (?hj, s') cs (hj', s'') \<and> list_all (joined_chunk ts (chunk_types dc)) cs \<and>
      concat (map chunk_rows cs) = map merge (pending bords pords brows dc ?hj) @ ?R"
  proof (rule chunk_produces [OF dc(1,2) _ jt])
    show "\<exists>cs hj'. produces ?get (hj, s') cs (hj', s'') \<and> list_all (joined_chunk ts (chunk_types dc)) cs \<and>
        concat (map chunk_rows cs) = ?R" if "join_table ts bords pords brows hj" "hj_current_probe_chunk hj = None" for hj
      unfolding dc(3) by (rule next_chunk.IH) (use next_chunk.prems(1) that in simp_all)
  qed (simp_all add: probing_def)
  ultimately obtain cs hj' where cs: "produces ?get (hj, s) cs (hj', s'')" "list_all (joined_chunk ts ps) cs"
    "concat (map chunk_rows cs) = map merge (pending bords pords brows dc ?hj) @ ?R"
    unfolding dc(3) using produces_same_start by metis
  moreover have "map merge (pending bords pords brows dc ?hj) @ ?R =
      equi_join bords pords brows (concat (map chunk_rows (dc # pcs)))"
    by (simp add: pending_start equi_join_pairs)
  ultimately show ?case by metis
qed

theorem join_produces:
  assumes build: "produces bchild s bcs s1" "\<And>c. c \<in> set bcs \<Longrightarrow> chunk_inv c \<and> chunk_types c = ts"
    and probe: "produces pchild s1 pcs s2" "\<And>c. c \<in> set pcs \<Longrightarrow> chunk_inv c \<and> chunk_types c = ps"
    and ords: "list_all (\<lambda>c. c < length ts) bords" "list_all (\<lambda>c. c < length ps) pords"
  defines "brows \<equiv> concat (map chunk_rows bcs)" and "prows \<equiv> concat (map chunk_rows pcs)"
  assumes fits: "build_fits ts brows" and li: "\<And>dc. dc \<in> set pcs \<Longrightarrow> join_light bords brows dc"
    and fuel: "length bcs < fuel"
  shows "\<exists>cs hj. produces (HashJoin_GetNext fuel bchild pchild) (MakeHashJoinOperator bords pords ts, s) cs (hj, s2) \<and>
    list_all (joined_chunk ts ps) cs \<and> concat (map chunk_rows cs) = equi_join bords pords brows prows"
proof -
  let ?get = "HashJoin_GetNext fuel bchild pchild" and ?start = "MakeHashJoinOperator bords pords ts"
  obtain hj where hj: "BuildPhase fuel bchild (?start, s) = (Inr (), (hj, s1))" "built_from ts bords pords brows hj"
    using BuildPhase_spec [OF build ords(1)] fits fuel unfolding brows_def by blast
  let ?hj = "hj\<lparr>hj_built := True\<rparr>"
  have "?get (?start, s) = ?get (?hj, s1)"
  proof -
    have "\<not> hj_built ?start" by (simp add: MakeHashJoinOperator_def)
    with hj(1) show ?thesis by (simp add: HashJoin_GetNext_def sbind_def)
  qed
  moreover have "join_table ts bords pords brows ?hj" "hj_current_probe_chunk ?hj = None"
    using hj(2) by (simp_all add: built_from_def join_table_def)
  moreover have "\<forall>r \<in> set brows. length r = length ts"
    using build(2) by (auto simp: brows_def chunk_rows_def)
  then have "join_context ts bords pords brows dc \<and> join_light bords brows dc \<and> chunk_types dc = ps" if "dc \<in> set pcs" for dc
    using that probe(2) [OF that] ords fits li by (simp add: join_context_def build_fits_def)
  ultimately show ?thesis
    using probe_produces [OF probe(1), of ts bords pords brows ps ?hj fuel bchild] produces_same_start
    unfolding prows_def by metis
qed

end
