(* ===== verification/Aggregation.thy ===== *)
theory Aggregation
  imports Pipeline ZoneMaps
begin

text \<open>
  \<open>execution/aggregate_accumulator\<close> and \<open>execution/aggregation_operator\<close>: the child is
  drained, every row is added to the accumulators of its group, and the groups are emitted in
  the order of their first row, at most \<open>kVectorSize\<close> per chunk. Without \<open>GROUP BY\<close> there is
  one group even when there is no row.

  The 64-bit counters are integers; leaving their range is undefined behaviour. The hash maps
  are maps from key bytes. \<open>OutputBuilders\<close> keeps one vector of columns per type; it is a
  function of the type here.
\<close>

section \<open>Accumulators\<close>

datatype AggregateFunctionKind = kCountStar | kCount | kSum | kAvg | kMin | kMax

record AggregateSpec =
  ag_function :: AggregateFunctionKind
  ag_argument_column :: "nat option"
  ag_argument_type :: TypeId

definition checked_int64 :: "int \<Rightarrow> int result" where
  "checked_int64 x = (if - (2 ^ 63) \<le> x \<and> x < 2 ^ 63 then Inr x
     else Inl (UndefinedBehaviour ''signed integer overflow''))"

definition CountStar_Add :: "int \<Rightarrow> int result" where
  "CountStar_Add count = checked_int64 (count + 1)"

definition Count_Add :: "int \<Rightarrow> bool \<Rightarrow> int result" where
  "Count_Add count is_null = (if \<not> is_null then checked_int64 (count + 1) else Inr count)"

record SumIntAccumulator =
  si_has_values :: bool
  si_sum :: int

definition SumInt_Add :: "SumIntAccumulator \<Rightarrow> int32 \<Rightarrow> bool \<Rightarrow> SumIntAccumulator result" where
  "SumInt_Add acc v is_null =
     (if is_null then Inr acc
      else rbind (checked_int64 (si_sum acc + sint v)) (\<lambda>sum. Inr (acc\<lparr>si_has_values := True, si_sum := sum\<rparr>)))"

record SumFloatAccumulator =
  sf_has_values :: bool
  sf_sum :: float64

definition SumFloat_Add :: "SumFloatAccumulator \<Rightarrow> float32 \<Rightarrow> bool \<Rightarrow> SumFloatAccumulator" where
  "SumFloat_Add acc v is_null =
     (if is_null then acc
      else acc\<lparr>sf_has_values := True, sf_sum := f64_add (sf_sum acc) (f64_of_f32 v)\<rparr>)"

record AvgIntAccumulator =
  ai_sum :: int
  ai_count :: int

definition AvgInt_Add :: "AvgIntAccumulator \<Rightarrow> int32 \<Rightarrow> bool \<Rightarrow> AvgIntAccumulator result" where
  "AvgInt_Add acc v is_null =
     (if is_null then Inr acc
      else rbind (checked_int64 (ai_sum acc + sint v)) (\<lambda>sum.
           rbind (checked_int64 (ai_count acc + 1)) (\<lambda>count. Inr (acc\<lparr>ai_sum := sum, ai_count := count\<rparr>))))"

definition AvgInt_Average :: "AvgIntAccumulator \<Rightarrow> float64" where
  "AvgInt_Average acc = f64_div (f64_of_int (ai_sum acc)) (f64_of_int (ai_count acc))"

record AvgFloatAccumulator =
  af_sum :: float64
  af_count :: int

definition AvgFloat_Add :: "AvgFloatAccumulator \<Rightarrow> float32 \<Rightarrow> bool \<Rightarrow> AvgFloatAccumulator result" where
  "AvgFloat_Add acc v is_null =
     (if is_null then Inr acc
      else rbind (checked_int64 (af_count acc + 1)) (\<lambda>count.
             Inr (acc\<lparr>af_sum := f64_add (af_sum acc) (f64_of_f32 v), af_count := count\<rparr>)))"

definition AvgFloat_Average :: "AvgFloatAccumulator \<Rightarrow> float64" where
  "AvgFloat_Average acc = f64_div (af_sum acc) (f64_of_int (af_count acc))"

definition MinMax_Add :: "('a \<Rightarrow> 'a \<Rightarrow> bool) \<Rightarrow> 'a ZoneMap \<Rightarrow> 'a \<Rightarrow> bool \<Rightarrow> 'a ZoneMap" where
  "MinMax_Add lt zone_map v is_null = (if \<not> is_null then zm_Update lt zone_map v else zone_map)"

record MinMaxVarcharAccumulator =
  mv_has_values :: bool
  mv_min :: string
  mv_max :: string

definition MinMaxVarchar_Add :: "MinMaxVarcharAccumulator \<Rightarrow> string \<Rightarrow> bool \<Rightarrow> MinMaxVarcharAccumulator" where
  "MinMaxVarchar_Add acc v is_null =
     (if is_null then acc
      else if \<not> mv_has_values acc then acc\<lparr>mv_min := v, mv_max := v, mv_has_values := True\<rparr>
      else acc\<lparr>mv_min := std_min (<) (mv_min acc) v, mv_max := std_max (<) (mv_max acc) v\<rparr>)"

datatype AccumulatorVariant =
    CountStarAcc int
  | CountAcc int
  | SumIntAcc SumIntAccumulator
  | SumFloatAcc SumFloatAccumulator
  | AvgIntAcc AvgIntAccumulator
  | AvgFloatAcc AvgFloatAccumulator
  | MinMaxIntAcc "int32 ZoneMap"
  | MinMaxFloatAcc "float32 ZoneMap"
  | MinMaxVarcharAcc MinMaxVarcharAccumulator

definition MakeAccumulator :: "AggregateSpec \<Rightarrow> AccumulatorVariant" where
  "MakeAccumulator spec =
     (case ag_function spec of
        kCountStar \<Rightarrow> CountStarAcc 0
      | kCount \<Rightarrow> CountAcc 0
      | kSum \<Rightarrow> if ag_argument_type spec = kInteger then SumIntAcc \<lparr>si_has_values = False, si_sum = 0\<rparr>
               else SumFloatAcc \<lparr>sf_has_values = False, sf_sum = f64_zero\<rparr>
      | kAvg \<Rightarrow> if ag_argument_type spec = kInteger then AvgIntAcc \<lparr>ai_sum = 0, ai_count = 0\<rparr>
               else AvgFloatAcc \<lparr>af_sum = f64_zero, af_count = 0\<rparr>
      | _ \<Rightarrow> (case ag_argument_type spec of
                kInteger \<Rightarrow> MinMaxIntAcc (EmptyZoneMap 0)
              | kFloat \<Rightarrow> MinMaxFloatAcc (EmptyZoneMap f32_zero)
              | kVarchar \<Rightarrow> MinMaxVarcharAcc \<lparr>mv_has_values = False, mv_min = [], mv_max = []\<rparr>))"

text \<open>
  The implicit conversions of an argument to the accumulator's type; they apply only when a
  specification's type is not the column's.
\<close>

definition f32_to_int32 :: "float32 \<Rightarrow> int32 result" where
  "f32_to_int32 x =
     (case f32_fp x of
        FFin s m e \<Rightarrow>
          (let v = signed_int s (if e \<ge> 0 then m * 2 ^ nat e else m div 2 ^ nat (- e))
           in if - (2 ^ 31) \<le> v \<and> v < 2 ^ 31 then Inr (word_of_int v)
              else Inl (UndefinedBehaviour ''float to integer conversion out of range''))
      | _ \<Rightarrow> Inl (UndefinedBehaviour ''float to integer conversion out of range''))"

fun int_argument :: "ConstValue \<Rightarrow> int32 result" where
  "int_argument (VInt v) = Inr v"
| "int_argument (VFloat v) = f32_to_int32 v"
| "int_argument (VString v) = Inl BadVariantAccess"

fun float_argument :: "ConstValue \<Rightarrow> float32 result" where
  "float_argument (VInt v) = Inr (f32_of_int (sint v))"
| "float_argument (VFloat v) = Inr v"
| "float_argument (VString v) = Inl BadVariantAccess"

text \<open>A number for a numeric accumulator; a string column is skipped.\<close>

definition add_number :: "(ConstValue \<Rightarrow> 'n result) \<Rightarrow> ('n \<Rightarrow> bool \<Rightarrow> AccumulatorVariant result) \<Rightarrow>
    AccumulatorVariant \<Rightarrow> ColumnVariant \<Rightarrow> nat \<Rightarrow> bool \<Rightarrow> AccumulatorVariant result" where
  "add_number convert add acc column row is_null =
     (if column_type column = kVarchar then Inr acc
      else rbind (col_GetValue column row) (\<lambda>v. rbind (convert v) (\<lambda>n. add n is_null)))"

definition AccumulateRow :: "AccumulatorVariant \<Rightarrow> DataChunk \<Rightarrow> nat \<Rightarrow> AggregateSpec \<Rightarrow> AccumulatorVariant result" where
  "AccumulateRow acc chunk row spec =
     (case acc of
        CountStarAcc n \<Rightarrow> rbind (CountStar_Add n) (\<lambda>n. Inr (CountStarAcc n))
      | _ \<Rightarrow>
          rbind (case ag_argument_column spec of
                   None \<Rightarrow> Inl (UndefinedBehaviour ''empty optional dereferenced'')
                 | Some c \<Rightarrow> dc_Column chunk c) (\<lambda>column.
          rbind (col_IsNull column row) (\<lambda>is_null.
            case acc of
              CountStarAcc n \<Rightarrow> Inr acc
            | CountAcc n \<Rightarrow> rbind (Count_Add n is_null) (\<lambda>n. Inr (CountAcc n))
            | MinMaxVarcharAcc m \<Rightarrow>
                if column_type column = kVarchar
                then rbind (col_GetValue column row) (\<lambda>v. case v of
                       VString s \<Rightarrow> Inr (MinMaxVarcharAcc (MinMaxVarchar_Add m s is_null))
                     | _ \<Rightarrow> Inl BadVariantAccess)
                else Inr acc
            | SumIntAcc a \<Rightarrow> add_number int_argument
                (\<lambda>v n. rbind (SumInt_Add a v n) (\<lambda>a. Inr (SumIntAcc a))) acc column row is_null
            | SumFloatAcc a \<Rightarrow> add_number float_argument
                (\<lambda>v n. Inr (SumFloatAcc (SumFloat_Add a v n))) acc column row is_null
            | AvgIntAcc a \<Rightarrow> add_number int_argument
                (\<lambda>v n. rbind (AvgInt_Add a v n) (\<lambda>a. Inr (AvgIntAcc a))) acc column row is_null
            | AvgFloatAcc a \<Rightarrow> add_number float_argument
                (\<lambda>v n. rbind (AvgFloat_Add a v n) (\<lambda>a. Inr (AvgFloatAcc a))) acc column row is_null
            | MinMaxIntAcc z \<Rightarrow> add_number int_argument
                (\<lambda>v n. Inr (MinMaxIntAcc (MinMax_Add word_sless z v n))) acc column row is_null
            | MinMaxFloatAcc z \<Rightarrow> add_number float_argument
                (\<lambda>v n. Inr (MinMaxFloatAcc (MinMax_Add f32_less z v n))) acc column row is_null)))"

section \<open>Group keys\<close>

fun tagged_bytes :: "bytes \<Rightarrow> ConstValue \<Rightarrow> bytes" where
  "tagged_bytes bytes (VInt v) = WriteU32 (bytes @ [0]) v"
| "tagged_bytes bytes (VFloat v) = WriteFloat (bytes @ [1]) v"
| "tagged_bytes bytes (VString v) = WriteString (bytes @ [2]) v"

definition SerializeKeyBytes :: "ColumnVariant \<Rightarrow> nat \<Rightarrow> bytes \<Rightarrow> bytes result" where
  "SerializeKeyBytes col row out =
     rbind (col_IsNull col row) (\<lambda>is_null.
       let bytes = WriteU8 [] (if is_null then 1 else 0)
       in if is_null then Inr (out @ bytes)
          else rbind (col_GetValue col row) (\<lambda>v. Inr (out @ tagged_bytes bytes v)))"

definition ExtractKeyValue :: "ColumnVariant \<Rightarrow> nat \<Rightarrow> ConstValue option result" where
  "ExtractKeyValue col row =
     rbind (col_IsNull col row) (\<lambda>is_null.
       if is_null then Inr None else rbind (col_GetValue col row) (\<lambda>v. Inr (Some v)))"

definition key_column :: "DataChunk \<Rightarrow> nat \<Rightarrow> nat \<Rightarrow> bytes \<times> ConstValue option list \<Rightarrow>
    (bytes \<times> ConstValue option list) result" where
  "key_column chunk row col = (\<lambda>(key, values).
     rbind (dc_Column chunk col) (\<lambda>column.
     rbind (SerializeKeyBytes column row key) (\<lambda>key.
     rbind (ExtractKeyValue column row) (\<lambda>v. Inr (key, values @ [v])))))"

section \<open>AggregationOperator\<close>

record AggregationOperator =
  ao_group_by_columns :: "nat list"
  ao_group_by_types :: "TypeId list"
  ao_aggregates :: "AggregateSpec list"
  ao_drained :: bool
  ao_group_order :: "bytes list"
  ao_display_values :: "bytes \<rightharpoonup> ConstValue option list"
  ao_accumulators :: "bytes \<rightharpoonup> AccumulatorVariant list"
  ao_emit_cursor :: nat

definition MakeAggregationOperator :: "nat list \<Rightarrow> TypeId list \<Rightarrow> AggregateSpec list \<Rightarrow> AggregationOperator" where
  "MakeAggregationOperator group_by_columns group_by_types aggregates =
     \<lparr>ao_group_by_columns = group_by_columns, ao_group_by_types = group_by_types,
      ao_aggregates = aggregates, ao_drained = False, ao_group_order = [],
      ao_display_values = Map.empty, ao_accumulators = Map.empty, ao_emit_cursor = 0\<rparr>"

text \<open>A new group: its key, the values to show, and fresh accumulators.\<close>

definition add_group :: "bytes \<Rightarrow> ConstValue option list \<Rightarrow> AggregationOperator \<Rightarrow> AggregationOperator" where
  "add_group key values ao =
     ao\<lparr>ao_group_order := ao_group_order ao @ [key],
        ao_display_values := (ao_display_values ao)(key \<mapsto> values),
        ao_accumulators := (ao_accumulators ao)(key \<mapsto> map MakeAccumulator (ao_aggregates ao))\<rparr>"

definition aggregate_row :: "DataChunk \<Rightarrow> nat \<Rightarrow> (AggregationOperator, unit) action" where
  "aggregate_row chunk row ao =
     (case rfold (key_column chunk row) (ao_group_by_columns ao) ([], []) of
        Inl e \<Rightarrow> (Inl e, ao)
      | Inr (key, values) \<Rightarrow>
          (let key = (if ao_group_by_columns ao = [] then [] else key);
               ao = (if ao_accumulators ao key = None then add_group key values ao else ao)
           in case rmap (\<lambda>(acc, spec). AccumulateRow acc chunk row spec)
                     (zip (the (ao_accumulators ao key)) (ao_aggregates ao)) of
                Inl e \<Rightarrow> (Inl e, ao)
              | Inr accs \<Rightarrow> (Inr (), ao\<lparr>ao_accumulators := (ao_accumulators ao)(key \<mapsto> accs)\<rparr>)))"

definition Drain :: "nat \<Rightarrow> ('s, DataChunk option) action \<Rightarrow> (AggregationOperator \<times> 's, unit) action" where
  "Drain fuel child = (\<lambda>(ao, s).
     let ao = ao\<lparr>ao_drained := True\<rparr>;
         ao = (if ao_group_by_columns ao = [] then add_group [] [] ao else ao)
     in drain_child fuel child (each_selected aggregate_row) (ao, s))"

section \<open>EmitBatch\<close>

type_synonym OutputBuilders = "TypeId \<Rightarrow> ColumnVariant list"

definition aggregate_type :: "AggregateSpec \<Rightarrow> TypeId" where
  "aggregate_type spec =
     (case ag_function spec of
        kAvg \<Rightarrow> kFloat | kCountStar \<Rightarrow> kInteger | kCount \<Rightarrow> kInteger | _ \<Rightarrow> ag_argument_type spec)"

definition add_builder :: "TypeId \<Rightarrow> OutputBuilders \<times> (TypeId \<times> nat) list \<Rightarrow> OutputBuilders \<times> (TypeId \<times> nat) list" where
  "add_builder t = (\<lambda>(builders, column_order).
     (builders(t := builders t @ [EmptyColumn t]), column_order @ [(t, length (builders t))]))"

text \<open>Append to the next column of a type: \<open>builders_.int_cols[int_idx++].Append(v)\<close>.\<close>

definition append_output :: "TypeId \<times> ConstValue option \<Rightarrow> OutputBuilders \<times> (TypeId \<Rightarrow> nat) \<Rightarrow>
    (OutputBuilders \<times> (TypeId \<Rightarrow> nat)) result" where
  "append_output = (\<lambda>(t, v) (builders, idx).
     rbind (vec_at (builders t) (idx t)) (\<lambda>column.
     rbind (case v of None \<Rightarrow> col_AppendNull column | Some v \<Rightarrow> col_Append column v) (\<lambda>column.
       Inr (builders(t := (builders t)[idx t := column]), idx(t := idx t + 1)))))"

definition group_output :: "TypeId \<times> ConstValue option \<Rightarrow> TypeId \<times> ConstValue option" where
  "group_output = (\<lambda>(t, v). (case v of None \<Rightarrow> t | Some v \<Rightarrow> value_type v, v))"

definition min_or_max :: "AggregateSpec \<Rightarrow> 'a \<Rightarrow> 'a \<Rightarrow> 'a" where
  "min_or_max spec lo hi = (if ag_function spec = kMax then hi else lo)"

definition aggregate_output :: "AccumulatorVariant \<times> AggregateSpec \<Rightarrow> TypeId \<times> ConstValue option" where
  "aggregate_output = (\<lambda>(acc, spec).
     case acc of
       CountStarAcc n \<Rightarrow> (kInteger, Some (VInt (word_of_int n)))
     | CountAcc n \<Rightarrow> (kInteger, Some (VInt (word_of_int n)))
     | SumIntAcc a \<Rightarrow> (kInteger, if si_has_values a then Some (VInt (word_of_int (si_sum a))) else None)
     | SumFloatAcc a \<Rightarrow> (kFloat, if sf_has_values a then Some (VFloat (f32_of_f64 (sf_sum a))) else None)
     | AvgIntAcc a \<Rightarrow> (kFloat, if ai_count a > 0 then Some (VFloat (f32_of_f64 (AvgInt_Average a))) else None)
     | AvgFloatAcc a \<Rightarrow> (kFloat, if af_count a > 0 then Some (VFloat (f32_of_f64 (AvgFloat_Average a))) else None)
     | MinMaxVarcharAcc m \<Rightarrow>
         (kVarchar, if \<not> mv_has_values m then None else Some (VString (min_or_max spec (mv_min m) (mv_max m))))
     | MinMaxIntAcc z \<Rightarrow>
         (kInteger, if \<not> zm_has_values z then None else Some (VInt (min_or_max spec (zm_min z) (zm_max z))))
     | MinMaxFloatAcc z \<Rightarrow>
         (kFloat, if \<not> zm_has_values z then None else Some (VFloat (min_or_max spec (zm_min z) (zm_max z)))))"

text \<open>One output row; \<open>operator[]\<close> of the hash maps yields an empty vector for a missing key.\<close>

definition emit_group :: "AggregationOperator \<Rightarrow> bytes \<Rightarrow> OutputBuilders \<Rightarrow> OutputBuilders result" where
  "emit_group ao key builders =
     (let values = (case ao_display_values ao key of None \<Rightarrow> [] | Some vs \<Rightarrow> vs);
          accs = (case ao_accumulators ao key of None \<Rightarrow> [] | Some as \<Rightarrow> as)
      in if length values < length (ao_group_by_types ao) \<or> length accs < length (ao_aggregates ao)
         then Inl (UndefinedBehaviour ''vector index out of range'')
         else rbind (rfold append_output
                (map group_output (zip (ao_group_by_types ao) values) @ map aggregate_output (zip accs (ao_aggregates ao)))
                (builders, \<lambda>_. 0)) (\<lambda>(builders, _). Inr builders))"

definition EmitBatch :: "AggregationOperator \<Rightarrow> (DataChunk \<times> AggregationOperator) result" where
  "EmitBatch ao =
     (let batch_size = min kVectorSize (length (ao_group_order ao) - ao_emit_cursor ao);
          (builders, column_order) =
            fold add_builder (ao_group_by_types ao @ map aggregate_type (ao_aggregates ao)) (\<lambda>_. [], [])
      in rbind (MakeDataChunk batch_size) (\<lambda>output.
         rbind (rfold (\<lambda>i builders. rbind (vec_at (ao_group_order ao) (ao_emit_cursor ao + i))
                   (\<lambda>key. emit_group ao key builders)) [0..<batch_size] builders) (\<lambda>builders.
         rbind (rfold (\<lambda>(t, index) output. rbind (vec_at (builders t) index) (dc_AddColumn output)) column_order output)
           (\<lambda>output. Inr (output, ao\<lparr>ao_emit_cursor := ao_emit_cursor ao + batch_size\<rparr>)))))"

definition Aggregation_GetNext ::
    "nat \<Rightarrow> ('s, DataChunk option) action \<Rightarrow> (AggregationOperator \<times> 's, DataChunk option) action" where
  "Aggregation_GetNext fuel child =
     sbind (\<lambda>(ao, s). if \<not> ao_drained ao then Drain fuel child (ao, s) else (Inr (), (ao, s)))
       (\<lambda>_ (ao, s).
          if ao_emit_cursor ao \<ge> length (ao_group_order ao) then (Inr None, (ao, s))
          else case EmitBatch ao of
                 Inl e \<Rightarrow> (Inl e, (ao, s))
               | Inr (output, ao) \<Rightarrow> (Inr (Some output), (ao, s)))"

end
