(* ===== verification/AggregationCorrect.thy ===== *)
theory AggregationCorrect
  imports Aggregation
begin

text \<open>
  Aggregation computes one row per distinct group key, in the order of first appearance: the
  key and, for every aggregate, its value over the rows of the group. Key bytes stand for key
  values, nulls included; the result does not depend on how the rows are cut into chunks.
\<close>

section \<open>Accumulators in closed form\<close>

fun int_value :: "ConstValue \<Rightarrow> int32" where
  "int_value (VInt v) = v"
| "int_value _ = 0"

fun float_value :: "ConstValue \<Rightarrow> float32" where
  "float_value (VFloat v) = v"
| "float_value _ = f32_zero"

fun string_value :: "ConstValue \<Rightarrow> string" where
  "string_value (VString v) = v"
| "string_value _ = []"

definition argument_values :: "AggregateSpec \<Rightarrow> cell list list \<Rightarrow> ConstValue list" where
  "argument_values spec rows =
     (case ag_argument_column spec of None \<Rightarrow> [] | Some c \<Rightarrow> valid_values (map (\<lambda>r. r ! c) rows))"

definition float_sum :: "float32 list \<Rightarrow> float64" where
  "float_sum vs = fold (\<lambda>v s. f64_add s (f64_of_f32 v)) vs f64_zero"

definition zone_of :: "('a \<Rightarrow> 'a \<Rightarrow> bool) \<Rightarrow> 'a \<Rightarrow> 'a list \<Rightarrow> 'a ZoneMap" where
  "zone_of lt zero vs = fold (\<lambda>v z. zm_Update lt z v) vs (EmptyZoneMap zero)"

definition mv_zone :: "MinMaxVarcharAccumulator \<Rightarrow> string ZoneMap" where
  "mv_zone m = \<lparr>zm_has_values = mv_has_values m, zm_min = mv_min m, zm_max = mv_max m\<rparr>"

definition zone_mv :: "string ZoneMap \<Rightarrow> MinMaxVarcharAccumulator" where
  "zone_mv z = \<lparr>mv_has_values = zm_has_values z, mv_min = zm_min z, mv_max = zm_max z\<rparr>"

lemma MinMaxVarchar_Add_zone:
  "MinMaxVarchar_Add (zone_mv z) v n = zone_mv (if n then z else zm_Update (<) z v)"
  by (simp add: MinMaxVarchar_Add_def zone_mv_def zm_Update_def)

definition accumulated :: "AggregateSpec \<Rightarrow> cell list list \<Rightarrow> AccumulatorVariant" where
  "accumulated spec rows =
     (let vs = argument_values spec rows; ints = map int_value vs; floats = map float_value vs
      in case ag_function spec of
           kCountStar \<Rightarrow> CountStarAcc (int (length rows))
         | kCount \<Rightarrow> CountAcc (int (length vs))
         | kSum \<Rightarrow> if ag_argument_type spec = kInteger
                  then SumIntAcc \<lparr>si_has_values = vs \<noteq> [], si_sum = sum_list (map sint ints)\<rparr>
                  else SumFloatAcc \<lparr>sf_has_values = vs \<noteq> [], sf_sum = float_sum floats\<rparr>
         | kAvg \<Rightarrow> if ag_argument_type spec = kInteger
                  then AvgIntAcc \<lparr>ai_sum = sum_list (map sint ints), ai_count = int (length vs)\<rparr>
                  else AvgFloatAcc \<lparr>af_sum = float_sum floats, af_count = int (length vs)\<rparr>
         | _ \<Rightarrow> (case ag_argument_type spec of
                   kInteger \<Rightarrow> MinMaxIntAcc (zone_of word_sless 0 ints)
                 | kFloat \<Rightarrow> MinMaxFloatAcc (zone_of f32_less f32_zero floats)
                 | kVarchar \<Rightarrow> MinMaxVarcharAcc (zone_mv (zone_of (<) [] (map string_value vs)))))"

text \<open>What the binder guarantees of a specification.\<close>

definition spec_ok :: "TypeId list \<Rightarrow> AggregateSpec \<Rightarrow> bool" where
  "spec_ok ts spec = (ag_function spec = kCountStar \<or>
     (case ag_argument_column spec of None \<Rightarrow> False
      | Some c \<Rightarrow> c < length ts \<and> ts ! c = ag_argument_type spec \<and>
          (ag_argument_type spec = kVarchar \<longrightarrow> ag_function spec \<notin> {kSum, kAvg})))"

lemma accumulated_Nil: "accumulated spec [] = MakeAccumulator spec"
  by (auto simp: accumulated_def MakeAccumulator_def argument_values_def valid_values_def float_sum_def zone_of_def
      zone_mv_def EmptyZoneMap_def Let_def split: option.split AggregateFunctionKind.split TypeId.split)

lemma sum_sint_bound: "\<bar>sum_list (map sint (vs :: int32 list))\<bar> \<le> int (length vs) * 2 ^ 31"
proof (induction vs)
  case (Cons v vs)
  have "\<bar>sint v\<bar> \<le> 2 ^ 31" using sint_ge [of v] sint_lt [of v] by simp
  with Cons show ?case by (simp add: algebra_simps)
qed simp

lemma checked_int64_small: "\<bar>x\<bar> < 2 ^ 63 \<Longrightarrow> checked_int64 x = Inr x"
  by (auto simp: checked_int64_def)

lemma checked_sum:
  assumes "length (vs :: int32 list) < 2 ^ 31"
  shows "checked_int64 (sum_list (map sint vs) + sint (v :: int32)) = Inr (sum_list (map sint vs) + sint v)"
proof (rule checked_int64_small)
  have "\<bar>sum_list (map sint (vs @ [v]))\<bar> \<le> int (length (vs @ [v])) * 2 ^ 31" by (rule sum_sint_bound)
  with assms show "\<bar>sum_list (map sint vs) + sint v\<bar> < 2 ^ 63" by simp
qed

lemma checked_count: "n < 2 ^ 31 \<Longrightarrow> checked_int64 (1 + int n) = Inr (1 + int n)" "n < 2 ^ 31 \<Longrightarrow> checked_int64 (int n + 1) = Inr (int n + 1)"
  by (simp_all add: checked_int64_def)

lemma argument_values_snoc:
  assumes "ag_argument_column spec = Some c"
  shows "argument_values spec (rows @ [r]) = argument_values spec rows @ (if snd (r ! c) then [fst (r ! c)] else [])"
  using assms by (simp add: argument_values_def valid_values_def)

lemma length_argument_values: "length (argument_values spec rows) \<le> length rows"
  by (simp add: argument_values_def valid_values_def split: option.split)

lemma AccumulateRow_spec:
  assumes inv: "chunk_inv dc" and i: "i < dc_row_count dc" and ok: "spec_ok (chunk_types dc) spec" and n: "length rows < 2 ^ 31"
  shows "AccumulateRow (accumulated spec rows) dc i spec = Inr (accumulated spec (rows @ [chunk_row dc i]))"
proof (cases "ag_function spec = kCountStar")
  case True
  with n show ?thesis
    by (simp add: accumulated_def AccumulateRow_def CountStar_Add_def checked_count Let_def add.commute)
next
  case False
  with ok obtain c where c: "ag_argument_column spec = Some c" "c < length (chunk_types dc)"
    "chunk_types dc ! c = ag_argument_type spec" "ag_argument_type spec = kVarchar \<Longrightarrow> ag_function spec \<notin> {kSum, kAvg}"
    by (auto simp: spec_ok_def split: option.splits)
  obtain col where col: "dc_Column dc c = Inr col" "col_inv col" "i < length (col_cells col)"
    "column_type col = ag_argument_type spec" "col_cells col ! i = chunk_row dc i ! c"
    using chunk_column [OF inv c(2) i] c(3) by auto
  obtain v b where cell: "chunk_row dc i ! c = (v, b)" by fastforce
  have run: "col_IsNull col i = Inr (\<not> b)" "col_GetValue col i = Inr v"
    using col cell by (simp_all add: col_IsNull_cells col_GetValue_cells)
  have ty: "value_type v = ag_argument_type spec"
    using col_cells_typed [OF nth_mem [OF col(3)]] col(4,5) cell by simp
  let ?vs = "argument_values spec rows"
  have vs: "argument_values spec (rows @ [chunk_row dc i]) = ?vs @ (if b then [v] else [])"
    by (simp add: argument_values_snoc [OF c(1)] cell)
  have small: "length ?vs < 2 ^ 31" using length_argument_values [of spec rows] n by simp
  note sum = checked_sum [of "map int_value ?vs", unfolded length_map, OF small]
  note count = checked_count [OF small]
  show ?thesis
    using False c(1,4) col(1,4) run ty sum count
    by (cases v; cases "ag_function spec"; cases b)
      (auto simp: accumulated_def AccumulateRow_def add_number_def Count_Add_def SumInt_Add_def SumFloat_Add_def
        AvgInt_Add_def AvgFloat_Add_def MinMax_Add_def MinMaxVarchar_Add_zone vs float_sum_def zone_of_def Let_def ac_simps)
qed

section \<open>Group keys\<close>

definition key_cells :: "nat list \<Rightarrow> cell list \<Rightarrow> cell list" where
  "key_cells cols row = map (\<lambda>c. clean_cell (row ! c)) cols"

fun cell_value :: "cell \<Rightarrow> ConstValue option" where
  "cell_value (v, b) = (if b then Some v else None)"

fun cell_bytes :: "cell \<Rightarrow> bytes" where
  "cell_bytes (v, b) = (if b then tagged_bytes [0] v else [1])"

definition key_enc :: "cell list \<Rightarrow> bytes" where
  "key_enc k = concat (map cell_bytes k)"

lemma key_columns_spec:
  assumes "chunk_inv dc" and "i < dc_row_count dc" and "list_all (\<lambda>c. c < length (chunk_types dc)) cols"
  shows "rfold (key_column dc i) cols (key, values) =
    Inr (key @ key_enc (key_cells cols (chunk_row dc i)), values @ map cell_value (key_cells cols (chunk_row dc i)))"
  using assms(3)
proof (induction cols arbitrary: key "values")
  case (Cons c cols)
  then have "c < length (chunk_types dc)" by simp
  then obtain col where col: "dc_Column dc c = Inr col" "col_inv col" "i < length (col_cells col)"
    "col_cells col ! i = chunk_row dc i ! c"
    by (rule chunk_column [OF assms(1) _ assms(2)])
  obtain v b where "chunk_row dc i ! c = (v, b)" by fastforce
  with col Cons show ?case
    by (auto simp: key_column_def SerializeKeyBytes_def ExtractKeyValue_def col_IsNull_cells col_GetValue_cells
        key_enc_def key_cells_def WriteU8_def null_cell_def Let_def)
qed (simp add: key_enc_def key_cells_def)

text \<open>Key bytes determine the key.\<close>

definition key_cell_ok :: "TypeId \<Rightarrow> cell \<Rightarrow> bool" where
  "key_cell_ok t x = (clean_cell x = x \<and> key_value_ok t (fst x))"

fun value_tag :: "ConstValue \<Rightarrow> byte" where
  "value_tag (VInt _) = 0"
| "value_tag (VFloat _) = 1"
| "value_tag (VString _) = 2"

lemma tagged_bytes_eq: "tagged_bytes bs v = bs @ value_tag v # value_bytes v"
  by (cases v) (simp_all add: u32.wr_appends [of "_ @ _"] float_codec.wr_appends [of "_ @ _"]
      string_codec.wr_appends [of "_ @ _"])

definition read_cell :: "TypeId \<Rightarrow> ByteReader \<Rightarrow> (cell \<times> ByteReader) result" where
  "read_cell t = (\<lambda>r. rbind (ReadU8 r) (\<lambda>(n, r).
     if n = 1 then Inr (null_cell t, r)
     else rbind (ReadU8 r) (\<lambda>(_, r). rbind (read_value t r) (\<lambda>(v, r). Inr ((v, True), r)))))"

lemma parses_read_cell:
  assumes "key_cell_ok t x"
  shows "parses (read_cell t) (cell_bytes x) x"
proof (cases x)
  case (Pair v b)
  have u8: "parses ReadU8 [n] n" for n using u8.rd_wr [OF TrueI, of n] by (simp add: WriteU8_def)
  show ?thesis
  proof (cases b)
    case True
    have v: "parses (read_value t) (value_bytes v) v"
      using assms by (intro parses_read_value) (simp add: key_cell_ok_def Pair)
    have "parses (\<lambda>r. rbind (ReadU8 r) (\<lambda>(_, r). rbind (read_value t r) (\<lambda>(v, r). Inr ((v, True), r))))
        ([value_tag v] @ value_bytes v) (v, True)"
      by (rule parses_bind [OF u8]) (simp add: parses_map [OF v, where f = "\<lambda>v. (v, True)"])
    then have "parses (read_cell t) ([0] @ value_tag v # value_bytes v) (v, True)"
      unfolding read_cell_def by (intro parses_bind [OF u8]) simp
    with True show ?thesis by (simp add: Pair tagged_bytes_eq)
  next
    case False
    then have "x = null_cell t" using assms by (auto simp: key_cell_ok_def key_value_ok_def Pair)
    moreover have "parses (read_cell t) ([1] @ []) (null_cell t)"
      unfolding read_cell_def by (rule parses_bind [OF u8]) (simp add: parses_return)
    ultimately show ?thesis by (simp add: null_cell_def)
  qed
qed

definition key_ok :: "TypeId list \<Rightarrow> cell list \<Rightarrow> bool" where
  "key_ok ts k = list_all2 key_cell_ok ts k"

lemma key_enc_inject:
  assumes "key_ok ts k" and "key_ok ts k'" and "key_enc k = key_enc k'"
  shows "k = k'"
proof -
  have len: "length k = length ts" "length k' = length ts"
    using assms(1,2) by (simp_all add: key_ok_def list_all2_lengthD [symmetric])
  have enc: "key_enc x = concat (map (\<lambda>i. cell_bytes (x ! i)) [0..<length x])" for x
    by (simp only: key_enc_def map_nth_upt [of cell_bytes])
  have "k = k' \<and> ([] :: bytes) = []"
  proof (rule self_delimiting_concat [where ok = "\<lambda>i. key_cell_ok (ts ! i)" and enc = "\<lambda>_. cell_bytes" and n = "length ts"])
    show "self_delimiting (key_cell_ok (ts ! i)) cell_bytes" for i
      by (rule parses_self_delimiting [OF parses_read_cell])
  qed (use assms len in \<open>simp_all add: enc key_ok_def list_all2_conv_all_nth\<close>)
  then show ?thesis by simp
qed

lemma key_ok_row:
  assumes "\<And>c. c < length ts \<Longrightarrow> value_type (fst (row ! c)) = ts ! c \<and> cell_weight (row ! c) < 2 ^ 32"
    and "list_all (\<lambda>c. c < length ts) cols"
  shows "key_ok (map ((!) ts) cols) (key_cells cols row)"
proof -
  have "value_type (zero_value t) = t" for t by (cases t) simp_all
  then have "key_cell_ok (ts ! c) (clean_cell (row ! c))" if "c < length ts" for c
    using assms(1) [OF that] clean_cell_twice [of "row ! c"]
    by (cases "row ! c") (auto simp: key_cell_ok_def key_value_ok_def cell_weight_def null_cell_def)
  with assms(2) show ?thesis
    by (auto simp: key_ok_def key_cells_def list_all2_conv_all_nth list_all_length)
qed

section \<open>Draining the child\<close>

definition group_list :: "nat list \<Rightarrow> cell list list \<Rightarrow> cell list list" where
  "group_list cols rows = (if cols = [] then [[]] else rev (remdups (rev (map (key_cells cols) rows))))"

definition group_rows_of :: "nat list \<Rightarrow> cell list list \<Rightarrow> cell list \<Rightarrow> cell list list" where
  "group_rows_of cols rows k = filter (\<lambda>r. key_cells cols r = k) rows"

lemma group_list_snoc:
  "group_list cols (rows @ [r]) =
     (if key_cells cols r \<in> set (group_list cols rows) then group_list cols rows
      else group_list cols rows @ [key_cells cols r])"
  by (auto simp: group_list_def key_cells_def)

lemma group_list_distinct: "distinct (group_list cols rows)"
  by (simp add: group_list_def)

lemma group_rows_of_snoc:
  "group_rows_of cols (rows @ [r]) k = group_rows_of cols rows k @ (if key_cells cols r = k then [r] else [])"
  by (simp add: group_rows_of_def)

lemma group_rows_of_new:
  assumes "k \<notin> set (group_list cols rows)"
  shows "group_rows_of cols rows k = []"
proof (cases "cols = []")
  case True
  then show ?thesis using assms by (auto simp: group_list_def group_rows_of_def key_cells_def filter_empty_conv)
next
  case False
  then show ?thesis using assms by (auto simp: group_list_def group_rows_of_def filter_empty_conv)
qed

definition typed_row :: "TypeId list \<Rightarrow> cell list \<Rightarrow> bool" where
  "typed_row ts row = (length row = length ts \<and>
     (\<forall>c < length ts. value_type (fst (row ! c)) = ts ! c \<and> cell_weight (row ! c) < 2 ^ 32))"

definition aggregate_fits :: "cell list list \<Rightarrow> bool" where
  "aggregate_fits rows = (length rows < 2 ^ 31 \<and> list_all (list_all (\<lambda>x. cell_weight x < 2 ^ 32)) rows)"

definition aggregate_accepts :: "TypeId list \<Rightarrow> nat list \<Rightarrow> AggregateSpec list \<Rightarrow> DataChunk \<Rightarrow> bool" where
  "aggregate_accepts ts cols specs dc =
     (chunk_types dc = ts \<and> list_all (\<lambda>c. c < length ts) cols \<and> list_all (spec_ok ts) specs)"

definition groups_hold :: "nat list \<Rightarrow> AggregateSpec list \<Rightarrow> cell list list \<Rightarrow> AggregationOperator \<Rightarrow> bool" where
  "groups_hold cols specs rows ao =
     (ao_group_order ao = map key_enc (group_list cols rows) \<and>
      (\<forall>k \<in> set (group_list cols rows). ao_display_values ao (key_enc k) = Some (map cell_value k) \<and>
         ao_accumulators ao (key_enc k) = Some (map (\<lambda>spec. accumulated spec (group_rows_of cols rows k)) specs)) \<and>
      (\<forall>b. b \<notin> key_enc ` set (group_list cols rows) \<longrightarrow> ao_accumulators ao b = None))"

definition drained_from ::
    "TypeId list \<Rightarrow> nat list \<Rightarrow> TypeId list \<Rightarrow> AggregateSpec list \<Rightarrow> cell list list \<Rightarrow> AggregationOperator \<Rightarrow> bool" where
  "drained_from ts cols gts specs rows ao =
     (ao_group_by_columns ao = cols \<and> ao_group_by_types ao = gts \<and> ao_aggregates ao = specs \<and> ao_drained ao \<and>
      ao_emit_cursor ao = 0 \<and> list_all (typed_row ts) rows \<and> groups_hold cols specs rows ao)"

lemma chunk_row_typed:
  assumes "chunk_inv dc" and "i < dc_row_count dc" and "list_all (\<lambda>x. cell_weight x < 2 ^ 32) (chunk_row dc i)"
  shows "typed_row (chunk_types dc) (chunk_row dc i)"
proof -
  have "value_type (fst (chunk_row dc i ! c)) = chunk_types dc ! c" if c: "c < length (chunk_types dc)" for c
  proof -
    obtain col where col: "i < length (col_cells col)" "column_type col = chunk_types dc ! c" "col_cells col ! i = chunk_row dc i ! c"
      using chunk_column [OF assms(1) c assms(2)] by blast
    with col_cells_typed [OF nth_mem [OF col(1)]] show ?thesis by simp
  qed
  with assms(3) show ?thesis by (simp add: typed_row_def list_all_length)
qed

lemma group_keys_ok:
  assumes "list_all (typed_row ts) rows" and "list_all (\<lambda>c. c < length ts) cols" and "k \<in> set (group_list cols rows)"
  shows "key_ok (map ((!) ts) cols) k"
proof (cases "cols = []")
  case True
  with assms(3) show ?thesis by (simp add: group_list_def key_ok_def)
next
  case False
  with assms(3) obtain r where "r \<in> set rows" "k = key_cells cols r" by (auto simp: group_list_def)
  with key_ok_row [OF _ assms(2), of r] assms(1) show ?thesis by (auto simp: list_all_iff typed_row_def)
qed

lemma accumulate_group:
  assumes "chunk_inv dc" and "i < dc_row_count dc" and "list_all (spec_ok (chunk_types dc)) specs" and "length rows < 2 ^ 31"
  shows "rmap (\<lambda>(acc, spec). AccumulateRow acc dc i spec) (zip (map (\<lambda>spec. accumulated spec rows) specs) specs) =
    Inr (map (\<lambda>spec. accumulated spec (rows @ [chunk_row dc i])) specs)"
  using assms(3) AccumulateRow_spec [OF assms(1,2) _ assms(4)] by (induction specs) simp_all

lemma aggregate_row_run:
  assumes "rfold (key_column dc i) (ao_group_by_columns ao) ([], []) = Inr (key, vs)" and "ao_group_by_columns ao = [] \<Longrightarrow> key = []"
    and "ao1 = (if ao_accumulators ao key = None then add_group key vs ao else ao)"
    and "rmap (\<lambda>(acc, spec). AccumulateRow acc dc i spec) (zip (the (ao_accumulators ao1 key)) (ao_aggregates ao1)) = Inr accs"
  shows "aggregate_row dc i ao = (Inr (), ao1\<lparr>ao_accumulators := (ao_accumulators ao1)(key \<mapsto> accs)\<rparr>)"
proof -
  have "(if ao_group_by_columns ao = [] then [] else key) = key" using assms(2) by simp
  then show ?thesis
    by (simp only: aggregate_row_def assms(1) sum.case prod.case Let_def assms(3) [symmetric] assms(4))
qed

lemma aggregate_row_spec:
  assumes acc: "aggregate_accepts ts cols specs dc" and inv: "chunk_inv dc" and i: "i < dc_row_count dc"
    and fits: "aggregate_fits (rows @ [chunk_row dc i])" and d: "drained_from ts cols gts specs rows ao"
  shows "\<exists>ao'. aggregate_row dc i ao = (Inr (), ao') \<and> drained_from ts cols gts specs (rows @ [chunk_row dc i]) ao'"
proof -
  let ?r = "chunk_row dc i" and ?gs = "group_list cols rows"
  let ?k = "key_cells cols ?r"
  have ts: "chunk_types dc = ts" and cols: "list_all (\<lambda>c. c < length ts) cols" and specs: "list_all (spec_ok ts) specs"
    using acc by (simp_all add: aggregate_accepts_def)
  have typed: "typed_row ts ?r" using chunk_row_typed [OF inv i] fits ts by (simp add: aggregate_fits_def)
  have rows: "list_all (typed_row ts) rows" "groups_hold cols specs rows ao" using d by (simp_all add: drained_from_def)
  have key: "rfold (key_column dc i) (ao_group_by_columns ao) ([], []) = Inr (key_enc ?k, map cell_value ?k)"
    using key_columns_spec [OF inv i, of cols "[]" "[]"] cols ts d by (simp add: drained_from_def)
  have k_ok: "key_ok (map ((!) ts) cols) ?k" using key_ok_row [OF _ cols, of ?r] typed by (simp add: typed_row_def)
  have same: "key_enc k = key_enc ?k \<longleftrightarrow> k = ?k" if "k \<in> set ?gs" for k
    using key_enc_inject [OF group_keys_ok [OF rows(1) cols that] k_ok] by auto
  have empty: "cols = [] \<Longrightarrow> key_enc ?k = []" by (simp add: key_cells_def key_enc_def)
  define ao1 where "ao1 = (if ?k \<in> set ?gs then ao else add_group (key_enc ?k) (map cell_value ?k) ao)"
  have new: "ao_accumulators ao (key_enc ?k) = None \<longleftrightarrow> ?k \<notin> set ?gs"
  proof
    show "?k \<notin> set ?gs" if "ao_accumulators ao (key_enc ?k) = None" using that rows(2) by (auto simp: groups_hold_def)
    assume "?k \<notin> set ?gs"
    then have "key_enc ?k \<notin> key_enc ` set ?gs" using same by (metis imageE)
    then show "ao_accumulators ao (key_enc ?k) = None" using rows(2) by (auto simp: groups_hold_def)
  qed
  have accs: "ao_accumulators ao1 (key_enc ?k) = Some (map (\<lambda>spec. accumulated spec (group_rows_of cols rows ?k)) specs)"
    using rows(2) d by (auto simp: ao1_def add_group_def groups_hold_def drained_from_def group_rows_of_new accumulated_Nil)
  have "length (group_rows_of cols rows ?k) \<le> length rows" by (simp add: group_rows_of_def)
  then have "length (group_rows_of cols rows ?k) < 2 ^ 31" using fits by (simp add: aggregate_fits_def)
  note step = accumulate_group [OF inv i _ this, of specs, unfolded ts, OF specs]
  let ?ao = "ao1\<lparr>ao_accumulators := (ao_accumulators ao1)(key_enc ?k \<mapsto>
      map (\<lambda>spec. accumulated spec (group_rows_of cols rows ?k @ [?r])) specs)\<rparr>"
  have "ao_group_by_columns ao = cols" "ao_aggregates ao = specs" using d by (simp_all add: drained_from_def)
  moreover from this have "ao_aggregates ao1 = specs" by (simp add: ao1_def add_group_def)
  moreover have "ao1 = (if ao_accumulators ao (key_enc ?k) = None then add_group (key_enc ?k) (map cell_value ?k) ao else ao)"
    using new by (simp add: ao1_def)
  ultimately have "aggregate_row dc i ao = (Inr (), ?ao)"
    using key empty accs step by (intro aggregate_row_run) simp_all
  moreover have "groups_hold cols specs (rows @ [?r]) ?ao"
    using rows(2) same d
    by (auto simp: groups_hold_def ao1_def add_group_def group_list_snoc group_rows_of_snoc drained_from_def)
  ultimately show ?thesis
    using d typed by (auto simp: drained_from_def ao1_def add_group_def)
qed

interpretation aggregation: row_consumer aggregate_row "aggregate_accepts ts cols specs" aggregate_fits
  "drained_from ts cols gts specs" for ts cols gts specs
  by unfold_locales (rule aggregate_row_spec, assumption+, auto simp: aggregate_fits_def)

lemma Drain_spec:
  assumes "produces child s cs s'" and "\<And>c. c \<in> set cs \<Longrightarrow> chunk_inv c \<and> chunk_types c = ts"
    and "list_all (\<lambda>c. c < length ts) cols" and "list_all (spec_ok ts) specs"
    and "aggregate_fits (concat (map chunk_rows cs))" and "length cs < fuel"
  shows "\<exists>ao. Drain fuel child (MakeAggregationOperator cols gts specs, s) = (Inr (), (ao, s')) \<and>
    drained_from ts cols gts specs (concat (map chunk_rows cs)) ao"
proof -
  define start where "start = (let ao = (MakeAggregationOperator cols gts specs)\<lparr>ao_drained := True\<rparr>
    in if cols = [] then add_group [] [] ao else ao)"
  have "drained_from ts cols gts specs [] start"
    by (auto simp: start_def drained_from_def groups_hold_def MakeAggregationOperator_def add_group_def group_list_def
        group_rows_of_def key_enc_def accumulated_Nil Let_def)
  from aggregation.drain_rows [OF assms(1) _ _ this, of fuel] assms(2-6)
  obtain ao where "drain_child fuel child (each_selected aggregate_row) (start, s) = (Inr (), (ao, s'))"
    "drained_from ts cols gts specs (concat (map chunk_rows cs)) ao"
    by (auto simp: aggregate_accepts_def)
  moreover have "Drain fuel child (MakeAggregationOperator cols gts specs, s) =
      drain_child fuel child (each_selected aggregate_row) (start, s)"
    by (simp add: Drain_def start_def Let_def MakeAggregationOperator_def)
  ultimately show ?thesis by auto
qed

section \<open>Output builders\<close>

definition by_type :: "ColumnVariant list \<Rightarrow> OutputBuilders" where
  "by_type cols = (\<lambda>t. filter (\<lambda>c. column_type c = t) cols)"

definition type_counts :: "ColumnVariant list \<Rightarrow> TypeId \<Rightarrow> nat" where
  "type_counts cols = (\<lambda>t. length (by_type cols t))"

definition col_order :: "TypeId list \<Rightarrow> (TypeId \<times> nat) list" where
  "col_order ts = map (\<lambda>i. (ts ! i, length (filter (\<lambda>t. t = ts ! i) (take i ts)))) [0..<length ts]"

lemma col_order_snoc: "col_order (ts @ [t]) = col_order ts @ [(t, length (filter (\<lambda>u. u = t) ts))]"
  by (simp add: col_order_def nth_append)

lemma by_type_empty: "by_type (map EmptyColumn ts) t = replicate (length (filter (\<lambda>u. u = t) ts)) (EmptyColumn t)"
  by (induction ts) (simp_all add: by_type_def EmptyColumn_spec)

lemma builders_init:
  "fold add_builder ts (\<lambda>_. [], []) = (by_type (map EmptyColumn ts), col_order ts)"
proof (induction ts rule: rev_induct)
  case Nil
  then show ?case by (simp add: by_type_def col_order_def)
next
  case (snoc t ts)
  have "by_type (map EmptyColumn (ts @ [t])) = (by_type (map EmptyColumn ts))(t := by_type (map EmptyColumn ts) t @ [EmptyColumn t])"
    by (auto simp: by_type_def EmptyColumn_spec)
  moreover have "length (by_type (map EmptyColumn ts) t) = length (filter (\<lambda>u. u = t) ts)" by (simp add: by_type_empty)
  ultimately show ?case using snoc by (simp add: add_builder_def col_order_snoc fun_upd_def)
qed

definition append_flat :: "(TypeId \<times> ConstValue option) \<times> ColumnVariant \<Rightarrow> ColumnVariant result" where
  "append_flat = (\<lambda>((t, v), column). case v of None \<Rightarrow> col_AppendNull column | Some v \<Rightarrow> col_Append column v)"

lemma append_flat_type: "append_flat ((t, v), c) = Inr c' \<Longrightarrow> column_type c' = column_type c"
proof (cases v)
  case None
  assume "append_flat ((t, v), c) = Inr c'"
  with None show ?thesis by (cases c) (auto simp: append_flat_def result_simps)
next
  case (Some x)
  assume "append_flat ((t, v), c) = Inr c'"
  with Some show ?thesis by (cases c; cases x) (auto simp: append_flat_def result_simps)
qed

lemma append_output_flat:
  assumes "map fst outs = map column_type post"
  shows "rfold append_output outs (by_type (pre @ post), type_counts pre) =
    rbind (rmap append_flat (zip outs post)) (\<lambda>post'. Inr (by_type (pre @ post'), type_counts (pre @ post')))"
  using assms
proof (induction outs arbitrary: pre post)
  case (Cons out outs)
  then obtain t v c post1 where out: "out = (t, v)" "post = c # post1" "column_type c = t" "map fst outs = map column_type post1"
    by (cases out; cases post) auto
  have at: "vec_at (by_type (pre @ post) t) (type_counts pre t) = Inr c"
    by (simp add: out by_type_def type_counts_def vec_at_def nth_append)
  show ?case
  proof (cases "append_flat ((t, v), c)")
    case (Inl e)
    with at show ?thesis by (simp add: out append_output_def append_flat_def)
  next
    case (Inr c')
    have ty: "column_type c' = t" using append_flat_type [OF Inr] out(3) by simp
    have "(by_type (pre @ post))(t := (by_type (pre @ post) t)[type_counts pre t := c']) = by_type ((pre @ [c']) @ post1)"
      using ty out by (auto simp: by_type_def type_counts_def fun_eq_iff list_update_append)
    moreover have "(type_counts pre)(t := type_counts pre t + 1) = type_counts (pre @ [c'])"
      using ty by (auto simp: type_counts_def by_type_def fun_eq_iff)
    ultimately have "rfold append_output (out # outs) (by_type (pre @ post), type_counts pre) =
        rfold append_output outs (by_type ((pre @ [c']) @ post1), type_counts (pre @ [c']))"
      using at Inr by (simp add: out(1) append_output_def append_flat_def)
    also have "\<dots> = rbind (rmap append_flat (zip outs post1))
        (\<lambda>post'. Inr (by_type ((pre @ [c']) @ post'), type_counts ((pre @ [c']) @ post')))"
      by (rule Cons.IH [OF out(4)])
    finally show ?thesis using Inr by (simp add: out(1,2) rbind_assoc)
  qed
qed simp

lemma nth_filter_position:
  assumes "i < length xs" and "P (xs ! i)"
  shows "vec_at (filter P xs) (length (filter P (take i xs))) = Inr (xs ! i)"
proof -
  have "filter P xs = filter P (take i xs) @ xs ! i # filter P (drop (Suc i) xs)"
    using assms by (metis filter.simps(2) filter_append id_take_nth_drop)
  then show ?thesis by (simp add: vec_at_def nth_append)
qed

lemma rfold_map: "rfold f (map h xs) s = rfold (\<lambda>x. f (h x)) xs s"
  by (induction xs arbitrary: s) (auto intro!: arg_cong2 [of _ _ _ _ rbind])

lemma add_ordered_columns:
  assumes "map column_type cols = ts"
  shows "rfold (\<lambda>(t, index) output. rbind (vec_at (by_type cols t) index) (dc_AddColumn output)) (col_order ts) out =
    rfold (\<lambda>c output. dc_AddColumn output c) cols out"
proof -
  have at: "vec_at (by_type cols (ts ! i)) (length (filter (\<lambda>t. t = ts ! i) (take i ts))) = Inr (cols ! i)" if "i < length ts" for i
  proof -
    have "filter (\<lambda>t. t = ts ! i) (take i ts) = map column_type (filter (\<lambda>c. column_type c = ts ! i) (take i cols))"
      unfolding assms [symmetric] take_map by (simp add: filter_map comp_def)
    then show ?thesis
      using nth_filter_position [of i cols "\<lambda>c. column_type c = ts ! i"] that assms by (auto simp: by_type_def)
  qed
  have "rfold (\<lambda>(t, index) output. rbind (vec_at (by_type cols t) index) (dc_AddColumn output)) (col_order ts) out =
      rfold (\<lambda>i output. dc_AddColumn output (cols ! i)) [0..<length ts] out"
    unfolding col_order_def rfold_map by (rule rfold_cong) (simp_all add: at)
  also have "\<dots> = rfold (\<lambda>c output. dc_AddColumn output c) (map ((!) cols) [0..<length cols]) out"
    using assms by (simp add: rfold_map flip: length_map [of column_type])
  finally show ?thesis by (simp add: map_nth)
qed

section \<open>Emitting the groups\<close>

fun output_cell :: "TypeId \<times> ConstValue option \<Rightarrow> cell" where
  "output_cell (t, None) = null_cell t"
| "output_cell (t, Some v) = (v, True)"

text \<open>The value of an aggregate over the rows of a group.\<close>

definition aggregate_cell :: "AggregateSpec \<Rightarrow> cell list list \<Rightarrow> cell" where
  "aggregate_cell spec rows = output_cell (aggregate_output (accumulated spec rows, spec))"

definition group_row :: "nat list \<Rightarrow> AggregateSpec list \<Rightarrow> cell list list \<Rightarrow> cell list \<Rightarrow> cell list" where
  "group_row cols specs rows k = k @ map (\<lambda>spec. aggregate_cell spec (group_rows_of cols rows k)) specs"

lemma aggregate_output_type:
  assumes "spec_ok ts spec"
  shows "fst (aggregate_output (accumulated spec rows, spec)) = aggregate_type spec"
  using assms
  by (cases "ag_function spec"; cases "ag_argument_type spec")
    (auto simp: aggregate_output_def accumulated_def aggregate_type_def spec_ok_def Let_def split: option.splits)

lemma aggregate_output_value:
  assumes "spec_ok ts spec"
  shows "case snd (aggregate_output (accumulated spec rows, spec)) of None \<Rightarrow> True | Some v \<Rightarrow> value_type v = aggregate_type spec"
  using assms
  by (cases "ag_function spec"; cases "ag_argument_type spec")
    (auto simp: aggregate_output_def accumulated_def aggregate_type_def spec_ok_def Let_def split: option.splits)

definition out_value_ok :: "TypeId \<Rightarrow> TypeId \<times> ConstValue option \<Rightarrow> bool" where
  "out_value_ok t = (\<lambda>(u, v). u = t \<and> (case v of None \<Rightarrow> True | Some v \<Rightarrow> value_type v = t))"

lemma aggregate_out_ok: "spec_ok ts spec \<Longrightarrow> out_value_ok (aggregate_type spec) (aggregate_output (accumulated spec rows, spec))"
  using aggregate_output_type [of ts spec rows] aggregate_output_value [of ts spec rows]
  by (simp add: out_value_ok_def split_beta)

lemma group_out_ok:
  assumes "key_cell_ok t x"
  shows "out_value_ok t (group_output (t, cell_value x))" "output_cell (group_output (t, cell_value x)) = x"
  using assms by (cases x; auto simp: key_cell_ok_def key_value_ok_def group_output_def out_value_ok_def null_cell_def)+

lemma append_flat_appends:
  assumes "col_inv c" and "out_value_ok (column_type c) out"
  shows "appends (append_flat (out, c)) c (output_cell out)"
proof (cases out)
  case (Pair t v)
  with append_value_appends [OF assms(1), of v] assms(2) show ?thesis
    by (cases v) (simp_all add: append_flat_def out_value_ok_def)
qed

lemma rmap_map: "rmap f (map g xs) = rmap (\<lambda>x. f (g x)) xs"
  by (induction xs) simp_all

lemma rmap_zip_enumerate:
  assumes "length xs = length ys"
  shows "rmap g (zip xs ys) = rmap (\<lambda>(i, y). g (xs ! i, y)) (List.enumerate 0 ys)"
proof -
  have "zip xs ys = map (\<lambda>(i, y). (xs ! i, y)) (List.enumerate 0 ys)"
    using assms by (intro nth_equalityI) (simp_all add: nth_enumerate_eq)
  then show ?thesis by (simp add: rmap_map case_prod_beta')
qed

lemma flat_row:
  assumes hold: "cols_hold ts done cols" and outs: "list_all2 out_value_ok ts outs"
    and room: "\<And>c. c < length ts \<Longrightarrow> column_weight c (done @ [map output_cell outs]) < varchar_capacity"
  shows "\<exists>cols'. rmap append_flat (zip outs cols) = Inr cols' \<and> cols_hold ts (done @ [map output_cell outs]) cols'"
proof -
  have len: "length outs = length ts" "length cols = length ts"
    using outs hold by (simp_all add: list_all2_lengthD cols_hold_def)
  have "\<exists>cols'. rmap (\<lambda>(i, c). append_flat (outs ! i, c)) (List.enumerate 0 cols) = Inr cols' \<and>
      cols_hold ts (done @ [map output_cell outs]) cols'"
  proof (rule cols_hold_extend [OF hold _ room])
    fix c assume c: "c < length ts"
    show "appends (case (c, cols ! c) of (i, c) \<Rightarrow> append_flat (outs ! i, c)) (cols ! c) (map output_cell outs ! c)"
      using append_flat_appends [of "cols ! c" "outs ! c"] hold outs c len
      by (simp add: cols_hold_def list_all2_conv_all_nth)
  qed
  then show ?thesis using rmap_zip_enumerate [of outs cols append_flat] len by simp
qed

definition group_outputs :: "nat list \<Rightarrow> TypeId list \<Rightarrow> AggregateSpec list \<Rightarrow> cell list list \<Rightarrow> cell list \<Rightarrow>
    (TypeId \<times> ConstValue option) list" where
  "group_outputs cols gts specs rows k =
     map group_output (zip gts (map cell_value k)) @
     map aggregate_output (zip (map (\<lambda>spec. accumulated spec (group_rows_of cols rows k)) specs) specs)"

lemma zip_map_same: "zip (map f xs) xs = map (\<lambda>x. (f x, x)) xs"
  by (induction xs) simp_all

lemma group_outputs_ok:
  assumes "key_ok gts k" and "list_all (spec_ok ts) specs"
  shows "list_all2 out_value_ok (gts @ map aggregate_type specs) (group_outputs cols gts specs rows k)"
    "map output_cell (group_outputs cols gts specs rows k) = group_row cols specs rows k"
proof -
  have k: "list_all2 out_value_ok gts (map group_output (zip gts (map cell_value k)))"
    "map output_cell (map group_output (zip gts (map cell_value k))) = k"
    using assms(1) unfolding key_ok_def by (induction rule: list_all2_induct) (simp_all add: group_out_ok)
  have "list_all2 out_value_ok (map aggregate_type specs)
      (map aggregate_output (zip (map (\<lambda>spec. accumulated spec (group_rows_of cols rows k)) specs) specs))"
    using assms(2) aggregate_out_ok [of ts]
    by (simp add: zip_map_same list_all2_map1 list_all2_map2 list_all_iff list.rel_refl_strong)
  with k show "list_all2 out_value_ok (gts @ map aggregate_type specs) (group_outputs cols gts specs rows k)"
    unfolding group_outputs_def by (intro list_all2_appendI)
  show "map output_cell (group_outputs cols gts specs rows k) = group_row cols specs rows k"
    unfolding group_outputs_def map_append k(2) by (simp add: group_row_def zip_map_same aggregate_cell_def)
qed

text \<open>A drained operator that has emitted some groups already.\<close>

definition emitting ::
    "TypeId list \<Rightarrow> nat list \<Rightarrow> AggregateSpec list \<Rightarrow> cell list list \<Rightarrow> AggregationOperator \<Rightarrow> bool" where
  "emitting ts cols specs rows ao =
     (drained_from ts cols (map ((!) ts) cols) specs rows (ao\<lparr>ao_emit_cursor := 0\<rparr>) \<and>
      list_all (\<lambda>c. c < length ts) cols \<and> list_all (spec_ok ts) specs \<and>
      (\<forall>k \<in> set (group_list cols rows). light (group_row cols specs rows k)) \<and>
      ao_emit_cursor ao \<le> length (group_list cols rows))"

definition aggregate_types :: "TypeId list \<Rightarrow> nat list \<Rightarrow> AggregateSpec list \<Rightarrow> TypeId list" where
  "aggregate_types ts cols specs = map ((!) ts) cols @ map aggregate_type specs"

lemma emittingD:
  assumes "emitting ts cols specs rows ao"
  shows "list_all (\<lambda>c. c < length ts) cols" "list_all (spec_ok ts) specs" "list_all (typed_row ts) rows"
    "ao_group_by_types ao = map ((!) ts) cols" "ao_aggregates ao = specs" "ao_drained ao"
    "ao_group_order ao = map key_enc (group_list cols rows)" "ao_emit_cursor ao \<le> length (group_list cols rows)"
    "\<And>k. k \<in> set (group_list cols rows) \<Longrightarrow> ao_display_values ao (key_enc k) = Some (map cell_value k) \<and>
      ao_accumulators ao (key_enc k) = Some (map (\<lambda>spec. accumulated spec (group_rows_of cols rows k)) specs)"
    "\<And>k. k \<in> set (group_list cols rows) \<Longrightarrow> light (group_row cols specs rows k)"
  using assms by (simp_all add: emitting_def drained_from_def groups_hold_def)

lemma emit_group_spec:
  assumes em: "emitting ts cols specs rows ao" and k: "k \<in> set (group_list cols rows)"
    and hold: "cols_hold (aggregate_types ts cols specs) done out"
    and ok: "\<And>r. r \<in> set done \<Longrightarrow> light r \<and> length r = length (aggregate_types ts cols specs)" and n: "length done < kVectorSize"
  shows "\<exists>out'. emit_group ao (key_enc k) (by_type out) = Inr (by_type out') \<and>
    cols_hold (aggregate_types ts cols specs) (done @ [group_row cols specs rows k]) out'"
proof -
  note em = emittingD [OF em]
  let ?gts = "map ((!) ts) cols" and ?outs = "group_outputs cols (map ((!) ts) cols) specs rows k" and ?T = "aggregate_types ts cols specs"
  have key: "key_ok ?gts k" by (rule group_keys_ok [OF em(3,1) k])
  note outs = group_outputs_ok [OF key em(2), of cols rows]
  have len: "length k = length cols" using key by (simp add: key_ok_def list_all2_lengthD [symmetric])
  have row_len: "length (group_row cols specs rows k) = length ?T" by (simp add: group_row_def aggregate_types_def len)
  have "column_weight c (done @ [group_row cols specs rows k]) < varchar_capacity" if "c < length ?T" for c
    by (rule light_column_weight) (use ok n em(10) [OF k] row_len that in \<open>auto simp: list_all_iff\<close>)
  then obtain out' where out': "rmap append_flat (zip ?outs out) = Inr out'"
    "cols_hold ?T (done @ [group_row cols specs rows k]) out'"
    using flat_row [OF hold, of ?outs] outs by (auto simp: aggregate_types_def)
  have "map fst ?outs = ?T"
    using outs(1) by (auto simp: aggregate_types_def list_all2_conv_all_nth out_value_ok_def split_beta intro!: nth_equalityI)
  also have "?T = map column_type out" using hold by (auto simp: cols_hold_def intro!: nth_equalityI)
  finally have "rfold append_output ?outs (by_type out, \<lambda>_. 0) = Inr (by_type out', type_counts out')"
    using append_output_flat [of ?outs out "[]"] out'(1) by (simp add: type_counts_def by_type_def [of "[]"])
  then have "emit_group ao (key_enc k) (by_type out) = Inr (by_type out')"
    using em(9) [OF k] em(4,5) len by (simp add: emit_group_def group_outputs_def)
  with out'(2) show ?thesis by blast
qed

lemma emit_loop:
  assumes em: "emitting ts cols specs rows ao" and b: "ao_emit_cursor ao + b \<le> length (group_list cols rows)" and bv: "b \<le> kVectorSize"
  defines "batch \<equiv> \<lambda>j. map (group_row cols specs rows) (take j (drop (ao_emit_cursor ao) (group_list cols rows)))"
  shows "\<exists>out. rfold (\<lambda>i builders. rbind (vec_at (ao_group_order ao) (ao_emit_cursor ao + i))
      (\<lambda>key. emit_group ao key builders)) [0..<b] (by_type (map EmptyColumn (aggregate_types ts cols specs))) = Inr (by_type out) \<and>
    cols_hold (aggregate_types ts cols specs) (batch b) out"
  using b bv
proof (induction b)
  case 0
  then show ?case by (auto simp: batch_def intro: cols_hold_empty)
next
  case (Suc b)
  then obtain out where out: "rfold (\<lambda>i builders. rbind (vec_at (ao_group_order ao) (ao_emit_cursor ao + i))
      (\<lambda>key. emit_group ao key builders)) [0..<b] (by_type (map EmptyColumn (aggregate_types ts cols specs))) = Inr (by_type out)"
    "cols_hold (aggregate_types ts cols specs) (batch b) out" by auto
  note emD = emittingD [OF em]
  let ?k = "group_list cols rows ! (ao_emit_cursor ao + b)"
  have k: "?k \<in> set (group_list cols rows)" and at: "vec_at (ao_group_order ao) (ao_emit_cursor ao + b) = Inr (key_enc ?k)"
    using Suc.prems emD(7) by simp_all
  have "light r \<and> length r = length (aggregate_types ts cols specs)" if r: "r \<in> set (batch b)" for r
  proof -
    obtain k where k: "k \<in> set (group_list cols rows)" "r = group_row cols specs rows k"
      using r by (auto simp: batch_def dest: in_set_takeD in_set_dropD)
    from group_keys_ok [OF emD(3,1) k(1)] have "length k = length cols" by (simp add: key_ok_def list_all2_lengthD [symmetric])
    with emD(10) [OF k(1)] k(2) show ?thesis by (simp add: group_row_def aggregate_types_def)
  qed
  moreover have "length (batch b) < kVectorSize" using Suc.prems by (simp add: batch_def)
  ultimately obtain out' where "emit_group ao (key_enc ?k) (by_type out) = Inr (by_type out')"
    "cols_hold (aggregate_types ts cols specs) (batch b @ [group_row cols specs rows ?k]) out'"
    using emit_group_spec [OF em k out(2)] by blast
  moreover have "batch (Suc b) = batch b @ [group_row cols specs rows ?k]"
    using Suc.prems(1) by (simp add: batch_def take_Suc_conv_app_nth)
  ultimately show ?case using out(1) at by (auto simp: rfold_append)
qed

lemma EmitBatch_spec:
  assumes em: "emitting ts cols specs rows ao"
  defines "b \<equiv> min kVectorSize (length (group_list cols rows) - ao_emit_cursor ao)"
  shows "\<exists>dc. EmitBatch ao = Inr (dc, ao\<lparr>ao_emit_cursor := ao_emit_cursor ao + b\<rparr>) \<and> chunk_inv dc \<and>
    chunk_types dc = aggregate_types ts cols specs \<and>
    chunk_rows dc = map (group_row cols specs rows) (take kVectorSize (drop (ao_emit_cursor ao) (group_list cols rows)))"
proof -
  let ?T = "aggregate_types ts cols specs" and ?c = "ao_emit_cursor ao" and ?gs = "group_list cols rows"
  let ?rows = "map (group_row cols specs rows) (take b (drop ?c ?gs))"
  note emD = emittingD [OF em]
  have "?c + b \<le> length ?gs" "b \<le> kVectorSize" using emD(8) by (simp_all add: b_def)
  from emit_loop [OF em this] obtain out where
    out: "rfold (\<lambda>i builders. rbind (vec_at (ao_group_order ao) (?c + i)) (\<lambda>key. emit_group ao key builders)) [0..<b]
        (by_type (map EmptyColumn ?T)) = Inr (by_type out)" "cols_hold ?T ?rows out" by blast
  have len: "length r = length ?T" if r: "r \<in> set ?rows" for r
  proof -
    obtain k where k: "k \<in> set ?gs" "r = group_row cols specs rows k"
      using r by (auto dest: in_set_takeD in_set_dropD)
    from group_keys_ok [OF emD(3,1) k(1)] have "length k = length cols" by (simp add: key_ok_def list_all2_lengthD [symmetric])
    with k(2) show ?thesis by (simp add: group_row_def aggregate_types_def)
  qed
  have n: "length ?rows = b" by (simp add: b_def)
  obtain dc where dc: "rbind (MakeDataChunk b) (rfold (\<lambda>c output. dc_AddColumn output c) out) = Inr dc" "chunk_inv dc"
    "chunk_types dc = ?T" "chunk_rows dc = ?rows"
    using chunk_of_columns [OF out(2) len] n by (auto simp: b_def)
  have "map column_type out = ?T" using out(2) by (auto simp: cols_hold_def intro!: nth_equalityI)
  then have "EmitBatch ao = Inr (dc, ao\<lparr>ao_emit_cursor := ?c + b\<rparr>)"
    using dc(1) out(1) emD(4,5,7) builders_init [of ?T]
    by (auto simp: EmitBatch_def aggregate_types_def b_def add_ordered_columns result_simps Let_def)
  moreover have "take b (drop ?c ?gs) = take kVectorSize (drop ?c ?gs)" by (simp add: b_def min_def)
  ultimately show ?thesis using dc(2-4) by auto
qed

section \<open>The output of aggregation\<close>

definition group_by :: "nat list \<Rightarrow> AggregateSpec list \<Rightarrow> cell list list \<Rightarrow> cell list list" where
  "group_by cols specs rows = map (group_row cols specs rows) (group_list cols rows)"

lemma zone_of_bounds:
  fixes vs :: "string list"
  shows "zm_has_values (zone_of (<) [] vs) = (vs \<noteq> [])"
    "vs \<noteq> [] \<Longrightarrow> zm_min (zone_of (<) [] vs) \<in> set vs \<and> zm_max (zone_of (<) [] vs) \<in> set vs"
  using string_order.zone_covers_fold [of "[]" vs "EmptyZoneMap []"] string_order.zone_covers_empty [of "[]"]
  unfolding string_order.zone_covers_def zone_of_def by (simp_all add: list_all_iff)

lemma argument_value_weight:
  assumes "list_all light rows" and "v \<in> set (argument_values spec rows)" and "spec_ok ts spec" and "list_all (typed_row ts) rows"
    and "ag_function spec \<noteq> kCountStar"
  shows "value_weight v < 2 ^ 21"
proof -
  obtain c r where c: "c < length ts" "r \<in> set rows" "fst (r ! c) = v"
    using assms(2,3,5) by (auto simp: argument_values_def valid_values_def spec_ok_def split: option.splits)
  then have "c < length r" "light r" using assms(1,4) by (auto simp: list_all_iff typed_row_def)
  with c(3) show ?thesis by (auto simp: light_def list_all_length cell_weight_def)
qed

lemma aggregate_cell_light:
  assumes "list_all light rows" and "spec_ok ts spec" and "list_all (typed_row ts) rows"
  shows "cell_weight (aggregate_cell spec rows) < 2 ^ 21"
proof -
  let ?ss = "map string_value (argument_values spec rows)"
  have str: "length s < 2 ^ 21" if "s \<in> set ?ss" "ag_function spec \<noteq> kCountStar" for s
  proof -
    from that(1) obtain v where v: "v \<in> set (argument_values spec rows)" "s = string_value v" by auto
    with argument_value_weight [OF assms(1) v(1) assms(2,3) that(2)] show ?thesis by (cases v) auto
  qed
  show ?thesis
    using zone_of_bounds [of ?ss] str
    by (cases "ag_function spec"; cases "ag_argument_type spec")
      (auto simp: aggregate_cell_def aggregate_output_def accumulated_def cell_weight_def null_cell_def zone_mv_def
        min_or_max_def Let_def)
qed

lemma group_row_light:
  assumes "list_all light rows" and "list_all (spec_ok ts) specs" and "list_all (typed_row ts) rows"
    and "list_all (\<lambda>c. c < length ts) cols" and k: "k \<in> set (group_list cols rows)"
  shows "light (group_row cols specs rows k)"
proof -
  have "list_all light (group_rows_of cols rows k)" "list_all (typed_row ts) (group_rows_of cols rows k)"
    using assms(1,3) by (auto simp: group_rows_of_def list_all_iff)
  then have aggs: "cell_weight (aggregate_cell spec (group_rows_of cols rows k)) < 2 ^ 21" if "spec \<in> set specs" for spec
    using aggregate_cell_light assms(2) that by (auto simp: list_all_iff)
  have "light k"
  proof (cases "cols = []")
    case True
    with k show ?thesis by (simp add: group_list_def light_def)
  next
    case False
    with k obtain r where r: "r \<in> set rows" "k = key_cells cols r" by (auto simp: group_list_def)
    have "cell_weight (clean_cell (r ! c)) < 2 ^ 21" if "c \<in> set cols" for c
      by (rule le_less_trans [OF clean_cell_weight]) (use r(1) assms(1,3,4) that in \<open>auto simp: list_all_iff typed_row_def light_def\<close>)
    then show ?thesis by (simp add: r(2) light_def key_cells_def list_all_iff)
  qed
  with aggs show ?thesis by (auto simp: light_def group_row_def list_all_iff)
qed

definition aggregated_chunk :: "TypeId list \<Rightarrow> nat list \<Rightarrow> AggregateSpec list \<Rightarrow> DataChunk \<Rightarrow> bool" where
  "aggregated_chunk ts cols specs dc = (chunk_inv dc \<and> chunk_types dc = aggregate_types ts cols specs)"

lemma emit_produces:
  assumes "emitting ts cols specs rows ao"
  shows "\<exists>cs ao'. produces (Aggregation_GetNext fuel child) (ao, s) cs (ao', s) \<and>
    list_all (aggregated_chunk ts cols specs) cs \<and>
    concat (map chunk_rows cs) = map (group_row cols specs rows) (drop (ao_emit_cursor ao) (group_list cols rows))"
  using assms
proof (induction "length (group_list cols rows) - ao_emit_cursor ao" arbitrary: ao rule: less_induct)
  case less
  let ?gs = "group_list cols rows" and ?c = "ao_emit_cursor ao" and ?get = "Aggregation_GetNext fuel child"
  note em = emittingD [OF less.prems]
  have order: "length (ao_group_order ao) = length ?gs" using em(7) by simp
  show ?case
  proof (cases "?c = length ?gs")
    case True
    then have "?get (ao, s) = (Inr None, (ao, s))"
      using em(6) order by (simp add: Aggregation_GetNext_def sbind_def)
    then have "produces ?get (ao, s) [] (ao, s)" by (rule produces.exhausted)
    with True show ?thesis by (intro exI [of _ "[]"] exI [of _ ao]) simp
  next
    case False
    then have c: "?c < length ?gs" using em(8) by simp
    define ao1 where "ao1 = ao\<lparr>ao_emit_cursor := ?c + min kVectorSize (length ?gs - ?c)\<rparr>"
    obtain dc where dc: "EmitBatch ao = Inr (dc, ao1)" "aggregated_chunk ts cols specs dc"
      "chunk_rows dc = map (group_row cols specs rows) (take kVectorSize (drop ?c ?gs))"
      using EmitBatch_spec [OF less.prems] unfolding ao1_def aggregated_chunk_def by blast
    have step: "?get (ao, s) = (Inr (Some dc), (ao1, s))"
      using em(6) order c dc(1) by (simp add: Aggregation_GetNext_def sbind_def)
    have "emitting ts cols specs rows ao1" using less.prems c by (simp add: emitting_def ao1_def)
    moreover have "length ?gs - ao_emit_cursor ao1 < length ?gs - ?c"
      using c by (simp add: ao1_def kVectorSize_def)
    ultimately obtain cs ao' where cs: "produces ?get (ao1, s) cs (ao', s)" "list_all (aggregated_chunk ts cols specs) cs"
      "concat (map chunk_rows cs) = map (group_row cols specs rows) (drop (ao_emit_cursor ao1) ?gs)"
      using less.hyps by blast
    have "drop (ao_emit_cursor ao1) ?gs = drop kVectorSize (drop ?c ?gs)"
      by (simp add: ao1_def min_def add.commute)
    then have "concat (map chunk_rows (dc # cs)) = map (group_row cols specs rows) (drop ?c ?gs)"
      using dc(3) cs(3) by (simp del: drop_drop flip: map_append)
    with produces.next_chunk [where get_next = ?get, OF step cs(1)] dc(2) cs(2) show ?thesis
      by (intro exI [of _ "dc # cs"] exI [of _ ao']) simp
  qed
qed

theorem aggregation_produces:
  assumes child: "produces child s cs s'" "\<And>c. c \<in> set cs \<Longrightarrow> chunk_inv c \<and> chunk_types c = ts"
    and cols: "list_all (\<lambda>c. c < length ts) cols" and specs: "list_all (spec_ok ts) specs"
  defines "rows \<equiv> concat (map chunk_rows cs)"
  assumes n: "length rows < 2 ^ 31" and li: "list_all light rows" and fuel: "length cs < fuel"
  shows "\<exists>ds ao. produces (Aggregation_GetNext fuel child) (MakeAggregationOperator cols (map ((!) ts) cols) specs, s) ds (ao, s') \<and>
    list_all (aggregated_chunk ts cols specs) ds \<and> concat (map chunk_rows ds) = group_by cols specs rows"
proof -
  let ?start = "MakeAggregationOperator cols (map ((!) ts) cols) specs" and ?get = "Aggregation_GetNext fuel child"
  have "aggregate_fits rows" using n li by (fastforce simp: aggregate_fits_def light_def list_all_iff)
  then obtain ao where ao: "Drain fuel child (?start, s) = (Inr (), (ao, s'))"
    "drained_from ts cols (map ((!) ts) cols) specs rows ao"
    using Drain_spec [OF child cols specs, of fuel "map ((!) ts) cols"] fuel unfolding rows_def by blast
  have typed: "list_all (typed_row ts) rows" and cursor: "ao_emit_cursor ao = 0" "ao_drained ao"
    using ao(2) by (simp_all add: drained_from_def)
  have "emitting ts cols specs rows ao"
    using ao(2) cursor cols specs group_row_light [OF li specs typed cols]
    by (simp add: emitting_def drained_from_def groups_hold_def)
  from emit_produces [OF this, of fuel child s'] cursor obtain ds ao' where
    ds: "produces ?get (ao, s') ds (ao', s')" "list_all (aggregated_chunk ts cols specs) ds"
    "concat (map chunk_rows ds) = group_by cols specs rows"
    by (auto simp: group_by_def)
  have "\<not> ao_drained ?start" by (simp add: MakeAggregationOperator_def)
  then have "?get (?start, s) = ?get (ao, s')"
    using ao(1) cursor(2) by (simp add: Aggregation_GetNext_def sbind_def)
  with ds show ?thesis using produces_same_start by metis
qed

text \<open>What the aggregate values are.\<close>

lemma aggregate_count:
  "ag_function spec = kCountStar \<Longrightarrow> aggregate_cell spec rows = (VInt (word_of_nat (length rows)), True)"
  "ag_function spec = kCount \<Longrightarrow> aggregate_cell spec rows = (VInt (word_of_nat (length (argument_values spec rows))), True)"
  by (simp_all add: aggregate_cell_def aggregate_output_def accumulated_def Let_def)

lemma word_of_sum: "(word_of_int (sum_list (map sint vs)) :: int32) = sum_list vs"
  by (induction vs) simp_all

lemma aggregate_sum_int:
  assumes "ag_function spec = kSum" and "ag_argument_type spec = kInteger"
  shows "aggregate_cell spec rows = (if argument_values spec rows = [] then null_cell kInteger
    else (VInt (sum_list (map int_value (argument_values spec rows))), True))"
  using assms word_of_sum [of "map int_value (argument_values spec rows)"]
  by (simp add: aggregate_cell_def aggregate_output_def accumulated_def Let_def)

end
