(* ===== verification/ExecProps.thy ===== *)
theory ExecProps
  imports StorageProps ScanCorrect HashJoinCorrect AggregationCorrect
begin

text \<open>
  The main properties of query execution, each with a concrete instance where its hypotheses
  hold: inserting and scanning, pruning, expression evaluation, and the relational operators.
  The theorems on operators speak of the rows a child produces, in whatever chunks.
\<close>

section \<open>Insert and scan\<close>

text \<open>What the contents of row groups that hold literal rows look like column-wise.\<close>

lemma typed_contents:
  assumes "list_all2 (\<lambda>rg cellss. 0 < unat (rg_row_count rg) \<and> list_all (\<lambda>cells. length cells = unat (rg_row_count rg)) cellss) rgs cs"
    and "\<And>row. row \<in> set (table_rows rgs cs) \<Longrightarrow> map (value_type \<circ> fst) row = ts"
  shows "list_all (list_all2 cells_of_type ts) cs"
  using assms
proof (induction rule: list_all2_induct)
  case (Cons rg rgs cellss cs)
  let ?n = "unat (rg_row_count rg)"
  have row: "map (value_type \<circ> fst) (map (\<lambda>cells. cells ! i) cellss) = ts" if "i < ?n" for i
    by (rule Cons.prems) (use that in \<open>auto simp: table_rows_def cells_rows_def\<close>)
  have len: "length cellss = length ts" using row [of 0] Cons.hyps(1) by (metis length_map)
  have "cells_of_type (ts ! c) (cellss ! c)" if c: "c < length ts" for c
  proof -
    have "value_type (fst (cellss ! c ! i)) = ts ! c" if "i < ?n" for i
      using arg_cong [OF row [OF that], of "\<lambda>xs. xs ! c"] c len by simp
    moreover have "length (cellss ! c) = ?n" using Cons.hyps(1) c len by (simp add: list_all_length)
    ultimately show ?thesis by (simp add: cells_of_type_def list_all_length)
  qed
  then have "list_all2 cells_of_type ts cellss" using len by (simp add: list_all2_conv_all_nth)
  moreover have "list_all (list_all2 cells_of_type ts) cs"
    by (rule Cons.IH) (use Cons.prems in \<open>auto simp: table_rows_def\<close>)
  ultimately show ?case by simp
qed simp

text \<open>A fresh scan of a table stored in row groups, over an empty pool.\<close>

definition varchar_ordinals_low :: "TypeId list \<Rightarrow> bool" where
  "varchar_ordinals_low ts = (\<forall>c < length ts. ts ! c = kVarchar \<longrightarrow> c \<le> 2)"

lemma low_ordinals_scannable:
  assumes "varchar_ordinals_low ts" and "list_all2 cells_of_type ts cellss" and "group_holds P rg cellss"
    and "list_all (\<lambda>c. c < length ts) ords"
  shows "scannable ts ords rg cellss"
proof -
  have "unat (rg_row_count rg) + 7 \<le> 10247" using assms(3) by (simp add: group_holds_def size_consts)
  then have n: "(unat (rg_row_count rg) + 7) div 8 \<le> 1280" using div_le_mono [of _ 10247 8] by fastforce
  have "bits_in_first_page (unat (rg_row_count rg)) c" if "c \<le> 2" for c
  proof -
    have "(c + 1) * ((unat (rg_row_count rg) + 7) div 8) \<le> 3 * 1280" using that n by (intro mult_le_mono) simp_all
    then show ?thesis by (simp add: bits_in_first_page_def kPageSizeBytes_def)
  qed
  with assms(1,2,4) show ?thesis by (auto simp: scannable_def varchar_ordinals_low_def list_all_iff)
qed

definition table_stored :: "DiskManager \<Rightarrow> TableObject \<Rightarrow> TypeId list \<Rightarrow> cell list list list \<Rightarrow> bool" where
  "table_stored dm table ts contents =
     (dm_inv dm \<and> groups_stored dm (to_row_groups table) contents \<and> map cd_type (to_columns table) = ts \<and>
      list_all (list_all2 cells_of_type ts) contents \<and> varchar_ordinals_low ts)"

text \<open>A skip condition whose constant has the type of its column.\<close>

fun skip_typed :: "TypeId list \<Rightarrow> ZoneMapSkipCondition option \<Rightarrow> bool" where
  "skip_typed ts None = True"
| "skip_typed ts (Some cond) = (zs_ordinal cond < length ts \<and>
     ts ! zs_ordinal cond = (case zs_constant cond of ZoneInt _ \<Rightarrow> kInteger | ZoneFloat _ \<Rightarrow> kFloat))"

lemma skip_typed_decided:
  assumes "skip_typed ts skip" and "group_holds P rg cellss" and "list_all2 cells_of_type ts cellss"
  shows "\<exists>b. skips_group skip rg = Inr b"
proof (cases skip)
  case None
  then show ?thesis by (simp add: skips_group_def ex_bool_eq)
next
  case (Some cond)
  let ?c = "zs_ordinal cond"
  have c: "?c < length cellss" "cells_of_type (ts ! ?c) (cellss ! ?c)"
    using assms(1,3) Some by (auto simp: list_all2_conv_all_nth)
  note gd = group_holdsD [OF assms(2) c(1)]
  have "cellss ! ?c \<noteq> []" using gd(4) assms(2) by (auto simp: group_holds_def)
  with gd(2) c(2) have "case rg_columns rg ! ?c of IntEntry _ \<Rightarrow> ts ! ?c = kInteger | FloatEntry _ \<Rightarrow> ts ! ?c = kFloat
      | VarcharEntry _ \<Rightarrow> ts ! ?c = kVarchar"
    by (cases "cellss ! ?c"; cases "rg_columns rg ! ?c") (auto simp: cells_of_type_def)
  then show ?thesis
    using assms(1) Some gd(1)
    by (auto simp: skips_group_def ZoneMapRulesOutRowGroup_def rg_Column_def split: ZoneConstant.splits ColumnFooterEntry.splits)
qed

lemma stored_groups:
  assumes "table_stored dm table ts contents" and "list_all (\<lambda>c. c < length ts) ords"
  shows "list_all2 (\<lambda>rg cellss. group_holds (dm_page dm) rg cellss \<and> scannable ts ords rg cellss) (to_row_groups table) contents"
  using assms low_ordinals_scannable [OF _ _ _ assms(2)]
  by (auto simp: table_stored_def groups_stored_def list_all2_conv_all_nth list_all_length)

lemma scan_stored:
  assumes stored: "table_stored dm table ts contents" and ords: "list_all (\<lambda>c. c < length ts) ords"
    and frames: "2 \<le> frames" "frames \<le> 2 ^ 31" and skip: "skip_typed ts skip"
  shows "\<exists>cs sc pool. produces SeqScan_GetNext (MakeSeqScanOperator table ords skip, (MakeBufferPoolManager frames, dm)) cs (sc, pool) \<and>
    list_all (\<lambda>dc. chunk_inv dc \<and> chunk_types dc = map ((!) ts) ords) cs \<and>
    concat (map chunk_rows cs) = scanned_rows skip ords (to_row_groups table) contents"
proof -
  let ?sc = "MakeSeqScanOperator table ords skip" and ?pool = "(MakeBufferPoolManager frames, dm)" and ?rgs = "to_row_groups table"
  have dm: "dm_inv dm" and ts: "map cd_type (to_columns table) = ts" using stored by (simp_all add: table_stored_def)
  note pool = pool_inv_empty [OF dm frames(2)]
  note groups = stored_groups [OF stored ords]
  have "list_all2 (\<lambda>rg cellss. group_holds (dm_page dm) rg cellss \<and> scannable ts ords rg cellss \<and>
      (\<exists>b. skips_group skip rg = Inr b)) ?rgs contents"
    by (rule list_all2_mono [OF groups]) (auto simp: scannable_def intro: skip_typed_decided [OF skip])
  moreover have "unat (0 :: uint32) * kVectorSize < unat (rg_row_count (?rgs ! 0))" if "?rgs \<noteq> []"
    using groups that by (auto simp: list_all2_conv_all_nth group_holds_def)
  moreover have "pool_size (MakeBufferPoolManager frames) = frames" by (simp add: MakeBufferPoolManager_def)
  ultimately have "scan_ready ts contents (?sc, ?pool)"
    using pool frames(1) ts by (simp add: scan_ready_def MakeSeqScanOperator_def spare_frames_def Let_def)
  from scan_produces [OF this] scan_rest_start [of table contents ords skip] list_all2_lengthD [OF groups]
  obtain cs sc pool where
    "produces SeqScan_GetNext (?sc, ?pool) cs (sc, pool)"
    "list_all (\<lambda>dc. chunk_inv dc \<and> chunk_types dc = map ((!) ts) ords) cs"
    "concat (map chunk_rows cs) = scanned_rows skip ords ?rgs contents"
    by (auto simp: MakeSeqScanOperator_def)
  then show ?thesis by (intro exI [of _ cs] exI [of _ sc] exI [of _ pool]) simp
qed

lemma scanned_stored:
  assumes "table_stored dm table ts contents" and "list_all (\<lambda>c. c < length ts) ords"
  shows "scanned_rows None ords (to_row_groups table) contents =
    map (\<lambda>row. map (\<lambda>c. clean_cell (row ! c)) ords) (table_rows (to_row_groups table) contents)"
  by (rule scanned_rows_all [where ts = ts, OF list_all2_mono [OF stored_groups [OF assms]]]) simp

lemma loaded_table_simps [simp]:
  "to_table_name (loaded_table e rgs) = ts_table_name e" "to_table_id (loaded_table e rgs) = ts_table_id e"
  "to_columns (loaded_table e rgs) = ts_columns e" "to_row_groups (loaded_table e rgs) = rgs"
  by (simp_all add: loaded_table_def MakeTableObject_def)

text \<open>An insert adds row groups that hold its rows; everything stored before stays.\<close>

lemma insert_grows:
  assumes cat: "catalog_holds cat G" "e \<in> set (ss_tables (cat_schema cat))"
    and ts: "map cd_type (ts_columns e) = ts" "ts \<noteq> []"
    and old: "groups_stored (cat_disk cat) (G (ts_table_name e)) contents"
    and rows: "list_all (row_ok ts) rows" "insert_room ts (length rows) (cat_disk cat)"
  obtains ie ie' cat' rgs cs where "MakeInsertExecutor cat (ts_table_id e) = Inr ie"
    "insert_rows (map (map ConstNode) rows) (ie, cat) = (Inr (), (ie', cat'))"
    "catalog_holds cat' (G(ts_table_name e := G (ts_table_name e) @ rgs))" "cat_schema cat' = cat_schema cat"
    "extends (cat_disk cat) (cat_disk cat')"
    "groups_stored (cat_disk cat') (G (ts_table_name e) @ rgs) (contents @ cs)" "list_all (list_all2 cells_of_type ts) cs"
    "table_rows (G (ts_table_name e) @ rgs) (contents @ cs) = table_rows (G (ts_table_name e)) contents @ map literal_row rows"
    "table_rows rgs cs = map literal_row rows" "groups_stored (cat_disk cat') rgs cs"
proof -
  let ?name = "ts_table_name e"
  define ie where "ie = \<lparr>ie_table = loaded_table e (G ?name), ie_staging = MakeStaging (loaded_table e (G ?name))\<rparr>"
  have mk: "MakeInsertExecutor cat (ts_table_id e) = Inr ie"
    using GetTableById_holds [OF cat] by (simp add: MakeInsertExecutor_def ie_def)
  have "insert_ready ts e G contents [] (ie, cat)"
    using cat ts old(1) staged_empty [of "loaded_table e (G ?name)"]
    by (simp add: insert_ready_def ie_def kRowGroupSize_def)
  from insert_rows_spec [OF this rows(1)] rows(2) obtain ie' cat' rgs cs where
    run: "insert_rows (map (map ConstNode) rows) (ie, cat) = (Inr (), (ie', cat'))" and
    ready: "insert_ready ts e (G(?name := G ?name @ rgs)) (contents @ cs) [] (ie', cat')"
    "cat_schema cat' = cat_schema cat" "length rgs = length cs" "table_rows rgs cs = map literal_row rows"
    "extends (cat_disk cat) (cat_disk cat')"
    by (auto simp: inserted_def)
  have holds: "catalog_holds cat' (G(?name := G ?name @ rgs))" and stored: "groups_stored (cat_disk cat') (G ?name @ rgs) (contents @ cs)"
    using ready(1) by (simp_all add: insert_ready_def)
  have len: "length (G ?name) = length contents" using old(1) by (simp add: groups_stored_def list_all2_lengthD)
  then have new: "groups_stored (cat_disk cat') rgs cs" using stored by (simp add: groups_stored_def list_all2_append)
  have "list_all (list_all2 cells_of_type ts) cs"
  proof (rule typed_contents)
    show "list_all2 (\<lambda>rg cellss. 0 < unat (rg_row_count rg) \<and> list_all (\<lambda>cells. length cells = unat (rg_row_count rg)) cellss) rgs cs"
      using new by (auto simp: groups_stored_def group_holds_def elim: list_all2_mono)
    show "map (value_type \<circ> fst) row = ts" if "row \<in> set (table_rows rgs cs)" for row
      using that rows(1) by (auto simp: ready(4) literal_row_def row_ok_def list_all_iff comp_def)
  qed
  moreover have "table_rows (G ?name @ rgs) (contents @ cs) = table_rows (G ?name) contents @ map literal_row rows"
    by (simp add: table_rows_append [OF len] ready(4))
  ultimately show thesis using that [OF mk run holds ready(2,5) stored] ready(4) new by simp
qed

lemma insert_stores:
  assumes cat: "catalog_holds cat G" "e \<in> set (ss_tables (cat_schema cat))"
    and ts: "map cd_type (ts_columns e) = ts" "ts \<noteq> []" "varchar_ordinals_low ts"
    and old: "groups_stored (cat_disk cat) (G (ts_table_name e)) contents" "list_all (list_all2 cells_of_type ts) contents"
    and rows: "list_all (row_ok ts) rows" "insert_room ts (length rows) (cat_disk cat)"
  obtains ie ie' cat' table contents' where "MakeInsertExecutor cat (ts_table_id e) = Inr ie"
    "insert_rows (map (map ConstNode) rows) (ie, cat) = (Inr (), (ie', cat'))" "GetTable cat' (ts_table_name e) = Some table"
    "table_stored (cat_disk cat') table ts contents'"
    "table_rows (to_row_groups table) contents' = table_rows (G (ts_table_name e)) contents @ map literal_row rows"
proof -
  let ?name = "ts_table_name e"
  obtain ie ie' cat' rgs cs where run: "MakeInsertExecutor cat (ts_table_id e) = Inr ie"
    "insert_rows (map (map ConstNode) rows) (ie, cat) = (Inr (), (ie', cat'))" and
    new: "catalog_holds cat' (G(?name := G ?name @ rgs))" "cat_schema cat' = cat_schema cat"
    "groups_stored (cat_disk cat') (G ?name @ rgs) (contents @ cs)" "list_all (list_all2 cells_of_type ts) cs"
    "table_rows (G ?name @ rgs) (contents @ cs) = table_rows (G ?name) contents @ map literal_row rows"
    by (rule insert_grows [OF cat ts(1,2) old(1) rows])
  let ?table = "loaded_table e (G ?name @ rgs)"
  have "GetTable cat' ?name = Some ?table" using GetTable_holds [OF new(1)] cat(2) new(2) by simp
  moreover have "table_stored (cat_disk cat') ?table ts (contents @ cs)"
    using new ts old(2) by (simp add: table_stored_def catalog_holds_def)
  ultimately show thesis using that run new(5) by simp
qed

lemma stored_row_length:
  assumes "table_stored dm table ts contents" and "row \<in> set (table_rows (to_row_groups table) contents)"
  shows "length row = length ts"
  using assms by (auto simp: table_stored_def table_rows_def cells_rows_def list_all_iff dest!: set_zip_rightD list_all2_lengthD)

text \<open>
  C4: what an \<open>INSERT\<close> stores, a scan returns. Let a catalog hold a table, inserted rows match
  its column types, with no empty string and none of \<open>2 ^ 17\<close> characters or more, and let the
  file have room. The insert succeeds, and a sequential scan of the
  table afterwards, through a buffer pool of at least two frames, returns the rows that were
  stored before followed by the inserted rows, in order. The bound on the position of
  \<open>VARCHAR\<close> columns is a real limit of the scan.
\<close>

theorem insert_then_scan:
  assumes cat: "catalog_holds cat G" "e \<in> set (ss_tables (cat_schema cat))"
    and ts: "map cd_type (ts_columns e) = ts" "ts \<noteq> []" "varchar_ordinals_low ts"
    and old: "groups_stored (cat_disk cat) (G (ts_table_name e)) contents" "list_all (list_all2 cells_of_type ts) contents"
    and rows: "list_all (row_ok ts) rows" "insert_room ts (length rows) (cat_disk cat)" and frames: "2 \<le> frames" "frames \<le> 2 ^ 31"
  shows "\<exists>ie ie' cat' table cs sc pool. MakeInsertExecutor cat (ts_table_id e) = Inr ie \<and>
    insert_rows (map (map ConstNode) rows) (ie, cat) = (Inr (), (ie', cat')) \<and>
    GetTable cat' (ts_table_name e) = Some table \<and>
    produces SeqScan_GetNext
      (MakeSeqScanOperator table [0..<length ts] None, (MakeBufferPoolManager frames, cat_disk cat')) cs (sc, pool) \<and>
    concat (map chunk_rows cs) = map (map clean_cell) (table_rows (G (ts_table_name e)) contents) @ map literal_row rows"
proof -
  obtain ie ie' cat' table contents' where run: "MakeInsertExecutor cat (ts_table_id e) = Inr ie"
    "insert_rows (map (map ConstNode) rows) (ie, cat) = (Inr (), (ie', cat'))" "GetTable cat' (ts_table_name e) = Some table" and
    st: "table_stored (cat_disk cat') table ts contents'"
    "table_rows (to_row_groups table) contents' = table_rows (G (ts_table_name e)) contents @ map literal_row rows"
    by (rule insert_stores [OF cat ts old rows])
  have ords: "list_all (\<lambda>c. c < length ts) [0..<length ts]" by (simp add: list_all_iff)
  obtain cs sc pool where scan: "produces SeqScan_GetNext
      (MakeSeqScanOperator table [0..<length ts] None, (MakeBufferPoolManager frames, cat_disk cat')) cs (sc, pool)"
    "concat (map chunk_rows cs) = map (\<lambda>row. map (\<lambda>c. clean_cell (row ! c)) [0..<length ts]) (table_rows (to_row_groups table) contents')"
    using scan_stored [OF st(1) ords frames, of None] scanned_stored [OF st(1) ords] by auto
  have "map (\<lambda>c. clean_cell (row ! c)) [0..<length ts] = map clean_cell row"
    if "row \<in> set (table_rows (to_row_groups table) contents')" for row
    using stored_row_length [OF st(1) that] map_nth_upt [of clean_cell row] by simp
  then have "concat (map chunk_rows cs) = map (map clean_cell) (table_rows (to_row_groups table) contents')"
    unfolding scan(2) by (intro map_cong) auto
  moreover have "map (map clean_cell) (map literal_row rows) = map literal_row rows" by (simp add: literal_row_def)
  ultimately have "concat (map chunk_rows cs) =
      map (map clean_cell) (table_rows (G (ts_table_name e)) contents) @ map literal_row rows" by (simp only: st(2) map_append)
  with run scan(1) show ?thesis
    by (intro exI [of _ ie] exI [of _ ie'] exI [of _ cat'] exI [of _ table] exI [of _ cs] exI [of _ sc] exI [of _ pool]) simp
qed

definition example_entry :: TableSchemaEntry where
  "example_entry = \<lparr>ts_table_id = 1, ts_table_name = ''u'', ts_columns = example_columns\<rparr>"

definition example_db :: Catalog where
  "example_db = with_table ''u'' example_columns example_catalog"

lemma example_db_holds:
  "catalog_holds example_db (example_groups(''u'' := []))" "example_entry \<in> set (ss_tables (cat_schema example_db))"
  "cat_disk example_db = example_disk"
proof -
  show "catalog_holds example_db (example_groups(''u'' := []))"
    unfolding example_db_def by (rule with_table_holds [OF example_catalog_holds])
      (simp_all add: example_catalog_def tables_of_def example_schema_def string_ok_def example_columns_def column_def_ok_def)
qed (simp_all add: example_db_def with_table_def ss_AddTable_def example_catalog_def example_schema_def example_entry_def Let_def)

theorem insert_then_scan_witness:
  "\<exists>ie ie' cat' table cs sc pool. MakeInsertExecutor example_db 1 = Inr ie \<and>
    insert_rows [[ConstNode (VString ''hi'')], [ConstNode (VString ''you'')]] (ie, example_db) = (Inr (), (ie', cat')) \<and>
    GetTable cat' ''u'' = Some table \<and>
    produces SeqScan_GetNext (MakeSeqScanOperator table [0] None, (MakeBufferPoolManager 2, cat_disk cat')) cs (sc, pool) \<and>
    concat (map chunk_rows cs) = [[(VString ''hi'', True)], [(VString ''you'', True)]]"
  using insert_then_scan [OF example_db_holds(1,2), of "[kVarchar]" "[]" "[[VString ''hi''], [VString ''you'']]" 2]
  by (simp add: example_db_holds(3) example_entry_def example_columns_def varchar_ordinals_low_def groups_stored_def
      row_ok_def insert_room_def example_disk_def example_header_def kGroupPages_def kColumnPages_def kRowGroupSize_def
      table_rows_def literal_row_def)

section \<open>Pruning\<close>

lemma chunk_row_types:
  assumes "chunk_inv dc" and "i < dc_row_count dc"
  shows "map (value_type \<circ> fst) (chunk_row dc i) = chunk_types dc"
proof (rule nth_equalityI)
  fix c assume "c < length (map (value_type \<circ> fst) (chunk_row dc i))"
  then have c: "c < length (chunk_types dc)" by simp
  obtain col where col: "i < length (col_cells col)" "column_type col = chunk_types dc ! c" "col_cells col ! i = chunk_row dc i ! c"
    using chunk_column [OF assms(1) c assms(2)] by blast
  with col_cells_typed [OF nth_mem [OF col(1)]] c show "map (value_type \<circ> fst) (chunk_row dc i) ! c = chunk_types dc ! c" by simp
qed simp

text \<open>An expression that evaluates on every row of the given types.\<close>

definition total_on :: "TypeId list \<Rightarrow> BoundExpression \<Rightarrow> bool" where
  "total_on ts p = (expr_wt ts p \<and> (\<forall>row. map (value_type \<circ> fst) row = ts \<longrightarrow> (\<exists>v. eval_row p row = Inr v)))"

lemma total_on_accepts: "total_on ts p \<Longrightarrow> chunk_inv dc \<Longrightarrow> chunk_types dc = ts \<Longrightarrow> chunk_accepts ts p dc"
  using chunk_row_types [of dc] by (auto simp: total_on_def chunk_accepts_def rows_defined_def)

text \<open>
  C12: skipping row groups by their zone maps does not change the result of a query. A filter
  over a scan with a skip condition lets through exactly the rows that a filter over the
  whole table would, if the filter implies the condition and the column has no NaN.
\<close>

theorem pruned_scan_filter:
  assumes stored: "table_stored dm table ts contents" and ords: "list_all (\<lambda>c. c < length ts) ords"
    and frames: "2 \<le> frames" "frames \<le> 2 ^ 31" and cond: "skip_typed ts (Some cond)"
    and ref: "unat (cr_ordinal ref) < length ords" "ords ! unat (cr_ordinal ref) = zs_ordinal cond"
    and nan: "list_all (\<lambda>cellss. nan_free (cellss ! zs_ordinal cond)) contents"
    and p: "total_on (map ((!) ts) ords) p" "ResultType p = etBoolean"
    and implies: "\<And>row. row_passes p row \<Longrightarrow> row_passes (zone_predicate cond ref) row"
  shows "\<exists>cs sc pool. produces (Filter_GetNext SeqScan_GetNext p)
      (MakeSeqScanOperator table ords (Some cond), (MakeBufferPoolManager frames, dm)) cs (sc, pool) \<and>
    concat (map chunk_rows cs) = filter (row_passes p)
      (map (\<lambda>row. map (\<lambda>c. clean_cell (row ! c)) ords) (table_rows (to_row_groups table) contents))"
proof -
  let ?st = "(MakeSeqScanOperator table ords (Some cond), (MakeBufferPoolManager frames, dm))"
  obtain cs sc pool where cs: "produces SeqScan_GetNext ?st cs (sc, pool)"
    "list_all (\<lambda>dc. chunk_inv dc \<and> chunk_types dc = map ((!) ts) ords) cs"
    "concat (map chunk_rows cs) = scanned_rows (Some cond) ords (to_row_groups table) contents"
    using scan_stored [OF stored ords frames cond] by blast
  have "chunk_accepts (map ((!) ts) ords) p c \<and> ResultType p = etBoolean" if "c \<in> set cs" for c
    using cs(2) p that by (auto simp: list_all_iff intro: total_on_accepts)
  then obtain ds where ds: "produces (chunkwise (filter_chunk p) SeqScan_GetNext) ?st ds (sc, pool)"
    "concat (map chunk_rows ds) = filter (row_passes p) (scanned_rows (Some cond) ords (to_row_groups table) contents)"
    using filter_rows.produces_rows [OF cs(1), of "map ((!) ts) ords" p] cs(3) by metis
  have "list_all2 (\<lambda>rg cellss. group_holds (dm_page dm) rg cellss \<and> nan_free (cellss ! zs_ordinal cond)) (to_row_groups table) contents"
    using stored_groups [OF stored ords] nan by (simp add: list_all2_conv_all_nth list_all_length)
  from pruning_invisible [OF this ref implies] scanned_stored [OF stored ords] ds show ?thesis
    unfolding Filter_chunkwise by (intro exI [of _ ds] exI [of _ sc] exI [of _ pool]) simp
qed

definition number_columns :: "ColumnDef list" where
  "number_columns = [\<lparr>cd_name = ''k'', cd_type = kInteger, cd_ordinal = 0\<rparr>]"

lemma number_table_stored:
  obtains dm table contents where "table_stored dm table [kInteger] contents"
    "table_rows (to_row_groups table) contents = [[(VInt 5, True)], [(VInt 7, True)]]"
proof -
  let ?cat = "with_table ''n'' number_columns example_catalog"
  let ?e = "\<lparr>ts_table_id = 1, ts_table_name = ''n'', ts_columns = number_columns\<rparr>"
  have holds: "catalog_holds ?cat (example_groups(''n'' := []))"
    by (rule with_table_holds [OF example_catalog_holds])
      (simp_all add: example_catalog_def tables_of_def example_schema_def string_ok_def number_columns_def column_def_ok_def)
  have e: "?e \<in> set (ss_tables (cat_schema ?cat))" and disk: "cat_disk ?cat = example_disk"
    by (simp_all add: with_table_def ss_AddTable_def example_catalog_def example_schema_def Let_def)
  have room: "insert_room [kInteger] (Suc (Suc 0)) (cat_disk ?cat)"
    by (simp add: disk insert_room_def example_disk_def example_header_def kGroupPages_def kColumnPages_def kRowGroupSize_def)
  obtain dm table contents where "table_stored dm table [kInteger] contents"
    "table_rows (to_row_groups table) contents = [[(VInt 5, True)], [(VInt 7, True)]]"
    by (rule insert_stores [OF holds e, of "[kInteger]" "[]" "[[VInt 5], [VInt 7]]"])
      (use room in \<open>auto simp: number_columns_def varchar_ordinals_low_def groups_stored_def row_ok_def table_rows_def
        literal_row_def\<close>)
  then show thesis by (rule that)
qed

definition above_six :: ZoneMapSkipCondition where
  "above_six = \<lparr>zs_ordinal = 0, zs_op = kGreaterThan, zs_constant = ZoneInt 6\<rparr>"

abbreviation first_column :: BoundColumnRef where
  "first_column \<equiv> \<lparr>cr_table_id = 1, cr_ordinal = 0, cr_type = kInteger\<rparr>"

theorem pruned_scan_filter_witness:
  "\<exists>dm table cs sc pool. produces (Filter_GetNext SeqScan_GetNext (zone_predicate above_six first_column))
      (MakeSeqScanOperator table [0] (Some above_six), (MakeBufferPoolManager 2, dm)) cs (sc, pool) \<and>
    concat (map chunk_rows cs) = [[(VInt 7, True)]]"
proof -
  obtain dm table contents where st: "table_stored dm table [kInteger] contents"
    "table_rows (to_row_groups table) contents = [[(VInt 5, True)], [(VInt 7, True)]]"
    by (rule number_table_stored)
  have "\<exists>v. eval_row (zone_predicate above_six first_column) row = Inr v" if typed: "map (value_type \<circ> fst) row = [kInteger]" for row
  proof -
    obtain v b where "row = [(v, b)]" "value_type v = kInteger" using typed by (cases row) auto
    then show ?thesis
      by (cases v) (simp_all add: zone_predicate_def above_six_def null_cell_def IsArithmeticOperator_def IsLogicalOperator_def ex_bool_eq)
  qed
  then have total: "total_on [kInteger] (zone_predicate above_six first_column)"
    by (simp add: total_on_def zone_predicate_def above_six_def IsArithmeticOperator_def IsLogicalOperator_def numeric_def)
  have "nan_free cells" if "cells_of_type kInteger cells" for cells
    using that by (auto simp: nan_free_def valid_floats_def cells_of_type_def list_all_iff split: ConstValue.splits)
  then have nan: "list_all (\<lambda>cellss. nan_free (cellss ! zs_ordinal above_six)) contents"
    using st(1) by (auto simp: table_stored_def list_all_iff above_six_def list_all2_Cons1)
  let ?p = "zone_predicate above_six first_column"
  have passes: "filter (row_passes ?p) [[(VInt 5, True)], [(VInt 7, True)]] = [[(VInt 7, True)]]"
    by (simp add: row_passes_def zone_predicate_def above_six_def IsArithmeticOperator_def IsLogicalOperator_def
        compare_ints_def word_sless_alt)
  have ty: "ResultType ?p = etBoolean" "skip_typed [kInteger] (Some above_six)" "zs_ordinal above_six = 0"
    by (simp_all add: zone_predicate_def above_six_def)
  have "\<exists>cs sc pool. produces (Filter_GetNext SeqScan_GetNext ?p)
      (MakeSeqScanOperator table [0] (Some above_six), (MakeBufferPoolManager 2, dm)) cs (sc, pool) \<and>
    concat (map chunk_rows cs) = filter (row_passes ?p)
      (map (\<lambda>row. map (\<lambda>c. clean_cell (row ! c)) [0]) (table_rows (to_row_groups table) contents))"
    by (rule pruned_scan_filter [OF st(1) _ _ _ ty(2)]) (use total nan ty in simp_all)
  with passes st(2) show ?thesis by (intro exI [of _ dm] exI [of _ table]) simp
qed

section \<open>Concrete children\<close>

text \<open>A child that hands out given chunks, and chunks that hold given rows.\<close>

fun list_source :: "(DataChunk list, DataChunk option) action" where
  "list_source [] = (Inr None, [])"
| "list_source (c # cs) = (Inr (Some c), cs)"

lemma list_source_produces: "produces list_source cs cs []"
  by (induction cs) (auto intro: produces.intros)

definition plain_row :: "TypeId list \<Rightarrow> cell list \<Rightarrow> bool" where
  "plain_row ts row = (map (value_type \<circ> fst) row = ts \<and> map clean_cell row = row \<and> light row)"

lemma plain_row_length: "plain_row ts row \<Longrightarrow> length row = length ts"
  by (metis length_map plain_row_def)

lemma plain_cell_output:
  assumes "value_type (fst x) = t" and "clean_cell x = x"
  shows "out_value_ok t (t, cell_value x)" "output_cell (t, cell_value x) = x"
proof -
  obtain v b where x: "x = (v, b)" by (cases x)
  have "x = (if b then (v, True) else null_cell t)" using assms by (simp only: x clean_cell.simps fst_conv)
  then show "output_cell (t, cell_value x) = x" by (cases b) (simp_all add: null_cell_def)
  show "out_value_ok t (t, cell_value x)" using assms(1) by (simp add: x out_value_ok_def)
qed

lemma plain_row_outputs:
  assumes "plain_row ts row"
  shows "list_all2 out_value_ok ts (map (\<lambda>(t, x). (t, cell_value x)) (zip ts row))"
    "map output_cell (map (\<lambda>(t, x). (t, cell_value x)) (zip ts row)) = row"
proof -
  have len: "length row = length ts" by (rule plain_row_length [OF assms])
  have row: "map (value_type \<circ> fst) row = ts" "map clean_cell row = row" using assms by (simp_all add: plain_row_def)
  have cell: "value_type (fst (row ! c)) = ts ! c" "clean_cell (row ! c) = row ! c" if "c < length ts" for c
    using arg_cong [OF row(1), of "\<lambda>xs. xs ! c"] arg_cong [OF row(2), of "\<lambda>xs. xs ! c"] that len by simp_all
  show "list_all2 out_value_ok ts (map (\<lambda>(t, x). (t, cell_value x)) (zip ts row))"
    using plain_cell_output(1) [OF cell] len by (simp add: list_all2_conv_all_nth)
  show "map output_cell (map (\<lambda>(t, x). (t, cell_value x)) (zip ts row)) = row"
    by (rule nth_equalityI) (use plain_cell_output(2) [OF cell] len in simp_all)
qed

lemma columns_of_rows:
  assumes "list_all (plain_row ts) rows" and "length rows \<le> kVectorSize"
  shows "\<exists>cols. cols_hold ts rows cols"
  using assms
proof (induction rows rule: rev_induct)
  case Nil
  then show ?case using cols_hold_empty by blast
next
  case (snoc row rows)
  then obtain cols where cols: "cols_hold ts rows cols" by auto
  have row: "plain_row ts row" using snoc.prems by simp
  have "length r = length ts \<and> light r" if "r \<in> set (rows @ [row])" for r
    using snoc.prems(1) that plain_row_length by (auto simp: list_all_iff) (auto simp: plain_row_def)
  then have "column_weight c (rows @ [row]) < varchar_capacity" if "c < length ts" for c
    using that snoc.prems(2) by (intro light_column_weight) (auto simp: list_all_iff)
  with flat_row [OF cols plain_row_outputs(1) [OF row]] plain_row_outputs(2) [OF row] show ?case by auto
qed

lemma chunk_of_rows:
  assumes "list_all (plain_row ts) rows" and "length rows \<le> kVectorSize"
  obtains dc where "chunk_inv dc" "chunk_types dc = ts" "chunk_rows dc = rows" "dc_row_count dc = length rows"
proof -
  obtain cols where "cols_hold ts rows cols" using columns_of_rows [OF assms] by blast
  moreover have "length r = length ts" if "r \<in> set rows" for r
    using assms(1) that plain_row_length by (auto simp: list_all_iff)
  ultimately show thesis using chunk_of_columns [of ts rows cols] assms(2) that by blast
qed

section \<open>Expressions\<close>

text \<open>
  C19: the vectorised evaluator computes the row semantics. On a well-formed chunk and a
  well-typed expression it returns a result of the expression's type whose row \<open>i\<close>, value and
  null flag, is the expression evaluated on row \<open>i\<close>; if it fails, then the row semantics fails
  on some row of the chunk (integer overflow in the source language's sense).
\<close>

theorem evaluator_is_rowwise:
  assumes "chunk_inv dc" and "expr_wt (chunk_types dc) e"
  shows "case EvaluateExpr e dc of
      Inr r \<Rightarrow> result_inv (dc_row_count dc) r \<and> result_type r = ResultType e \<and>
        (\<forall>i < dc_row_count dc. eval_row e (chunk_row dc i) = Inr (result_cells r ! i))
    | Inl _ \<Rightarrow> \<exists>i < dc_row_count dc. \<exists>err. eval_row e (chunk_row dc i) = Inl err"
  using EvaluateExpr_agrees [OF assms] by (simp add: eval_agrees_def)

abbreviation column_plus_one :: BoundExpression where
  "column_plus_one \<equiv> BinaryOpNode kAdd (ColumnRefNode first_column) (ConstNode (VInt 1)) etInteger"

lemma number_chunk:
  obtains dc where "chunk_inv dc" "chunk_types dc = [kInteger]" "chunk_rows dc = [[(VInt 5, True)], [(VInt 0, False)], [(VInt 7, True)]]"
    "dc_row_count dc = 3"
  by (rule chunk_of_rows [of "[kInteger]" "[[(VInt 5, True)], [(VInt 0, False)], [(VInt 7, True)]]"])
    (auto simp: plain_row_def light_def cell_weight_def null_cell_def kVectorSize_def)

theorem evaluator_is_rowwise_witness:
  "\<exists>dc. chunk_rows dc = [[(VInt 5, True)], [(VInt 0, False)], [(VInt 7, True)]] \<and>
    (case EvaluateExpr column_plus_one dc of
      Inr r \<Rightarrow> result_type r = etInteger
    | Inl _ \<Rightarrow> \<exists>i < 3. \<exists>err. eval_row column_plus_one (chunk_row dc i) = Inl err)"
proof -
  obtain dc where dc: "chunk_inv dc" "chunk_types dc = [kInteger]"
    "chunk_rows dc = [[(VInt 5, True)], [(VInt 0, False)], [(VInt 7, True)]]" "dc_row_count dc = 3"
    by (rule number_chunk)
  have "expr_wt (chunk_types dc) column_plus_one" by (simp add: dc(2) IsArithmeticOperator_def)
  from evaluator_is_rowwise [OF dc(1) this] dc(3,4) show ?thesis
    by (intro exI [of _ dc]) (auto simp del: EvaluateExpr.simps eval_row_simps split: sum.splits)
qed

text \<open>
  C36: nulls are contagious. Every row that a filter lets through is a row of its input and is
  non-null in every column that the predicate mentions, whatever the predicate is made of; in
  particular a row with a null in one operand of \<open>OR\<close> does not pass because of the other.
\<close>

theorem predicate_null_strict:
  assumes "chunk_inv dc" "expr_wt (chunk_types dc) p" "ResultType p = etBoolean"
    and "child s = (Inr (Some dc), s')" and "Filter_GetNext child p s = (Inr (Some dc'), s'')"
    and "row \<in> set (chunk_rows dc')"
  shows "row \<in> set (chunk_rows dc) \<and> (\<forall>i \<in> columns_of p. snd (row ! i))"
proof -
  have run: "filter_chunk p dc = Inr dc'"
    using assms(4,5) by (auto simp: Filter_GetNext_def sbind_def result_simps split: sum.splits)
  then obtain r where "EvaluateExpr p dc = Inr r" by (auto simp: filter_chunk_def result_simps)
  then have "rows_defined p dc" using EvaluateExpr_agrees [OF assms(1,2)] by (auto simp: eval_agrees_def rows_defined_def)
  from filter_chunk_spec [OF assms(1-3) this] run have "chunk_rows dc' = filter (row_passes p) (chunk_rows dc)" by auto
  with assms(6) eval_row_strict [of p row "RBool True"] show ?thesis by (auto simp: row_passes_def)
qed

text \<open>The instance is \<open>k < 6 OR NOT k < 6\<close>, over the values 5, null and 7.\<close>

abbreviation below_six :: BoundExpression where
  "below_six \<equiv> BinaryOpNode kLessThan (ColumnRefNode first_column) (ConstNode (VInt 6)) etInteger"

abbreviation always_or_null :: BoundExpression where
  "always_or_null \<equiv> BinaryOpNode kOr below_six (UnaryOpNode kNot below_six) etBoolean"

theorem predicate_null_strict_witness:
  "\<exists>dc dc'. chunk_rows dc = [[(VInt 5, True)], [(VInt 0, False)], [(VInt 7, True)]] \<and>
     Filter_GetNext list_source always_or_null [dc] = (Inr (Some dc'), []) \<and> chunk_rows dc' \<noteq> [] \<and>
     (\<forall>row \<in> set (chunk_rows dc'). snd (row ! 0))"
proof -
  let ?p = "always_or_null"
  obtain dc where dc: "chunk_inv dc" "chunk_types dc = [kInteger]"
    "chunk_rows dc = [[(VInt 5, True)], [(VInt 0, False)], [(VInt 7, True)]]" "dc_row_count dc = 3"
    by (rule number_chunk)
  have wt: "expr_wt (chunk_types dc) ?p" "ResultType ?p = etBoolean"
    by (simp_all add: dc(2) IsArithmeticOperator_def IsLogicalOperator_def numeric_def)
  have "\<exists>v. eval_row ?p row = Inr v" if "map (value_type \<circ> fst) row = [kInteger]" for row
  proof -
    obtain v b where "row = [(v, b)]" "value_type v = kInteger" using \<open>map (value_type \<circ> fst) row = [kInteger]\<close> by (cases row) auto
    then show ?thesis
      by (cases v) (simp_all add: null_cell_def IsArithmeticOperator_def IsLogicalOperator_def ex_bool_eq)
  qed
  then have "rows_defined ?p dc" unfolding rows_defined_def using chunk_row_types [OF dc(1)] dc(2) by metis
  from filter_chunk_spec [OF dc(1) wt this] obtain dc' where
    run: "filter_chunk ?p dc = Inr dc'" "chunk_rows dc' = filter (row_passes ?p) (chunk_rows dc)" by blast
  have next_chunk: "list_source [dc] = (Inr (Some dc), [])" "Filter_GetNext list_source ?p [dc] = (Inr (Some dc'), [])"
    using run(1) by (simp_all add: Filter_GetNext_def sbind_def)
  have "chunk_rows dc' \<noteq> []"
    by (simp add: run(2) dc(3) row_passes_def IsArithmeticOperator_def IsLogicalOperator_def compare_ints_def word_sless_alt)
  moreover have "\<forall>row \<in> set (chunk_rows dc'). snd (row ! 0)"
    using predicate_null_strict [OF dc(1) wt next_chunk] by simp
  ultimately show ?thesis using dc(3) next_chunk(2) by blast
qed

end
