(* ===== verification/OperatorProps.thy ===== *)
theory OperatorProps
  imports ExecProps
begin

text \<open>
  The relational operators as functions on lists of rows, whatever chunks their children cut
  the rows into, and the limits of the implementation that the proofs brought out.
\<close>

section \<open>Filter and projection\<close>

text \<open>
  C20: a filter returns the rows of its child that satisfy the predicate, in order, and
  nothing else; null counts as not satisfied.
\<close>

theorem filter_returns_passing:
  assumes "produces child s cs s'" and "\<And>c. c \<in> set cs \<Longrightarrow> chunk_inv c \<and> chunk_types c = ts"
    and "total_on ts p" "ResultType p = etBoolean"
  shows "\<exists>ds. produces (Filter_GetNext child p) s ds s' \<and> (\<forall>d \<in> set ds. chunk_inv d \<and> chunk_types d = ts) \<and>
    concat (map chunk_rows ds) = filter (row_passes p) (concat (map chunk_rows cs))"
proof -
  have "chunk_accepts ts p c \<and> ResultType p = etBoolean" if "c \<in> set cs" for c
    using assms(2) [OF that] assms(3,4) total_on_accepts by blast
  then show ?thesis
    using filter_rows.produces_rows [OF assms(1), of ts p] unfolding Filter_chunkwise by metis
qed

lemma below_six_total: "total_on [kInteger] below_six"
proof -
  have "\<exists>v. eval_row below_six row = Inr v" if typed: "map (value_type \<circ> fst) row = [kInteger]" for row
  proof -
    obtain v b where "row = [(v, b)]" "value_type v = kInteger" using typed by (cases row) auto
    then show ?thesis
      by (cases v) (simp_all add: null_cell_def IsArithmeticOperator_def IsLogicalOperator_def ex_bool_eq)
  qed
  then show ?thesis
    by (simp add: total_on_def IsArithmeticOperator_def IsLogicalOperator_def numeric_def)
qed

theorem filter_returns_passing_witness:
  "\<exists>c ds. chunk_rows c = [[(VInt 5, True)], [(VInt 0, False)], [(VInt 7, True)]] \<and>
    produces (Filter_GetNext list_source below_six) [c] ds [] \<and> concat (map chunk_rows ds) = [[(VInt 5, True)]]"
proof -
  obtain c where c: "chunk_inv c" "chunk_types c = [kInteger]"
    "chunk_rows c = [[(VInt 5, True)], [(VInt 0, False)], [(VInt 7, True)]]"
    by (rule number_chunk)
  have "filter (row_passes below_six) [[(VInt 5, True)], [(VInt 0, False)], [(VInt 7, True)]] = [[(VInt 5, True)]]"
    by (simp add: row_passes_def IsArithmeticOperator_def IsLogicalOperator_def compare_ints_def word_sless_alt null_cell_def)
  with filter_returns_passing [OF list_source_produces, of "[c]" "[kInteger]" below_six] c below_six_total
  show ?thesis by (intro exI [of _ c]) auto
qed

text \<open>
  C21: a projection returns, for every row of its child and in the same order, the row of the
  values of its expressions.
\<close>

theorem projection_maps_rows:
  assumes "produces child s cs s'" and "\<And>c. c \<in> set cs \<Longrightarrow> chunk_inv c \<and> chunk_types c = ts"
    and "\<And>e. e \<in> set es \<Longrightarrow> total_on ts e \<and> ResultType e \<noteq> etBoolean"
  shows "\<exists>ds. produces (Projection_GetNext child es) s ds s' \<and>
    (\<forall>d \<in> set ds. chunk_inv d \<and> chunk_types d = map (type_of \<circ> ResultType) es) \<and>
    concat (map chunk_rows ds) = map (\<lambda>row. map (\<lambda>e. projected_cell e row) es) (concat (map chunk_rows cs))"
proof -
  have "chunk_inv c \<and> (\<forall>e \<in> set es. chunk_accepts (chunk_types c) e c \<and> ResultType e \<noteq> etBoolean)" if "c \<in> set cs" for c
    using assms(2) [OF that] assms(3) total_on_accepts by blast
  then show ?thesis
    using project_rows.produces_rows [OF assms(1), of es] unfolding Projection_chunkwise by metis
qed

lemma first_column_total: "total_on [kInteger] (ColumnRefNode first_column)"
  by (auto simp: total_on_def split: prod.split)

theorem projection_maps_rows_witness:
  "\<exists>c ds. chunk_rows c = [[(VInt 5, True)], [(VInt 0, False)], [(VInt 7, True)]] \<and>
    produces (Projection_GetNext list_source [ColumnRefNode first_column, ColumnRefNode first_column]) [c] ds [] \<and>
    concat (map chunk_rows ds) = [[(VInt 5, True), (VInt 5, True)], [(VInt 0, False), (VInt 0, False)], [(VInt 7, True), (VInt 7, True)]]"
proof -
  obtain c where c: "chunk_inv c" "chunk_types c = [kInteger]"
    "chunk_rows c = [[(VInt 5, True)], [(VInt 0, False)], [(VInt 7, True)]]"
    by (rule number_chunk)
  have "\<exists>ds. produces (Projection_GetNext list_source [ColumnRefNode first_column, ColumnRefNode first_column]) [c] ds [] \<and>
      (\<forall>d \<in> set ds. chunk_inv d \<and> chunk_types d = map (type_of \<circ> ResultType) [ColumnRefNode first_column, ColumnRefNode first_column]) \<and>
      concat (map chunk_rows ds) = map (\<lambda>row. map (\<lambda>e. projected_cell e row) [ColumnRefNode first_column, ColumnRefNode first_column])
        (concat (map chunk_rows [c]))"
    by (rule projection_maps_rows [OF list_source_produces, where ts = "[kInteger]"]) (use c first_column_total in auto)
  with c(3) show ?thesis by (intro exI [of _ c]) (auto simp: projected_cell_def null_cell_def)
qed

section \<open>Joins\<close>

text \<open>
  C17: a hash join returns the equi-join of its children: for every probe row in order, every
  build row with the same key in build order, and nothing for a null key, at most 1024 rows
  per chunk. The bounds keep the 32-bit row numbers and string offsets in range.
\<close>

theorem hash_join_is_equi_join:
  assumes "produces bchild s bcs s1" "\<And>c. c \<in> set bcs \<Longrightarrow> chunk_inv c \<and> chunk_types c = ts"
    and "produces pchild s1 pcs s2" "\<And>c. c \<in> set pcs \<Longrightarrow> chunk_inv c \<and> chunk_types c = ps"
    and "list_all (\<lambda>c. c < length ts) bords" "list_all (\<lambda>c. c < length ps) pords"
    and "build_fits ts (concat (map chunk_rows bcs))"
    and "\<And>dc. dc \<in> set pcs \<Longrightarrow> join_light bords (concat (map chunk_rows bcs)) dc" and "length bcs < fuel"
  shows "\<exists>cs hj. produces (HashJoin_GetNext fuel bchild pchild) (MakeHashJoinOperator bords pords ts, s) cs (hj, s2) \<and>
    (\<forall>c \<in> set cs. chunk_inv c \<and> chunk_types c = ts @ ps) \<and>
    concat (map chunk_rows cs) = concat (map (\<lambda>p. map (\<lambda>b. map clean_cell b @ map clean_cell p)
      (filter (\<lambda>b. join_key pords p \<noteq> None \<and> join_key bords b = join_key pords p) (concat (map chunk_rows bcs))))
      (concat (map chunk_rows pcs)))"
  using join_produces [OF assms(1-6,7,8,9)] unfolding equi_join_def joined_chunk_def list_all_iff by blast

text \<open>The two children of the example share a state of two lists of chunks.\<close>

definition on_fst :: "('a, 'r) action \<Rightarrow> ('a \<times> 'b, 'r) action" where
  "on_fst m = (\<lambda>(a, b). case m a of (r, a') \<Rightarrow> (r, (a', b)))"

definition on_snd :: "('b, 'r) action \<Rightarrow> ('a \<times> 'b, 'r) action" where
  "on_snd m = (\<lambda>(a, b). case m b of (r, b') \<Rightarrow> (r, (a, b')))"

lemma on_fst_produces: "produces m a cs a' \<Longrightarrow> produces (on_fst m) (a, b) cs (a', b)"
  by (induction rule: produces.induct) (auto simp: on_fst_def intro: produces.intros)

lemma on_snd_produces: "produces m b cs b' \<Longrightarrow> produces (on_snd m) (a, b) cs (a, b')"
  by (induction rule: produces.induct) (auto simp: on_snd_def intro: produces.intros)

lemma pair_chunk:
  obtains dc where "chunk_inv dc" "chunk_types dc = [kInteger, kVarchar]"
    "chunk_rows dc = [[(VInt 7, True), (VString ''a'', True)], [(VInt 5, True), (VString ''b'', True)], [(VInt 7, True), (VString ''c'', True)]]"
    "dc_row_count dc = 3"
  by (rule chunk_of_rows [of "[kInteger, kVarchar]"
        "[[(VInt 7, True), (VString ''a'', True)], [(VInt 5, True), (VString ''b'', True)], [(VInt 7, True), (VString ''c'', True)]]"])
    (auto simp: plain_row_def light_def cell_weight_def null_cell_def kVectorSize_def)

theorem hash_join_is_equi_join_witness:
  "\<exists>b p cs hj. produces (HashJoin_GetNext 5 (on_fst list_source) (on_snd list_source))
      (MakeHashJoinOperator [0] [0] [kInteger, kVarchar], ([b], [p])) cs (hj, ([], [])) \<and>
    concat (map chunk_rows cs) =
      [[(VInt 5, True), (VString ''b'', True), (VInt 5, True)],
       [(VInt 7, True), (VString ''a'', True), (VInt 7, True)], [(VInt 7, True), (VString ''c'', True), (VInt 7, True)]]"
proof -
  obtain b where b: "chunk_inv b" "chunk_types b = [kInteger, kVarchar]"
    "chunk_rows b = [[(VInt 7, True), (VString ''a'', True)], [(VInt 5, True), (VString ''b'', True)], [(VInt 7, True), (VString ''c'', True)]]"
    by (rule pair_chunk)
  obtain p where p: "chunk_inv p" "chunk_types p = [kInteger]"
    "chunk_rows p = [[(VInt 5, True)], [(VInt 0, False)], [(VInt 7, True)]]" "dc_row_count p = 3"
    by (rule number_chunk)
  have bp: "produces (on_fst list_source) ([b], [p]) [b] ([], [p])" by (rule on_fst_produces [OF list_source_produces])
  have pp: "produces (on_snd list_source) ([], [p]) [p] ([], [])" by (rule on_snd_produces [OF list_source_produces])
  have fits: "build_fits [kInteger, kVarchar] (concat (map chunk_rows [b]))"
    by (auto simp: b(3) build_fits_def column_weight_def cell_weight_def less_Suc_eq)
  have li: "join_light [0] (concat (map chunk_rows [b])) p"
    by (simp add: join_light_def b(3) p(3) keyed_def join_key_def light_def cell_weight_def null_cell_def)
  have "\<exists>cs hj. produces (HashJoin_GetNext 5 (on_fst list_source) (on_snd list_source))
      (MakeHashJoinOperator [0] [0] [kInteger, kVarchar], ([b], [p])) cs (hj, ([], [])) \<and>
    (\<forall>c \<in> set cs. chunk_inv c \<and> chunk_types c = [kInteger, kVarchar] @ [kInteger]) \<and>
    concat (map chunk_rows cs) = concat (map (\<lambda>p. map (\<lambda>b. map clean_cell b @ map clean_cell p)
      (filter (\<lambda>b. join_key [0] p \<noteq> None \<and> join_key [0] b = join_key [0] p) (concat (map chunk_rows [b]))))
      (concat (map chunk_rows [p])))"
    by (rule hash_join_is_equi_join [OF bp _ pp]) (use b p fits li in auto)
  moreover have "WriteU32 [] 5 \<noteq> WriteU32 [] (7 :: uint32)" by (simp add: WriteU32_eq le_byte_def upt_rec)
  ultimately show ?thesis
    using b(3) p(3) by (intro exI [of _ b] exI [of _ p]) (auto simp: join_key_def)
qed

text \<open>
  C33: on key columns of the same types, two rows have the same join key exactly when no key
  column is null in either and the key values agree. Floating-point keys agree by their bits.
\<close>

theorem join_key_compares_values:
  assumes "length bords = length pords" and "length ts = length bords"
    and "\<And>i. i < length bords \<Longrightarrow> value_type (fst (b ! (bords ! i))) = ts ! i \<and> value_type (fst (p ! (pords ! i))) = ts ! i"
    and "\<And>i. i < length bords \<Longrightarrow> value_weight (fst (b ! (bords ! i))) < 2 ^ 32 \<and> value_weight (fst (p ! (pords ! i))) < 2 ^ 32"
  shows "(join_key pords p \<noteq> None \<and> join_key bords b = join_key pords p) \<longleftrightarrow>
    (\<forall>i < length bords. snd (b ! (bords ! i)) \<and> snd (p ! (pords ! i)) \<and> fst (b ! (bords ! i)) = fst (p ! (pords ! i)))"
  by (rule join_keys_agree [OF assms])

theorem join_key_compares_values_witness:
  "join_key [0] [(VString ''ab'', True)] = join_key [1] [(VInt 3, False), (VString ''ab'', True)]"
  using join_key_compares_values [of "[0]" "[1]" "[kVarchar]" "[(VString ''ab'', True)]" "[(VInt 3, False), (VString ''ab'', True)]"]
  by simp

text \<open>
  Nothing in the join compares the types of the two key columns, and their keys are raw
  bytes: the integer 1065353216 joins with the float 1.0, and 0.0 does not join with -0.0.
\<close>

theorem join_key_ignores_type:
  "join_key [0] [(VInt 0x3F800000, True)] = join_key [0] [(VFloat (f32_of_int 1), True)] \<and>
   join_key [0] [(VFloat (Float32 0), True)] \<noteq> join_key [0] [(VFloat (Float32 0x80000000), True)] \<and>
   f32_equal (Float32 0) (Float32 0x80000000)"
proof -
  have "f32_of_int 1 = Float32 0x3F800000" by (simp add: float_eval)
  moreover have "f32_equal (Float32 0) (Float32 0x80000000)" by (simp add: float_eval)
  moreover have "WriteU32 [] 0 \<noteq> WriteU32 [] 0x80000000"
    using u32.rd_wr [OF TrueI, of 0] u32.rd_wr [OF TrueI, of "0x80000000"] by (auto simp: parses_def)
  ultimately show ?thesis by (simp add: join_key_def)
qed

section \<open>Aggregation\<close>

text \<open>
  C18: aggregation returns one row per group, in the order in which the groups first appear:
  the key values, nulls being one group, then every aggregate over the rows of the group.
  Without \<open>GROUP BY\<close> there is exactly one group, also for an empty input.
\<close>

theorem aggregation_is_group_by:
  assumes "produces child s cs s'" "\<And>c. c \<in> set cs \<Longrightarrow> chunk_inv c \<and> chunk_types c = ts"
    and "list_all (\<lambda>c. c < length ts) cols" "list_all (spec_ok ts) specs"
    and "length (concat (map chunk_rows cs)) < 2 ^ 31" "list_all light (concat (map chunk_rows cs))" "length cs < fuel"
  shows "\<exists>ds ao. produces (Aggregation_GetNext fuel child) (MakeAggregationOperator cols (map ((!) ts) cols) specs, s) ds (ao, s') \<and>
    (\<forall>d \<in> set ds. chunk_inv d \<and> chunk_types d = map ((!) ts) cols @ map aggregate_type specs) \<and>
    concat (map chunk_rows ds) = (let rows = concat (map chunk_rows cs) in
      map (\<lambda>k. k @ map (\<lambda>spec. aggregate_cell spec (filter (\<lambda>r. key_cells cols r = k) rows)) specs)
        (if cols = [] then [[]] else rev (remdups (rev (map (key_cells cols) rows)))))"
  using aggregation_produces [OF assms]
  unfolding group_by_def group_row_def group_rows_of_def group_list_def aggregated_chunk_def aggregate_types_def list_all_iff Let_def
  by blast

abbreviation count_star :: AggregateSpec where
  "count_star \<equiv> \<lparr>ag_function = kCountStar, ag_argument_column = None, ag_argument_type = kInteger\<rparr>"

abbreviation sum_first :: AggregateSpec where
  "sum_first \<equiv> \<lparr>ag_function = kSum, ag_argument_column = Some 0, ag_argument_type = kInteger\<rparr>"

abbreviation max_second :: AggregateSpec where
  "max_second \<equiv> \<lparr>ag_function = kMax, ag_argument_column = Some 1, ag_argument_type = kVarchar\<rparr>"

theorem aggregation_is_group_by_witness:
  "\<exists>c ds ao. produces (Aggregation_GetNext 5 list_source) (MakeAggregationOperator [0] [kInteger] [count_star, max_second], [c]) ds (ao, []) \<and>
    concat (map chunk_rows ds) =
      [[(VInt 7, True), (VInt 2, True), (VString ''c'', True)], [(VInt 5, True), (VInt 1, True), (VString ''b'', True)]]"
proof -
  obtain c where c: "chunk_inv c" "chunk_types c = [kInteger, kVarchar]"
    "chunk_rows c = [[(VInt 7, True), (VString ''a'', True)], [(VInt 5, True), (VString ''b'', True)], [(VInt 7, True), (VString ''c'', True)]]"
    by (rule pair_chunk)
  have "\<exists>ds ao. produces (Aggregation_GetNext 5 list_source)
      (MakeAggregationOperator [0] (map ((!) [kInteger, kVarchar]) [0]) [count_star, max_second], [c]) ds (ao, []) \<and>
    (\<forall>d \<in> set ds. chunk_inv d \<and> chunk_types d = map ((!) [kInteger, kVarchar]) [0] @ map aggregate_type [count_star, max_second]) \<and>
    concat (map chunk_rows ds) = (let rows = concat (map chunk_rows [c]) in
      map (\<lambda>k. k @ map (\<lambda>spec. aggregate_cell spec (filter (\<lambda>r. key_cells [0] r = k) rows)) [count_star, max_second])
        (if [0 :: nat] = [] then [[]] else rev (remdups (rev (map (key_cells [0]) rows)))))"
    by (rule aggregation_is_group_by [OF list_source_produces])
      (use c in \<open>auto simp: spec_ok_def light_def cell_weight_def\<close>)
  then show ?thesis
    using c(3) by (intro exI [of _ c]) (force simp: key_cells_def Let_def aggregate_cell_def aggregate_output_def accumulated_def
        argument_values_def valid_values_def zone_of_def zone_mv_def zm_Update_def EmptyZoneMap_def std_min_def std_max_def min_or_max_def)
qed

text \<open>
  C34: \<open>MIN\<close> and \<open>MAX\<close> of an integer column are values of the column, and bound all its
  non-null values in signed order; over no value they are null.
\<close>

theorem aggregate_extremum:
  fixes rows :: "cell list list"
  assumes "ag_function spec = f" and "f \<in> {kMin, kMax}" and "ag_argument_type spec = kInteger"
  defines "vs \<equiv> map int_value (argument_values spec rows)"
  shows "if vs = [] then aggregate_cell spec rows = null_cell kInteger
    else \<exists>m \<in> set vs. aggregate_cell spec rows = (VInt m, True) \<and>
      (\<forall>v \<in> set vs. if f = kMin then sint m \<le> sint v else sint v \<le> sint m)"
proof -
  have z: "int_order.zone_covers (zone_of word_sless 0 vs) vs"
    using int_order.zone_covers_fold [of "[]" vs "EmptyZoneMap 0"] int_order.zone_covers_empty
    by (simp add: zone_of_def list_all_iff)
  have "aggregate_cell spec rows = output_cell (aggregate_output (MinMaxIntAcc (zone_of word_sless 0 vs), spec))"
    using assms(1-3) by (auto simp: aggregate_cell_def accumulated_def vs_def Let_def)
  with z assms(1,2) show ?thesis
    by (auto simp: int_order.zone_covers_def aggregate_output_def min_or_max_def word_sless_alt not_less)
qed

theorem aggregate_extremum_witness:
  "\<exists>m \<in> {4, 9}. aggregate_cell \<lparr>ag_function = kMin, ag_argument_column = Some 0, ag_argument_type = kInteger\<rparr>
     [[(VInt 9, True)], [(VInt 0, False)], [(VInt 4, True)]] = (VInt m, True) \<and> sint m \<le> sint (9 :: int32)"
  using aggregate_extremum [of "\<lparr>ag_function = kMin, ag_argument_column = Some 0, ag_argument_type = kInteger\<rparr>" kMin
      "[[(VInt 9, True)], [(VInt 0, False)], [(VInt 4, True)]]"]
  by (auto simp: argument_values_def valid_values_def)

text \<open>
  C35: \<open>SUM\<close> of an integer column. Accumulating any rows of any chunks, one after the other,
  keeps the exact sum of the non-null values in the 64-bit accumulator and skips the nulls, for
  fewer than \<open>2 ^ 31\<close> rows; the value that is put out is this sum modulo \<open>2 ^ 32\<close>, and null when
  every value was null. So the output is the sum itself exactly if that fits into 32 bits.
\<close>

theorem integer_sum_wraps:
  assumes "list_all (\<lambda>(dc, i). chunk_inv dc \<and> i < dc_row_count dc \<and> c < length (chunk_types dc) \<and> chunk_types dc ! c = kInteger) rows"
    and "length rows < 2 ^ 31" and spec: "spec = \<lparr>ag_function = kSum, ag_argument_column = Some c, ag_argument_type = kInteger\<rparr>"
  defines "vs \<equiv> map (int_value \<circ> fst) (filter snd (map (\<lambda>(dc, i). chunk_row dc i ! c) rows))"
  shows "\<exists>a. rfold (\<lambda>(dc, i) acc. AccumulateRow acc dc i spec) rows (MakeAccumulator spec) = Inr (SumIntAcc a) \<and>
    si_sum a = (\<Sum>v \<leftarrow> vs. sint v) \<and>
    aggregate_output (SumIntAcc a, spec) = (kInteger, if vs = [] then None else Some (VInt (word_of_int (\<Sum>v \<leftarrow> vs. sint v)))) \<and>
    (sint (word_of_int (\<Sum>v \<leftarrow> vs. sint v) :: int32) = (\<Sum>v \<leftarrow> vs. sint v) \<longleftrightarrow>
      - (2 ^ 31) \<le> (\<Sum>v \<leftarrow> vs. sint v) \<and> (\<Sum>v \<leftarrow> vs. sint v) < 2 ^ 31)"
proof -
  let ?cells = "map (\<lambda>(dc, i). chunk_row dc i) rows"
  have "rfold (\<lambda>(dc, i) acc. AccumulateRow acc dc i spec) rows (MakeAccumulator spec) = Inr (accumulated spec ?cells)"
    using assms(1,2)
  proof (induction rows rule: rev_induct)
    case Nil
    then show ?case by (simp add: accumulated_Nil)
  next
    case (snoc x rows)
    obtain dc i where x: "x = (dc, i)" by (cases x)
    have inv: "chunk_inv dc" "i < dc_row_count dc" and ok: "spec_ok (chunk_types dc) spec"
      using snoc.prems(1) by (simp_all add: x spec spec_ok_def)
    have "rfold (\<lambda>(dc, i) acc. AccumulateRow acc dc i spec) rows (MakeAccumulator spec) = Inr (accumulated spec (map (\<lambda>(dc, i). chunk_row dc i) rows))"
      by (rule snoc.IH) (use snoc.prems in simp_all)
    with AccumulateRow_spec [OF inv ok, of "map (\<lambda>(dc, i). chunk_row dc i) rows"] snoc.prems(2) show ?case
      by (simp add: x rfold_append)
  qed
  moreover have "map int_value (argument_values spec ?cells) = vs"
    by (simp add: argument_values_def valid_values_def spec vs_def filter_map comp_def case_prod_beta)
  moreover have "argument_values spec ?cells = [] \<longleftrightarrow> vs = []" using calculation(2) by (metis map_is_Nil_conv)
  moreover have "ag_function spec = kSum" "ag_argument_type spec = kInteger" by (simp_all add: spec)
  ultimately have acc: "rfold (\<lambda>(dc, i) acc. AccumulateRow acc dc i spec) rows (MakeAccumulator spec) =
      Inr (SumIntAcc \<lparr>si_has_values = vs \<noteq> [], si_sum = \<Sum>v \<leftarrow> vs. sint v\<rparr>)"
    by (simp only: accumulated_def Let_def AggregateFunctionKind.case if_True refl)
  have "sint (word_of_int x :: int32) = x \<longleftrightarrow> - (2 ^ 31) \<le> x \<and> x < 2 ^ 31" for x :: int
    using sint_ge [of "word_of_int x :: int32"] sint_lt [of "word_of_int x :: int32"]
    by (auto simp: signed_of_int signed_take_bit_int_eq_self)
  with acc show ?thesis by (simp add: aggregate_output_def)
qed

theorem integer_sum_wraps_witness:
  "\<exists>dc a. chunk_rows dc = [[(VInt 0x7FFFFFFF, True)], [(VInt 0, False)], [(VInt 1, True)]] \<and>
    rfold (\<lambda>(dc, i) acc. AccumulateRow acc dc i sum_first) [(dc, 0), (dc, 1), (dc, 2)] (MakeAccumulator sum_first) = Inr (SumIntAcc a) \<and>
    si_sum a = 0x80000000 \<and> aggregate_output (SumIntAcc a, sum_first) = (kInteger, Some (VInt 0x80000000))"
proof -
  obtain dc where dc: "chunk_inv dc" "chunk_types dc = [kInteger]"
    "chunk_rows dc = [[(VInt 0x7FFFFFFF, True)], [(VInt 0, False)], [(VInt 1, True)]]" "dc_row_count dc = 3"
    by (rule chunk_of_rows [of "[kInteger]" "[[(VInt 0x7FFFFFFF, True)], [(VInt 0, False)], [(VInt 1, True)]]"])
      (auto simp: plain_row_def light_def cell_weight_def null_cell_def kVectorSize_def)
  have "filter (row_selected dc) [0..<3] = [0..<3]"
    using arg_cong [OF dc(3), of length] length_filter_less [of _ "[0..<3]" "row_selected dc"] dc(4)
    by (fastforce simp: chunk_rows_def filter_id_conv)
  then have "map (chunk_row dc) [0..<3] = [[(VInt 0x7FFFFFFF, True)], [(VInt 0, False)], [(VInt 1, True)]]"
    using dc(3,4) by (simp add: chunk_rows_def)
  then have rows: "chunk_row dc 0 = [(VInt 0x7FFFFFFF, True)]" "chunk_row dc 1 = [(VInt 0, False)]" "chunk_row dc 2 = [(VInt 1, True)]"
    by (simp_all add: upt_rec numeral_3_eq_3 numeral_2_eq_2)
  have "\<exists>a. rfold (\<lambda>(dc, i) acc. AccumulateRow acc dc i sum_first) [(dc, 0), (dc, 1), (dc, 2)] (MakeAccumulator sum_first) = Inr (SumIntAcc a) \<and>
    si_sum a = 0x80000000 \<and> aggregate_output (SumIntAcc a, sum_first) = (kInteger, Some (VInt 0x80000000))"
    using integer_sum_wraps [of 0 "[(dc, 0), (dc, 1), (dc, 2)]" sum_first, OF _ _ refl] dc(1,2,4)
    by (auto simp: rows rows(2) [unfolded One_nat_def] simp del: rfold.simps)
  with dc(3) show ?thesis by blast
qed

section \<open>Limits of the implementation\<close>

text \<open>
  C37: the scan of a \<open>VARCHAR\<close> column reads one page of the validity bitmap only. Let a row
  group be stored as an insert stores it, and let the validity bit of the first row of a vector
  lie behind the first page of the bitmap. Then reading the vector of that column indexes the
  page out of bounds, whatever the values are: it takes the validity bit from the memory of
  another frame or from behind the pool, which the model has as undefined behaviour. In a full
  row group this is so for the fourth column from row 2048 on, and for all rows of later columns.
\<close>

theorem varchar_validity_out_of_bounds:
  assumes "pool_inv s" "spare_frames 2 s" "group_holds (pool_page s) rg cellss"
    and "c < length cellss" "cells_of_type kVarchar (cellss ! c)"
    and "unat vi * kVectorSize < unat (rg_row_count rg)"
    and "kPageSizeBytes \<le> c * ((unat (rg_row_count rg) + 7) div 8) + unat vi * kVectorSize div 8"
  shows "fst (AppendVarchar chunk rg c (vi * 1024) (vector_rows (unat (rg_row_count rg)) (unat vi)) s) =
    Inl (UndefinedBehaviour ''vector index out of range'')"
  by (rule AppendVarchar_beyond [OF assms(1,3-5,2,6,7)])

text \<open>The instance is a full row group of four \<open>VARCHAR\<close> columns, read from row 2048 on.\<close>

definition four_columns :: "ColumnDef list" where
  "four_columns = map (\<lambda>i. \<lparr>cd_name = ''v'', cd_type = kVarchar, cd_ordinal = word_of_nat i\<rparr>) [0..<4]"

definition four_entry :: TableSchemaEntry where
  "four_entry = \<lparr>ts_table_id = 1, ts_table_name = ''w'', ts_columns = four_columns\<rparr>"

lemma staged_rows_exist:
  fixes table :: TableObject
  assumes "row_ok (map cd_type (to_columns table)) row" "n \<le> kRowGroupSize"
  shows "\<exists>st. staged (map cd_type (to_columns table)) st (replicate n row)"
  using assms(2)
proof (induction n)
  case 0
  then show ?case using staged_empty [of table] by auto
next
  case (Suc n)
  then obtain st where "staged (map cd_type (to_columns table)) st (replicate n row)" by auto
  from AppendRow_spec [OF this assms(1)] Suc.prems show ?case by (auto simp: replicate_append_same)
qed

lemma full_group:
  obtains dm rg cs where "dm_inv dm" "group_holds (dm_page dm) rg cs" "rg_row_count rg = 10240" "length cs = 4"
    "cells_of_type kVarchar (cs ! 3)"
proof -
  let ?cat = "with_table ''w'' four_columns example_catalog" and ?G = "example_groups(''w'' := [])"
  let ?t = "loaded_table four_entry []" and ?ts = "replicate 4 kVarchar" and ?row = "replicate 4 (VString ''x'')"
  have ts: "map cd_type four_columns = ?ts" by (simp add: four_columns_def map_replicate_const comp_def)
  have holds: "catalog_holds ?cat ?G"
    by (rule with_table_holds [OF example_catalog_holds])
      (simp_all add: example_catalog_def tables_of_def example_schema_def string_ok_def four_columns_def column_def_ok_def list_all_iff)
  have cat: "four_entry \<in> set (ss_tables (cat_schema ?cat))" "cat_disk ?cat = example_disk"
    by (simp_all add: with_table_def ss_AddTable_def example_catalog_def example_schema_def four_entry_def Let_def)
  have ready: "insert_ready ?ts four_entry ?G [] [] (\<lparr>ie_table = ?t, ie_staging = MakeStaging ?t\<rparr>, ?cat)"
    using holds cat staged_empty [of ?t] by (simp add: insert_ready_def four_entry_def ts kRowGroupSize_def groups_stored_def)
  have ok: "row_ok ?ts ?row" by (simp add: row_ok_def)
  have "\<exists>st. staged (map cd_type (to_columns ?t)) st (replicate 10240 ?row)"
    by (rule staged_rows_exist) (use ok in \<open>simp_all add: four_entry_def ts kRowGroupSize_def\<close>)
  then obtain st where st: "staged ?ts st (replicate 10240 ?row)" by (auto simp: four_entry_def ts)
  show thesis
  proof (rule flush_staged [OF ready st])
    fix rg cs ie' cat'
    assume new: "insert_ready ?ts four_entry (?G(ts_table_name four_entry := ?G (ts_table_name four_entry) @ [rg])) ([] @ [cs]) [] (ie', cat')"
      and rows: "table_rows [rg] [cs] = map literal_row (replicate 10240 ?row)"
    have g: "group_holds (dm_page (cat_disk cat')) rg cs" "dm_inv (cat_disk cat')"
      using new by (simp_all add: insert_ready_def groups_stored_def four_entry_def catalog_holds_def)
    have rc: "unat (rg_row_count rg) = 10240" using arg_cong [OF rows, of length] by (simp add: table_rows_def cells_rows_def)
    have row: "map (\<lambda>cells. cells ! i) cs = literal_row ?row" if "i < 10240" for i
      using arg_cong [OF rows, of "\<lambda>xs. xs ! i"] that by (simp add: table_rows_def cells_rows_def rc)
    have len: "length cs = 4" using arg_cong [OF row [of 0], of length] by (simp add: literal_row_def)
    have "cs ! 3 ! i = (VString ''x'', True)" if "i < 10240" for i
      using arg_cong [OF row [OF that], of "\<lambda>xs. xs ! 3"] len by (simp add: literal_row_def)
    moreover have "length (cs ! 3) = 10240" using g(1) len rc by (simp add: group_holds_def list_all_length)
    ultimately have "cells_of_type kVarchar (cs ! 3)" by (simp add: cells_of_type_def list_all_length)
    moreover have "rg_row_count rg = 10240" using rc by (intro word_unat_eq_iff [THEN iffD2]) simp
    ultimately show thesis using that g len by blast
  qed (use cat(2) in \<open>simp_all add: kRowGroupSize_def kGroupPages_def kColumnPages_def example_disk_def example_header_def\<close>)
qed

theorem varchar_validity_out_of_bounds_witness:
  "\<exists>rg s chunk. rg_row_count rg = 10240 \<and>
     fst (AppendVarchar chunk rg 3 2048 1024 s) = Inl (UndefinedBehaviour ''vector index out of range'')"
proof -
  obtain dm rg cs where g: "dm_inv dm" "group_holds (dm_page dm) rg cs" "rg_row_count rg = 10240" "length cs = 4"
    "cells_of_type kVarchar (cs ! 3)" by (rule full_group)
  let ?s = "(MakeBufferPoolManager 2, dm)"
  note pool = pool_inv_empty [OF g(1), of 2, simplified]
  have "spare_frames 2 ?s" by (simp add: spare_frames_def pool(3)) (simp add: MakeBufferPoolManager_def)
  then have "fst (AppendVarchar undefined rg 3 (2 * 1024) (vector_rows (unat (rg_row_count rg)) (unat (2 :: uint32))) ?s) =
      Inl (UndefinedBehaviour ''vector index out of range'')"
    by (intro varchar_validity_out_of_bounds [where cellss = cs])
      (use pool g in \<open>simp_all add: kVectorSize_def kPageSizeBytes_def\<close>)
  then show ?thesis using g(3) by (intro exI [of _ rg] exI [of _ ?s] exI [of _ undefined]) (simp add: vector_rows_def kVectorSize_def)
qed

text \<open>
  A skip condition must have the type of its column: an integer constant on a float
  column ends the scan with \<open>std::bad_variant_access\<close>.
\<close>

theorem skip_condition_type_error:
  assumes "rg_columns rg ! zs_ordinal cond = FloatEntry e" and "zs_ordinal cond < length (rg_columns rg)"
    and "zs_constant cond = ZoneInt k"
  shows "ZoneMapRulesOutRowGroup rg cond = Inl BadVariantAccess"
  using assms by (simp add: ZoneMapRulesOutRowGroup_def rg_Column_def)

theorem skip_condition_type_error_witness:
  "ZoneMapRulesOutRowGroup
     \<lparr>rg_table_id = 0, rg_row_count = 1, rg_validity_bitmap_region = \<lparr>start_page_id = 2, page_count = 1\<rparr>,
      rg_columns = [FloatEntry \<lparr>fe_pages = \<lparr>start_page_id = 1, page_count = 1\<rparr>, fe_null_count = 0, fe_zone_map = EmptyZoneMap f32_zero\<rparr>]\<rparr>
     above_six = Inl BadVariantAccess"
  by (rule skip_condition_type_error) (simp_all add: above_six_def)

text \<open>
  A row group whose strings are all empty cannot be stored: the data region would have no
  page, and the allocation of no pages is refused.
\<close>

theorem empty_region_refused: "\<exists>e. pad_and_write [] dm = (Inl e, dm)"
  by (simp add: pad_and_write_def AllocatePages_def sbind_def kPageSizeBytes_def Let_def)

end
