(* ===== verification/Ast.thy ===== *)
theory Ast
  imports Expressions
begin

text \<open>
  \<open>binder/ast\<close>: the statements that the parser builds and the binder reads. Nothing is resolved
  or typed here: names are strings and literals have the widths of the SQL parser.

  A \<open>unique_ptr\<close> to a child is the child; where the code looks at the pointer being null, it is
  an option. The node types that \<open>bound_expression\<close> has under the same name carry the prefix
  \<open>Raw\<close>.
\<close>

section \<open>Expressions\<close>

record RawColumnRefNode =
  rc_table_qualifier :: "string option"
  rc_column_name :: string

datatype RawConstNode = NullLiteral | IntLiteral int64 | DoubleLiteral float64 | StringLiteral string

datatype RawExpression =
    RawColumnRef RawColumnRefNode
  | RawConst RawConstNode
  | RawBinaryOp BinaryOperator RawExpression RawExpression
  | RawUnaryOp UnaryOperator RawExpression
  | RawFunctionCall (fc_name: string) (fc_args: "RawExpression list") (fc_is_star_arg: bool)

section \<open>Table references\<close>

datatype TableRefNode =
    BaseTableRefNode string "string option"
  | JoinRefNode "TableRefNode option" "TableRefNode option" "RawExpression option"

section \<open>Statements\<close>

record SelectItem =
  si_is_wildcard :: bool
  si_expression :: "RawExpression option"

record SelectNode =
  select_list :: "SelectItem list"
  from_tables :: "TableRefNode list"
  where_clause :: "RawExpression option"
  sel_group_by :: "RawExpression list"
  having_clause :: "RawExpression option"
  has_distinct :: bool
  has_order_by :: bool
  has_limit :: bool
  has_with_clause :: bool
  has_set_operation :: bool

record InsertNode =
  in_table_name :: string
  in_columns :: "string list"
  in_value_rows :: "RawExpression list list"

record RawColumnDef =
  rd_name :: string
  rd_raw_type_name :: string

record CreateTableNode =
  ct_table_name :: string
  ct_columns :: "RawColumnDef list"

section \<open>Constructors\<close>

definition MakeRawColumnRef :: "string option \<Rightarrow> string \<Rightarrow> RawExpression" where
  "MakeRawColumnRef qualifier column_name =
     RawColumnRef \<lparr>rc_table_qualifier = qualifier, rc_column_name = column_name\<rparr>"

definition MakeNullConst :: RawExpression where
  "MakeNullConst = RawConst NullLiteral"

definition MakeRawIntConst :: "int64 \<Rightarrow> RawExpression" where
  "MakeRawIntConst v = RawConst (IntLiteral v)"

definition MakeRawFloatConst :: "float64 \<Rightarrow> RawExpression" where
  "MakeRawFloatConst v = RawConst (DoubleLiteral v)"

definition MakeRawStringConst :: "string \<Rightarrow> RawExpression" where
  "MakeRawStringConst v = RawConst (StringLiteral v)"

definition MakeBinaryOp :: "BinaryOperator \<Rightarrow> RawExpression \<Rightarrow> RawExpression \<Rightarrow> RawExpression" where
  "MakeBinaryOp op left right = RawBinaryOp op left right"

definition MakeUnaryOp :: "UnaryOperator \<Rightarrow> RawExpression \<Rightarrow> RawExpression" where
  "MakeUnaryOp op operand = RawUnaryOp op operand"

definition MakeFunctionCall :: "string \<Rightarrow> RawExpression list \<Rightarrow> bool \<Rightarrow> RawExpression" where
  "MakeFunctionCall name args is_star_arg = RawFunctionCall name args is_star_arg"

definition MakeBaseTableRef :: "string \<Rightarrow> string option \<Rightarrow> TableRefNode" where
  "MakeBaseTableRef table_name alias = BaseTableRefNode table_name alias"

definition MakeJoinRef :: "TableRefNode \<Rightarrow> TableRefNode \<Rightarrow> RawExpression option \<Rightarrow> TableRefNode" where
  "MakeJoinRef left right on_condition = JoinRefNode (Some left) (Some right) on_condition"

end
