(* ===== verification/Resolution.thy ===== *)
theory Resolution
  imports Ast Catalog
begin

text \<open>
  \<open>binder/resolution\<close>: the tables of a \<open>FROM\<close> clause, by binding, and the columns that names
  resolve to. A binding points to its table in the catalog, which no statement changes while it
  is bound; the table is kept in the binding.
\<close>

section \<open>ResolutionScope\<close>

record ResolvedTableBinding =
  rb_binding_id :: uint32
  rb_binding_name :: string
  rb_table :: TableObject

type_synonym ResolutionScope = "ResolvedTableBinding list"

definition quoted :: "string \<Rightarrow> string" where
  "quoted s = [CHR 0x27] @ s @ [CHR 0x27]"

definition RegisterTable :: "string \<Rightarrow> string option \<Rightarrow> Catalog \<Rightarrow> (ResolutionScope, uint32) action" where
  "RegisterTable table_name alias catalog bindings =
     (case GetTable catalog table_name of
        None \<Rightarrow> (Inl (ResolutionError (''Unknown table: '' @ table_name)), bindings)
      | Some table \<Rightarrow>
          let binding_name = (case alias of None \<Rightarrow> table_name | Some a \<Rightarrow> a)
          in if list_ex (\<lambda>existing. rb_binding_name existing = binding_name) bindings
             then (Inl (ResolutionError (''Duplicate table reference '' @ quoted binding_name @
               '' in FROM/JOIN -- a repeated table (self-join) requires distinct aliases'')), bindings)
             else let binding_id = word_of_nat (length bindings)
                  in (Inr binding_id, bindings @ [\<lparr>rb_binding_id = binding_id,
                        rb_binding_name = binding_name, rb_table = table\<rparr>]))"

definition column_of_binding :: "ResolvedTableBinding \<Rightarrow> ColumnDef \<Rightarrow> BoundColumnRef" where
  "column_of_binding binding col =
     \<lparr>cr_table_id = rb_binding_id binding, cr_ordinal = cd_ordinal col, cr_type = cd_type col\<rparr>"

definition resolve_qualified :: "ResolutionScope \<Rightarrow> string \<Rightarrow> string \<Rightarrow> BoundColumnRef result" where
  "resolve_qualified bindings qualifier column_name =
     (case find (\<lambda>binding. rb_binding_name binding = qualifier) bindings of
        None \<Rightarrow> Inl (ResolutionError (''Unknown table alias or name: '' @ qualifier))
      | Some binding \<Rightarrow>
          rbind (FindColumn (rb_table binding) column_name) (\<lambda>col.
            case col of
              None \<Rightarrow> Inl (ResolutionError (''Column '' @ quoted column_name @ '' not found in '' @ quoted qualifier))
            | Some col \<Rightarrow> Inr (column_of_binding binding col)))"

text \<open>One turn of the loop over the bindings for an unqualified name.\<close>

definition resolve_step ::
    "string \<Rightarrow> ResolvedTableBinding \<Rightarrow> BoundColumnRef option \<Rightarrow> BoundColumnRef option result" where
  "resolve_step column_name binding found =
     rbind (FindColumn (rb_table binding) column_name) (\<lambda>col.
       case col of
         None \<Rightarrow> Inr found
       | Some col \<Rightarrow>
           (if found \<noteq> None then Inl (ResolutionError (''Ambiguous column reference: '' @ column_name))
            else Inr (Some (column_of_binding binding col))))"

definition Resolve :: "ResolutionScope \<Rightarrow> RawColumnRefNode \<Rightarrow> BoundColumnRef result" where
  "Resolve bindings column_ref =
     (case rc_table_qualifier column_ref of
        Some qualifier \<Rightarrow> resolve_qualified bindings qualifier (rc_column_name column_ref)
      | None \<Rightarrow>
          rbind (rfold (resolve_step (rc_column_name column_ref)) bindings None) (\<lambda>found.
            case found of
              None \<Rightarrow> Inl (ResolutionError (''Column not found: '' @ rc_column_name column_ref))
            | Some ref \<Rightarrow> Inr ref))"

definition BindingFor :: "ResolutionScope \<Rightarrow> uint32 \<Rightarrow> ResolvedTableBinding result" where
  "BindingFor bindings binding_id =
     (if unat binding_id < length bindings then Inr (bindings ! unat binding_id)
      else Inl (OutOfRange ''vector::_M_range_check''))"

section \<open>Tables and their columns\<close>

text \<open>Columns are numbered by position, and the name index points to the first of a name.\<close>

definition table_ok :: "TableObject \<Rightarrow> bool" where
  "table_ok t = (length (to_columns t) < 2 ^ 32 \<and>
     (\<forall>i < length (to_columns t). cd_ordinal (to_columns t ! i) = word_of_nat i) \<and>
     to_column_ordinal_map t = to_column_ordinal_map (MakeTableObject (to_table_id t) (to_table_name t) (to_columns t)))"

definition has_column :: "TableObject \<Rightarrow> string \<Rightarrow> bool" where
  "has_column t name = (name \<in> cd_name ` set (to_columns t))"

definition named_column :: "TableObject \<Rightarrow> string \<Rightarrow> ColumnDef option" where
  "named_column t name = find (\<lambda>c. cd_name c = name) (to_columns t)"

lemma map_of_emplace: "map_of (emplace k v m) k' = (if k' = k \<and> map_of m k = None then Some v else map_of m k')"
  by (auto simp: emplace_def map_add_def split: option.splits)

lemma map_of_emplaced:
  "map_of (fold (\<lambda>c m. emplace (cd_name c) (cd_ordinal c) m) cs m) name =
     (case map_of m name of Some v \<Rightarrow> Some v | None \<Rightarrow> map_option cd_ordinal (find (\<lambda>c. cd_name c = name) cs))"
proof (induction cs arbitrary: m)
  case (Cons c cs)
  show ?case by (auto simp: Cons.IH map_of_emplace split: option.splits)
qed (simp split: option.split)

lemma find_nth: "find P xs = Some x \<Longrightarrow> \<exists>i < length xs. xs ! i = x \<and> P x"
  by (auto simp: find_Some_iff)

lemma FindColumn_spec:
  assumes "table_ok t"
  shows "FindColumn t name = Inr (named_column t name)"
proof -
  have idx: "map_of (to_column_ordinal_map t) name = map_option cd_ordinal (named_column t name)"
    using assms map_of_emplaced [of "to_columns t" "[]" name]
    by (simp add: table_ok_def MakeTableObject_def named_column_def)
  show ?thesis
  proof (cases "named_column t name")
    case (Some c)
    then obtain i where i: "i < length (to_columns t)" "to_columns t ! i = c"
      unfolding named_column_def using find_nth by fast
    moreover have "unat (cd_ordinal c) = i"
      using assms i by (auto simp: table_ok_def)
    ultimately show ?thesis by (simp add: FindColumn_def idx Some to_Column_def vec_at_def)
  qed (simp add: FindColumn_def idx)
qed

lemma named_column_Some:
  assumes "table_ok t" and "named_column t name = Some c"
  shows "unat (cd_ordinal c) < length (to_columns t)" "to_columns t ! unat (cd_ordinal c) = c" "cd_name c = name"
proof -
  obtain i where i: "i < length (to_columns t)" "to_columns t ! i = c" "cd_name c = name"
    using assms(2) unfolding named_column_def using find_nth by fast
  moreover have "unat (cd_ordinal c) = i" using assms(1) i by (auto simp: table_ok_def)
  ultimately show "unat (cd_ordinal c) < length (to_columns t)" "to_columns t ! unat (cd_ordinal c) = c" "cd_name c = name"
    by simp_all
qed

lemma named_column_iff: "named_column t name \<noteq> None \<longleftrightarrow> has_column t name"
  by (auto simp: named_column_def has_column_def find_None_iff image_iff)

section \<open>Scopes\<close>

definition scope_ok :: "ResolutionScope \<Rightarrow> bool" where
  "scope_ok bindings = (length bindings < 2 ^ 32 \<and> distinct (map rb_binding_name bindings) \<and>
     (\<forall>i < length bindings. rb_binding_id (bindings ! i) = word_of_nat i) \<and>
     list_all (\<lambda>b. table_ok (rb_table b)) bindings)"

definition catalog_tables_ok :: "Catalog \<Rightarrow> bool" where
  "catalog_tables_ok c = (\<forall>name t. GetTable c name = Some t \<longrightarrow> table_ok t)"

text \<open>A reference is to a column of a binding, with its type.\<close>

definition ref_in_scope :: "ResolutionScope \<Rightarrow> BoundColumnRef \<Rightarrow> bool" where
  "ref_in_scope bindings ref = (\<exists>b \<in> set bindings. cr_table_id ref = rb_binding_id b \<and>
     unat (cr_ordinal ref) < length (to_columns (rb_table b)) \<and>
     cd_type (to_columns (rb_table b) ! unat (cr_ordinal ref)) = cr_type ref)"

lemma scope_ok_Nil [simp]: "scope_ok []"
  by (simp add: scope_ok_def)

lemma scope_ok_table: "scope_ok bs \<Longrightarrow> b \<in> set bs \<Longrightarrow> table_ok (rb_table b)"
  by (simp add: scope_ok_def list_all_iff)

lemma RegisterTable_ok:
  assumes "scope_ok bs" and "catalog_tables_ok c" and "RegisterTable name alias c bs = (Inr i, bs')" and "length bs' < 2 ^ 32"
  obtains t where "GetTable c name = Some t" "i = word_of_nat (length bs)" "scope_ok bs'"
    "bs' = bs @ [\<lparr>rb_binding_id = i, rb_binding_name = (case alias of None \<Rightarrow> name | Some a \<Rightarrow> a), rb_table = t\<rparr>]"
proof -
  from assms(3) obtain t where t: "GetTable c name = Some t"
    "\<not> list_ex (\<lambda>b. rb_binding_name b = (case alias of None \<Rightarrow> name | Some a \<Rightarrow> a)) bs" "i = word_of_nat (length bs)"
    "bs' = bs @ [\<lparr>rb_binding_id = i, rb_binding_name = (case alias of None \<Rightarrow> name | Some a \<Rightarrow> a), rb_table = t\<rparr>]"
    by (auto simp: RegisterTable_def Let_def split: option.splits if_splits)
  moreover have "scope_ok bs'"
    using assms(1,2,4) t by (auto simp: scope_ok_def catalog_tables_ok_def nth_append list_ex_iff less_Suc_eq)
  ultimately show thesis by (intro that)
qed

lemma column_of_binding_in_scope:
  assumes "scope_ok bs" and "b \<in> set bs" and "named_column (rb_table b) name = Some c"
  shows "ref_in_scope bs (column_of_binding b c)"
  using named_column_Some [OF scope_ok_table [OF assms(1,2)] assms(3)] assms(2)
  by (auto simp: ref_in_scope_def column_of_binding_def)

text \<open>The bindings that have a column of a name, with the column.\<close>

definition candidates :: "ResolutionScope \<Rightarrow> string \<Rightarrow> BoundColumnRef list" where
  "candidates bindings name = concat (map (\<lambda>b.
     case named_column (rb_table b) name of None \<Rightarrow> [] | Some c \<Rightarrow> [column_of_binding b c]) bindings)"

lemma rfold_resolve_step:
  assumes "list_all (\<lambda>b. table_ok (rb_table b)) bs"
  shows "rfold (resolve_step name) bs found =
    (case (case found of None \<Rightarrow> [] | Some r \<Rightarrow> [r]) @ candidates bs name of
       [] \<Rightarrow> Inr None | [r] \<Rightarrow> Inr (Some r) | _ \<Rightarrow> Inl (ResolutionError (''Ambiguous column reference: '' @ name)))"
  using assms
proof (induction bs arbitrary: found)
  case (Cons b bs)
  then show ?case
    by (cases "named_column (rb_table b) name"; cases found)
      (simp_all add: candidates_def resolve_step_def FindColumn_spec)
qed (simp add: candidates_def split: option.split)

lemma candidates_in_scope: "scope_ok bs \<Longrightarrow> ref \<in> set (candidates bs name) \<Longrightarrow> ref_in_scope bs ref"
  by (auto simp: candidates_def column_of_binding_in_scope split: option.splits)

lemma Resolve_unqualified:
  assumes "scope_ok bs" and "rc_table_qualifier r = None"
  shows "Resolve bs r = (case candidates bs (rc_column_name r) of
     [] \<Rightarrow> Inl (ResolutionError (''Column not found: '' @ rc_column_name r))
   | [ref] \<Rightarrow> Inr ref
   | _ \<Rightarrow> Inl (ResolutionError (''Ambiguous column reference: '' @ rc_column_name r)))"
  using assms by (simp add: Resolve_def rfold_resolve_step scope_ok_def split: list.split)

lemma Resolve_qualified:
  assumes "scope_ok bs" and "rc_table_qualifier r = Some q"
  shows "Resolve bs r = (case find (\<lambda>b. rb_binding_name b = q) bs of
     None \<Rightarrow> Inl (ResolutionError (''Unknown table alias or name: '' @ q))
   | Some b \<Rightarrow> (case named_column (rb_table b) (rc_column_name r) of
       None \<Rightarrow> Inl (ResolutionError (''Column '' @ quoted (rc_column_name r) @ '' not found in '' @ quoted q))
     | Some c \<Rightarrow> Inr (column_of_binding b c)))"
proof -
  have "table_ok (rb_table b)" if "find (\<lambda>b. rb_binding_name b = q) bs = Some b" for b
    using find_nth [OF that] scope_ok_table [OF assms(1)] by auto
  then show ?thesis using assms(2)
    by (auto simp: Resolve_def resolve_qualified_def FindColumn_spec split: option.split)
qed

lemma Resolve_in_scope:
  assumes "scope_ok bs" and "Resolve bs r = Inr ref"
  shows "ref_in_scope bs ref"
proof (cases "rc_table_qualifier r")
  case None
  then have "ref \<in> set (candidates bs (rc_column_name r))"
    using assms by (auto simp: Resolve_unqualified split: list.splits)
  with assms(1) show ?thesis by (rule candidates_in_scope)
next
  case (Some q)
  then obtain b c where "find (\<lambda>b. rb_binding_name b = q) bs = Some b"
    "named_column (rb_table b) (rc_column_name r) = Some c" "ref = column_of_binding b c"
    using assms by (auto simp: Resolve_qualified split: option.splits)
  moreover have "b \<in> set bs" using find_nth [OF calculation(1)] by auto
  ultimately show ?thesis by (simp add: column_of_binding_in_scope [OF assms(1)])
qed

end
