(* ===== verification/LogicalPlan.thy ===== *)
theory LogicalPlan
  imports Expressions
begin

text \<open>
  \<open>binder/logical_plan\<close> and \<open>optimizer/predicate_utils\<close>: the plans that the binder builds and
  the optimizer rewrites, and the functions on predicates that the rewriting uses.

  A column reference of a plan names a column by the binding of its table in the \<open>FROM\<close> clause
  and its ordinal there; the output of an aggregate has the reserved binding
  \<open>kAggregateOutputBindingId\<close>. A \<open>unique_ptr\<close> to a node is the node, and a function that
  consumes or mutates a plan is a function from plans to plans.
\<close>

section \<open>Plan nodes\<close>

record OutputColumn =
  oc_display_name :: string
  oc_type :: ExpressionType

record LogicalScan =
  ls_binding_id :: uint32
  ls_physical_table_id :: uint32
  ls_output_columns :: "OutputColumn list"
  ls_required_ordinals :: "uint32 list"

datatype LogicalAggregateKind = aggCountStar | aggCount | aggSum | aggAvg | aggMin | aggMax

record AggregateCall =
  ac_function :: LogicalAggregateKind
  ac_argument :: "BoundColumnRef option"

definition kAggregateOutputBindingId :: uint32 where
  "kAggregateOutputBindingId = 0xFFFFFFFF"

datatype LogicalPlanNode =
    ScanNode LogicalScan
  | FilterNode LogicalPlanNode BoundExpression
  | JoinNode LogicalPlanNode LogicalPlanNode "(BoundColumnRef \<times> BoundColumnRef) list"
  | AggregateNode LogicalPlanNode "BoundColumnRef list" "AggregateCall list" "OutputColumn list"
  | ProjectionNode LogicalPlanNode "BoundExpression list" "OutputColumn list"

fun OutputSchema :: "LogicalPlanNode \<Rightarrow> OutputColumn list result" where
  "OutputSchema (ScanNode n) =
     rmap (\<lambda>ordinal. vec_at (ls_output_columns n) (unat ordinal)) (ls_required_ordinals n)"
| "OutputSchema (AggregateNode input group_by aggregates output_columns) = Inr output_columns"
| "OutputSchema (ProjectionNode input select_expressions output_columns) = Inr output_columns"
| "OutputSchema (FilterNode input predicate) = OutputSchema input"
| "OutputSchema (JoinNode left right equi_conditions) =
     rbind (OutputSchema left) (\<lambda>left_cols.
     rbind (OutputSchema right) (\<lambda>right_cols. Inr (left_cols @ right_cols)))"

fun CollectBindingIds :: "LogicalPlanNode \<Rightarrow> uint32 list" where
  "CollectBindingIds (ScanNode n) = [ls_binding_id n]"
| "CollectBindingIds (JoinNode left right equi_conditions) = CollectBindingIds left @ CollectBindingIds right"
| "CollectBindingIds (FilterNode input predicate) = CollectBindingIds input"
| "CollectBindingIds (AggregateNode input group_by aggregates output_columns) = CollectBindingIds input"
| "CollectBindingIds (ProjectionNode input select_expressions output_columns) = CollectBindingIds input"

definition MakeLogicalScan :: "uint32 \<Rightarrow> uint32 \<Rightarrow> OutputColumn list \<Rightarrow> LogicalPlanNode" where
  "MakeLogicalScan binding_id physical_table_id output_columns =
     (let all_ordinals = map word_of_nat [0..<length output_columns]
      in ScanNode \<lparr>ls_binding_id = binding_id, ls_physical_table_id = physical_table_id,
           ls_output_columns = output_columns, ls_required_ordinals = all_ordinals\<rparr>)"

definition MakeLogicalFilter :: "LogicalPlanNode \<Rightarrow> BoundExpression \<Rightarrow> LogicalPlanNode" where
  "MakeLogicalFilter input predicate = FilterNode input predicate"

definition MakeLogicalJoin ::
    "LogicalPlanNode \<Rightarrow> LogicalPlanNode \<Rightarrow> (BoundColumnRef \<times> BoundColumnRef) list \<Rightarrow> LogicalPlanNode" where
  "MakeLogicalJoin left right equi_conditions = JoinNode left right equi_conditions"

definition MakeLogicalAggregate ::
    "LogicalPlanNode \<Rightarrow> BoundColumnRef list \<Rightarrow> AggregateCall list \<Rightarrow> OutputColumn list \<Rightarrow> LogicalPlanNode" where
  "MakeLogicalAggregate input group_by aggregates output_columns =
     AggregateNode input group_by aggregates output_columns"

definition MakeLogicalProjection ::
    "LogicalPlanNode \<Rightarrow> BoundExpression list \<Rightarrow> OutputColumn list \<Rightarrow> LogicalPlanNode" where
  "MakeLogicalProjection input select_expressions output_columns =
     ProjectionNode input select_expressions output_columns"

section \<open>Predicates\<close>

fun FlattenConjuncts_into :: "BoundExpression \<Rightarrow> BoundExpression list \<Rightarrow> BoundExpression list" where
  "FlattenConjuncts_into (BinaryOpNode op l r t) out =
     (if op = kAnd then FlattenConjuncts_into r (FlattenConjuncts_into l out)
      else out @ [BinaryOpNode op l r t])"
| "FlattenConjuncts_into expr out = out @ [expr]"

definition FlattenConjuncts :: "BoundExpression \<Rightarrow> BoundExpression list" where
  "FlattenConjuncts expr = FlattenConjuncts_into expr []"

fun ExtractConjuncts_into :: "BoundExpression \<Rightarrow> BoundExpression list \<Rightarrow> BoundExpression list" where
  "ExtractConjuncts_into (BinaryOpNode op l r t) out =
     (if op = kAnd then ExtractConjuncts_into r (ExtractConjuncts_into l out)
      else out @ [BinaryOpNode op l r t])"
| "ExtractConjuncts_into expr out = out @ [expr]"

definition ExtractConjuncts :: "BoundExpression \<Rightarrow> BoundExpression list" where
  "ExtractConjuncts expr = ExtractConjuncts_into expr []"

text \<open>The first conjunct is read unchecked; the callers pass a non-empty list.\<close>

definition RebuildConjunction :: "BoundExpression list \<Rightarrow> BoundExpression" where
  "RebuildConjunction conjuncts =
     fold (\<lambda>c result. MakeBooleanOp kAnd result c) (tl conjuncts) (hd conjuncts)"

fun CollectColumnRefs_into :: "BoundExpression \<Rightarrow> BoundColumnRef list \<Rightarrow> BoundColumnRef list" where
  "CollectColumnRefs_into (ColumnRefNode ref) out = out @ [ref]"
| "CollectColumnRefs_into (BinaryOpNode op l r t) out = CollectColumnRefs_into r (CollectColumnRefs_into l out)"
| "CollectColumnRefs_into (UnaryOpNode op e) out = CollectColumnRefs_into e out"
| "CollectColumnRefs_into (ConstNode v) out = out"

definition CollectColumnRefs :: "BoundExpression \<Rightarrow> BoundColumnRef list" where
  "CollectColumnRefs expr = CollectColumnRefs_into expr []"

definition AllColumnsAvailable :: "BoundExpression \<Rightarrow> uint32 list \<Rightarrow> bool" where
  "AllColumnsAvailable expr available_table_ids =
     list_all (\<lambda>ref. cr_table_id ref \<in> set available_table_ids) (CollectColumnRefs expr)"

section \<open>Recursive characterisations\<close>

lemma FlattenConjuncts_append: "FlattenConjuncts_into e out = out @ FlattenConjuncts_into e []"
proof (induction e arbitrary: out)
  case (BinaryOpNode op l r t)
  show ?case
    using BinaryOpNode.IH(1) [of out] BinaryOpNode.IH(2) [of "FlattenConjuncts_into l out"]
      BinaryOpNode.IH(2) [of "FlattenConjuncts_into l []"] by simp
qed (simp_all only: FlattenConjuncts_into.simps append_Nil)

lemma ExtractConjuncts_append: "ExtractConjuncts_into e out = out @ ExtractConjuncts_into e []"
proof (induction e arbitrary: out)
  case (BinaryOpNode op l r t)
  show ?case
    using BinaryOpNode.IH(1) [of out] BinaryOpNode.IH(2) [of "ExtractConjuncts_into l out"]
      BinaryOpNode.IH(2) [of "ExtractConjuncts_into l []"] by simp
qed (simp_all only: ExtractConjuncts_into.simps append_Nil)

lemma CollectColumnRefs_append: "CollectColumnRefs_into e out = out @ CollectColumnRefs_into e []"
proof (induction e arbitrary: out)
  case (BinaryOpNode op l r t)
  show ?case
    using BinaryOpNode.IH(1) [of out] BinaryOpNode.IH(2) [of "CollectColumnRefs_into l out"]
      BinaryOpNode.IH(2) [of "CollectColumnRefs_into l []"] by simp
next
  case (UnaryOpNode op e)
  show ?case using UnaryOpNode.IH [of out] by simp
qed simp_all

lemma ExtractConjuncts_simps [simp]:
  "ExtractConjuncts (ColumnRefNode ref) = [ColumnRefNode ref]"
  "ExtractConjuncts (ConstNode v) = [ConstNode v]"
  "ExtractConjuncts (BinaryOpNode op l r t) =
     (if op = kAnd then ExtractConjuncts l @ ExtractConjuncts r else [BinaryOpNode op l r t])"
  "ExtractConjuncts (UnaryOpNode uop e) = [UnaryOpNode uop e]"
  by (simp_all add: ExtractConjuncts_def ExtractConjuncts_append [of r "ExtractConjuncts_into l []"])

lemma CollectColumnRefs_simps [simp]:
  "CollectColumnRefs (ColumnRefNode ref) = [ref]"
  "CollectColumnRefs (ConstNode v) = []"
  "CollectColumnRefs (BinaryOpNode op l r t) = CollectColumnRefs l @ CollectColumnRefs r"
  "CollectColumnRefs (UnaryOpNode uop e) = CollectColumnRefs e"
  by (simp_all add: CollectColumnRefs_def CollectColumnRefs_append [of r "CollectColumnRefs_into l []"])

lemma Flatten_is_Extract: "FlattenConjuncts e = ExtractConjuncts e"
proof -
  have "FlattenConjuncts_into e out = ExtractConjuncts_into e out" for out
    by (induction e arbitrary: out) simp_all
  then show ?thesis by (simp add: FlattenConjuncts_def ExtractConjuncts_def)
qed

lemma ExtractConjuncts_not_Nil [simp]: "ExtractConjuncts e \<noteq> []"
  by (induction e) auto

lemma RebuildConjunction_snoc:
  "cs \<noteq> [] \<Longrightarrow> RebuildConjunction (cs @ [c]) = BinaryOpNode kAnd (RebuildConjunction cs) c etInteger"
  by (simp add: RebuildConjunction_def MakeBooleanOp_def)

lemma RebuildConjunction_single [simp]: "RebuildConjunction [c] = c"
  by (simp add: RebuildConjunction_def)

lemma RebuildConjunction_refs:
  "cs \<noteq> [] \<Longrightarrow> set (CollectColumnRefs (RebuildConjunction cs)) = (\<Union>c \<in> set cs. set (CollectColumnRefs c))"
proof (induction cs rule: rev_induct)
  case (snoc c cs)
  then show ?case by (cases "cs = []") (auto simp: RebuildConjunction_snoc)
qed simp

lemma ExtractConjuncts_refs: "set (CollectColumnRefs e) = (\<Union>c \<in> set (ExtractConjuncts e). set (CollectColumnRefs c))"
  by (induction e) auto

text \<open>Evaluation depends only on the references of an expression.\<close>

lemma eval_cells_cong:
  "(\<And>ref. ref \<in> set (CollectColumnRefs e) \<Longrightarrow> f ref = g ref) \<Longrightarrow> eval_cells f e = eval_cells g e"
  by (induction e) auto

text \<open>
  A row passes a predicate when it evaluates to true and is not null. A row passes a
  conjunction exactly when it passes both parts: errors, false and null all reject it.
\<close>

definition cells_pass :: "(BoundColumnRef \<Rightarrow> cell) \<Rightarrow> BoundExpression \<Rightarrow> bool" where
  "cells_pass cells p = (eval_cells cells p = Inr (RBool True, True))"

lemma cells_pass_and: "cells_pass cells (BinaryOpNode kAnd l r t) = (cells_pass cells l \<and> cells_pass cells r)"
proof -
  have as_bool: "as_bool x = Inr b \<longleftrightarrow> x = RBool b" for x b by (cases x) auto
  show ?thesis
    by (cases "eval_cells cells l"; cases "eval_cells cells r")
      (auto simp: cells_pass_def IsArithmeticOperator_def IsLogicalOperator_def as_bool result_simps)
qed

lemma cells_pass_extract: "cells_pass cells e \<longleftrightarrow> list_all (cells_pass cells) (ExtractConjuncts e)"
  by (induction e) (auto simp: cells_pass_and)

lemma cells_pass_rebuild: "cs \<noteq> [] \<Longrightarrow> cells_pass cells (RebuildConjunction cs) \<longleftrightarrow> list_all (cells_pass cells) cs"
proof (induction cs rule: rev_induct)
  case (snoc c cs)
  then show ?case by (cases "cs = []") (auto simp: RebuildConjunction_snoc cells_pass_and)
qed simp

end
