(* ===== verification/Optimizer.thy ===== *)
theory Optimizer
  imports LogicalPlan Operators SeqScan HashJoin Aggregation Catalog
begin

text \<open>
  \<open>optimizer/predicate_pushdown\<close>, \<open>optimizer/column_pruning\<close> and \<open>optimizer/optimizer\<close>, and the
  operator objects that \<open>Translate\<close> builds. An operator owns its children; \<open>Operator_GetNext\<close>
  is the virtual call, which runs the operator's own \<open>GetNext\<close> on the children's. The buffer
  pool that all scans share is the second part of the state.

  A hash join and an aggregation call a child in a loop that ends when the child does; one
  fuel bounds these loops and the depth of the tree. Results do not depend on it once it is
  large enough.
\<close>

section \<open>Predicate pushdown\<close>

definition ReferencesOnlyGroupByColumns :: "BoundExpression \<Rightarrow> BoundColumnRef list \<Rightarrow> bool" where
  "ReferencesOnlyGroupByColumns expr group_by =
     list_all (\<lambda>ref. list_ex (\<lambda>key. cr_table_id key = cr_table_id ref \<and> cr_ordinal key = cr_ordinal ref) group_by)
       (CollectColumnRefs expr)"

definition WrapInFilter :: "LogicalPlanNode \<Rightarrow> BoundExpression list \<Rightarrow> LogicalPlanNode" where
  "WrapInFilter node conjuncts =
     (if conjuncts = [] then node else MakeLogicalFilter node (RebuildConjunction conjuncts))"

fun PlaceInto :: "LogicalPlanNode \<Rightarrow> BoundExpression list \<Rightarrow> LogicalPlanNode" where
  "PlaceInto (ScanNode scan) conjuncts =
     (if conjuncts = [] then ScanNode scan else WrapInFilter (ScanNode scan) conjuncts)"
| "PlaceInto (FilterNode input predicate) conjuncts =
     (if conjuncts = [] then FilterNode input predicate
      else FilterNode input (RebuildConjunction (predicate # conjuncts)))"
| "PlaceInto (JoinNode left right equi_conditions) conjuncts =
     (if conjuncts = [] then JoinNode left right equi_conditions
      else let left_ids = CollectBindingIds left;
               right_ids = CollectBindingIds right;
               left_bucket = filter (\<lambda>c. AllColumnsAvailable c left_ids) conjuncts;
               right_bucket = filter (\<lambda>c. \<not> AllColumnsAvailable c left_ids \<and> AllColumnsAvailable c right_ids) conjuncts;
               stays_here = filter (\<lambda>c. \<not> AllColumnsAvailable c left_ids \<and> \<not> AllColumnsAvailable c right_ids) conjuncts
           in WrapInFilter (JoinNode (PlaceInto left left_bucket) (PlaceInto right right_bucket) equi_conditions) stays_here)"
| "PlaceInto (AggregateNode input group_by aggregates output_columns) conjuncts =
     (if conjuncts = [] then AggregateNode input group_by aggregates output_columns
      else let eligible = filter (\<lambda>c. ReferencesOnlyGroupByColumns c group_by) conjuncts;
               ineligible = filter (\<lambda>c. \<not> ReferencesOnlyGroupByColumns c group_by) conjuncts
           in WrapInFilter (AggregateNode (PlaceInto input eligible) group_by aggregates output_columns) ineligible)"
| "PlaceInto (ProjectionNode input select_expressions output_columns) conjuncts =
     (if conjuncts = [] then ProjectionNode input select_expressions output_columns
      else ProjectionNode (PlaceInto input conjuncts) select_expressions output_columns)"

fun Rewrite :: "LogicalPlanNode \<Rightarrow> LogicalPlanNode" where
  "Rewrite (ScanNode scan) = ScanNode scan"
| "Rewrite (FilterNode input predicate) = PlaceInto (Rewrite input) (ExtractConjuncts predicate)"
| "Rewrite (JoinNode left right equi_conditions) = JoinNode (Rewrite left) (Rewrite right) equi_conditions"
| "Rewrite (AggregateNode input group_by aggregates output_columns) =
     AggregateNode (Rewrite input) group_by aggregates output_columns"
| "Rewrite (ProjectionNode input select_expressions output_columns) =
     ProjectionNode (Rewrite input) select_expressions output_columns"

definition PushdownPredicates :: "LogicalPlanNode \<Rightarrow> LogicalPlanNode" where
  "PushdownPredicates root = Rewrite root"

section \<open>Column pruning\<close>

text \<open>\<open>std::sort\<close>, then \<open>std::unique\<close> and \<open>erase\<close>.\<close>

definition sorted_unique :: "uint32 list \<Rightarrow> uint32 list" where
  "sorted_unique ordinals = remdups_adj (sort ordinals)"

fun Propagate :: "LogicalPlanNode \<Rightarrow> BoundColumnRef list \<Rightarrow> LogicalPlanNode" where
  "Propagate (ScanNode scan) required_from_above =
     ScanNode (scan\<lparr>ls_required_ordinals := sorted_unique
       (map cr_ordinal (filter (\<lambda>ref. cr_table_id ref = ls_binding_id scan) required_from_above))\<rparr>)"
| "Propagate (FilterNode input predicate) required_from_above =
     FilterNode (Propagate input (required_from_above @ CollectColumnRefs predicate)) predicate"
| "Propagate (JoinNode left right equi_conditions) required_from_above =
     (let required = required_from_above @ concat (map (\<lambda>(key_a, key_b). [key_a, key_b]) equi_conditions);
          left_ids = CollectBindingIds left;
          right_ids = CollectBindingIds right;
          for_left = filter (\<lambda>ref. cr_table_id ref \<in> set left_ids) required;
          for_right = filter (\<lambda>ref. cr_table_id ref \<notin> set left_ids \<and> cr_table_id ref \<in> set right_ids) required
      in JoinNode (Propagate left for_left) (Propagate right for_right) equi_conditions)"
| "Propagate (AggregateNode input group_by aggregates output_columns) required_from_above =
     AggregateNode (Propagate input (group_by @ concat (map (\<lambda>agg.
         case ac_argument agg of None \<Rightarrow> [] | Some argument \<Rightarrow> [argument]) aggregates)))
       group_by aggregates output_columns"
| "Propagate (ProjectionNode input select_expressions output_columns) required_from_above =
     ProjectionNode (Propagate input (concat (map CollectColumnRefs select_expressions)))
       select_expressions output_columns"

definition PruneColumns :: "LogicalPlanNode \<Rightarrow> LogicalPlanNode" where
  "PruneColumns root = Propagate root []"

section \<open>Positions\<close>

fun ToTypeId :: "ExpressionType \<Rightarrow> TypeId result" where
  "ToTypeId etInteger = Inr kInteger"
| "ToTypeId etFloat = Inr kFloat"
| "ToTypeId etVarchar = Inr kVarchar"
| "ToTypeId etBoolean = Inl (RuntimeError (''A column resolved to BOOLEAN. BOOLEAN is an internal-only predicate type '' @
     ''and should never reach physical column translation''))"

fun PhysicalOutputSchema :: "LogicalPlanNode \<Rightarrow> TypeId list result" where
  "PhysicalOutputSchema (ScanNode scan) =
     rmap (\<lambda>ordinal. rbind (vec_at (ls_output_columns scan) (unat ordinal)) (\<lambda>c. ToTypeId (oc_type c)))
       (ls_required_ordinals scan)"
| "PhysicalOutputSchema (FilterNode input predicate) = PhysicalOutputSchema input"
| "PhysicalOutputSchema (JoinNode left right equi_conditions) =
     rbind (PhysicalOutputSchema right) (\<lambda>types.
     rbind (PhysicalOutputSchema left) (\<lambda>probe_types. Inr (types @ probe_types)))"
| "PhysicalOutputSchema _ =
     Inl (RuntimeError ''Aggregate/Projection as a Join operand is unsupported. No subquery-in-FROM support.'')"

fun index_of :: "'a \<Rightarrow> 'a list \<Rightarrow> nat option" where
  "index_of x [] = None"
| "index_of x (y # ys) = (if y = x then Some 0 else map_option Suc (index_of x ys))"

fun FindColumnPosition :: "LogicalPlanNode \<Rightarrow> BoundColumnRef \<Rightarrow> nat result" where
  "FindColumnPosition (ScanNode scan) ref =
     (if ls_binding_id scan \<noteq> cr_table_id ref
      then Inl (RuntimeError (''FindColumnPosition: column'' @ [CHR 0x27] @ ''s table_id doesn'' @ [CHR 0x27] @ ''t match this scan''))
      else case index_of (cr_ordinal ref) (ls_required_ordinals scan) of
             None \<Rightarrow> Inl (RuntimeError (''FindColumnPosition: column was pruned but is still referenced -- Column '' @
                 ''Pruning bug, not a user error''))
           | Some i \<Rightarrow> Inr i)"
| "FindColumnPosition (FilterNode input predicate) ref = FindColumnPosition input ref"
| "FindColumnPosition (JoinNode left right equi_conditions) ref =
     (if cr_table_id ref \<in> set (CollectBindingIds left)
      then rbind (PhysicalOutputSchema right) (\<lambda>types.
           rbind (FindColumnPosition left ref) (\<lambda>i. Inr (length types + i)))
      else FindColumnPosition right ref)"
| "FindColumnPosition (AggregateNode input group_by aggregates output_columns) ref =
     (if cr_table_id ref \<noteq> kAggregateOutputBindingId
      then Inl (RuntimeError (''FindColumnPosition: a raw table column cannot be resolved above a '' @
        ''LogicalAggregate -- only its own computed output columns are reachable here''))
      else Inr (unat (cr_ordinal ref)))"
| "FindColumnPosition (ProjectionNode input select_expressions output_columns) ref =
     Inl (RuntimeError ''FindColumnPosition: Projection as a Join operand is unsupported.'')"

fun RewriteColumnRefsToPhysicalPositions :: "LogicalPlanNode \<Rightarrow> BoundExpression \<Rightarrow> BoundExpression result" where
  "RewriteColumnRefsToPhysicalPositions child (ColumnRefNode ref) =
     rbind (FindColumnPosition child ref) (\<lambda>i. Inr (ColumnRefNode (ref\<lparr>cr_ordinal := word_of_nat i\<rparr>)))"
| "RewriteColumnRefsToPhysicalPositions child (BinaryOpNode op l r t) =
     rbind (RewriteColumnRefsToPhysicalPositions child l) (\<lambda>l.
     rbind (RewriteColumnRefsToPhysicalPositions child r) (\<lambda>r. Inr (BinaryOpNode op l r t)))"
| "RewriteColumnRefsToPhysicalPositions child (UnaryOpNode op e) =
     rbind (RewriteColumnRefsToPhysicalPositions child e) (\<lambda>e. Inr (UnaryOpNode op e))"
| "RewriteColumnRefsToPhysicalPositions child (ConstNode v) = Inr (ConstNode v)"

section \<open>Translation\<close>

fun TryExtractZoneMapSkip :: "BoundExpression \<Rightarrow> LogicalScan \<Rightarrow> ZoneMapSkipCondition option" where
  "TryExtractZoneMapSkip (BinaryOpNode op (ColumnRefNode col_ref) (ConstNode v) t) scan =
     (if cr_table_id col_ref \<noteq> ls_binding_id scan then None
      else case v of
             VInt k \<Rightarrow> Some \<lparr>zs_ordinal = unat (cr_ordinal col_ref), zs_op = op, zs_constant = ZoneInt k\<rparr>
           | VFloat x \<Rightarrow> Some \<lparr>zs_ordinal = unat (cr_ordinal col_ref), zs_op = op, zs_constant = ZoneFloat x\<rparr>
           | VString _ \<Rightarrow> None)"
| "TryExtractZoneMapSkip _ scan = None"

datatype Operator =
    SeqScanOp SeqScanOperator
  | FilterOp Operator BoundExpression
  | HashJoinOp HashJoinOperator Operator Operator
  | AggregationOp AggregationOperator Operator
  | ProjectionOp Operator "BoundExpression list"

fun to_physical_kind :: "LogicalAggregateKind \<Rightarrow> AggregateFunctionKind" where
  "to_physical_kind aggCountStar = kCountStar"
| "to_physical_kind aggCount = kCount"
| "to_physical_kind aggSum = kSum"
| "to_physical_kind aggAvg = kAvg"
| "to_physical_kind aggMin = kMin"
| "to_physical_kind aggMax = kMax"

definition translate_scan :: "Catalog \<Rightarrow> LogicalScan \<Rightarrow> ZoneMapSkipCondition option \<Rightarrow> Operator result" where
  "translate_scan catalog scan skip =
     (case GetTableById catalog (ls_physical_table_id scan) of
        None \<Rightarrow> Inl (RuntimeError ''Optimizer::Translate: unknown table_id'')
      | Some table \<Rightarrow> Inr (SeqScanOp (MakeSeqScanOperator table (map unat (ls_required_ordinals scan)) skip)))"

definition join_key_positions ::
    "LogicalPlanNode \<Rightarrow> LogicalPlanNode \<Rightarrow> BoundColumnRef \<times> BoundColumnRef \<Rightarrow> (nat \<times> nat) result" where
  "join_key_positions left right = (\<lambda>(key_a, key_b).
     let a_is_left = cr_table_id key_a \<in> set (CollectBindingIds left);
         left_key = (if a_is_left then key_a else key_b);
         right_key = (if a_is_left then key_b else key_a)
     in rbind (FindColumnPosition left left_key) (\<lambda>probe.
        rbind (FindColumnPosition right right_key) (\<lambda>build. Inr (probe, build))))"

definition translate_aggregate :: "LogicalPlanNode \<Rightarrow> AggregateCall \<Rightarrow> AggregateSpec result" where
  "translate_aggregate input agg =
     (let kind = to_physical_kind (ac_function agg)
      in case ac_argument agg of
           None \<Rightarrow> Inr \<lparr>ag_function = kind, ag_argument_column = None, ag_argument_type = kInteger\<rparr>
         | Some argument \<Rightarrow> rbind (FindColumnPosition input argument) (\<lambda>i.
             Inr \<lparr>ag_function = kind, ag_argument_column = Some i, ag_argument_type = cr_type argument\<rparr>))"

fun Translate :: "Catalog \<Rightarrow> LogicalPlanNode \<Rightarrow> Operator result" where
  "Translate catalog (ScanNode scan) = translate_scan catalog scan None"
| "Translate catalog (FilterNode input predicate) =
     (case input of
        ScanNode scan \<Rightarrow>
          (let skip = TryExtractZoneMapSkip predicate scan
           in if GetTableById catalog (ls_physical_table_id scan) = None
              then Inl (RuntimeError ''Optimizer::Translate: unknown table_id'')
              else rbind (RewriteColumnRefsToPhysicalPositions input predicate) (\<lambda>predicate.
                   rbind (translate_scan catalog scan skip) (\<lambda>scan_op. Inr (FilterOp scan_op predicate))))
      | _ \<Rightarrow>
          rbind (RewriteColumnRefsToPhysicalPositions input predicate) (\<lambda>predicate.
          rbind (Translate catalog input) (\<lambda>child. Inr (FilterOp child predicate))))"
| "Translate catalog (JoinNode left right equi_conditions) =
     rbind (rmap (join_key_positions left right) equi_conditions) (\<lambda>keys.
     rbind (PhysicalOutputSchema right) (\<lambda>build_column_types.
     rbind (Translate catalog left) (\<lambda>probe_child.
     rbind (Translate catalog right) (\<lambda>build_child.
       Inr (HashJoinOp (MakeHashJoinOperator (map snd keys) (map fst keys) build_column_types) build_child probe_child)))))"
| "Translate catalog (AggregateNode input group_by aggregates output_columns) =
     rbind (rmap (FindColumnPosition input) group_by) (\<lambda>group_by_positions.
     rbind (rmap (translate_aggregate input) aggregates) (\<lambda>specs.
     rbind (Translate catalog input) (\<lambda>child.
       Inr (AggregationOp (MakeAggregationOperator group_by_positions (map cr_type group_by) specs) child))))"
| "Translate catalog (ProjectionNode input select_expressions output_columns) =
     rbind (rmap (RewriteColumnRefsToPhysicalPositions input) select_expressions) (\<lambda>select_expressions.
     rbind (Translate catalog input) (\<lambda>child. Inr (ProjectionOp child select_expressions)))"

definition Optimize :: "LogicalPlanNode \<Rightarrow> Catalog \<Rightarrow> Operator result" where
  "Optimize root catalog = Translate catalog (PruneColumns (PushdownPredicates root))"

section \<open>Running an operator tree\<close>

type_synonym operator_state = "Operator \<times> pool_state"

text \<open>The two children of a join and the pool: calling one child leaves the other alone.\<close>

definition on_build :: "(operator_state, 'a) action \<Rightarrow> ((Operator \<times> Operator) \<times> pool_state, 'a) action" where
  "on_build m = (\<lambda>((b, p), pool). case m (b, pool) of (x, (b, pool)) \<Rightarrow> (x, ((b, p), pool)))"

definition on_probe :: "(operator_state, 'a) action \<Rightarrow> ((Operator \<times> Operator) \<times> pool_state, 'a) action" where
  "on_probe m = (\<lambda>((b, p), pool). case m (p, pool) of (x, (p, pool)) \<Rightarrow> (x, ((b, p), pool)))"

fun Operator_GetNext :: "nat \<Rightarrow> (operator_state, DataChunk option) action" where
  "Operator_GetNext 0 st = (Inl OutOfFuel, st)"
| "Operator_GetNext (Suc fuel) (SeqScanOp scan, pool) =
     (case SeqScan_GetNext (scan, pool) of (x, (scan, pool)) \<Rightarrow> (x, (SeqScanOp scan, pool)))"
| "Operator_GetNext (Suc fuel) (FilterOp child predicate, pool) =
     (case Filter_GetNext (Operator_GetNext fuel) predicate (child, pool) of
        (x, (child, pool)) \<Rightarrow> (x, (FilterOp child predicate, pool)))"
| "Operator_GetNext (Suc fuel) (HashJoinOp join build probe, pool) =
     (case HashJoin_GetNext fuel (on_build (Operator_GetNext fuel)) (on_probe (Operator_GetNext fuel))
             (join, ((build, probe), pool)) of
        (x, (join, ((build, probe), pool))) \<Rightarrow> (x, (HashJoinOp join build probe, pool)))"
| "Operator_GetNext (Suc fuel) (AggregationOp agg child, pool) =
     (case Aggregation_GetNext fuel (Operator_GetNext fuel) (agg, (child, pool)) of
        (x, (agg, (child, pool))) \<Rightarrow> (x, (AggregationOp agg child, pool)))"
| "Operator_GetNext (Suc fuel) (ProjectionOp child expressions, pool) =
     (case Projection_GetNext (Operator_GetNext fuel) expressions (child, pool) of
        (x, (child, pool)) \<Rightarrow> (x, (ProjectionOp child expressions, pool)))"

end
