(* ===== verification/PlanSemantics.thy ===== *)
theory PlanSemantics
  imports Optimizer AggregationCorrect
begin

text \<open>
  What a logical plan means, independently of how it is executed: given the rows of every
  table, a plan denotes a list of environments, each giving the cell of every column that can
  be named above the plan. Filters select, a join pairs the environments of its inputs whose
  key columns agree, an aggregate has one environment per group, in the order of first
  appearance. Nothing here looks at \<open>required_ordinals\<close>: these are a matter of execution.

  \<open>plan_wf\<close> is the contract between binder and optimizer: references are to columns that
  exist and have the stated types, and predicates are well-typed and total.
\<close>

section \<open>Environments\<close>

type_synonym env = "uint32 \<Rightarrow> uint32 \<Rightarrow> cell"
type_synonym tables = "uint32 \<Rightarrow> cell list list"

abbreviation no_cell :: cell where
  "no_cell \<equiv> (VInt 0, False)"

definition ref_cell :: "env \<Rightarrow> BoundColumnRef \<Rightarrow> cell" where
  "ref_cell env ref = env (cr_table_id ref) (cr_ordinal ref)"

definition env_passes :: "BoundExpression \<Rightarrow> env \<Rightarrow> bool" where
  "env_passes p env = cells_pass (ref_cell env) p"

definition scan_env :: "uint32 \<Rightarrow> cell list \<Rightarrow> env" where
  "scan_env binding row = (\<lambda>b i. if b = binding \<and> unat i < length row then row ! unat i else no_cell)"

definition join_env :: "uint32 list \<Rightarrow> env \<Rightarrow> env \<Rightarrow> env" where
  "join_env left_ids l r = (\<lambda>b. if b \<in> set left_ids then l b else r b)"

definition sides :: "uint32 list \<Rightarrow> BoundColumnRef \<times> BoundColumnRef \<Rightarrow> BoundColumnRef \<times> BoundColumnRef" where
  "sides left_ids = (\<lambda>(a, b). if cr_table_id a \<in> set left_ids then (a, b) else (b, a))"

definition keys_match :: "uint32 list \<Rightarrow> (BoundColumnRef \<times> BoundColumnRef) list \<Rightarrow> env \<Rightarrow> env \<Rightarrow> bool" where
  "keys_match left_ids conds l r =
     list_all (\<lambda>cond. let (lk, rk) = sides left_ids cond; x = ref_cell l lk; y = ref_cell r rk
        in snd x \<and> snd y \<and> fst x = fst y) conds"

definition group_key :: "BoundColumnRef list \<Rightarrow> env \<Rightarrow> cell list" where
  "group_key gb env = map (ref_cell env) gb"

definition group_keys :: "BoundColumnRef list \<Rightarrow> env list \<Rightarrow> cell list list" where
  "group_keys gb envs =
     (if gb = [] then [[]] else rev (remdups (rev (map (group_key gb) envs))))"

text \<open>An aggregate over a list of environments is that over the one-column rows of its argument.\<close>

definition call_spec :: "AggregateCall \<Rightarrow> AggregateSpec" where
  "call_spec c = \<lparr>ag_function = to_physical_kind (ac_function c), ag_argument_column = map_option (\<lambda>_. 0) (ac_argument c),
     ag_argument_type = (case ac_argument c of None \<Rightarrow> kInteger | Some ref \<Rightarrow> cr_type ref)\<rparr>"

definition call_cell :: "AggregateCall \<Rightarrow> env list \<Rightarrow> cell" where
  "call_cell c envs = aggregate_cell (call_spec c)
     (map (\<lambda>env. case ac_argument c of None \<Rightarrow> [] | Some ref \<Rightarrow> [ref_cell env ref]) envs)"

definition group_cells :: "BoundColumnRef list \<Rightarrow> AggregateCall list \<Rightarrow> env list \<Rightarrow> cell list \<Rightarrow> cell list" where
  "group_cells gb aggregates envs k =
     k @ map (\<lambda>c. call_cell c (filter (\<lambda>env. group_key gb env = k) envs)) aggregates"

definition key_lookup :: "BoundColumnRef list \<Rightarrow> cell list \<Rightarrow> env" where
  "key_lookup gb k = (\<lambda>b i.
     case map_of (zip (map (\<lambda>ref. (cr_table_id ref, cr_ordinal ref)) gb) k) (b, i) of
       None \<Rightarrow> no_cell | Some x \<Rightarrow> x)"

definition group_env :: "BoundColumnRef list \<Rightarrow> AggregateCall list \<Rightarrow> env list \<Rightarrow> cell list \<Rightarrow> env" where
  "group_env gb aggregates envs k = (\<lambda>b i.
     let out = group_cells gb aggregates envs k
     in if b = kAggregateOutputBindingId then (if unat i < length out then out ! unat i else no_cell)
        else key_lookup gb k b i)"

fun plan_envs :: "tables \<Rightarrow> LogicalPlanNode \<Rightarrow> env list" where
  "plan_envs db (ScanNode scan) = map (scan_env (ls_binding_id scan)) (db (ls_physical_table_id scan))"
| "plan_envs db (FilterNode input p) = filter (env_passes p) (plan_envs db input)"
| "plan_envs db (JoinNode left right conds) =
     concat (map (\<lambda>l. map (join_env (CollectBindingIds left) l)
       (filter (keys_match (CollectBindingIds left) conds l) (plan_envs db right))) (plan_envs db left))"
| "plan_envs db (AggregateNode input gb aggregates cols) =
     (let envs = plan_envs db input
      in map (group_env gb aggregates envs) (group_keys gb envs))"
| "plan_envs db (ProjectionNode input es cols) = plan_envs db input"

definition env_cell :: "env \<Rightarrow> BoundExpression \<Rightarrow> cell" where
  "env_cell env e = (case eval_cells (ref_cell env) e of Inr (RVal v, b) \<Rightarrow> (v, b) | _ \<Rightarrow> no_cell)"

text \<open>The rows of a query, whose plan has a projection at the top.\<close>

fun plan_rows :: "tables \<Rightarrow> LogicalPlanNode \<Rightarrow> cell list list" where
  "plan_rows db (ProjectionNode input es cols) = map (\<lambda>env. map (env_cell env) es) (plan_envs db input)"
| "plan_rows db n = []"

section \<open>Well-formed plans\<close>

fun expr_typed :: "BoundExpression \<Rightarrow> bool" where
  "expr_typed (ColumnRefNode ref) = True"
| "expr_typed (ConstNode v) = (value_weight v < 2 ^ 21)"
| "expr_typed (BinaryOpNode op l r t) =
     (expr_typed l \<and> expr_typed r \<and>
      (if IsArithmeticOperator op
       then (t = etInteger \<and> ResultType l = etInteger \<and> ResultType r = etInteger) \<or>
            (t = etFloat \<and> numeric (ResultType l) \<and> numeric (ResultType r))
       else if IsLogicalOperator op then ResultType l = etBoolean \<and> ResultType r = etBoolean
       else (ResultType l = etVarchar \<and> ResultType r = etVarchar) \<or>
            (numeric (ResultType l) \<and> numeric (ResultType r))))"
| "expr_typed (UnaryOpNode op e) = (expr_typed e \<and> ResultType e = etBoolean)"

definition cells_typed :: "BoundExpression \<Rightarrow> (BoundColumnRef \<Rightarrow> cell) \<Rightarrow> bool" where
  "cells_typed e cells = (\<forall>ref \<in> set (CollectColumnRefs e). value_type (fst (cells ref)) = cr_type ref)"

text \<open>Evaluation ends in a value on every row of the right types: no integer operation overflows.\<close>

definition expr_total :: "BoundExpression \<Rightarrow> bool" where
  "expr_total e = (\<forall>cells. cells_typed e cells \<longrightarrow> (\<exists>v. eval_cells cells e = Inr v))"

text \<open>A comparison from which a zone map condition is taken compares equal types.\<close>

fun skip_compatible :: "BoundExpression \<Rightarrow> bool" where
  "skip_compatible (BinaryOpNode op (ColumnRefNode ref) (ConstNode v) t) =
     (value_type v = kVarchar \<or> cr_type ref = value_type v)"
| "skip_compatible e = True"

definition conjunct_fine :: "BoundExpression \<Rightarrow> bool" where
  "conjunct_fine c = (expr_typed c \<and> ResultType c = etBoolean \<and> expr_total c \<and> skip_compatible c)"

definition call_type :: "AggregateCall \<Rightarrow> TypeId" where
  "call_type c = aggregate_type (call_spec c)"

definition aggregate_out_types :: "BoundColumnRef list \<Rightarrow> AggregateCall list \<Rightarrow> TypeId list" where
  "aggregate_out_types gb aggregates = map cr_type gb @ map call_type aggregates"

text \<open>The columns that can be named by position above a plan.\<close>

fun avail :: "LogicalPlanNode \<Rightarrow> BoundColumnRef \<Rightarrow> bool" where
  "avail (ScanNode scan) ref = (cr_table_id ref = ls_binding_id scan \<and>
     unat (cr_ordinal ref) < length (ls_output_columns scan) \<and>
     oc_type (ls_output_columns scan ! unat (cr_ordinal ref)) = ToExpressionType (cr_type ref))"
| "avail (FilterNode input p) ref = avail input ref"
| "avail (JoinNode left right conds) ref = (avail left ref \<or> avail right ref)"
| "avail (AggregateNode input gb aggregates cols) ref =
     (cr_table_id ref = kAggregateOutputBindingId \<and>
      unat (cr_ordinal ref) < length (aggregate_out_types gb aggregates) \<and>
      cr_type ref = aggregate_out_types gb aggregates ! unat (cr_ordinal ref))"
| "avail (ProjectionNode input es cols) ref = False"

definition all_avail :: "LogicalPlanNode \<Rightarrow> BoundExpression \<Rightarrow> bool" where
  "all_avail n e = list_all (avail n) (CollectColumnRefs e)"

text \<open>Scans, filters and joins only.\<close>

fun plain :: "LogicalPlanNode \<Rightarrow> bool" where
  "plain (ScanNode scan) = True"
| "plain (FilterNode input p) = plain input"
| "plain (JoinNode left right conds) = (plain left \<and> plain right)"
| "plain _ = False"

fun is_projection :: "LogicalPlanNode \<Rightarrow> bool" where
  "is_projection (ProjectionNode _ _ _) = True"
| "is_projection _ = False"

fun ungrouped :: "LogicalPlanNode \<Rightarrow> bool" where
  "ungrouped (ScanNode scan) = False"
| "ungrouped (FilterNode input p) = ungrouped input"
| "ungrouped (JoinNode left right conds) = (ungrouped left \<or> ungrouped right)"
| "ungrouped (AggregateNode input gb aggregates cols) = (gb = [] \<or> ungrouped input)"
| "ungrouped (ProjectionNode input es cols) = ungrouped input"

fun grouping_columns :: "LogicalPlanNode \<Rightarrow> BoundColumnRef list" where
  "grouping_columns (AggregateNode input gb aggregates cols) = gb"
| "grouping_columns _ = []"

text \<open>
  A conjunct can stand above a plan. Before pushdown (\<open>placed = False\<close>) it may also name the
  grouping columns of an aggregate directly below.
\<close>

definition conjunct_ok :: "bool \<Rightarrow> LogicalPlanNode \<Rightarrow> BoundExpression \<Rightarrow> bool" where
  "conjunct_ok placed n c = (conjunct_fine c \<and> (ungrouped n \<longrightarrow> CollectColumnRefs c \<noteq> []) \<and>
     (all_avail n c \<or> \<not> placed \<and> set (CollectColumnRefs c) \<subseteq> set (grouping_columns n)))"

definition call_ok :: "LogicalPlanNode \<Rightarrow> AggregateCall \<Rightarrow> bool" where
  "call_ok n c = (case ac_argument c of
      None \<Rightarrow> ac_function c = aggCountStar
    | Some ref \<Rightarrow> avail n ref \<and> (cr_type ref = kVarchar \<longrightarrow> ac_function c \<notin> {aggSum, aggAvg}))"

definition condition_ok :: "LogicalPlanNode \<Rightarrow> LogicalPlanNode \<Rightarrow> BoundColumnRef \<times> BoundColumnRef \<Rightarrow> bool" where
  "condition_ok left right = (\<lambda>(a, b). cr_type a = cr_type b \<and>
     (avail left a \<and> avail right b \<or> avail right a \<and> avail left b))"

definition output_ok :: "LogicalPlanNode \<Rightarrow> BoundExpression \<Rightarrow> bool" where
  "output_ok n e = (expr_typed e \<and> ResultType e \<noteq> etBoolean \<and> expr_total e \<and> all_avail n e)"

fun plan_wf :: "bool \<Rightarrow> LogicalPlanNode \<Rightarrow> bool" where
  "plan_wf placed (ScanNode scan) =
     (ls_binding_id scan \<noteq> kAggregateOutputBindingId \<and> list_all (\<lambda>c. oc_type c \<noteq> etBoolean) (ls_output_columns scan))"
| "plan_wf placed (FilterNode input p) =
     (plan_wf placed input \<and> \<not> is_projection input \<and> list_all (conjunct_ok placed input) (ExtractConjuncts p))"
| "plan_wf placed (JoinNode left right conds) =
     (plan_wf placed left \<and> plan_wf placed right \<and> plain left \<and> plain right \<and>
      set (CollectBindingIds left) \<inter> set (CollectBindingIds right) = {} \<and> list_all (condition_ok left right) conds)"
| "plan_wf placed (AggregateNode input gb aggregates cols) =
     (plan_wf placed input \<and> plain input \<and> list_all (avail input) gb \<and> list_all (call_ok input) aggregates)"
| "plan_wf placed (ProjectionNode input es cols) =
     (plan_wf placed input \<and> \<not> is_projection input \<and> list_all (output_ok input) es)"

section \<open>Elementary facts\<close>

lemma plain_avail_ids: "plain n \<Longrightarrow> avail n ref \<Longrightarrow> cr_table_id ref \<in> set (CollectBindingIds n)"
  by (induction n) auto

lemma plain_not_ungrouped: "plain n \<Longrightarrow> \<not> ungrouped n"
  by (induction n) auto

lemma plain_no_grouping [simp]: "plain n \<Longrightarrow> grouping_columns n = []"
  by (cases n) auto

lemma plan_ids_not_aggregate: "plan_wf pl n \<Longrightarrow> kAggregateOutputBindingId \<notin> set (CollectBindingIds n)"
  by (induction n) auto

lemma env_passes_cong:
  "(\<And>ref. ref \<in> set (CollectColumnRefs p) \<Longrightarrow> ref_cell e ref = ref_cell e' ref) \<Longrightarrow> env_passes p e = env_passes p e'"
  unfolding env_passes_def cells_pass_def using eval_cells_cong by metis

lemma env_passes_rebuild:
  "cs \<noteq> [] \<Longrightarrow> env_passes (RebuildConjunction cs) e \<longleftrightarrow> (\<forall>c \<in> set cs. env_passes c e)"
  by (simp add: env_passes_def cells_pass_rebuild list_all_iff)

lemma env_passes_extract: "env_passes p e \<longleftrightarrow> (\<forall>c \<in> set (ExtractConjuncts p). env_passes c e)"
  by (simp add: env_passes_def cells_pass_extract [of _ p] list_all_iff)

lemma expr_wt_typed:
  "expr_wt ts e \<longleftrightarrow> expr_typed e \<and>
     (\<forall>ref \<in> set (CollectColumnRefs e). unat (cr_ordinal ref) < length ts \<and> ts ! unat (cr_ordinal ref) = cr_type ref)"
  by (induction e) auto

text \<open>Float arithmetic and comparisons never fail, so only integer arithmetic limits totality.\<close>

fun no_int_arithmetic :: "BoundExpression \<Rightarrow> bool" where
  "no_int_arithmetic (BinaryOpNode op l r t) =
     (no_int_arithmetic l \<and> no_int_arithmetic r \<and> (IsArithmeticOperator op \<longrightarrow> t = etFloat))"
| "no_int_arithmetic (UnaryOpNode op e) = no_int_arithmetic e"
| "no_int_arithmetic _ = True"

fun row_value_type :: "row_value \<Rightarrow> ExpressionType" where
  "row_value_type (RVal v) = ToExpressionType (value_type v)"
| "row_value_type (RBool b) = etBoolean"

lemma as_float_numeric: "numeric (row_value_type x) \<Longrightarrow> \<exists>y. as_float x = Inr y"
proof (cases x)
  case (RVal v)
  then show "numeric (row_value_type x) \<Longrightarrow> ?thesis" by (cases v) (simp_all add: numeric_def)
qed (simp add: numeric_def)

lemma as_bool_boolean: "row_value_type x = etBoolean \<Longrightarrow> \<exists>b. x = RBool b"
proof (cases x)
  case (RVal v)
  then show "row_value_type x = etBoolean \<Longrightarrow> ?thesis" by (cases v) simp_all
qed simp

lemma compare_values_typed:
  assumes "row_value_type x = etVarchar \<and> row_value_type y = etVarchar \<or> numeric (row_value_type x) \<and> numeric (row_value_type y)"
  shows "\<exists>b. compare_values op x y = Inr b"
proof -
  have val: "\<exists>v. z = RVal v" if "row_value_type z \<noteq> etBoolean" for z using that by (cases z) auto
  obtain v w where "x = RVal v" "y = RVal w" using val [of x] val [of y] assms by (auto simp: numeric_def)
  with assms show ?thesis by (cases v; cases w) (auto simp: numeric_def)
qed

lemma clean_cell_type: "value_type (fst (clean_cell c)) = value_type (fst c)"
proof (cases c)
  case (Pair v b)
  have "value_type (zero_value t) = t" for t by (cases t) simp_all
  then show ?thesis by (simp add: Pair null_cell_def)
qed

lemma eval_cells_typed:
  assumes "expr_typed e" and "no_int_arithmetic e" and "cells_typed e cells"
  shows "\<exists>x b. eval_cells cells e = Inr (x, b) \<and> row_value_type x = ResultType e"
  using assms
proof (induction e)
  case (ColumnRefNode ref)
  with clean_cell_type [of "cells ref"] show ?case
    by (cases "clean_cell (cells ref)") (simp add: cells_typed_def del: clean_cell.simps)
next
  case (BinaryOpNode op l r t)
  then obtain x xb y yb where xy: "eval_cells cells l = Inr (x, xb)" "row_value_type x = ResultType l"
    "eval_cells cells r = Inr (y, yb)" "row_value_type y = ResultType r"
    by (auto simp: cells_typed_def)
  consider "IsArithmeticOperator op" | "IsLogicalOperator op" "\<not> IsArithmeticOperator op"
    | "\<not> IsLogicalOperator op" "\<not> IsArithmeticOperator op" by blast
  then show ?case
  proof cases
    case 1
    then obtain a b where "as_float x = Inr a" "as_float y = Inr b" "t = etFloat"
      using BinaryOpNode.prems xy as_float_numeric [of x] as_float_numeric [of y] by auto
    with 1 xy show ?thesis by (auto simp: IsArithmeticOperator_def)
  next
    case 2
    then obtain a b where "x = RBool a" "y = RBool b"
      using BinaryOpNode.prems(1) xy as_bool_boolean [of x] as_bool_boolean [of y] by auto
    with 2 xy show ?thesis by (auto simp: IsLogicalOperator_def)
  next
    case 3
    then obtain b where "compare_values op x y = Inr b"
      using BinaryOpNode.prems(1) xy compare_values_typed [of x y op] by auto
    moreover have "ResultTypeForBinaryOp op t = etBoolean" using 3 by (cases op) (auto simp: IsArithmeticOperator_def)
    ultimately show ?thesis using 3 xy by simp
  qed
next
  case (UnaryOpNode op e)
  then obtain x b where x: "eval_cells cells e = Inr (x, b)" "row_value_type x = etBoolean" by (auto simp: cells_typed_def)
  with as_bool_boolean [OF x(2)] show ?case by auto
qed auto

lemma no_int_arithmetic_total: "expr_typed e \<Longrightarrow> no_int_arithmetic e \<Longrightarrow> expr_total e"
  unfolding expr_total_def using eval_cells_typed by fast

end
