(* ===== verification/TypeCoercion.thy ===== *)
theory TypeCoercion
  imports Ast PlanSemantics
begin

text \<open>
  \<open>binder/type_coercion\<close>: the types of operators and of literals. \<open>IsLogicalOperator\<close> is that
  of \<open>bound_expression\<close>, which has the same body; the checked result type of a binary operator
  is \<open>ResultTypeForBinaryOp_checked\<close>, to tell it from the one of \<open>bound_expression\<close>.
\<close>

section \<open>Operators\<close>

fun IsComparisonOperator :: "BinaryOperator \<Rightarrow> bool" where
  "IsComparisonOperator kEqual = True"
| "IsComparisonOperator kNotEqual = True"
| "IsComparisonOperator kLessThan = True"
| "IsComparisonOperator kLessThanOrEqual = True"
| "IsComparisonOperator kGreaterThan = True"
| "IsComparisonOperator kGreaterThanOrEqual = True"
| "IsComparisonOperator _ = False"

definition RequiresFloatPromotion :: "ExpressionType \<Rightarrow> ExpressionType \<Rightarrow> bool" where
  "RequiresFloatPromotion left right =
     ((left = etInteger \<and> right = etFloat) \<or> (left = etFloat \<and> right = etInteger))"

definition ResultTypeForBinaryOp_checked ::
    "BinaryOperator \<Rightarrow> ExpressionType \<Rightarrow> ExpressionType \<Rightarrow> ExpressionType result" where
  "ResultTypeForBinaryOp_checked op left right =
     (if IsLogicalOperator op
      then (if left \<noteq> etBoolean \<or> right \<noteq> etBoolean
            then Inl (TypeCoercionError ''AND/OR require boolean operands'')
            else Inr etBoolean)
      else let either_is_varchar = (left = etVarchar \<or> right = etVarchar);
               both_are_varchar = (left = etVarchar \<and> right = etVarchar)
           in if either_is_varchar \<and> \<not> both_are_varchar
              then Inl (TypeCoercionError ''Cannot mix VARCHAR with a numeric type'')
              else if IsComparisonOperator op then Inr etBoolean
              else if both_are_varchar
              then Inl (TypeCoercionError ''VARCHAR does not support arithmetic operators'')
              else if left = etFloat \<or> right = etFloat then Inr etFloat
              else Inr etInteger)"

definition ResultTypeForUnaryOp :: "UnaryOperator \<Rightarrow> ExpressionType \<Rightarrow> ExpressionType result" where
  "ResultTypeForUnaryOp op operand =
     (if operand \<noteq> etBoolean then Inl (TypeCoercionError ''NOT requires a boolean operand'') else Inr etBoolean)"

section \<open>Literals\<close>

fun BindConst :: "RawConstNode \<Rightarrow> BoundExpression result" where
  "BindConst NullLiteral =
     Inl (TypeCoercionError ''NULL literal binding is not yet supported (see this module's header comment)'')"
| "BindConst (IntLiteral v) =
     (if sint v < - (2 ^ 31) \<or> sint v > 2 ^ 31 - 1
      then Inl (TypeCoercionError ''Integer literal out of range for INTEGER (int32)'')
      else Inr (MakeIntConst (word_of_int (sint v))))"
| "BindConst (DoubleLiteral v) = Inr (MakeFloatConst (f32_of_f64 v))"
| "BindConst (StringLiteral v) = Inr (MakeStringConst v)"

section \<open>Well-typed operators\<close>

lemma operator_kinds:
  "IsComparisonOperator op \<longleftrightarrow> \<not> IsArithmeticOperator op \<and> \<not> IsLogicalOperator op"
  by (cases op) (simp_all add: IsArithmeticOperator_def IsLogicalOperator_def)

text \<open>An accepted operator on operands that are no predicates, unless it is logical, is well-typed.\<close>

lemma checked_binary_typed:
  assumes "ResultTypeForBinaryOp_checked op (ResultType l) (ResultType r) = Inr t"
    and "expr_typed l" and "expr_typed r"
    and "IsLogicalOperator op \<or> ResultType l \<noteq> etBoolean \<and> ResultType r \<noteq> etBoolean"
  shows "expr_typed (if IsLogicalOperator op then MakeBooleanOp op l r else MakeArithmeticOp op l r t)"
    and "ResultType (if IsLogicalOperator op then MakeBooleanOp op l r else MakeArithmeticOp op l r t) = t"
proof -
  note defs = ResultTypeForBinaryOp_checked_def MakeBooleanOp_def MakeArithmeticOp_def numeric_def Let_def operator_kinds
  consider "IsLogicalOperator op" "\<not> IsArithmeticOperator op" | "IsArithmeticOperator op" "\<not> IsLogicalOperator op"
    | "\<not> IsArithmeticOperator op" "\<not> IsLogicalOperator op"
    by (cases op) (simp_all add: IsArithmeticOperator_def IsLogicalOperator_def)
  then show "expr_typed (if IsLogicalOperator op then MakeBooleanOp op l r else MakeArithmeticOp op l r t)"
    by cases (use assms in \<open>auto simp: defs split: if_splits\<close>; cases "ResultType l"; cases "ResultType r"; simp)+
  show "ResultType (if IsLogicalOperator op then MakeBooleanOp op l r else MakeArithmeticOp op l r t) = t"
    using assms(1) by (cases op) (auto simp: defs IsLogicalOperator_def IsArithmeticOperator_def split: if_splits)
qed

lemma BindConst_Inr:
  assumes "BindConst c = Inr e"
  shows "\<exists>v. e = ConstNode v \<and> (\<forall>s. v = VString s \<longrightarrow> c = StringLiteral s)"
  using assms by (cases c) (auto simp: MakeIntConst_def MakeFloatConst_def MakeStringConst_def split: if_splits)

text \<open>The value of an accepted integer literal is that of the literal.\<close>

lemma sint_word_of_int32: "- (2 ^ 31) \<le> k \<Longrightarrow> k < 2 ^ 31 \<Longrightarrow> sint (word_of_int k :: int32) = k"
  by (simp add: signed_of_int signed_take_bit_int_eq_self)

lemma BindConst_int:
  "BindConst (IntLiteral v) = Inr e \<Longrightarrow> \<exists>w. e = ConstNode (VInt w) \<and> sint w = sint v"
proof -
  assume b: "BindConst (IntLiteral v) = Inr e"
  then have "- (2 ^ 31) \<le> sint v" "sint v < 2 ^ 31" by (auto split: if_splits)
  from sint_word_of_int32 [OF this] b show ?thesis
    by (intro exI [of _ "word_of_int (sint v)"]) (auto simp: MakeIntConst_def split: if_splits)
qed

end
