(* ===== verification/Binder.thy ===== *)
theory Binder
  imports Resolution TypeCoercion LogicalPlan
begin

text \<open>
  \<open>binder/binder\<close>: from a parsed statement to a logical plan, to typed rows for an insert, or to
  a new table.

  The scope of a \<open>SELECT\<close> and the parents of the disjoint sets are mutable objects of the code;
  the functions that change them are actions. Where the order of evaluation is left open by the
  language, operands are evaluated from left to right. The loop of \<open>DisjointSet::Find\<close> takes
  fuel, one more than the number of elements, which \<open>DisjointSets\<close> shows to be enough. The body
  of \<open>CollectColumnRefs\<close> in this file is that of \<open>optimizer/predicate_utils\<close>.
\<close>

section \<open>Expressions\<close>

fun FlattenAnd :: "RawExpression \<Rightarrow> RawExpression list \<Rightarrow> RawExpression list" where
  "FlattenAnd (RawBinaryOp op left right) out =
     (if op = kAnd then FlattenAnd right (FlattenAnd left out) else out @ [RawBinaryOp op left right])"
| "FlattenAnd expr out = out @ [expr]"

fun BindScalarExpression :: "RawExpression \<Rightarrow> ResolutionScope \<Rightarrow> BoundExpression result" where
  "BindScalarExpression (RawColumnRef node) scope =
     rbind (Resolve scope node) (\<lambda>ref. Inr (MakeColumnRef (cr_table_id ref) (cr_ordinal ref) (cr_type ref)))"
| "BindScalarExpression (RawConst node) scope = BindConst node"
| "BindScalarExpression (RawBinaryOp op l r) scope =
     rbind (BindScalarExpression l scope) (\<lambda>left.
     rbind (BindScalarExpression r scope) (\<lambda>right.
     rbind (ResultTypeForBinaryOp_checked op (ResultType left) (ResultType right)) (\<lambda>result_type.
       Inr (if IsLogicalOperator op then MakeBooleanOp op left right
            else MakeArithmeticOp op left right result_type))))"
| "BindScalarExpression (RawUnaryOp op e) scope =
     rbind (BindScalarExpression e scope) (\<lambda>operand.
     rbind (ResultTypeForUnaryOp op (ResultType operand)) (\<lambda>_. Inr (MakeNot operand)))"
| "BindScalarExpression (RawFunctionCall name args is_star_arg) scope =
     Inl (BindError (''Aggregate functions may only appear as a bare SELECT-list item, not nested '' @
       ''inside a larger expression''))"

definition BindPredicate :: "RawExpression \<Rightarrow> ResolutionScope \<Rightarrow> BoundExpression result" where
  "BindPredicate raw scope =
     rbind (BindScalarExpression raw scope) (\<lambda>bound.
       if ResultType bound \<noteq> etBoolean then Inl (BindError ''Expected a boolean expression here'') else Inr bound)"

definition same_column :: "BoundColumnRef \<Rightarrow> BoundColumnRef \<Rightarrow> bool" where
  "same_column a b = (cr_table_id a = cr_table_id b \<and> cr_ordinal a = cr_ordinal b)"

definition ContainsColumn :: "BoundColumnRef list \<Rightarrow> BoundColumnRef \<Rightarrow> bool" where
  "ContainsColumn haystack needle = list_ex (\<lambda>c. same_column c needle) haystack"

section \<open>Aggregate calls\<close>

fun ResultTypeForAggregate :: "LogicalAggregateKind \<Rightarrow> ExpressionType option \<Rightarrow> ExpressionType result" where
  "ResultTypeForAggregate aggCountStar argument_type = Inr etInteger"
| "ResultTypeForAggregate aggCount argument_type = Inr etInteger"
| "ResultTypeForAggregate aggAvg argument_type = Inr etFloat"
| "ResultTypeForAggregate _ None = Inl (BindError ''Aggregate function requires an argument type'')"
| "ResultTypeForAggregate _ (Some t) = Inr t"

fun AggregateOutputTypeId :: "LogicalAggregateKind \<Rightarrow> TypeId option \<Rightarrow> TypeId result" where
  "AggregateOutputTypeId aggCountStar argument_type = Inr kInteger"
| "AggregateOutputTypeId aggCount argument_type = Inr kInteger"
| "AggregateOutputTypeId aggAvg argument_type = Inr kFloat"
| "AggregateOutputTypeId _ None = Inl (UndefinedBehaviour ''empty optional dereferenced'')"
| "AggregateOutputTypeId _ (Some t) = Inr t"

text \<open>\<open>::tolower\<close> in the C locale.\<close>

definition tolower :: "char \<Rightarrow> char" where
  "tolower c = (let n = (of_char c :: nat) in if 65 \<le> n \<and> n \<le> 90 then char_of (n + 32) else c)"

definition aggregate_kind :: "string \<Rightarrow> BoundColumnRef \<Rightarrow> LogicalAggregateKind result" where
  "aggregate_kind name ref =
     (if name = ''count'' then Inr aggCount
      else if name = ''sum'' then
        (if cr_type ref = kVarchar then Inl (BindError ''SUM does not support VARCHAR'') else Inr aggSum)
      else if name = ''avg'' then
        (if cr_type ref = kVarchar then Inl (BindError ''AVG does not support VARCHAR'') else Inr aggAvg)
      else if name = ''min'' then Inr aggMin
      else if name = ''max'' then Inr aggMax
      else Inl (BindError (''Unsupported function: '' @ name)))"

definition BindAggregateCall ::
    "string \<Rightarrow> RawExpression list \<Rightarrow> bool \<Rightarrow> ResolutionScope \<Rightarrow> AggregateCall result" where
  "BindAggregateCall call_name args is_star_arg scope =
     (let name = map tolower call_name
      in if name = ''count'' \<and> is_star_arg then Inr \<lparr>ac_function = aggCountStar, ac_argument = None\<rparr>
         else case args of
           [RawColumnRef column_ref] \<Rightarrow>
             rbind (Resolve scope column_ref) (\<lambda>ref.
             rbind (aggregate_kind name ref) (\<lambda>kind. Inr \<lparr>ac_function = kind, ac_argument = Some ref\<rparr>))
         | [_] \<Rightarrow> Inl (BindError ''Aggregate function arguments must be a plain column reference'')
         | _ \<Rightarrow> Inl (BindError (''Aggregate function '' @ quoted name @ '' expects exactly one argument'')))"

section \<open>DisjointSet\<close>

type_synonym DisjointSet = "nat list"

definition MakeDisjointSet :: "nat \<Rightarrow> DisjointSet" where
  "MakeDisjointSet n = [0..<n]"

fun ds_Find_loop :: "nat \<Rightarrow> nat \<Rightarrow> (DisjointSet, nat) action" where
  "ds_Find_loop 0 x parent = (Inl OutOfFuel, parent)"
| "ds_Find_loop (Suc fuel) x parent =
     (case vec_at parent x of
        Inl e \<Rightarrow> (Inl e, parent)
      | Inr p \<Rightarrow>
          (if p = x then (Inr x, parent)
           else case vec_at parent p of
                  Inl e \<Rightarrow> (Inl e, parent)
                | Inr grandparent \<Rightarrow> ds_Find_loop fuel grandparent (parent[x := grandparent])))"

definition ds_Find :: "nat \<Rightarrow> (DisjointSet, nat) action" where
  "ds_Find x parent = ds_Find_loop (Suc (length parent)) x parent"

text \<open>The right operand of an assignment is evaluated first.\<close>

definition ds_Union :: "nat \<Rightarrow> nat \<Rightarrow> (DisjointSet, unit) action" where
  "ds_Union a b = sbind (ds_Find b) (\<lambda>rb. sbind (ds_Find a) (\<lambda>ra parent. (Inr (), parent[ra := rb])))"

section \<open>FROM clauses\<close>

definition MapRawTypeName :: "string \<Rightarrow> TypeId result" where
  "MapRawTypeName raw_type_name =
     (if raw_type_name = ''int4'' then Inr kInteger
      else if raw_type_name = ''float4'' then Inr kFloat
      else if raw_type_name = ''varchar'' \<or> raw_type_name = ''text'' then Inr kVarchar
      else Inl (BindError (''Unsupported column type: '' @ raw_type_name @
        '' (GistDB supports only INTEGER/int4, FLOAT/float4, VARCHAR/text)'')))"

record FromBinding =
  fb_plan :: LogicalPlanNode
  fb_binding_ids :: "uint32 list"

definition output_column :: "ColumnDef \<Rightarrow> OutputColumn" where
  "output_column col = \<lparr>oc_display_name = cd_name col, oc_type = ToExpressionType (cd_type col)\<rparr>"

definition bind_base_table :: "string \<Rightarrow> string option \<Rightarrow> Catalog \<Rightarrow> (ResolutionScope, FromBinding) action" where
  "bind_base_table table_name alias catalog =
     sbind (RegisterTable table_name alias catalog) (\<lambda>binding_id scope.
       case BindingFor scope binding_id of
         Inl e \<Rightarrow> (Inl e, scope)
       | Inr binding \<Rightarrow>
           (Inr \<lparr>fb_plan = MakeLogicalScan binding_id (to_table_id (rb_table binding))
                    (map output_column (to_columns (rb_table binding))),
                 fb_binding_ids = [binding_id]\<rparr>, scope))"

definition bind_equality :: "ResolutionScope \<Rightarrow> RawExpression \<Rightarrow> (BoundColumnRef \<times> BoundColumnRef) result" where
  "bind_equality scope conjunct =
     (let unsupported = Inl (BindError (''JOIN condition must be an equality (or AND of equalities) between plain '' @
            ''column references (GistDB only supports a Hash Join operator)''))
      in case conjunct of
           RawBinaryOp op (RawColumnRef lhs) (RawColumnRef rhs) \<Rightarrow>
             (if op \<noteq> kEqual then unsupported
              else rbind (Resolve scope lhs) (\<lambda>a. rbind (Resolve scope rhs) (\<lambda>b. Inr (a, b))))
         | _ \<Rightarrow> unsupported)"

definition join_bindings ::
    "FromBinding \<Rightarrow> FromBinding \<Rightarrow> RawExpression option \<Rightarrow> (ResolutionScope, FromBinding) action" where
  "join_bindings left right on_condition scope =
     (let conjuncts = (case on_condition of None \<Rightarrow> [] | Some c \<Rightarrow> FlattenAnd c [])
      in (rbind (rmap (bind_equality scope) conjuncts) (\<lambda>equi_conditions.
            Inr \<lparr>fb_plan = MakeLogicalJoin (fb_plan left) (fb_plan right) equi_conditions,
                 fb_binding_ids = fb_binding_ids left @ fb_binding_ids right\<rparr>), scope))"

fun BindTableRef :: "TableRefNode \<Rightarrow> Catalog \<Rightarrow> (ResolutionScope, FromBinding) action" where
  "BindTableRef (BaseTableRefNode table_name alias) catalog = bind_base_table table_name alias catalog"
| "BindTableRef (JoinRefNode (Some l) (Some r) on_condition) catalog =
     sbind (BindTableRef l catalog) (\<lambda>left.
     sbind (BindTableRef r catalog) (\<lambda>right. join_bindings left right on_condition))"
| "BindTableRef (JoinRefNode l r on_condition) catalog = sthrow (BindError ''Malformed JOIN'')"

record FromClauseResult =
  fr_plan :: LogicalPlanNode
  fr_remaining_where_conjuncts :: "RawExpression list"

definition part_index_of :: "FromBinding list \<Rightarrow> uint32 \<Rightarrow> nat result" where
  "part_index_of parts binding_id =
     (case find (\<lambda>i. binding_id \<in> set (fb_binding_ids (parts ! i))) [0..<length parts] of
        None \<Rightarrow> Inl (BindError ''Internal error: binding_id not found in any FROM part'')
      | Some i \<Rightarrow> Inr i)"

text \<open>The conjuncts kept as predicates, and the ones that connect two parts.\<close>

record Connections =
  remaining :: "RawExpression list"
  connecting_pairs :: "(nat \<times> nat) list"
  connecting_equalities :: "(BoundColumnRef \<times> BoundColumnRef) list"

definition classify_conjunct ::
    "ResolutionScope \<Rightarrow> FromBinding list \<Rightarrow> RawExpression \<Rightarrow> Connections \<Rightarrow> Connections result" where
  "classify_conjunct scope parts conjunct st =
     (let keep = st\<lparr>remaining := remaining st @ [conjunct]\<rparr>
      in case conjunct of
           RawBinaryOp op (RawColumnRef lhs) (RawColumnRef rhs) \<Rightarrow>
             (if op \<noteq> kEqual then Inr keep
              else rbind (Resolve scope lhs) (\<lambda>left_ref.
                   rbind (Resolve scope rhs) (\<lambda>right_ref.
                   rbind (part_index_of parts (cr_table_id left_ref)) (\<lambda>a.
                   rbind (part_index_of parts (cr_table_id right_ref)) (\<lambda>b.
                     Inr (if a \<noteq> b
                          then st\<lparr>connecting_pairs := connecting_pairs st @ [(a, b)],
                                  connecting_equalities := connecting_equalities st @ [(left_ref, right_ref)]\<rparr>
                          else keep))))))
         | _ \<Rightarrow> Inr keep)"

definition same_group :: "nat \<Rightarrow> nat \<Rightarrow> (DisjointSet, bool) action" where
  "same_group a b = sbind (ds_Find a) (\<lambda>ra. sbind (ds_Find b) (\<lambda>rb. sreturn (ra = rb)))"

definition connects_to :: "nat \<Rightarrow> nat \<Rightarrow> nat \<times> nat \<Rightarrow> (DisjointSet, bool) action" where
  "connects_to combined_root i = (\<lambda>(a, b).
     sbind (same_group a combined_root) (\<lambda>a_in.
       if a_in \<and> b = i then sreturn True
       else sbind (same_group b combined_root) (\<lambda>b_in. sreturn (b_in \<and> a = i))))"

text \<open>The first pair that connects part \<open>i\<close>, with the equality at the same index.\<close>

fun find_connection ::
    "nat \<Rightarrow> nat \<Rightarrow> ((nat \<times> nat) \<times> 'e) list \<Rightarrow> (DisjointSet, 'e option) action" where
  "find_connection combined_root i [] = sreturn None"
| "find_connection combined_root i ((pair, equality) # rest) =
     sbind (connects_to combined_root i pair) (\<lambda>connected.
       if connected then sreturn (Some equality) else find_connection combined_root i rest)"

fun join_parts ::
    "((nat \<times> nat) \<times> (BoundColumnRef \<times> BoundColumnRef)) list \<Rightarrow> (nat \<times> FromBinding) list \<Rightarrow> LogicalPlanNode \<Rightarrow>
     (DisjointSet, LogicalPlanNode) action" where
  "join_parts connections [] combined = sreturn combined"
| "join_parts connections ((i, part) # rest) combined =
     sbind (find_connection 0 i connections) (\<lambda>connection.
       case connection of
         None \<Rightarrow> sthrow (BindError ''Cartesian product not allowed: FROM items must be connected by a WHERE-clause'')
       | Some equality \<Rightarrow>
           sbind (ds_Union i 0) (\<lambda>_.
             join_parts connections rest (MakeLogicalJoin combined (fb_plan part) [equality])))"

definition combine_parts ::
    "FromBinding list \<Rightarrow> RawExpression list \<Rightarrow> ResolutionScope \<Rightarrow> FromClauseResult result" where
  "combine_parts parts where_conjuncts scope =
     (if length parts = 1
      then Inr \<lparr>fr_plan = fb_plan (hd parts), fr_remaining_where_conjuncts = where_conjuncts\<rparr>
      else rbind (rfold (classify_conjunct scope parts) where_conjuncts
                   \<lparr>remaining = [], connecting_pairs = [], connecting_equalities = []\<rparr>) (\<lambda>st.
           rbind (fst (join_parts (zip (connecting_pairs st) (connecting_equalities st))
                   (enumerate 1 (tl parts)) (fb_plan (hd parts)) (MakeDisjointSet (length parts)))) (\<lambda>combined.
             Inr \<lparr>fr_plan = combined, fr_remaining_where_conjuncts = remaining st\<rparr>)))"

definition BindFromClause ::
    "TableRefNode list \<Rightarrow> RawExpression list \<Rightarrow> Catalog \<Rightarrow> (ResolutionScope, FromClauseResult) action" where
  "BindFromClause items where_conjuncts catalog =
     (if items = [] then sthrow (BindError ''FROM clause must reference at least one table'')
      else sbind (smap (\<lambda>item. BindTableRef item catalog) items) (\<lambda>parts scope.
             (combine_parts parts where_conjuncts scope, scope)))"

section \<open>SELECT\<close>

definition bind_where_conjunct ::
    "ResolutionScope \<Rightarrow> RawExpression \<Rightarrow> BoundExpression option \<Rightarrow> BoundExpression option result" where
  "bind_where_conjunct scope conjunct predicate =
     rbind (BindPredicate conjunct scope) (\<lambda>bound.
       Inr (Some (case predicate of None \<Rightarrow> bound | Some p \<Rightarrow> MakeBooleanOp kAnd p bound)))"

definition bind_where :: "ResolutionScope \<Rightarrow> FromClauseResult \<Rightarrow> LogicalPlanNode result" where
  "bind_where scope from =
     rbind (rfold (bind_where_conjunct scope) (fr_remaining_where_conjuncts from) None) (\<lambda>predicate.
       case predicate of
         None \<Rightarrow> Inr (fr_plan from)
       | Some p \<Rightarrow> Inr (MakeLogicalFilter (fr_plan from) p))"

text \<open>The function calls among the items, with their positions.\<close>

type_synonym call_item = "nat \<times> string \<times> RawExpression list \<times> bool"

fun aggregate_items :: "nat \<Rightarrow> SelectItem list \<Rightarrow> call_item list result" where
  "aggregate_items i [] = Inr []"
| "aggregate_items i (item # items) =
     (if si_is_wildcard item then aggregate_items (Suc i) items
      else case si_expression item of
             None \<Rightarrow> Inl (UndefinedBehaviour ''null pointer dereference'')
           | Some (RawFunctionCall name args is_star_arg) \<Rightarrow>
               rbind (aggregate_items (Suc i) items) (\<lambda>rest. Inr ((i, name, args, is_star_arg) # rest))
           | Some _ \<Rightarrow> aggregate_items (Suc i) items)"

definition is_aggregate_query :: "SelectNode \<Rightarrow> call_item list \<Rightarrow> bool" where
  "is_aggregate_query select items = (items \<noteq> [] \<or> sel_group_by select \<noteq> [] \<or> having_clause select \<noteq> None)"

fun bind_group_key :: "ResolutionScope \<Rightarrow> RawExpression \<Rightarrow> (BoundColumnRef \<times> string) result" where
  "bind_group_key scope (RawColumnRef column_ref) =
     rbind (Resolve scope column_ref) (\<lambda>ref. Inr (ref, rc_column_name column_ref))"
| "bind_group_key scope _ = Inl (BindError ''GROUP BY currently only supports plain column references'')"

definition bind_call :: "ResolutionScope \<Rightarrow> call_item \<Rightarrow> (AggregateCall \<times> OutputColumn) result" where
  "bind_call scope = (\<lambda>(index, name, args, is_star_arg).
     rbind (BindAggregateCall name args is_star_arg scope) (\<lambda>agg.
     rbind (ResultTypeForAggregate (ac_function agg)
              (map_option (\<lambda>ref. ToExpressionType (cr_type ref)) (ac_argument agg))) (\<lambda>result_type.
       Inr (agg, \<lparr>oc_display_name = name, oc_type = result_type\<rparr>))))"

text \<open>An item that is no aggregate may only name grouping columns.\<close>

definition check_item ::
    "ResolutionScope \<Rightarrow> BoundColumnRef list \<Rightarrow> call_item list \<Rightarrow> nat \<times> SelectItem \<Rightarrow> unit result" where
  "check_item scope group_by_cols items = (\<lambda>(i, item).
     if list_ex (\<lambda>c. fst c = i) items then Inr ()
     else case si_expression item of
            None \<Rightarrow> Inl (UndefinedBehaviour ''null pointer dereference'')
          | Some e \<Rightarrow>
              rbind (BindScalarExpression e scope) (\<lambda>bound.
                if list_all (ContainsColumn group_by_cols) (CollectColumnRefs bound) then Inr ()
                else Inl (BindError ''Non-aggregated SELECT column must appear in GROUP BY'')))"

record AggregateBinding =
  ab_plan :: LogicalPlanNode
  ab_group_by_cols :: "BoundColumnRef list"
  ab_aggregates :: "AggregateCall list"

definition bind_aggregate ::
    "SelectNode \<Rightarrow> ResolutionScope \<Rightarrow> call_item list \<Rightarrow> LogicalPlanNode \<Rightarrow> AggregateBinding result" where
  "bind_aggregate select scope items plan =
     (if select_list select = [] \<or> list_ex si_is_wildcard (select_list select)
      then Inl (BindError ''SELECT * cannot be combined with GROUP BY or aggregate functions'')
      else rbind (rmap (bind_group_key scope) (sel_group_by select)) (\<lambda>keys.
           rbind (rmap (bind_call scope) items) (\<lambda>calls.
           rbind (rmap (check_item scope (map fst keys) items) (enumerate 0 (select_list select))) (\<lambda>_.
             let group_by_cols = map fst keys;
                 aggregates = map fst calls;
                 output_columns =
                   map (\<lambda>(ref, name). \<lparr>oc_display_name = name, oc_type = ToExpressionType (cr_type ref)\<rparr>) keys @ map snd calls;
                 plan = MakeLogicalAggregate plan group_by_cols aggregates output_columns
             in rbind (case having_clause select of
                         None \<Rightarrow> Inr plan
                       | Some having \<Rightarrow> rbind (BindPredicate having scope) (\<lambda>p. Inr (MakeLogicalFilter plan p))) (\<lambda>plan.
                  Inr \<lparr>ab_plan = plan, ab_group_by_cols = group_by_cols, ab_aggregates = aggregates\<rparr>)))))"

text \<open>\<open>std::find_if\<close> and \<open>std::distance\<close>: the number of keys when there is none.\<close>

fun position_of_key :: "BoundColumnRef list \<Rightarrow> BoundColumnRef \<Rightarrow> nat" where
  "position_of_key [] ref = 0"
| "position_of_key (key # keys) ref = (if same_column key ref then 0 else Suc (position_of_key keys ref))"

record Projected =
  next_aggregate_index :: nat
  pr_select_expressions :: "BoundExpression list"
  pr_output_columns :: "OutputColumn list"

definition project_aggregate ::
    "AggregateBinding \<Rightarrow> call_item list \<Rightarrow> Projected \<Rightarrow> Projected result" where
  "project_aggregate ab items st =
     (let next = next_aggregate_index st;
          position = length (ab_group_by_cols ab) + next
      in rbind (vec_at (ab_aggregates ab) next) (\<lambda>agg.
         rbind (AggregateOutputTypeId (ac_function agg) (map_option cr_type (ac_argument agg))) (\<lambda>result_type.
         rbind (vec_at items next) (\<lambda>(_, name, _, _).
           Inr \<lparr>next_aggregate_index = Suc next,
                pr_select_expressions = pr_select_expressions st @
                  [MakeColumnRef kAggregateOutputBindingId (word_of_nat position) result_type],
                pr_output_columns = pr_output_columns st @
                  [\<lparr>oc_display_name = name, oc_type = ToExpressionType result_type\<rparr>]\<rparr>))))"

text \<open>An item that is neither a call nor a column is read through a null \<open>column_ref\<close>.\<close>

definition project_key ::
    "ResolutionScope \<Rightarrow> AggregateBinding \<Rightarrow> SelectItem \<Rightarrow> Projected \<Rightarrow> Projected result" where
  "project_key scope ab item st =
     (case si_expression item of
        Some (RawColumnRef column_ref) \<Rightarrow>
          rbind (Resolve scope column_ref) (\<lambda>resolved.
            Inr (st\<lparr>pr_select_expressions := pr_select_expressions st @
                      [MakeColumnRef kAggregateOutputBindingId
                        (word_of_nat (position_of_key (ab_group_by_cols ab) resolved)) (cr_type resolved)],
                    pr_output_columns := pr_output_columns st @
                      [\<lparr>oc_display_name = rc_column_name column_ref, oc_type = ToExpressionType (cr_type resolved)\<rparr>]\<rparr>))
      | _ \<Rightarrow> Inl (UndefinedBehaviour ''null pointer dereference''))"

definition project_aggregate_item ::
    "ResolutionScope \<Rightarrow> AggregateBinding \<Rightarrow> call_item list \<Rightarrow> nat \<times> SelectItem \<Rightarrow> Projected \<Rightarrow> Projected result" where
  "project_aggregate_item scope ab items = (\<lambda>(i, item) st.
     if list_ex (\<lambda>c. fst c = i) items then project_aggregate ab items st
     else project_key scope ab item st)"

definition wildcard_columns :: "ResolutionScope \<Rightarrow> (BoundExpression \<times> OutputColumn) list" where
  "wildcard_columns scope =
     concat (map (\<lambda>binding. map (\<lambda>col.
       (MakeColumnRef (rb_binding_id binding) (cd_ordinal col) (cd_type col), output_column col))
         (to_columns (rb_table binding))) scope)"

definition bind_item :: "ResolutionScope \<Rightarrow> SelectItem \<Rightarrow> (BoundExpression \<times> OutputColumn) list result" where
  "bind_item scope item =
     (if si_is_wildcard item then Inr (wildcard_columns scope)
      else case si_expression item of
             None \<Rightarrow> Inl (UndefinedBehaviour ''null pointer dereference'')
           | Some e \<Rightarrow>
               rbind (BindScalarExpression e scope) (\<lambda>bound.
                 let display_name = (case e of RawColumnRef col_ref \<Rightarrow> rc_column_name col_ref | _ \<Rightarrow> '''')
                 in Inr [(bound, \<lparr>oc_display_name = display_name, oc_type = ResultType bound\<rparr>)]))"

definition bind_projection ::
    "SelectNode \<Rightarrow> ResolutionScope \<Rightarrow> LogicalPlanNode \<Rightarrow> LogicalPlanNode result" where
  "bind_projection select scope plan =
     rbind (rmap (bind_item scope) (select_list select)) (\<lambda>columns.
       Inr (MakeLogicalProjection plan (map fst (concat columns)) (map snd (concat columns))))"

definition bind_select_list ::
    "SelectNode \<Rightarrow> ResolutionScope \<Rightarrow> LogicalPlanNode \<Rightarrow> LogicalPlanNode result" where
  "bind_select_list select scope plan =
     rbind (aggregate_items 0 (select_list select)) (\<lambda>items.
       if is_aggregate_query select items
       then rbind (bind_aggregate select scope items plan) (\<lambda>ab.
            rbind (rfold (project_aggregate_item scope ab items) (enumerate 0 (select_list select))
                    \<lparr>next_aggregate_index = 0, pr_select_expressions = [], pr_output_columns = []\<rparr>) (\<lambda>st.
              Inr (MakeLogicalProjection (ab_plan ab) (pr_select_expressions st) (pr_output_columns st))))
       else bind_projection select scope plan)"

definition BindSelect :: "SelectNode \<Rightarrow> Catalog \<Rightarrow> LogicalPlanNode result" where
  "BindSelect select catalog =
     (if has_distinct select \<or> has_order_by select \<or> has_limit select \<or> has_with_clause select \<or> has_set_operation select
      then Inl (BindError ''DISTINCT, ORDER BY, LIMIT/OFFSET, WITH, and set operations are not supported '')
      else let where_conjuncts = (case where_clause select of None \<Rightarrow> [] | Some w \<Rightarrow> FlattenAnd w [])
           in case BindFromClause (from_tables select) where_conjuncts catalog [] of (from, scope) \<Rightarrow>
                rbind from (\<lambda>from.
                rbind (bind_where scope from) (\<lambda>plan. bind_select_list select scope plan)))"

section \<open>INSERT and CREATE TABLE\<close>

text \<open>A row holds a null pointer for a column that no value was given for.\<close>

record BoundInsert =
  bi_table_id :: uint32
  bi_rows :: "BoundExpression option list list"

definition target_ordinal :: "InsertNode \<Rightarrow> TableObject \<Rightarrow> string \<Rightarrow> uint32 result" where
  "target_ordinal ins table name =
     rbind (FindColumn table name) (\<lambda>col.
       case col of
         None \<Rightarrow> Inl (BindError (''Unknown column '' @ quoted name @ '' in table '' @ in_table_name ins))
       | Some col \<Rightarrow> Inr (cd_ordinal col))"

definition bind_insert_value ::
    "TableObject \<Rightarrow> uint32 \<times> RawExpression \<Rightarrow> BoundExpression option list \<Rightarrow> BoundExpression option list result" where
  "bind_insert_value table = (\<lambda>(ordinal, raw) bound_row.
     case raw of
       RawConst const_node \<Rightarrow>
         rbind (BindConst const_node) (\<lambda>bound_value.
         rbind (to_Column table (unat ordinal)) (\<lambda>column.
           if ToExpressionType (cd_type column) \<noteq> ResultType bound_value
           then Inl (BindError (''Type mismatch in INSERT value for column '' @ cd_name column))
           else Inr (bound_row[unat ordinal := Some bound_value])))
     | _ \<Rightarrow> Inl (BindError ''INSERT values must be literal constants''))"

definition bind_insert_row ::
    "TableObject \<Rightarrow> uint32 list \<Rightarrow> RawExpression list \<Rightarrow> BoundExpression option list result" where
  "bind_insert_row table target_ordinals raw_row =
     (if length raw_row \<noteq> length target_ordinals
      then Inl (BindError ''VALUES row has a different number of entries than the column list'')
      else if length target_ordinals \<noteq> length (to_columns table)
      then Inl (BindError (''Partial column-list INSERT (omitted columns implicitly NULL) is not yet supported -- '' @
        ''blocked on ConstNode'' @ [CHR 0x27] @ ''s missing null case, see this module'' @ [CHR 0x27] @ ''s prior flagged gap''))
      else rfold (bind_insert_value table) (zip target_ordinals raw_row) (replicate (length (to_columns table)) None))"

definition BindInsert :: "InsertNode \<Rightarrow> Catalog \<Rightarrow> BoundInsert result" where
  "BindInsert ins catalog =
     (case GetTable catalog (in_table_name ins) of
        None \<Rightarrow> Inl (BindError (''Unknown table: '' @ in_table_name ins))
      | Some table \<Rightarrow>
          rbind (if in_columns ins = [] then Inr (map word_of_nat [0..<length (to_columns table)])
                 else rmap (target_ordinal ins table) (in_columns ins)) (\<lambda>target_ordinals.
          rbind (rmap (bind_insert_row table target_ordinals) (in_value_rows ins)) (\<lambda>rows.
            Inr \<lparr>bi_table_id = to_table_id table, bi_rows = rows\<rparr>)))"

definition bind_column_def :: "nat \<times> RawColumnDef \<Rightarrow> ColumnDef result" where
  "bind_column_def = (\<lambda>(i, raw).
     rbind (MapRawTypeName (rd_raw_type_name raw)) (\<lambda>type.
       Inr \<lparr>cd_name = rd_name raw, cd_type = type, cd_ordinal = word_of_nat i\<rparr>))"

definition BindCreateTable :: "CreateTableNode \<Rightarrow> (Catalog, uint32) action" where
  "BindCreateTable create =
     sbind (sresult (rmap bind_column_def (enumerate 0 (ct_columns create)))) (\<lambda>columns.
       CreateTable (ct_table_name create) columns)"

section \<open>Statements\<close>

datatype ParsedStatement =
    SelectStatement SelectNode
  | InsertStatement InsertNode
  | CreateTableStatement CreateTableNode

datatype BindResult = BoundPlan LogicalPlanNode | BoundRows BoundInsert | TableCreated uint32

fun as_bind_error :: "error \<Rightarrow> error" where
  "as_bind_error (ResolutionError m) = BindError m"
| "as_bind_error (TypeCoercionError m) = BindError m"
| "as_bind_error (ParseError m) = BindError m"
| "as_bind_error e = e"

fun bind_statement :: "ParsedStatement \<Rightarrow> (Catalog, BindResult) action" where
  "bind_statement (SelectStatement select) catalog =
     (rbind (BindSelect select catalog) (\<lambda>plan. Inr (BoundPlan plan)), catalog)"
| "bind_statement (InsertStatement ins) catalog =
     (rbind (BindInsert ins catalog) (\<lambda>rows. Inr (BoundRows rows)), catalog)"
| "bind_statement (CreateTableStatement create) catalog =
     sbind (BindCreateTable create) (\<lambda>table_id. sreturn (TableCreated table_id)) catalog"

definition Bind :: "ParsedStatement \<Rightarrow> (Catalog, BindResult) action" where
  "Bind statement catalog =
     (case bind_statement statement catalog of
        (Inl e, catalog) \<Rightarrow> (Inl (as_bind_error e), catalog)
      | (Inr bound, catalog) \<Rightarrow> (Inr bound, catalog))"

end
