(* ===== verification/Parser.thy ===== *)
theory Parser
  imports Binder
begin

text \<open>
  \<open>binder/parser\<close>: the translation of the parse trees of the external SQL parser (libpg\_query)
  into statements. The SQL parser itself and \<open>std::stod\<close>, which depends on the C library and its
  locale, are parameters. The trees have exactly the fields that the translation reads: a node
  is tagged by its \<open>node_case\<close>, a pointer that may be null is an option, a repeated field is a
  list, and \<open>NodeOther\<close> stands for all other node cases. Reading the string of a node that is
  none, or following a null pointer, is undefined behaviour.
\<close>

section \<open>Parse trees\<close>

datatype PgValue = ValIval int32 | ValFval string | ValSval string | ValOther

datatype PgBoolExprType = AND_EXPR | OR_EXPR | NOT_EXPR
datatype PgJoinType = JOIN_INNER | JOIN_OTHER

datatype PgNode =
    NodeString string
  | NodeAStar
  | NodeAConst bool PgValue
  | NodeColumnRef "PgNode list"
  | NodeAExpr "PgNode list" "PgNode option" "PgNode option"
  | NodeBoolExpr PgBoolExprType "PgNode list"
  | NodeFuncCall "PgNode list" "PgNode list" bool
  | NodeRangeVar string "string option"
  | NodeJoinExpr PgJoinType "PgNode option" "PgNode option" "PgNode option"
  | NodeResTarget string "PgNode option"
  | NodeList "PgNode list"
  | NodeColumnDef string "PgNode list option"
  | NodeOther

record PgSelectStmt =
  pg_target_list :: "PgNode list"
  pg_from_clause :: "PgNode list"
  pg_where_clause :: "PgNode option"
  pg_group_clause :: "PgNode list"
  pg_having_clause :: "PgNode option"
  pg_n_distinct_clause :: nat
  pg_n_sort_clause :: nat
  pg_limit_count :: bool
  pg_limit_offset :: bool
  pg_with_clause :: bool
  pg_set_operation :: bool
  pg_values_lists :: "PgNode list"

record PgInsertStmt =
  pg_insert_relation :: "string option"
  pg_cols :: "PgNode list"
  pg_insert_select :: "PgSelectStmt option"

record PgCreateStmt =
  pg_create_relation :: "string option"
  pg_table_elts :: "PgNode list"

datatype PgStmt = StmtSelect PgSelectStmt | StmtInsert PgInsertStmt | StmtCreate PgCreateStmt | StmtOther

text \<open>What \<open>pg_query_parse_protobuf\<close> and unpacking give: an error message, no tree, or the statements.\<close>

type_synonym pg_parser = "string \<Rightarrow> string + PgStmt list option"

definition null_dereference :: "'a result" where
  "null_dereference = Inl (UndefinedBehaviour ''null pointer dereference'')"

fun string_of_node :: "PgNode \<Rightarrow> string result" where
  "string_of_node (NodeString s) = Inr s"
| "string_of_node _ = Inl (UndefinedBehaviour ''inactive member of a union'')"

section \<open>Expressions\<close>

definition ToOperator :: "string \<Rightarrow> BinaryOperator result" where
  "ToOperator op_name =
     (if op_name = ''='' then Inr kEqual
      else if op_name = ''<>'' \<or> op_name = ''!='' then Inr kNotEqual
      else if op_name = ''<'' then Inr kLessThan
      else if op_name = ''<='' then Inr kLessThanOrEqual
      else if op_name = ''>'' then Inr kGreaterThan
      else if op_name = ''>='' then Inr kGreaterThanOrEqual
      else if op_name = ''+'' then Inr kAdd
      else if op_name = ''-'' then Inr kSubtract
      else if op_name = ''*'' then Inr kMultiply
      else if op_name = ''/'' then Inr kDivide
      else Inl (ParseError (''Unsupported operator: '' @ op_name)))"

definition ConvertAConst :: "(string \<Rightarrow> float64 result) \<Rightarrow> bool \<Rightarrow> PgValue \<Rightarrow> RawExpression result" where
  "ConvertAConst stod isnull v =
     (if isnull then Inr MakeNullConst
      else case v of
             ValIval n \<Rightarrow> Inr (MakeRawIntConst (word_of_int (sint n)))
           | ValFval s \<Rightarrow> rbind (stod s) (\<lambda>d. Inr (MakeRawFloatConst d))
           | ValSval s \<Rightarrow> Inr (MakeRawStringConst s)
           | ValOther \<Rightarrow> Inl (ParseError ''Unsupported constant shape in A_Const''))"

definition is_string :: "PgNode \<Rightarrow> bool" where
  "is_string n = (case n of NodeString s \<Rightarrow> True | _ \<Rightarrow> False)"

definition ConvertColumnRef :: "PgNode list \<Rightarrow> RawExpression result" where
  "ConvertColumnRef parts =
     (if length parts = 1 \<and> is_string (parts ! 0)
      then rbind (string_of_node (parts ! 0)) (\<lambda>name. Inr (MakeRawColumnRef None name))
      else if length parts = 2 \<and> is_string (parts ! 0) \<and> is_string (parts ! 1)
      then rbind (string_of_node (parts ! 0)) (\<lambda>qualifier.
           rbind (string_of_node (parts ! 1)) (\<lambda>name. Inr (MakeRawColumnRef (Some qualifier) name)))
      else Inl (ParseError (''Unsupported column reference shape (e.g. qualified '' @ quoted ''*'' @ '' is not supported)'')))"

text \<open>\<open>ConvertExpr\<close> with the conversions of the node kinds, which call each other.\<close>

fun ConvertExpr :: "(string \<Rightarrow> float64 result) \<Rightarrow> PgNode \<Rightarrow> RawExpression result"
  and ConvertExprs :: "(string \<Rightarrow> float64 result) \<Rightarrow> PgNode list \<Rightarrow> RawExpression list result"
  and ConvertOptional :: "(string \<Rightarrow> float64 result) \<Rightarrow> PgNode option \<Rightarrow> RawExpression result" where
  "ConvertExpr stod (NodeAConst isnull v) = ConvertAConst stod isnull v"
| "ConvertExpr stod (NodeColumnRef parts) = ConvertColumnRef parts"
| "ConvertExpr stod (NodeAExpr name lexpr rexpr) =
     (if length name \<noteq> 1 then Inl (ParseError ''Unsupported operator name shape'')
      else rbind (string_of_node (hd name)) (\<lambda>op_name.
           rbind (ToOperator op_name) (\<lambda>op.
           rbind (ConvertOptional stod lexpr) (\<lambda>left.
           rbind (ConvertOptional stod rexpr) (\<lambda>right. Inr (MakeBinaryOp op left right))))))"
| "ConvertExpr stod (NodeBoolExpr boolop args) =
     (if boolop = NOT_EXPR
      then (if length args \<noteq> 1 then Inl (ParseError ''NOT expects exactly one operand'')
            else rbind (ConvertExprs stod args) (\<lambda>es. Inr (MakeUnaryOp kNot (hd es))))
      else if length args < 2 then Inl (ParseError ''AND/OR expects at least two operands'')
      else rbind (ConvertExprs stod args) (\<lambda>es.
           Inr (fold (\<lambda>e result. MakeBinaryOp (if boolop = AND_EXPR then kAnd else kOr) result e) (tl es) (hd es))))"
| "ConvertExpr stod (NodeFuncCall funcname args agg_star) =
     (if length funcname \<noteq> 1 then Inl (ParseError ''Qualified function names are not supported'')
      else rbind (ConvertExprs stod args) (\<lambda>es.
           rbind (string_of_node (hd funcname)) (\<lambda>name. Inr (MakeFunctionCall name es agg_star))))"
| "ConvertExpr stod _ = Inl (ParseError ''Unsupported expression node type'')"
| "ConvertExprs stod [] = Inr []"
| "ConvertExprs stod (n # ns) =
     rbind (ConvertExpr stod n) (\<lambda>e. rbind (ConvertExprs stod ns) (\<lambda>es. Inr (e # es)))"
| "ConvertOptional stod None = null_dereference"
| "ConvertOptional stod (Some n) = ConvertExpr stod n"

text \<open>A clause that may be absent.\<close>

definition convert_clause :: "(string \<Rightarrow> float64 result) \<Rightarrow> PgNode option \<Rightarrow> RawExpression option result" where
  "convert_clause stod clause =
     (case clause of None \<Rightarrow> Inr None | Some n \<Rightarrow> rbind (ConvertExpr stod n) (\<lambda>e. Inr (Some e)))"

section \<open>FROM items and select lists\<close>

definition ConvertRangeVar :: "string \<Rightarrow> string option \<Rightarrow> TableRefNode" where
  "ConvertRangeVar relname alias = MakeBaseTableRef relname alias"

fun ConvertFromItem :: "(string \<Rightarrow> float64 result) \<Rightarrow> PgNode \<Rightarrow> TableRefNode result"
  and ConvertFromOperand :: "(string \<Rightarrow> float64 result) \<Rightarrow> PgNode option \<Rightarrow> TableRefNode result" where
  "ConvertFromItem stod (NodeRangeVar relname alias) = Inr (ConvertRangeVar relname alias)"
| "ConvertFromItem stod (NodeJoinExpr jointype larg rarg quals) =
     (if jointype \<noteq> JOIN_INNER
      then Inl (ParseError (''Only INNER JOIN is supported -- no locked decision addresses outer-join NULL-padding '' @
        ''semantics, and Hash Join'' @ [CHR 0x27] @ ''s design has no mechanism for it''))
      else rbind (ConvertFromOperand stod larg) (\<lambda>left.
           rbind (ConvertFromOperand stod rarg) (\<lambda>right.
           rbind (convert_clause stod quals) (\<lambda>on_condition. Inr (MakeJoinRef left right on_condition)))))"
| "ConvertFromItem stod _ = Inl (ParseError ''Unsupported FROM-clause item'')"
| "ConvertFromOperand stod None = null_dereference"
| "ConvertFromOperand stod (Some n) = ConvertFromItem stod n"

fun IsStarColumnRef :: "PgNode \<Rightarrow> bool" where
  "IsStarColumnRef (NodeColumnRef parts) = (length parts = 1 \<and> parts ! 0 = NodeAStar)"
| "IsStarColumnRef _ = False"

fun ConvertTargetItem :: "(string \<Rightarrow> float64 result) \<Rightarrow> PgNode \<Rightarrow> SelectItem result" where
  "ConvertTargetItem stod (NodeResTarget name (Some val)) =
     (if IsStarColumnRef val then Inr \<lparr>si_is_wildcard = True, si_expression = None\<rparr>
      else rbind (ConvertExpr stod val) (\<lambda>e. Inr \<lparr>si_is_wildcard = False, si_expression = Some e\<rparr>))"
| "ConvertTargetItem stod (NodeResTarget name None) = null_dereference"
| "ConvertTargetItem stod _ = Inl (ParseError ''Expected ResTarget in select list'')"

section \<open>Statements\<close>

definition ConvertSelectStmt :: "(string \<Rightarrow> float64 result) \<Rightarrow> PgSelectStmt \<Rightarrow> SelectNode result" where
  "ConvertSelectStmt stod stmt =
     rbind (rmap (ConvertTargetItem stod) (pg_target_list stmt)) (\<lambda>items.
     rbind (rmap (ConvertFromItem stod) (pg_from_clause stmt)) (\<lambda>tables.
     rbind (convert_clause stod (pg_where_clause stmt)) (\<lambda>condition.
     rbind (rmap (ConvertExpr stod) (pg_group_clause stmt)) (\<lambda>keys.
     rbind (convert_clause stod (pg_having_clause stmt)) (\<lambda>having.
       Inr \<lparr>select_list = items, from_tables = tables, where_clause = condition, sel_group_by = keys, having_clause = having,
            has_distinct = (pg_n_distinct_clause stmt > 0), has_order_by = (pg_n_sort_clause stmt > 0),
            has_limit = (pg_limit_count stmt \<or> pg_limit_offset stmt), has_with_clause = pg_with_clause stmt,
            has_set_operation = pg_set_operation stmt\<rparr>)))))"

fun insert_column :: "PgNode \<Rightarrow> string result" where
  "insert_column (NodeResTarget name val) = Inr name"
| "insert_column _ = Inl (ParseError ''Unsupported INSERT column-list entry'')"

fun values_row :: "(string \<Rightarrow> float64 result) \<Rightarrow> PgNode \<Rightarrow> RawExpression list result" where
  "values_row stod (NodeList elements) = rmap (ConvertExpr stod) elements"
| "values_row stod _ = Inl (ParseError ''Malformed VALUES row'')"

definition relation_name :: "string option \<Rightarrow> string result" where
  "relation_name relation = (case relation of None \<Rightarrow> null_dereference | Some relname \<Rightarrow> Inr relname)"

definition ConvertInsertStmt :: "(string \<Rightarrow> float64 result) \<Rightarrow> PgInsertStmt \<Rightarrow> InsertNode result" where
  "ConvertInsertStmt stod stmt =
     rbind (relation_name (pg_insert_relation stmt)) (\<lambda>table_name.
     rbind (rmap insert_column (pg_cols stmt)) (\<lambda>columns.
       case pg_insert_select stmt of
         None \<Rightarrow> Inl (ParseError ''INSERT must supply a VALUES list'')
       | Some vals \<Rightarrow>
           rbind (rmap (values_row stod) (pg_values_lists vals)) (\<lambda>rows.
             Inr \<lparr>in_table_name = table_name, in_columns = columns, in_value_rows = rows\<rparr>)))"

fun convert_column_def :: "PgNode \<Rightarrow> RawColumnDef result" where
  "convert_column_def (NodeColumnDef colname type_name) =
     (case type_name of
        None \<Rightarrow> Inl (ParseError ''Column definition is missing a type name'')
      | Some names \<Rightarrow>
          (if names = [] then Inl (ParseError ''Column definition is missing a type name'')
           else rbind (string_of_node (last names)) (\<lambda>raw_type. Inr \<lparr>rd_name = colname, rd_raw_type_name = raw_type\<rparr>)))"
| "convert_column_def _ = Inl (ParseError ''Only plain column definitions are supported in CREATE TABLE'')"

definition ConvertCreateStmt :: "PgCreateStmt \<Rightarrow> CreateTableNode result" where
  "ConvertCreateStmt stmt =
     rbind (relation_name (pg_create_relation stmt)) (\<lambda>table_name.
     rbind (rmap convert_column_def (pg_table_elts stmt)) (\<lambda>columns.
       Inr \<lparr>ct_table_name = table_name, ct_columns = columns\<rparr>))"

definition convert_stmt :: "(string \<Rightarrow> float64 result) \<Rightarrow> PgStmt \<Rightarrow> ParsedStatement result" where
  "convert_stmt stod stmt =
     (case stmt of
        StmtSelect s \<Rightarrow> rbind (ConvertSelectStmt stod s) (\<lambda>select. Inr (SelectStatement select))
      | StmtInsert s \<Rightarrow> rbind (ConvertInsertStmt stod s) (\<lambda>ins. Inr (InsertStatement ins))
      | StmtCreate s \<Rightarrow> rbind (ConvertCreateStmt s) (\<lambda>create. Inr (CreateTableStatement create))
      | StmtOther \<Rightarrow> Inl (ParseError ''Unsupported statement type''))"

definition ParseSingleStatement :: "pg_parser \<Rightarrow> (string \<Rightarrow> float64 result) \<Rightarrow> string \<Rightarrow> ParsedStatement result" where
  "ParseSingleStatement pg stod sql =
     (case pg sql of
        Inl message \<Rightarrow> Inl (ParseError message)
      | Inr None \<Rightarrow> Inl (ParseError ''Failed to unpack parse tree'')
      | Inr (Some stmts) \<Rightarrow>
          (if length stmts \<noteq> 1 then Inl (ParseError ''Expected exactly one SQL statement'')
           else convert_stmt stod (hd stmts)))"

section \<open>Printing\<close>

text \<open>
  The tree of an expression, as the SQL parser builds it. Its grammar flattens a chain of \<open>AND\<close>
  or \<open>OR\<close> on sight: a left operand that already is a node of the same connective receives the
  right operand as a further argument, so \<open>a AND b AND c\<close> is one node of three arguments.
\<close>

fun operator_name :: "BinaryOperator \<Rightarrow> string" where
  "operator_name kEqual = ''=''"
| "operator_name kNotEqual = ''<>''"
| "operator_name kLessThan = ''<''"
| "operator_name kLessThanOrEqual = ''<=''"
| "operator_name kGreaterThan = ''>''"
| "operator_name kGreaterThanOrEqual = ''>=''"
| "operator_name kAdd = ''+''"
| "operator_name kSubtract = ''-''"
| "operator_name kMultiply = ''*''"
| "operator_name kDivide = ''/''"
| "operator_name op = ''''"

lemma ToOperator_name: "\<not> IsLogicalOperator op \<Longrightarrow> ToOperator (operator_name op) = Inr op"
  by (cases op) (simp_all add: ToOperator_def IsLogicalOperator_def)

fun const_tree :: "(float64 \<Rightarrow> string) \<Rightarrow> RawConstNode \<Rightarrow> PgNode" where
  "const_tree show_double NullLiteral = NodeAConst True ValOther"
| "const_tree show_double (IntLiteral v) = NodeAConst False (ValIval (word_of_int (sint v)))"
| "const_tree show_double (DoubleLiteral d) = NodeAConst False (ValFval (show_double d))"
| "const_tree show_double (StringLiteral s) = NodeAConst False (ValSval s)"

fun make_bool :: "PgBoolExprType \<Rightarrow> PgNode \<Rightarrow> PgNode \<Rightarrow> PgNode" where
  "make_bool ty (NodeBoolExpr boolop args) r =
     (if boolop = ty then NodeBoolExpr ty (args @ [r]) else NodeBoolExpr ty [NodeBoolExpr boolop args, r])"
| "make_bool ty l r = NodeBoolExpr ty [l, r]"

fun expr_tree :: "(float64 \<Rightarrow> string) \<Rightarrow> RawExpression \<Rightarrow> PgNode" where
  "expr_tree sd (RawColumnRef r) =
     NodeColumnRef ((case rc_table_qualifier r of None \<Rightarrow> [] | Some q \<Rightarrow> [NodeString q]) @ [NodeString (rc_column_name r)])"
| "expr_tree sd (RawConst c) = const_tree sd c"
| "expr_tree sd (RawBinaryOp op l r) =
     (if IsLogicalOperator op then make_bool (if op = kAnd then AND_EXPR else OR_EXPR) (expr_tree sd l) (expr_tree sd r)
      else NodeAExpr [NodeString (operator_name op)] (Some (expr_tree sd l)) (Some (expr_tree sd r)))"
| "expr_tree sd (RawUnaryOp op e) = NodeBoolExpr NOT_EXPR [expr_tree sd e]"
| "expr_tree sd (RawFunctionCall name args star) = NodeFuncCall [NodeString name] (map (expr_tree sd) args) star"

text \<open>
  The SQL parser reads integers of 32 bits only; larger numerals are floating-point literals,
  which are read back when \<open>std::stod\<close> undoes their printing.
\<close>

fun readable :: "(string \<Rightarrow> float64 result) \<Rightarrow> (float64 \<Rightarrow> string) \<Rightarrow> RawExpression \<Rightarrow> bool" where
  "readable stod sd (RawConst c) =
     (case c of IntLiteral v \<Rightarrow> - (2 ^ 31) \<le> sint v \<and> sint v < 2 ^ 31 | DoubleLiteral d \<Rightarrow> stod (sd d) = Inr d | _ \<Rightarrow> True)"
| "readable stod sd (RawBinaryOp op l r) = (readable stod sd l \<and> readable stod sd r)"
| "readable stod sd (RawUnaryOp op e) = readable stod sd e"
| "readable stod sd (RawFunctionCall name args star) = list_all (readable stod sd) args"
| "readable stod sd (RawColumnRef r) = True"

lemma int64_of_int32:
  assumes "- (2 ^ 31) \<le> sint (v :: int64)" "sint v < 2 ^ 31"
  shows "word_of_int (sint (word_of_int (sint v) :: int32)) = v"
  unfolding sint_word_of_int32 [OF assms] by simp

lemma ConvertExprs_map: "(\<And>e. e \<in> set es \<Longrightarrow> ConvertExpr stod (f e) = Inr e) \<Longrightarrow> ConvertExprs stod (map f es) = Inr es"
  by (induction es) simp_all

lemma ConvertExprs_append:
  "ConvertExprs stod (ms @ ns) = rbind (ConvertExprs stod ms) (\<lambda>es. rbind (ConvertExprs stod ns) (\<lambda>fs. Inr (es @ fs)))"
proof (induction ms)
  case (Cons m ms)
  then show ?case by (cases "ConvertExpr stod m"; cases "ConvertExprs stod ms"; cases "ConvertExprs stod ns") simp_all
qed (cases "ConvertExprs stod ns"; simp)

lemma ConvertExprs_length: "ConvertExprs stod ns = Inr es \<Longrightarrow> length es = length ns"
  by (induction ns arbitrary: es) (auto simp: result_simps)

lemma make_bool_converts:
  assumes l: "ConvertExpr stod l = Inr el" and r: "ConvertExpr stod r = Inr er" and ty: "ty \<noteq> NOT_EXPR"
  shows "ConvertExpr stod (make_bool ty l r) = Inr (MakeBinaryOp (if ty = AND_EXPR then kAnd else kOr) el er)"
proof (cases "\<exists>args. l = NodeBoolExpr ty args")
  case True
  then obtain args where args: "l = NodeBoolExpr ty args" ..
  with l ty obtain es where es: "ConvertExprs stod args = Inr es" "\<not> length args < 2"
    "el = fold (\<lambda>e result. MakeBinaryOp (if ty = AND_EXPR then kAnd else kOr) result e) (tl es) (hd es)"
    by (auto simp: result_simps split: if_splits)
  then have "es \<noteq> []" using ConvertExprs_length [OF es(1)] by auto
  moreover have "args \<noteq> []" using es(2) by auto
  ultimately show ?thesis using es r ty by (simp add: args ConvertExprs_append)
next
  case False
  then have "make_bool ty l r = NodeBoolExpr ty [l, r]" by (cases l) auto
  with assms show ?thesis by simp
qed

lemma rmap_inverse: "(\<And>x. x \<in> set xs \<Longrightarrow> f (g x) = Inr x) \<Longrightarrow> rmap f (map g xs) = Inr xs"
  by (induction xs) simp_all

lemma const_tree_converts:
  assumes "readable stod sd (RawConst c)"
  shows "ConvertExpr stod (const_tree sd c) = Inr (RawConst c)"
proof (cases c)
  case (IntLiteral v)
  with assms int64_of_int32 [of v] show ?thesis by (simp add: ConvertAConst_def MakeRawIntConst_def)
qed (use assms in \<open>simp_all add: ConvertAConst_def MakeNullConst_def MakeRawFloatConst_def MakeRawStringConst_def\<close>)

lemma expr_tree_converts: "readable stod sd e \<Longrightarrow> ConvertExpr stod (expr_tree sd e) = Inr e"
proof (induction e)
  case (RawColumnRef r)
  then show ?case by (cases r; cases "rc_table_qualifier r") (simp_all add: MakeRawColumnRef_def ConvertColumnRef_def is_string_def)
next
  case (RawConst c)
  then show ?case using const_tree_converts by simp
next
  case (RawBinaryOp op l r)
  show ?case
  proof (cases "IsLogicalOperator op")
    case True
    then have "op = kAnd \<or> op = kOr" by (simp add: IsLogicalOperator_def)
    with RawBinaryOp make_bool_converts [of stod "expr_tree sd l" l "expr_tree sd r" r] show ?thesis
      by (auto simp: IsLogicalOperator_def MakeBinaryOp_def)
  next
    case False
    with RawBinaryOp ToOperator_name [OF False] show ?thesis by (simp add: MakeBinaryOp_def)
  qed
next
  case (RawUnaryOp op e)
  then show ?case by (cases op) (simp add: MakeUnaryOp_def)
next
  case (RawFunctionCall name args star)
  then have "ConvertExprs stod (map (expr_tree sd) args) = Inr args" by (intro ConvertExprs_map) (auto simp: list_all_iff)
  then show ?case by (simp add: MakeFunctionCall_def)
qed

lemma make_bool_not_star: "\<not> IsStarColumnRef (make_bool ty l r)"
  by (cases l) simp_all

lemma expr_tree_not_star: "\<not> IsStarColumnRef (expr_tree sd e)"
proof (cases e)
  case (RawColumnRef r)
  then show ?thesis by (cases "rc_table_qualifier r") simp_all
next
  case (RawConst c)
  then show ?thesis by (cases c) simp_all
qed (simp_all add: make_bool_not_star)

fun table_tree :: "(float64 \<Rightarrow> string) \<Rightarrow> TableRefNode \<Rightarrow> PgNode" where
  "table_tree sd (BaseTableRefNode name alias) = NodeRangeVar name alias"
| "table_tree sd (JoinRefNode l r on_condition) =
     NodeJoinExpr JOIN_INNER (map_option (table_tree sd) l) (map_option (table_tree sd) r) (map_option (expr_tree sd) on_condition)"

definition clause_readable :: "(string \<Rightarrow> float64 result) \<Rightarrow> (float64 \<Rightarrow> string) \<Rightarrow> RawExpression option \<Rightarrow> bool" where
  "clause_readable stod sd clause = (case clause of None \<Rightarrow> True | Some e \<Rightarrow> readable stod sd e)"

fun table_readable :: "(string \<Rightarrow> float64 result) \<Rightarrow> (float64 \<Rightarrow> string) \<Rightarrow> TableRefNode \<Rightarrow> bool" where
  "table_readable stod sd (BaseTableRefNode name alias) = True"
| "table_readable stod sd (JoinRefNode (Some l) (Some r) on_condition) =
     (table_readable stod sd l \<and> table_readable stod sd r \<and> clause_readable stod sd on_condition)"
| "table_readable stod sd (JoinRefNode l r on_condition) = False"

lemma clause_converts:
  "clause_readable stod sd clause \<Longrightarrow> convert_clause stod (map_option (expr_tree sd) clause) = Inr clause"
  using expr_tree_converts by (auto simp: convert_clause_def clause_readable_def split: option.splits)

lemma table_tree_converts: "table_readable stod sd t \<Longrightarrow> ConvertFromItem stod (table_tree sd t) = Inr t"
  by (induction stod sd t rule: table_readable.induct)
    (simp_all add: ConvertRangeVar_def MakeBaseTableRef_def MakeJoinRef_def clause_converts)

definition item_tree :: "(float64 \<Rightarrow> string) \<Rightarrow> SelectItem \<Rightarrow> PgNode" where
  "item_tree sd i = NodeResTarget '''' (Some (case si_expression i of None \<Rightarrow> NodeColumnRef [NodeAStar] | Some e \<Rightarrow> expr_tree sd e))"

definition item_readable :: "(string \<Rightarrow> float64 result) \<Rightarrow> (float64 \<Rightarrow> string) \<Rightarrow> SelectItem \<Rightarrow> bool" where
  "item_readable stod sd i = (si_is_wildcard i = (si_expression i = None) \<and> clause_readable stod sd (si_expression i))"

lemma item_tree_converts: "item_readable stod sd i \<Longrightarrow> ConvertTargetItem stod (item_tree sd i) = Inr i"
  using expr_tree_converts expr_tree_not_star
  by (cases i; cases "si_expression i") (auto simp: item_tree_def item_readable_def clause_readable_def)

definition select_tree :: "(float64 \<Rightarrow> string) \<Rightarrow> SelectNode \<Rightarrow> PgSelectStmt" where
  "select_tree sd s =
     \<lparr>pg_target_list = map (item_tree sd) (select_list s), pg_from_clause = map (table_tree sd) (from_tables s),
      pg_where_clause = map_option (expr_tree sd) (where_clause s), pg_group_clause = map (expr_tree sd) (sel_group_by s),
      pg_having_clause = map_option (expr_tree sd) (having_clause s), pg_n_distinct_clause = (if has_distinct s then 1 else 0),
      pg_n_sort_clause = (if has_order_by s then 1 else 0), pg_limit_count = has_limit s, pg_limit_offset = False,
      pg_with_clause = has_with_clause s, pg_set_operation = has_set_operation s, pg_values_lists = []\<rparr>"

definition values_tree :: "(float64 \<Rightarrow> string) \<Rightarrow> RawExpression list list \<Rightarrow> PgSelectStmt" where
  "values_tree sd rows =
     \<lparr>pg_target_list = [], pg_from_clause = [], pg_where_clause = None, pg_group_clause = [], pg_having_clause = None,
      pg_n_distinct_clause = 0, pg_n_sort_clause = 0, pg_limit_count = False, pg_limit_offset = False, pg_with_clause = False,
      pg_set_operation = False, pg_values_lists = map (\<lambda>row. NodeList (map (expr_tree sd) row)) rows\<rparr>"

text \<open>
  The name of a built-in type comes with its schema, \<open>INTEGER\<close> as \<open>pg_catalog.int4\<close>;
  \<open>qualifier\<close> says which names stand before a type name.
\<close>

definition type_tree :: "(string \<Rightarrow> string list) \<Rightarrow> string \<Rightarrow> PgNode list" where
  "type_tree qualifier name = map NodeString (qualifier name @ [name])"

fun stmt_tree :: "(float64 \<Rightarrow> string) \<Rightarrow> (string \<Rightarrow> string list) \<Rightarrow> ParsedStatement \<Rightarrow> PgStmt" where
  "stmt_tree sd qualifier (SelectStatement s) = StmtSelect (select_tree sd s)"
| "stmt_tree sd qualifier (InsertStatement i) = StmtInsert \<lparr>pg_insert_relation = Some (in_table_name i),
     pg_cols = map (\<lambda>c. NodeResTarget c None) (in_columns i), pg_insert_select = Some (values_tree sd (in_value_rows i))\<rparr>"
| "stmt_tree sd qualifier (CreateTableStatement c) = StmtCreate \<lparr>pg_create_relation = Some (ct_table_name c),
     pg_table_elts = map (\<lambda>d. NodeColumnDef (rd_name d) (Some (type_tree qualifier (rd_raw_type_name d)))) (ct_columns c)\<rparr>"

fun stmt_readable :: "(string \<Rightarrow> float64 result) \<Rightarrow> (float64 \<Rightarrow> string) \<Rightarrow> ParsedStatement \<Rightarrow> bool" where
  "stmt_readable stod sd (SelectStatement s) =
     (list_all (item_readable stod sd) (select_list s) \<and> list_all (table_readable stod sd) (from_tables s) \<and>
      clause_readable stod sd (where_clause s) \<and> list_all (readable stod sd) (sel_group_by s) \<and> clause_readable stod sd (having_clause s))"
| "stmt_readable stod sd (InsertStatement i) = list_all (list_all (readable stod sd)) (in_value_rows i)"
| "stmt_readable stod sd (CreateTableStatement c) = True"

lemma select_tree_converts:
  assumes "stmt_readable stod sd (SelectStatement s)"
  shows "ConvertSelectStmt stod (select_tree sd s) = Inr s"
proof -
  have "rmap (ConvertTargetItem stod) (map (item_tree sd) (select_list s)) = Inr (select_list s)"
    using assms item_tree_converts by (auto simp: list_all_iff intro!: rmap_inverse)
  moreover have "rmap (ConvertFromItem stod) (map (table_tree sd) (from_tables s)) = Inr (from_tables s)"
    using assms table_tree_converts by (auto simp: list_all_iff intro!: rmap_inverse)
  moreover have "rmap (ConvertExpr stod) (map (expr_tree sd) (sel_group_by s)) = Inr (sel_group_by s)"
    using assms expr_tree_converts by (auto simp: list_all_iff intro!: rmap_inverse)
  ultimately show ?thesis using assms by (simp add: ConvertSelectStmt_def select_tree_def clause_converts)
qed

lemma insert_tree_converts:
  assumes "stmt_readable stod sd (InsertStatement i)"
  shows "convert_stmt stod (stmt_tree sd qualifier (InsertStatement i)) = Inr (InsertStatement i)"
proof -
  have row: "values_row stod (NodeList (map (expr_tree sd) row)) = Inr row" if "row \<in> set (in_value_rows i)" for row
    using assms that expr_tree_converts by (auto simp: list_all_iff intro!: rmap_inverse)
  have "rmap (values_row stod) (map (\<lambda>row. NodeList (map (expr_tree sd) row)) (in_value_rows i)) = Inr (in_value_rows i)"
    by (rule rmap_inverse) (rule row)
  moreover have "rmap insert_column (map (\<lambda>c. NodeResTarget c None) (in_columns i)) = Inr (in_columns i)"
    by (rule rmap_inverse) simp
  ultimately show ?thesis by (simp add: convert_stmt_def ConvertInsertStmt_def relation_name_def values_tree_def)
qed

lemma stmt_tree_converts: "stmt_readable stod sd s \<Longrightarrow> convert_stmt stod (stmt_tree sd qualifier s) = Inr s"
proof (cases s)
  case (CreateTableStatement c)
  have "rmap convert_column_def (map (\<lambda>d. NodeColumnDef (rd_name d) (Some (type_tree qualifier (rd_raw_type_name d)))) (ct_columns c)) = Inr (ct_columns c)"
    by (rule rmap_inverse) (simp add: type_tree_def)
  with CreateTableStatement show ?thesis by (simp add: convert_stmt_def ConvertCreateStmt_def relation_name_def)
next
  case (InsertStatement i)
  then show "stmt_readable stod sd s \<Longrightarrow> ?thesis" using insert_tree_converts by simp
next
  case (SelectStatement select)
  then show "stmt_readable stod sd s \<Longrightarrow> ?thesis" using select_tree_converts by (simp add: convert_stmt_def)
qed

end
