(* ===== verification/OutputFormatter.thy ===== *)
theory OutputFormatter
  imports Pipeline Floats
begin

text \<open>
  \<open>cli/output_formatter\<close>: values, chunks and tables as text. The output stream is the string
  written so far. A float is printed as the stream does with precision 6: six significant
  digits of its exact value, rounded to nearest with ties to even, without trailing zeros, in
  scientific notation when the decimal exponent is below -4 or above 5.
\<close>

section \<open>Numbers as text\<close>

fun show_nat :: "nat \<Rightarrow> string" where
  "show_nat n = (if n < 10 then [char_of (48 + n)] else show_nat (n div 10) @ [char_of (48 + n mod 10)])"

declare show_nat.simps [simp del]

definition show_int :: "int \<Rightarrow> string" where
  "show_int i = (if i < 0 then ''-'' @ show_nat (nat (- i)) else show_nat (nat i))"

definition round_div :: "nat \<Rightarrow> nat \<Rightarrow> nat" where
  "round_div n d =
     (let q = n div d; r = n mod d in if d < 2 * r \<or> (2 * r = d \<and> odd q) then q + 1 else q)"

text \<open>The exponent of the leading decimal digit of \<open>num / den\<close>; the exponents of floats are between -45 and 38.\<close>

definition decimal_exponent :: "nat \<Rightarrow> nat \<Rightarrow> int" where
  "decimal_exponent num den =
     last (filter (\<lambda>x. den * 10 ^ nat x \<le> num * 10 ^ nat (- x)) [-46..39])"

definition six_digits :: "nat \<Rightarrow> nat \<Rightarrow> int \<times> nat" where
  "six_digits num den =
     (let x = decimal_exponent num den;
          d = round_div (num * 10 ^ nat (5 - x)) (den * 10 ^ nat (x - 5))
      in if d = 10 ^ 6 then (x + 1, 10 ^ 5) else (x, d))"

definition strip_zeros :: "string \<Rightarrow> string" where
  "strip_zeros s = rev (dropWhile (\<lambda>c. c = CHR ''0'') (rev s))"

definition with_fraction :: "string \<Rightarrow> string \<Rightarrow> string" where
  "with_fraction whole frac = (let f = strip_zeros frac in if f = [] then whole else whole @ ''.'' @ f)"

definition two_digits :: "nat \<Rightarrow> string" where
  "two_digits n = (if n < 10 then ''0'' @ show_nat n else show_nat n)"

definition format_magnitude :: "nat \<Rightarrow> int \<Rightarrow> string" where
  "format_magnitude m e =
     (if m = 0 then ''0''
      else case six_digits (m * 2 ^ nat e) (2 ^ nat (- e)) of (x, d) \<Rightarrow>
        let ds = show_nat d
        in if x < -4 \<or> x \<ge> 6
           then with_fraction (take 1 ds) (drop 1 ds) @ ''e'' @ (if x < 0 then ''-'' else ''+'') @ two_digits (nat \<bar>x\<bar>)
           else if x \<ge> 0 then with_fraction (take (nat x + 1) ds) (drop (nat x + 1) ds)
           else with_fraction ''0'' (replicate (nat (- x) - 1) (CHR ''0'') @ ds))"

definition format_float :: "float32 \<Rightarrow> string" where
  "format_float v =
     (case f32_fp v of
        FNaN \<Rightarrow> (if odd (unat (f32_bits v) div 2 ^ 31) then ''-nan'' else ''nan'')
      | FInf s \<Rightarrow> (if s then ''-inf'' else ''inf'')
      | FFin s m e \<Rightarrow> (if s then ''-'' else '''') @ format_magnitude m e)"

section \<open>OutputFormatter\<close>

type_synonym ostream = string

definition put :: "string \<Rightarrow> (ostream, unit) action" where
  "put text out = (Inr (), out @ text)"

definition newline :: string where
  "newline = [CHR 0x0A]"

definition tab :: string where
  "tab = [CHR 0x09]"

fun value_text :: "ConstValue \<Rightarrow> string" where
  "value_text (VInt i) = show_int (sint i)"
| "value_text (VFloat x) = format_float x"
| "value_text (VString s) = s"

definition FormatValue :: "ColumnVariant \<Rightarrow> nat \<Rightarrow> string result" where
  "FormatValue column row =
     rbind (col_IsNull column row) (\<lambda>is_null.
       if is_null then Inr ''NULL'' else rbind (col_GetValue column row) (\<lambda>v. Inr (value_text v)))"

definition write_cell :: "DataChunk \<Rightarrow> nat \<Rightarrow> nat \<Rightarrow> (ostream, unit) action" where
  "write_cell chunk row col =
     sbind (put (if col > 0 then tab else '''')) (\<lambda>_.
     sbind (sresult (rbind (dc_Column chunk col) (\<lambda>column. FormatValue column row))) put)"

definition write_row :: "DataChunk \<Rightarrow> nat \<Rightarrow> (ostream, unit) action" where
  "write_row chunk row =
     sbind (seach (write_cell chunk row) [0..<length (dc_columns chunk)]) (\<lambda>_. put newline)"

definition WriteChunk :: "DataChunk \<Rightarrow> (ostream, unit) action" where
  "WriteChunk = each_selected write_row"

definition widen :: "string list \<Rightarrow> nat list \<Rightarrow> nat list" where
  "widen row widths = map (\<lambda>(c, w). if c < length row then max w (length (row ! c)) else w) (enumerate 0 widths)"

definition column_widths :: "string list \<Rightarrow> string list list \<Rightarrow> nat list" where
  "column_widths headers rows = fold widen rows (map length headers)"

definition print_border :: "nat list \<Rightarrow> (ostream, unit) action" where
  "print_border widths =
     sbind (seach (\<lambda>width. put (''+'' @ replicate (width + 2) (CHR ''-''))) widths) (\<lambda>_. put (''+'' @ newline))"

definition print_cell :: "nat list \<Rightarrow> nat \<times> string \<Rightarrow> (ostream, unit) action" where
  "print_cell widths = (\<lambda>(c, cell).
     sbind (sresult (vec_at widths c)) (\<lambda>width.
       if width < length cell then sthrow (RuntimeError ''basic_string: length_error'')
       else put (''| '' @ cell @ replicate (width - length cell) (CHR '' '') @ '' '')))"

definition print_row :: "nat list \<Rightarrow> string list \<Rightarrow> (ostream, unit) action" where
  "print_row widths cells =
     sbind (seach (print_cell widths) (enumerate 0 cells)) (\<lambda>_. put (''|'' @ newline))"

definition WriteTable :: "string list \<Rightarrow> string list list \<Rightarrow> (ostream, unit) action" where
  "WriteTable headers rows =
     (let widths = column_widths headers rows
      in sbind (print_border widths) (\<lambda>_.
         sbind (print_row widths headers) (\<lambda>_.
         sbind (print_border widths) (\<lambda>_.
         sbind (seach (print_row widths) rows) (\<lambda>_. print_border widths)))))"

section \<open>What is written\<close>

fun cell_text :: "cell \<Rightarrow> string" where
  "cell_text (v, valid) = (if valid then value_text v else ''NULL'')"

fun tab_separated :: "string list \<Rightarrow> string" where
  "tab_separated [] = ''''"
| "tab_separated (x # xs) = x @ concat (map (\<lambda>y. tab @ y) xs)"

definition row_text :: "cell list \<Rightarrow> string" where
  "row_text row = tab_separated (map cell_text row) @ newline"

lemma seach_writes:
  "(\<And>x out. x \<in> set xs \<Longrightarrow> f x out = (Inr (), out @ g x)) \<Longrightarrow> seach f xs out = (Inr (), out @ concat (map g xs))"
  by (induction xs arbitrary: out) (simp_all add: sbind_def)

lemma tab_separated_loop:
  "concat (map (\<lambda>c. (if c > 0 then tab else '''') @ f c) [0..<n]) = tab_separated (map f [0..<n])"
proof (cases n)
  case (Suc m)
  then have "[0..<n] = 0 # map Suc [0..<m]" by (simp add: upt_conv_Cons map_Suc_upt del: upt_Suc)
  then show ?thesis by (simp add: comp_def)
qed simp

lemma FormatValue_cell:
  assumes "col_inv column" and "row < length (col_cells column)"
  shows "FormatValue column row = Inr (cell_text (col_cells column ! row))"
  using col_IsNull_cells [OF assms] col_GetValue_cells [OF assms]
  by (cases "col_cells column ! row") (simp add: FormatValue_def)

lemma FormatValue_chunk:
  assumes "chunk_inv chunk" "row < dc_row_count chunk" "c < length (dc_columns chunk)"
  shows "rbind (dc_Column chunk c) (\<lambda>column. FormatValue column row) = Inr (cell_text (chunk_row chunk row ! c))"
proof -
  have "c < length (chunk_types chunk)" using assms(3) by (simp add: chunk_types_def)
  then obtain column where "dc_Column chunk c = Inr column" "col_inv column" "row < length (col_cells column)"
    "col_cells column ! row = chunk_row chunk row ! c"
    using chunk_column [OF assms(1) _ assms(2)] by blast
  then show ?thesis by (simp add: FormatValue_cell)
qed

lemma write_row_spec:
  assumes "chunk_inv chunk" and "row < dc_row_count chunk"
  shows "write_row chunk row out = (Inr (), out @ row_text (chunk_row chunk row))"
proof -
  let ?cell = "\<lambda>c. (if c > 0 then tab else '''') @ cell_text (chunk_row chunk row ! c)"
  have "seach (write_cell chunk row) [0..<length (dc_columns chunk)] out =
      (Inr (), out @ concat (map ?cell [0..<length (dc_columns chunk)]))"
    by (rule seach_writes) (simp add: write_cell_def put_def sbind_def sresult_def FormatValue_chunk [OF assms])
  moreover have "map (\<lambda>c. cell_text (chunk_row chunk row ! c)) [0..<length (dc_columns chunk)] = map cell_text (chunk_row chunk row)"
    by (rule nth_equalityI) (simp_all add: chunk_row_def)
  ultimately show ?thesis
    using tab_separated_loop [of "\<lambda>c. cell_text (chunk_row chunk row ! c)"]
    by (simp add: write_row_def sbind_def put_def row_text_def)
qed

interpretation writer: row_consumer write_row "\<lambda>_. True" "\<lambda>_. True" "\<lambda>rows out. out = start @ concat (map row_text rows)"
  for start
  by unfold_locales (simp_all add: write_row_spec)

lemma WriteChunk_spec:
  assumes "chunk_inv chunk"
  shows "WriteChunk chunk out = (Inr (), out @ concat (map row_text (chunk_rows chunk)))"
  using writer.each_selected_rows [where dc = chunk and rows = "[]" and start = out and a = out] assms by (simp add: WriteChunk_def)

text \<open>Tables: every width covers the header and all cells of its column, so no padding underflows.\<close>

lemma widen_spec: "length (widen row widths) = length widths"
  "c < length widths \<Longrightarrow> widths ! c \<le> widen row widths ! c"
  "c < length widths \<Longrightarrow> c < length row \<Longrightarrow> length (row ! c) \<le> widen row widths ! c"
  by (simp_all add: widen_def nth_enumerate_eq)

lemma fold_widen:
  "length (fold widen rows widths) = length widths \<and> (\<forall>c < length widths. widths ! c \<le> fold widen rows widths ! c)"
proof (induction rows arbitrary: widths)
  case (Cons row rows)
  then show ?case using widen_spec(1,2) [where row = row and widths = widths] by (metis fold_simps(2) le_trans)
qed simp

lemma column_widths_spec:
  "length (column_widths headers rows) = length headers"
  "c < length headers \<Longrightarrow> length (headers ! c) \<le> column_widths headers rows ! c"
  "c < length headers \<Longrightarrow> row \<in> set rows \<Longrightarrow> c < length row \<Longrightarrow> length (row ! c) \<le> column_widths headers rows ! c"
proof -
  show "length (column_widths headers rows) = length headers" "c < length headers \<Longrightarrow> length (headers ! c) \<le> column_widths headers rows ! c"
    using fold_widen [of rows "map length headers"] by (simp_all add: column_widths_def)
  have "length (row ! c) \<le> fold widen rows widths ! c" if "row \<in> set rows" "c < length row" "c < length widths" for widths
    using that
  proof (induction rows arbitrary: widths)
    case (Cons r rows)
    show ?case
    proof (cases "row = r")
      case True
      then show ?thesis
        using widen_spec [where row = r and widths = widths] fold_widen [of rows "widen r widths"] Cons.prems by (metis fold_simps(2) le_trans)
    qed (use Cons widen_spec(1) [of r widths] in simp)
  qed simp
  then show "c < length headers \<Longrightarrow> row \<in> set rows \<Longrightarrow> c < length row \<Longrightarrow> length (row ! c) \<le> column_widths headers rows ! c"
    by (simp add: column_widths_def)
qed

definition border_line :: "nat list \<Rightarrow> string" where
  "border_line widths = concat (map (\<lambda>w. ''+'' @ replicate (w + 2) (CHR ''-'')) widths) @ ''+'' @ newline"

definition table_line :: "nat list \<Rightarrow> string list \<Rightarrow> string" where
  "table_line widths cells = concat (map (\<lambda>(w, cell). ''| '' @ cell @ replicate (w - length cell) (CHR '' '') @ '' '') (zip widths cells)) @ ''|'' @ newline"

lemma print_border_spec: "print_border widths out = (Inr (), out @ border_line widths)"
proof -
  have "seach (\<lambda>w. put (''+'' @ replicate (w + 2) (CHR ''-''))) widths out =
      (Inr (), out @ concat (map (\<lambda>w. ''+'' @ replicate (w + 2) (CHR ''-'')) widths))"
    by (rule seach_writes) (simp add: put_def)
  then show ?thesis by (simp add: print_border_def sbind_def put_def border_line_def)
qed

lemma print_row_spec:
  assumes "length cells \<le> length widths" and "\<forall>c < length cells. length (cells ! c) \<le> widths ! c"
  shows "print_row widths cells out = (Inr (), out @ table_line widths cells)"
proof -
  let ?g = "\<lambda>(c, cell). ''| '' @ cell @ replicate (widths ! c - length cell) (CHR '' '') @ '' ''"
  have "seach (print_cell widths) (enumerate 0 cells) out = (Inr (), out @ concat (map ?g (enumerate 0 cells)))"
  proof (rule seach_writes)
    fix x out assume "x \<in> set (enumerate 0 cells)"
    with assms show "print_cell widths x out = (Inr (), out @ ?g x)"
      by (cases x) (auto simp: in_set_enumerate_eq print_cell_def sbind_def sresult_def put_def)
  qed
  moreover have "map ?g (enumerate 0 cells) = map (\<lambda>(w, cell). ''| '' @ cell @ replicate (w - length cell) (CHR '' '') @ '' '') (zip widths cells)"
    using assms by (intro nth_equalityI) (simp_all add: nth_enumerate_eq)
  ultimately show ?thesis by (simp add: print_row_def sbind_def put_def table_line_def)
qed

lemma WriteTable_spec:
  assumes "\<forall>row \<in> set rows. length row \<le> length headers"
  shows "WriteTable headers rows out =
    (let widths = column_widths headers rows
     in (Inr (), out @ border_line widths @ table_line widths headers @ border_line widths @
          concat (map (table_line widths) rows) @ border_line widths))"
proof -
  let ?w = "column_widths headers rows"
  have "seach (print_row ?w) rows out = (Inr (), out @ concat (map (table_line ?w) rows))" for out
  proof (rule seach_writes)
    fix row out assume "row \<in> set rows"
    then show "print_row ?w row out = (Inr (), out @ table_line ?w row)"
      using assms by (intro print_row_spec) (auto simp: column_widths_spec)
  qed
  moreover have "print_row ?w headers out = (Inr (), out @ table_line ?w headers)" for out
    by (intro print_row_spec) (simp_all add: column_widths_spec)
  ultimately show ?thesis
    by (simp add: WriteTable_def Let_def sbind_def print_border_spec)
qed

end
