(* ===== verification/Driver.thy ===== *)
theory Driver
  imports Parser OutputFormatter Insert Optimizer
begin

text \<open>
  \<open>cli/driver\<close>: one statement is parsed, bound, executed and its result printed; an exception
  becomes an error line. The driver refers to the catalog, to the buffer pool over the catalog's
  disk manager, and to the output stream; its state holds all three. What the program takes from
  outside is the record \<open>system\<close>: the SQL parser, \<open>std::stod\<close>, whether the output is a terminal,
  and the seconds that a statement took. The loops over the chunks of a query take fuel.
\<close>

record system =
  sys_parse :: pg_parser
  sys_stod :: "string \<Rightarrow> float64 result"
  sys_stdout_is_terminal :: bool
  sys_seconds :: float64

record Driver =
  dr_catalog :: Catalog
  dr_pool :: BufferPoolManager
  dr_out :: ostream

definition MakeDriver :: "Catalog \<Rightarrow> BufferPoolManager \<Rightarrow> ostream \<Rightarrow> Driver" where
  "MakeDriver catalog buffer_pool out = \<lparr>dr_catalog = catalog, dr_pool = buffer_pool, dr_out = out\<rparr>"

definition on_out :: "(ostream, 'a) action \<Rightarrow> (Driver, 'a) action" where
  "on_out act d = (case act (dr_out d) of (res, out) \<Rightarrow> (res, d\<lparr>dr_out := out\<rparr>))"

definition on_catalog :: "(Catalog, 'a) action \<Rightarrow> (Driver, 'a) action" where
  "on_catalog act d = (case act (dr_catalog d) of (res, cat) \<Rightarrow> (res, d\<lparr>dr_catalog := cat\<rparr>))"

text \<open>The pool reads and writes through the disk manager that the catalog owns.\<close>

definition driver_pool :: "Driver \<Rightarrow> pool_state" where
  "driver_pool d = (dr_pool d, cat_disk (dr_catalog d))"

definition with_pool :: "pool_state \<Rightarrow> Driver \<Rightarrow> Driver" where
  "with_pool pool d = d\<lparr>dr_pool := fst pool, dr_catalog := (dr_catalog d)\<lparr>cat_disk := snd pool\<rparr>\<rparr>"

section \<open>SELECT\<close>

text \<open>Three decimals, rounded to nearest with ties to even.\<close>

definition FormatElapsedSeconds :: "float64 \<Rightarrow> string" where
  "FormatElapsedSeconds seconds =
     (case f64_fp seconds of
        FNaN \<Rightarrow> (if odd (unat (f64_bits seconds) div 2 ^ 63) then ''-nan'' else ''nan'')
      | FInf s \<Rightarrow> (if s then ''-inf'' else ''inf'')
      | FFin s m e \<Rightarrow>
          let d = round_div (m * 2 ^ nat e * 1000) (2 ^ nat (- e)); frac = show_nat (d mod 1000)
          in (if s then ''-'' else '''') @ show_nat (d div 1000) @ ''.'' @ replicate (3 - length frac) (CHR ''0'') @ frac)"

definition PrintHeader :: "OutputColumn list \<Rightarrow> (ostream, unit) action" where
  "PrintHeader schema =
     sbind (seach (\<lambda>(i, column). put ((if i > 0 then tab else '''') @ oc_display_name column)) (enumerate 0 schema))
       (\<lambda>_. put newline)"

definition collect_cell :: "DataChunk \<Rightarrow> nat \<Rightarrow> nat \<Rightarrow> string result" where
  "collect_cell chunk r c = rbind (dc_Column chunk c) (\<lambda>column. FormatValue column r)"

definition collect_row :: "DataChunk \<Rightarrow> nat \<Rightarrow> (string list list \<times> nat, unit) action" where
  "collect_row chunk r = (\<lambda>(rows, total_rows).
     case rmap (collect_cell chunk r) [0..<length (dc_columns chunk)] of
       Inl e \<Rightarrow> (Inl e, (rows, total_rows))
     | Inr cells \<Rightarrow> (Inr (), (rows @ [cells], total_rows + 1)))"

definition print_chunk :: "DataChunk \<Rightarrow> (ostream \<times> nat, unit) action" where
  "print_chunk chunk = (\<lambda>(out, total_rows).
     case CountSelectedRows chunk of
       Inl e \<Rightarrow> (Inl e, (out, total_rows))
     | Inr n \<Rightarrow> (case WriteChunk chunk out of (res, out) \<Rightarrow> (res, (out, total_rows + n))))"

definition show_table :: "nat \<Rightarrow> OutputColumn list \<Rightarrow> Operator \<Rightarrow> (Driver, nat) action" where
  "show_table fuel schema root d =
     (case drain_child fuel (Operator_GetNext fuel) (each_selected collect_row) (([], 0), (root, driver_pool d)) of
        (res, ((rows, total_rows), (root, pool))) \<Rightarrow>
          sbind (sresult res) (\<lambda>_.
          sbind (on_out (if rows = [] then put (''Empty set.'' @ newline) else WriteTable (map oc_display_name schema) rows)) (\<lambda>_.
            sreturn total_rows)) (with_pool pool d))"

definition stream_rows :: "nat \<Rightarrow> OutputColumn list \<Rightarrow> Operator \<Rightarrow> (Driver, nat) action" where
  "stream_rows fuel schema root =
     sbind (on_out (PrintHeader schema)) (\<lambda>_ d.
       case drain_child fuel (Operator_GetNext fuel) print_chunk ((dr_out d, 0), (root, driver_pool d)) of
         (res, ((out, total_rows), (root, pool))) \<Rightarrow>
           sbind (sresult res) (\<lambda>_. sreturn total_rows) ((with_pool pool d)\<lparr>dr_out := out\<rparr>))"

text \<open>The elapsed time is that of the system: any time will do, the theorems hold for all of them.\<close>

definition print_footer :: "system \<Rightarrow> nat \<Rightarrow> (ostream, unit) action" where
  "print_footer sys total_rows =
     put (''('' @ show_nat total_rows @ (if total_rows = 1 then '' row'' else '' rows'') @ '' returned in '' @
       FormatElapsedSeconds (sys_seconds sys) @ ''s)'' @ newline)"

definition RunSelect :: "system \<Rightarrow> nat \<Rightarrow> LogicalPlanNode \<Rightarrow> (Driver, unit) action" where
  "RunSelect sys fuel plan =
     sbind (sresult (OutputSchema plan)) (\<lambda>schema.
     sbind (\<lambda>d. (Optimize plan (dr_catalog d), d)) (\<lambda>root.
     sbind (if sys_stdout_is_terminal sys then show_table fuel schema root else stream_rows fuel schema root) (\<lambda>total_rows.
       on_out (print_footer sys total_rows))))"

section \<open>INSERT and CREATE TABLE\<close>

text \<open>The executor follows the pointers of a bound row, which may be null.\<close>

definition bound_values :: "BoundExpression option list \<Rightarrow> BoundExpression list result" where
  "bound_values = rmap (\<lambda>v. case v of None \<Rightarrow> null_dereference | Some e \<Rightarrow> Inr e)"

definition insert_bound_row :: "BoundExpression option list \<Rightarrow> (insert_state, unit) action" where
  "insert_bound_row row = sbind (sresult (bound_values row)) InsertRow"

definition run_executor :: "BoundInsert \<Rightarrow> (Catalog, unit) action" where
  "run_executor ins catalog =
     (case MakeInsertExecutor catalog (bi_table_id ins) of
        Inl e \<Rightarrow> (Inl e, catalog)
      | Inr executor \<Rightarrow>
          (case sbind (seach insert_bound_row (bi_rows ins)) (\<lambda>_. InsertFinish) (executor, catalog) of
             (res, (executor, catalog)) \<Rightarrow> (res, catalog)))"

definition RunInsert :: "system \<Rightarrow> BoundInsert \<Rightarrow> (Driver, unit) action" where
  "RunInsert sys ins =
     sbind (on_catalog (run_executor ins)) (\<lambda>_.
       on_out (put (show_nat (length (bi_rows ins)) @ '' row(s) inserted ('' @ FormatElapsedSeconds (sys_seconds sys) @
         ''s)'' @ newline)))"

definition RunCreateTable :: "uint32 \<Rightarrow> (Driver, unit) action" where
  "RunCreateTable table_id = on_out (put (''Table created (id='' @ show_nat (unat table_id) @ '').'' @ newline))"

section \<open>Meta commands\<close>

fun TypeIdName :: "TypeId \<Rightarrow> string" where
  "TypeIdName kInteger = ''INTEGER''"
| "TypeIdName kFloat = ''FLOAT''"
| "TypeIdName kVarchar = ''VARCHAR''"

definition table_summary :: "Catalog \<Rightarrow> string \<Rightarrow> string list result" where
  "table_summary catalog name =
     (case GetTable catalog name of
        None \<Rightarrow> null_dereference
      | Some table \<Rightarrow> Inr [name, show_nat (length (to_columns table)), show_nat (unat (to_total_row_count table))])"

definition RunListTables :: "(Driver, unit) action" where
  "RunListTables d =
     (let names = TableNames (dr_catalog d)
      in if names = [] then on_out (put (''No tables.'' @ newline)) d
         else sbind (sresult (rmap (table_summary (dr_catalog d)) names)) (\<lambda>rows.
                on_out (WriteTable [''table'', ''columns'', ''rows''] rows)) d)"

definition column_summary :: "TableObject \<Rightarrow> nat \<Rightarrow> string list result" where
  "column_summary table i =
     rbind (to_Column table i) (\<lambda>col. Inr [cd_name col, TypeIdName (cd_type col), show_nat (unat (cd_ordinal col))])"

definition RunDescribeTable :: "string \<Rightarrow> (Driver, unit) action" where
  "RunDescribeTable table_name d =
     (case GetTable (dr_catalog d) table_name of
        None \<Rightarrow> on_out (put (''Error: unknown table '' @ quoted table_name @ newline)) d
      | Some table \<Rightarrow>
          sbind (sresult (rmap (column_summary table) [0..<length (to_columns table)])) (\<lambda>rows.
            on_out (WriteTable [''column'', ''type'', ''ordinal''] rows)) d)"

text \<open>\<open>find_last_not_of\<close> with \<open>substr\<close>: the text without the given characters at its end.\<close>

definition strip_end :: "char list \<Rightarrow> string \<Rightarrow> string" where
  "strip_end cs text = rev (dropWhile (\<lambda>c. c \<in> set cs) (rev text))"

definition backslash :: string where
  "backslash = [CHR 0x5C]"

definition TryHandleMetaCommand :: "string \<Rightarrow> (Driver, bool) action" where
  "TryHandleMetaCommand input =
     (if input = backslash @ ''dt'' \<or> input = backslash @ ''d''
      then sbind RunListTables (\<lambda>_. sreturn True)
      else if take 3 input = backslash @ ''d ''
      then let table_name = drop 3 input;
               stripped = strip_end ('' '' @ tab) table_name
           in sbind (RunDescribeTable (if stripped = [] then table_name else stripped)) (\<lambda>_. sreturn True)
      else sreturn False)"

section \<open>Statements\<close>

text \<open>
  The text of an exception. Undefined behaviour is not caught, and running out of fuel is not a
  behaviour of the program.
\<close>

fun what :: "error \<Rightarrow> string option" where
  "what (RuntimeError m) = Some m"
| "what (InvalidArgument m) = Some m"
| "what (OutOfRange m) = Some m"
| "what BadVariantAccess = Some ''std::get: wrong index for variant''"
| "what (ParseError m) = Some m"
| "what (ResolutionError m) = Some m"
| "what (TypeCoercionError m) = Some m"
| "what (BindError m) = Some m"
| "what (UndefinedBehaviour m) = None"
| "what OutOfFuel = None"

definition run_bound :: "system \<Rightarrow> nat \<Rightarrow> BindResult \<Rightarrow> (Driver, unit) action" where
  "run_bound sys fuel bound =
     (case bound of
        BoundPlan plan \<Rightarrow> RunSelect sys fuel plan
      | BoundRows ins \<Rightarrow> RunInsert sys ins
      | TableCreated table_id \<Rightarrow> RunCreateTable table_id)"

definition run_sql :: "system \<Rightarrow> nat \<Rightarrow> string \<Rightarrow> (Driver, unit) action" where
  "run_sql sys fuel sql =
     sbind (sresult (ParseSingleStatement (sys_parse sys) (sys_stod sys) sql)) (\<lambda>parsed.
     sbind (on_catalog (Bind parsed)) (run_bound sys fuel))"

definition catch_errors :: "(Driver, unit) action \<Rightarrow> (Driver, unit) action" where
  "catch_errors act d =
     (case act d of
        (Inr _, d) \<Rightarrow> (Inr (), d)
      | (Inl e, d) \<Rightarrow>
          (case what e of
             Some m \<Rightarrow> on_out (put (''Error: '' @ m @ newline)) d
           | None \<Rightarrow> (Inl e, d)))"

definition ExecuteStatement :: "system \<Rightarrow> nat \<Rightarrow> string \<Rightarrow> (Driver, unit) action" where
  "ExecuteStatement sys fuel sql =
     sbind (TryHandleMetaCommand sql) (\<lambda>handled.
       if handled then sreturn () else catch_errors (run_sql sys fuel sql))"

end
