(* ===== verification/Main_Program.thy ===== *)
theory Main_Program
  imports Driver
begin

text \<open>
  \<open>main.cpp\<close>: the read loop over the standard input, and the life of the catalog, the buffer pool
  and the driver. The input is the list of the events the process sees: the outcomes of its calls
  of \<open>read\<close>, and signals that arrive between them; when the list is used up, \<open>read\<close> returns 0.
  Whether the input is a terminal and whether bytes are waiting are given by the console.
\<close>

datatype event = ReadByte char | ReadZero | ReadInterrupted | ReadFailed | Sigint

record console =
  con_interactive :: bool
  con_pending :: "event list \<Rightarrow> bool"

section \<open>Lines\<close>

definition blanks :: "char list" where
  "blanks = '' '' @ tab @ [CHR 0x0D] @ newline"

definition Trim :: "string \<Rightarrow> string" where
  "Trim text = strip_end blanks (dropWhile (\<lambda>c. c \<in> set blanks) text)"

datatype ReadLineResult = kLine string | kEof | kInterrupted

text \<open>Returns the result, the events that are left, and whether a signal has come meanwhile.\<close>

fun ReadLine :: "string \<Rightarrow> event list \<Rightarrow> bool \<Rightarrow> ReadLineResult \<times> event list \<times> bool" where
  "ReadLine line [] sig = (if line = [] then kEof else kLine line, [], sig)"
| "ReadLine line (ReadByte ch # es) sig =
     (if ch = CHR 0x0A then (kLine line, es, sig) else ReadLine (line @ [ch]) es sig)"
| "ReadLine line (ReadZero # es) sig = (if line = [] then kEof else kLine line, es, sig)"
| "ReadLine line (ReadInterrupted # es) sig = (kInterrupted, es, True)"
| "ReadLine line (ReadFailed # es) sig = (kEof, es, sig)"
| "ReadLine line (Sigint # es) sig = ReadLine line es True"

definition help_text :: string where
  "help_text =
     ''GistDB -- supported statements'' @ newline @ newline @
     ''  CREATE TABLE t (col TYPE, ...)     TYPE is INTEGER, FLOAT, or VARCHAR'' @ newline @
     ''  INSERT INTO t [(col, ...)] VALUES (...), (...), ...'' @ newline @
     ''  SELECT expr, ... FROM t [JOIN t2 ON t.a = t2.b] [WHERE cond]'' @ newline @
     ''                    [GROUP BY col, ...]'' @ newline @ newline @
     ''  Aggregates:  COUNT(*), COUNT(col), SUM(col), AVG(col), MIN(col), MAX(col)'' @ newline @
     ''  Operators:   = <> != < <= > >=   + - * /   AND OR NOT'' @ newline @
     ''  Joins:       INNER JOIN only, equality conditions only'' @ newline @ newline @
     ''  Not supported: HAVING, ORDER BY, LIMIT/OFFSET, DISTINCT, subqueries,'' @ newline @
     ''                 UPDATE, DELETE, ALTER TABLE, DROP TABLE, WITH, UNION'' @ newline @ newline @
     ''  A statement may span multiple lines and ends at the first '' @ quoted '';'' @ ''.'' @ newline @ newline @
     ''  help          show this message'' @ newline @
     ''  quit / exit   leave GistDB'' @ newline"

definition PrintHelp :: "(ostream, unit) action" where
  "PrintHelp = put help_text"

section \<open>The read loop\<close>

record session =
  se_driver :: Driver
  se_buffer :: string
  se_sigint :: bool
  se_input :: "event list"

definition on_driver :: "(Driver, 'a) action \<Rightarrow> (session, 'a) action" where
  "on_driver act s = (case act (se_driver s) of (res, d) \<Rightarrow> (res, s\<lparr>se_driver := d\<rparr>))"

abbreviation say :: "string \<Rightarrow> (session, unit) action" where
  "say text \<equiv> on_driver (on_out (put text))"

definition kPrompt :: string where
  "kPrompt = [CHR 0x1B] @ ''[1;35mGistDB> '' @ [CHR 0x1B] @ ''[0m''"

definition kContinuationPrompt :: string where
  "kContinuationPrompt = [CHR 0x1B] @ ''[1;35m      > '' @ [CHR 0x1B] @ ''[0m''"

definition maybe_print_prompt :: "console \<Rightarrow> (session, unit) action" where
  "maybe_print_prompt con s =
     (if \<not> con_interactive con \<or> con_pending con (se_input s) then (Inr (), s)
      else say (if se_buffer s = [] then kPrompt else kContinuationPrompt) s)"

lemma after_semicolon_shorter:
  "CHR '';'' \<in> set cs \<Longrightarrow> length (tl (dropWhile (\<lambda>c. c \<noteq> CHR '';'') cs)) < length cs"
  by (induction cs) (auto intro: less_SucI)

text \<open>The statements of the buffer that end with a semicolon; what is after the last one stays.\<close>

function run_statements :: "system \<Rightarrow> nat \<Rightarrow> (session, unit) action" where
  "run_statements sys fuel s =
     (if CHR '';'' \<notin> set (se_buffer s) then (Inr (), s)
      else let statement = Trim (takeWhile (\<lambda>c. c \<noteq> CHR '';'') (se_buffer s));
               s = s\<lparr>se_buffer := tl (dropWhile (\<lambda>c. c \<noteq> CHR '';'') (se_buffer s))\<rparr>
           in if statement = [] then run_statements sys fuel s
              else case ExecuteStatement sys fuel statement (se_driver s) of
                     (Inl e, d) \<Rightarrow> (Inl e, s\<lparr>se_driver := d\<rparr>)
                   | (Inr _, d) \<Rightarrow> run_statements sys fuel (s\<lparr>se_driver := d\<rparr>))"
  by pat_completeness auto

termination
  by (relation "measure (\<lambda>(sys, fuel, s). length (se_buffer s))") (auto simp: after_semicolon_shorter simp del: length_tl)

declare run_statements.simps [simp del]

definition interrupt :: "console \<Rightarrow> (session, unit) action" where
  "interrupt con s =
     sbind (if con_interactive con then say newline else sreturn ()) (\<lambda>_. maybe_print_prompt con)
       (s\<lparr>se_sigint := False, se_buffer := []\<rparr>)"

definition command_of :: "string \<Rightarrow> string" where
  "command_of trimmed_line =
     map tolower (Trim (if trimmed_line \<noteq> [] \<and> last trimmed_line = CHR '';'' then butlast trimmed_line else trimmed_line))"

definition add_line :: "system \<Rightarrow> console \<Rightarrow> nat \<Rightarrow> string \<Rightarrow> (session, bool) action" where
  "add_line sys con fuel line s =
     sbind (run_statements sys fuel) (\<lambda>_. sbind (maybe_print_prompt con) (\<lambda>_. sreturn True))
       (s\<lparr>se_buffer := se_buffer s @ (if se_buffer s \<noteq> [] then newline else '''') @ line\<rparr>)"

text \<open>Returns whether the loop goes on.\<close>

definition handle_line :: "system \<Rightarrow> console \<Rightarrow> nat \<Rightarrow> string \<Rightarrow> (session, bool) action" where
  "handle_line sys con fuel line s =
     (let trimmed_line = Trim line; lowered = command_of trimmed_line
      in if se_buffer s \<noteq> [] then add_line sys con fuel line s
         else if lowered = ''quit'' \<or> lowered = ''exit''
         then sbind (if con_interactive con then say (''Goodbye.'' @ newline) else sreturn ()) (\<lambda>_. sreturn False) s
         else if lowered = ''help''
         then sbind (on_driver (on_out PrintHelp)) (\<lambda>_. sbind (maybe_print_prompt con) (\<lambda>_. sreturn True)) s
         else if trimmed_line = [] then sbind (maybe_print_prompt con) (\<lambda>_. sreturn True) s
         else add_line sys con fuel line s)"

text \<open>Signals that have arrived by the time the flag is tested.\<close>

definition deliver :: "session \<Rightarrow> session" where
  "deliver s = s\<lparr>se_sigint := se_sigint s \<or> (se_input s \<noteq> [] \<and> hd (se_input s) = Sigint),
     se_input := dropWhile (\<lambda>e. e = Sigint) (se_input s)\<rparr>"

text \<open>One turn of the loop; returns whether the loop goes on.\<close>

definition loop_turn :: "system \<Rightarrow> console \<Rightarrow> nat \<Rightarrow> (session, bool) action" where
  "loop_turn sys con fuel s0 =
     (let s = deliver s0
      in if se_sigint s then sbind (interrupt con) (\<lambda>_. sreturn True) s
         else case ReadLine [] (se_input s) (se_sigint s) of (result, es, sig) \<Rightarrow>
           let s = s\<lparr>se_input := es, se_sigint := sig\<rparr>
           in case result of
                kInterrupted \<Rightarrow> sbind (interrupt con) (\<lambda>_. sreturn True) s
              | kEof \<Rightarrow> sbind (if con_interactive con then say newline else sreturn ()) (\<lambda>_. sreturn False) s
              | kLine line \<Rightarrow> handle_line sys con fuel line s)"

section \<open>The loop ends\<close>


text \<open>Only reading consumes events; a turn that goes on has read some, or cleared the signal flag.\<close>

definition events_left :: "session \<Rightarrow> nat" where
  "events_left s = 2 * length (se_input s) + (if se_sigint s then 1 else 0)"

definition at_events :: "event list \<Rightarrow> bool \<Rightarrow> session \<Rightarrow> bool" where
  "at_events es sig s = (se_input s = es \<and> se_sigint s = sig)"

lemma at_events_buffer: "at_events es sig (s\<lparr>se_buffer := b\<rparr>) = at_events es sig s"
  by (simp add: at_events_def)

lemma keeps_on_driver [keeps_intros]: "keeps (at_events es sig) (on_driver act)"
  by (rule keepsI) (simp add: on_driver_def at_events_def split: prod.split)

lemma keeps_prompt [keeps_intros]: "keeps (at_events es sig) (maybe_print_prompt con)"
  by (rule keepsI) (simp add: maybe_print_prompt_def keeps_on_driver [THEN keeps_snd])

lemma keeps_statements: "keeps (at_events es sig) (run_statements sys fuel)"
proof -
  have "at_events es sig s \<Longrightarrow> at_events es sig (snd (run_statements sys fuel s))" for s
  proof (induction sys fuel s rule: run_statements.induct)
    case (1 sys fuel s)
    have "at_events es sig (s\<lparr>se_buffer := b, se_driver := d\<rparr>)" for b d using 1(3) by (simp add: at_events_def)
    with 1 show ?case
      by (simp add: run_statements.simps [of _ _ s] Let_def at_events_buffer split: prod.split sum.split)
  qed
  then show ?thesis by (simp add: keeps_def)
qed

lemma keeps_add_line: "keeps (at_events es sig) (add_line sys con fuel line)"
proof -
  have "keeps (at_events es sig) (sbind (run_statements sys fuel) (\<lambda>_. sbind (maybe_print_prompt con) (\<lambda>_. sreturn True)))"
    by (intro keeps_intros keeps_statements)
  then show ?thesis by (simp add: keeps_def add_line_def at_events_buffer)
qed

lemma keeps_handle_line: "keeps (at_events es sig) (handle_line sys con fuel line)"
proof -
  have "keeps (at_events es sig) (sbind (if con_interactive con then say (''Goodbye.'' @ newline) else sreturn ()) (\<lambda>_. sreturn False))"
    "keeps (at_events es sig) (sbind (on_driver (on_out PrintHelp)) (\<lambda>_. sbind (maybe_print_prompt con) (\<lambda>_. sreturn True)))"
    "keeps (at_events es sig) (sbind (maybe_print_prompt con) (\<lambda>_. sreturn True))"
    by (intro keeps_intros)+
  note these = this [THEN keeps_snd] keeps_add_line [THEN keeps_snd]
  show ?thesis by (rule keepsI) (simp add: handle_line_def Let_def these del: append.simps)
qed

lemma keeps_interrupt: "at_events (se_input s) False (snd (sbind (interrupt con) (\<lambda>_. sreturn True) s))"
proof -
  let ?m = "sbind (if con_interactive con then say newline else sreturn ()) (\<lambda>_. maybe_print_prompt con)"
  have "keeps (at_events (se_input s) False) (sbind ?m (\<lambda>_. sreturn True))" by (intro keeps_intros)
  from keeps_snd [OF this, of "s\<lparr>se_sigint := False, se_buffer := []\<rparr>"]
  have "at_events (se_input s) False (snd (sbind ?m (\<lambda>_. sreturn True) (s\<lparr>se_sigint := False, se_buffer := []\<rparr>)))"
    by (simp add: at_events_def)
  then show ?thesis by (simp only: sbind_def [of "interrupt con"] sbind_def [of ?m] interrupt_def)
qed

lemma ReadLine_consumes:
  "ReadLine line es sig = (result, es', sig') \<Longrightarrow>
     length es' \<le> length es \<and> (result \<noteq> kEof \<longrightarrow> line = [] \<longrightarrow> length es' < length es)"
  by (induction line es sig rule: ReadLine.induct) (auto split: if_splits)

lemma deliver_left: "events_left (deliver s) \<le> events_left s" "\<not> se_sigint (deliver s) \<Longrightarrow> se_input (deliver s) = se_input s"
proof -
  have "2 * length (dropWhile (\<lambda>e. e = Sigint) es) + (if es \<noteq> [] \<and> hd es = Sigint then 1 else 0) \<le> 2 * length es" for es
    using length_dropWhile_le [of "\<lambda>e. e = Sigint" "tl es"] by (cases es) auto
  from this [of "se_input s"] show "events_left (deliver s) \<le> events_left s"
    using length_dropWhile_le [of "\<lambda>e. e = Sigint" "se_input s"] by (auto simp: events_left_def deliver_def)
  show "\<not> se_sigint (deliver s) \<Longrightarrow> se_input (deliver s) = se_input s"
    by (cases "se_input s") (auto simp: deliver_def)
qed

lemma loop_turn_consumes:
  assumes "loop_turn sys con fuel s = (Inr True, s')"
  shows "events_left s' < events_left s"
proof (cases "se_sigint (deliver s)")
  case True
  then have "at_events (se_input (deliver s)) False s'"
    using assms keeps_interrupt [of "deliver s" con] by (simp add: loop_turn_def Let_def)
  then have "events_left s' < events_left (deliver s)" using True by (simp add: events_left_def at_events_def)
  then show ?thesis using deliver_left(1) [of s] by simp
next
  case False
  obtain result es sig where rd: "ReadLine [] (se_input s) False = (result, es, sig)" by (metis prod.exhaust)
  let ?s = "(deliver s)\<lparr>se_input := es, se_sigint := sig\<rparr>"
  have sig: "\<not> se_sigint s" using False by (simp add: deliver_def)
  have turn: "loop_turn sys con fuel s = (case result of
      kInterrupted \<Rightarrow> sbind (interrupt con) (\<lambda>_. sreturn True) ?s
    | kEof \<Rightarrow> sbind (if con_interactive con then say newline else sreturn ()) (\<lambda>_. sreturn False) ?s
    | kLine line \<Rightarrow> handle_line sys con fuel line ?s)"
    using False rd deliver_left(2) [OF False] by (simp add: loop_turn_def Let_def)
  have "result \<noteq> kEof"
  proof
    assume "result = kEof"
    with assms turn show False by (auto simp: sbind_def sreturn_def split: prod.splits sum.splits)
  qed
  with ReadLine_consumes [OF rd] have "length es < length (se_input s)" by simp
  moreover have "at_events es sig s' \<or> at_events es False s'"
  proof (cases result)
    case (kLine line)
    have "at_events es sig ?s" by (simp add: at_events_def)
    with assms turn kLine keeps_snd [OF keeps_handle_line, of es sig ?s sys con fuel line] show ?thesis by simp
  qed (use assms turn \<open>result \<noteq> kEof\<close> keeps_interrupt [of ?s con] in simp_all)
  ultimately show ?thesis using sig by (auto simp: events_left_def at_events_def)
qed

text \<open>The loop of \<open>main\<close>.\<close>

function main_loop :: "system \<Rightarrow> console \<Rightarrow> nat \<Rightarrow> (session, unit) action" where
  "main_loop sys con fuel s =
     (case loop_turn sys con fuel s of
        (Inl e, s) \<Rightarrow> (Inl e, s)
      | (Inr go_on, s) \<Rightarrow> if go_on then main_loop sys con fuel s else (Inr (), s))"
  by pat_completeness auto

termination
  by (relation "measure (\<lambda>(sys, con, fuel, s). events_left s)") (auto dest!: loop_turn_consumes [OF sym])

declare main_loop.simps [simp del]

section \<open>main\<close>

definition kDefaultBufferPoolFrames :: nat where
  "kDefaultBufferPoolFrames = 256"

record exit =
  ex_status :: nat
  ex_out :: string
  ex_err :: string
  ex_disk :: "DiskManager option"

text \<open>
  The destructors of the buffer pool and of the catalog. An exception that leaves the first one
  ends the program.
\<close>

definition destroy :: "Driver \<Rightarrow> DiskManager result" where
  "destroy d =
     (case BufferPoolManager_destructor (dr_pool d) (cat_disk (dr_catalog d)) of
        (Inl e, dm) \<Rightarrow> Inl e
      | (Inr _, dm) \<Rightarrow> Inr (Catalog_destructor ((dr_catalog d)\<lparr>cat_disk := dm\<rparr>)))"

definition fatal :: "error \<Rightarrow> string \<Rightarrow> DiskManager option \<Rightarrow> exit result" where
  "fatal e out disk =
     (case what e of
        None \<Rightarrow> Inl e
      | Some m \<Rightarrow> Inr \<lparr>ex_status = 1, ex_out = out, ex_err = ''Fatal: '' @ m @ newline, ex_disk = disk\<rparr>)"

definition open_catalog :: "(string list \<Rightarrow> string list) \<Rightarrow> os \<Rightarrow> bytes option \<Rightarrow> Catalog result" where
  "open_catalog order os existing =
     (if existing \<noteq> None then Catalog_Open order os existing else Catalog_CreateNew order os existing)"

definition start_session :: "Catalog \<Rightarrow> event list \<Rightarrow> session" where
  "start_session catalog events =
     \<lparr>se_driver = MakeDriver catalog (MakeBufferPoolManager kDefaultBufferPoolFrames) '''', se_buffer = [],
      se_sigint = False, se_input = events\<rparr>"

definition run_session :: "system \<Rightarrow> console \<Rightarrow> nat \<Rightarrow> (session, unit) action" where
  "run_session sys con fuel =
     sbind (maybe_print_prompt con) (\<lambda>_. sbind (main_loop sys con fuel) (\<lambda>_. on_driver (on_catalog Flush)))"

text \<open>
  The program: its arguments, what the file of a path holds, and the events of its input. The
  result is an error value when it runs into undefined behaviour or is terminated.
\<close>

definition main_program ::
    "system \<Rightarrow> console \<Rightarrow> nat \<Rightarrow> (string list \<Rightarrow> string list) \<Rightarrow> os \<Rightarrow> (string \<Rightarrow> bytes option) \<Rightarrow> string list \<Rightarrow>
     event list \<Rightarrow> exit result" where
  "main_program sys con fuel order os files argv events =
     (case argv of
        [program, db_path] \<Rightarrow>
          (case open_catalog order os (files db_path) of
             Inl e \<Rightarrow> fatal e '''' None
           | Inr catalog \<Rightarrow>
               (case run_session sys con fuel (start_session catalog events) of (res, s) \<Rightarrow>
                  rbind (destroy (se_driver s)) (\<lambda>disk.
                    case res of
                      Inl e \<Rightarrow> fatal e (dr_out (se_driver s)) (Some disk)
                    | Inr _ \<Rightarrow> Inr \<lparr>ex_status = 0, ex_out = dr_out (se_driver s), ex_err = '''', ex_disk = Some disk\<rparr>)))
      | [] \<Rightarrow> null_dereference
      | program # _ \<Rightarrow>
          Inr \<lparr>ex_status = 1, ex_out = '''', ex_err = ''Usage: '' @ program @ '' <database-file>'' @ newline, ex_disk = None\<rparr>)"

end
