(* ===== verification/MainCorrect.thy ===== *)
theory MainCorrect
  imports Main_Program
begin

text \<open>
  The read loop runs the statements of its input: splitting the lines into statements while they
  arrive is the same as splitting the whole text at semicolons.
\<close>

section \<open>The statements of a text\<close>

definition until_semicolon :: "string \<Rightarrow> string" where
  "until_semicolon text = takeWhile (\<lambda>c. c \<noteq> CHR '';'') text"

definition after_semicolon :: "string \<Rightarrow> string" where
  "after_semicolon text = tl (dropWhile (\<lambda>c. c \<noteq> CHR '';'') text)"

lemma semicolon_split:
  "CHR '';'' \<in> set x \<Longrightarrow> until_semicolon (x @ y) = until_semicolon x \<and> after_semicolon (x @ y) = after_semicolon x @ y"
  by (induction x) (auto simp: until_semicolon_def after_semicolon_def)

lemma semicolon_none: "CHR '';'' \<notin> set x \<Longrightarrow> until_semicolon (x @ y) = x @ until_semicolon y \<and> after_semicolon (x @ y) = after_semicolon y"
  by (induction x) (auto simp: until_semicolon_def after_semicolon_def)

function statements_of :: "string \<Rightarrow> string list" where
  "statements_of text =
     (if CHR '';'' \<notin> set text then []
      else filter (\<lambda>s. s \<noteq> []) [Trim (until_semicolon text)] @ statements_of (after_semicolon text))"
  by pat_completeness auto

termination
  by (relation "measure length") (auto simp: after_semicolon_def after_semicolon_shorter simp del: length_tl)

function leftover :: "string \<Rightarrow> string" where
  "leftover text = (if CHR '';'' \<notin> set text then text else leftover (after_semicolon text))"
  by pat_completeness auto

termination
  by (relation "measure length") (auto simp: after_semicolon_def after_semicolon_shorter simp del: length_tl)

declare statements_of.simps [simp del] leftover.simps [simp del]

lemma leftover_plain: "CHR '';'' \<notin> set (leftover x)"
  by (induction x rule: leftover.induct) (simp add: leftover.simps)

lemma statements_of_append: "statements_of (x @ y) = statements_of x @ statements_of (leftover x @ y)"
proof (induction x rule: leftover.induct)
  case (1 x)
  show ?case
  proof (cases "CHR '';'' \<in> set x")
    case True
    with 1 semicolon_split [OF True, of y] show ?thesis
      by (simp add: statements_of.simps [of "x @ y"] statements_of.simps [of x] leftover.simps [of x])
  qed (simp add: statements_of.simps [of x] leftover.simps [of x])
qed

lemma Trim_blank: "set p \<subseteq> set blanks \<Longrightarrow> Trim (p @ x) = Trim x"
  by (induction p) (auto simp: Trim_def)

lemma semicolon_not_blank: "CHR '';'' \<notin> set blanks"
  by (simp add: blanks_def tab_def newline_def)

lemma statements_of_blank:
  assumes "set p \<subseteq> set blanks"
  shows "statements_of (p @ x) = statements_of x"
proof -
  have p: "CHR '';'' \<notin> set p" using assms semicolon_not_blank by auto
  show ?thesis
    using semicolon_none [OF p, of x] p Trim_blank [OF assms]
    by (simp add: statements_of.simps [of "p @ x"] statements_of.simps [of x])
qed

lemma Trim_empty: "Trim x = [] \<longleftrightarrow> set x \<subseteq> set blanks"
proof
  let ?y = "dropWhile (\<lambda>c. c \<in> set blanks) x"
  assume "Trim x = []"
  then have y: "\<forall>c \<in> set ?y. c \<in> set blanks" by (simp only: Trim_def strip_end_def rev_is_Nil_conv dropWhile_eq_Nil_conv set_rev)
  have "?y = []"
  proof (rule ccontr)
    assume "?y \<noteq> []"
    with hd_dropWhile [OF this] hd_in_set [OF this] y show False by blast
  qed
  then show "set x \<subseteq> set blanks" by auto
next
  assume "set x \<subseteq> set blanks"
  from Trim_blank [OF this, of "[]"] show "Trim x = []" by (simp add: Trim_def [of "[]"] strip_end_def)
qed

section \<open>Running a text\<close>

abbreviation run_all :: "system \<Rightarrow> nat \<Rightarrow> string list \<Rightarrow> (Driver, unit) action" where
  "run_all sys fuel \<equiv> seach (ExecuteStatement sys fuel)"

lemma run_statements_step:
  assumes "CHR '';'' \<in> set (se_buffer s)"
  shows "run_statements sys fuel s =
    (let s1 = s\<lparr>se_buffer := after_semicolon (se_buffer s)\<rparr>; statement = Trim (until_semicolon (se_buffer s))
     in if statement = [] then run_statements sys fuel s1
        else case ExecuteStatement sys fuel statement (se_driver s) of
               (Inl e, d) \<Rightarrow> (Inl e, s1\<lparr>se_driver := d\<rparr>)
             | (Inr _, d) \<Rightarrow> run_statements sys fuel (s1\<lparr>se_driver := d\<rparr>))"
  using assms by (simp add: run_statements.simps [of _ _ s] Let_def until_semicolon_def after_semicolon_def)

lemma run_statements_spec:
  assumes "run_all sys fuel (statements_of (se_buffer s)) (se_driver s) = (res, d)"
  shows "\<exists>b. run_statements sys fuel s = (res, s\<lparr>se_driver := d, se_buffer := b\<rparr>) \<and> (res = Inr () \<longrightarrow> b = leftover (se_buffer s))"
  using assms
proof (induction "length (se_buffer s)" arbitrary: s rule: less_induct)
  case less
  let ?b = "se_buffer s" and ?st = "Trim (until_semicolon (se_buffer s))"
  show ?case
  proof (cases "CHR '';'' \<in> set ?b")
    case False
    with less.prems show ?thesis
      by (intro exI [of _ ?b]) (simp add: run_statements.simps [of _ _ s] statements_of.simps [of ?b] leftover.simps [of ?b])
  next
    case True
    have IH: "\<exists>b. run_statements sys fuel (s\<lparr>se_buffer := after_semicolon ?b, se_driver := d1\<rparr>) =
        (res, s\<lparr>se_driver := d, se_buffer := b\<rparr>) \<and> (res = Inr () \<longrightarrow> b = leftover ?b)"
      if "run_all sys fuel (statements_of (after_semicolon ?b)) d1 = (res, d)" for d1
      using less.hyps [of "s\<lparr>se_buffer := after_semicolon ?b, se_driver := d1\<rparr>"] that True
        after_semicolon_shorter [OF True] by (simp add: after_semicolon_def leftover.simps [of ?b])
    show ?thesis
    proof (cases "?st = []")
      case empty: True
      with less.prems True IH [of "se_driver s"] show ?thesis
        by (simp add: run_statements_step Let_def statements_of.simps [of ?b])
    next
      case run: False
      obtain r1 d1 where ex: "ExecuteStatement sys fuel ?st (se_driver s) = (r1, d1)" by fastforce
      show ?thesis
      proof (cases r1)
        case (Inl e)
        then have "res = Inl e" "d1 = d" using less.prems True run ex by (simp_all add: statements_of.simps [of ?b] sbind_def)
        with True run ex Inl show ?thesis
          by (intro exI [of _ "after_semicolon ?b"]) (simp add: run_statements_step Let_def statements_of.simps [of ?b] sbind_def)
      qed (use less.prems True run ex IH [of d1] in \<open>simp add: run_statements_step Let_def statements_of.simps [of ?b] sbind_def\<close>)
    qed
  qed
qed

section \<open>Scripts\<close>

text \<open>A script: complete lines, none of which is a command of the shell, and no signal.\<close>

definition script_input :: "string list \<Rightarrow> event list" where
  "script_input lines = map ReadByte (concat (map (\<lambda>line. line @ newline) lines))"

definition plain_line :: "string \<Rightarrow> bool" where
  "plain_line line = (CHR 0x0A \<notin> set line \<and> command_of (Trim line) \<notin> {''quit'', ''exit'', ''help''})"

lemma ReadLine_script:
  "CHR 0x0A \<notin> set line \<Longrightarrow> ReadLine start (script_input (line # lines)) sig = (kLine (start @ line), script_input lines, sig)"
proof (induction line arbitrary: start)
  case (Cons c line)
  from Cons.IH [of "start @ [c]"] Cons.prems show ?case by (auto simp: script_input_def)
qed (simp add: script_input_def newline_def)

definition script_text :: "string \<Rightarrow> string list \<Rightarrow> string" where
  "script_text buffer lines = buffer @ concat (map (\<lambda>line. newline @ line) lines)"

lemma newline_blank: "set newline \<subseteq> set blanks"
  by (auto simp: blanks_def)

lemma script_text_Cons: "script_text b (line # lines) = script_text (b @ newline @ line) lines"
  by (simp add: script_text_def)

lemma script_text_statements:
  "statements_of (script_text b lines) = statements_of b @ statements_of (script_text (leftover b) lines)"
  unfolding script_text_def by (rule statements_of_append)

definition buffered :: "session \<Rightarrow> string \<Rightarrow> string" where
  "buffered s line = se_buffer s @ (if se_buffer s \<noteq> [] then newline else '''') @ line"

lemma buffered_statements:
  "statements_of (script_text (buffered s line) lines) = statements_of (script_text (se_buffer s) (line # lines))"
  using statements_of_blank [OF newline_blank] by (simp add: buffered_def script_text_def)

lemma add_line_spec:
  assumes "\<not> con_interactive con" and "run_all sys fuel (statements_of (buffered s line)) (se_driver s) = (res, d)"
  shows "\<exists>b. add_line sys con fuel line s = (rbind res (\<lambda>_. Inr True), s\<lparr>se_driver := d, se_buffer := b\<rparr>) \<and>
    (res = Inr () \<longrightarrow> b = leftover (buffered s line))"
proof -
  obtain b where "run_statements sys fuel (s\<lparr>se_buffer := buffered s line\<rparr>) = (res, s\<lparr>se_driver := d, se_buffer := b\<rparr>)"
    "res = Inr () \<longrightarrow> b = leftover (buffered s line)"
    using run_statements_spec [of sys fuel "s\<lparr>se_buffer := buffered s line\<rparr>" res d] assms(2) by auto
  then show ?thesis
    using assms(1) by (intro exI [of _ b]) (cases res; simp add: add_line_def buffered_def sbind_def maybe_print_prompt_def)
qed

text \<open>A blank line between statements is skipped; every other line is added to the buffer.\<close>

lemma handle_line_script:
  assumes "\<not> con_interactive con" "plain_line line"
  shows "handle_line sys con fuel line s =
    (if se_buffer s = [] \<and> set line \<subseteq> set blanks then (Inr True, s) else add_line sys con fuel line s)"
  using assms by (simp add: handle_line_def plain_line_def Let_def Trim_empty maybe_print_prompt_def sbind_def)

lemma loop_turn_script:
  assumes "\<not> se_sigint s" "se_input s = script_input (line # lines)" "plain_line line"
  shows "loop_turn sys con fuel s = handle_line sys con fuel line (s\<lparr>se_input := script_input lines\<rparr>)"
proof -
  have ready: "deliver s = s"
  proof -
    have "se_input s = ReadByte c # es \<Longrightarrow> deliver s = s" for c es using assms(1) by (simp add: deliver_def)
    moreover have "\<exists>c es. se_input s = ReadByte c # es" using assms(2) by (cases line) (auto simp: script_input_def newline_def)
    ultimately show ?thesis by blast
  qed
  have same: "s\<lparr>se_input := es, se_sigint := False\<rparr> = s\<lparr>se_input := es\<rparr>" for es using assms(1) by simp
  show ?thesis
    using assms ReadLine_script [of line "[]" lines False] by (simp add: loop_turn_def plain_line_def ready same)
qed

lemma main_loop_script:
  assumes "\<not> con_interactive con" "list_all plain_line lines" "\<not> se_sigint s" "se_input s = script_input lines"
    and "CHR '';'' \<notin> set (se_buffer s)"
    and "run_all sys fuel (statements_of (script_text (se_buffer s) lines)) (se_driver s) = (res, d)"
  shows "\<exists>b es. main_loop sys con fuel s = (res, s\<lparr>se_driver := d, se_buffer := b, se_input := es\<rparr>)"
  using assms(2-6)
proof (induction lines arbitrary: s)
  case Nil
  have "script_text (se_buffer s) [] = se_buffer s" by (simp add: script_text_def)
  with Nil.prems(4,5) have "res = Inr ()" "d = se_driver s" by (simp_all add: statements_of.simps [of "se_buffer s"])
  moreover have "loop_turn sys con fuel s = (Inr False, s)"
    using Nil.prems(2,3) assms(1) by (simp add: loop_turn_def deliver_def script_input_def sbind_def)
  ultimately show ?case
    by (intro exI [of _ "se_buffer s"] exI [of _ "se_input s"]) (simp add: main_loop.simps [of _ _ _ s])
next
  case (Cons line lines)
  let ?s = "s\<lparr>se_input := script_input lines\<rparr>"
  have line: "plain_line line" "list_all plain_line lines" using Cons.prems(1) by simp_all
  note turn = loop_turn_script [OF Cons.prems(2,3) line(1), of sys con fuel]
  show ?case
  proof (cases "se_buffer s = [] \<and> set line \<subseteq> set blanks")
    case True
    then have blank: "set (newline @ line) \<subseteq> set blanks" using newline_blank by simp
    have "statements_of (script_text [] (line # lines)) = statements_of (script_text [] lines)"
      using statements_of_blank [OF blank, of "script_text [] lines"] by (simp add: script_text_def)
    with Cons.IH [OF line(2), of ?s] Cons.prems True
    obtain b es where "main_loop sys con fuel ?s = (res, s\<lparr>se_driver := d, se_buffer := b, se_input := es\<rparr>)" by auto
    moreover have "loop_turn sys con fuel s = (Inr True, ?s)" using turn handle_line_script [OF assms(1) line(1)] True by simp
    ultimately show ?thesis by (auto simp: main_loop.simps [of _ _ _ s])
  next
    case False
    let ?b = "buffered ?s line"
    obtain r1 d1 where r1: "run_all sys fuel (statements_of ?b) (se_driver s) = (r1, d1)" by fastforce
    from add_line_spec [OF assms(1), of sys fuel ?s line r1 d1] r1 obtain b where
      add: "add_line sys con fuel line ?s = (rbind r1 (\<lambda>_. Inr True), ?s\<lparr>se_driver := d1, se_buffer := b\<rparr>)"
      "r1 = Inr () \<Longrightarrow> b = leftover ?b" by auto
    have lt: "loop_turn sys con fuel s = (rbind r1 (\<lambda>_. Inr True), ?s\<lparr>se_driver := d1, se_buffer := b\<rparr>)"
      using turn handle_line_script [OF assms(1) line(1)] False add(1) by simp
    have whole: "run_all sys fuel (statements_of ?b @ statements_of (script_text (leftover ?b) lines)) (se_driver s) = (res, d)"
      using Cons.prems(5) buffered_statements [of ?s line lines] script_text_statements [of ?b lines] by simp
    show ?thesis
    proof (cases r1)
      case (Inl e)
      then have "res = Inl e" "d = d1" using whole r1 by (simp_all add: seach_append sbind_def)
      with lt Inl show ?thesis
        by (intro exI [of _ b] exI [of _ "script_input lines"]) (simp add: main_loop.simps [of _ _ _ s])
    next
      case (Inr u)
      then have b: "b = leftover ?b" using add(2) by simp
      let ?s1 = "?s\<lparr>se_driver := d1, se_buffer := b\<rparr>"
      have "run_all sys fuel (statements_of (script_text (se_buffer ?s1) lines)) (se_driver ?s1) = (res, d)"
        using whole r1 Inr by (simp add: seach_append sbind_def b)
      then obtain b' es where "main_loop sys con fuel ?s1 = (res, ?s1\<lparr>se_driver := d, se_buffer := b', se_input := es\<rparr>)"
        using Cons.IH [OF line(2), of ?s1] Cons.prems(2) leftover_plain [of ?b] by (auto simp: b)
      with lt Inr show ?thesis
        by (intro exI [of _ b'] exI [of _ es]) (simp add: main_loop.simps [of _ _ _ s])
    qed
  qed
qed

end
