(* ===== verification/ReadOnly.thy ===== *)
theory ReadOnly
  imports Optimizer
begin

text \<open>
  Queries only read: an operator tree over a buffer pool without dirty frames never writes to the
  disk and leaves no dirty frame behind, whatever it returns, also when it throws or stops half-way.
\<close>

section \<open>The buffer pool\<close>

definition clean_pool :: "DiskManager \<Rightarrow> pool_state \<Rightarrow> bool" where
  "clean_pool dm = (\<lambda>(bp, dm'). dm' = dm \<and> list_all (\<lambda>m. \<not> is_dirty m) (bp_frames bp))"

lemma clean_frame: "clean_pool dm (bp, dm') \<Longrightarrow> valid_frame bp f \<Longrightarrow> \<not> is_dirty (meta_at bp f)"
  by (simp add: clean_pool_def valid_frame_def meta_at_def list_all_length)

lemma clean_set_meta: "clean_pool dm (bp, dm') \<Longrightarrow> \<not> is_dirty m \<Longrightarrow> clean_pool dm (set_meta f m bp, dm')"
  by (auto simp: clean_pool_def set_meta_def list_all_iff dest!: set_update_subset_insert [THEN subsetD])

lemma clean_other_fields:
  "clean_pool dm (bp\<lparr>bp_replacer := r\<rparr>, dm') = clean_pool dm (bp, dm')" "clean_pool dm (bp\<lparr>free_list := fl\<rparr>, dm') = clean_pool dm (bp, dm')"
  "clean_pool dm (bp\<lparr>page_table := pt\<rparr>, dm') = clean_pool dm (bp, dm')" "clean_pool dm (bp\<lparr>bp_pages := ps\<rparr>, dm') = clean_pool dm (bp, dm')"
  by (simp_all add: clean_pool_def)

lemma keeps_on_replacer: "keeps (clean_pool dm) (on_replacer act)"
  by (rule keepsI) (auto simp: on_replacer_def clean_other_fields split: prod.splits)

lemma keeps_touch [keeps_intros]: "keeps (clean_pool dm) (touch_frame f)"
  unfolding touch_frame_def by (intro keeps_intros keeps_on_replacer)

lemma keeps_load: "keeps (clean_pool dm) (load_frame f p)"
  by (rule keepsI) (auto simp: load_frame_def clean_other_fields clean_set_meta split: sum.splits)

lemma vacate_clean: "clean_pool dm (bp, dm') \<Longrightarrow> valid_frame bp f \<Longrightarrow> clean_pool dm (snd (vacate_frame f (bp, dm')))"
  by (simp add: vacate_frame_def Let_def sbind_def sreturn_def clean_frame clean_other_fields)

lemma keeps_take: "keeps (clean_pool dm) (\<lambda>(bp, dm'). if \<not> valid_frame bp f then (Inl (UndefinedBehaviour m), (bp, dm'))
    else sbind (vacate_frame f) (\<lambda>_. sbind (load_frame f p) (\<lambda>_. touch_frame f)) (bp, dm'))"
proof (rule keepsI)
  have rest: "keeps (clean_pool dm) (sbind (load_frame f p) (\<lambda>_. touch_frame f))"
    by (intro keeps_intros keeps_load)
  fix s assume s: "clean_pool dm s"
  obtain bp dm' where [simp]: "s = (bp, dm')" by fastforce
  show "clean_pool dm (snd ((\<lambda>(bp, dm'). if \<not> valid_frame bp f then (Inl (UndefinedBehaviour m), (bp, dm'))
      else sbind (vacate_frame f) (\<lambda>_. sbind (load_frame f p) (\<lambda>_. touch_frame f)) (bp, dm')) s))"
  proof (cases "valid_frame bp f")
    case True
    with vacate_clean [of dm bp dm' f] s rest show ?thesis
      by (auto simp: sbind_def [of "vacate_frame f"] keeps_def split: prod.splits sum.splits)
  qed (use s in simp)
qed

lemma keeps_FetchPage [keeps_intros]: "keeps (clean_pool dm) (FetchPage p)"
proof (rule keepsI)
  fix s assume s: "clean_pool dm s"
  obtain bp dm' where [simp]: "s = (bp, dm')" by fastforce
  show "clean_pool dm (snd (FetchPage p s))"
  proof (cases "page_table bp p")
    case None
    have "keeps (clean_pool dm) FindFreeFrame"
      by (rule keepsI) (auto simp: FindFreeFrame_def clean_other_fields keeps_on_replacer [unfolded keeps_def, rule_format])
    then have "keeps (clean_pool dm) (sbind FindFreeFrame (\<lambda>maybe_frame. case maybe_frame of
        None \<Rightarrow> sthrow (RuntimeError ''BufferPoolManager::FetchPage: no free or evictable frame'')
      | Some frame \<Rightarrow> (\<lambda>(bp, dm). if \<not> valid_frame bp frame then (Inl (UndefinedBehaviour ''frames_ index''), (bp, dm))
          else sbind (vacate_frame frame) (\<lambda>_. sbind (load_frame frame p) (\<lambda>_. touch_frame frame)) (bp, dm))))"
      by (rule keeps_sbind) (auto split: option.splits intro: keeps_take keeps_intros)
    with s None show ?thesis by (simp add: FetchPage_def keeps_def)
  next
    case (Some f)
    with s clean_frame [of dm bp dm' f] show ?thesis
      by (auto simp: FetchPage_def Let_def intro!: keeps_touch [unfolded keeps_def, rule_format] clean_set_meta)
  qed
qed

lemma keeps_UnpinPage [keeps_intros]: "keeps (clean_pool dm) (UnpinPage p False)"
proof (rule keepsI)
  fix s assume s: "clean_pool dm s"
  obtain bp dm' where [simp]: "s = (bp, dm')" by fastforce
  show "clean_pool dm (snd (UnpinPage p False s))"
    using s by (auto simp: UnpinPage_def Let_def clean_frame split: option.splits
        intro!: keeps_on_replacer [unfolded keeps_def, rule_format] clean_set_meta)
qed

section \<open>Operators\<close>

lemma keeps_read_page [keeps_intros]: "keeps (clean_pool dm) (read_page p)"
  unfolding copy_page_def by (intro keeps_intros)

lemma keeps_regions [keeps_intros]: "keeps (clean_pool dm) (FetchWholeRegion rng)" "keeps (clean_pool dm) (fetch_data_pages a b)"
  unfolding FetchWholeRegion_def fetch_data_pages_def by (intro keeps_intros)+

lemma keeps_AppendColumn [keeps_intros]: "keeps (clean_pool dm) (AppendColumn sc rg start n chunk ordinal)"
  unfolding AppendColumn_def AppendFixedWidth_def AppendVarchar_def Let_def case_prod_beta
  by (intro keeps_intros) (auto split: TypeId.splits intro!: keeps_intros)

lemma keeps_append_columns: "keeps (clean_pool dm) (append_columns sc rg start n ordinals chunk)"
  by (induction ordinals arbitrary: chunk) (auto intro!: keeps_intros)

lemma keeps_scan_vector: "keeps (clean_pool dm) (scan_vector sc rg)"
  unfolding scan_vector_def Let_def by (intro keeps_intros keeps_append_columns)

text \<open>The state of an operator is its own and that of its children and the pool, of which the property speaks.\<close>

abbreviation below :: "('s \<Rightarrow> bool) \<Rightarrow> 'a \<times> 's \<Rightarrow> bool" where
  "below I \<equiv> I \<circ> snd"

lemma keeps_SeqScan: "keeps (below (clean_pool dm)) SeqScan_GetNext"
  by (rule keepsI) (auto simp: SeqScan_GetNext_def Let_def split: prod.splits sum.splits bool.splits dest: keepsD [OF keeps_scan_vector])

lemma keeps_chunkwise: "keeps I m \<Longrightarrow> keeps I (chunkwise f m)"
  unfolding chunkwise_def by (intro keeps_sbind) (auto split: option.splits intro: keeps_intros)

lemma drain_keeps:
  assumes "keeps I child"
  shows "I s \<Longrightarrow> I (snd (snd (drain_child fuel child step (a, s))))"
proof (induction fuel arbitrary: a s)
  case (Suc fuel)
  from Suc.prems have "I (snd (child s))" using assms by (simp add: keeps_def)
  then show ?case by (auto split: prod.splits sum.splits option.splits intro: Suc.IH [simplified])
qed simp

lemma keeps_ProbeNext: "keeps I child \<Longrightarrow> keeps (below I) (ProbeNext child)"
  by (rule keepsI) (auto simp: ProbeNext_def Let_def split: prod.splits sum.splits option.splits dest: keepsD)

lemma keeps_HashJoin:
  assumes "keeps I build" and "keeps I probe"
  shows "keeps (below I) (HashJoin_GetNext fuel build probe)"
proof -
  note probe = keeps_ProbeNext [OF assms(2), unfolded keeps_def, rule_format]
  have "keeps (below I) (BuildPhase fuel build)"
    by (rule keepsI) (auto simp: BuildPhase_def drain_keeps [OF assms(1)])
  moreover have "keeps (below I) (\<lambda>(hj, s). ProbeNext probe (hj\<lparr>hj_built := True\<rparr>, s))"
    using probe by (auto intro!: keepsI)
  ultimately have "keeps (below I) (sbind (BuildPhase fuel build) (\<lambda>_ (hj, s). ProbeNext probe (hj\<lparr>hj_built := True\<rparr>, s)))"
    by (rule keeps_sbind)
  then show ?thesis using probe by (auto simp: HashJoin_GetNext_def keeps_def)
qed

lemma keeps_Aggregation:
  assumes "keeps I child"
  shows "keeps (below I) (Aggregation_GetNext fuel child)"
  unfolding Aggregation_GetNext_def
proof (rule keeps_sbind)
  show "keeps (below I) (\<lambda>(ao, s). if \<not> ao_drained ao then Drain fuel child (ao, s) else (Inr (), (ao, s)))"
    by (rule keepsI) (auto simp: Drain_def Let_def drain_keeps [OF assms])
qed (auto intro!: keepsI split: sum.splits)

lemma keeps_on_child:
  assumes "keeps (below J) m"
  shows "keeps (below J) (on_build m)" "keeps (below J) (on_probe m)"
  using keepsD [OF assms] by (auto intro!: keepsI simp: on_build_def on_probe_def split: prod.splits)

lemma keeps_Operator: "keeps (below (clean_pool dm)) (Operator_GetNext fuel)"
proof (induction fuel)
  case (Suc fuel)
  let ?J = "clean_pool dm"
  have filter: "keeps (below ?J) (Filter_GetNext (Operator_GetNext fuel) p)" for p
    unfolding Filter_chunkwise by (rule keeps_chunkwise [OF Suc.IH])
  have project: "keeps (below ?J) (Projection_GetNext (Operator_GetNext fuel) es)" for es
    unfolding Projection_chunkwise by (rule keeps_chunkwise [OF Suc.IH])
  have join: "keeps (below (below ?J)) (HashJoin_GetNext fuel (on_build (Operator_GetNext fuel)) (on_probe (Operator_GetNext fuel)))"
    by (rule keeps_HashJoin) (rule keeps_on_child [OF Suc.IH])+
  have aggregate: "keeps (below (below ?J)) (Aggregation_GetNext fuel (Operator_GetNext fuel))"
    by (rule keeps_Aggregation [OF Suc.IH])
  have "?J (snd (snd (Operator_GetNext (Suc fuel) (op, pool))))" if J: "?J pool" for op pool
  proof (cases op)
    case (SeqScanOp scan)
    with J keepsD [OF keeps_SeqScan, of dm "(scan, pool)"] show ?thesis by (auto split: prod.splits)
  next
    case (FilterOp child p)
    with J keepsD [OF filter, of "(child, pool)" p] show ?thesis by (auto split: prod.splits)
  next
    case (HashJoinOp hj build probe)
    with J keepsD [OF join, of "(hj, ((build, probe), pool))"] show ?thesis by (auto split: prod.splits)
  next
    case (AggregationOp ao child)
    with J keepsD [OF aggregate, of "(ao, (child, pool))"] show ?thesis by (auto split: prod.splits)
  next
    case (ProjectionOp child es)
    with J keepsD [OF project, of "(child, pool)" es] show ?thesis by (auto split: prod.splits)
  qed
  then show ?case by (auto intro!: keepsI)
qed (auto intro!: keepsI)

end
