(* ===== verification/OperatorTree.thy ===== *)
theory OperatorTree
  imports Optimizer ExecProps
begin

text \<open>
  Operator trees: \<open>Operator_GetNext\<close> only gets more defined with more fuel, and the rows of an
  operator of the tree follow from those of its children, whatever the state the shared buffer
  pool is left in by the operators that ran before.
\<close>

section \<open>More fuel, same result\<close>

definition refines :: "('s, 'a) action \<Rightarrow> ('s, 'a) action \<Rightarrow> bool" where
  "refines m m' = (\<forall>s x s'. m s = (Inr x, s') \<longrightarrow> m' s = (Inr x, s'))"

lemma refinesD: "refines m m' \<Longrightarrow> m s = (Inr x, s') \<Longrightarrow> m' s = (Inr x, s')"
  by (simp add: refines_def)

lemma refines_refl [simp]: "refines m m"
  by (simp add: refines_def)

lemma produces_refines:
  assumes "produces m s cs s'" and "refines m m'"
  shows "produces m' s cs s'"
  using assms
proof (induction rule: produces.induct)
  case (exhausted get_next s s')
  from exhausted.prems exhausted.hyps have "m' s = (Inr None, s')" by (rule refinesD)
  then show ?case by (rule produces.exhausted)
next
  case (next_chunk get_next s c s' cs s'')
  from next_chunk.prems next_chunk.hyps(1) have "m' s = (Inr (Some c), s')" by (rule refinesD)
  then show ?case using next_chunk.IH [OF next_chunk.prems] by (rule produces.next_chunk)
qed

lemma refines_sbind: "refines m m' \<Longrightarrow> (\<And>x. refines (f x) (f' x)) \<Longrightarrow> refines (sbind m f) (sbind m' f')"
  unfolding refines_def sbind_def by (auto split: prod.splits sum.splits)

lemma refines_chunkwise: "refines m m' \<Longrightarrow> refines (chunkwise f m) (chunkwise f m')"
  unfolding chunkwise_def by (rule refines_sbind) simp_all

lemma refines_drain:
  assumes "refines m m'" and "fuel \<le> fuel'"
  shows "refines (drain_child fuel m step) (drain_child fuel' m' step)"
proof -
  have "drain_child fuel' m' step (a, s) = (Inr x, t)" if "drain_child fuel m step (a, s) = (Inr x, t)" for a s x t
    using that assms(2)
  proof (induction fuel arbitrary: fuel' a s)
    case (Suc fuel)
    obtain n where n: "fuel' = Suc n" "fuel \<le> n" using Suc.prems(2) by (cases fuel') auto
    obtain y s1 where y: "m s = (Inr y, s1)" using Suc.prems(1) by (auto split: prod.splits sum.splits)
    note y' = refinesD [OF assms(1) y]
    show ?case
    proof (cases y)
      case None
      then show ?thesis using Suc.prems(1) y y' n by simp
    next
      case (Some chunk)
      then show ?thesis using Suc.prems(1) y y' n Suc.IH [OF _ n(2)] by (auto split: prod.splits sum.splits)
    qed
  qed simp
  then show ?thesis by (auto simp: refines_def)
qed

lemma refines_ProbeNext:
  assumes "refines m m'"
  shows "refines (ProbeNext m) (ProbeNext m')"
proof -
  have "ProbeNext m' (hj, s) = (Inr x, t)" if run: "ProbeNext m (hj, s) = (Inr x, t)" for hj s x t
  proof (cases "hj_current_probe_chunk hj")
    case None
    with run obtain y s1 where y: "m s = (Inr y, s1)" by (auto simp: ProbeNext_def Let_def split: prod.splits sum.splits)
    with run None refinesD [OF assms y] show ?thesis by (simp add: ProbeNext_def Let_def)
  qed (use run in \<open>simp add: ProbeNext_def Let_def\<close>)
  then show ?thesis by (auto simp: refines_def)
qed

lemma refines_HashJoin:
  assumes "refines b b'" and "refines p p'" and "fuel \<le> fuel'"
  shows "refines (HashJoin_GetNext fuel b p) (HashJoin_GetNext fuel' b' p')"
proof -
  have "refines (BuildPhase fuel b) (BuildPhase fuel' b')"
    using refines_drain [OF assms(1,3), of "each_selected build_row"] by (auto simp: refines_def BuildPhase_def)
  moreover have "refines (\<lambda>(hj, s). ProbeNext p (hj\<lparr>hj_built := True\<rparr>, s)) (\<lambda>(hj, s). ProbeNext p' (hj\<lparr>hj_built := True\<rparr>, s))"
    using refines_ProbeNext [OF assms(2)] by (auto simp: refines_def)
  ultimately have "refines (sbind (BuildPhase fuel b) (\<lambda>_ (hj, s). ProbeNext p (hj\<lparr>hj_built := True\<rparr>, s)))
      (sbind (BuildPhase fuel' b') (\<lambda>_ (hj, s). ProbeNext p' (hj\<lparr>hj_built := True\<rparr>, s)))"
    by (rule refines_sbind)
  from refinesD [OF this] refinesD [OF refines_ProbeNext [OF assms(2)]] show ?thesis
    by (auto simp: refines_def HashJoin_GetNext_def split: if_splits)
qed

lemma refines_Aggregation:
  assumes "refines m m'" and "fuel \<le> fuel'"
  shows "refines (Aggregation_GetNext fuel m) (Aggregation_GetNext fuel' m')"
  unfolding Aggregation_GetNext_def
proof (rule refines_sbind)
  have "Drain fuel' m' (ao, s) = (Inr x, t)" if "Drain fuel m (ao, s) = (Inr x, t)" for ao s x t
    using that refinesD [OF refines_drain [OF assms, of "each_selected aggregate_row"]] by (auto simp: Drain_def Let_def)
  then show "refines (\<lambda>(ao, s). if \<not> ao_drained ao then Drain fuel m (ao, s) else (Inr (), (ao, s)))
      (\<lambda>(ao, s). if \<not> ao_drained ao then Drain fuel' m' (ao, s) else (Inr (), (ao, s)))"
    by (auto simp: refines_def)
qed simp

lemma refines_on_build: "refines m m' \<Longrightarrow> refines (on_build m) (on_build m')"
  unfolding refines_def on_build_def by (auto split: prod.splits)

lemma refines_on_probe: "refines m m' \<Longrightarrow> refines (on_probe m) (on_probe m')"
  unfolding refines_def on_probe_def by (auto split: prod.splits)

lemma Operator_GetNext_refines:
  "fuel \<le> fuel' \<Longrightarrow> refines (Operator_GetNext fuel) (Operator_GetNext fuel')"
proof (induction fuel arbitrary: fuel')
  case 0
  show ?case by (simp add: refines_def)
next
  case (Suc n)
  then obtain n' where n': "fuel' = Suc n'" "n \<le> n'" by (cases fuel') auto
  note IH = Suc.IH [OF n'(2)]
  have "Operator_GetNext (Suc n') (op, pool) = (Inr x, st)" if run: "Operator_GetNext (Suc n) (op, pool) = (Inr x, st)"
    for op pool x st
  proof (cases op)
    case (SeqScanOp scan)
    then show ?thesis using run by simp
  next
    case (FilterOp child p)
    with run obtain c pl where r: "Filter_GetNext (Operator_GetNext n) p (child, pool) = (Inr x, (c, pl))" "st = (FilterOp c p, pl)"
      by (auto split: prod.splits)
    from refinesD [OF refines_chunkwise [OF IH] r(1) [unfolded Filter_chunkwise]] r(2) FilterOp show ?thesis
      by (simp add: Filter_chunkwise)
  next
    case (HashJoinOp join build probe)
    with run obtain j b p pl where r: "HashJoin_GetNext n (on_build (Operator_GetNext n)) (on_probe (Operator_GetNext n))
        (join, ((build, probe), pool)) = (Inr x, (j, ((b, p), pl)))" "st = (HashJoinOp j b p, pl)"
      by (auto split: prod.splits)
    from refinesD [OF refines_HashJoin [OF refines_on_build [OF IH] refines_on_probe [OF IH] n'(2)] r(1)] r(2) HashJoinOp
    show ?thesis by simp
  next
    case (AggregationOp agg child)
    with run obtain a c pl where r: "Aggregation_GetNext n (Operator_GetNext n) (agg, (child, pool)) = (Inr x, (a, (c, pl)))"
      "st = (AggregationOp a c, pl)"
      by (auto split: prod.splits)
    from refinesD [OF refines_Aggregation [OF IH n'(2)] r(1)] r(2) AggregationOp show ?thesis by simp
  next
    case (ProjectionOp child es)
    with run obtain c pl where r: "Projection_GetNext (Operator_GetNext n) es (child, pool) = (Inr x, (c, pl))" "st = (ProjectionOp c es, pl)"
      by (auto split: prod.splits)
    from refinesD [OF refines_chunkwise [OF IH] r(1) [unfolded Projection_chunkwise]] r(2) ProjectionOp show ?thesis
      by (simp add: Projection_chunkwise)
  qed
  then show ?case unfolding n'(1) by (auto simp: refines_def)
qed

lemma produces_more_fuel:
  "produces (Operator_GetNext fuel) st cs st' \<Longrightarrow> fuel \<le> fuel' \<Longrightarrow> produces (Operator_GetNext fuel') st cs st'"
  by (rule produces_refines [OF _ Operator_GetNext_refines])

section \<open>Running a part of the state\<close>

lemma produces_lift:
  assumes "produces m s cs s'" and "\<And>s x s'. m s = (x, s') \<Longrightarrow> m' (f s) = (x, f s')"
  shows "produces m' (f s) cs (f s')"
  using assms by (induction rule: produces.induct) (auto intro: produces.intros)

lemma produces_filter_op:
  "produces (Filter_GetNext (Operator_GetNext n) p) (child, pool) cs (child', pool') \<Longrightarrow>
   produces (Operator_GetNext (Suc n)) (FilterOp child p, pool) cs (FilterOp child' p, pool')"
  by (drule produces_lift [where f = "\<lambda>(c, pool). (FilterOp c p, pool)" and m' = "Operator_GetNext (Suc n)"]) auto

lemma produces_projection_op:
  "produces (Projection_GetNext (Operator_GetNext n) es) (child, pool) cs (child', pool') \<Longrightarrow>
   produces (Operator_GetNext (Suc n)) (ProjectionOp child es, pool) cs (ProjectionOp child' es, pool')"
  by (drule produces_lift [where f = "\<lambda>(c, pool). (ProjectionOp c es, pool)" and m' = "Operator_GetNext (Suc n)"]) auto

lemma produces_scan_op:
  "produces SeqScan_GetNext (scan, pool) cs (scan', pool') \<Longrightarrow>
   produces (Operator_GetNext (Suc n)) (SeqScanOp scan, pool) cs (SeqScanOp scan', pool')"
  by (drule produces_lift [where f = "\<lambda>(s, pool). (SeqScanOp s, pool)" and m' = "Operator_GetNext (Suc n)"]) auto

lemma produces_aggregation_op:
  "produces (Aggregation_GetNext n (Operator_GetNext n)) (agg, (child, pool)) cs (agg', (child', pool')) \<Longrightarrow>
   produces (Operator_GetNext (Suc n)) (AggregationOp agg child, pool) cs (AggregationOp agg' child', pool')"
  by (drule produces_lift [where f = "\<lambda>(a, (c, pool)). (AggregationOp a c, pool)" and m' = "Operator_GetNext (Suc n)"]) auto

lemma produces_join_op:
  "produces (HashJoin_GetNext n (on_build (Operator_GetNext n)) (on_probe (Operator_GetNext n)))
     (join, ((b, p), pool)) cs (join', ((b', p'), pool')) \<Longrightarrow>
   produces (Operator_GetNext (Suc n)) (HashJoinOp join b p, pool) cs (HashJoinOp join' b' p', pool')"
  by (drule produces_lift [where f = "\<lambda>(j, ((b, p), pool)). (HashJoinOp j b p, pool)" and m' = "Operator_GetNext (Suc n)"]) auto

lemma produces_on_build:
  "produces m (b, pool) cs (b', pool') \<Longrightarrow> produces (on_build m) ((b, p), pool) cs ((b', p), pool')"
  by (drule produces_lift [where f = "\<lambda>(b, pool). ((b, p), pool)" and m' = "on_build m"]) (auto simp: on_build_def)

lemma produces_on_probe:
  "produces m (p, pool) cs (p', pool') \<Longrightarrow> produces (on_probe m) ((b, p), pool) cs ((b, p'), pool')"
  by (drule produces_lift [where f = "\<lambda>(p, pool). ((b, p), pool)" and m' = "on_probe m"]) (auto simp: on_probe_def)

section \<open>The rows of an operator\<close>

definition pool_ready :: "(uint32 \<Rightarrow> bytes option) \<Rightarrow> pool_state \<Rightarrow> bool" where
  "pool_ready P pool = (pool_inv pool \<and> spare_frames 2 pool \<and> pool_page pool = P)"

lemma pool_ready_kept: "pool_ready P pool \<Longrightarrow> scan_kept pool pool' \<Longrightarrow> pool_ready P pool'"
  using spare_kept [of pool pool' 2] unfolding pool_ready_def by (simp add: cache.kept_def)

definition yields :: "(uint32 \<Rightarrow> bytes option) \<Rightarrow> Operator \<Rightarrow> TypeId list \<Rightarrow> cell list list \<Rightarrow> bool" where
  "yields P op ts rows = (\<forall>pool. pool_ready P pool \<longrightarrow>
     (\<exists>fuel cs op' pool'. produces (Operator_GetNext fuel) (op, pool) cs (op', pool') \<and> scan_kept pool pool' \<and>
        (\<forall>c \<in> set cs. chunk_inv c \<and> chunk_types c = ts) \<and> concat (map chunk_rows cs) = rows))"

lemma yieldsE:
  assumes "yields P op ts rows" and "pool_ready P pool"
  obtains fuel cs op' pool' where "produces (Operator_GetNext fuel) (op, pool) cs (op', pool')" "scan_kept pool pool'"
    "\<And>c. c \<in> set cs \<Longrightarrow> chunk_inv c \<and> chunk_types c = ts" "concat (map chunk_rows cs) = rows"
  using assms unfolding yields_def by blast

lemma yieldsI:
  assumes "\<And>pool. pool_ready P pool \<Longrightarrow> \<exists>fuel cs op' pool'. produces (Operator_GetNext fuel) (op, pool) cs (op', pool') \<and>
      scan_kept pool pool' \<and> (\<forall>c \<in> set cs. chunk_inv c \<and> chunk_types c = ts) \<and> concat (map chunk_rows cs) = rows"
  shows "yields P op ts rows"
  using assms unfolding yields_def by blast

lemma filter_yields:
  assumes child: "yields P op ts rows" and p: "total_on ts p" "ResultType p = etBoolean"
  shows "yields P (FilterOp op p) ts (filter (row_passes p) rows)"
proof (rule yieldsI)
  fix pool assume "pool_ready P pool"
  then obtain fuel cs op' pool' where cs: "produces (Operator_GetNext fuel) (op, pool) cs (op', pool')" "scan_kept pool pool'"
    "\<And>c. c \<in> set cs \<Longrightarrow> chunk_inv c \<and> chunk_types c = ts" "concat (map chunk_rows cs) = rows"
    using yieldsE [OF child] by blast
  have "chunk_accepts ts p c \<and> ResultType p = etBoolean" if "c \<in> set cs" for c
    using cs(3) [OF that] p total_on_accepts by blast
  then obtain ds where "produces (Filter_GetNext (Operator_GetNext fuel) p) (op, pool) ds (op', pool')"
    "\<forall>d \<in> set ds. chunk_inv d \<and> chunk_types d = ts" "concat (map chunk_rows ds) = filter (row_passes p) rows"
    using filter_rows.produces_rows [OF cs(1), of ts p] cs(4) unfolding Filter_chunkwise by metis
  with cs(2) show "\<exists>fuel cs op' pool'. produces (Operator_GetNext fuel) (FilterOp op p, pool) cs (op', pool') \<and>
      scan_kept pool pool' \<and> (\<forall>c \<in> set cs. chunk_inv c \<and> chunk_types c = ts) \<and>
      concat (map chunk_rows cs) = filter (row_passes p) rows"
    using produces_filter_op by blast
qed

lemma projection_yields:
  assumes child: "yields P op ts rows" and es: "\<And>e. e \<in> set es \<Longrightarrow> total_on ts e \<and> ResultType e \<noteq> etBoolean"
  shows "yields P (ProjectionOp op es) (map (type_of \<circ> ResultType) es) (map (\<lambda>row. map (\<lambda>e. projected_cell e row) es) rows)"
    (is "yields P ?op ?ts ?rows")
proof (rule yieldsI)
  fix pool assume "pool_ready P pool"
  then obtain fuel cs op' pool' where cs: "produces (Operator_GetNext fuel) (op, pool) cs (op', pool')" "scan_kept pool pool'"
    "\<And>c. c \<in> set cs \<Longrightarrow> chunk_inv c \<and> chunk_types c = ts" "concat (map chunk_rows cs) = rows"
    using yieldsE [OF child] by blast
  have "chunk_inv c \<and> (\<forall>e \<in> set es. chunk_accepts (chunk_types c) e c \<and> ResultType e \<noteq> etBoolean)" if "c \<in> set cs" for c
    using cs(3) [OF that] es total_on_accepts by blast
  then obtain ds where "produces (Projection_GetNext (Operator_GetNext fuel) es) (op, pool) ds (op', pool')"
    "\<forall>d \<in> set ds. chunk_inv d \<and> chunk_types d = ?ts" "concat (map chunk_rows ds) = ?rows"
    using project_rows.produces_rows [OF cs(1), of es] cs(4) unfolding Projection_chunkwise by metis
  with cs(2) show "\<exists>fuel cs op' pool'. produces (Operator_GetNext fuel) (?op, pool) cs (op', pool') \<and>
      scan_kept pool pool' \<and> (\<forall>c \<in> set cs. chunk_inv c \<and> chunk_types c = ?ts) \<and> concat (map chunk_rows cs) = ?rows"
    using produces_projection_op by blast
qed

lemma join_yields:
  assumes build: "yields P b ts brows" and probe: "yields P p ps prows"
    and ords: "list_all (\<lambda>c. c < length ts) bords" "list_all (\<lambda>c. c < length ps) pords"
    and fits: "build_fits ts brows" and light: "list_all light brows" "list_all light prows"
  shows "yields P (HashJoinOp (MakeHashJoinOperator bords pords ts) b p) (ts @ ps) (equi_join bords pords brows prows)"
    (is "yields P ?op ?ts ?rows")
proof (rule yieldsI)
  fix pool assume ready: "pool_ready P pool"
  from yieldsE [OF build ready] obtain f1 bcs b' pool1 where
    b: "produces (Operator_GetNext f1) (b, pool) bcs (b', pool1)" "scan_kept pool pool1"
    "\<And>c. c \<in> set bcs \<Longrightarrow> chunk_inv c \<and> chunk_types c = ts" "concat (map chunk_rows bcs) = brows" by blast
  from yieldsE [OF probe pool_ready_kept [OF ready b(2)]] obtain f2 pcs p' pool2 where
    p: "produces (Operator_GetNext f2) (p, pool1) pcs (p', pool2)" "scan_kept pool1 pool2"
    "\<And>c. c \<in> set pcs \<Longrightarrow> chunk_inv c \<and> chunk_types c = ps" "concat (map chunk_rows pcs) = prows" by blast
  define n where "n = Suc (f1 + f2 + length bcs)"
  have run: "produces (on_build (Operator_GetNext n)) ((b, p), pool) bcs ((b', p), pool1)"
    "produces (on_probe (Operator_GetNext n)) ((b', p), pool1) pcs ((b', p'), pool2)"
    by (rule produces_on_build produces_on_probe; rule produces_more_fuel [OF b(1)] produces_more_fuel [OF p(1)]; simp add: n_def)+
  have "list_all light (keyed bords brows)"
    using light(1) light_clean by (auto simp: keyed_def list_all_iff)
  moreover have "light (map clean_cell r)" if "r \<in> set (chunk_rows dc)" "dc \<in> set pcs" for r dc
    using that light(2) light_clean p(4) by (auto simp: list_all_iff)
  ultimately have li: "join_light bords (concat (map chunk_rows bcs)) dc" if "dc \<in> set pcs" for dc
    using that by (simp add: join_light_def list_all_iff b(4))
  obtain cs hj where "produces (HashJoin_GetNext n (on_build (Operator_GetNext n)) (on_probe (Operator_GetNext n)))
      (MakeHashJoinOperator bords pords ts, ((b, p), pool)) cs (hj, ((b', p'), pool2))"
    "list_all (joined_chunk ts ps) cs" "concat (map chunk_rows cs) = ?rows"
    using join_produces [OF run(1) b(3) run(2) p(3) ords _ li, of n] fits b(4) p(4) by (auto simp: n_def)
  with produces_join_op cache.kept_trans [OF b(2) p(2)]
  show "\<exists>fuel cs op' pool'. produces (Operator_GetNext fuel) (?op, pool) cs (op', pool') \<and>
      scan_kept pool pool' \<and> (\<forall>c \<in> set cs. chunk_inv c \<and> chunk_types c = ?ts) \<and> concat (map chunk_rows cs) = ?rows"
    by (intro exI [of _ "Suc n"] exI [of _ cs] exI [of _ "HashJoinOp hj b' p'"] exI [of _ pool2])
      (simp add: joined_chunk_def list_all_iff)
qed

lemma aggregation_yields:
  assumes child: "yields P op ts rows" and cols: "list_all (\<lambda>c. c < length ts) cols" "list_all (spec_ok ts) specs"
    and rows: "length rows < 2 ^ 31" "list_all light rows"
  shows "yields P (AggregationOp (MakeAggregationOperator cols (map ((!) ts) cols) specs) op)
    (aggregate_types ts cols specs) (group_by cols specs rows)" (is "yields P ?op ?ts ?rows")
proof (rule yieldsI)
  fix pool assume "pool_ready P pool"
  then obtain fuel cs op' pool' where cs: "produces (Operator_GetNext fuel) (op, pool) cs (op', pool')" "scan_kept pool pool'"
    "\<And>c. c \<in> set cs \<Longrightarrow> chunk_inv c \<and> chunk_types c = ts" "concat (map chunk_rows cs) = rows"
    using yieldsE [OF child] by blast
  define n where "n = Suc (fuel + length cs)"
  have run: "produces (Operator_GetNext n) (op, pool) cs (op', pool')" by (rule produces_more_fuel [OF cs(1)]) (simp add: n_def)
  obtain ds ao where "produces (Aggregation_GetNext n (Operator_GetNext n))
      (MakeAggregationOperator cols (map ((!) ts) cols) specs, (op, pool)) ds (ao, (op', pool'))"
    "list_all (aggregated_chunk ts cols specs) ds" "concat (map chunk_rows ds) = ?rows"
    using aggregation_produces [OF run cs(3) cols, of n] rows cs(4) by (auto simp: n_def)
  with produces_aggregation_op cs(2)
  show "\<exists>fuel cs op' pool'. produces (Operator_GetNext fuel) (?op, pool) cs (op', pool') \<and>
      scan_kept pool pool' \<and> (\<forall>c \<in> set cs. chunk_inv c \<and> chunk_types c = ?ts) \<and> concat (map chunk_rows cs) = ?rows"
    by (intro exI [of _ "Suc n"] exI [of _ ds] exI [of _ "AggregationOp ao op'"] exI [of _ pool'])
      (simp add: aggregated_chunk_def list_all_iff)
qed

section \<open>Scans over a pool in use\<close>

definition table_at :: "(uint32 \<Rightarrow> bytes option) \<Rightarrow> TableObject \<Rightarrow> TypeId list \<Rightarrow> cell list list list \<Rightarrow> bool" where
  "table_at P table ts contents =
     (list_all2 (group_holds P) (to_row_groups table) contents \<and> map cd_type (to_columns table) = ts \<and>
      list_all (list_all2 cells_of_type ts) contents \<and> varchar_ordinals_low ts)"

lemma table_stored_at: "table_stored dm table ts contents \<Longrightarrow> table_at (dm_page dm) table ts contents"
  by (auto simp: table_stored_def table_at_def groups_stored_def elim: list_all2_mono)

lemma table_at_scannable:
  assumes "table_at P table ts contents" and "list_all (\<lambda>c. c < length ts) ords"
  shows "list_all2 (\<lambda>rg cellss. group_holds P rg cellss \<and> scannable ts ords rg cellss) (to_row_groups table) contents"
  using assms low_ordinals_scannable [OF _ _ _ assms(2)]
  by (auto simp: table_at_def list_all2_conv_all_nth list_all_length)

lemma scan_yields:
  assumes table: "table_at P table ts contents" and ords: "list_all (\<lambda>c. c < length ts) ords" and skip: "skip_typed ts skip"
  shows "yields P (SeqScanOp (MakeSeqScanOperator table ords skip)) (map ((!) ts) ords)
    (scanned_rows skip ords (to_row_groups table) contents)"
proof (rule yieldsI)
  fix pool assume ready: "pool_ready P pool"
  let ?sc = "MakeSeqScanOperator table ords skip" and ?rgs = "to_row_groups table"
  note groups = table_at_scannable [OF table ords]
  have "list_all2 (\<lambda>rg cellss. group_holds P rg cellss \<and> scannable ts ords rg cellss \<and>
      (\<exists>b. skips_group skip rg = Inr b)) ?rgs contents"
    by (rule list_all2_mono [OF groups]) (auto simp: scannable_def intro: skip_typed_decided [OF skip])
  moreover have "unat (0 :: uint32) * kVectorSize < unat (rg_row_count (?rgs ! 0))" if "?rgs \<noteq> []"
    using groups that by (auto simp: list_all2_conv_all_nth group_holds_def)
  ultimately have "scan_ready ts contents (?sc, pool)"
    using ready table by (simp add: scan_ready_def MakeSeqScanOperator_def pool_ready_def table_at_def Let_def)
  from scan_produces [OF this] scan_rest_start [of table contents ords skip] list_all2_lengthD [OF groups]
  obtain cs sc pool' where "produces SeqScan_GetNext (?sc, pool) cs (sc, pool')" "scan_kept pool pool'"
    "list_all (\<lambda>dc. chunk_inv dc \<and> chunk_types dc = map ((!) ts) ords) cs"
    "concat (map chunk_rows cs) = scanned_rows skip ords ?rgs contents"
    by (auto simp: MakeSeqScanOperator_def)
  with produces_scan_op [of ?sc pool cs sc pool' 0]
  show "\<exists>fuel cs op' pool'. produces (Operator_GetNext fuel) (SeqScanOp ?sc, pool) cs (op', pool') \<and> scan_kept pool pool' \<and>
      (\<forall>c \<in> set cs. chunk_inv c \<and> chunk_types c = map ((!) ts) ords) \<and>
      concat (map chunk_rows cs) = scanned_rows skip ords ?rgs contents"
    by (intro exI [of _ "Suc 0"] exI [of _ cs] exI [of _ "SeqScanOp sc"] exI [of _ pool']) (simp add: list_all_iff)
qed

end
