(* ===== verification/DiskGrowth.thy ===== *)
theory DiskGrowth
  imports ReadOnly OperatorTree
begin

text \<open>
  Inserts and flushes write behind the pages that are allocated. The buffer pool is not told, and
  need not be: a query reads allocated pages only. Here a run over the allocated part of the file
  is carried over to the whole file, which may go on with metadata, and a pool that agrees with
  the allocated part still does after the file has grown.
\<close>

section \<open>Runs over a larger disk\<close>

text \<open>A successful run in a state of \<open>J\<close> stays in \<open>J\<close>, and is the same in the state that \<open>h\<close> makes of it.\<close>

definition carries :: "('s \<Rightarrow> bool) \<Rightarrow> ('s \<Rightarrow> 's) \<Rightarrow> ('s, 'a) action \<Rightarrow> bool" where
  "carries J h m = (\<forall>s x s'. J s \<longrightarrow> m s = (Inr x, s') \<longrightarrow> J s' \<and> m (h s) = (Inr x, h s'))"

named_theorems carries_intros \<open>rules that carry a run over\<close>

lemma carriesI: "(\<And>s x s'. J s \<Longrightarrow> m s = (Inr x, s') \<Longrightarrow> J s' \<and> m (h s) = (Inr x, h s')) \<Longrightarrow> carries J h m"
  by (simp add: carries_def)

lemma carriesD: "carries J h m \<Longrightarrow> J s \<Longrightarrow> m s = (Inr x, s') \<Longrightarrow> J s' \<and> m (h s) = (Inr x, h s')"
  by (simp add: carries_def)

lemma carries_sbind [carries_intros]: "carries J h m \<Longrightarrow> (\<And>x. carries J h (f x)) \<Longrightarrow> carries J h (sbind m f)"
proof (rule carriesI)
  fix s x s' assume a: "carries J h m" "\<And>x. carries J h (f x)" "J s" "sbind m f s = (Inr x, s')"
  then obtain y s1 where y: "m s = (Inr y, s1)" "f y s1 = (Inr x, s')" by (auto simp: sbind_def split: prod.splits sum.splits)
  from carriesD [OF a(1,3) y(1)] carriesD [OF a(2) _ y(2)] show "J s' \<and> sbind m f (h s) = (Inr x, h s')"
    by (simp add: sbind_def)
qed

lemma carries_return [carries_intros]: "carries J h (sreturn x)" "carries J h (sthrow e)" "carries J h (sresult r)"
  by (simp_all add: carries_def sreturn_def sthrow_def sresult_def)

lemma carries_look [carries_intros]: "(\<And>s. f (h s) = f s) \<Longrightarrow> carries J h (\<lambda>s. (f s, s))"
  by (simp add: carries_def)

lemma carries_smap [carries_intros]: "(\<And>x. carries J h (f x)) \<Longrightarrow> carries J h (smap f xs)"
  by (induction xs) (auto intro!: carries_intros)

lemma carries_if [carries_intros]: "(b \<Longrightarrow> carries J h m) \<Longrightarrow> (\<not> b \<Longrightarrow> carries J h m') \<Longrightarrow> carries J h (if b then m else m')"
  by simp

lemma produces_carried:
  "produces m s cs s' \<Longrightarrow> carries J h m \<Longrightarrow> J s \<Longrightarrow> produces m (h s) cs (h s')"
proof (induction rule: produces.induct)
  case (exhausted get_next s s')
  then show ?case by (auto intro!: produces.exhausted dest: carriesD)
next
  case (next_chunk get_next s c s' cs s'')
  from carriesD [OF next_chunk.prems next_chunk.hyps(1)] next_chunk.IH next_chunk.prems(1) show ?case
    by (blast intro: produces.next_chunk)
qed

lemma produces_keeps: "produces m s cs s' \<Longrightarrow> keeps I m \<Longrightarrow> I s \<Longrightarrow> I s'"
  by (induction rule: produces.induct) (auto dest: keepsD)

text \<open>The disk may have more pages.\<close>

definition more_pages :: "DiskManager \<Rightarrow> DiskManager \<Rightarrow> bool" where
  "more_pages dm dm' = (reliable (dm_os dm) \<and> reliable (dm_os dm') \<and> (\<forall>p x. dm_page dm p = Some x \<longrightarrow> dm_page dm' p = Some x))"

abbreviation over :: "DiskManager \<Rightarrow> pool_state \<Rightarrow> pool_state" where
  "over dm s \<equiv> (fst s, dm)"

lemma ReadPages_more: "more_pages dm dm' \<Longrightarrow> ReadPages dm p 1 = Inr x \<Longrightarrow> ReadPages dm' p 1 = Inr x"
  by (auto simp: more_pages_def ReadPages_one split: option.splits if_splits)

lemma carries_on_replacer: "carries (clean_pool dm) (over dm') (on_replacer act)"
  by (rule carriesI) (auto simp: on_replacer_def clean_other_fields split: prod.splits)

lemma carries_touch [carries_intros]: "carries (clean_pool dm) (over dm') (touch_frame f)"
  unfolding touch_frame_def by (intro carries_intros carries_on_replacer)

lemma carries_find: "carries (clean_pool dm) (over dm') FindFreeFrame"
proof (rule carriesI)
  fix s x s' assume "clean_pool dm s" "FindFreeFrame s = (Inr x, s')"
  with carriesD [OF carries_on_replacer, of dm s Evict x s' dm'] show "clean_pool dm s' \<and> FindFreeFrame (over dm' s) = (Inr x, over dm' s')"
    by (cases s) (auto simp: FindFreeFrame_def clean_other_fields split: if_splits)
qed

lemma carries_load:
  assumes "more_pages dm dm'"
  shows "carries (clean_pool dm) (over dm') (load_frame f p)"
proof (rule carriesI)
  fix s x s' assume s: "clean_pool dm s" "load_frame f p s = (Inr x, s')"
  obtain bp where sp: "s = (bp, dm)" using s(1) by (cases s) (simp add: clean_pool_def)
  then obtain data where "ReadPages dm p 1 = Inr data"
    using s(2) by (auto simp: load_frame_def split: sum.splits)
  with ReadPages_more [OF assms this] s show "clean_pool dm s' \<and> load_frame f p (over dm' s) = (Inr x, over dm' s')"
    by (auto simp: sp load_frame_def clean_other_fields clean_set_meta)
qed

lemma carries_vacate:
  assumes "clean_pool dm s" "valid_frame (fst s) f" "vacate_frame f s = (Inr x, s')"
  shows "clean_pool dm s' \<and> vacate_frame f (over dm' s) = (Inr x, over dm' s')"
proof -
  obtain bp dm1 where s: "s = (bp, dm1)" by fastforce
  from assms clean_frame [of dm bp dm1 f] show ?thesis
    by (auto simp: s vacate_frame_def Let_def sbind_def sreturn_def clean_other_fields split: if_splits)
qed

lemma carries_take:
  assumes "more_pages dm dm'"
  shows "carries (clean_pool dm) (over dm') (\<lambda>(bp, dm1). if \<not> valid_frame bp f then (Inl (UndefinedBehaviour m), (bp, dm1))
    else sbind (vacate_frame f) (\<lambda>_. sbind (load_frame f p) (\<lambda>_. touch_frame f)) (bp, dm1))" (is "carries _ _ ?take")
proof (rule carriesI)
  let ?rest = "sbind (load_frame f p) (\<lambda>_. touch_frame f)"
  have rest: "carries (clean_pool dm) (over dm') ?rest" by (intro carries_intros carries_load [OF assms])
  fix s x s' assume s: "clean_pool dm s" "?take s = (Inr x, s')"
  then have v: "valid_frame (fst s) f" "sbind (vacate_frame f) (\<lambda>_. ?rest) s = (Inr x, s')" by (auto split: prod.splits if_splits)
  then obtain y s1 where y: "vacate_frame f s = (Inr y, s1)" "?rest s1 = (Inr x, s')"
    by (auto simp: sbind_def [of "vacate_frame f"] split: prod.splits sum.splits)
  from carries_vacate [OF s(1) v(1) y(1), of dm'] carriesD [OF rest _ y(2)] v(1)
  show "clean_pool dm s' \<and> ?take (over dm' s) = (Inr x, over dm' s')"
    by (simp add: sbind_def [of "vacate_frame f"])
qed

lemma carries_FetchPage:
  assumes "more_pages dm dm'"
  shows "carries (clean_pool dm) (over dm') (FetchPage p)"
proof (rule carriesI)
  let ?miss = "sbind FindFreeFrame (\<lambda>maybe_frame. case maybe_frame of
        None \<Rightarrow> sthrow (RuntimeError ''BufferPoolManager::FetchPage: no free or evictable frame'')
      | Some frame \<Rightarrow> (\<lambda>(bp, dm). if \<not> valid_frame bp frame then (Inl (UndefinedBehaviour ''frames_ index''), (bp, dm))
          else sbind (vacate_frame frame) (\<lambda>_. sbind (load_frame frame p) (\<lambda>_. touch_frame frame)) (bp, dm)))"
  have miss: "carries (clean_pool dm) (over dm') ?miss"
    by (rule carries_sbind [OF carries_find]) (auto split: option.splits intro: carries_take [OF assms] carries_intros)
  fix s x s' assume s: "clean_pool dm s" "FetchPage p s = (Inr x, s')"
  obtain bp dm1 where sp: "s = (bp, dm1)" by fastforce
  show "clean_pool dm s' \<and> FetchPage p (over dm' s) = (Inr x, over dm' s')"
  proof (cases "page_table bp p")
    case None
    with s have "?miss s = (Inr x, s')" by (simp add: FetchPage_def sp)
    with carriesD [OF miss s(1)] None show ?thesis by (simp add: FetchPage_def sp)
  next
    case (Some f)
    let ?s = "(set_meta f ((meta_at bp f)\<lparr>pin_count := pin_count (meta_at bp f) + 1\<rparr>) bp, dm1)"
    have v: "valid_frame bp f" "touch_frame f ?s = (Inr x, s')"
      using s Some by (auto simp: FetchPage_def sp Let_def split: if_splits)
    have "clean_pool dm ?s" using s(1) clean_frame [of dm bp dm1 f] v(1) by (intro clean_set_meta) (simp_all add: sp)
    from carriesD [OF carries_touch this v(2)] Some v(1) show ?thesis by (simp add: FetchPage_def sp Let_def)
  qed
qed

lemma carries_UnpinPage [carries_intros]: "carries (clean_pool dm) (over dm') (UnpinPage p False)"
proof (rule carriesI)
  fix s x s' assume s: "clean_pool dm s" "UnpinPage p False s = (Inr x, s')"
  obtain bp dm1 where sp: "s = (bp, dm1)" by fastforce
  have "clean_pool dm s'" using keepsD [OF keeps_UnpinPage s] .
  moreover have "UnpinPage p False (over dm' s) = (Inr x, over dm' s')"
    using s(2) by (auto simp: UnpinPage_def sp Let_def on_replacer_def split: option.splits if_splits prod.splits)
  ultimately show "clean_pool dm s' \<and> UnpinPage p False (over dm' s) = (Inr x, over dm' s')" ..
qed

section \<open>Operators over a larger disk\<close>

lemma deref_over: "deref_frame (over dm' s) f = deref_frame s f"
  by (simp add: deref_frame_def case_prod_beta)

lemma carries_read_page [carries_intros]: "more_pages dm dm' \<Longrightarrow> carries (clean_pool dm) (over dm') (read_page p)"
  unfolding copy_page_def by (intro carries_intros carries_FetchPage) (simp_all add: deref_over)

lemma carries_regions [carries_intros]:
  assumes "more_pages dm dm'"
  shows "carries (clean_pool dm) (over dm') (FetchWholeRegion rng)" "carries (clean_pool dm) (over dm') (fetch_data_pages a b)"
  unfolding FetchWholeRegion_def fetch_data_pages_def by (intro carries_intros assms)+

lemma carries_AppendColumn [carries_intros]:
  assumes "more_pages dm dm'"
  shows "carries (clean_pool dm) (over dm') (AppendColumn sc rg start n chunk ordinal)"
proof -
  note intros = carries_intros carries_FetchPage assms
  have "carries (clean_pool dm) (over dm') (AppendFixedWidth t chunk rg ordinal start n v)" for t v
    unfolding AppendFixedWidth_def Let_def by (intro intros) (simp add: deref_over)
  moreover have "carries (clean_pool dm) (over dm') (AppendVarchar chunk rg ordinal start n)"
    unfolding AppendVarchar_def Let_def case_prod_beta by (intro intros) (simp add: deref_over)
  ultimately show ?thesis
    unfolding AppendColumn_def by (intro carries_intros) (auto split: TypeId.splits)
qed

lemma carries_scan_vector:
  assumes "more_pages dm dm'"
  shows "carries (clean_pool dm) (over dm') (scan_vector sc rg)"
proof -
  have "carries (clean_pool dm) (over dm') (append_columns sc rg start n ordinals chunk)" for start n ordinals chunk
    by (induction ordinals arbitrary: chunk) (auto intro!: carries_intros assms)
  then show ?thesis unfolding scan_vector_def Let_def by (intro carries_intros)
qed

lemma carries_SeqScan:
  assumes "more_pages dm dm'"
  shows "carries (below (clean_pool dm)) (apsnd (over dm')) SeqScan_GetNext"
proof (rule carriesI)
  fix s x s' assume s: "below (clean_pool dm) s" "SeqScan_GetNext s = (Inr x, s')"
  obtain sc pool where sp: "s = (sc, pool)" by (cases s)
  obtain r sc1 where a: "AdvanceToUsableRowGroup sc = (r, sc1)" by fastforce
  show "below (clean_pool dm) s' \<and> SeqScan_GetNext (apsnd (over dm') s) = (Inr x, apsnd (over dm') s')"
  proof (cases "r = Inr True")
    case True
    let ?rg = "to_row_groups (sc_table sc1) ! sc_row_group_index sc1"
    obtain chunk pool1 where v: "scan_vector sc1 ?rg pool = (Inr chunk, pool1)"
      "x = Some chunk" "s' = (next_vector ?rg sc1, pool1)"
      using s(2) a True by (auto simp: SeqScan_GetNext_def sp Let_def split: prod.splits sum.splits)
    from carriesD [OF carries_scan_vector [OF assms] _ v(1)] s(1) v(2,3) a True show ?thesis
      by (simp add: SeqScan_GetNext_def sp)
  next
    case False
    with s a show ?thesis
      by (auto simp: SeqScan_GetNext_def sp split: sum.splits bool.splits)
  qed
qed

lemma carries_chunkwise:
  "carries J h m \<Longrightarrow> carries J h (chunkwise f m)"
  unfolding chunkwise_def by (intro carries_sbind) (auto split: option.splits intro: carries_intros)

lemma carries_drain:
  assumes "carries J h child"
  shows "carries (below J) (apsnd h) (drain_child fuel child step)"
proof (induction fuel)
  case (Suc fuel)
  show ?case
  proof (rule carriesI)
    fix s x s' assume s: "below J s" "drain_child (Suc fuel) child step s = (Inr x, s')"
    obtain a t where sp: "s = (a, t)" by fastforce
    obtain r t1 where r: "child t = (Inr r, t1)" using s(2) by (auto simp: sp split: prod.splits sum.splits)
    with carriesD [OF assms _ r] s(1) have t1: "J t1" "child (h t) = (Inr r, h t1)" by (simp_all add: sp)
    show "below J s' \<and> drain_child (Suc fuel) child step (apsnd h s) = (Inr x, apsnd h s')"
    proof (cases r)
      case None
      with s(2) r t1 show ?thesis by (auto simp: sp)
    next
      case (Some chunk)
      obtain y a1 where a1: "step chunk a = (Inr y, a1)" using s(2) r Some by (auto simp: sp split: prod.splits sum.splits)
      then have "drain_child fuel child step (a1, t1) = (Inr x, s')" using s(2) r Some by (simp add: sp)
      from carriesD [OF Suc.IH _ this] t1 a1 Some show ?thesis by (simp add: sp)
    qed
  qed
qed (simp add: carries_def)

lemma carries_ProbeNext:
  assumes "carries J h child"
  shows "carries (below J) (apsnd h) (ProbeNext child)"
proof (rule carriesI)
  fix s x s' assume s: "below J s" "ProbeNext child s = (Inr x, s')"
  obtain hj t where sp: "s = (hj, t)" by fastforce
  show "below J s' \<and> ProbeNext child (apsnd h s) = (Inr x, apsnd h s')"
  proof (cases "hj_current_probe_chunk hj")
    case (Some chunk)
    with s show ?thesis by (auto simp: sp ProbeNext_def split: sum.splits)
  next
    case None
    obtain r t1 where r: "child t = (Inr r, t1)" using s(2) None by (auto simp: sp ProbeNext_def split: prod.splits sum.splits)
    with carriesD [OF assms _ r] s(1) have t1: "J t1" "child (h t) = (Inr r, h t1)" by (simp_all add: sp)
    with s(2) None r show ?thesis by (auto simp: sp ProbeNext_def Let_def split: option.splits sum.splits)
  qed
qed

text \<open>An operator that only works on its own part of the state before it goes on.\<close>

lemma carries_own: "carries (below J) (apsnd h) m \<Longrightarrow> carries (below J) (apsnd h) (\<lambda>(a, s). m (f a, s))"
proof (rule carriesI)
  fix s x s' assume m: "carries (below J) (apsnd h) m" and s: "below J s" "(\<lambda>(a, s). m (f a, s)) s = (Inr x, s')"
  obtain a t where sp: "s = (a, t)" by (cases s)
  from carriesD [OF m, of "(f a, t)" x s'] s show "below J s' \<and> (\<lambda>(a, s). m (f a, s)) (apsnd h s) = (Inr x, apsnd h s')"
    by (simp add: sp)
qed

text \<open>One that looks there which way to go.\<close>

lemma carries_choice:
  assumes "carries (below J) (apsnd h) m" "carries (below J) (apsnd h) m'"
  shows "carries (below J) (apsnd h) (\<lambda>(a, s). if b a then m (a, s) else m' (a, s))"
proof (rule carriesI)
  fix s x s' assume s: "below J s" "(\<lambda>(a, s). if b a then m (a, s) else m' (a, s)) s = (Inr x, s')"
  obtain a t where sp: "s = (a, t)" by (cases s)
  from carriesD [OF assms(1), of s x s'] carriesD [OF assms(2), of s x s'] s
  show "below J s' \<and> (\<lambda>(a, s). if b a then m (a, s) else m' (a, s)) (apsnd h s) = (Inr x, apsnd h s')"
    by (simp add: sp split: if_splits)
qed

lemma carries_HashJoin:
  assumes "carries J h build" and "carries J h probe"
  shows "carries (below J) (apsnd h) (HashJoin_GetNext fuel build probe)"
proof -
  note probe = carries_ProbeNext [OF assms(2)]
  have "carries (below J) (apsnd h) (sbind (BuildPhase fuel build) (\<lambda>_ (hj, s). ProbeNext probe (hj\<lparr>hj_built := True\<rparr>, s)))"
    unfolding BuildPhase_def by (intro carries_sbind carries_own carries_drain probe assms(1))
  with probe show ?thesis unfolding HashJoin_GetNext_def by (rule carries_choice [rotated])
qed

lemma carries_Aggregation:
  assumes "carries J h child"
  shows "carries (below J) (apsnd h) (Aggregation_GetNext fuel child)"
  unfolding Aggregation_GetNext_def
proof (rule carries_sbind)
  have "carries (below J) (apsnd h) (Drain fuel child)"
    unfolding Drain_def Let_def by (intro carries_own carries_drain assms)
  moreover have "carries (below J) (apsnd h) (\<lambda>s. (Inr (), s))" by (rule carries_look) simp
  ultimately show "carries (below J) (apsnd h) (\<lambda>(ao, s). if \<not> ao_drained ao then Drain fuel child (ao, s) else (Inr (), (ao, s)))"
    by (rule carries_choice)
qed (auto intro!: carriesI split: sum.splits if_splits)

lemma carries_on_child:
  assumes "carries (below J) (apsnd h) m"
  shows "carries (below J) (apsnd h) (on_build m)" "carries (below J) (apsnd h) (on_probe m)"
proof -
  have "below J s' \<and> on_build m (apsnd h s) = (Inr x, apsnd h s')" if s: "below J s" "on_build m s = (Inr x, s')" for s x s'
  proof -
    obtain b p t where sp: "s = ((b, p), t)" by (metis prod.exhaust)
    with s(2) obtain b1 t1 where "m (b, t) = (Inr x, (b1, t1))" "s' = ((b1, p), t1)" by (auto simp: on_build_def split: prod.splits)
    with carriesD [OF assms _ this(1)] s(1) show ?thesis by (simp add: sp on_build_def)
  qed
  then show "carries (below J) (apsnd h) (on_build m)" by (rule carriesI)
  have "below J s' \<and> on_probe m (apsnd h s) = (Inr x, apsnd h s')" if s: "below J s" "on_probe m s = (Inr x, s')" for s x s'
  proof -
    obtain b p t where sp: "s = ((b, p), t)" by (metis prod.exhaust)
    with s(2) obtain p1 t1 where "m (p, t) = (Inr x, (p1, t1))" "s' = ((b, p1), t1)" by (auto simp: on_probe_def split: prod.splits)
    with carriesD [OF assms _ this(1)] s(1) show ?thesis by (simp add: sp on_probe_def)
  qed
  then show "carries (below J) (apsnd h) (on_probe m)" by (rule carriesI)
qed

lemma carries_Operator:
  assumes "more_pages dm dm'"
  shows "carries (below (clean_pool dm)) (apsnd (over dm')) (Operator_GetNext fuel)"
proof (induction fuel)
  case (Suc fuel)
  let ?J = "clean_pool dm" and ?h = "over dm'" and ?next = "Operator_GetNext fuel"
  have scan: "carries (below ?J) (apsnd ?h) SeqScan_GetNext" by (rule carries_SeqScan [OF assms])
  have filter: "carries (below ?J) (apsnd ?h) (Filter_GetNext ?next p)" for p
    unfolding Filter_chunkwise by (rule carries_chunkwise [OF Suc.IH])
  have project: "carries (below ?J) (apsnd ?h) (Projection_GetNext ?next es)" for es
    unfolding Projection_chunkwise by (rule carries_chunkwise [OF Suc.IH])
  have join: "carries (below (below ?J)) (apsnd (apsnd ?h)) (HashJoin_GetNext fuel (on_build ?next) (on_probe ?next))"
    by (rule carries_HashJoin) (rule carries_on_child [OF Suc.IH])+
  have aggregate: "carries (below (below ?J)) (apsnd (apsnd ?h)) (Aggregation_GetNext fuel ?next)"
    by (rule carries_Aggregation [OF Suc.IH])
  show ?case
  proof (rule carriesI)
    fix s x s' assume s: "below ?J s" "Operator_GetNext (Suc fuel) s = (Inr x, s')"
    obtain op pool where sp: "s = (op, pool)" by (cases s)
    show "below ?J s' \<and> Operator_GetNext (Suc fuel) (apsnd ?h s) = (Inr x, apsnd ?h s')"
    proof (cases op)
      case (SeqScanOp sc)
      with s sp obtain sc' pool' where "SeqScan_GetNext (sc, pool) = (Inr x, (sc', pool'))" "s' = (SeqScanOp sc', pool')"
        by (auto split: prod.splits)
      with carriesD [OF scan _ this(1)] s(1) sp SeqScanOp show ?thesis by simp
    next
      case (FilterOp child p)
      with s sp obtain c' pool' where "Filter_GetNext ?next p (child, pool) = (Inr x, (c', pool'))" "s' = (FilterOp c' p, pool')"
        by (auto split: prod.splits)
      with carriesD [OF filter _ this(1)] s(1) sp FilterOp show ?thesis by simp
    next
      case (HashJoinOp hj build probe)
      with s sp obtain hj' b' p' pool' where "HashJoin_GetNext fuel (on_build ?next) (on_probe ?next) (hj, ((build, probe), pool)) =
          (Inr x, (hj', ((b', p'), pool')))" "s' = (HashJoinOp hj' b' p', pool')"
        by (auto split: prod.splits)
      with carriesD [OF join _ this(1)] s(1) sp HashJoinOp show ?thesis by simp
    next
      case (AggregationOp ao child)
      with s sp obtain ao' c' pool' where "Aggregation_GetNext fuel ?next (ao, (child, pool)) = (Inr x, (ao', (c', pool')))"
        "s' = (AggregationOp ao' c', pool')"
        by (auto split: prod.splits)
      with carriesD [OF aggregate _ this(1)] s(1) sp AggregationOp show ?thesis by simp
    next
      case (ProjectionOp child es)
      with s sp obtain c' pool' where "Projection_GetNext ?next es (child, pool) = (Inr x, (c', pool'))" "s' = (ProjectionOp c' es, pool')"
        by (auto split: prod.splits)
      with carriesD [OF project _ this(1)] s(1) sp ProjectionOp show ?thesis by simp
    qed
  qed
qed (simp add: carries_def)

section \<open>The allocated pages\<close>

definition allocated :: "DiskManager \<Rightarrow> DiskManager" where
  "allocated dm = dm\<lparr>dm_file := take (next_free dm * kPageSizeBytes) (dm_file dm)\<rparr>"

lemma allocated_page: "dm_page (allocated dm) p = (if unat p < next_free dm then dm_page dm p else None)"
proof -
  have fits: "(unat p + 1) * kPageSizeBytes \<le> next_free dm * kPageSizeBytes \<longleftrightarrow> unat p < next_free dm"
    by (simp only: mult_le_cancel2) (auto simp: kPageSizeBytes_def)
  moreover have "page_slice (unat p) (take (next_free dm * kPageSizeBytes) bs) = page_slice (unat p) bs" if "unat p < next_free dm" for bs
  proof -
    have "kPageSizeBytes \<le> next_free dm * kPageSizeBytes - unat p * kPageSizeBytes"
      using fits that by simp
    then show ?thesis by (simp add: page_slice_def drop_take min_def)
  qed
  ultimately show ?thesis by (auto simp: dm_page_def allocated_def)
qed

lemma allocated_inv: "dm_inv dm \<Longrightarrow> dm_inv (allocated dm)"
proof -
  assume dm: "dm_inv dm"
  then have "1 \<le> next_free dm" by (simp add: dm_inv_def unat_gt_0 Suc_le_eq)
  then have "1 * kPageSizeBytes \<le> next_free dm * kPageSizeBytes" by (rule mult_le_mono1)
  then have "kSerializedSize \<le> next_free dm * kPageSizeBytes" by (simp add: kSerializedSize_def kPageSizeBytes_def)
  with dm show ?thesis by (simp add: dm_inv_def allocated_def min_def)
qed

lemma allocated_extends: "dm_inv dm \<Longrightarrow> extends dm (allocated dm)"
  by (simp add: extends_def allocated_inv allocated_page) (simp add: allocated_def)

lemma allocated_more: "dm_inv dm \<Longrightarrow> more_pages (allocated dm) dm"
  using allocated_inv [of dm] by (auto simp: more_pages_def dm_inv_def allocated_page split: if_splits)

lemma allocated_grows: "extends dm dm' \<Longrightarrow> pages_kept (allocated dm) (allocated dm')"
  by (auto simp: extends_def pages_kept_def allocated_page split: if_splits)

lemma groups_allocated: "dm_inv dm \<Longrightarrow> groups_stored dm rgs contents \<Longrightarrow> groups_stored (allocated dm) rgs contents"
  by (rule groups_stored_extends [OF _ allocated_extends])

lemma pages_extend: "dm_inv dm' \<Longrightarrow> pages_kept dm dm' \<Longrightarrow> dm_os dm' = dm_os dm \<Longrightarrow> next_free dm' = next_free dm \<Longrightarrow> extends dm dm'"
  by (simp add: extends_def pages_kept_def)

section \<open>The pool between statements\<close>

text \<open>Between statements the pool reads the pages of the disk, two frames can be taken, and no frame is dirty.\<close>

definition pool_rests :: "DiskManager \<Rightarrow> BufferPoolManager \<Rightarrow> bool" where
  "pool_rests dm bp = (pool_ready (dm_page dm) (bp, dm) \<and> clean_pool dm (bp, dm))"

lemma pool_rests_fresh:
  assumes "dm_inv dm" "2 \<le> frames" "frames \<le> 2 ^ 31"
  shows "pool_rests dm (MakeBufferPoolManager frames)"
  using pool_inv_empty [OF assms(1,3)] assms(2)
  by (simp add: pool_rests_def pool_ready_def spare_frames_def MakeBufferPoolManager_def clean_pool_def empty_frame_def list_all_iff)

lemma pool_rests_grows:
  assumes "pool_rests dm bp" "dm_inv dm'" "pages_kept dm dm'"
  shows "pool_rests dm' bp"
proof -
  have inv: "bp_inv bp" "coherent (bp, dm)" "clean_pool dm (bp, dm)" "spare_frames 2 (bp, dm)"
    using assms(1) by (simp_all add: pool_rests_def pool_ready_def pool_inv_def)
  have cached: "dm_page dm' (frame_page_id (meta_at bp f)) = Some (page_at bp f)" if f: "f \<in> used_frames bp" for f
  proof -
    have "valid_frame bp f" using bp_invD(8,9) [OF inv(1)] f by blast
    from clean_frame [OF inv(3) this] inv(2) f assms(3) show ?thesis
      by (auto simp: coherent_def pages_kept_def split: option.splits)
  qed
  then have "coherent (bp, dm')" by (simp add: coherent_def)
  moreover have "pool_page (bp, dm') = dm_page dm'"
    using cached bp_invD(3) [OF inv(1)] by (intro ext) (auto simp: pool_page_def split: option.splits)
  moreover have "clean_pool dm' (bp, dm')" "spare_frames 2 (bp, dm')"
    using inv(3,4) by (simp_all add: clean_pool_def spare_frames_def pins_def)
  ultimately show ?thesis using inv(1) assms(2) by (simp add: pool_rests_def pool_ready_def pool_inv_def)
qed

text \<open>A query reads the allocated pages and leaves the pool at rest.\<close>

lemma yields_allocated:
  assumes "yields (dm_page (allocated dm)) op ts rows" "dm_inv dm" "pool_rests (allocated dm) bp"
  obtains fuel cs op' bp' where "produces (Operator_GetNext fuel) (op, (bp, dm)) cs (op', (bp', dm))" "pool_rests (allocated dm) bp'"
    "\<And>c. c \<in> set cs \<Longrightarrow> chunk_inv c" "concat (map chunk_rows cs) = rows"
proof -
  let ?a = "allocated dm"
  have ready: "pool_ready (dm_page ?a) (bp, ?a)" "clean_pool ?a (bp, ?a)" using assms(3) by (simp_all add: pool_rests_def)
  from yieldsE [OF assms(1) ready(1)] obtain fuel cs op' pool where
    run: "produces (Operator_GetNext fuel) (op, (bp, ?a)) cs (op', pool)" "scan_kept (bp, ?a) pool"
    "\<And>c. c \<in> set cs \<Longrightarrow> chunk_inv c" "concat (map chunk_rows cs) = rows" by metis
  have clean: "clean_pool ?a pool"
    using produces_keeps [OF run(1) keeps_Operator [of ?a]] ready(2) by simp
  then obtain bp' where pool: "pool = (bp', ?a)" by (cases pool) (simp add: clean_pool_def)
  have "pool_rests ?a bp'" using pool_ready_kept [OF ready(1) run(2)] clean by (simp add: pool_rests_def pool)
  moreover have "produces (Operator_GetNext fuel) (op, (bp, dm)) cs (op', (bp', dm))"
    using produces_carried [OF run(1) carries_Operator [OF allocated_more [OF assms(2)]]] ready(2) by (simp add: pool)
  ultimately show thesis using that run(3,4) by blast
qed

end
