(* ===== verification/PushdownCorrect.thy ===== *)
theory PushdownCorrect
  imports PlanSemantics
begin

text \<open>
  Predicate pushdown: placing conjuncts into a plan filters its environments by them, and the
  plan that results resolves every reference by position. \<open>Rewrite\<close> therefore keeps the
  meaning of a well-formed plan.
\<close>

section \<open>What placing conjuncts leaves alone\<close>

lemma WrapInFilter_shape [simp]:
  "CollectBindingIds (WrapInFilter n cs) = CollectBindingIds n" "avail (WrapInFilter n cs) = avail n"
  "plain (WrapInFilter n cs) = plain n" "ungrouped (WrapInFilter n cs) = ungrouped n"
  by (auto simp: WrapInFilter_def MakeLogicalFilter_def)

lemma PlaceInto_Nil [simp]: "PlaceInto n [] = n"
  by (cases n) simp_all

lemma PlaceInto_ids [simp]: "CollectBindingIds (PlaceInto n cs) = CollectBindingIds n"
  by (induction n cs rule: PlaceInto.induct) (simp_all add: Let_def)

lemma PlaceInto_avail [simp]: "avail (PlaceInto n cs) = avail n"
  by (induction n cs rule: PlaceInto.induct) (auto simp: Let_def fun_eq_iff)

lemma PlaceInto_plain [simp]: "plain (PlaceInto n cs) = plain n"
  by (induction n cs rule: PlaceInto.induct) (simp_all add: Let_def)

lemma PlaceInto_ungrouped [simp]: "ungrouped (PlaceInto n cs) = ungrouped n"
  by (induction n cs rule: PlaceInto.induct) (simp_all add: Let_def)

lemma PlaceInto_not_projection: "\<not> is_projection n \<Longrightarrow> \<not> is_projection (PlaceInto n cs)"
  by (cases n) (simp_all add: Let_def WrapInFilter_def MakeLogicalFilter_def)

lemma Rewrite_shape [simp]:
  "CollectBindingIds (Rewrite n) = CollectBindingIds n" "avail (Rewrite n) = avail n"
  "plain (Rewrite n) = plain n" "ungrouped (Rewrite n) = ungrouped n"
  by (induction n) auto

lemma Rewrite_not_projection: "\<not> is_projection n \<Longrightarrow> plan_wf pl n \<Longrightarrow> \<not> is_projection (Rewrite n)"
  by (induction n) (auto dest: PlaceInto_not_projection)

section \<open>Groups\<close>

lemma group_keys_filter:
  assumes "gb \<noteq> []" and "\<And>e. e \<in> set envs \<Longrightarrow> P e = Q (group_key gb e)"
  shows "group_keys gb (filter P envs) = filter Q (group_keys gb envs)"
proof -
  have "filter P envs = filter (Q \<circ> group_key gb) envs" using assms(2) by (intro filter_cong) simp_all
  then have "map (group_key gb) (filter P envs) = filter Q (map (group_key gb) envs)" by (simp add: filter_map)
  then show ?thesis using assms(1) by (simp add: group_keys_def rev_filter remdups_filter)
qed

lemma group_env_filter:
  assumes "\<And>e. e \<in> set envs \<Longrightarrow> P e = Q (group_key gb e)" and "Q k"
  shows "group_env gb aggs (filter P envs) k = group_env gb aggs envs k"
proof -
  have "filter (\<lambda>e. group_key gb e = k) (filter P envs) = filter (\<lambda>e. group_key gb e = k) envs"
    unfolding filter_filter using assms by (intro filter_cong) auto
  then show ?thesis by (simp add: group_env_def group_cells_def cong: list.map_cong)
qed

lemma key_lookup_key:
  assumes "ref \<in> set gb" and "\<And>ref. ref \<in> set gb \<Longrightarrow> cr_table_id ref \<noteq> kAggregateOutputBindingId"
  shows "ref_cell (group_env gb aggs envs (group_key gb e)) ref = ref_cell e ref"
proof -
  let ?pos = "\<lambda>ref. (cr_table_id ref, cr_ordinal ref)"
  have "map_of (zip (map ?pos gb) (map (ref_cell e) gb)) (?pos ref) = Some (ref_cell e ref)"
    using assms(1) by (induction gb) (auto simp: ref_cell_def)
  with assms(2) [OF assms(1)] show ?thesis
    by (simp add: ref_cell_def group_env_def key_lookup_def group_key_def Let_def)
qed

lemma group_keys_mem:
  assumes "gb \<noteq> []" and "k \<in> set (group_keys gb envs)"
  obtains e where "e \<in> set envs" "k = group_key gb e"
  using assms by (auto simp: group_keys_def)

section \<open>Meaning\<close>

definition pass_all :: "BoundExpression list \<Rightarrow> env \<Rightarrow> bool" where
  "pass_all cs e = (\<forall>c \<in> set cs. env_passes c e)"

lemma pass_all_Nil [simp]: "pass_all [] = (\<lambda>_. True)"
  by (simp add: pass_all_def fun_eq_iff)

lemma WrapInFilter_envs: "plan_envs db (WrapInFilter n cs) = filter (pass_all cs) (plan_envs db n)"
  by (auto simp: WrapInFilter_def MakeLogicalFilter_def env_passes_rebuild pass_all_def intro: filter_cong)

lemma join_split:
  assumes "\<And>l r. l \<in> set ls \<Longrightarrow> r \<in> set rs \<Longrightarrow> P (join_env ids l r) \<longleftrightarrow> PL l \<and> PR r \<and> PS (join_env ids l r)"
  shows "filter P (concat (map (\<lambda>l. map (join_env ids l) (filter (K l) rs)) ls)) =
    filter PS (concat (map (\<lambda>l. map (join_env ids l) (filter (K l) (filter PR rs))) (filter PL ls)))"
proof -
  have row: "filter P (map (join_env ids l) (filter (K l) rs)) =
      (if PL l then filter PS (map (join_env ids l) (filter (K l) (filter PR rs))) else [])" if "l \<in> set ls" for l
    using assms [OF that] by (auto simp: filter_map comp_def filter_empty_conv intro!: arg_cong [where f = "map _"] filter_cong)
  have "filter P (concat (map f ls)) = filter PS (concat (map g (filter PL ls)))"
    if "\<And>l. l \<in> set ls \<Longrightarrow> filter P (f l) = (if PL l then filter PS (g l) else [])" for f g
    using that by (induction ls) auto
  from this [OF row] show ?thesis by simp
qed

lemma eligible_groups:
  assumes el: "list_all (\<lambda>c. ReferencesOnlyGroupByColumns c gb) cs" and gb: "list_all (avail n) gb"
    and n: "plan_wf pl n" "plain n" and some: "gb = [] \<Longrightarrow> cs = []"
  shows "map (group_env gb aggs (filter (pass_all cs) envs)) (group_keys gb (filter (pass_all cs) envs)) =
    filter (pass_all cs) (map (group_env gb aggs envs) (group_keys gb envs))"
proof (cases "gb = []")
  case False
  have ids: "cr_table_id ref \<noteq> kAggregateOutputBindingId" if "ref \<in> set gb" for ref
    using that gb plain_avail_ids [OF n(2), of ref] plan_ids_not_aggregate [OF n(1)] by (auto simp: list_all_iff)
  have refs: "ref_cell (group_env gb aggs envs (group_key gb e)) ref = ref_cell e ref"
    if c: "c \<in> set cs" "ref \<in> set (CollectColumnRefs c)" for c ref e
  proof -
    obtain key where key: "key \<in> set gb" "cr_table_id key = cr_table_id ref" "cr_ordinal key = cr_ordinal ref"
      using el c by (auto simp: ReferencesOnlyGroupByColumns_def list_all_iff list_ex_iff)
    from key_lookup_key [OF key(1) ids] key(2,3) show ?thesis by (simp add: ref_cell_def)
  qed
  let ?Q = "pass_all cs \<circ> group_env gb aggs envs"
  have "env_passes c (group_env gb aggs envs (group_key gb e)) = env_passes c e" if "c \<in> set cs" for c e
    by (rule env_passes_cong) (rule refs [OF that])
  then have Q: "pass_all cs e = ?Q (group_key gb e)" for e
    by (simp add: pass_all_def)
  have "group_keys gb (filter (pass_all cs) envs) = filter ?Q (group_keys gb envs)"
    by (rule group_keys_filter [OF False]) (rule Q)
  moreover have "map (group_env gb aggs (filter (pass_all cs) envs)) (filter ?Q (group_keys gb envs)) =
      map (group_env gb aggs envs) (filter ?Q (group_keys gb envs))"
  proof (intro map_cong refl)
    fix k assume "k \<in> set (filter ?Q (group_keys gb envs))"
    then have "?Q k" by simp
    from group_env_filter [where Q = ?Q, OF Q this]
    show "group_env gb aggs (filter (pass_all cs) envs) k = group_env gb aggs envs k" .
  qed
  ultimately show ?thesis by (simp add: filter_map)
qed (use some in simp)

lemma AllColumnsAvailable_left:
  "AllColumnsAvailable c ids \<Longrightarrow> env_passes c (join_env ids l r) = env_passes c l"
  by (rule env_passes_cong) (auto simp: AllColumnsAvailable_def list_all_iff join_env_def ref_cell_def)

lemma AllColumnsAvailable_right:
  "AllColumnsAvailable c rids \<Longrightarrow> set ids \<inter> set rids = {} \<Longrightarrow> env_passes c (join_env ids l r) = env_passes c r"
  by (rule env_passes_cong) (auto simp: AllColumnsAvailable_def list_all_iff join_env_def ref_cell_def)

theorem PlaceInto_envs:
  assumes "plan_wf pl n" and "ungrouped n \<Longrightarrow> list_all (\<lambda>c. CollectColumnRefs c \<noteq> []) cs"
  shows "plan_envs db (PlaceInto n cs) = filter (pass_all cs) (plan_envs db n)"
  using assms
proof (induction n cs rule: PlaceInto.induct)
  case (1 scan cs)
  then show ?case by (simp add: WrapInFilter_envs)
next
  case (2 input p cs)
  show ?case
    by (auto simp: env_passes_rebuild pass_all_def conj_commute intro: filter_cong)
next
  case (3 left right conds cs)
  show ?case
  proof (cases "cs = []")
    case False
    let ?li = "CollectBindingIds left" and ?ri = "CollectBindingIds right"
    let ?L = "filter (\<lambda>c. AllColumnsAvailable c ?li) cs"
    let ?R = "filter (\<lambda>c. \<not> AllColumnsAvailable c ?li \<and> AllColumnsAvailable c ?ri) cs"
    let ?S = "filter (\<lambda>c. \<not> AllColumnsAvailable c ?li \<and> \<not> AllColumnsAvailable c ?ri) cs"
    have wf: "plan_wf pl left" "plan_wf pl right" "\<not> ungrouped left" "\<not> ungrouped right" "set ?li \<inter> set ?ri = {}"
      using "3.prems"(1) plain_not_ungrouped by auto
    note IH = "3.IH"(1) [OF False refl refl refl refl refl wf(1)] "3.IH"(2) [OF False refl refl refl refl refl wf(2)]
    have "pass_all cs (join_env ?li l r) \<longleftrightarrow> pass_all ?L l \<and> pass_all ?R r \<and> pass_all ?S (join_env ?li l r)" for l r
      using AllColumnsAvailable_left [of _ ?li l r] AllColumnsAvailable_right [OF _ wf(5), of _ l r]
      unfolding pass_all_def by (simp add: ball_conj_distrib) blast
    from join_split [of "plan_envs db left" "plan_envs db right" "pass_all cs" ?li "pass_all ?L" "pass_all ?R" "pass_all ?S"
        "keys_match ?li conds", OF this]
    show ?thesis using False IH wf(3,4) by (simp add: Let_def WrapInFilter_envs)
  qed simp
next
  case (4 input gb aggs cols cs)
  show ?case
  proof (cases "cs = []")
    case False
    let ?E = "filter (\<lambda>c. ReferencesOnlyGroupByColumns c gb) cs" and ?I = "filter (\<lambda>c. \<not> ReferencesOnlyGroupByColumns c gb) cs"
    have wf: "plan_wf pl input" "plain input" "list_all (avail input) gb" using "4.prems"(1) by simp_all
    have "?E = []" if "gb = []"
      using "4.prems"(2) that by (auto simp: ReferencesOnlyGroupByColumns_def list_all_iff filter_empty_conv)
    note groups = eligible_groups [OF _ wf(3,1,2) this, of aggs "plan_envs db input"]
    note IH = "4.IH" [OF False refl refl wf(1)]
    have "pass_all cs e \<longleftrightarrow> pass_all ?I e \<and> pass_all ?E e" for e by (auto simp: pass_all_def)
    moreover have "list_all (\<lambda>c. ReferencesOnlyGroupByColumns c gb) ?E" by (simp add: list_all_iff)
    ultimately show ?thesis
      using False IH groups plain_not_ungrouped [OF wf(2)] by (simp add: Let_def WrapInFilter_envs conj_commute)
  qed simp
next
  case (5 input es cols cs)
  show ?case
  proof (cases "cs = []")
    case False
    with "5.IH" [OF False] "5.prems" show ?thesis by simp
  qed simp
qed

lemma filter_conjuncts_refs:
  "plan_wf pl (FilterNode input p) \<Longrightarrow> ungrouped input \<Longrightarrow> list_all (\<lambda>c. CollectColumnRefs c \<noteq> []) (ExtractConjuncts p)"
  by (auto simp: list_all_iff conjunct_ok_def)

section \<open>Well-formedness\<close>

abbreviation atomic :: "BoundExpression \<Rightarrow> bool" where
  "atomic c \<equiv> ExtractConjuncts c = [c]"

lemma ExtractConjuncts_atomic: "c \<in> set (ExtractConjuncts e) \<Longrightarrow> atomic c"
  by (induction e) (auto split: if_splits)

lemma ExtractConjuncts_rebuild:
  "cs \<noteq> [] \<Longrightarrow> ExtractConjuncts (RebuildConjunction cs) = concat (map ExtractConjuncts cs)"
proof (induction cs rule: rev_induct)
  case (snoc c cs)
  then show ?case by (cases "cs = []") (simp_all add: RebuildConjunction_snoc)
qed simp

lemma concat_atomic: "list_all atomic cs \<Longrightarrow> concat (map ExtractConjuncts cs) = cs"
  by (induction cs) simp_all

lemma WrapInFilter_wf:
  assumes "plan_wf True n" and "\<not> is_projection n" and "list_all (conjunct_ok True n) cs" and "list_all atomic cs"
  shows "plan_wf True (WrapInFilter n cs)"
  using assms by (simp add: WrapInFilter_def MakeLogicalFilter_def ExtractConjuncts_rebuild concat_atomic)

text \<open>Where a conjunct can go: a side of a join, or below the grouping.\<close>

lemma conjunct_side:
  assumes "conjunct_ok False (JoinNode left right conds) c" and "AllColumnsAvailable c (CollectBindingIds left)"
    and "plain left" "plain right" and "set (CollectBindingIds left) \<inter> set (CollectBindingIds right) = {}"
  shows "conjunct_ok pl left c"
proof -
  have "avail left ref" if "ref \<in> set (CollectColumnRefs c)" for ref
    using that assms plain_avail_ids [OF assms(4), of ref]
    by (auto simp: conjunct_ok_def all_avail_def AllColumnsAvailable_def list_all_iff)
  then show ?thesis
    using assms(1) plain_not_ungrouped [OF assms(3)] by (simp add: conjunct_ok_def all_avail_def list_all_iff)
qed

lemma conjunct_ok_swap:
  "conjunct_ok pl (JoinNode left right conds) c = conjunct_ok pl (JoinNode right left conds) c"
  by (auto simp: conjunct_ok_def all_avail_def list_all_iff)

lemma conjunct_below_group:
  assumes "conjunct_ok False (AggregateNode input gb aggs cols) c" and "ReferencesOnlyGroupByColumns c gb"
    and "plan_wf True input" "plain input" "list_all (avail input) gb"
  shows "conjunct_ok pl input c"
proof -
  have "avail input ref" if ref: "ref \<in> set (CollectColumnRefs c)" for ref
  proof -
    obtain key where key: "key \<in> set gb" "cr_table_id key = cr_table_id ref"
      using assms(2) ref by (auto simp: ReferencesOnlyGroupByColumns_def list_all_iff list_ex_iff)
    then have "cr_table_id ref \<noteq> kAggregateOutputBindingId"
      using assms(5) plain_avail_ids [OF assms(4), of key] plan_ids_not_aggregate [OF assms(3)] by (auto simp: list_all_iff)
    then have "ref \<in> set gb"
      using assms(1) ref by (auto simp: conjunct_ok_def all_avail_def list_all_iff)
    with assms(5) show ?thesis by (simp add: list_all_iff)
  qed
  then show ?thesis
    using assms(1) plain_not_ungrouped [OF assms(4)] by (simp add: conjunct_ok_def all_avail_def list_all_iff)
qed

lemma conjunct_above_group:
  assumes "conjunct_ok False (AggregateNode input gb aggs cols) c" and "\<not> ReferencesOnlyGroupByColumns c gb"
  shows "conjunct_ok True (AggregateNode input gb aggs cols) c"
  using assms by (auto simp: conjunct_ok_def ReferencesOnlyGroupByColumns_def list_all_iff list_ex_iff)

lemma conjunct_ok_same:
  assumes "conjunct_ok pl n c" and "avail n' = avail n" and "ungrouped n' = ungrouped n"
    and "grouping_columns n = [] \<or> grouping_columns n' = grouping_columns n"
  shows "conjunct_ok pl n' c"
  using assms by (auto simp: conjunct_ok_def all_avail_def)

lemma plain_placed: "conjunct_ok False n c \<Longrightarrow> grouping_columns n = [] \<Longrightarrow> conjunct_ok True n c"
  by (auto simp: conjunct_ok_def all_avail_def)

lemma filter_list_all: "list_all P xs \<Longrightarrow> list_all P (filter Q xs)"
  by (simp add: list_all_iff)

theorem PlaceInto_wf:
  assumes "plan_wf True n" and "\<not> is_projection n" and "list_all (conjunct_ok False n) cs" and "list_all atomic cs"
  shows "plan_wf True (PlaceInto n cs)"
  using assms
proof (induction n cs rule: PlaceInto.induct)
  case (1 scan cs)
  then show ?case by (auto intro!: WrapInFilter_wf elim!: list.pred_mono_strong intro: plain_placed)
next
  case (2 input p cs)
  have "conjunct_ok True input c" if "c \<in> set cs" for c
    by (rule conjunct_ok_same [OF plain_placed [of "FilterNode input p"]])
      (use "2.prems"(3) that in \<open>simp_all add: list_all_iff fun_eq_iff\<close>)
  with 2 show ?case
    by (simp add: ExtractConjuncts_rebuild concat_atomic) (simp add: list_all_iff)
next
  case (3 left right conds cs)
  show ?case
  proof (cases "cs = []")
    case False
    let ?li = "CollectBindingIds left" and ?ri = "CollectBindingIds right"
    have wf: "plan_wf True left" "plan_wf True right" "plain left" "plain right" "set ?li \<inter> set ?ri = {}"
      "list_all (condition_ok left right) conds" using "3.prems"(1) by simp_all
    have np: "\<not> is_projection left" "\<not> is_projection right" using wf(3,4) by (cases left; cases right; simp)+
    have ok: "conjunct_ok False (JoinNode left right conds) c" "atomic c" if "c \<in> set cs" for c
      using that "3.prems"(3,4) by (simp_all add: list_all_iff)
    have L: "plan_wf True (PlaceInto left (filter (\<lambda>c. AllColumnsAvailable c ?li) cs))"
      using "3.IH"(1) [OF False refl refl refl refl refl wf(1) np(1)] ok conjunct_side [OF ok(1) _ wf(3,4,5)]
      by (simp add: list_all_iff)
    have R: "plan_wf True (PlaceInto right (filter (\<lambda>c. \<not> AllColumnsAvailable c ?li \<and> AllColumnsAvailable c ?ri) cs))"
      using "3.IH"(2) [OF False refl refl refl refl refl wf(2) np(2)] ok
        conjunct_side [OF conjunct_ok_swap [THEN iffD1, OF ok(1)] _ wf(4,3)] wf(5)
      by (simp add: list_all_iff Int_commute)
    have S: "conjunct_ok True n' c" if "c \<in> set cs" "avail n' = avail (JoinNode left right conds)" "\<not> ungrouped n'"
      for c n'
      using plain_placed [OF ok(1) [OF that(1)]] that(2,3) by (auto simp: conjunct_ok_def all_avail_def)
    have "condition_ok (PlaceInto left x) (PlaceInto right y) = condition_ok left right" for x y
      by (simp add: condition_ok_def fun_eq_iff)
    with False L R S wf ok(2) show ?thesis
      by (auto simp: Let_def list_all_iff plain_not_ungrouped fun_eq_iff intro!: WrapInFilter_wf)
  qed (use "3.prems" in simp)
next
  case (4 input gb aggs cols cs)
  show ?case
  proof (cases "cs = []")
    case False
    have wf: "plan_wf True input" "plain input" "list_all (avail input) gb" "list_all (call_ok input) aggs"
      using "4.prems"(1) by simp_all
    have np: "\<not> is_projection input" using wf(2) by (cases input) simp_all
    have ok: "conjunct_ok False (AggregateNode input gb aggs cols) c" "atomic c" if "c \<in> set cs" for c
      using that "4.prems"(3,4) by (simp_all add: list_all_iff)
    have I: "plan_wf True (PlaceInto input (filter (\<lambda>c. ReferencesOnlyGroupByColumns c gb) cs))"
      using "4.IH" [OF False refl refl wf(1) np] ok conjunct_below_group [OF ok(1) _ wf(1,2,3)]
      by (simp add: list_all_iff)
    have "call_ok (PlaceInto input x) = call_ok input" for x by (simp add: call_ok_def fun_eq_iff split: option.split)
    moreover have "conjunct_ok True (AggregateNode (PlaceInto input x) gb aggs cols) c"
      if "c \<in> set cs" "\<not> ReferencesOnlyGroupByColumns c gb" for c x
      by (rule conjunct_ok_same [OF conjunct_above_group [OF ok(1) [OF that(1)] that(2)]]) (auto simp: fun_eq_iff)
    ultimately show ?thesis
      using False I wf ok(2) by (auto simp: Let_def list_all_iff intro!: WrapInFilter_wf)
  qed (use "4.prems" in simp)
qed simp

theorem Rewrite_wf:
  assumes "plan_wf False n"
  shows "plan_wf True (Rewrite n)"
  using assms
proof (induction n)
  case (FilterNode input p)
  have "grouping_columns input = [] \<or> grouping_columns (Rewrite input) = grouping_columns input" by (cases input) simp_all
  then have "list_all (conjunct_ok False (Rewrite input)) (ExtractConjuncts p)"
    using FilterNode.prems by (auto simp: list_all_iff intro: conjunct_ok_same)
  with FilterNode show ?case
    by (auto simp: list_all_iff intro!: PlaceInto_wf ExtractConjuncts_atomic dest: Rewrite_not_projection)
next
  case (JoinNode left right conds)
  have "condition_ok (Rewrite left) (Rewrite right) = condition_ok left right" by (simp add: condition_ok_def fun_eq_iff)
  with JoinNode show ?case by simp
next
  case (AggregateNode input gb aggs cols)
  have "call_ok (Rewrite input) = call_ok input" by (simp add: call_ok_def fun_eq_iff split: option.split)
  with AggregateNode show ?case by simp
next
  case (ProjectionNode input es cols)
  have "output_ok (Rewrite input) = output_ok input" by (simp add: output_ok_def all_avail_def fun_eq_iff)
  with ProjectionNode show ?case by (auto dest: Rewrite_not_projection)
qed simp

theorem Rewrite_envs:
  assumes "plan_wf False n"
  shows "plan_envs db (Rewrite n) = plan_envs db n"
  using assms
proof (induction n)
  case (FilterNode input p)
  have "plan_envs db (Rewrite (FilterNode input p)) = filter (pass_all (ExtractConjuncts p)) (plan_envs db (Rewrite input))"
    using FilterNode.prems Rewrite_wf [of input] filter_conjuncts_refs [OF FilterNode.prems]
    by (simp, intro PlaceInto_envs) auto
  with FilterNode show ?case by (auto simp: pass_all_def env_passes_extract [of p] intro: filter_cong)
qed (auto simp: Let_def)

end
