(* ===== verification/PruningCorrect.thy ===== *)
theory PruningCorrect
  imports PlanSemantics
begin

text \<open>
  Column pruning and column positions. \<open>layout\<close> is the order in which the columns of a plan
  arrive at run time, which is what \<open>FindColumnPosition\<close> computes positions in: a scan yields
  its required columns, a hash join the columns of its right (build) side before those of its
  left (probe) side, an aggregation its keys and then its aggregates. Pruning keeps every
  column that some operator names, so that no position is ever missing.
\<close>

section \<open>Layout\<close>

fun layout :: "LogicalPlanNode \<Rightarrow> (uint32 \<times> uint32) list" where
  "layout (ScanNode scan) = map (Pair (ls_binding_id scan)) (ls_required_ordinals scan)"
| "layout (FilterNode input p) = layout input"
| "layout (JoinNode left right conds) = layout right @ layout left"
| "layout (AggregateNode input gb aggs cols) =
     map (\<lambda>i. (kAggregateOutputBindingId, word_of_nat i)) [0..<length gb + length aggs]"
| "layout (ProjectionNode input es cols) = []"

fun layout_types :: "LogicalPlanNode \<Rightarrow> TypeId list" where
  "layout_types (ScanNode scan) = map (\<lambda>i. type_of (oc_type (ls_output_columns scan ! unat i))) (ls_required_ordinals scan)"
| "layout_types (FilterNode input p) = layout_types input"
| "layout_types (JoinNode left right conds) = layout_types right @ layout_types left"
| "layout_types (AggregateNode input gb aggs cols) = aggregate_out_types gb aggs"
| "layout_types (ProjectionNode input es cols) = []"

fun ordinals_ok :: "LogicalPlanNode \<Rightarrow> bool" where
  "ordinals_ok (ScanNode scan) =
     list_all (\<lambda>i. unat i < length (ls_output_columns scan)) (ls_required_ordinals scan)"
| "ordinals_ok (FilterNode input p) = ordinals_ok input"
| "ordinals_ok (JoinNode left right conds) = (ordinals_ok left \<and> ordinals_ok right)"
| "ordinals_ok (AggregateNode input gb aggs cols) =
     (ordinals_ok input \<and> length gb + length aggs < 2 ^ 32)"
| "ordinals_ok (ProjectionNode input es cols) = ordinals_ok input"

definition located :: "LogicalPlanNode \<Rightarrow> BoundColumnRef \<Rightarrow> bool" where
  "located n ref = ((cr_table_id ref, cr_ordinal ref) \<in> set (layout n))"

lemma length_aggregate_out_types [simp]: "length (aggregate_out_types gb aggs) = length gb + length aggs"
  by (simp add: aggregate_out_types_def)

lemma length_layout_types [simp]: "length (layout_types n) = length (layout n)"
  by (induction n) simp_all

lemma plain_layout_ids: "plain n \<Longrightarrow> (b, i) \<in> set (layout n) \<Longrightarrow> b \<in> set (CollectBindingIds n)"
  by (induction n) auto

lemma PhysicalOutputSchema_layout:
  assumes "plain n" and "plan_wf pl n" and "ordinals_ok n"
  shows "PhysicalOutputSchema n = Inr (layout_types n)"
  using assms
proof (induction n)
  case (ScanNode scan)
  have type: "ToTypeId t = Inr (type_of t)" if "t \<noteq> etBoolean" for t using that by (cases t) simp_all
  have column: "oc_type (ls_output_columns scan ! i) \<noteq> etBoolean" if "i < length (ls_output_columns scan)" for i
    using that ScanNode.prems(2) by (simp add: list_all_length)
  have "rmap (\<lambda>i. rbind (vec_at (ls_output_columns scan) (unat i)) (\<lambda>c. ToTypeId (oc_type c))) os =
      Inr (map (\<lambda>i. type_of (oc_type (ls_output_columns scan ! unat i))) os)"
    if "list_all (\<lambda>i. unat i < length (ls_output_columns scan)) os" for os
    using that by (induction os) (simp_all add: type column)
  with ScanNode.prems show ?case by simp
qed simp_all

lemma index_of_nth: "x \<in> set xs \<Longrightarrow> \<exists>i. index_of x xs = Some i \<and> i < length xs \<and> xs ! i = x"
  by (induction xs) force+

lemma type_of_ToExpressionType [simp]: "type_of (ToExpressionType t) = t"
  by (cases t) simp_all

text \<open>A column that is present is found, at a position that has its type.\<close>

theorem FindColumnPosition_located:
  assumes "plan_wf pl n" and "ordinals_ok n" and "avail n ref" and "located n ref"
  obtains i where "FindColumnPosition n ref = Inr i" "i < length (layout n)"
    "layout n ! i = (cr_table_id ref, cr_ordinal ref)" "layout_types n ! i = cr_type ref"
proof -
  have "\<exists>i. FindColumnPosition n ref = Inr i \<and> i < length (layout n) \<and>
      layout n ! i = (cr_table_id ref, cr_ordinal ref) \<and> layout_types n ! i = cr_type ref"
    using assms
  proof (induction n)
    case (ScanNode scan)
    then have "cr_ordinal ref \<in> set (ls_required_ordinals scan)" by (auto simp: located_def)
    from index_of_nth [OF this] ScanNode.prems(3) show ?case by auto
  next
    case (FilterNode input p)
    then show ?case by (simp add: located_def)
  next
    case (JoinNode left right conds)
    then have wf: "plan_wf pl left" "plan_wf pl right" "plain left" "plain right"
      "set (CollectBindingIds left) \<inter> set (CollectBindingIds right) = {}" "ordinals_ok left" "ordinals_ok right" by simp_all
    have loc: "(cr_table_id ref, cr_ordinal ref) \<in> set (layout left) \<union> set (layout right)"
      using JoinNode.prems(4) by (auto simp: located_def)
    show ?case
    proof (cases "cr_table_id ref \<in> set (CollectBindingIds left)")
      case True
      then have "avail left ref" "located left ref"
        using JoinNode.prems(3) loc wf(5) plain_avail_ids [OF wf(4), of ref] plain_layout_ids [OF wf(4), of "cr_table_id ref" "cr_ordinal ref"]
        by (auto simp: located_def)
      then obtain i where i: "FindColumnPosition left ref = Inr i" "i < length (layout left)"
        "layout left ! i = (cr_table_id ref, cr_ordinal ref)" "layout_types left ! i = cr_type ref"
        using JoinNode.IH(1) wf(1,6) by blast
      with True PhysicalOutputSchema_layout [OF wf(4,2,7)] show ?thesis
        by (intro exI [of _ "length (layout right) + i"]) (simp add: nth_append)
    next
      case False
      then have "avail right ref" "located right ref"
        using JoinNode.prems(3) loc plain_avail_ids [OF wf(3), of ref] plain_layout_ids [OF wf(3), of "cr_table_id ref" "cr_ordinal ref"]
        by (auto simp: located_def)
      then obtain i where i: "FindColumnPosition right ref = Inr i" "i < length (layout right)"
        "layout right ! i = (cr_table_id ref, cr_ordinal ref)" "layout_types right ! i = cr_type ref"
        using JoinNode.IH(2) wf(2,7) by blast
      with False show ?thesis by (intro exI [of _ i]) (simp add: nth_append)
    qed
  next
    case (AggregateNode input gb aggs cols)
    let ?i = "unat (cr_ordinal ref)"
    have i: "?i < length gb + length aggs" "cr_table_id ref = kAggregateOutputBindingId"
      "aggregate_out_types gb aggs ! ?i = cr_type ref"
      using AggregateNode.prems(3) by (simp_all only: avail.simps length_aggregate_out_types)
    then have "layout (AggregateNode input gb aggs cols) ! ?i = (cr_table_id ref, cr_ordinal ref)" by simp
    with i show ?case by (intro exI [of _ ?i] conjI) (simp_all del: upt_add_eq_append)
  next
    case (ProjectionNode input es cols)
    then show ?case by simp
  qed
  then show thesis using that by blast
qed

section \<open>Pruning\<close>

lemma Propagate_shape [simp]:
  "CollectBindingIds (Propagate n req) = CollectBindingIds n" "avail (Propagate n req) = avail n"
  "plain (Propagate n req) = plain n" "ungrouped (Propagate n req) = ungrouped n"
  "is_projection (Propagate n req) = is_projection n" "grouping_columns (Propagate n req) = grouping_columns n"
  by (induction n arbitrary: req) (auto simp: Let_def fun_eq_iff)

lemma Propagate_wf [simp]: "plan_wf pl (Propagate n req) = plan_wf pl n"
proof (induction n arbitrary: req)
  case (FilterNode input p)
  have "conjunct_ok pl (Propagate input r) = conjunct_ok pl input" for r by (simp add: conjunct_ok_def all_avail_def fun_eq_iff)
  with FilterNode show ?case by simp
next
  case (JoinNode left right conds)
  have "condition_ok (Propagate left x) (Propagate right y) = condition_ok left right" for x y
    by (simp add: condition_ok_def fun_eq_iff)
  with JoinNode show ?case by (simp add: Let_def)
next
  case (AggregateNode input gb aggs cols)
  have "call_ok (Propagate input r) = call_ok input" for r by (simp add: call_ok_def fun_eq_iff split: option.split)
  with AggregateNode show ?case by simp
next
  case (ProjectionNode input es cols)
  have "output_ok (Propagate input r) = output_ok input" for r by (simp add: output_ok_def all_avail_def fun_eq_iff)
  with ProjectionNode show ?case by simp
qed simp

lemma Propagate_envs [simp]: "plan_envs db (Propagate n req) = plan_envs db n"
  by (induction n arbitrary: req) (simp_all add: Let_def)

text \<open>Every column that an operator names is in the layout of its input.\<close>

definition call_refs :: "AggregateCall list \<Rightarrow> BoundColumnRef list" where
  "call_refs aggs = concat (map (\<lambda>agg. case ac_argument agg of None \<Rightarrow> [] | Some argument \<Rightarrow> [argument]) aggs)"

fun covered :: "LogicalPlanNode \<Rightarrow> bool" where
  "covered (ScanNode scan) = True"
| "covered (FilterNode input p) = (covered input \<and> list_all (located input) (CollectColumnRefs p))"
| "covered (JoinNode left right conds) = (covered left \<and> covered right \<and>
     list_all (\<lambda>cond. located left (fst (sides (CollectBindingIds left) cond)) \<and>
       located right (snd (sides (CollectBindingIds left) cond))) conds)"
| "covered (AggregateNode input gb aggs cols) = (covered input \<and> list_all (located input) (gb @ call_refs aggs))"
| "covered (ProjectionNode input es cols) = (covered input \<and> list_all (\<lambda>e. list_all (located input) (CollectColumnRefs e)) es)"

lemma call_refs_avail: "list_all (call_ok n) aggs \<Longrightarrow> list_all (avail n) (call_refs aggs)"
  by (induction aggs) (auto simp: call_refs_def call_ok_def split: option.splits)

lemma sides_avail:
  assumes "condition_ok left right cond" and "plain left" "plain right"
    and "set (CollectBindingIds left) \<inter> set (CollectBindingIds right) = {}"
  shows "avail left (fst (sides (CollectBindingIds left) cond))" "avail right (snd (sides (CollectBindingIds left) cond))"
  using assms plain_avail_ids [OF assms(2), of "fst cond"] plain_avail_ids [OF assms(3), of "fst cond"]
  by (auto simp: condition_ok_def sides_def split: prod.splits)

lemma sides_cases: "cond = (a, b) \<Longrightarrow> {fst (sides ids cond), snd (sides ids cond)} = {a, b}"
  by (auto simp: sides_def)

lemma filter_refs_avail:
  assumes "plan_wf True (FilterNode input p)"
  shows "list_all (avail input) (CollectColumnRefs p)"
  using assms ExtractConjuncts_refs [of p] by (auto simp: list_all_iff conjunct_ok_def all_avail_def)

fun aggregates_small :: "LogicalPlanNode \<Rightarrow> bool" where
  "aggregates_small (AggregateNode input gb aggs cols) = (length gb + length aggs < 2 ^ 32)"
| "aggregates_small (FilterNode input p) = aggregates_small input"
| "aggregates_small (ProjectionNode input es cols) = aggregates_small input"
| "aggregates_small _ = True"

theorem Propagate_covers:
  assumes "plan_wf True n" and "aggregates_small n" and "list_all (avail n) req"
  shows "covered (Propagate n req) \<and> ordinals_ok (Propagate n req) \<and> list_all (located (Propagate n req)) req"
  using assms
proof (induction n arbitrary: req)
  case (ScanNode scan)
  then show ?case by (auto simp: located_def sorted_unique_def list_all_iff)
next
  case (FilterNode input p)
  have "list_all (avail input) (req @ CollectColumnRefs p)"
    using FilterNode.prems(3) filter_refs_avail [OF FilterNode.prems(1)] by (auto simp: list_all_iff)
  from FilterNode.IH [OF _ _ this] FilterNode.prems show ?case by (auto simp: located_def list_all_iff)
next
  case (JoinNode left right conds)
  let ?li = "CollectBindingIds left" and ?ri = "CollectBindingIds right"
  define all where "all = req @ concat (map (\<lambda>(a, b). [a, b]) conds)"
  let ?L = "filter (\<lambda>ref. cr_table_id ref \<in> set ?li) all"
  let ?R = "filter (\<lambda>ref. cr_table_id ref \<notin> set ?li \<and> cr_table_id ref \<in> set ?ri) all"
  have wf: "plan_wf True left" "plan_wf True right" "plain left" "plain right" "set ?li \<inter> set ?ri = {}"
    "list_all (condition_ok left right) conds" using JoinNode.prems by simp_all
  have small: "aggregates_small left" "aggregates_small right"
    using wf(3,4) by (induction left, simp_all) (use wf(4) in \<open>induction right, simp_all\<close>)
  have avail: "avail left ref \<or> avail right ref" if "ref \<in> set all" for ref
    using that JoinNode.prems(3) wf(6) by (fastforce simp: all_def list_all_iff condition_ok_def)
  have L: "list_all (avail left) ?L" using avail plain_avail_ids [OF wf(4)] wf(5) by (fastforce simp: list_all_iff)
  have R: "list_all (avail right) ?R" using avail plain_avail_ids [OF wf(3)] by (fastforce simp: list_all_iff)
  note IL = JoinNode.IH(1) [OF wf(1) small(1) L] and IR = JoinNode.IH(2) [OF wf(2) small(2) R]
  have loc: "located (Propagate left ?L) ref" if "ref \<in> set all" "avail left ref" for ref
    using IL that plain_avail_ids [OF wf(3)] by (auto simp: list_all_iff)
  have loc': "located (Propagate right ?R) ref" if "ref \<in> set all" "avail right ref" for ref
    using IR that plain_avail_ids [OF wf(4), of ref] wf(5) by (auto simp: list_all_iff)
  have keys: "located (Propagate left ?L) (fst (sides ?li cond)) \<and> located (Propagate right ?R) (snd (sides ?li cond))"
    if "cond \<in> set conds" for cond
  proof -
    have ok: "condition_ok left right cond" using that wf(6) by (simp add: list_all_iff)
    have "{fst cond, snd cond} \<subseteq> set all" using that by (cases cond rule: prod.exhaust) (auto simp: all_def)
    then have "fst (sides ?li cond) \<in> set all \<and> snd (sides ?li cond) \<in> set all"
      by (auto simp: sides_def split: prod.splits)
    with loc [OF _ sides_avail(1) [OF ok wf(3-5)]] loc' [OF _ sides_avail(2) [OF ok wf(3-5)]] show ?thesis by simp
  qed
  have "located (JoinNode (Propagate left ?L) (Propagate right ?R) conds) ref" if "ref \<in> set req" for ref
    using avail [of ref] loc [of ref] loc' [of ref] that by (auto simp: located_def all_def)
  with IL IR keys show ?case unfolding all_def by (simp only: Propagate.simps Let_def) (simp add: list_all_iff)
next
  case (AggregateNode input gb aggs cols)
  have req: "list_all (avail input) (gb @ call_refs aggs)"
    using AggregateNode.prems(1) call_refs_avail [of input aggs] by simp
  have "plain input" using AggregateNode.prems(1) by simp
  then have "aggregates_small input" by (induction input) simp_all
  from AggregateNode.IH [OF _ this req] AggregateNode.prems
  have "covered (Propagate input (gb @ call_refs aggs)) \<and> ordinals_ok (Propagate input (gb @ call_refs aggs)) \<and>
      list_all (located (Propagate input (gb @ call_refs aggs))) (gb @ call_refs aggs)" by simp
  moreover have "located (AggregateNode i gb aggs cols) ref" if "ref \<in> set req" for ref i
    using AggregateNode.prems(3) that
    by (auto simp: located_def list_all_iff intro!: image_eqI [where x = "unat (cr_ordinal ref)"])
  ultimately show ?case using AggregateNode.prems(2) by (simp add: list_all_iff call_refs_def)
next
  case (ProjectionNode input es cols)
  have "list_all (avail input) (concat (map CollectColumnRefs es))"
    using ProjectionNode.prems(1) by (auto simp: list_all_iff output_ok_def all_avail_def)
  from ProjectionNode.IH [OF _ _ this] ProjectionNode.prems show ?case by (auto simp: list_all_iff)
qed

end
