(* ===== verification/QueryCorrect.thy ===== *)
theory QueryCorrect
  imports PushdownCorrect PruningCorrect OperatorTree
begin

text \<open>
  The composition: the operator tree that the optimizer makes of a well-formed plan returns
  the rows the plan denotes. \<open>scan_ok\<close> says that a table of the plan is stored in the file,
  \<open>plan_fits\<close> that intermediate results stay within the limits of the operators.
\<close>

section \<open>Rows of environments\<close>

definition env_row :: "LogicalPlanNode \<Rightarrow> env \<Rightarrow> cell list" where
  "env_row n env = map (\<lambda>(b, i). env b i) (layout n)"

lemma length_env_row [simp]: "length (env_row n env) = length (layout n)"
  by (simp add: env_row_def)

lemma env_row_nth: "i < length (layout n) \<Longrightarrow> env_row n env ! i = env (fst (layout n ! i)) (snd (layout n ! i))"
  by (simp add: env_row_def split_beta)

fun wide :: "LogicalPlanNode \<Rightarrow> bool" where
  "wide (FilterNode input p) = wide input"
| "wide (ProjectionNode input es cols) = wide input"
| "wide (AggregateNode input gb aggs cols) = (wide input \<or> 2 ^ 32 \<le> length gb + length aggs)"
| "wide (JoinNode left right conds) = (wide left \<or> wide right \<or> 2 ^ 32 \<le> length (layout left) + length (layout right))"
| "wide (ScanNode scan) = (2 ^ 32 \<le> length (ls_required_ordinals scan))"

lemma narrow_layout: "\<not> wide n \<Longrightarrow> length (layout n) < 2 ^ 32"
  by (induction n) auto

text \<open>Replacing the references of an expression.\<close>

fun map_refs :: "(BoundColumnRef \<Rightarrow> BoundColumnRef) \<Rightarrow> BoundExpression \<Rightarrow> BoundExpression" where
  "map_refs f (ColumnRefNode ref) = ColumnRefNode (f ref)"
| "map_refs f (ConstNode v) = ConstNode v"
| "map_refs f (BinaryOpNode op l r t) = BinaryOpNode op (map_refs f l) (map_refs f r) t"
| "map_refs f (UnaryOpNode op e) = UnaryOpNode op (map_refs f e)"

definition place :: "LogicalPlanNode \<Rightarrow> BoundColumnRef \<Rightarrow> BoundColumnRef" where
  "place n ref = ref\<lparr>cr_ordinal := word_of_nat (projr (FindColumnPosition n ref))\<rparr>"

lemma map_refs_refs [simp]: "CollectColumnRefs (map_refs f e) = map f (CollectColumnRefs e)"
  by (induction e) simp_all

lemma map_refs_type [simp]: "(\<And>ref. cr_type (f ref) = cr_type ref) \<Longrightarrow> ResultType (map_refs f e) = ResultType e"
  by (induction e) simp_all

lemma map_refs_typed [simp]: "(\<And>ref. cr_type (f ref) = cr_type ref) \<Longrightarrow> expr_typed (map_refs f e) = expr_typed e"
  by (induction e) simp_all

lemma map_refs_eval: "eval_cells cells (map_refs f e) = eval_cells (cells \<circ> f) e"
  by (induction e) simp_all

lemma place_type [simp]: "cr_type (place n ref) = cr_type ref"
  by (simp add: place_def)

definition resolved :: "LogicalPlanNode \<Rightarrow> BoundExpression \<Rightarrow> bool" where
  "resolved n e = (\<forall>ref \<in> set (CollectColumnRefs e). avail n ref \<and> located n ref)"

text \<open>A plan whose columns all have a position.\<close>

definition positioned :: "LogicalPlanNode \<Rightarrow> bool" where
  "positioned n = (plan_wf True n \<and> ordinals_ok n \<and> \<not> wide n)"

lemma place_position:
  assumes "positioned n" and "avail n ref" and "located n ref"
  obtains i where "FindColumnPosition n ref = Inr i" "i < length (layout n)" "unat (cr_ordinal (place n ref)) = i"
    "layout_types n ! i = cr_type ref" "\<forall>env. env_row n env ! i = ref_cell env ref"
proof -
  obtain i where i: "FindColumnPosition n ref = Inr i" "i < length (layout n)"
    "layout n ! i = (cr_table_id ref, cr_ordinal ref)" "layout_types n ! i = cr_type ref"
    using FindColumnPosition_located [of True n ref] assms by (auto simp: positioned_def)
  have "unat (word_of_nat i :: uint32) = i"
    using narrow_layout [of n] assms(1) i(2) by (intro unat_of_nat_small) (simp add: positioned_def)
  with i that show thesis by (simp add: place_def env_row_nth ref_cell_def)
qed

lemma rewrite_refs:
  assumes "positioned n" and "resolved n e"
  shows "RewriteColumnRefsToPhysicalPositions n e = Inr (map_refs (place n) e)"
  using assms(2)
proof (induction e)
  case (ColumnRefNode ref)
  then obtain i where "FindColumnPosition n ref = Inr i"
    using place_position [OF assms(1), of ref] by (auto simp: resolved_def)
  then show ?case by (simp add: place_def)
qed (auto simp: resolved_def)

text \<open>Evaluating the rewritten expression on a row is evaluating the expression in the environment.\<close>

lemma rewrite_eval:
  assumes "positioned n" and "resolved n e"
  shows "eval_row (map_refs (place n) e) (env_row n env) = eval_cells (ref_cell env) e"
  unfolding eval_row_def map_refs_eval
proof (rule eval_cells_cong)
  fix ref assume "ref \<in> set (CollectColumnRefs e)"
  then obtain i where "unat (cr_ordinal (place n ref)) = i" "env_row n env ! i = ref_cell env ref"
    using place_position [OF assms(1), of ref] assms(2) unfolding resolved_def by metis
  then show "((\<lambda>ref. env_row n env ! unat (cr_ordinal ref)) \<circ> place n) ref = ref_cell env ref" by simp
qed

lemma rewrite_total:
  assumes "positioned n" and "resolved n e" and "expr_typed e" "expr_total e"
  shows "total_on (layout_types n) (map_refs (place n) e)"
proof -
  have pos: "unat (cr_ordinal (place n ref)) < length (layout_types n) \<and> layout_types n ! unat (cr_ordinal (place n ref)) = cr_type ref"
    if "ref \<in> set (CollectColumnRefs e)" for ref
    using that place_position [OF assms(1), of ref] assms(2) unfolding resolved_def by (metis length_layout_types)
  have "\<exists>v. eval_row (map_refs (place n) e) row = Inr v" if row: "map (value_type \<circ> fst) row = layout_types n" for row
  proof -
    have "value_type (fst (row ! i)) = layout_types n ! i" if "i < length (layout_types n)" for i
      using that row by (metis comp_apply length_map nth_map)
    then have "cells_typed e ((\<lambda>ref. row ! unat (cr_ordinal ref)) \<circ> place n)"
      using pos by (auto simp: cells_typed_def)
    with assms(4) show ?thesis by (auto simp: expr_total_def eval_row_def map_refs_eval)
  qed
  with pos assms(3) show ?thesis by (simp add: total_on_def expr_wt_typed)
qed

section \<open>Tables\<close>

definition scan_ok :: "Catalog \<Rightarrow> (uint32 \<Rightarrow> bytes option) \<Rightarrow> tables \<Rightarrow> LogicalScan \<Rightarrow> bool" where
  "scan_ok cat P db scan = (\<exists>table ts contents. GetTableById cat (ls_physical_table_id scan) = Some table \<and>
     table_at P table ts contents \<and> map oc_type (ls_output_columns scan) = map ToExpressionType ts \<and>
     db (ls_physical_table_id scan) = map (map clean_cell) (table_rows (to_row_groups table) contents) \<and>
     list_all (list_all nan_free) contents \<and> list_all light (table_rows (to_row_groups table) contents))"

fun plan_tables :: "Catalog \<Rightarrow> (uint32 \<Rightarrow> bytes option) \<Rightarrow> tables \<Rightarrow> LogicalPlanNode \<Rightarrow> bool" where
  "plan_tables cat P db (ScanNode scan) = scan_ok cat P db scan"
| "plan_tables cat P db (FilterNode input p) = plan_tables cat P db input"
| "plan_tables cat P db (JoinNode left right conds) = (plan_tables cat P db left \<and> plan_tables cat P db right)"
| "plan_tables cat P db (AggregateNode input gb aggs cols) = plan_tables cat P db input"
| "plan_tables cat P db (ProjectionNode input es cols) = plan_tables cat P db input"

text \<open>Cells of environments are in normal form and small.\<close>

definition neat :: "env \<Rightarrow> bool" where
  "neat env = (\<forall>b i. clean_cell (env b i) = env b i \<and> cell_weight (env b i) < 2 ^ 21)"

lemma neat_row: "neat env \<Longrightarrow> light (env_row n env) \<and> map clean_cell (env_row n env) = env_row n env"
  by (auto simp: neat_def env_row_def light_def list_all_iff simp del: clean_cell.simps)

lemma neat_plain:
  assumes "plain n" and "plan_tables cat P db n" and "env \<in> set (plan_envs db n)"
  shows "neat env"
  using assms
proof (induction n arbitrary: env)
  case (ScanNode scan)
  obtain row where row: "env = scan_env (ls_binding_id scan) (map clean_cell row)" "light row"
    using ScanNode.prems(2,3) by (auto simp: scan_ok_def list_all_iff)
  have "clean_cell no_cell = no_cell" by (simp add: null_cell_def)
  moreover have "cell_weight (clean_cell (row ! i)) < 2 ^ 21" if "i < length row" for i
    using row(2) that le_less_trans [OF clean_cell_weight [of "row ! i"]] by (simp add: light_def list_all_length)
  ultimately show ?case
    by (auto simp: neat_def row(1) scan_env_def cell_weight_def simp del: clean_cell.simps)
next
  case (JoinNode left right conds)
  then obtain l r where "env = join_env (CollectBindingIds left) l r" "neat l" "neat r" by auto
  then show ?case by (auto simp: neat_def join_env_def)
qed auto

section \<open>Predicates\<close>

lemma eval_cells_type:
  assumes "expr_typed e" and "cells_typed e cells" and "eval_cells cells e = Inr (x, b)"
  shows "row_value_type x = ResultType e"
  using assms
proof (induction e arbitrary: x b)
  case (ColumnRefNode ref)
  with clean_cell_type [of "cells ref"] show ?case
    by (cases "clean_cell (cells ref)") (auto simp: cells_typed_def simp del: clean_cell.simps)
next
  case (BinaryOpNode op l r t)
  have "ResultTypeForBinaryOp op t = (if IsArithmeticOperator op then t else etBoolean)"
    by (cases op) (simp_all add: IsArithmeticOperator_def)
  with BinaryOpNode.prems show ?case by (auto simp: result_simps split: if_splits)
next
  case (UnaryOpNode op e)
  then show ?case by (auto simp: result_simps)
qed auto

lemma conjuncts_fine:
  assumes "list_all conjunct_fine (ExtractConjuncts p)"
  shows "expr_typed p" "ResultType p = etBoolean" "expr_total p"
proof -
  have "expr_typed p \<and> ResultType p = etBoolean \<and> expr_total p"
    using assms
  proof (induction p)
    case (BinaryOpNode op l r t)
    show ?case
    proof (cases "op = kAnd")
      case True
      with BinaryOpNode have lr: "expr_typed l" "ResultType l = etBoolean" "expr_total l"
        "expr_typed r" "ResultType r = etBoolean" "expr_total r" by simp_all
      have "\<exists>v. eval_cells cells (BinaryOpNode op l r t) = Inr v" if typed: "cells_typed (BinaryOpNode op l r t) cells" for cells
      proof -
        have ct: "cells_typed l cells" "cells_typed r cells" using typed by (simp_all add: cells_typed_def)
        then obtain x xb y yb where e: "eval_cells cells l = Inr (x, xb)" "eval_cells cells r = Inr (y, yb)"
          using lr(3,6) unfolding expr_total_def by (metis surj_pair)
        with eval_cells_type [OF lr(1) ct(1)] eval_cells_type [OF lr(4) ct(2)] lr(2,5)
        obtain u v where "x = RBool u" "y = RBool v" using as_bool_boolean [of x] as_bool_boolean [of y] by metis
        with e True show ?thesis by (simp add: IsArithmeticOperator_def IsLogicalOperator_def)
      qed
      with lr True show ?thesis by (simp add: expr_total_def IsArithmeticOperator_def IsLogicalOperator_def)
    qed (use BinaryOpNode.prems in \<open>simp add: conjunct_fine_def\<close>)
  qed (simp_all add: conjunct_fine_def)
  then show "expr_typed p" "ResultType p = etBoolean" "expr_total p" by simp_all
qed

lemma filter_predicate:
  assumes "plan_wf True (FilterNode n p)" and "covered (FilterNode n p)"
  shows "expr_typed p" "ResultType p = etBoolean" "expr_total p" "resolved n p"
proof -
  have "list_all conjunct_fine (ExtractConjuncts p)" using assms(1) by (simp add: list_all_iff conjunct_ok_def)
  from conjuncts_fine [OF this] show "expr_typed p" "ResultType p = etBoolean" "expr_total p" by simp_all
  show "resolved n p" using filter_refs_avail [OF assms(1)] assms(2) by (simp add: resolved_def list_all_iff)
qed

lemma row_passes_env:
  "positioned n \<Longrightarrow> resolved n p \<Longrightarrow> row_passes (map_refs (place n) p) (env_row n env) = env_passes p env"
  by (simp add: row_passes_def env_passes_def cells_pass_def rewrite_eval)

lemma filter_translated:
  assumes n: "positioned n" and p: "plan_wf True (FilterNode n p)" "covered (FilterNode n p)"
    and op: "yields P op (layout_types n) (map (env_row n) envs)"
  shows "yields P (FilterOp op (map_refs (place n) p)) (layout_types (FilterNode n p))
    (map (env_row (FilterNode n p)) (filter (env_passes p) envs))"
proof -
  note fp = filter_predicate [OF p]
  have "yields P (FilterOp op (map_refs (place n) p)) (layout_types n)
      (filter (row_passes (map_refs (place n) p)) (map (env_row n) envs))"
    by (rule filter_yields [OF op rewrite_total [OF n fp(4,1,3)]]) (simp add: fp(2))
  moreover have "row_passes (map_refs (place n) p) \<circ> env_row n = env_passes p"
    using row_passes_env [OF n fp(4)] by auto
  moreover have "env_row (FilterNode n p) = env_row n" by (simp add: env_row_def fun_eq_iff)
  ultimately show ?thesis by (simp add: filter_map)
qed

section \<open>Scans\<close>

lemma table_at_row_length:
  assumes "table_at P table ts contents" and "row \<in> set (table_rows (to_row_groups table) contents)"
  shows "length row = length ts"
  using assms by (auto simp: table_at_def table_rows_def cells_rows_def list_all_iff dest!: set_zip_rightD list_all2_lengthD)

lemma scan_rows_env:
  assumes table: "table_at P table ts contents" and ords: "list_all (\<lambda>i. unat i < length ts) (ls_required_ordinals scan)"
    and db: "db (ls_physical_table_id scan) = map (map clean_cell) (table_rows (to_row_groups table) contents)"
  shows "scanned_rows None (map unat (ls_required_ordinals scan)) (to_row_groups table) contents =
    map (env_row (ScanNode scan)) (plan_envs db (ScanNode scan))"
proof -
  let ?ords = "map unat (ls_required_ordinals scan)" and ?rows = "table_rows (to_row_groups table) contents"
  have "list_all (\<lambda>c. c < length ts) ?ords" using ords by (simp add: list.pred_map comp_def)
  from table_at_scannable [OF table this]
  have "scanned_rows None ?ords (to_row_groups table) contents = map (\<lambda>row. map (\<lambda>c. clean_cell (row ! c)) ?ords) ?rows"
    by (intro scanned_rows_all [where ts = ts]) (auto elim: list_all2_mono)
  moreover have "map (\<lambda>c. clean_cell (row ! c)) ?ords = env_row (ScanNode scan) (scan_env (ls_binding_id scan) (map clean_cell row))"
    if "row \<in> set ?rows" for row
    using table_at_row_length [OF table that] ords
    by (auto simp: env_row_def scan_env_def list_all_iff simp del: clean_cell.simps)
  ultimately show ?thesis using db by (simp add: comp_def cong: map_cong)
qed

lemma scan_types:
  assumes "map oc_type (ls_output_columns scan) = map ToExpressionType ts"
    and "list_all (\<lambda>i. unat i < length (ls_output_columns scan)) (ls_required_ordinals scan)"
  shows "layout_types (ScanNode scan) = map ((!) ts) (map unat (ls_required_ordinals scan))"
proof -
  have "type_of (oc_type (ls_output_columns scan ! i)) = ts ! i" if "i < length (ls_output_columns scan)" for i
    using arg_cong [OF assms(1), of "\<lambda>xs. xs ! i"] that arg_cong [OF assms(1), of length] by simp
  with assms(2) show ?thesis by (simp add: list_all_iff)
qed

lemma scan_okE:
  assumes "scan_ok cat P db scan" and "positioned (ScanNode scan)"
  obtains table ts contents where "GetTableById cat (ls_physical_table_id scan) = Some table"
    "table_at P table ts contents" "map oc_type (ls_output_columns scan) = map ToExpressionType ts"
    "db (ls_physical_table_id scan) = map (map clean_cell) (table_rows (to_row_groups table) contents)"
    "list_all (list_all nan_free) contents" "length (ls_output_columns scan) = length ts"
    "list_all (\<lambda>i. unat i < length ts) (ls_required_ordinals scan)"
    "layout_types (ScanNode scan) = map ((!) ts) (map unat (ls_required_ordinals scan))"
proof -
  from assms(1) obtain table ts contents where t: "GetTableById cat (ls_physical_table_id scan) = Some table"
    "table_at P table ts contents" "map oc_type (ls_output_columns scan) = map ToExpressionType ts"
    "db (ls_physical_table_id scan) = map (map clean_cell) (table_rows (to_row_groups table) contents)"
    "list_all (list_all nan_free) contents" by (auto simp: scan_ok_def)
  moreover have len: "length (ls_output_columns scan) = length ts" using arg_cong [OF t(3), of length] by simp
  moreover have "list_all (\<lambda>i. unat i < length ts) (ls_required_ordinals scan)"
    using assms(2) len by (simp add: positioned_def)
  moreover from this have "layout_types (ScanNode scan) = map ((!) ts) (map unat (ls_required_ordinals scan))"
    using scan_types [OF t(3)] len by simp
  ultimately show thesis by (rule that)
qed

lemma scan_translated:
  assumes ok: "scan_ok cat P db scan" and n: "positioned (ScanNode scan)"
  shows "\<exists>op. translate_scan cat scan None = Inr op \<and>
    yields P op (layout_types (ScanNode scan)) (map (env_row (ScanNode scan)) (plan_envs db (ScanNode scan)))"
proof -
  obtain table ts contents where t: "GetTableById cat (ls_physical_table_id scan) = Some table"
    "table_at P table ts contents" "db (ls_physical_table_id scan) = map (map clean_cell) (table_rows (to_row_groups table) contents)"
    "list_all (\<lambda>i. unat i < length ts) (ls_required_ordinals scan)"
    "layout_types (ScanNode scan) = map ((!) ts) (map unat (ls_required_ordinals scan))"
    by (rule scan_okE [OF ok n])
  have "list_all (\<lambda>c. c < length ts) (map unat (ls_required_ordinals scan))" using t(4) by (simp add: list.pred_map comp_def)
  from scan_yields [OF t(2) this, of None] scan_rows_env [OF t(2,4), of db] t(1,3,5) show ?thesis
    by (simp add: translate_scan_def del: layout_types.simps plan_envs.simps)
qed

lemma extracted_skip:
  assumes "TryExtractZoneMapSkip p scan = Some cond"
  obtains op ref v t where "p = BinaryOpNode op (ColumnRefNode ref) (ConstNode v) t" "cr_table_id ref = ls_binding_id scan"
    "zs_ordinal cond = unat (cr_ordinal ref)" "zs_op cond = op" "zone_const (zs_constant cond) = v" "value_type v \<noteq> kVarchar"
    "value_type v = (case zs_constant cond of ZoneInt _ \<Rightarrow> kInteger | ZoneFloat _ \<Rightarrow> kFloat)"
  using assms by (cases "(p, scan)" rule: TryExtractZoneMapSkip.cases) (auto split: if_splits ConstValue.splits)

text \<open>The comparison that gives the skip condition is an atomic conjunct, with equal types.\<close>

lemma comparison_conjunct:
  assumes "list_all conjunct_fine (ExtractConjuncts (BinaryOpNode op (ColumnRefNode ref) (ConstNode v) t))"
  shows "\<not> IsArithmeticOperator op" "\<not> IsLogicalOperator op" "value_type v \<noteq> kVarchar \<Longrightarrow> cr_type ref = value_type v"
proof -
  have nb: "ToExpressionType ty \<noteq> etBoolean" for ty by (cases ty) simp_all
  have "op \<noteq> kAnd" using assms nb by (auto simp: conjunct_fine_def)
  with assms have f: "conjunct_fine (BinaryOpNode op (ColumnRefNode ref) (ConstNode v) t)" by simp
  show "\<not> IsLogicalOperator op"
    using f nb by (auto simp: conjunct_fine_def IsArithmeticOperator_def IsLogicalOperator_def)
  show "\<not> IsArithmeticOperator op"
    using f by (cases op) (auto simp: conjunct_fine_def IsArithmeticOperator_def numeric_def)
  show "value_type v \<noteq> kVarchar \<Longrightarrow> cr_type ref = value_type v" using f by (simp add: conjunct_fine_def)
qed

lemma scan_filter_translated:
  assumes ok: "scan_ok cat P db scan" and n: "positioned (ScanNode scan)"
    and p: "plan_wf True (FilterNode (ScanNode scan) p)" "covered (FilterNode (ScanNode scan) p)"
  shows "\<exists>op. translate_scan cat scan (TryExtractZoneMapSkip p scan) = Inr op \<and>
    yields P (FilterOp op (map_refs (place (ScanNode scan)) p)) (layout_types (FilterNode (ScanNode scan) p))
      (map (env_row (FilterNode (ScanNode scan) p)) (plan_envs db (FilterNode (ScanNode scan) p)))"
proof (cases "TryExtractZoneMapSkip p scan")
  case None
  from scan_translated [OF ok n] obtain op where "translate_scan cat scan None = Inr op"
    "yields P op (layout_types (ScanNode scan)) (map (env_row (ScanNode scan)) (plan_envs db (ScanNode scan)))" by blast
  with filter_translated [OF n p] None show ?thesis by (auto simp del: layout_types.simps plan_envs.simps(1))
next
  case (Some cond)
  let ?n = "ScanNode scan" and ?ords = "map unat (ls_required_ordinals scan)"
  obtain op ref v t where sh: "p = BinaryOpNode op (ColumnRefNode ref) (ConstNode v) t" "cr_table_id ref = ls_binding_id scan"
    "zs_ordinal cond = unat (cr_ordinal ref)" "zs_op cond = op" "zone_const (zs_constant cond) = v" "value_type v \<noteq> kVarchar"
    "value_type v = (case zs_constant cond of ZoneInt _ \<Rightarrow> kInteger | ZoneFloat _ \<Rightarrow> kFloat)"
    by (rule extracted_skip [OF Some])
  note fp = filter_predicate [OF p]
  obtain table ts contents where tb: "GetTableById cat (ls_physical_table_id scan) = Some table"
    "table_at P table ts contents" "map oc_type (ls_output_columns scan) = map ToExpressionType ts"
    "db (ls_physical_table_id scan) = map (map clean_cell) (table_rows (to_row_groups table) contents)"
    "list_all (list_all nan_free) contents" "length (ls_output_columns scan) = length ts"
    "list_all (\<lambda>i. unat i < length ts) (ls_required_ordinals scan)" "layout_types ?n = map ((!) ts) ?ords"
    by (rule scan_okE [OF ok n])
  have "list_all conjunct_fine (ExtractConjuncts p)" using p(1) by (simp add: list_all_iff conjunct_ok_def)
  note cc = comparison_conjunct [OF this [unfolded sh(1)]]
  have av: "avail ?n ref" "located ?n ref" using fp(4) by (simp_all add: resolved_def sh(1))
  then have o: "unat (cr_ordinal ref) < length ts" "ToExpressionType (ts ! unat (cr_ordinal ref)) = ToExpressionType (cr_type ref)"
    using tb(6) arg_cong [OF tb(3), of "\<lambda>xs. xs ! unat (cr_ordinal ref)"] by simp_all
  then have "ts ! unat (cr_ordinal ref) = cr_type ref" by (metis type_of_ToExpressionType)
  then have "skip_typed ts (Some cond)" using o(1) sh(3,7) cc(3) [OF sh(6)] by simp
  moreover have ords: "list_all (\<lambda>c. c < length ts) ?ords" using tb(7) by (simp add: list.pred_map comp_def)
  ultimately have "yields P (SeqScanOp (MakeSeqScanOperator table ?ords (Some cond))) (layout_types ?n)
      (scanned_rows (Some cond) ?ords (to_row_groups table) contents)"
    unfolding tb(8) using scan_yields [OF tb(2)] by blast
  from filter_yields [OF this rewrite_total [OF n fp(4,1,3)]]
  have y: "yields P (FilterOp (SeqScanOp (MakeSeqScanOperator table ?ords (Some cond))) (map_refs (place ?n) p)) (layout_types ?n)
      (filter (row_passes (map_refs (place ?n) p)) (scanned_rows (Some cond) ?ords (to_row_groups table) contents))"
    by (simp add: fp(2) del: layout_types.simps)
  obtain i where i: "i < length (layout ?n)" "unat (cr_ordinal (place ?n ref)) = i" "layout ?n ! i = (cr_table_id ref, cr_ordinal ref)"
    using place_position [OF n av] FindColumnPosition_located [of True ?n ref] n av unfolding positioned_def by (metis sum.inject(2))
  have pos: "unat (cr_ordinal (place ?n ref)) < length ?ords" "?ords ! unat (cr_ordinal (place ?n ref)) = zs_ordinal cond"
    using i sh(3) by simp_all
  have imp: "row_passes (zone_predicate cond (place ?n ref)) row" if "row_passes (map_refs (place ?n) p) row" for row
    using that cc(1,2) by (simp add: row_passes_def zone_predicate_def sh(1,4,5))
  have "list_all2 (\<lambda>rg cellss. group_holds P rg cellss \<and> nan_free (cellss ! zs_ordinal cond)) (to_row_groups table) contents"
    using tb(2,5) o(1) sh(3) by (auto simp: table_at_def list_all2_conv_all_nth list_all_length)
  from pruning_invisible [OF this pos imp] scan_rows_env [OF tb(2,7), of db] tb(4)
  have "filter (row_passes (map_refs (place ?n) p)) (scanned_rows (Some cond) ?ords (to_row_groups table) contents) =
      filter (row_passes (map_refs (place ?n) p)) (map (env_row ?n) (plan_envs db ?n))" by simp
  moreover have "row_passes (map_refs (place ?n) p) \<circ> env_row ?n = env_passes p"
    using row_passes_env [OF n fp(4)] by auto
  moreover have "env_row (FilterNode ?n p) = env_row ?n" by (simp add: env_row_def fun_eq_iff)
  ultimately show ?thesis using y tb(1) Some by (simp add: translate_scan_def filter_map del: plan_envs.simps(1))
qed

section \<open>Joins\<close>

fun plan_fits :: "tables \<Rightarrow> LogicalPlanNode \<Rightarrow> bool" where
  "plan_fits db (ScanNode scan) = True"
| "plan_fits db (FilterNode input p) = plan_fits db input"
| "plan_fits db (JoinNode left right conds) =
     (plan_fits db left \<and> plan_fits db right \<and> length (plan_envs db right) < 2 ^ 32 \<and>
      (\<forall>b i. sum_list (map (\<lambda>env. cell_weight (env b i)) (plan_envs db right)) < varchar_capacity))"
| "plan_fits db (AggregateNode input gb aggs cols) = (plan_fits db input \<and> length (plan_envs db input) < 2 ^ 31)"
| "plan_fits db (ProjectionNode input es cols) = plan_fits db input"

lemma env_row_join:
  assumes "plain left" "plain right" and "set (CollectBindingIds left) \<inter> set (CollectBindingIds right) = {}"
  shows "env_row (JoinNode left right conds) (join_env (CollectBindingIds left) l r) = env_row right r @ env_row left l"
proof -
  have "b \<notin> set (CollectBindingIds left)" if "(b, i) \<in> set (layout right)" for b i
    using plain_layout_ids [OF assms(2) that] assms(3) by auto
  with plain_layout_ids [OF assms(1)] show ?thesis by (auto simp: env_row_def join_env_def)
qed

lemma join_positions:
  assumes n: "positioned left" "positioned right" and wf: "plan_wf True (JoinNode left right conds)"
    and cov: "covered (JoinNode left right conds)"
  obtains keys where "rmap (join_key_positions left right) conds = Inr keys" "length keys = length conds"
    "\<And>j. j < length conds \<Longrightarrow> fst (keys ! j) < length (layout left) \<and> snd (keys ! j) < length (layout right) \<and>
      layout_types left ! fst (keys ! j) = layout_types right ! snd (keys ! j) \<and>
      (\<forall>l. env_row left l ! fst (keys ! j) = ref_cell l (fst (sides (CollectBindingIds left) (conds ! j)))) \<and>
      (\<forall>r. env_row right r ! snd (keys ! j) = ref_cell r (snd (sides (CollectBindingIds left) (conds ! j))))"
proof -
  let ?ids = "CollectBindingIds left"
  let ?ok = "\<lambda>cond key. fst key < length (layout left) \<and> snd key < length (layout right) \<and>
      layout_types left ! fst key = layout_types right ! snd key \<and>
      (\<forall>l. env_row left l ! fst key = ref_cell l (fst (sides ?ids cond))) \<and>
      (\<forall>r. env_row right r ! snd key = ref_cell r (snd (sides ?ids cond)))"
  have one: "\<exists>key. join_key_positions left right cond = Inr key \<and> ?ok cond key" if cond: "cond \<in> set conds" for cond
  proof -
    have ok: "condition_ok left right cond" "located left (fst (sides ?ids cond))" "located right (snd (sides ?ids cond))"
      using cond wf cov by (auto simp: list_all_iff)
    have dis: "plain left" "plain right" "set ?ids \<inter> set (CollectBindingIds right) = {}" using wf by simp_all
    note av = sides_avail [OF ok(1) dis]
    obtain i where i: "FindColumnPosition left (fst (sides ?ids cond)) = Inr i" "i < length (layout left)"
      "unat (cr_ordinal (place left (fst (sides ?ids cond)))) = i" "layout_types left ! i = cr_type (fst (sides ?ids cond))" "\<forall>l. env_row left l ! i = ref_cell l (fst (sides ?ids cond))"
      by (rule place_position [OF n(1) av(1) ok(2)])
    obtain k where k: "FindColumnPosition right (snd (sides ?ids cond)) = Inr k" "k < length (layout right)"
      "unat (cr_ordinal (place right (snd (sides ?ids cond)))) = k" "layout_types right ! k = cr_type (snd (sides ?ids cond))" "\<forall>r. env_row right r ! k = ref_cell r (snd (sides ?ids cond))"
      by (rule place_position [OF n(2) av(2) ok(3)])
    have "cr_type (fst (sides ?ids cond)) = cr_type (snd (sides ?ids cond))"
      using ok(1) by (auto simp: condition_ok_def sides_def split: prod.splits)
    moreover have "join_key_positions left right cond = Inr (i, k)"
      using i(1) k(1) by (cases cond) (auto simp: join_key_positions_def sides_def Let_def split: if_splits)
    ultimately show ?thesis using i k by (intro exI [of _ "(i, k)"]) simp
  qed
  have "\<exists>keys. rmap (join_key_positions left right) cs = Inr keys \<and> list_all2 ?ok cs keys" if "set cs \<subseteq> set conds" for cs
    using that
  proof (induction cs)
    case (Cons c cs)
    obtain key keys where "join_key_positions left right c = Inr key" "?ok c key"
      "rmap (join_key_positions left right) cs = Inr keys" "list_all2 ?ok cs keys"
      using Cons one [of c] by auto
    then show ?case by (intro exI [of _ "key # keys"]) simp
  qed simp
  then obtain keys where keys: "rmap (join_key_positions left right) conds = Inr keys" "list_all2 ?ok conds keys" by blast
  show thesis
  proof (rule that [OF keys(1)])
    show "length keys = length conds" using keys(2) by (simp add: list_all2_lengthD)
    show "?ok (conds ! j) (keys ! j)" if "j < length conds" for j using keys(2) that by (rule list_all2_nthD)
  qed
qed

lemma table_at_row_types:
  assumes table: "table_at P table ts contents" and row: "row \<in> set (table_rows (to_row_groups table) contents)" and i: "i < length ts"
  shows "value_type (fst (row ! i)) = ts ! i"
proof -
  obtain rg cellss j where g: "(rg, cellss) \<in> set (zip (to_row_groups table) contents)" "j < unat (rg_row_count rg)"
    "row = map (\<lambda>cells. cells ! j) cellss"
    using row by (auto simp: table_rows_def cells_rows_def)
  have "group_holds P rg cellss" "list_all2 cells_of_type ts cellss"
    using g(1) table by (auto simp: table_at_def list_all2_iff list_all_iff dest: set_zip_rightD)
  then have "length (cellss ! i) = unat (rg_row_count rg)" "cells_of_type (ts ! i) (cellss ! i)" "i < length cellss"
    using i by (auto simp: group_holds_def list_all_length list_all2_conv_all_nth)
  with g(2,3) show ?thesis by (simp add: cells_of_type_def list_all_length)
qed

lemma plain_env_typed:
  assumes "plain n" and "plan_wf pl n" and "plan_tables cat P db n" and "env \<in> set (plan_envs db n)" and "avail n ref"
  shows "value_type (fst (ref_cell env ref)) = cr_type ref"
  using assms
proof (induction n arbitrary: env)
  case (ScanNode scan)
  obtain table ts contents where t: "table_at P table ts contents" "map oc_type (ls_output_columns scan) = map ToExpressionType ts"
    "db (ls_physical_table_id scan) = map (map clean_cell) (table_rows (to_row_groups table) contents)"
    using ScanNode.prems(3) by (auto simp: scan_ok_def)
  obtain row where row: "env = scan_env (ls_binding_id scan) (map clean_cell row)" "row \<in> set (table_rows (to_row_groups table) contents)"
    using ScanNode.prems(4) t(3) by auto
  let ?i = "unat (cr_ordinal ref)"
  have i: "?i < length ts" "ts ! ?i = cr_type ref"
  proof -
    show "?i < length ts" using ScanNode.prems(5) arg_cong [OF t(2), of length] by simp
    then have "ToExpressionType (ts ! ?i) = ToExpressionType (cr_type ref)"
      using ScanNode.prems(5) arg_cong [OF t(2), of "\<lambda>xs. xs ! ?i"] by simp
    then show "ts ! ?i = cr_type ref" by (metis type_of_ToExpressionType)
  qed
  then have "ref_cell env ref = clean_cell (row ! ?i)"
    using ScanNode.prems(5) row(1) table_at_row_length [OF t(1) row(2)] by (simp add: ref_cell_def scan_env_def del: clean_cell.simps)
  with clean_cell_type [of "row ! ?i"] table_at_row_types [OF t(1) row(2) i(1)] i(2) show ?case by simp
next
  case (JoinNode left right conds)
  have wf: "plain left" "plain right" "plan_wf pl left" "plan_wf pl right"
    "set (CollectBindingIds left) \<inter> set (CollectBindingIds right) = {}" using JoinNode.prems(2) by simp_all
  obtain l r where lr: "env = join_env (CollectBindingIds left) l r" "l \<in> set (plan_envs db left)" "r \<in> set (plan_envs db right)"
    using JoinNode.prems(4) by auto
  show ?case
  proof (cases "avail left ref")
    case True
    with JoinNode.IH(1) [OF wf(1,3) _ lr(2) True] JoinNode.prems(3) plain_avail_ids [OF wf(1) True] show ?thesis
      by (simp add: lr(1) join_env_def ref_cell_def)
  next
    case False
    then have "avail right ref" using JoinNode.prems(5) by simp
    with JoinNode.IH(2) [OF wf(2,4) _ lr(3) this] JoinNode.prems(3) plain_avail_ids [OF wf(2) this] wf(5) show ?thesis
      by (auto simp: lr(1) join_env_def ref_cell_def)
  qed
qed auto

lemma join_rows:
  assumes n: "positioned left" "positioned right" and wf: "plan_wf True (JoinNode left right conds)"
    and tabs: "plan_tables cat P db (JoinNode left right conds)" and len: "length keys = length conds"
    and keys: "\<And>j. j < length conds \<Longrightarrow> fst (keys ! j) < length (layout left) \<and> snd (keys ! j) < length (layout right) \<and>
      layout_types left ! fst (keys ! j) = layout_types right ! snd (keys ! j) \<and>
      (\<forall>l. env_row left l ! fst (keys ! j) = ref_cell l (fst (sides (CollectBindingIds left) (conds ! j)))) \<and>
      (\<forall>r. env_row right r ! snd (keys ! j) = ref_cell r (snd (sides (CollectBindingIds left) (conds ! j))))"
  shows "equi_join (map snd keys) (map fst keys) (map (env_row right) (plan_envs db right)) (map (env_row left) (plan_envs db left)) =
    map (env_row (JoinNode left right conds)) (plan_envs db (JoinNode left right conds))"
proof -
  let ?ids = "CollectBindingIds left" and ?b = "map snd keys" and ?p = "map fst keys"
  have pl: "plain left" "plain right" "plan_wf True left" "plan_wf True right" "set ?ids \<inter> set (CollectBindingIds right) = {}"
    using wf by simp_all
  have match: "(join_key ?p (env_row left l) \<noteq> None \<and> join_key ?b (env_row right r) = join_key ?p (env_row left l)) \<longleftrightarrow>
      keys_match ?ids conds l r" if l: "l \<in> set (plan_envs db left)" and r: "r \<in> set (plan_envs db right)" for l r
  proof -
    have nt: "neat l" "neat r" using neat_plain [OF pl(1) _ l, of cat P] neat_plain [OF pl(2) _ r, of cat P] tabs by simp_all
    have ty: "value_type (fst (ref_cell l (fst (sides ?ids (conds ! j))))) = cr_type (fst (sides ?ids (conds ! j))) \<and>
        value_type (fst (ref_cell r (snd (sides ?ids (conds ! j))))) = cr_type (fst (sides ?ids (conds ! j)))"
      if "j < length conds" for j
    proof -
      have ok: "condition_ok left right (conds ! j)" using wf that by (simp add: list_all_length)
      have "cr_type (fst (sides ?ids (conds ! j))) = cr_type (snd (sides ?ids (conds ! j)))"
        using ok by (auto simp: condition_ok_def sides_def split: prod.splits)
      with plain_env_typed [OF pl(1,3) _ l sides_avail(1) [OF ok pl(1,2,5)], of cat P]
        plain_env_typed [OF pl(2,4) _ r sides_avail(2) [OF ok pl(1,2,5)], of cat P] tabs show ?thesis by simp
    qed
    have w: "value_weight (fst (ref_cell e ref)) < 2 ^ 32" if "neat e" for e ref
    proof -
      have "cell_weight (e (cr_table_id ref) (cr_ordinal ref)) < 2 ^ 21" using that unfolding neat_def by blast
      then show ?thesis by (simp add: cell_weight_def ref_cell_def)
    qed
    have "(join_key ?p (env_row left l) \<noteq> None \<and> join_key ?b (env_row right r) = join_key ?p (env_row left l)) \<longleftrightarrow>
      (\<forall>j < length ?b. snd (env_row right r ! (?b ! j)) \<and> snd (env_row left l ! (?p ! j)) \<and>
         fst (env_row right r ! (?b ! j)) = fst (env_row left l ! (?p ! j)))"
      by (rule join_keys_agree [where ts = "map (\<lambda>cond. cr_type (fst (sides ?ids cond))) conds"])
        (use ty keys w nt len in simp_all)
    also have "\<dots> \<longleftrightarrow> keys_match ?ids conds l r"
      using keys len by (auto simp: keys_match_def list_all_length Let_def split_beta)
    finally show ?thesis .
  qed
  have row: "map clean_cell (env_row right r) @ map clean_cell (env_row left l) =
      env_row (JoinNode left right conds) (join_env ?ids l r)"
    if l: "l \<in> set (plan_envs db left)" and r: "r \<in> set (plan_envs db right)" for l r
    using neat_row [OF neat_plain [OF pl(1) _ l, of cat P]] neat_row [OF neat_plain [OF pl(2) _ r, of cat P]] tabs
      env_row_join [OF pl(1,2,5)] by simp
  have inner: "map (\<lambda>b. map clean_cell b @ map clean_cell (env_row left l))
      (filter (\<lambda>b. join_key ?p (env_row left l) \<noteq> None \<and> join_key ?b b = join_key ?p (env_row left l)) (map (env_row right) (plan_envs db right))) =
      map (env_row (JoinNode left right conds)) (map (join_env ?ids l) (filter (keys_match ?ids conds l) (plan_envs db right)))"
    if l: "l \<in> set (plan_envs db left)" for l
  proof -
    have "filter ((\<lambda>b. join_key ?p (env_row left l) \<noteq> None \<and> join_key ?b b = join_key ?p (env_row left l)) \<circ> env_row right) (plan_envs db right) =
        filter (keys_match ?ids conds l) (plan_envs db right)"
      by (rule filter_cong) (use match [OF l] in auto)
    then show ?thesis using row [OF l] unfolding filter_map by (simp add: comp_def cong: map_cong)
  qed
  show ?thesis
    unfolding equi_join_def plan_envs.simps map_concat map_map
    by (rule arg_cong [where f = concat], rule map_cong [OF refl]) (use inner in \<open>simp add: comp_def\<close>)
qed

lemma join_translated:
  assumes n: "positioned (JoinNode left right conds)" and cov: "covered (JoinNode left right conds)"
    and tabs: "plan_tables cat P db (JoinNode left right conds)" and fits: "plan_fits db (JoinNode left right conds)"
    and L: "Translate cat left = Inr lop" "yields P lop (layout_types left) (map (env_row left) (plan_envs db left))"
    and R: "Translate cat right = Inr rop" "yields P rop (layout_types right) (map (env_row right) (plan_envs db right))"
  shows "\<exists>op. Translate cat (JoinNode left right conds) = Inr op \<and> yields P op (layout_types (JoinNode left right conds))
    (map (env_row (JoinNode left right conds)) (plan_envs db (JoinNode left right conds)))"
proof -
  have wf: "plan_wf True (JoinNode left right conds)" and sub: "positioned left" "positioned right"
    using n by (simp_all add: positioned_def)
  have pl: "plain left" "plain right" using wf by simp_all
  obtain keys where keys: "rmap (join_key_positions left right) conds = Inr keys" "length keys = length conds"
    "\<And>j. j < length conds \<Longrightarrow> fst (keys ! j) < length (layout left) \<and> snd (keys ! j) < length (layout right) \<and>
      layout_types left ! fst (keys ! j) = layout_types right ! snd (keys ! j) \<and>
      (\<forall>l. env_row left l ! fst (keys ! j) = ref_cell l (fst (sides (CollectBindingIds left) (conds ! j)))) \<and>
      (\<forall>r. env_row right r ! snd (keys ! j) = ref_cell r (snd (sides (CollectBindingIds left) (conds ! j))))"
    using join_positions [OF sub wf cov] by blast
  have schema: "PhysicalOutputSchema right = Inr (layout_types right)"
    using PhysicalOutputSchema_layout [OF pl(2), of True] sub(2) by (simp add: positioned_def)
  have light: "list_all light (map (env_row left) (plan_envs db left))" "list_all light (map (env_row right) (plan_envs db right))"
    using neat_row neat_plain [OF pl(1), of cat P db] neat_plain [OF pl(2), of cat P db] tabs by (auto simp: list_all_iff)
  have "column_weight c (map (map clean_cell) (map (env_row right) (plan_envs db right))) < varchar_capacity"
    if c: "c < length (layout_types right)" for c
  proof -
    have eq: "map (\<lambda>env. cell_weight (map clean_cell (env_row right env) ! c)) (plan_envs db right) =
        map (\<lambda>env. cell_weight (env (fst (layout right ! c)) (snd (layout right ! c)))) (plan_envs db right)"
      using c neat_row [OF neat_plain [OF pl(2), of cat P db]] tabs by (intro map_cong) (simp_all add: env_row_nth)
    show ?thesis using fits unfolding column_weight_def map_map comp_def eq by simp
  qed
  then have "build_fits (layout_types right) (map (env_row right) (plan_envs db right))" using fits by (simp add: build_fits_def)
  moreover have "list_all (\<lambda>c. c < length (layout_types right)) (map snd keys)" "list_all (\<lambda>c. c < length (layout_types left)) (map fst keys)"
    using keys(2,3) by (simp_all add: list_all_length)
  ultimately have "yields P (HashJoinOp (MakeHashJoinOperator (map snd keys) (map fst keys) (layout_types right)) rop lop)
      (layout_types right @ layout_types left)
      (equi_join (map snd keys) (map fst keys) (map (env_row right) (plan_envs db right)) (map (env_row left) (plan_envs db left)))"
    using join_yields [OF R(2) L(2)] light by blast
  with join_rows [OF sub wf tabs keys(2,3)] keys(1) schema L(1) R(1) show ?thesis by simp
qed

section \<open>Aggregation\<close>

text \<open>An aggregate depends only on the cells of its argument.\<close>

lemma aggregate_cell_cong:
  assumes "ag_function s = ag_function s'" and "ag_argument_type s = ag_argument_type s'"
    and "argument_values s rows = argument_values s' rows'" and "length rows = length rows'"
  shows "aggregate_cell s rows = aggregate_cell s' rows'"
proof -
  have "accumulated s rows = accumulated s' rows'" unfolding accumulated_def assms ..
  then show ?thesis using assms(1)
    by (simp add: aggregate_cell_def aggregate_output_def min_or_max_def split: AccumulatorVariant.split)
qed

lemma translate_call:
  assumes n: "positioned n" and c: "call_ok n c" and loc: "list_all (located n) (call_refs [c])"
  obtains spec where "translate_aggregate n c = Inr spec" "spec_ok (layout_types n) spec" "aggregate_type spec = call_type c"
    "\<And>envs. aggregate_cell spec (map (env_row n) envs) = call_cell c envs"
proof (cases "ac_argument c")
  case None
  let ?spec = "\<lparr>ag_function = kCountStar, ag_argument_column = None, ag_argument_type = kInteger\<rparr> :: AggregateSpec"
  have f: "ac_function c = aggCountStar" using c None by (simp add: call_ok_def)
  show thesis
  proof (rule that)
    show "translate_aggregate n c = Inr ?spec" "spec_ok (layout_types n) ?spec" "aggregate_type ?spec = call_type c"
      using None f by (simp_all add: translate_aggregate_def spec_ok_def call_type_def call_spec_def aggregate_type_def)
    show "aggregate_cell ?spec (map (env_row n) envs) = call_cell c envs" for envs
      using None f unfolding call_cell_def by (intro aggregate_cell_cong) (simp_all add: call_spec_def argument_values_def)
  qed
next
  case (Some ref)
  have av: "avail n ref" "located n ref" "cr_type ref = kVarchar \<longrightarrow> ac_function c \<notin> {aggSum, aggAvg}"
    using c loc Some by (simp_all add: call_ok_def call_refs_def)
  obtain i where i: "FindColumnPosition n ref = Inr i" "i < length (layout n)" "unat (cr_ordinal (place n ref)) = i"
    "layout_types n ! i = cr_type ref" "\<forall>env. env_row n env ! i = ref_cell env ref"
    by (rule place_position [OF n av(1,2)])
  let ?spec = "\<lparr>ag_function = to_physical_kind (ac_function c), ag_argument_column = Some i, ag_argument_type = cr_type ref\<rparr> :: AggregateSpec"
  show thesis
  proof (rule that)
    show "translate_aggregate n c = Inr ?spec" using Some i by (simp add: translate_aggregate_def Let_def)
    show "spec_ok (layout_types n) ?spec" using i av(3) by (cases "ac_function c") (auto simp: spec_ok_def)
    show "aggregate_type ?spec = call_type c" using Some
      by (simp add: call_type_def call_spec_def aggregate_type_def split: AggregateFunctionKind.split)
    show "aggregate_cell ?spec (map (env_row n) envs) = call_cell c envs" for envs
      using Some i(5) unfolding call_cell_def
      by (intro aggregate_cell_cong) (simp_all add: call_spec_def argument_values_def comp_def)
  qed
qed

lemma group_by_positions:
  assumes n: "positioned n" and gb: "list_all (avail n) gb" "list_all (located n) gb"
  obtains cols where "rmap (FindColumnPosition n) gb = Inr cols" "length cols = length gb" "list_all (\<lambda>c. c < length (layout_types n)) cols"
    "map ((!) (layout_types n)) cols = map cr_type gb"
    "\<And>env. neat env \<Longrightarrow> key_cells cols (env_row n env) = group_key gb env"
proof -
  have "\<forall>ref \<in> set gb. \<exists>i. FindColumnPosition n ref = Inr i \<and> i < length (layout n) \<and> layout_types n ! i = cr_type ref \<and>
      (\<forall>env. env_row n env ! i = ref_cell env ref)"
  proof
    fix ref assume "ref \<in> set gb"
    then have "avail n ref" "located n ref" using gb by (simp_all add: list_all_iff)
    then obtain i where "FindColumnPosition n ref = Inr i" "i < length (layout n)" "unat (cr_ordinal (place n ref)) = i"
      "layout_types n ! i = cr_type ref" "\<forall>env. env_row n env ! i = ref_cell env ref" by (rule place_position [OF n])
    then show "\<exists>i. FindColumnPosition n ref = Inr i \<and> i < length (layout n) \<and> layout_types n ! i = cr_type ref \<and>
      (\<forall>env. env_row n env ! i = ref_cell env ref)" by blast
  qed
  from bchoice [OF this] obtain pos where pos: "\<forall>ref \<in> set gb. FindColumnPosition n ref = Inr (pos ref) \<and> pos ref < length (layout n) \<and>
      layout_types n ! pos ref = cr_type ref \<and> (\<forall>env. env_row n env ! pos ref = ref_cell env ref)" by blast
  have "rmap (FindColumnPosition n) xs = Inr (map pos xs)" if "set xs \<subseteq> set gb" for xs
    using that pos by (induction xs) auto
  moreover have "key_cells (map pos gb) (env_row n env) = group_key gb env" if "neat env" for env
    using that pos by (auto simp: key_cells_def group_key_def neat_def ref_cell_def simp del: clean_cell.simps)
  ultimately show thesis using that [of "map pos gb"] pos by (simp add: list_all_iff comp_def cong: map_cong)
qed

lemma env_row_group:
  assumes "length gb + length aggs < 2 ^ 32" and "length k = length gb"
  shows "env_row (AggregateNode n gb aggs cols) (group_env gb aggs envs k) = group_cells gb aggs envs k"
proof (rule nth_equalityI)
  show len: "length (env_row (AggregateNode n gb aggs cols) (group_env gb aggs envs k)) = length (group_cells gb aggs envs k)"
    using assms(2) by (simp add: group_cells_def)
  fix i assume "i < length (env_row (AggregateNode n gb aggs cols) (group_env gb aggs envs k))"
  then have i: "i < length gb + length aggs" by simp
  then have "unat (word_of_nat i :: uint32) = i" using assms(1) by (intro unat_of_nat_small) simp
  with i assms(2) show "env_row (AggregateNode n gb aggs cols) (group_env gb aggs envs k) ! i = group_cells gb aggs envs k ! i"
    by (simp add: env_row_nth group_env_def Let_def group_cells_def)
qed

lemma group_rows:
  assumes key: "\<And>env. env \<in> set envs \<Longrightarrow> key_cells cols (env_row n env) = group_key gb env" and len: "length cols = length gb"
    and call: "list_all2 (\<lambda>c spec. \<forall>envs. aggregate_cell spec (map (env_row n) envs) = call_cell c envs) aggs specs"
    and small: "length gb + length aggs < 2 ^ 32"
  shows "group_by cols specs (map (env_row n) envs) =
    map (env_row (AggregateNode n gb aggs oc)) (map (group_env gb aggs envs) (group_keys gb envs))"
proof -
  have groups: "group_list cols (map (env_row n) envs) = group_keys gb envs"
  proof -
    have "map (key_cells cols) (map (env_row n) envs) = map (group_key gb) envs" using key by simp
    then show ?thesis using len unfolding group_list_def group_keys_def by (metis length_0_conv)
  qed
  have "group_row cols specs (map (env_row n) envs) k = env_row (AggregateNode n gb aggs oc) (group_env gb aggs envs k)"
    if k: "k \<in> set (group_keys gb envs)" for k
  proof -
    have "length k = length gb" using k by (auto simp: group_keys_def group_key_def split: if_splits)
    note row = env_row_group [OF small this]
    have members: "group_rows_of cols (map (env_row n) envs) k = map (env_row n) (filter (\<lambda>env. group_key gb env = k) envs)"
      using key by (auto simp: group_rows_of_def filter_map comp_def intro!: arg_cong [where f = "map _"] filter_cong)
    have "map (\<lambda>spec. aggregate_cell spec (map (env_row n) es)) specs = map (\<lambda>c. call_cell c es) aggs" for es
      using call by (induction rule: list_all2_induct) simp_all
    with row members show ?thesis by (simp add: group_row_def group_cells_def)
  qed
  with groups show ?thesis by (simp add: group_by_def)
qed

lemma aggregate_translated:
  assumes n: "positioned (AggregateNode input gb aggs oc)" and cov: "covered (AggregateNode input gb aggs oc)"
    and tabs: "plan_tables cat P db input" and fits: "plan_fits db (AggregateNode input gb aggs oc)"
    and I: "Translate cat input = Inr iop" "yields P iop (layout_types input) (map (env_row input) (plan_envs db input))"
  shows "\<exists>op. Translate cat (AggregateNode input gb aggs oc) = Inr op \<and> yields P op (layout_types (AggregateNode input gb aggs oc))
    (map (env_row (AggregateNode input gb aggs oc)) (plan_envs db (AggregateNode input gb aggs oc)))"
proof -
  have wf: "plain input" "list_all (avail input) gb" "list_all (call_ok input) aggs" "length gb + length aggs < 2 ^ 32"
    and sub: "positioned input" using n by (simp_all add: positioned_def)
  have loc: "list_all (located input) gb" "list_all (located input) (call_refs aggs)" using cov by (simp_all)
  have neat: "neat env" if "env \<in> set (plan_envs db input)" for env by (rule neat_plain [OF wf(1) tabs that])
  obtain cols where cols: "rmap (FindColumnPosition input) gb = Inr cols" "length cols = length gb"
    "list_all (\<lambda>c. c < length (layout_types input)) cols" "map ((!) (layout_types input)) cols = map cr_type gb"
    "\<And>env. neat env \<Longrightarrow> key_cells cols (env_row input env) = group_key gb env"
    using group_by_positions [OF sub wf(2) loc(1)] by blast
  let ?ok = "\<lambda>c spec. spec_ok (layout_types input) spec \<and> aggregate_type spec = call_type c \<and>
      (\<forall>envs. aggregate_cell spec (map (env_row input) envs) = call_cell c envs)"
  have "\<exists>specs. rmap (translate_aggregate input) aggs = Inr specs \<and> list_all2 ?ok aggs specs"
    using wf(3) loc(2)
  proof (induction aggs)
    case (Cons c aggs)
    have "list_all (located input) (call_refs [c])" "list_all (located input) (call_refs aggs)"
      using Cons.prems(2) by (simp_all add: call_refs_def)
    moreover have "call_ok input c" "list_all (call_ok input) aggs" using Cons.prems(1) by simp_all
    ultimately obtain spec specs where "rmap (translate_aggregate input) aggs = Inr specs" "list_all2 ?ok aggs specs"
      "translate_aggregate input c = Inr spec" "?ok c spec"
      using translate_call [OF sub, of c] Cons.IH by blast
    then show ?case by (intro exI [of _ "spec # specs"]) simp
  qed simp
  then obtain specs where specs: "rmap (translate_aggregate input) aggs = Inr specs" "list_all2 ?ok aggs specs" by blast
  have "list_all (spec_ok (layout_types input)) specs" "map aggregate_type specs = map call_type aggs"
    using specs(2) by (induction rule: list_all2_induct) simp_all
  moreover have "list_all light (map (env_row input) (plan_envs db input))" using neat neat_row by (simp add: list_all_iff)
  ultimately have "yields P (AggregationOp (MakeAggregationOperator cols (map cr_type gb) specs) iop) (aggregate_out_types gb aggs)
      (group_by cols specs (map (env_row input) (plan_envs db input)))"
    using aggregation_yields [OF I(2) cols(3), of specs] fits cols(4) by (simp add: aggregate_types_def aggregate_out_types_def)
  moreover have "group_by cols specs (map (env_row input) (plan_envs db input)) =
      map (env_row (AggregateNode input gb aggs oc)) (map (group_env gb aggs (plan_envs db input)) (group_keys gb (plan_envs db input)))"
    by (rule group_rows [OF cols(5) cols(2) _ wf(4)]) (use neat specs(2) in \<open>auto elim: list_all2_mono\<close>)
  ultimately show ?thesis using cols(1) specs(1) I(1) by (simp add: Let_def)
qed

section \<open>The whole plan\<close>

lemma plain_not_projection: "plain n \<Longrightarrow> \<not> is_projection n"
  by (cases n) simp_all

theorem translate_yields:
  assumes "positioned n" and "covered n" and "plan_tables cat P db n" and "plan_fits db n" and "\<not> is_projection n"
  shows "\<exists>op. Translate cat n = Inr op \<and> yields P op (layout_types n) (map (env_row n) (plan_envs db n))"
  using assms
proof (induction n)
  case (ScanNode scan)
  then show ?case using scan_translated [of cat P db scan] by simp
next
  case (FilterNode input p)
  have sub: "positioned input" "\<not> is_projection input" using FilterNode.prems(1) by (simp_all add: positioned_def)
  have wf: "plan_wf True (FilterNode input p)" using FilterNode.prems(1) by (simp add: positioned_def)
  note rw = rewrite_refs [OF sub(1) filter_predicate(4) [OF wf FilterNode.prems(2)]]
  show ?case
  proof (cases "\<exists>scan. input = ScanNode scan")
    case True
    then obtain scan where scan: "input = ScanNode scan" by blast
    have ok: "scan_ok cat P db scan" using FilterNode.prems(3) scan by simp
    then have "GetTableById cat (ls_physical_table_id scan) \<noteq> None" by (auto simp: scan_ok_def)
    with scan_filter_translated [OF ok sub(1) [unfolded scan] wf [unfolded scan] FilterNode.prems(2) [unfolded scan]] rw [unfolded scan]
    show ?thesis unfolding scan by (auto simp: Let_def simp del: layout_types.simps plan_envs.simps RewriteColumnRefsToPhysicalPositions.simps)
  next
    case False
    obtain op where op: "Translate cat input = Inr op" "yields P op (layout_types input) (map (env_row input) (plan_envs db input))"
      using FilterNode.IH FilterNode.prems sub by auto
    have "Translate cat (FilterNode input p) = Inr (FilterOp op (map_refs (place input) p))"
      using False op(1) rw by (cases input) auto
    with filter_translated [OF sub(1) wf FilterNode.prems(2) op(2)] show ?thesis by simp
  qed
next
  case (JoinNode left right conds)
  have "positioned left" "positioned right" "\<not> is_projection left" "\<not> is_projection right"
  proof -
    have "plain left" "plain right" using JoinNode.prems(1) by (simp_all add: positioned_def)
    then show "\<not> is_projection left" "\<not> is_projection right" using plain_not_projection by blast+
  qed (use JoinNode.prems(1) in \<open>simp_all add: positioned_def\<close>)
  with JoinNode obtain lop rop where "Translate cat left = Inr lop" "yields P lop (layout_types left) (map (env_row left) (plan_envs db left))"
    "Translate cat right = Inr rop" "yields P rop (layout_types right) (map (env_row right) (plan_envs db right))"
    by auto
  from join_translated [OF JoinNode.prems(1-4) this] show ?case .
next
  case (AggregateNode input gb aggs oc)
  have "\<not> is_projection input" using AggregateNode.prems(1) by (cases input) (simp_all add: positioned_def)
  moreover have "positioned input" using AggregateNode.prems(1) by (simp add: positioned_def)
  ultimately obtain iop where "Translate cat input = Inr iop" "yields P iop (layout_types input) (map (env_row input) (plan_envs db input))"
    using AggregateNode by auto
  from aggregate_translated [OF AggregateNode.prems(1,2) _ AggregateNode.prems(4) this] AggregateNode.prems(3) show ?case by simp
qed simp

lemma projection_translated:
  assumes n: "plan_wf True (ProjectionNode input es oc)" "ordinals_ok input" "\<not> wide input"
    and cov: "covered (ProjectionNode input es oc)" and rest: "plan_tables cat P db input" "plan_fits db input"
  shows "\<exists>op. Translate cat (ProjectionNode input es oc) = Inr op \<and>
    yields P op (map (type_of \<circ> ResultType) es) (plan_rows db (ProjectionNode input es oc))"
proof -
  have pos: "positioned input" and np: "\<not> is_projection input" using n by (simp_all add: positioned_def)
  obtain iop where iop: "Translate cat input = Inr iop" "yields P iop (layout_types input) (map (env_row input) (plan_envs db input))"
    using translate_yields [OF pos _ rest np] cov by auto
  have es: "resolved input e" "expr_typed e" "expr_total e" "ResultType e \<noteq> etBoolean" if "e \<in> set es" for e
    using that n(1) cov by (auto simp: resolved_def output_ok_def all_avail_def list_all_iff)
  let ?es = "map (map_refs (place input)) es"
  have "rmap (RewriteColumnRefsToPhysicalPositions input) xs = Inr (map (map_refs (place input)) xs)" if "set xs \<subseteq> set es" for xs
    using that es(1) rewrite_refs [OF pos] by (induction xs) auto
  then have tr: "Translate cat (ProjectionNode input es oc) = Inr (ProjectionOp iop ?es)" using iop(1) by simp
  have "yields P (ProjectionOp iop ?es) (map (type_of \<circ> ResultType) ?es)
      (map (\<lambda>row. map (\<lambda>e. projected_cell e row) ?es) (map (env_row input) (plan_envs db input)))"
    by (rule projection_yields [OF iop(2)]) (use es rewrite_total [OF pos] in auto)
  moreover have "map (type_of \<circ> ResultType) ?es = map (type_of \<circ> ResultType) es" by simp
  ultimately have y: "yields P (ProjectionOp iop ?es) (map (type_of \<circ> ResultType) es)
      (map (\<lambda>row. map (\<lambda>e. projected_cell e row) ?es) (map (env_row input) (plan_envs db input)))"
    by (simp only:)
  have "projected_cell (map_refs (place input) e) (env_row input env) = env_cell env e" if "e \<in> set es" for e env
    using rewrite_eval [OF pos es(1) [OF that]] by (simp add: projected_cell_def env_cell_def)
  then have "map (\<lambda>row. map (\<lambda>e. projected_cell e row) ?es) (map (env_row input) (plan_envs db input)) =
      plan_rows db (ProjectionNode input es oc)" by (simp add: comp_def)
  then show ?thesis using tr y by metis
qed

section \<open>What the rewriting keeps\<close>

fun width :: "LogicalPlanNode \<Rightarrow> nat" where
  "width (ScanNode scan) = length (ls_output_columns scan)"
| "width (FilterNode input p) = width input"
| "width (JoinNode left right conds) = width left + width right"
| "width (AggregateNode input gb aggs cols) = length gb + length aggs"
| "width (ProjectionNode input es cols) = 0"

fun narrow :: "LogicalPlanNode \<Rightarrow> bool" where
  "narrow (FilterNode input p) = narrow input"
| "narrow (ProjectionNode input es cols) = narrow input"
| "narrow (AggregateNode input gb aggs cols) = (narrow input \<and> length gb + length aggs < 2 ^ 32)"
| "narrow (JoinNode left right conds) = (narrow left \<and> narrow right \<and> width left + width right < 2 ^ 32)"
| "narrow (ScanNode scan) = (length (ls_output_columns scan) < 2 ^ 32)"

lemma PlaceInto_width [simp]: "width (PlaceInto n cs) = width n"
  by (induction n cs rule: PlaceInto.induct) (simp_all add: Let_def WrapInFilter_def MakeLogicalFilter_def)

lemma PlaceInto_narrow [simp]: "narrow (PlaceInto n cs) = narrow n"
  by (induction n cs rule: PlaceInto.induct) (simp_all add: Let_def WrapInFilter_def MakeLogicalFilter_def)

lemma Rewrite_narrow [simp]: "width (Rewrite n) = width n" "narrow (Rewrite n) = narrow n"
  by (induction n) simp_all

lemma narrow_aggregates: "narrow n \<Longrightarrow> aggregates_small n"
  by (induction n) simp_all

lemma sorted_unique_length:
  assumes "list_all (\<lambda>i. unat i < k) (sorted_unique xs)"
  shows "length (sorted_unique xs) \<le> k"
proof -
  have "distinct (remdups_adj ys)" if "sorted ys" for ys :: "uint32 list"
    using that by (induction ys rule: remdups_adj.induct) (auto simp: less_le)
  then have "distinct (map unat (sorted_unique xs))" by (simp add: sorted_unique_def distinct_map inj_on_def unsigned_word_eqI)
  moreover have "set (map unat (sorted_unique xs)) \<subseteq> {..<k}" using assms by (auto simp: list_all_iff)
  ultimately show ?thesis by (metis card_lessThan card_mono distinct_card finite_lessThan length_map)
qed

lemma pruned_width: "ordinals_ok (Propagate n req) \<Longrightarrow> length (layout (Propagate n req)) \<le> width n"
proof (induction n arbitrary: req)
  case (ScanNode scan)
  then show ?case using sorted_unique_length [of "length (ls_output_columns scan)"] by simp
next
  case (JoinNode left right conds)
  then show ?case by (auto simp: Let_def intro: add_mono simp: add.commute [of "width left"])
qed auto

lemma pruned_narrow: "narrow n \<Longrightarrow> ordinals_ok (Propagate n req) \<Longrightarrow> \<not> wide (Propagate n req)"
proof (induction n arbitrary: req)
  case (ScanNode scan)
  then show ?case using le_less_trans [OF sorted_unique_length] by (auto simp: not_le)
next
  case (JoinNode left right conds)
  let ?req = "req @ concat (map (\<lambda>(key_a, key_b). [key_a, key_b]) conds)"
  let ?l = "Propagate left (filter (\<lambda>ref. cr_table_id ref \<in> set (CollectBindingIds left)) ?req)"
  let ?r = "Propagate right (filter (\<lambda>ref. cr_table_id ref \<notin> set (CollectBindingIds left) \<and>
    cr_table_id ref \<in> set (CollectBindingIds right)) ?req)"
  have eq: "Propagate (JoinNode left right conds) req = JoinNode ?l ?r conds" by (simp only: Propagate.simps Let_def)
  have ok: "ordinals_ok ?l" "ordinals_ok ?r" using JoinNode.prems(2) unfolding eq by simp_all
  have "length (layout ?l) + length (layout ?r) < 2 ^ 32"
    using pruned_width [OF ok(1)] pruned_width [OF ok(2)] JoinNode.prems(1) by simp
  moreover have "\<not> wide ?l" "\<not> wide ?r" using JoinNode.IH ok JoinNode.prems(1) by simp_all
  ultimately show ?case unfolding eq by simp
qed (auto simp: not_le)

lemma PlaceInto_tables [simp]: "plan_tables cat P db (PlaceInto n cs) = plan_tables cat P db n"
  by (induction n cs rule: PlaceInto.induct) (simp_all add: Let_def WrapInFilter_def MakeLogicalFilter_def)

lemma Rewrite_tables [simp]: "plan_tables cat P db (Rewrite n) = plan_tables cat P db n"
  by (induction n) simp_all

lemma Propagate_tables [simp]: "plan_tables cat P db (Propagate n req) = plan_tables cat P db n"
  by (induction n arbitrary: req) (simp_all add: scan_ok_def Let_def)

lemma sum_filter_le: "sum_list (map f (filter P xs)) \<le> sum_list (map f xs)" for f :: "'a \<Rightarrow> nat"
  by (induction xs) auto

lemma PlaceInto_fits:
  assumes "plan_wf pl n" and "ungrouped n \<Longrightarrow> list_all (\<lambda>c. CollectColumnRefs c \<noteq> []) cs" and "plan_fits db n"
  shows "plan_fits db (PlaceInto n cs)"
  using assms
proof (induction n cs rule: PlaceInto.induct)
  case (3 left right conds cs)
  have ng: "\<not> ungrouped left" "\<not> ungrouped right" "plan_wf pl right" using "3.prems"(1) plain_not_ungrouped by auto
  have "length (plan_envs db (PlaceInto right x)) \<le> length (plan_envs db right)"
    "sum_list (map (\<lambda>env. cell_weight (env b i)) (plan_envs db (PlaceInto right x))) \<le>
     sum_list (map (\<lambda>env. cell_weight (env b i)) (plan_envs db right))" for b i x
    using PlaceInto_envs [OF ng(3), of x db] ng(2) by (simp_all add: sum_filter_le)
  from le_less_trans [OF this(1)] le_less_trans [OF this(2)]
  have "length (plan_envs db (PlaceInto right x)) < 2 ^ 32"
    "sum_list (map (\<lambda>env. cell_weight (env b i)) (plan_envs db (PlaceInto right x))) < varchar_capacity" for b i x
    using "3.prems"(3) by auto
  with 3 ng show ?case by (auto simp: Let_def WrapInFilter_def MakeLogicalFilter_def)
next
  case (4 input gb aggs cols cs)
  have ng: "\<not> ungrouped input" "plan_wf pl input" using "4.prems"(1) plain_not_ungrouped by auto
  have "length (plan_envs db (PlaceInto input x)) \<le> length (plan_envs db input)" for x
    using PlaceInto_envs [OF ng(2), of x db] ng(1) by simp
  then have "length (plan_envs db (PlaceInto input x)) < 2 ^ 31" for x using "4.prems"(3) by (auto intro: le_less_trans)
  with 4 ng show ?case by (auto simp: Let_def WrapInFilter_def MakeLogicalFilter_def)
qed (auto simp: WrapInFilter_def MakeLogicalFilter_def)

lemma Rewrite_fits: "plan_wf False n \<Longrightarrow> plan_fits db n \<Longrightarrow> plan_fits db (Rewrite n)"
proof (induction n)
  case (FilterNode input p)
  then show ?case
    using PlaceInto_fits [of True "Rewrite input" "ExtractConjuncts p" db] Rewrite_wf [of input] filter_conjuncts_refs [OF FilterNode.prems(1)]
    by auto
qed (auto simp: Rewrite_envs)

lemma Propagate_fits [simp]: "plan_fits db (Propagate n req) = plan_fits db n"
  by (induction n arbitrary: req) (simp_all add: Let_def)

section \<open>Optimize\<close>

theorem Optimize_yields:
  assumes plan: "plan = ProjectionNode input es oc" "plan_wf False plan" "narrow plan"
    and db: "plan_tables cat P db plan" "plan_fits db plan"
  shows "\<exists>op. Optimize plan cat = Inr op \<and> yields P op (map (type_of \<circ> ResultType) es) (plan_rows db plan)"
proof -
  let ?p = "PruneColumns (PushdownPredicates plan)" and ?refs = "concat (map CollectColumnRefs es)"
  let ?in = "Propagate (Rewrite input) ?refs"
  have eq: "?p = ProjectionNode ?in es oc" by (simp add: PruneColumns_def PushdownPredicates_def plan(1))
  have wf: "plan_wf True (Rewrite plan)" by (rule Rewrite_wf [OF plan(2)])
  have cov: "covered ?p \<and> ordinals_ok ?p"
    using Propagate_covers [OF wf narrow_aggregates, of "[]"] plan(3) by (simp add: PruneColumns_def PushdownPredicates_def)
  moreover have "\<not> wide ?in" using pruned_narrow [of "Rewrite input" ?refs] plan(1,3) cov unfolding eq by simp
  moreover have "plan_wf True ?p" using wf by (simp add: PruneColumns_def PushdownPredicates_def)
  moreover have "plan_fits db (Rewrite input)" using Rewrite_fits [of input db] plan(1,2) db(2) by simp
  ultimately obtain op where "Translate cat ?p = Inr op" "yields P op (map (type_of \<circ> ResultType) es) (plan_rows db ?p)"
    unfolding eq using projection_translated [of ?in es oc cat P db] db(1) plan(1) by auto
  moreover have "plan_rows db ?p = plan_rows db plan"
    using Rewrite_envs [of input db] plan(1,2) unfolding eq by simp
  ultimately show ?thesis by (simp add: Optimize_def)
qed

end
