(* ===== verification/DisjointSets.thy ===== *)
theory DisjointSets
  imports Binder
begin

text \<open>
  The \<open>DisjointSet\<close> of \<open>binder.cpp\<close> is a forest: following parents ends at the representative
  of an element. \<open>Find\<close> halves the path it walks, which changes parents but no representative,
  and ends within as many steps as there are elements. What a client may rely on is the locale
  \<open>disjoint_sets\<close>.
\<close>

section \<open>The interface\<close>

locale disjoint_sets =
  fixes wf :: "'s \<Rightarrow> bool" and size :: "'s \<Rightarrow> nat" and rep :: "'s \<Rightarrow> nat \<Rightarrow> nat"
    and find :: "nat \<Rightarrow> ('s, nat) action" and unite :: "nat \<Rightarrow> nat \<Rightarrow> ('s, unit) action"
  assumes find_rep: "wf s \<Longrightarrow> x < size s \<Longrightarrow>
      \<exists>s'. find x s = (Inr (rep s x), s') \<and> wf s' \<and> size s' = size s \<and> (\<forall>y < size s. rep s' y = rep s y)"
    and unite_rep: "wf s \<Longrightarrow> a < size s \<Longrightarrow> b < size s \<Longrightarrow>
      \<exists>s'. unite a b s = (Inr (), s') \<and> wf s' \<and> size s' = size s \<and>
        (\<forall>y < size s. rep s' y = (if rep s y = rep s a then rep s b else rep s y))"
begin

text \<open>Two states that no client can tell apart.\<close>

definition same_sets :: "'s \<Rightarrow> 's \<Rightarrow> bool" where
  "same_sets s s' = (wf s' \<and> size s' = size s \<and> (\<forall>y < size s. rep s' y = rep s y))"

lemma same_sets_refl: "wf s \<Longrightarrow> same_sets s s"
  by (simp add: same_sets_def)

lemma same_sets_trans: "same_sets s s' \<Longrightarrow> same_sets s' s'' \<Longrightarrow> same_sets s s''"
  by (simp add: same_sets_def)

lemma find_both:
  assumes "wf s" and "a < size s" and "b < size s"
  shows "\<exists>s'. sbind (find a) (\<lambda>ra. sbind (find b) (\<lambda>rb. sreturn (ra = rb))) s = (Inr (rep s a = rep s b), s') \<and> same_sets s s'"
proof -
  obtain t where t: "find a s = (Inr (rep s a), t)" "wf t" "size t = size s" "\<forall>y < size s. rep t y = rep s y"
    using find_rep [OF assms(1,2)] by blast
  obtain u where u: "find b t = (Inr (rep t b), u)" "wf u" "size u = size t" "\<forall>y < size t. rep u y = rep t y"
    using find_rep [OF t(2), of b] t(3) assms(3) by auto
  show ?thesis
    using t u assms(3) by (intro exI [of _ u]) (simp add: sbind_def same_sets_def)
qed

end

section \<open>Forests\<close>

definition ranked :: "(nat \<Rightarrow> nat) \<Rightarrow> DisjointSet \<Rightarrow> bool" where
  "ranked rk p = (\<forall>x < length p. p ! x < length p \<and> (p ! x \<noteq> x \<longrightarrow> rk x < rk (p ! x)))"

definition forest :: "DisjointSet \<Rightarrow> bool" where
  "forest p = (\<exists>rk. ranked rk p)"

inductive root_of :: "DisjointSet \<Rightarrow> nat \<Rightarrow> nat \<Rightarrow> bool" for p :: DisjointSet where
  root_self: "x < length p \<Longrightarrow> p ! x = x \<Longrightarrow> root_of p x x"
| root_step: "x < length p \<Longrightarrow> p ! x \<noteq> x \<Longrightarrow> root_of p (p ! x) r \<Longrightarrow> root_of p x r"

inductive_cases root_ofE: "root_of p x r"

text \<open>The representative: the parent of the parent, as often as there are elements.\<close>

definition root :: "DisjointSet \<Rightarrow> nat \<Rightarrow> nat" where
  "root p x = ((!) p ^^ length p) x"

text \<open>The elements that a walk from \<open>x\<close> may still meet.\<close>

definition above :: "(nat \<Rightarrow> nat) \<Rightarrow> DisjointSet \<Rightarrow> nat \<Rightarrow> nat set" where
  "above rk p x = {y. y < length p \<and> rk x < rk y}"

lemma finite_above [simp]: "finite (above rk p x)"
  by (simp add: above_def)

lemma above_less: "rk x < rk y \<Longrightarrow> y < length p \<Longrightarrow> card (above rk p y) < card (above rk p x)"
proof -
  assume r: "rk x < rk y" "y < length p"
  then have "y \<in> above rk p x" "y \<notin> above rk p y" "above rk p y \<subseteq> above rk p x" by (auto simp: above_def)
  then show ?thesis by (intro psubset_card_mono) auto
qed

lemma above_bound: "x < length p \<Longrightarrow> card (above rk p x) < length p"
proof -
  assume "x < length p"
  then have "above rk p x \<subseteq> {0..<length p} - {x}" by (auto simp: above_def)
  from card_mono [OF _ this] \<open>x < length p\<close> show ?thesis by simp
qed

lemma above_update [simp]: "above rk (p[i := v]) = above rk p"
  by (simp add: above_def fun_eq_iff)

lemma root_unique: "root_of p x r \<Longrightarrow> root_of p x r' \<Longrightarrow> r = r'"
proof (induction arbitrary: r' rule: root_of.induct)
  case (root_self x)
  from root_self(3) show ?case by (rule root_ofE) (simp_all add: root_self)
next
  case (root_step x r)
  from root_step.prems show ?case by (rule root_ofE) (simp_all add: root_step)
qed

lemma root_is_root: "root_of p x r \<Longrightarrow> r < length p \<and> p ! r = r"
  by (induction rule: root_of.induct) auto

lemma ranked_step: "ranked rk p \<Longrightarrow> x < length p \<Longrightarrow> p ! x < length p \<and> (p ! x \<noteq> x \<longrightarrow> rk x < rk (p ! x))"
  by (simp add: ranked_def)

lemma iterate_root:
  assumes "ranked rk p" and "x < length p" and "card (above rk p x) \<le> n"
  shows "root_of p x (((!) p ^^ n) x)"
  using assms(2,3)
proof (induction n arbitrary: x)
  case 0
  then have "p ! x = x" using ranked_step [OF assms(1), of x] by (auto simp: above_def)
  with 0 show ?case by (simp add: root_self)
next
  case (Suc n)
  note st = ranked_step [OF assms(1) Suc.prems(1)]
  show ?case
  proof (cases "p ! x = x")
    case True
    then have "((!) p ^^ Suc n) x = x" by (induction n) simp_all
    with True Suc.prems show ?thesis by (simp add: root_self)
  next
    case False
    then have "card (above rk p (p ! x)) \<le> n" using above_less [of rk x "p ! x" p] st Suc.prems by simp
    with Suc.IH [of "p ! x"] st False Suc.prems show ?thesis
      by (auto simp: funpow_swap1 intro: root_step)
  qed
qed

lemma root_of_root: "ranked rk p \<Longrightarrow> x < length p \<Longrightarrow> root_of p x (root p x)"
  unfolding root_def by (rule iterate_root) (auto dest: above_bound [of x p rk])

lemma root_of_iff: "ranked rk p \<Longrightarrow> x < length p \<Longrightarrow> root_of p x r \<longleftrightarrow> r = root p x"
  using root_of_root root_unique by blast

lemma root_props:
  assumes "ranked rk p" and "x < length p"
  shows "root p x < length p" "p ! root p x = root p x" "root p (root p x) = root p x"
proof -
  show r: "root p x < length p" "p ! root p x = root p x" using root_is_root [OF root_of_root [OF assms]] by simp_all
  show "root p (root p x) = root p x" using root_of_iff [OF assms(1) r(1)] root_self [OF r] by simp
qed

lemma root_parent: "ranked rk p \<Longrightarrow> x < length p \<Longrightarrow> root p (p ! x) = root p x"
  using root_of_iff [of rk p x "root p x"] root_of_iff [of rk p "p ! x"] ranked_step [of rk p x]
  by (metis root_ofE root_of_root)

section \<open>Path halving\<close>

lemma halving_ranked:
  assumes "ranked rk p" and "x < length p"
  shows "ranked rk (p[x := p ! (p ! x)])"
proof -
  have "p ! (p ! x) < length p \<and> (p ! (p ! x) \<noteq> x \<longrightarrow> rk x < rk (p ! (p ! x)))"
    using ranked_step [OF assms] ranked_step [OF assms(1), of "p ! x"] by (cases "p ! (p ! x) = p ! x") auto
  with assms show ?thesis by (auto simp: ranked_def nth_list_update)
qed

lemma update_root:
  assumes "ranked rk p" and "ranked rk' (p[x := v])" and "x < length p" and "v < length p"
    and "root p v = root p x" and "v \<noteq> x" and y: "y < length p"
  shows "root (p[x := v]) y = root p y"
proof -
  let ?q = "p[x := v]"
  have "root_of ?q y r \<Longrightarrow> y < length p \<Longrightarrow> r = root p y" for y r
  proof (induction rule: root_of.induct)
    case (root_self y)
    then have "y \<noteq> x" using assms(3,6) by auto
    with root_self have "root_of p y y" by (intro root_of.root_self) simp_all
    with root_self(3) show ?case using root_of_iff [OF assms(1), of y] by simp
  next
    case (root_step y r)
    then have "?q ! y < length p" using ranked_step [OF assms(2), of y] by simp
    with root_step have "r = root p (?q ! y)" by simp
    with root_step show ?case using assms(3,5) root_parent [OF assms(1), of y] by (cases "y = x") simp_all
  qed
  with root_of_root [OF assms(2), of y] y show ?thesis by simp
qed

lemma halving_root:
  assumes "ranked rk p" and "x < length p" and "p ! x \<noteq> x" and "y < length p"
  shows "root (p[x := p ! (p ! x)]) y = root p y"
proof (rule update_root [OF assms(1) halving_ranked [OF assms(1,2)] assms(2)])
  note st = ranked_step [OF assms(1,2)] and gp = ranked_step [OF assms(1), of "p ! x"]
  show "p ! (p ! x) < length p" using st gp by simp
  show "root p (p ! (p ! x)) = root p x" using st root_parent [OF assms(1)] assms(2) by simp
  show "p ! (p ! x) \<noteq> x" using st gp assms(3) by fastforce
qed (rule assms(4))

lemma Find_loop_correct:
  assumes "ranked rk p" and "x < length p" and "card (above rk p x) < fuel"
  shows "\<exists>p'. ds_Find_loop fuel x p = (Inr (root p x), p') \<and> ranked rk p' \<and> length p' = length p \<and>
    (\<forall>y < length p. root p' y = root p y)"
  using assms
proof (induction fuel arbitrary: x p)
  case (Suc fuel)
  note st = ranked_step [OF Suc.prems(1,2)]
  show ?case
  proof (cases "p ! x = x")
    case True
    then have "root p x = x" using root_of_iff [OF Suc.prems(1,2)] root_self [OF Suc.prems(2)] by simp
    with True Suc.prems show ?thesis by simp
  next
    case False
    let ?g = "p ! (p ! x)" let ?q = "p[x := ?g]"
    have gp: "?g < length p" "rk x < rk ?g"
      using st False ranked_step [OF Suc.prems(1), of "p ! x"] by (cases "?g = p ! x"; simp)+
    have "ranked rk ?q" using Suc.prems by (intro halving_ranked)
    moreover have "card (above rk ?q ?g) < fuel" using above_less [OF gp(2,1)] Suc.prems(3) by simp
    ultimately obtain p' where p': "ds_Find_loop fuel ?g ?q = (Inr (root ?q ?g), p')" "ranked rk p'"
      "length p' = length p" "\<forall>y < length p. root p' y = root ?q y"
      using Suc.IH [of ?q ?g] gp by auto
    have same: "\<forall>y < length p. root ?q y = root p y" using halving_root [OF Suc.prems(1,2) False] by simp
    have "root p ?g = root p x" using st root_parent [OF Suc.prems(1)] Suc.prems(2) by simp
    with False st gp p' same Suc.prems show ?thesis by simp
  qed
qed simp

lemma Find_correct:
  assumes "forest p" and "x < length p"
  shows "\<exists>p'. ds_Find x p = (Inr (root p x), p') \<and> forest p' \<and> length p' = length p \<and> (\<forall>y < length p. root p' y = root p y)"
proof -
  obtain rk where rk: "ranked rk p" using assms(1) by (auto simp: forest_def)
  then show ?thesis
    using Find_loop_correct [OF rk assms(2), of "Suc (length p)"] above_bound [OF assms(2), of rk]
    by (auto simp: ds_Find_def forest_def simp del: ds_Find_loop.simps)
qed

section \<open>Union\<close>

text \<open>Hanging one root below another: the elements of the first tree move below the second root.\<close>

lemma link_ranked:
  assumes "ranked rk p" and "a < length p" "b < length p" and "p ! a = a" "p ! b = b"
  shows "\<exists>rk'. ranked rk' (p[a := b])"
proof (cases "a = b")
  case True
  with assms have "p[a := b] = p" by (metis list_update_id)
  with assms(1) show ?thesis by auto
next
  case False
  define rk' where "rk' y = (if root p y = b then rk y + (rk a + 1) else rk y)" for y
  have rb: "root p b = b" "root p a = a"
    using assms root_of_iff [OF assms(1)] root_self by metis+
  have "ranked rk' (p[a := b])"
  proof (unfold ranked_def, intro allI impI conjI)
    fix x assume x: "x < length (p[a := b])"
    then show "p[a := b] ! x < length (p[a := b])" using assms(3) ranked_step [OF assms(1), of x]
      by (cases "x = a") simp_all
    assume "p[a := b] ! x \<noteq> x"
    then show "rk' x < rk' (p[a := b] ! x)"
      using x rb False ranked_step [OF assms(1), of x] root_parent [OF assms(1), of x]
      by (cases "x = a") (auto simp: rk'_def)
  qed
  then show ?thesis by blast
qed

lemma link_root:
  assumes "ranked rk p" and "a < length p" "b < length p" and "p ! a = a" "p ! b = b" and y: "y < length p"
  shows "root (p[a := b]) y = (if root p y = a then b else root p y)"
proof -
  let ?q = "p[a := b]"
  obtain rk' where rk': "ranked rk' ?q" using link_ranked [OF assms(1-5)] by blast
  have rb: "root p b = b" "root p a = a"
    using assms root_of_iff [OF assms(1)] root_self by metis+
  have "root_of ?q y r \<Longrightarrow> y < length p \<Longrightarrow> r = (if root p y = a then b else root p y)" for y r
  proof (induction rule: root_of.induct)
    case (root_self y)
    then have "y \<noteq> a \<Longrightarrow> root p y = y" using root_of_iff [OF assms(1)] root_of.root_self [of y p] by simp
    with root_self rb assms(2) show ?case by (cases "y = a") auto
  next
    case (root_step y r)
    then have "?q ! y < length p" using ranked_step [OF rk', of y] by simp
    with root_step have "r = (if root p (?q ! y) = a then b else root p (?q ! y))" by simp
    with root_step rb show ?case using assms(2) root_parent [OF assms(1), of y] by (cases "y = a") auto
  qed
  with root_of_root [OF rk', of y] y show ?thesis by simp
qed

lemma Union_correct:
  assumes "forest p" and "a < length p" and "b < length p"
  shows "\<exists>p'. ds_Union a b p = (Inr (), p') \<and> forest p' \<and> length p' = length p \<and>
    (\<forall>y < length p. root p' y = (if root p y = root p a then root p b else root p y))"
proof -
  obtain s where s: "ds_Find b p = (Inr (root p b), s)" "forest s" "length s = length p" "\<forall>y < length p. root s y = root p y"
    using Find_correct [OF assms(1,3)] by blast
  obtain t where t: "ds_Find a s = (Inr (root s a), t)" "forest t" "length t = length s" "\<forall>y < length s. root t y = root s y"
    using Find_correct [OF s(2), of a] s(3) assms(2) by auto
  obtain rk where rk: "ranked rk t" using t(2) by (auto simp: forest_def)
  have roots: "root t a < length t" "t ! root t a = root t a" "root t b < length t" "t ! root t b = root t b"
    using root_props [OF rk] assms s(3) t(3) by simp_all
  have eqs: "root t a = root p a" "root t b = root p b" "root s a = root p a" using s t assms by auto
  have "forest (t[root p a := root p b])"
    using link_ranked [OF rk] roots unfolding eqs forest_def by blast
  moreover have "root (t[root p a := root p b]) y = (if root p y = root p a then root p b else root p y)" if "y < length p" for y
    using link_root [OF rk, of "root p a" "root p b" y] roots s t that unfolding eqs by simp
  ultimately show ?thesis
    using s t eqs by (intro exI [of _ "t[root p a := root p b]"]) (simp add: ds_Union_def sbind_def)
qed

lemma MakeDisjointSet_forest: "forest (MakeDisjointSet n)" "length (MakeDisjointSet n) = n"
  by (auto simp: forest_def ranked_def MakeDisjointSet_def)

lemma MakeDisjointSet_root: "x < n \<Longrightarrow> root (MakeDisjointSet n) x = x"
proof -
  assume "x < n"
  then have "((!) (MakeDisjointSet n) ^^ k) x = x" for k by (induction k) (simp_all add: MakeDisjointSet_def)
  then show ?thesis by (simp add: root_def)
qed

interpretation ds: disjoint_sets forest length root ds_Find ds_Union
  by unfold_locales (simp_all add: Find_correct Union_correct)

section \<open>Connected components\<close>

text \<open>After a sequence of unions two elements have the same representative exactly when a chain of united pairs links them.\<close>

fun unite_all :: "(nat \<times> nat) list \<Rightarrow> (DisjointSet, unit) action" where
  "unite_all [] = sreturn ()"
| "unite_all ((a, b) # ps) = sbind (ds_Union a b) (\<lambda>_. unite_all ps)"

definition linked :: "(nat \<times> nat) set \<Rightarrow> (nat \<times> nat) set" where
  "linked E = (E \<union> E\<inverse>)\<^sup>*"

lemma linked_sym: "(x, y) \<in> linked E \<Longrightarrow> (y, x) \<in> linked E"
  unfolding linked_def by (rule symD [OF sym_rtrancl]) (auto simp: sym_def)

lemma linked_trans: "(x, y) \<in> linked E \<Longrightarrow> (y, z) \<in> linked E \<Longrightarrow> (x, z) \<in> linked E"
  unfolding linked_def by (rule rtrancl_trans)

lemma linked_insert:
  "(x, y) \<in> linked (insert (a, b) E) \<longleftrightarrow>
     (x, y) \<in> linked E \<or> (x, a) \<in> linked E \<and> (b, y) \<in> linked E \<or> (x, b) \<in> linked E \<and> (a, y) \<in> linked E"
proof -
  have step: "linked (insert (a, b) E) = (insert (a, b) (insert (b, a) (E \<union> E\<inverse>)))\<^sup>*"
    unfolding linked_def by (rule arg_cong [where f = rtrancl]) auto
  have "(x, y) \<in> linked (insert (a, b) E) \<longleftrightarrow>
    ((x, y) \<in> linked E \<or> (x, b) \<in> linked E \<and> (a, y) \<in> linked E) \<or>
    ((x, a) \<in> linked E \<or> (x, b) \<in> linked E \<and> (a, a) \<in> linked E) \<and>
    ((b, y) \<in> linked E \<or> (b, b) \<in> linked E \<and> (a, y) \<in> linked E)"
    unfolding step by (simp add: rtrancl_insert flip: linked_def)
  then show ?thesis
    using linked_trans [of x b E y] linked_trans [of x a E y] by blast
qed

lemma unite_all_linked:
  assumes "forest p" and "list_all (\<lambda>(a, b). a < length p \<and> b < length p) ps"
    and "\<forall>x < length p. \<forall>y < length p. root p x = root p y \<longleftrightarrow> (x, y) \<in> linked E"
  shows "\<exists>p'. unite_all ps p = (Inr (), p') \<and> forest p' \<and> length p' = length p \<and>
    (\<forall>x < length p. \<forall>y < length p. root p' x = root p' y \<longleftrightarrow> (x, y) \<in> linked (set ps \<union> E))"
  using assms
proof (induction ps arbitrary: p E)
  case (Cons pair ps)
  obtain a b where pair: "pair = (a, b)" by (cases pair)
  with Cons.prems have ab: "a < length p" "b < length p" by simp_all
  obtain q where q: "ds_Union a b p = (Inr (), q)" "forest q" "length q = length p"
    "\<forall>y < length p. root q y = (if root p y = root p a then root p b else root p y)"
    using Union_correct [OF Cons.prems(1) ab] by blast
  have "root q x = root q y \<longleftrightarrow> (x, y) \<in> linked (insert (a, b) E)" if "x < length p" "y < length p" for x y
  proof -
    have "(u, v) \<in> linked E \<longleftrightarrow> root p u = root p v" if "u < length p" "v < length p" for u v
      using Cons.prems(3) that by simp
    with that ab have "(x, y) \<in> linked (insert (a, b) E) \<longleftrightarrow> root p x = root p y \<or>
        root p x = root p a \<and> root p b = root p y \<or> root p x = root p b \<and> root p a = root p y"
      unfolding linked_insert by simp
    with q(4) that show ?thesis by auto
  qed
  with Cons.IH [of q "insert (a, b) E"] Cons.prems(2) q(2,3)
  obtain p' where p': "unite_all ps q = (Inr (), p')" "forest p'" "length p' = length p"
    "\<forall>x < length p. \<forall>y < length p. root p' x = root p' y \<longleftrightarrow> (x, y) \<in> linked (set ps \<union> insert (a, b) E)"
    by auto
  then show ?case using q(1) by (intro exI [of _ p']) (simp add: pair sbind_def)
qed simp

end
