(* ===== verification/FromCorrect.thy ===== *)
theory FromCorrect
  imports DisjointSets QueryCorrect
begin

text \<open>
  What \<open>BindFromClause\<close> builds. A table reference adds bindings to the scope and its plan gives
  all their columns; the parts of a comma list are joined from left to right, each by the first
  equality that links it to an earlier one.
\<close>

section \<open>Expressions\<close>

text \<open>
  Conditions on a statement that the binder does not check: predicates are no operands of
  comparisons or arithmetic, and string literals are not enormous.
\<close>

fun is_predicate :: "RawExpression \<Rightarrow> bool" where
  "is_predicate (RawBinaryOp op l r) = (\<not> IsArithmeticOperator op)"
| "is_predicate (RawUnaryOp op e) = True"
| "is_predicate _ = False"

fun raw_fine :: "RawExpression \<Rightarrow> bool" where
  "raw_fine (RawConst c) = (case c of StringLiteral s \<Rightarrow> length s < 2 ^ 21 | _ \<Rightarrow> True)"
| "raw_fine (RawBinaryOp op l r) =
     (raw_fine l \<and> raw_fine r \<and> (IsLogicalOperator op \<or> \<not> is_predicate l \<and> \<not> is_predicate r))"
| "raw_fine (RawUnaryOp op e) = raw_fine e"
| "raw_fine _ = True"

lemma ToExpressionType_not_boolean [simp]: "ToExpressionType t \<noteq> etBoolean" "etBoolean \<noteq> ToExpressionType t"
  by (cases t; simp)+

lemma checked_result_type:
  assumes "ResultTypeForBinaryOp_checked op a b = Inr t"
  shows "t = etBoolean \<longleftrightarrow> \<not> IsArithmeticOperator op"
  using assms by (cases op) (auto simp: ResultTypeForBinaryOp_checked_def IsLogicalOperator_def IsArithmeticOperator_def Let_def
      split: if_splits)

lemma bound_result_type:
  "BindScalarExpression e scope = Inr b \<Longrightarrow> ResultType b = etBoolean \<longleftrightarrow> is_predicate e"
proof (induction e arbitrary: b)
  case (RawConst c)
  then show ?case using BindConst_Inr [of c b] by auto
next
  case (RawBinaryOp op l r)
  then obtain left right t where b: "ResultTypeForBinaryOp_checked op (ResultType left) (ResultType right) = Inr t"
    "b = (if IsLogicalOperator op then MakeBooleanOp op left right else MakeArithmeticOp op left right t)"
    by (auto simp: result_simps)
  have "ResultType b = t"
    using b(1) unfolding b(2) by (cases op) (auto simp: ResultTypeForBinaryOp_checked_def IsLogicalOperator_def
      MakeBooleanOp_def MakeArithmeticOp_def Let_def split: if_splits)
  with checked_result_type [OF b(1)] show ?case by simp
qed (auto simp: result_simps MakeColumnRef_def MakeNot_def)

definition in_scope :: "ResolutionScope \<Rightarrow> BoundExpression \<Rightarrow> bool" where
  "in_scope scope b = list_all (ref_in_scope scope) (CollectColumnRefs b)"

lemma MakeColumnRef_same [simp]: "MakeColumnRef (cr_table_id ref) (cr_ordinal ref) (cr_type ref) = ColumnRefNode ref"
  by (cases ref) (simp add: MakeColumnRef_def)

lemma bound_typed:
  assumes "scope_ok scope"
  shows "BindScalarExpression e scope = Inr b \<Longrightarrow> raw_fine e \<Longrightarrow> expr_typed b \<and> in_scope scope b"
proof (induction e arbitrary: b)
  case (RawColumnRef node)
  then show ?case using Resolve_in_scope [OF assms] by (auto simp: result_simps in_scope_def)
next
  case (RawConst c)
  then obtain v where "b = ConstNode v" "\<forall>s. v = VString s \<longrightarrow> c = StringLiteral s" using BindConst_Inr [of c b] by auto
  with RawConst.prems show ?case by (cases v) (auto simp: in_scope_def)
next
  case (RawBinaryOp op l r)
  then obtain left right t where b: "BindScalarExpression l scope = Inr left" "BindScalarExpression r scope = Inr right"
    "ResultTypeForBinaryOp_checked op (ResultType left) (ResultType right) = Inr t"
    "b = (if IsLogicalOperator op then MakeBooleanOp op left right else MakeArithmeticOp op left right t)"
    by (auto simp: result_simps)
  from RawBinaryOp have lr: "expr_typed left \<and> in_scope scope left" "expr_typed right \<and> in_scope scope right" using b by auto
  have "IsLogicalOperator op \<or> ResultType left \<noteq> etBoolean \<and> ResultType right \<noteq> etBoolean"
    using RawBinaryOp.prems(2) bound_result_type b(1,2) by auto
  with checked_binary_typed(1) [OF b(3)] lr show ?case
    by (auto simp: b(4) in_scope_def MakeBooleanOp_def MakeArithmeticOp_def)
next
  case (RawUnaryOp op e)
  then show ?case by (auto simp: result_simps MakeNot_def ResultTypeForUnaryOp_def in_scope_def split: if_splits)
qed simp

text \<open>A predicate over the columns that \<open>A\<close> accepts.\<close>

definition predicate_in :: "(BoundColumnRef \<Rightarrow> bool) \<Rightarrow> BoundExpression \<Rightarrow> bool" where
  "predicate_in A p = (expr_typed p \<and> ResultType p = etBoolean \<and> list_all A (CollectColumnRefs p))"

lemma BindPredicate_in:
  "scope_ok scope \<Longrightarrow> BindPredicate e scope = Inr p \<Longrightarrow> raw_fine e \<Longrightarrow> predicate_in (ref_in_scope scope) p"
  using bound_typed by (auto simp: BindPredicate_def predicate_in_def in_scope_def result_simps split: if_splits)

lemma predicate_in_and: "predicate_in A (BinaryOpNode kAnd p q t) \<longleftrightarrow> predicate_in A p \<and> predicate_in A q"
  by (auto simp: predicate_in_def IsArithmeticOperator_def IsLogicalOperator_def)

lemma predicate_in_conjuncts:
  "predicate_in A p \<Longrightarrow> c \<in> set (ExtractConjuncts p) \<Longrightarrow> predicate_in A c"
proof (induction p)
  case (BinaryOpNode op l r t)
  show ?case
  proof (cases "op = kAnd")
    case True
    with BinaryOpNode show ?thesis using predicate_in_and [of A l r t] by auto
  qed (use BinaryOpNode in simp)
qed simp_all

lemma FlattenAnd_fine: "raw_fine e \<Longrightarrow> list_all raw_fine out \<Longrightarrow> list_all raw_fine (FlattenAnd e out)"
proof (induction e arbitrary: out)
  case (RawBinaryOp op l r)
  then show ?case by (cases "op = kAnd") simp_all
qed simp_all

section \<open>Comma lists without disjoint sets\<close>

text \<open>Part \<open>i\<close> is linked to an earlier part.\<close>

definition links :: "nat \<Rightarrow> (nat \<times> nat) \<times> 'e \<Rightarrow> bool" where
  "links i = (\<lambda>((a, b), _). a < i \<and> b = i \<or> b < i \<and> a = i)"

fun joined_plan ::
    "((nat \<times> nat) \<times> (BoundColumnRef \<times> BoundColumnRef)) list \<Rightarrow> nat \<Rightarrow> FromBinding list \<Rightarrow> LogicalPlanNode \<Rightarrow>
     LogicalPlanNode result" where
  "joined_plan connections i [] combined = Inr combined"
| "joined_plan connections i (part # parts) combined =
     (case find (links i) connections of
        None \<Rightarrow> Inl (BindError ''Cartesian product not allowed: FROM items must be connected by a WHERE-clause'')
      | Some (_, equality) \<Rightarrow>
          joined_plan connections (Suc i) parts (JoinNode combined (fb_plan part) [equality]))"

text \<open>The sets before part \<open>i\<close> is joined: the parts before it with representative 0, the others alone.\<close>

definition prefix_merged :: "nat \<Rightarrow> nat \<Rightarrow> DisjointSet \<Rightarrow> bool" where
  "prefix_merged n i g = (forest g \<and> length g = n \<and> (\<forall>y < n. root g y = (if y < i then 0 else y)))"

lemma prefix_merged_same: "prefix_merged n i g \<Longrightarrow> ds.same_sets g g' \<Longrightarrow> prefix_merged n i g'"
  by (simp add: prefix_merged_def ds.same_sets_def)

lemma same_group_merged:
  assumes "prefix_merged n i g" and "0 < i" "i < n" and "a < n"
  shows "\<exists>g'. same_group a 0 g = (Inr (a < i), g') \<and> prefix_merged n i g'"
proof -
  have g: "forest g" "length g = n" "\<forall>y < n. root g y = (if y < i then 0 else y)" using assms(1) by (simp_all add: prefix_merged_def)
  obtain g' where g': "same_group a 0 g = (Inr (root g a = root g 0), g')" "ds.same_sets g g'"
    using ds.find_both [OF g(1), of a 0] assms g(2) unfolding same_group_def by auto
  moreover have "root g a = root g 0 \<longleftrightarrow> a < i" using g(3) assms by auto
  ultimately show ?thesis using prefix_merged_same [OF assms(1)] by auto
qed

lemma connects_to_merged:
  assumes "prefix_merged n i g" and "0 < i" "i < n" and "a < n" "b < n"
  shows "\<exists>g'. connects_to 0 i (a, b) g = (Inr (links i ((a, b), e)), g') \<and> prefix_merged n i g'"
proof -
  obtain g1 where g1: "same_group a 0 g = (Inr (a < i), g1)" "prefix_merged n i g1"
    using same_group_merged [OF assms(1-4)] by blast
  obtain g2 where g2: "same_group b 0 g1 = (Inr (b < i), g2)" "prefix_merged n i g2"
    using same_group_merged [OF g1(2) assms(2,3,5)] by blast
  show ?thesis
    using g1 g2 by (cases "a < i \<and> b = i") (auto simp: connects_to_def sbind_def links_def)
qed

lemma find_connection_merged:
  assumes "prefix_merged n i g" and "0 < i" "i < n" and "list_all (\<lambda>((a, b), _). a < n \<and> b < n) cs"
  shows "\<exists>g'. find_connection 0 i cs g = (Inr (map_option snd (find (links i) cs)), g') \<and> prefix_merged n i g'"
  using assms
proof (induction cs arbitrary: g)
  case (Cons c cs)
  obtain a b e where c: "c = ((a, b), e)" by (metis prod.exhaust)
  with Cons.prems have "a < n" "b < n" by simp_all
  from connects_to_merged [OF Cons.prems(1-3) this, of e] obtain g' where
    g': "connects_to 0 i (a, b) g = (Inr (links i c), g')" "prefix_merged n i g'" by (auto simp: c)
  moreover obtain g'' where "find_connection 0 i cs g' = (Inr (map_option snd (find (links i) cs)), g'')" "prefix_merged n i g''"
    using Cons.IH [OF g'(2) Cons.prems(2,3)] Cons.prems(4) by auto
  ultimately show ?case by (cases "links i c") (simp_all add: c sbind_def)
qed simp

lemma Union_merged:
  assumes "prefix_merged n i g" and "0 < i" "i < n"
  shows "\<exists>g'. ds_Union i 0 g = (Inr (), g') \<and> prefix_merged n (Suc i) g'"
proof -
  have g: "forest g" "length g = n" "\<forall>y < n. root g y = (if y < i then 0 else y)" using assms(1) by (simp_all add: prefix_merged_def)
  obtain g' where g': "ds_Union i 0 g = (Inr (), g')" "forest g'" "length g' = n"
    "\<forall>y < n. root g' y = (if root g y = root g i then root g 0 else root g y)"
    using Union_correct [OF g(1), of i 0] g(2) assms by auto
  moreover have "root g' y = (if y < Suc i then 0 else y)" if "y < n" for y
    using g'(4) g(3) assms that by auto
  ultimately show ?thesis by (auto simp: prefix_merged_def)
qed

lemma join_parts_merged:
  assumes "list_all (\<lambda>((a, b), _). a < n \<and> b < n) cs" and "prefix_merged n i g" and "0 < i" "i + length parts = n"
  shows "fst (join_parts cs (enumerate i parts) combined g) = joined_plan cs i parts combined"
  using assms(2-4)
proof (induction parts arbitrary: i g combined)
  case (Cons part parts)
  then have "i < n" by simp
  from find_connection_merged [OF Cons.prems(1,2) this assms(1)] obtain g1 where
    g1: "find_connection 0 i cs g = (Inr (map_option snd (find (links i) cs)), g1)" "prefix_merged n i g1" by blast
  obtain g2 where g2: "ds_Union i 0 g1 = (Inr (), g2)" "prefix_merged n (Suc i) g2"
    using Union_merged [OF g1(2) Cons.prems(2) \<open>i < n\<close>] by blast
  show ?case
    using Cons.IH [OF g2(2)] Cons.prems(3) g1(1) g2(1)
    by (auto simp: sbind_def sthrow_def MakeLogicalJoin_def split: option.split)
qed simp

lemma classified_pairs:
  assumes "rfold (classify_conjunct scope parts) cs st = Inr st'"
    and "list_all (\<lambda>(a, b). a < length parts \<and> b < length parts) (connecting_pairs st)"
    and "length (connecting_equalities st) = length (connecting_pairs st)"
  shows "list_all (\<lambda>(a, b). a < length parts \<and> b < length parts) (connecting_pairs st') \<and>
    length (connecting_equalities st') = length (connecting_pairs st') \<and>
    set (remaining st') \<subseteq> set (remaining st) \<union> set cs"
  using assms
proof (induction cs arbitrary: st)
  case (Cons c cs)
  have idx: "part_index_of parts b = Inr i \<Longrightarrow> i < length parts" for b i
    by (auto simp: part_index_of_def split: option.splits dest: find_nth)
  obtain st1 where st1: "classify_conjunct scope parts c st = Inr st1" "rfold (classify_conjunct scope parts) cs st1 = Inr st'"
    using Cons.prems(1) by (auto simp: result_simps)
  have "list_all (\<lambda>(a, b). a < length parts \<and> b < length parts) (connecting_pairs st1) \<and>
    length (connecting_equalities st1) = length (connecting_pairs st1) \<and> set (remaining st1) \<subseteq> insert c (set (remaining st))"
    using st1(1) Cons.prems(2,3) idx
    by (auto simp: classify_conjunct_def Let_def result_simps split: RawExpression.splits if_splits)
  with Cons.IH [OF st1(2)] show ?case by auto
qed simp

definition no_connections :: Connections where
  "no_connections = \<lparr>remaining = [], connecting_pairs = [], connecting_equalities = []\<rparr>"

lemma combine_parts_joined:
  assumes "2 \<le> length parts"
  shows "combine_parts parts cs scope =
    rbind (rfold (classify_conjunct scope parts) cs no_connections) (\<lambda>st.
    rbind (joined_plan (zip (connecting_pairs st) (connecting_equalities st)) 1 (tl parts) (fb_plan (hd parts))) (\<lambda>combined.
      Inr \<lparr>fr_plan = combined, fr_remaining_where_conjuncts = remaining st\<rparr>))"
proof -
  have init: "prefix_merged (length parts) 1 (MakeDisjointSet (length parts))"
    using MakeDisjointSet_forest [of "length parts"] MakeDisjointSet_root [of _ "length parts"]
    by (simp add: prefix_merged_def)
  have "fst (join_parts (zip (connecting_pairs st) (connecting_equalities st)) (enumerate 1 (tl parts)) (fb_plan (hd parts))
      (MakeDisjointSet (length parts))) =
    joined_plan (zip (connecting_pairs st) (connecting_equalities st)) 1 (tl parts) (fb_plan (hd parts))"
    if "rfold (classify_conjunct scope parts) cs no_connections = Inr st" for st
  proof (rule join_parts_merged [OF _ init])
    show "list_all (\<lambda>((a, b), _). a < length parts \<and> b < length parts) (zip (connecting_pairs st) (connecting_equalities st))"
      using classified_pairs [OF that] by (force simp: no_connections_def list_all_iff dest: set_zip_leftD)
  qed (use assms in auto)
  with assms show ?thesis
    unfolding combine_parts_def no_connections_def [symmetric]
    by (cases "rfold (classify_conjunct scope parts) cs no_connections") auto
qed

section \<open>Plans over a scope\<close>

text \<open>A plan of scans, filters and joins that gives all columns of some bindings.\<close>

definition covers :: "ResolutionScope \<Rightarrow> LogicalPlanNode \<Rightarrow> bool" where
  "covers bs plan = (plain plan \<and> CollectBindingIds plan = map rb_binding_id bs \<and>
     (\<forall>ref. ref_in_scope bs ref \<longrightarrow> avail plan ref))"

text \<open>Scans and joins only.\<close>

fun joins_only :: "LogicalPlanNode \<Rightarrow> bool" where
  "joins_only (ScanNode scan) = True"
| "joins_only (JoinNode left right conds) = (joins_only left \<and> joins_only right)"
| "joins_only _ = False"

text \<open>
  What the binder checks of a plan over the columns \<open>A\<close> of a \<open>FROM\<close> clause: tables have different
  binding identifiers, filters and join keys name columns of the clause, predicates are
  well-typed, grouping columns exist, aggregates are applied to columns that they support, and
  the select list names columns of what is below it.
\<close>

fun plan_bound :: "(BoundColumnRef \<Rightarrow> bool) \<Rightarrow> LogicalPlanNode \<Rightarrow> bool" where
  "plan_bound A (ScanNode scan) =
     (ls_binding_id scan \<noteq> kAggregateOutputBindingId \<and> list_all (\<lambda>c. oc_type c \<noteq> etBoolean) (ls_output_columns scan))"
| "plan_bound A (FilterNode input p) = (plan_bound A input \<and> \<not> is_projection input \<and> predicate_in A p)"
| "plan_bound A (JoinNode left right conds) =
     (plan_bound A left \<and> plan_bound A right \<and> joins_only left \<and> joins_only right \<and>
      set (CollectBindingIds left) \<inter> set (CollectBindingIds right) = {} \<and> list_all (\<lambda>(a, b). A a \<and> A b) conds)"
| "plan_bound A (AggregateNode input gb aggregates cols) =
     (plan_bound A input \<and> plain input \<and> list_all A gb \<and> list_all (call_ok input) aggregates)"
| "plan_bound A (ProjectionNode input es cols) =
     (plan_bound A input \<and> \<not> is_projection input \<and> list_all (\<lambda>e. expr_typed e \<and> all_avail input e) es)"

lemma plan_bound_mono: "plan_bound A plan \<Longrightarrow> (\<And>ref. A ref \<Longrightarrow> B ref) \<Longrightarrow> plan_bound B plan"
  by (induction plan) (auto simp: predicate_in_def list_all_iff)

text \<open>A part of the \<open>FROM\<close> clause, over the bindings \<open>bs\<close>, whose conditions are resolved in \<open>scope\<close>.\<close>

definition bound_part :: "ResolutionScope \<Rightarrow> ResolutionScope \<Rightarrow> LogicalPlanNode \<Rightarrow> bool" where
  "bound_part scope bs plan = (covers bs plan \<and> joins_only plan \<and> plan_bound (ref_in_scope scope) plan)"

lemma ref_in_scope_append: "ref_in_scope (as @ bs) ref \<longleftrightarrow> ref_in_scope as ref \<or> ref_in_scope bs ref"
  by (auto simp: ref_in_scope_def)

lemma bound_part_append: "bound_part scope bs plan \<Longrightarrow> bound_part (scope @ new) bs plan"
  using plan_bound_mono [of "ref_in_scope scope" plan "ref_in_scope (scope @ new)"] by (simp add: bound_part_def ref_in_scope_append)

definition few_tables :: "ResolutionScope \<Rightarrow> bool" where
  "few_tables scope = (length scope < 2 ^ 32 - 1)"

lemma scope_binding_ids: "scope_ok scope \<Longrightarrow> map rb_binding_id scope = map word_of_nat [0..<length scope]"
  by (rule nth_equalityI) (simp_all add: scope_ok_def)

lemma distinct_binding_ids: "scope_ok scope \<Longrightarrow> distinct (map rb_binding_id scope)"
  unfolding scope_binding_ids distinct_map
  by (auto simp: scope_ok_def inj_on_def dest!: arg_cong [where f = unat])

lemma binding_id_not_aggregate:
  assumes "scope_ok scope" "few_tables scope" "b \<in> set scope"
  shows "rb_binding_id b \<noteq> kAggregateOutputBindingId"
proof -
  obtain i where i: "i < length scope" "scope ! i = b" using assms(3) by (auto simp: in_set_conv_nth)
  then have "unat (rb_binding_id b) = i" using assms(1) by (auto simp: scope_ok_def)
  moreover have "unat kAggregateOutputBindingId = 2 ^ 32 - 1" by (simp add: kAggregateOutputBindingId_def)
  ultimately show ?thesis using i(1) assms(2) by (auto simp: few_tables_def)
qed

lemma bound_part_scan:
  assumes "scope_ok scope" "few_tables scope" "b \<in> set scope"
  shows "bound_part scope [b] (MakeLogicalScan (rb_binding_id b) t (map output_column (to_columns (rb_table b))))"
  using binding_id_not_aggregate [OF assms]
  by (auto simp: bound_part_def covers_def MakeLogicalScan_def ref_in_scope_def output_column_def list_all_iff)

lemma bound_part_join:
  assumes "bound_part scope as left" "bound_part scope bs right" and "distinct (map rb_binding_id (as @ bs))"
    and "list_all (\<lambda>(a, b). ref_in_scope scope a \<and> ref_in_scope scope b) conds"
  shows "bound_part scope (as @ bs) (JoinNode left right conds)"
  using assms by (auto simp: bound_part_def covers_def ref_in_scope_append)

section \<open>Table references\<close>

lemma bind_base_table_extends:
  "bind_base_table name alias catalog scope = (Inr fb, scope') \<Longrightarrow> \<exists>new. scope' = scope @ new"
  by (auto simp: bind_base_table_def sbind_def RegisterTable_def Let_def split: option.splits if_splits sum.splits prod.splits)

lemma BindTableRef_extends:
  "BindTableRef ref catalog scope = (Inr fb, scope') \<Longrightarrow> \<exists>new. scope' = scope @ new"
proof (induction ref catalog arbitrary: scope fb scope' rule: BindTableRef.induct)
  case (1 table_name a catalog)
  then show ?case by (simp add: bind_base_table_extends)
next
  case (2 l r on_condition catalog)
  then obtain left s1 right s2 where lr: "BindTableRef l catalog scope = (Inr left, s1)" "BindTableRef r catalog s1 = (Inr right, s2)"
    "join_bindings left right on_condition s2 = (Inr fb, scope')"
    by (auto simp: result_simps)
  then have "scope' = s2" by (simp add: join_bindings_def Let_def)
  with 2(1) [OF lr(1)] 2(2) [OF lr(2)] show ?case by auto
qed (simp_all add: sthrow_def)

lemma bind_base_table_bound:
  assumes "scope_ok scope" "catalog_tables_ok catalog" "few_tables scope'"
    and "bind_base_table name alias catalog scope = (Inr fb, scope')"
  shows "\<exists>new. scope' = scope @ new \<and> scope_ok scope' \<and> fb_binding_ids fb = map rb_binding_id new \<and> bound_part scope' new (fb_plan fb)"
proof -
  from assms(4) obtain i s1 where "RegisterTable name alias catalog scope = (Inr i, s1)"
    "(case BindingFor s1 i of Inl e \<Rightarrow> (Inl e, s1) | Inr binding \<Rightarrow>
       (Inr \<lparr>fb_plan = MakeLogicalScan i (to_table_id (rb_table binding)) (map output_column (to_columns (rb_table binding))),
             fb_binding_ids = [i]\<rparr>, s1)) = (Inr fb, scope')"
    unfolding bind_base_table_def sbind_Inr_iff by blast
  then have i: "RegisterTable name alias catalog scope = (Inr i, scope')"
    by (cases "BindingFor s1 i") simp_all
  have len: "length scope' < 2 ^ 32" using assms(3) by (simp add: few_tables_def)
  obtain t where t: "i = word_of_nat (length scope)" "scope_ok scope'"
    "scope' = scope @ [\<lparr>rb_binding_id = i, rb_binding_name = (case alias of None \<Rightarrow> name | Some a \<Rightarrow> a), rb_table = t\<rparr>]"
    by (rule RegisterTable_ok [OF assms(1,2) i len])
  let ?b = "\<lparr>rb_binding_id = i, rb_binding_name = (case alias of None \<Rightarrow> name | Some a \<Rightarrow> a), rb_table = t\<rparr>"
  have "BindingFor scope' i = Inr ?b" using t(1,3) len by (simp add: BindingFor_def)
  then have "fb = \<lparr>fb_plan = MakeLogicalScan i (to_table_id t) (map output_column (to_columns t)), fb_binding_ids = [i]\<rparr>"
    using assms(4) i by (simp add: bind_base_table_def sbind_def)
  with bound_part_scan [OF t(2) assms(3), of ?b "to_table_id t"] t(2,3) show ?thesis by (intro exI [of _ "[?b]"]) simp
qed

lemma bind_equality_in_scope: "scope_ok scope \<Longrightarrow> bind_equality scope c = Inr (a, b) \<Longrightarrow> ref_in_scope scope a \<and> ref_in_scope scope b"
  using Resolve_in_scope by (auto simp: bind_equality_def Let_def result_simps split: RawExpression.splits if_splits)

lemma bind_equalities_in_scope:
  assumes "scope_ok scope" "rmap (bind_equality scope) cs = Inr conds"
  shows "list_all (\<lambda>(a, b). ref_in_scope scope a \<and> ref_in_scope scope b) conds"
  using assms(2)
proof (induction cs arbitrary: conds)
  case (Cons c cs)
  then show ?case using bind_equality_in_scope [OF assms(1), of c] by (auto simp: result_simps)
qed simp

lemma BindTableRef_bound:
  assumes "catalog_tables_ok catalog"
  shows "BindTableRef ref catalog scope = (Inr fb, scope') \<Longrightarrow> scope_ok scope \<Longrightarrow> few_tables scope' \<Longrightarrow>
    \<exists>new. scope' = scope @ new \<and> scope_ok scope' \<and> fb_binding_ids fb = map rb_binding_id new \<and> bound_part scope' new (fb_plan fb)"
  using assms
proof (induction ref catalog arbitrary: scope fb scope' rule: BindTableRef.induct)
  case (1 table_name a catalog)
  then show ?case by (intro bind_base_table_bound) simp_all
next
  case (2 l r on_condition catalog)
  then obtain left s1 right s2 where lr: "BindTableRef l catalog scope = (Inr left, s1)" "BindTableRef r catalog s1 = (Inr right, s2)"
    "join_bindings left right on_condition s2 = (Inr fb, scope')"
    by (auto simp: result_simps)
  then have s: "scope' = s2" by (simp add: join_bindings_def Let_def)
  have "few_tables s1" using 2(5) BindTableRef_extends [OF lr(2)] by (auto simp: s few_tables_def)
  with 2(1) [OF lr(1) 2(4) _ 2(6)] obtain new1 where n1: "s1 = scope @ new1" "scope_ok s1"
    "fb_binding_ids left = map rb_binding_id new1" "bound_part s1 new1 (fb_plan left)" by auto
  obtain new2 where n2: "s2 = s1 @ new2" "scope_ok s2"
    "fb_binding_ids right = map rb_binding_id new2" "bound_part s2 new2 (fb_plan right)"
    using 2(2) [OF lr(2) n1(2) _ 2(6)] 2(5) s by auto
  obtain conds where fb: "fb = \<lparr>fb_plan = JoinNode (fb_plan left) (fb_plan right) conds,
      fb_binding_ids = fb_binding_ids left @ fb_binding_ids right\<rparr>"
      and conds: "list_all (\<lambda>(a, b). ref_in_scope s2 a \<and> ref_in_scope s2 b) conds"
    using lr(3) bind_equalities_in_scope [OF n2(2)] by (auto simp: join_bindings_def Let_def MakeLogicalJoin_def result_simps)
  have "distinct (map rb_binding_id (new1 @ new2))" using distinct_binding_ids [OF n2(2)] by (simp add: n1(1) n2(1))
  moreover have "bound_part s2 new1 (fb_plan left)" using bound_part_append [OF n1(4)] n2(1) by simp
  ultimately have "bound_part s2 (new1 @ new2) (JoinNode (fb_plan left) (fb_plan right) conds)"
    using bound_part_join [OF _ n2(4) _ conds] by blast
  with n1 n2 show ?case
    by (intro exI [of _ "new1 @ new2"]) (simp add: fb s)
qed (simp_all add: sthrow_def)

lemma parts_bound:
  assumes "catalog_tables_ok catalog"
  shows "smap (\<lambda>item. BindTableRef item catalog) items scope = (Inr parts, scope') \<Longrightarrow> scope_ok scope \<Longrightarrow> few_tables scope' \<Longrightarrow>
    \<exists>news. scope' = scope @ concat news \<and> scope_ok scope' \<and> list_all2 (\<lambda>new fb. bound_part scope' new (fb_plan fb)) news parts"
proof (induction items arbitrary: scope parts)
  case (Cons item items)
  then obtain fb s1 fbs where fb: "BindTableRef item catalog scope = (Inr fb, s1)"
    "smap (\<lambda>item. BindTableRef item catalog) items s1 = (Inr fbs, scope')" "parts = fb # fbs"
    by (auto simp: result_simps)
  have ext: "smap (\<lambda>item. BindTableRef item catalog) its s = (Inr ps, s') \<Longrightarrow> length s \<le> length s'" for its s ps s'
  proof (induction its arbitrary: s ps)
    case (Cons it its)
    then obtain p s1 ps' where "BindTableRef it catalog s = (Inr p, s1)"
      "smap (\<lambda>item. BindTableRef item catalog) its s1 = (Inr ps', s')"
      by (auto simp: result_simps)
    with Cons.IH BindTableRef_extends show ?case by fastforce
  qed simp
  then have "few_tables s1" using ext [OF fb(2)] Cons.prems(3) by (simp add: few_tables_def)
  with BindTableRef_bound [OF assms fb(1) Cons.prems(2)] obtain new where new: "s1 = scope @ new" "scope_ok s1" "bound_part s1 new (fb_plan fb)"
    by auto
  with Cons.IH [OF fb(2) new(2) Cons.prems(3)] obtain news where
    news: "scope' = s1 @ concat news" "scope_ok scope'" "list_all2 (\<lambda>new fb. bound_part scope' new (fb_plan fb)) news fbs" by auto
  moreover have "bound_part scope' new (fb_plan fb)" using bound_part_append [OF new(3)] by (simp add: news(1))
  ultimately show ?case using new(1) fb(3) by (intro exI [of _ "new # news"]) simp
qed simp

lemma classified_equalities:
  assumes "scope_ok scope" "rfold (classify_conjunct scope parts) cs st = Inr st'"
    and "list_all (\<lambda>(a, b). ref_in_scope scope a \<and> ref_in_scope scope b) (connecting_equalities st)"
  shows "list_all (\<lambda>(a, b). ref_in_scope scope a \<and> ref_in_scope scope b) (connecting_equalities st')"
  using assms(2,3)
proof (induction cs arbitrary: st)
  case (Cons c cs)
  obtain st1 where st1: "classify_conjunct scope parts c st = Inr st1" "rfold (classify_conjunct scope parts) cs st1 = Inr st'"
    using Cons.prems(1) by (auto simp: result_simps)
  have "list_all (\<lambda>(a, b). ref_in_scope scope a \<and> ref_in_scope scope b) (connecting_equalities st1)"
    using st1(1) Cons.prems(2) Resolve_in_scope [OF assms(1)]
    by (auto simp: classify_conjunct_def Let_def result_simps split: RawExpression.splits if_splits)
  with Cons.IH [OF st1(2)] show ?case by simp
qed simp

lemma joined_plan_bound:
  assumes "joined_plan cs i parts combined = Inr plan" and "bound_part scope bs combined"
    and "list_all2 (\<lambda>new fb. bound_part scope new (fb_plan fb)) news parts" and "distinct (map rb_binding_id (bs @ concat news))"
    and "\<And>k a b. (k, (a, b)) \<in> set cs \<Longrightarrow> ref_in_scope scope a \<and> ref_in_scope scope b"
  shows "bound_part scope (bs @ concat news) plan"
  using assms(1-4)
proof (induction parts arbitrary: i bs combined news)
  case (Cons part parts)
  then obtain new news' where news: "news = new # news'" "bound_part scope new (fb_plan part)"
    "list_all2 (\<lambda>new fb. bound_part scope new (fb_plan fb)) news' parts" by (auto simp: list_all2_Cons2)
  obtain k eq where eq: "find (links i) cs = Some (k, eq)"
    "joined_plan cs (Suc i) parts (JoinNode combined (fb_plan part) [eq]) = Inr plan"
    using Cons.prems(1) by (auto split: option.splits)
  then have "(k, eq) \<in> set cs" by (auto simp: find_Some_iff)
  then have "list_all (\<lambda>(a, b). ref_in_scope scope a \<and> ref_in_scope scope b) [eq]" using assms(5) by (cases eq) auto
  then have "bound_part scope (bs @ new) (JoinNode combined (fb_plan part) [eq])"
    using Cons.prems(2,4) news by (intro bound_part_join) (auto simp: distinct_map)
  then show ?case using Cons.IH [OF eq(2), of "bs @ new" news'] Cons.prems(4) news by simp
qed simp

lemma BindFromClause_bound:
  assumes "catalog_tables_ok catalog" and "BindFromClause items cs catalog [] = (Inr from, scope)" and "few_tables scope"
  shows "scope_ok scope \<and> bound_part scope scope (fr_plan from) \<and> set (fr_remaining_where_conjuncts from) \<subseteq> set cs"
proof -
  obtain parts where parts: "items \<noteq> []" "smap (\<lambda>item. BindTableRef item catalog) items [] = (Inr parts, scope)"
    "combine_parts parts cs scope = Inr from"
    using assms(2) by (auto simp: BindFromClause_def result_simps sthrow_def split: if_splits)
  from parts_bound [OF assms(1) parts(2) _ assms(3)] obtain news where news: "scope = concat news" "scope_ok scope"
    "list_all2 (\<lambda>new fb. bound_part scope new (fb_plan fb)) news parts" by auto
  have "smap f xs s = (Inr ys, s') \<Longrightarrow> length ys = length xs"
    for f :: "TableRefNode \<Rightarrow> (ResolutionScope, FromBinding) action" and xs s ys s'
    by (induction xs arbitrary: ys s) (auto simp: result_simps)
  from this [OF parts(2)] have "length parts = length items" .
  with parts(1) news(3) obtain part parts' new news' where ps: "parts = part # parts'" "news = new # news'"
    "bound_part scope new (fb_plan part)" "list_all2 (\<lambda>new fb. bound_part scope new (fb_plan fb)) news' parts'"
    by (cases parts) (auto simp: list_all2_Cons2)
  show ?thesis
  proof (cases "parts' = []")
    case True
    with parts(3) ps news show ?thesis by (auto simp: combine_parts_def)
  next
    case False
    then have "2 \<le> length parts" by (cases parts') (simp_all add: ps(1))
    from parts(3) [unfolded combine_parts_joined [OF this]] obtain st plan where st:
      "rfold (classify_conjunct scope parts) cs no_connections = Inr st"
      "joined_plan (zip (connecting_pairs st) (connecting_equalities st)) 1 parts' (fb_plan part) = Inr plan"
      "from = \<lparr>fr_plan = plan, fr_remaining_where_conjuncts = remaining st\<rparr>"
      by (auto simp: result_simps ps(1))
    have eqs: "ref_in_scope scope a \<and> ref_in_scope scope b"
      if "(k, (a, b)) \<in> set (zip (connecting_pairs st) (connecting_equalities st))" for k a b
      using classified_equalities [OF news(2) st(1)] set_zip_rightD [OF that] by (auto simp: no_connections_def list_all_iff)
    have "distinct (map rb_binding_id (new @ concat news'))" using distinct_binding_ids [OF news(2)] by (simp add: news(1) ps(2))
    from joined_plan_bound [OF st(2) ps(3,4) this eqs] have "bound_part scope (new @ concat news') plan" .
    moreover have "set (remaining st) \<subseteq> set cs" using classified_pairs [OF st(1)] by (simp add: no_connections_def)
    ultimately show ?thesis using news st(3) by (simp add: ps(2))
  qed
qed

end
