(* ===== verification/SelectCorrect.thy ===== *)
theory SelectCorrect
  imports FromCorrect
begin

text \<open>
  A \<open>SELECT\<close> that binds gives a plan whose references are to columns of the tables in the \<open>FROM\<close>
  clause, with their types, whose aggregates are applicable and have their results where the
  select list looks for them. \<open>statement_fine\<close> lists what is assumed of the statement, and
  \<open>plan_runnable\<close> what the binder leaves unchecked and a run of the plan needs in addition.
\<close>

section \<open>What is assumed of a statement and its plan\<close>

fun table_count :: "TableRefNode \<Rightarrow> nat" where
  "table_count (BaseTableRefNode name alias) = 1"
| "table_count (JoinRefNode (Some l) (Some r) on_condition) = table_count l + table_count r"
| "table_count (JoinRefNode l r on_condition) = 0"

definition optional_fine :: "RawExpression option \<Rightarrow> bool" where
  "optional_fine e = (case e of None \<Rightarrow> True | Some e \<Rightarrow> raw_fine e)"

definition statement_fine :: "SelectNode \<Rightarrow> bool" where
  "statement_fine select =
     (sum_list (map table_count (from_tables select)) < 2 ^ 32 - 1 \<and>
      length (select_list select) + length (sel_group_by select) < 2 ^ 32 \<and>
      optional_fine (where_clause select) \<and> optional_fine (having_clause select) \<and>
      list_all (\<lambda>item. optional_fine (si_expression item)) (select_list select))"

text \<open>
  Integer arithmetic in range, literals of the type of the column they are compared with, join
  keys of the same type from both sides, \<open>HAVING\<close> over grouping columns, no predicate selected.
\<close>

definition conjunct_runs :: "LogicalPlanNode \<Rightarrow> BoundExpression \<Rightarrow> bool" where
  "conjunct_runs input c = (expr_total c \<and> skip_compatible c \<and> (ungrouped input \<longrightarrow> CollectColumnRefs c \<noteq> []) \<and>
     (plain input \<or> set (CollectColumnRefs c) \<subseteq> set (grouping_columns input)))"

fun plan_runnable :: "LogicalPlanNode \<Rightarrow> bool" where
  "plan_runnable (ScanNode scan) = True"
| "plan_runnable (FilterNode input p) = (plan_runnable input \<and> list_all (conjunct_runs input) (ExtractConjuncts p))"
| "plan_runnable (JoinNode left right conds) =
     (plan_runnable left \<and> plan_runnable right \<and> list_all (condition_ok left right) conds)"
| "plan_runnable (AggregateNode input gb aggregates cols) = plan_runnable input"
| "plan_runnable (ProjectionNode input es cols) =
     (plan_runnable input \<and> list_all (\<lambda>e. expr_total e \<and> ResultType e \<noteq> etBoolean) es)"

text \<open>The scans and joins at the bottom of a plan: its \<open>FROM\<close> clause.\<close>

fun from_plan :: "LogicalPlanNode \<Rightarrow> LogicalPlanNode" where
  "from_plan (FilterNode input p) = from_plan input"
| "from_plan (AggregateNode input gb aggregates cols) = from_plan input"
| "from_plan (ProjectionNode input es cols) = from_plan input"
| "from_plan n = n"

lemma from_plan_avail: "plain n \<Longrightarrow> avail (from_plan n) = avail n"
  by (induction n) (auto simp: fun_eq_iff)

lemma joins_bound_wf: "joins_only n \<Longrightarrow> plan_bound A n \<Longrightarrow> plan_runnable n \<Longrightarrow> plan_wf False n \<and> plain n"
  by (induction n) auto

text \<open>A bound plan that is runnable is well-formed.\<close>

lemma bound_runnable_wf:
  "plan_bound A n \<Longrightarrow> (\<And>ref. A ref \<Longrightarrow> avail (from_plan n) ref) \<Longrightarrow> plan_runnable n \<Longrightarrow> plan_wf False n"
proof (induction n)
  case (FilterNode input p)
  have "conjunct_ok False input c" if "c \<in> set (ExtractConjuncts p)" for c
    using predicate_in_conjuncts [of A p c] FilterNode.prems from_plan_avail [of input] that
    by (auto simp: conjunct_ok_def conjunct_fine_def predicate_in_def conjunct_runs_def all_avail_def list_all_iff)
  with FilterNode show ?case by (simp add: list_all_iff)
next
  case (JoinNode left right conds)
  then show ?case using joins_bound_wf [of left A] joins_bound_wf [of right A] by simp
next
  case (AggregateNode input gb aggregates cols)
  then show ?case using from_plan_avail [of input] by (auto simp: list_all_iff)
next
  case (ProjectionNode input es cols)
  then show ?case by (auto simp: output_ok_def list_all_iff)
qed simp

lemma smap_state_length:
  assumes "\<And>x s y s'. x \<in> set xs \<Longrightarrow> f x s = (Inr y, s') \<Longrightarrow> length s' = length s + g x"
  shows "smap f xs s = (Inr ys, s') \<Longrightarrow> length s' = length s + sum_list (map g xs)"
  using assms
proof (induction xs arbitrary: s ys)
  case (Cons x xs)
  then obtain y s1 ys' where "f x s = (Inr y, s1)" "smap f xs s1 = (Inr ys', s')" by (auto simp: result_simps)
  with Cons.IH [of s1 ys'] Cons.prems(2) [of x s y s1] Cons.prems(2) show ?case by simp
qed simp

lemma BindTableRef_count:
  "BindTableRef ref catalog scope = (Inr fb, scope') \<Longrightarrow> length scope' = length scope + table_count ref"
proof (induction ref catalog arbitrary: scope fb scope' rule: BindTableRef.induct)
  case (1 table_name a catalog)
  then show ?case
    by (auto simp: bind_base_table_def sbind_def RegisterTable_def Let_def split: option.splits if_splits sum.splits prod.splits)
next
  case (2 l r on_condition catalog)
  then obtain left s1 right s2 where lr: "BindTableRef l catalog scope = (Inr left, s1)" "BindTableRef r catalog s1 = (Inr right, s2)"
    "join_bindings left right on_condition s2 = (Inr fb, scope')"
    by (auto simp: result_simps)
  then have "scope' = s2" by (simp add: join_bindings_def Let_def)
  with 2(1) [OF lr(1)] 2(2) [OF lr(2)] show ?case by simp
qed (simp_all add: sthrow_def)

lemma BindFromClause_count:
  assumes "BindFromClause items cs catalog [] = (Inr from, scope)"
  shows "length scope = sum_list (map table_count items)"
proof -
  obtain parts where "smap (\<lambda>item. BindTableRef item catalog) items [] = (Inr parts, scope)"
    using assms by (auto simp: BindFromClause_def result_simps sthrow_def split: if_splits)
  from smap_state_length [OF BindTableRef_count this] show ?thesis by simp
qed

section \<open>WHERE\<close>

lemma bind_where_predicate:
  assumes "scope_ok scope"
  shows "rfold (bind_where_conjunct scope) cs acc = Inr (Some p) \<Longrightarrow> list_all raw_fine cs \<Longrightarrow>
    (\<forall>q. acc = Some q \<longrightarrow> predicate_in (ref_in_scope scope) q) \<Longrightarrow> predicate_in (ref_in_scope scope) p"
proof (induction cs arbitrary: acc)
  case (Cons c cs)
  then obtain acc1 where "bind_where_conjunct scope c acc = Inr acc1" "rfold (bind_where_conjunct scope) cs acc1 = Inr (Some p)"
    by (auto simp: result_simps)
  then obtain b where b: "BindPredicate c scope = Inr b"
    "rfold (bind_where_conjunct scope) cs (Some (case acc of None \<Rightarrow> b | Some q \<Rightarrow> MakeBooleanOp kAnd q b)) = Inr (Some p)"
    unfolding bind_where_conjunct_def by (auto simp: result_simps)
  have "predicate_in (ref_in_scope scope) b" using BindPredicate_in [OF assms b(1)] Cons.prems(2) by simp
  with Cons.prems(3) have "predicate_in (ref_in_scope scope) (case acc of None \<Rightarrow> b | Some q \<Rightarrow> MakeBooleanOp kAnd q b)"
    by (auto simp: MakeBooleanOp_def predicate_in_and split: option.split)
  with Cons.IH [OF b(2)] Cons.prems(2) show ?case by simp
qed auto

lemma in_scope_avail: "covers scope plan \<Longrightarrow> in_scope scope e \<Longrightarrow> all_avail plan e"
  by (auto simp: covers_def in_scope_def all_avail_def list_all_iff)

lemma bind_where_bound:
  assumes "scope_ok scope" "bound_part scope scope (fr_plan from)" "list_all raw_fine (fr_remaining_where_conjuncts from)"
    and "bind_where scope from = Inr plan"
  shows "covers scope plan" and "plan_bound (ref_in_scope scope) plan" and "from_plan plan = fr_plan from"
proof -
  obtain p where p: "rfold (bind_where_conjunct scope) (fr_remaining_where_conjuncts from) None = Inr p"
    "plan = (case p of None \<Rightarrow> fr_plan from | Some q \<Rightarrow> FilterNode (fr_plan from) q)"
    using assms(4) by (auto simp: bind_where_def MakeLogicalFilter_def result_simps split: option.splits)
  have part: "covers scope (fr_plan from)" "joins_only (fr_plan from)" "plan_bound (ref_in_scope scope) (fr_plan from)"
    using assms(2) by (simp_all add: bound_part_def)
  then show "covers scope plan" by (auto simp: p(2) covers_def split: option.split)
  have "from_plan n = n" "\<not> is_projection n" if "joins_only n" for n using that by (cases n; simp)+
  note joins = this [OF part(2)]
  then show "from_plan plan = fr_plan from" by (simp add: p(2) split: option.split)
  have "predicate_in (ref_in_scope scope) q" if "p = Some q" for q
    using bind_where_predicate [OF assms(1)] p(1) assms(3) that by fastforce
  with part(3) joins(2) show "plan_bound (ref_in_scope scope) plan" by (simp add: p(2) split: option.split)
qed

section \<open>Select lists\<close>

lemma column_total: "expr_total (ColumnRefNode ref)"
  by (rule no_int_arithmetic_total) simp_all

lemma ref_in_scope_unique:
  assumes "scope_ok scope" "ref_in_scope scope a" "ref_in_scope scope b" "same_column a b"
  shows "cr_type a = cr_type b"
proof -
  obtain x y where xy: "x \<in> set scope" "y \<in> set scope" "rb_binding_id x = cr_table_id a" "rb_binding_id y = cr_table_id b"
    "cd_type (to_columns (rb_table x) ! unat (cr_ordinal a)) = cr_type a" "cd_type (to_columns (rb_table y) ! unat (cr_ordinal b)) = cr_type b"
    using assms(2,3) by (auto simp: ref_in_scope_def)
  then have "x = y" using distinct_binding_ids [OF assms(1)] assms(4) by (simp add: same_column_def distinct_map inj_on_def)
  with xy assms(4) show ?thesis by (simp add: same_column_def)
qed

lemma wildcard_in_scope:
  assumes "scope_ok scope" and "(e, c) \<in> set (wildcard_columns scope)"
  shows "expr_typed e \<and> in_scope scope e"
proof -
  obtain b col where e: "e = MakeColumnRef (rb_binding_id b) (cd_ordinal col) (cd_type col)" "b \<in> set scope" "col \<in> set (to_columns (rb_table b))"
    using assms(2) by (auto simp: wildcard_columns_def)
  obtain i where i: "i < length (to_columns (rb_table b))" "to_columns (rb_table b) ! i = col" using e(3) by (auto simp: in_set_conv_nth)
  have "unat (cd_ordinal col) = i" using scope_ok_table [OF assms(1) e(2)] i by (auto simp: table_ok_def)
  with e(1,2) i show ?thesis by (auto simp: MakeColumnRef_def in_scope_def ref_in_scope_def)
qed

lemma bind_item_in_scope:
  assumes "scope_ok scope" "optional_fine (si_expression item)" "bind_item scope item = Inr cols" "e \<in> fst ` set cols"
  shows "expr_typed e \<and> in_scope scope e"
  using assms wildcard_in_scope [OF assms(1)] bound_typed [OF assms(1)]
  by (auto simp: bind_item_def optional_fine_def result_simps Let_def split: if_splits option.splits)

lemma bind_projection_bound:
  assumes "scope_ok scope" "covers scope plan" "plan_bound (ref_in_scope scope) plan"
    and "list_all (\<lambda>item. optional_fine (si_expression item)) (select_list select)"
    and "bind_projection select scope plan = Inr q"
  shows "\<exists>es cols. q = ProjectionNode plan es cols \<and> plan_bound (ref_in_scope scope) q"
proof -
  obtain columns where cols: "rmap (bind_item scope) (select_list select) = Inr columns"
    "q = ProjectionNode plan (map fst (concat columns)) (map snd (concat columns))"
    using assms(5) by (auto simp: bind_projection_def MakeLogicalProjection_def result_simps)
  have "expr_typed e \<and> all_avail plan e" if e: "e \<in> set (map fst (concat columns))" for e
  proof -
    obtain col where "col \<in> set columns" "e \<in> fst ` set col" using e by auto
    then obtain i where i: "i < length columns" "e \<in> fst ` set (columns ! i)" by (metis in_set_conv_nth)
    then have "bind_item scope (select_list select ! i) = Inr (columns ! i)" "i < length (select_list select)"
      using rmap_Inr_nth [OF cols(1)] rmap_Inr_length [OF cols(1)] by simp_all
    with bind_item_in_scope [OF assms(1) _ _ i(2), of "select_list select ! i"] assms(4) in_scope_avail [OF assms(2), of e] show ?thesis
      by (simp add: list_all_length)
  qed
  moreover have "\<not> is_projection plan" using assms(2) by (cases plan) (auto simp: covers_def)
  ultimately show ?thesis using assms(3) by (auto simp: cols(2) list_all_iff)
qed

section \<open>Aggregates\<close>

lemma bind_group_key_in_scope:
  "scope_ok scope \<Longrightarrow> bind_group_key scope e = Inr (ref, name) \<Longrightarrow> ref_in_scope scope ref"
  using Resolve_in_scope by (cases e) (auto simp: result_simps)

lemma BindAggregateCall_ok:
  assumes "scope_ok scope" "covers scope plan" "BindAggregateCall name args star scope = Inr c"
  shows "call_ok plan c"
proof (cases "ac_argument c")
  case None
  with assms(3) show ?thesis
    by (auto simp: BindAggregateCall_def call_ok_def Let_def result_simps split: if_splits list.splits RawExpression.splits)
next
  case (Some ref)
  have "aggregate_kind n r = Inr k \<Longrightarrow> cr_type r = kVarchar \<Longrightarrow> k \<notin> {aggSum, aggAvg}" for n r k
    by (auto simp: aggregate_kind_def split: if_splits)
  with Some assms(3) have "cr_type ref = kVarchar \<longrightarrow> ac_function c \<notin> {aggSum, aggAvg}" "\<exists>r. Resolve scope r = Inr ref"
    by (auto simp: BindAggregateCall_def Let_def result_simps split: if_splits list.splits RawExpression.splits)
  with Resolve_in_scope [OF assms(1)] assms(2) Some show ?thesis by (auto simp: call_ok_def covers_def)
qed

lemma output_type_is_call_type:
  assumes "call_ok plan c" "AggregateOutputTypeId (ac_function c) (map_option cr_type (ac_argument c)) = Inr t"
  shows "t = call_type c"
  using assms by (cases "ac_function c"; cases "ac_argument c")
    (auto simp: call_ok_def call_type_def call_spec_def aggregate_type_def)

lemma position_of_key_less:
  "ContainsColumn keys ref \<Longrightarrow> position_of_key keys ref < length keys \<and> same_column (keys ! position_of_key keys ref) ref"
  by (induction keys) (auto simp: ContainsColumn_def)

text \<open>The columns of an aggregate that a select list names.\<close>

definition aggregate_column :: "AggregateBinding \<Rightarrow> BoundExpression \<Rightarrow> bool" where
  "aggregate_column ab e = (\<exists>i. i < length (aggregate_out_types (ab_group_by_cols ab) (ab_aggregates ab)) \<and>
     e = MakeColumnRef kAggregateOutputBindingId (word_of_nat i) (aggregate_out_types (ab_group_by_cols ab) (ab_aggregates ab) ! i))"

lemma project_aggregate_column:
  assumes "list_all (call_ok plan) (ab_aggregates ab)" and "project_aggregate ab items st = Inr st'"
  shows "\<exists>e. pr_select_expressions st' = pr_select_expressions st @ [e] \<and> aggregate_column ab e"
proof -
  let ?next = "next_aggregate_index st"
  obtain t where t: "?next < length (ab_aggregates ab)"
    "AggregateOutputTypeId (ac_function (ab_aggregates ab ! ?next)) (map_option cr_type (ac_argument (ab_aggregates ab ! ?next))) = Inr t"
    "pr_select_expressions st' = pr_select_expressions st @
      [MakeColumnRef kAggregateOutputBindingId (word_of_nat (length (ab_group_by_cols ab) + ?next)) t]"
    using assms(2) by (cases "items ! ?next") (auto simp: project_aggregate_def Let_def result_simps simp del: of_nat_add)
  have "t = call_type (ab_aggregates ab ! ?next)"
    using output_type_is_call_type [of plan, OF _ t(2)] assms(1) t(1) by (simp add: list_all_length)
  with t show ?thesis
    by (auto simp: aggregate_column_def aggregate_out_types_def nth_append simp del: of_nat_add
        intro!: exI [of _ "length (ab_group_by_cols ab) + ?next"])
qed

lemma project_key_column:
  assumes "scope_ok scope" "list_all (ref_in_scope scope) (ab_group_by_cols ab)"
    and "si_expression item = Some e" "BindScalarExpression e scope = Inr bound" "list_all (ContainsColumn (ab_group_by_cols ab)) (CollectColumnRefs bound)"
    and "project_key scope ab item st = Inr st'"
  shows "\<exists>e. pr_select_expressions st' = pr_select_expressions st @ [e] \<and> aggregate_column ab e"
proof -
  obtain column_ref ref where ref: "e = RawColumnRef column_ref" "Resolve scope column_ref = Inr ref"
    "pr_select_expressions st' = pr_select_expressions st @
      [MakeColumnRef kAggregateOutputBindingId (word_of_nat (position_of_key (ab_group_by_cols ab) ref)) (cr_type ref)]"
    using assms(3,6) by (auto simp: project_key_def result_simps split: RawExpression.splits)
  then have "ContainsColumn (ab_group_by_cols ab) ref" using assms(4,5) by auto
  from position_of_key_less [OF this] have pos: "position_of_key (ab_group_by_cols ab) ref < length (ab_group_by_cols ab)"
    "same_column (ab_group_by_cols ab ! position_of_key (ab_group_by_cols ab) ref) ref" by simp_all
  then have "cr_type ref = cr_type (ab_group_by_cols ab ! position_of_key (ab_group_by_cols ab) ref)"
    using ref_in_scope_unique [OF assms(1) _ Resolve_in_scope [OF assms(1) ref(2)]] assms(2) by (simp add: list_all_length)
  with ref(3) pos(1) show ?thesis
    by (auto simp: aggregate_column_def aggregate_out_types_def nth_append intro!: exI [of _ "position_of_key (ab_group_by_cols ab) ref"])
qed

text \<open>What a successful \<open>bind_aggregate\<close> establishes.\<close>

lemma bind_aggregate_facts:
  assumes "scope_ok scope" "covers scope plan" "optional_fine (having_clause select)"
    and "bind_aggregate select scope items plan = Inr ab"
  obtains cols where
    "list_all (ref_in_scope scope) (ab_group_by_cols ab)" "list_all (call_ok plan) (ab_aggregates ab)"
    "length (ab_group_by_cols ab) = length (sel_group_by select)" "length (ab_aggregates ab) = length items"
    "ab_plan ab = AggregateNode plan (ab_group_by_cols ab) (ab_aggregates ab) cols \<or>
       (\<exists>p. ab_plan ab = FilterNode (AggregateNode plan (ab_group_by_cols ab) (ab_aggregates ab) cols) p \<and> predicate_in (ref_in_scope scope) p)"
    "\<forall>i < length (select_list select). check_item scope (ab_group_by_cols ab) items (i, select_list select ! i) = Inr ()"
proof -
  obtain keys calls us where k: "rmap (bind_group_key scope) (sel_group_by select) = Inr keys"
    "rmap (bind_call scope) items = Inr calls"
    "rmap (check_item scope (map fst keys) items) (enumerate 0 (select_list select)) = Inr us"
    and ab: "ab_group_by_cols ab = map fst keys" "ab_aggregates ab = map fst calls"
    "\<exists>cols. let agg = AggregateNode plan (map fst keys) (map fst calls) cols
       in ab_plan ab = agg \<and> having_clause select = None \<or>
          (\<exists>having p. having_clause select = Some having \<and> BindPredicate having scope = Inr p \<and> ab_plan ab = FilterNode agg p)"
    using assms(4)
    by (auto simp: bind_aggregate_def Let_def result_simps MakeLogicalAggregate_def MakeLogicalFilter_def
        split: if_splits option.splits)
  from ab(3) obtain cols where cols: "ab_plan ab = AggregateNode plan (map fst keys) (map fst calls) cols \<or>
      (\<exists>having p. having_clause select = Some having \<and> BindPredicate having scope = Inr p \<and>
         ab_plan ab = FilterNode (AggregateNode plan (map fst keys) (map fst calls) cols) p)"
    by (auto simp: Let_def)
  show thesis
  proof (rule that [of cols])
    show "list_all (ref_in_scope scope) (ab_group_by_cols ab)"
      using rmap_Inr_nth [OF k(1)] rmap_Inr_length [OF k(1)] bind_group_key_in_scope [OF assms(1)]
      by (auto simp: ab(1) list_all_length) (metis prod.collapse)
    show "list_all (call_ok plan) (ab_aggregates ab)"
    proof (unfold list_all_length ab(2), intro allI impI)
      fix i assume i: "i < length (map fst calls)"
      then have "bind_call scope (items ! i) = Inr (calls ! i)"
        using rmap_Inr_nth [OF k(2)] rmap_Inr_length [OF k(2)] by simp
      then obtain n args star where "BindAggregateCall n args star scope = Inr (fst (calls ! i))"
        by (cases "items ! i"; cases "calls ! i") (auto simp: bind_call_def result_simps)
      with BindAggregateCall_ok [OF assms(1,2)] i show "call_ok plan (map fst calls ! i)" by simp
    qed
    show "length (ab_group_by_cols ab) = length (sel_group_by select)" "length (ab_aggregates ab) = length items"
      using rmap_Inr_length [OF k(1)] rmap_Inr_length [OF k(2)] by (simp_all add: ab)
    show "ab_plan ab = AggregateNode plan (ab_group_by_cols ab) (ab_aggregates ab) cols \<or>
       (\<exists>p. ab_plan ab = FilterNode (AggregateNode plan (ab_group_by_cols ab) (ab_aggregates ab) cols) p \<and> predicate_in (ref_in_scope scope) p)"
      using cols BindPredicate_in [OF assms(1)] assms(3) by (auto simp: ab optional_fine_def)
    show "\<forall>i < length (select_list select). check_item scope (ab_group_by_cols ab) items (i, select_list select ! i) = Inr ()"
      using rmap_Inr_nth [OF k(3)] by (simp add: ab(1) nth_enumerate_eq)
  qed
qed

lemma projected_columns:
  assumes "scope_ok scope" "list_all (ref_in_scope scope) (ab_group_by_cols ab)" "list_all (call_ok plan) (ab_aggregates ab)"
    and "\<forall>i < length xs. check_item scope (ab_group_by_cols ab) items (k + i, xs ! i) = Inr ()"
    and "rfold (project_aggregate_item scope ab items) (enumerate k xs) st = Inr st'"
    and "list_all (aggregate_column ab) (pr_select_expressions st)"
  shows "list_all (aggregate_column ab) (pr_select_expressions st')"
  using assms(4-6)
proof (induction xs arbitrary: k st)
  case (Cons x xs)
  obtain st1 where st1: "project_aggregate_item scope ab items (k, x) st = Inr st1"
    "rfold (project_aggregate_item scope ab items) (enumerate (Suc k) xs) st1 = Inr st'"
    using Cons.prems(2) by (auto simp: result_simps)
  have chk: "check_item scope (ab_group_by_cols ab) items (k, x) = Inr ()" using Cons.prems(1) by force
  have "\<exists>e. pr_select_expressions st1 = pr_select_expressions st @ [e] \<and> aggregate_column ab e"
  proof (cases "list_ex (\<lambda>c. fst c = k) items")
    case True
    with st1(1) show ?thesis by (intro project_aggregate_column [OF assms(3)]) (simp add: project_aggregate_item_def)
  next
    case False
    with chk obtain e bound where "si_expression x = Some e" "BindScalarExpression e scope = Inr bound"
      "list_all (ContainsColumn (ab_group_by_cols ab)) (CollectColumnRefs bound)"
      by (auto simp: check_item_def result_simps split: option.splits if_splits)
    from project_key_column [OF assms(1,2) this] st1(1) False show ?thesis by (simp add: project_aggregate_item_def)
  qed
  then have "list_all (aggregate_column ab) (pr_select_expressions st1)" using Cons.prems(3) by auto
  moreover have "\<forall>i < length xs. check_item scope (ab_group_by_cols ab) items (Suc k + i, xs ! i) = Inr ()"
    using Cons.prems(1) by force
  ultimately show ?case using Cons.IH [OF _ st1(2)] by simp
qed simp

lemma aggregate_items_length: "aggregate_items k xs = Inr items \<Longrightarrow> length items \<le> length xs"
proof (induction xs arbitrary: k items)
  case (Cons x xs)
  then show ?case
    by (auto simp: result_simps split: if_splits option.splits RawExpression.splits) (force dest: Cons.IH)+
qed simp

lemma aggregate_column_ok:
  assumes "aggregate_column ab e" "length (ab_group_by_cols ab) + length (ab_aggregates ab) < 2 ^ 32"
    and "\<And>ref. avail n ref = avail (AggregateNode plan (ab_group_by_cols ab) (ab_aggregates ab) cols) ref"
  shows "output_ok n e"
proof -
  obtain i where i: "i < length (aggregate_out_types (ab_group_by_cols ab) (ab_aggregates ab))"
    "e = MakeColumnRef kAggregateOutputBindingId (word_of_nat i) (aggregate_out_types (ab_group_by_cols ab) (ab_aggregates ab) ! i)"
    using assms(1) by (auto simp: aggregate_column_def)
  then have "i < 2 ^ 32" using assms(2) by (simp add: aggregate_out_types_def)
  with i assms(3) show ?thesis by (simp add: MakeColumnRef_def output_ok_def all_avail_def column_total)
qed

lemma bind_aggregate_bound:
  assumes "scope_ok scope" "covers scope plan" "plan_bound (ref_in_scope scope) plan" "optional_fine (having_clause select)"
    and "length (select_list select) + length (sel_group_by select) < 2 ^ 32"
    and "aggregate_items 0 (select_list select) = Inr items" "bind_aggregate select scope items plan = Inr ab"
    and "rfold (project_aggregate_item scope ab items) (enumerate 0 (select_list select))
           \<lparr>next_aggregate_index = 0, pr_select_expressions = [], pr_output_columns = []\<rparr> = Inr st"
  shows "plan_bound (ref_in_scope scope) (ProjectionNode (ab_plan ab) (pr_select_expressions st) (pr_output_columns st)) \<and>
    from_plan (ab_plan ab) = from_plan plan"
proof -
  obtain cols where ab: "list_all (ref_in_scope scope) (ab_group_by_cols ab)" "list_all (call_ok plan) (ab_aggregates ab)"
    "length (ab_group_by_cols ab) = length (sel_group_by select)" "length (ab_aggregates ab) = length items"
    "ab_plan ab = AggregateNode plan (ab_group_by_cols ab) (ab_aggregates ab) cols \<or>
       (\<exists>p. ab_plan ab = FilterNode (AggregateNode plan (ab_group_by_cols ab) (ab_aggregates ab) cols) p \<and> predicate_in (ref_in_scope scope) p)"
    "\<forall>i < length (select_list select). check_item scope (ab_group_by_cols ab) items (i, select_list select ! i) = Inr ()"
    by (rule bind_aggregate_facts [OF assms(1,2,4,7)])
  let ?agg = "AggregateNode plan (ab_group_by_cols ab) (ab_aggregates ab) cols"
  have agg: "plan_bound (ref_in_scope scope) ?agg" using ab(1,2) assms(2,3) by (simp add: covers_def)
  have out: "plan_bound (ref_in_scope scope) (ab_plan ab) \<and> \<not> is_projection (ab_plan ab) \<and> from_plan (ab_plan ab) = from_plan plan \<and>
      (\<forall>ref. avail (ab_plan ab) ref = avail ?agg ref)"
    using ab(5) agg by auto
  moreover have "list_all (aggregate_column ab) (pr_select_expressions st)"
    using projected_columns [OF assms(1) ab(1,2) _ assms(8)] ab(6) by simp
  moreover have "length (ab_group_by_cols ab) + length (ab_aggregates ab) < 2 ^ 32"
    using assms(5) aggregate_items_length [OF assms(6)] ab(3,4) by simp
  ultimately show ?thesis
    using aggregate_column_ok [of ab _ "ab_plan ab" plan cols] by (auto simp: list_all_iff output_ok_def)
qed

section \<open>SELECT statements\<close>

lemma bind_select_list_bound:
  assumes "scope_ok scope" "covers scope plan" "plan_bound (ref_in_scope scope) plan" "statement_fine select"
    and "bind_select_list select scope plan = Inr q"
  shows "\<exists>input es cols. q = ProjectionNode input es cols \<and> plan_bound (ref_in_scope scope) q \<and> from_plan q = from_plan plan"
proof -
  obtain items where items: "aggregate_items 0 (select_list select) = Inr items"
    "(if is_aggregate_query select items
      then rbind (bind_aggregate select scope items plan) (\<lambda>ab.
           rbind (rfold (project_aggregate_item scope ab items) (enumerate 0 (select_list select))
                    \<lparr>next_aggregate_index = 0, pr_select_expressions = [], pr_output_columns = []\<rparr>) (\<lambda>st.
             Inr (MakeLogicalProjection (ab_plan ab) (pr_select_expressions st) (pr_output_columns st))))
      else bind_projection select scope plan) = Inr q"
    using assms(5) unfolding bind_select_list_def rbind_Inr_iff by blast
  show ?thesis
  proof (cases "is_aggregate_query select items")
    case True
    with items(2) obtain ab st where ab: "bind_aggregate select scope items plan = Inr ab"
      "rfold (project_aggregate_item scope ab items) (enumerate 0 (select_list select))
         \<lparr>next_aggregate_index = 0, pr_select_expressions = [], pr_output_columns = []\<rparr> = Inr st"
      "q = ProjectionNode (ab_plan ab) (pr_select_expressions st) (pr_output_columns st)"
      by (auto simp: rbind_Inr_iff MakeLogicalProjection_def)
    from bind_aggregate_bound [OF assms(1-3) _ _ items(1) ab(1,2)] assms(4) show ?thesis
      by (simp add: statement_fine_def ab(3))
  next
    case False
    with items(2) bind_projection_bound [OF assms(1-3), of select q] assms(4) show ?thesis by (auto simp: statement_fine_def)
  qed
qed

lemma BindSelect_bound:
  assumes "catalog_tables_ok catalog" "statement_fine select" "BindSelect select catalog = Inr plan"
  shows "\<exists>input es cols. plan = ProjectionNode input es cols \<and> plan_bound (avail (from_plan plan)) plan"
proof -
  define cs where "cs = (case where_clause select of None \<Rightarrow> [] | Some w \<Rightarrow> FlattenAnd w [])"
  obtain fc scope input where b: "BindFromClause (from_tables select) cs catalog [] = (Inr fc, scope)"
    "bind_where scope fc = Inr input" "bind_select_list select scope input = Inr plan"
    using assms(3) by (auto simp: BindSelect_def cs_def Let_def result_simps split: if_splits prod.splits)
  have "few_tables scope" using BindFromClause_count [OF b(1)] assms(2) by (simp add: few_tables_def statement_fine_def)
  from BindFromClause_bound [OF assms(1) b(1) this] have fc: "scope_ok scope" "bound_part scope scope (fr_plan fc)"
    "set (fr_remaining_where_conjuncts fc) \<subseteq> set cs" by simp_all
  have "list_all raw_fine cs"
    using assms(2) FlattenAnd_fine by (auto simp: cs_def statement_fine_def optional_fine_def split: option.split)
  with fc(3) have "list_all raw_fine (fr_remaining_where_conjuncts fc)" by (auto simp: list_all_iff)
  note w = bind_where_bound [OF fc(1,2) this b(2)]
  from bind_select_list_bound [OF fc(1) w(1,2) assms(2) b(3)] obtain n es cols where q: "plan = ProjectionNode n es cols"
    "plan_bound (ref_in_scope scope) plan" "from_plan plan = fr_plan fc" using w(3) by auto
  moreover have "avail (from_plan plan) ref" if "ref_in_scope scope ref" for ref
    using fc(2) that by (simp add: q(3) bound_part_def covers_def)
  ultimately show ?thesis using plan_bound_mono by blast
qed

lemma BindSelect_wf:
  assumes "catalog_tables_ok catalog" "statement_fine select" "BindSelect select catalog = Inr plan"
  shows "\<exists>input es cols. plan = ProjectionNode input es cols \<and> (plan_runnable plan \<longrightarrow> plan_wf False plan)"
  using BindSelect_bound [OF assms] bound_runnable_wf by blast

section \<open>The tables of a plan\<close>

text \<open>
  A database: every table of the catalog is stored, is found again by its identifier, and has
  the rows \<open>db\<close> gives. Values are no NaN, since comparisons with them are not what zone maps
  assume, and not enormous.
\<close>

definition database_ok :: "Catalog \<Rightarrow> (uint32 \<Rightarrow> bytes option) \<Rightarrow> tables \<Rightarrow> bool" where
  "database_ok cat P db = (\<forall>name t. GetTable cat name = Some t \<longrightarrow>
     table_ok t \<and> GetTableById cat (to_table_id t) = Some t \<and>
     (\<exists>contents. table_at P t (map cd_type (to_columns t)) contents \<and>
        db (to_table_id t) = map (map clean_cell) (table_rows (to_row_groups t) contents) \<and>
        list_all (list_all nan_free) contents \<and> list_all light (table_rows (to_row_groups t) contents)))"

lemma database_tables_ok: "database_ok cat P db \<Longrightarrow> catalog_tables_ok cat"
  by (auto simp: database_ok_def catalog_tables_ok_def)

lemma database_scan:
  assumes "database_ok cat P db" "GetTable cat name = Some t"
  shows "scan_ok cat P db \<lparr>ls_binding_id = b, ls_physical_table_id = to_table_id t,
    ls_output_columns = map output_column (to_columns t), ls_required_ordinals = ords\<rparr>"
proof -
  obtain contents where "GetTableById cat (to_table_id t) = Some t" "table_at P t (map cd_type (to_columns t)) contents"
    "db (to_table_id t) = map (map clean_cell) (table_rows (to_row_groups t) contents)"
    "list_all (list_all nan_free) contents" "list_all light (table_rows (to_row_groups t) contents)"
    using assms unfolding database_ok_def by blast
  then show ?thesis unfolding scan_ok_def
    by (intro exI [of _ t] exI [of _ "map cd_type (to_columns t)"] exI [of _ contents]) (simp add: output_column_def)
qed

definition table_of_catalog :: "Catalog \<Rightarrow> ResolvedTableBinding \<Rightarrow> bool" where
  "table_of_catalog cat b = (\<exists>name. GetTable cat name = Some (rb_table b))"

lemma BindTableRef_tables:
  assumes "database_ok cat P db"
  shows "BindTableRef ref cat scope = (Inr fb, scope') \<Longrightarrow> list_all (table_of_catalog cat) scope \<Longrightarrow>
    plan_tables cat P db (fb_plan fb) \<and> list_all (table_of_catalog cat) scope'"
  using assms
proof (induction ref cat arbitrary: scope fb scope' rule: BindTableRef.induct)
  case (1 table_name a catalog)
  then obtain i where "RegisterTable table_name a catalog scope = (Inr i, scope')"
    by (auto simp: bind_base_table_def sbind_def split: sum.splits prod.splits)
  then have "scope' = scope @ [last scope'] \<and> GetTable catalog table_name = Some (rb_table (last scope'))"
    by (auto simp: RegisterTable_def Let_def split: option.splits if_splits)
  then obtain new where "scope' = scope @ [new]" "table_of_catalog catalog new" unfolding table_of_catalog_def by metis
  then have "list_all (table_of_catalog catalog) scope'" using 1(2) by simp
  moreover have "unat i < length scope' \<and> fb_plan fb =
      MakeLogicalScan i (to_table_id (rb_table (scope' ! unat i))) (map output_column (to_columns (rb_table (scope' ! unat i))))"
    using 1(1) \<open>RegisterTable table_name a catalog scope = (Inr i, scope')\<close>
    by (auto simp: bind_base_table_def sbind_def BindingFor_def split: if_splits)
  ultimately show ?case
    using database_scan [OF 1(3)] by (auto simp: MakeLogicalScan_def table_of_catalog_def list_all_length)
next
  case (2 l r on_condition catalog)
  then obtain left s1 right s2 where lr: "BindTableRef l catalog scope = (Inr left, s1)" "BindTableRef r catalog s1 = (Inr right, s2)"
    "join_bindings left right on_condition s2 = (Inr fb, scope')"
    by (auto simp: result_simps)
  then have "scope' = s2" "\<exists>conds. fb_plan fb = JoinNode (fb_plan left) (fb_plan right) conds"
    by (auto simp: join_bindings_def Let_def MakeLogicalJoin_def result_simps)
  with 2(1) [OF lr(1) 2(4,5)] 2(2) [OF lr(2) _ 2(5)] show ?case by auto
qed (simp_all add: sthrow_def)

lemma parts_tables:
  assumes "database_ok cat P db"
  shows "smap (\<lambda>item. BindTableRef item cat) items scope = (Inr parts, scope') \<Longrightarrow> list_all (table_of_catalog cat) scope \<Longrightarrow>
    list_all (\<lambda>fb. plan_tables cat P db (fb_plan fb)) parts"
proof (induction items arbitrary: scope parts)
  case (Cons item items)
  then obtain fb s1 fbs where fb: "BindTableRef item cat scope = (Inr fb, s1)"
    "smap (\<lambda>item. BindTableRef item cat) items s1 = (Inr fbs, scope')" "parts = fb # fbs"
    by (auto simp: result_simps)
  with BindTableRef_tables [OF assms fb(1)] Cons.IH [OF fb(2)] Cons.prems(2) show ?case by simp
qed simp

lemma joined_plan_tables:
  "joined_plan cs i parts combined = Inr plan \<Longrightarrow> plan_tables cat P db combined \<Longrightarrow>
   list_all (\<lambda>fb. plan_tables cat P db (fb_plan fb)) parts \<Longrightarrow> plan_tables cat P db plan"
  by (induction parts arbitrary: i combined) (auto split: option.splits)

lemma BindFromClause_tables:
  assumes "database_ok cat P db" "BindFromClause items cs cat [] = (Inr from, scope)"
  shows "plan_tables cat P db (fr_plan from)"
proof -
  obtain parts where parts: "items \<noteq> []" "smap (\<lambda>item. BindTableRef item cat) items [] = (Inr parts, scope)"
    "combine_parts parts cs scope = Inr from"
    using assms(2) by (auto simp: BindFromClause_def result_simps sthrow_def split: if_splits)
  have all: "list_all (\<lambda>fb. plan_tables cat P db (fb_plan fb)) parts" by (rule parts_tables [OF assms(1) parts(2)]) simp
  obtain part parts' where ps: "parts = part # parts'" using parts(1,2) by (cases items) (auto simp: result_simps)
  show ?thesis
  proof (cases parts')
    case Nil
    with parts(3) all ps show ?thesis by (auto simp: combine_parts_def)
  next
    case (Cons p2 ps2)
    then have "2 \<le> length parts" by (simp add: ps)
    from parts(3) [unfolded combine_parts_joined [OF this]] all joined_plan_tables show ?thesis
      by (auto simp: result_simps ps)
  qed
qed

lemma BindSelect_tables:
  assumes "database_ok cat P db" "BindSelect select cat = Inr plan"
  shows "plan_tables cat P db plan"
proof -
  obtain fc scope input cs where b: "BindFromClause (from_tables select) cs cat [] = (Inr fc, scope)"
    "bind_where scope fc = Inr input" "bind_select_list select scope input = Inr plan"
    using assms(2) by (auto simp: BindSelect_def Let_def result_simps split: if_splits prod.splits)
  have "plan_tables cat P db input"
    using BindFromClause_tables [OF assms(1) b(1)] b(2)
    by (auto simp: bind_where_def MakeLogicalFilter_def result_simps split: option.splits)
  then show ?thesis using b(3)
    by (auto simp: bind_select_list_def bind_aggregate_def bind_projection_def Let_def result_simps MakeLogicalProjection_def
        MakeLogicalAggregate_def MakeLogicalFilter_def split: if_splits option.splits)
qed

end
