(* ===== verification/DriverCorrect.thy ===== *)
theory DriverCorrect
  imports Driver DiskGrowth QueryCorrect SelectCorrect
begin

text \<open>
  What the driver does with a statement: a \<open>SELECT\<close> prints the rows of its plan and changes
  nothing but the cached pages, and no exception leaves \<open>ExecuteStatement\<close>.
\<close>

section \<open>Printing a result\<close>

definition header_text :: "OutputColumn list \<Rightarrow> string" where
  "header_text schema = tab_separated (map oc_display_name schema) @ newline"

definition table_text :: "string list \<Rightarrow> string list list \<Rightarrow> string" where
  "table_text headers rows =
     (let widths = column_widths headers rows
      in border_line widths @ table_line widths headers @ border_line widths @
         concat (map (table_line widths) rows) @ border_line widths)"

definition footer_text :: "system \<Rightarrow> nat \<Rightarrow> string" where
  "footer_text sys n =
     ''('' @ show_nat n @ (if n = 1 then '' row'' else '' rows'') @ '' returned in '' @ FormatElapsedSeconds (sys_seconds sys) @ ''s)'' @ newline"

definition rows_text :: "system \<Rightarrow> OutputColumn list \<Rightarrow> cell list list \<Rightarrow> string" where
  "rows_text sys schema rows =
     (if sys_stdout_is_terminal sys
      then if rows = [] then ''Empty set.'' @ newline else table_text (map oc_display_name schema) (map (map cell_text) rows)
      else header_text schema @ concat (map row_text rows)) @ footer_text sys (length rows)"

lemma enumerate_map: "enumerate k xs = map (\<lambda>i. (i, xs ! (i - k))) [k..<k + length xs]"
  by (rule nth_equalityI) (simp_all add: nth_enumerate_eq)

lemma PrintHeader_spec: "PrintHeader schema out = (Inr (), out @ header_text schema)"
proof -
  let ?f = "\<lambda>(i, column). put ((if i > 0 then tab else '''') @ oc_display_name column)"
  have "seach ?f (enumerate 0 schema) out =
      (Inr (), out @ concat (map (\<lambda>(i, column). (if i > 0 then tab else '''') @ oc_display_name column) (enumerate 0 schema)))"
    by (rule seach_writes) (auto simp: put_def)
  moreover have "map (\<lambda>i. oc_display_name (schema ! i)) [0..<length schema] = map oc_display_name schema"
    by (rule nth_equalityI) simp_all
  ultimately show ?thesis
    using tab_separated_loop [of "\<lambda>i. oc_display_name (schema ! i)" "length schema"]
    by (simp add: PrintHeader_def sbind_def put_def header_text_def enumerate_map [of 0] comp_def)
qed

lemma WriteTable_text:
  "\<forall>row \<in> set rows. length row \<le> length headers \<Longrightarrow> WriteTable headers rows out = (Inr (), out @ table_text headers rows)"
  by (simp add: WriteTable_spec table_text_def Let_def)

lemma collect_row_spec:
  assumes "chunk_inv chunk" and "r < dc_row_count chunk"
  shows "collect_row chunk r (rows, n) = (Inr (), (rows @ [map cell_text (chunk_row chunk r)], n + 1))"
proof -
  have "rmap (collect_cell chunk r) [0..<length (dc_columns chunk)] =
      Inr (map (\<lambda>c. cell_text (chunk_row chunk r ! c)) [0..<length (dc_columns chunk)])"
    by (rule rmap_Inr) (simp add: collect_cell_def FormatValue_chunk [OF assms])
  moreover have "map (\<lambda>c. cell_text (chunk_row chunk r ! c)) [0..<length (dc_columns chunk)] = map cell_text (chunk_row chunk r)"
    by (rule nth_equalityI) (simp_all add: chunk_row_def)
  ultimately show ?thesis by (simp add: collect_row_def)
qed

interpretation collector: row_consumer collect_row "\<lambda>_. True" "\<lambda>_. True"
  "\<lambda>rows (texts, n). texts = map (map cell_text) rows \<and> n = length rows"
  by unfold_locales (auto simp: collect_row_spec)

lemma print_chunk_spec:
  "chunk_inv chunk \<Longrightarrow> print_chunk chunk (out, n) =
    (Inr (), (out @ concat (map row_text (chunk_rows chunk)), n + length (chunk_rows chunk)))"
  by (simp add: print_chunk_def CountSelectedRows_spec WriteChunk_spec)

lemma drain_print:
  assumes "produces m s cs s'" and "\<And>c. c \<in> set cs \<Longrightarrow> chunk_inv c" and "length cs < fuel"
  shows "drain_child fuel m print_chunk ((out, n), s) =
    (Inr (), ((out @ concat (map row_text (concat (map chunk_rows cs))), n + length (concat (map chunk_rows cs))), s'))"
  using assms
proof (induction arbitrary: out n fuel rule: produces.induct)
  case (exhausted get_next s s')
  then show ?case by (cases fuel) auto
next
  case (next_chunk get_next s c s' cs s'')
  then obtain k where "fuel = Suc k" "length cs < k" by (cases fuel) auto
  with next_chunk.hyps(1) next_chunk.IH [of k] next_chunk.prems(1) show ?case by (simp add: print_chunk_spec)
qed

section \<open>SELECT\<close>

text \<open>Every output column has a name, so the rows of a result fit its header.\<close>

lemma project_lengths:
  assumes "rfold (project_aggregate_item scope ab items) xs st = Inr st'"
    and "length (pr_select_expressions st) = length (pr_output_columns st)"
  shows "length (pr_select_expressions st') = length (pr_output_columns st')"
  using assms
proof (induction xs arbitrary: st)
  case (Cons x xs)
  obtain st1 where st1: "project_aggregate_item scope ab items x st = Inr st1" "rfold (project_aggregate_item scope ab items) xs st1 = Inr st'"
    using Cons.prems(1) by (auto simp: result_simps)
  from st1(1) Cons.prems(2) have "length (pr_select_expressions st1) = length (pr_output_columns st1)"
    by (cases x) (auto simp: project_aggregate_item_def project_aggregate_def project_key_def Let_def case_prod_beta result_simps
        split: if_splits option.splits RawExpression.splits)
  from Cons.IH [OF st1(2) this] show ?case .
qed simp

lemma BindSelect_lengths:
  assumes "BindSelect select catalog = Inr plan"
  obtains input es cols where "plan = ProjectionNode input es cols" "length es = length cols"
proof -
  obtain scope input where "bind_select_list select scope input = Inr plan"
    using assms by (auto simp: BindSelect_def Let_def result_simps split: if_splits prod.splits)
  then show thesis
    using that by (auto simp: bind_select_list_def bind_projection_def MakeLogicalProjection_def result_simps split: if_splits
        dest!: project_lengths)
qed

text \<open>The driver between statements: the pool rests over the allocated pages of the file.\<close>

abbreviation driver_disk :: "Driver \<Rightarrow> DiskManager" where
  "driver_disk d \<equiv> cat_disk (dr_catalog d)"

definition driver_ready :: "Driver \<Rightarrow> bool" where
  "driver_ready d = (dm_inv (driver_disk d) \<and> pool_rests (allocated (driver_disk d)) (dr_pool d))"

lemma driver_ready_out [simp]: "driver_ready (d\<lparr>dr_out := out\<rparr>) = driver_ready d"
  by (simp add: driver_ready_def)

lemma with_pool_same: "clean_pool (cat_disk (dr_catalog d)) pool \<Longrightarrow> with_pool pool d = d\<lparr>dr_pool := fst pool\<rparr>"
  by (auto simp: with_pool_def clean_pool_def split: prod.splits)

lemma show_table_prints:
  assumes "produces (Operator_GetNext fuel) (op, driver_pool d) cs (op', pool)" "length cs < fuel"
    and "\<And>c. c \<in> set cs \<Longrightarrow> chunk_inv c" and "rows = concat (map chunk_rows cs)" "\<forall>row \<in> set rows. length row \<le> length schema"
  shows "show_table fuel schema op d =
    (Inr (length rows), (with_pool pool d)\<lparr>dr_out := dr_out d @ (if rows = [] then ''Empty set.'' @ newline
       else table_text (map oc_display_name schema) (map (map cell_text) rows))\<rparr>)"
proof -
  have "drain_child fuel (Operator_GetNext fuel) (each_selected collect_row) (([], 0), (op, driver_pool d)) =
      (Inr (), ((map (map cell_text) rows, length rows), (op', pool)))"
    using collector.drain_rows [OF assms(1), where rows = "[]" and a = "([], 0)" and fuel = fuel] assms(2-4) by auto
  moreover have "WriteTable (map oc_display_name schema) (map (map cell_text) rows) out =
      (Inr (), out @ table_text (map oc_display_name schema) (map (map cell_text) rows))" for out
    using assms(5) by (intro WriteTable_text) auto
  ultimately show ?thesis
    by (simp add: show_table_def on_out_def put_def sbind_def with_pool_def)
qed

lemma stream_rows_prints:
  assumes "produces (Operator_GetNext fuel) (op, driver_pool d) cs (op', pool)" "length cs < fuel"
    and "\<And>c. c \<in> set cs \<Longrightarrow> chunk_inv c" and "rows = concat (map chunk_rows cs)"
  shows "stream_rows fuel schema op d =
    (Inr (length rows), (with_pool pool d)\<lparr>dr_out := dr_out d @ header_text schema @ concat (map row_text rows)\<rparr>)"
proof -
  have "driver_pool (d\<lparr>dr_out := out\<rparr>) = driver_pool d" "with_pool pool (d\<lparr>dr_out := out\<rparr>) = (with_pool pool d)\<lparr>dr_out := out\<rparr>"
    for out by (simp_all add: driver_pool_def with_pool_def)
  then show ?thesis
    using drain_print [OF assms(1) assms(3) assms(2)] assms(4)
    by (simp add: stream_rows_def sbind_def on_out_def PrintHeader_spec)
qed

lemma RunSelect_prints:
  assumes plan: "OutputSchema plan = Inr schema" "Optimize plan (dr_catalog d) = Inr op"
    and root: "yields (dm_page (allocated (driver_disk d))) op ts rows" "\<forall>row \<in> set rows. length row \<le> length schema"
    and ready: "driver_ready d"
  obtains N pool where "\<And>fuel. N \<le> fuel \<Longrightarrow>
      RunSelect sys fuel plan d = (Inr (), d\<lparr>dr_pool := pool, dr_out := dr_out d @ rows_text sys schema rows\<rparr>)"
    "driver_ready (d\<lparr>dr_pool := pool\<rparr>)"
proof -
  have rests: "dm_inv (driver_disk d)" "pool_rests (allocated (driver_disk d)) (dr_pool d)" using ready by (simp_all add: driver_ready_def)
  obtain n cs op' bp where
    run: "produces (Operator_GetNext n) (op, driver_pool d) cs (op', (bp, driver_disk d))" "pool_rests (allocated (driver_disk d)) bp"
    "\<And>c. c \<in> set cs \<Longrightarrow> chunk_inv c" "rows = concat (map chunk_rows cs)"
    unfolding driver_pool_def by (rule yields_allocated [OF root(1) rests]) blast
  have same: "with_pool (bp, driver_disk d) d = d\<lparr>dr_pool := bp\<rparr>" by (simp add: with_pool_def)
  have "driver_ready (d\<lparr>dr_pool := bp\<rparr>)" using ready run(2) by (simp add: driver_ready_def)
  moreover have "RunSelect sys fuel plan d = (Inr (), d\<lparr>dr_pool := bp, dr_out := dr_out d @ rows_text sys schema rows\<rparr>)"
    if "n + length cs + 1 \<le> fuel" for fuel
  proof -
    have fuel: "produces (Operator_GetNext fuel) (op, driver_pool d) cs (op', (bp, driver_disk d))" "length cs < fuel"
      using produces_more_fuel [OF run(1), of fuel] that by simp_all
    show ?thesis
      using plan show_table_prints [OF fuel run(3,4) root(2)] stream_rows_prints [OF fuel run(3,4)]
      by (simp add: RunSelect_def sbind_def print_footer_def on_out_def put_def rows_text_def footer_text_def same)
  qed
  ultimately show thesis using that by blast
qed

text \<open>Every driver operation that does not touch the catalog's disk keeps the pool clean.\<close>

definition at_catalog :: "Catalog \<Rightarrow> Driver \<Rightarrow> bool" where
  "at_catalog cat d = (dr_catalog d = cat \<and> clean_pool (cat_disk cat) (driver_pool d))"

lemma at_catalog_out: "at_catalog cat d \<Longrightarrow> at_catalog cat (d\<lparr>dr_out := out\<rparr>)"
  by (auto simp: at_catalog_def driver_pool_def)

lemma at_catalog_pool: "at_catalog cat d \<Longrightarrow> clean_pool (cat_disk cat) pool \<Longrightarrow> at_catalog cat (with_pool pool d)"
  by (auto simp: at_catalog_def with_pool_same driver_pool_def clean_pool_def split: prod.splits)

lemma keeps_out: "keeps (at_catalog cat) (on_out act)"
  by (rule keepsI) (auto simp: on_out_def split: prod.splits intro: at_catalog_out)

lemma drained_clean:
  assumes "at_catalog cat d" "drain_child fuel (Operator_GetNext fuel) step (a, (op, driver_pool d)) = (res, (a', (op', pool)))"
  shows "clean_pool (cat_disk cat) pool"
  using drain_keeps [OF keeps_Operator, of "cat_disk cat" "(op, driver_pool d)" fuel fuel step a] assms
  by (simp add: at_catalog_def)

lemma keeps_show_table: "keeps (at_catalog cat) (show_table fuel schema op)"
proof (rule keepsI)
  fix d assume d: "at_catalog cat d"
  obtain res rows n op' pool where run: "drain_child fuel (Operator_GetNext fuel) (each_selected collect_row) (([], 0), (op, driver_pool d)) =
      (res, ((rows, n), (op', pool)))" by (metis prod.exhaust)
  have "keeps (at_catalog cat) (sbind (sresult res) (\<lambda>_. sbind (on_out (if rows = [] then put (''Empty set.'' @ newline)
      else WriteTable (map oc_display_name schema) rows)) (\<lambda>_. sreturn n)))"
    by (intro keeps_intros keeps_out)
  with at_catalog_pool [OF d drained_clean [OF d run]] run show "at_catalog cat (snd (show_table fuel schema op d))"
    by (simp add: show_table_def keeps_def)
qed

lemma keeps_stream_rows: "keeps (at_catalog cat) (stream_rows fuel schema op)"
  unfolding stream_rows_def
proof (intro keeps_sbind keeps_out keepsI)
  fix d assume d: "at_catalog cat d"
  obtain res out n op' pool where run: "drain_child fuel (Operator_GetNext fuel) print_chunk ((dr_out d, 0), (op, driver_pool d)) =
      (res, ((out, n), (op', pool)))" by (metis prod.exhaust)
  have "keeps (at_catalog cat) (sbind (sresult res) (\<lambda>_. sreturn n))" by (intro keeps_intros)
  with at_catalog_out [OF at_catalog_pool [OF d drained_clean [OF d run]], of out] run
  show "at_catalog cat (snd (case drain_child fuel (Operator_GetNext fuel) print_chunk ((dr_out d, 0), (op, driver_pool d)) of
      (res, ((out, total_rows), (op, pool))) \<Rightarrow> sbind (sresult res) (\<lambda>_. sreturn total_rows) ((with_pool pool d)\<lparr>dr_out := out\<rparr>)))"
    by (simp add: keeps_def)
qed

lemma keeps_RunSelect: "keeps (at_catalog cat) (RunSelect sys fuel plan)"
  unfolding RunSelect_def by (intro keeps_intros keeps_out keeps_show_table keeps_stream_rows)

lemma keeps_meta: "keeps (at_catalog cat) (TryHandleMetaCommand input)"
proof -
  have "keeps (at_catalog cat) RunListTables" "keeps (at_catalog cat) (RunDescribeTable name)" for name
    using keeps_out [of cat, unfolded keeps_def, rule_format]
    by (auto intro!: keepsI simp: RunListTables_def RunDescribeTable_def Let_def sbind_def split: option.splits sum.splits)
  then show ?thesis unfolding TryHandleMetaCommand_def Let_def by (intro keeps_intros)
qed

lemma keeps_catch:
  assumes "keeps (at_catalog cat) act"
  shows "keeps (at_catalog cat) (catch_errors act)"
proof (rule keepsI)
  fix d assume "at_catalog cat d"
  with assms have d: "at_catalog cat (snd (act d))" by (simp add: keeps_def)
  with keeps_out [of cat, unfolded keeps_def, rule_format, OF d] show "at_catalog cat (snd (catch_errors act d))"
    by (auto simp: catch_errors_def split: prod.splits sum.splits option.splits)
qed

lemma run_sql_select:
  assumes "ParseSingleStatement (sys_parse sys) (sys_stod sys) sql = Inr (SelectStatement select)"
  shows "run_sql sys fuel sql d =
    (case BindSelect select (dr_catalog d) of Inl e \<Rightarrow> (Inl (as_bind_error e), d) | Inr plan \<Rightarrow> RunSelect sys fuel plan d)"
  by (simp add: run_sql_def assms sbind_def on_catalog_def Bind_def run_bound_def split: sum.split)

lemma keeps_select_statement:
  assumes "ParseSingleStatement (sys_parse sys) (sys_stod sys) sql = Inr (SelectStatement select)"
  shows "keeps (at_catalog cat) (ExecuteStatement sys fuel sql)"
proof -
  have "keeps (at_catalog cat) (run_sql sys fuel sql)"
    using keeps_RunSelect [of cat sys fuel, unfolded keeps_def, rule_format]
    by (intro keepsI) (simp add: run_sql_select [OF assms] split: sum.split)
  then show ?thesis unfolding ExecuteStatement_def by (intro keeps_intros keeps_meta keeps_catch)
qed

section \<open>Errors\<close>

text \<open>An action that raises no exception: it may only run into undefined behaviour or out of fuel.\<close>

definition silent :: "('s, 'a) action \<Rightarrow> bool" where
  "silent m = (\<forall>s e s'. m s = (Inl e, s') \<longrightarrow> what e = None)"

lemma silentI: "(\<And>s e s'. m s = (Inl e, s') \<Longrightarrow> what e = None) \<Longrightarrow> silent m"
  by (simp add: silent_def)

lemma silent_sbind: "silent m \<Longrightarrow> (\<And>x. silent (f x)) \<Longrightarrow> silent (sbind m f)"
  unfolding silent_def sbind_def by (fastforce split: prod.splits sum.splits)

lemma silent_catch: "silent (catch_errors act)"
  by (rule silentI) (auto simp: catch_errors_def on_out_def put_def split: prod.splits sum.splits option.splits)

lemma rmap_fails: "rmap f xs = Inl e \<Longrightarrow> \<exists>x \<in> set xs. f x = Inl e"
  by (induction xs) (auto simp: rbind_Inl_iff)

lemma rmap_member: "rmap f xs = Inr ys \<Longrightarrow> y \<in> set ys \<Longrightarrow> \<exists>x \<in> set xs. f x = Inr y"
  by (induction xs arbitrary: ys) (auto simp: result_simps)

lemma WriteTable_silent:
  "\<forall>row \<in> set rows. length row = length headers \<Longrightarrow> on_out (WriteTable headers rows) d = (Inr (), d\<lparr>dr_out := dr_out d @ table_text headers rows\<rparr>)"
  by (simp add: on_out_def WriteTable_text)

lemma silent_list: "silent RunListTables"
proof (rule silentI)
  fix d e d' assume run: "RunListTables d = (Inl e, d')"
  show "what e = None"
  proof (cases "rmap (table_summary (dr_catalog d)) (TableNames (dr_catalog d))")
    case (Inl e')
    from rmap_fails [OF this] have "what e' = None"
      by (auto simp: table_summary_def null_dereference_def split: option.splits)
    with Inl run show ?thesis by (auto simp: RunListTables_def Let_def on_out_def put_def sbind_def split: if_splits)
  next
    case (Inr rows)
    then have "\<forall>row \<in> set rows. length row = 3"
      using rmap_member [OF Inr] by (fastforce simp: table_summary_def null_dereference_def split: option.splits)
    with Inr run show ?thesis by (auto simp: RunListTables_def Let_def on_out_def put_def sbind_def WriteTable_text split: if_splits)
  qed
qed

lemma silent_describe: "silent (RunDescribeTable name)"
proof (rule silentI)
  fix d e d' assume run: "RunDescribeTable name d = (Inl e, d')"
  show "what e = None"
  proof (cases "GetTable (dr_catalog d) name")
    case (Some table)
    have "column_summary table i = Inr (let col = to_columns table ! i in
        [cd_name col, TypeIdName (cd_type col), show_nat (unat (cd_ordinal col))])" if "i < length (to_columns table)" for i
      using that by (simp add: column_summary_def to_Column_def Let_def)
    then have "rmap (column_summary table) [0..<length (to_columns table)] = Inr (map (\<lambda>i. let col = to_columns table ! i in
        [cd_name col, TypeIdName (cd_type col), show_nat (unat (cd_ordinal col))]) [0..<length (to_columns table)])"
      by (intro rmap_Inr) simp
    with run Some show ?thesis by (simp add: RunDescribeTable_def sbind_def on_out_def WriteTable_text Let_def)
  qed (use run in \<open>simp add: RunDescribeTable_def on_out_def put_def\<close>)
qed

lemma silent_ExecuteStatement: "silent (ExecuteStatement sys fuel sql)"
proof -
  have return: "silent (sreturn x)" for x :: 'a by (rule silentI) simp
  have "silent (TryHandleMetaCommand sql)"
    unfolding TryHandleMetaCommand_def Let_def by (auto intro!: silent_sbind silent_list silent_describe return)
  then show ?thesis unfolding ExecuteStatement_def by (auto intro!: silent_sbind silent_catch return)
qed

section \<open>A SELECT statement\<close>

text \<open>Statements for the SQL parser: meta commands start with a backslash and a d.\<close>

definition is_sql :: "string \<Rightarrow> bool" where
  "is_sql sql = (take 2 sql \<noteq> backslash @ ''d'')"

lemma is_sql_no_meta:
  assumes "is_sql sql"
  shows "TryHandleMetaCommand sql d = (Inr False, d)"
proof -
  have "take 2 sql = backslash @ ''d''" if "take 3 sql = backslash @ ''d ''"
    using arg_cong [OF that, of "take 2"] by (simp add: backslash_def)
  with assms have "take 3 sql \<noteq> backslash @ ''d ''" by (auto simp: is_sql_def)
  moreover have "sql \<noteq> backslash @ ''dt'' \<and> sql \<noteq> backslash @ ''d''" using assms by (auto simp: is_sql_def backslash_def)
  ultimately show ?thesis by (simp add: TryHandleMetaCommand_def)
qed

lemma ExecuteStatement_sql: "is_sql sql \<Longrightarrow> ExecuteStatement sys fuel sql d = catch_errors (run_sql sys fuel sql) d"
  by (simp add: ExecuteStatement_def sbind_def is_sql_no_meta)

lemma plan_rows_length: "row \<in> set (plan_rows db (ProjectionNode input es cols)) \<Longrightarrow> length row = length es"
  by auto

lemma select_printed:
  assumes "driver_ready d" "database_ok (dr_catalog d) (dm_page (allocated (driver_disk d))) db"
    and "is_sql sql" "ParseSingleStatement (sys_parse sys) (sys_stod sys) sql = Inr (SelectStatement select)"
    and "statement_fine select" "BindSelect select (dr_catalog d) = Inr plan"
    and "plan_runnable plan" "narrow plan" "plan_fits db plan"
  shows "\<exists>N pool schema. OutputSchema plan = Inr schema \<and> driver_ready (d\<lparr>dr_pool := pool\<rparr>) \<and>
    (\<forall>fuel \<ge> N. ExecuteStatement sys fuel sql d =
      (Inr (), d\<lparr>dr_pool := pool, dr_out := dr_out d @ rows_text sys schema (plan_rows db plan)\<rparr>))"
proof -
  obtain input es cols where plan: "plan = ProjectionNode input es cols" "length es = length cols"
    by (rule BindSelect_lengths [OF assms(6)])
  have "plan_wf False plan" using BindSelect_wf [OF database_tables_ok [OF assms(2)] assms(5,6)] assms(7) by blast
  then obtain op where op: "Optimize plan (dr_catalog d) = Inr op"
    "yields (dm_page (allocated (driver_disk d))) op (map (type_of \<circ> ResultType) es) (plan_rows db plan)"
    using Optimize_yields [OF plan(1) _ assms(8) BindSelect_tables [OF assms(2,6)] assms(9)] by blast
  have schema: "OutputSchema plan = Inr cols" by (simp add: plan(1))
  have "\<forall>row \<in> set (plan_rows db plan). length row \<le> length cols"
    unfolding plan(1) using plan_rows_length plan(2) by fastforce
  from RunSelect_prints [OF schema op this assms(1), of sys] obtain N pool where
    "\<And>fuel. N \<le> fuel \<Longrightarrow> RunSelect sys fuel plan d =
      (Inr (), d\<lparr>dr_pool := pool, dr_out := dr_out d @ rows_text sys cols (plan_rows db plan)\<rparr>)"
    "driver_ready (d\<lparr>dr_pool := pool\<rparr>)" by blast
  then show ?thesis
    using schema assms(6) by (intro exI [of _ N] exI [of _ pool] exI [of _ cols])
      (simp add: ExecuteStatement_sql [OF assms(3)] catch_errors_def run_sql_select [OF assms(4)])
qed

end
