(* ===== verification/InsertBinding.thy ===== *)
theory InsertBinding
  imports Binder
begin

text \<open>
  What \<open>BindInsert\<close> and \<open>BindCreateTable\<close> establish: a bound row has one literal of the right
  type for every column of its table, each the literal that the statement gives for that
  column, and a new table numbers its columns by position.
\<close>

section \<open>Rows\<close>

definition insert_targets :: "InsertNode \<Rightarrow> TableObject \<Rightarrow> nat list" where
  "insert_targets ins t =
     (if in_columns ins = [] then [0..<length (to_columns t)]
      else map (\<lambda>name. case named_column t name of None \<Rightarrow> 0 | Some c \<Rightarrow> unat (cd_ordinal c)) (in_columns ins))"

text \<open>A literal is what the statement gives for a column: it binds to a value of its type.\<close>

definition value_for :: "TableObject \<Rightarrow> nat \<Rightarrow> RawExpression \<Rightarrow> BoundExpression \<Rightarrow> bool" where
  "value_for t k raw e = (k < length (to_columns t) \<and> (\<exists>c. raw = RawConst c \<and> BindConst c = Inr e) \<and>
     ResultType e = ToExpressionType (cd_type (to_columns t ! k)))"

lemma bind_insert_value_Inr:
  "bind_insert_value t (ordinal, raw) acc = Inr acc' \<longleftrightarrow>
     (\<exists>e. value_for t (unat ordinal) raw e \<and> acc' = acc[unat ordinal := Some e])"
proof (cases raw)
  case (RawConst c)
  then show ?thesis
    by (cases "BindConst c") (auto simp: bind_insert_value_def value_for_def to_Column_def vec_at_def)
qed (simp_all add: bind_insert_value_def value_for_def)

lemma bind_insert_values:
  assumes "rfold (bind_insert_value t) (zip ordinals raws) acc = Inr row" and "length raws = length ordinals"
    and "distinct ordinals" and "length acc = length (to_columns t)"
  shows "length row = length acc" and "k \<notin> unat ` set ordinals \<Longrightarrow> row ! k = acc ! k"
    and "i < length ordinals \<Longrightarrow> \<exists>e. value_for t (unat (ordinals ! i)) (raws ! i) e \<and> row ! unat (ordinals ! i) = Some e"
proof -
  have "length row = length acc \<and> (\<forall>k. k \<notin> unat ` set ordinals \<longrightarrow> row ! k = acc ! k) \<and>
    (\<forall>i < length ordinals. \<exists>e. value_for t (unat (ordinals ! i)) (raws ! i) e \<and> row ! unat (ordinals ! i) = Some e)"
    using assms
  proof (induction ordinals raws arbitrary: acc rule: list_induct2')
    case (4 o1 ordinals r1 raws)
    obtain e where e: "value_for t (unat o1) r1 e"
      "rfold (bind_insert_value t) (zip ordinals raws) (acc[unat o1 := Some e]) = Inr row"
      using 4(2) by (auto simp: result_simps bind_insert_value_Inr)
    have IH: "length row = length acc" "\<forall>k. k \<notin> unat ` set ordinals \<longrightarrow> row ! k = acc[unat o1 := Some e] ! k"
      "\<forall>i < length ordinals. \<exists>e. value_for t (unat (ordinals ! i)) (raws ! i) e \<and> row ! unat (ordinals ! i) = Some e"
      using 4(1) [OF e(2)] 4(3,4,5) by auto
    have "unat o1 \<notin> unat ` set ordinals" using 4(4) by (auto dest: unsigned_word_eqI)
    then have "row ! unat o1 = Some e" using IH(2) e(1) 4(5) by (simp add: value_for_def)
    moreover have "\<forall>k. k \<notin> unat ` set (o1 # ordinals) \<longrightarrow> row ! k = acc ! k" using IH(2) by simp
    moreover have "\<exists>e. value_for t (unat ((o1 # ordinals) ! i)) ((r1 # raws) ! i) e \<and> row ! unat ((o1 # ordinals) ! i) = Some e"
      if "i < length (o1 # ordinals)" for i
      using that IH(3) e(1) \<open>row ! unat o1 = Some e\<close> by (cases i) auto
    ultimately show ?case using IH(1) by blast
  qed simp_all
  then show "length row = length acc" and "k \<notin> unat ` set ordinals \<Longrightarrow> row ! k = acc ! k"
    and "i < length ordinals \<Longrightarrow> \<exists>e. value_for t (unat (ordinals ! i)) (raws ! i) e \<and> row ! unat (ordinals ! i) = Some e"
    by blast+
qed

lemma value_for_const:
  assumes "value_for t k raw e"
  obtains v where "e = ConstNode v" "value_type v = cd_type (to_columns t ! k)"
proof -
  have inj: "ToExpressionType a = ToExpressionType b \<Longrightarrow> a = b" for a b by (cases a; cases b) simp_all
  obtain c where "BindConst c = Inr e" using assms by (auto simp: value_for_def)
  from BindConst_Inr [OF this] obtain v where "e = ConstNode v" by blast
  with assms inj that show thesis by (auto simp: value_for_def)
qed

text \<open>As many different ordinals as columns: every column gets a value.\<close>

lemma ordinals_cover:
  assumes "distinct xs" "length xs = n" "\<forall>x \<in> set xs. x < n"
  shows "set xs = {0..<n}"
  using assms by (intro card_subset_eq) (auto simp: distinct_card)

lemma bind_insert_row_complete:
  assumes "bind_insert_row t ordinals raws = Inr row" and "distinct ordinals"
  shows "\<exists>vals. row = map (Some \<circ> ConstNode) vals \<and> map value_type vals = map cd_type (to_columns t) \<and>
    length raws = length vals \<and> (\<forall>i < length vals. value_for t (unat (ordinals ! i)) (raws ! i) (ConstNode (vals ! unat (ordinals ! i))))"
proof -
  let ?n = "length (to_columns t)"
  have b: "rfold (bind_insert_value t) (zip ordinals raws) (replicate ?n None) = Inr row"
    "length raws = length ordinals" "length ordinals = ?n"
    using assms(1) by (auto simp: bind_insert_row_def split: if_splits)
  have len: "length row = ?n" using bind_insert_values(1) [OF b(1,2) assms(2)] by simp
  have slot: "\<exists>e. value_for t (unat (ordinals ! i)) (raws ! i) e \<and> row ! unat (ordinals ! i) = Some e" if "i < ?n" for i
    using bind_insert_values(3) [OF b(1,2) assms(2)] that b(3) by simp
  have "set (map unat ordinals) = {0..<?n}"
  proof (rule ordinals_cover)
    show "distinct (map unat ordinals)" using assms(2) by (auto simp: distinct_map inj_on_def dest: unsigned_word_eqI)
    show "\<forall>x \<in> set (map unat ordinals). x < ?n" using slot b(3) by (force simp: in_set_conv_nth value_for_def)
  qed (simp add: b(3))
  then have filled: "\<exists>v. row ! k = Some (ConstNode v) \<and> value_type v = cd_type (to_columns t ! k)" if "k < ?n" for k
  proof -
    from that \<open>set (map unat ordinals) = {0..<?n}\<close> have "k \<in> set (map unat ordinals)" by simp
    then obtain i where "i < ?n" "unat (ordinals ! i) = k" by (auto simp: in_set_conv_nth b(3))
    with slot [of i] show ?thesis by (auto elim: value_for_const)
  qed
  then obtain f where f: "\<forall>k < ?n. row ! k = Some (ConstNode (f k)) \<and> value_type (f k) = cd_type (to_columns t ! k)" by metis
  let ?vals = "map f [0..<?n]"
  have "value_for t (unat (ordinals ! i)) (raws ! i) (ConstNode (?vals ! unat (ordinals ! i)))" if i: "i < ?n" for i
  proof -
    obtain e where e: "value_for t (unat (ordinals ! i)) (raws ! i) e" "row ! unat (ordinals ! i) = Some e" using slot [OF i] by blast
    then have "unat (ordinals ! i) < ?n" by (simp add: value_for_def)
    with e f show ?thesis by simp
  qed
  moreover have "row = map (Some \<circ> ConstNode) ?vals" using f len by (intro nth_equalityI) simp_all
  moreover have "map value_type ?vals = map cd_type (to_columns t)" using f by (intro nth_equalityI) simp_all
  ultimately show ?thesis using b(2,3) by (intro exI [of _ ?vals]) simp
qed

lemma target_ordinal_Inr:
  "table_ok t \<Longrightarrow> target_ordinal ins t name = Inr ordinal \<longleftrightarrow> (\<exists>c. named_column t name = Some c \<and> ordinal = cd_ordinal c)"
  by (auto simp: target_ordinal_def FindColumn_spec split: option.splits)

lemma BindInsert_targets:
  assumes "table_ok t" "distinct (in_columns ins)"
    and "(if in_columns ins = [] then Inr (map word_of_nat [0..<length (to_columns t)])
          else rmap (target_ordinal ins t) (in_columns ins)) = Inr ordinals"
  shows "distinct ordinals \<and> map unat ordinals = insert_targets ins t"
proof (cases "in_columns ins = []")
  case True
  then have ords: "ordinals = map word_of_nat [0..<length (to_columns t)]" using assms(3) by simp
  have "map unat ordinals = [0..<length (to_columns t)]"
    using assms(1) by (intro nth_equalityI) (simp_all add: ords table_ok_def)
  with True show ?thesis by (metis distinct_map distinct_upt insert_targets_def)
next
  case False
  then have r: "rmap (target_ordinal ins t) (in_columns ins) = Inr ordinals" using assms(3) by simp
  have len: "length ordinals = length (in_columns ins)" by (rule rmap_Inr_length [OF r])
  have col: "\<exists>c. named_column t (in_columns ins ! i) = Some c \<and> ordinals ! i = cd_ordinal c" if "i < length ordinals" for i
    using rmap_Inr_nth [OF r] that len target_ordinal_Inr [OF assms(1)] by simp
  have "distinct ordinals"
  proof (unfold distinct_conv_nth, intro allI impI)
    fix i j assume ij: "i < length ordinals" "j < length ordinals" "i \<noteq> j"
    obtain c d where "named_column t (in_columns ins ! i) = Some c" "ordinals ! i = cd_ordinal c"
      "named_column t (in_columns ins ! j) = Some d" "ordinals ! j = cd_ordinal d" using col [OF ij(1)] col [OF ij(2)] by blast
    moreover have "in_columns ins ! i \<noteq> in_columns ins ! j" using assms(2) ij len by (simp add: nth_eq_iff_index_eq)
    ultimately show "ordinals ! i \<noteq> ordinals ! j" using named_column_Some [OF assms(1)] by metis
  qed
  moreover have "unat (ordinals ! i) = insert_targets ins t ! i" if "i < length ordinals" for i
    using col [OF that] False that len by (auto simp: insert_targets_def)
  then have "map unat ordinals = insert_targets ins t"
    using False len by (intro nth_equalityI) (simp_all add: insert_targets_def)
  ultimately show ?thesis by simp
qed

lemma BindInsert_rows:
  assumes "catalog_tables_ok cat" "GetTable cat (in_table_name ins) = Some t" "distinct (in_columns ins)" "BindInsert ins cat = Inr bi"
  shows "bi_table_id bi = to_table_id t \<and> length (bi_rows bi) = length (in_value_rows ins) \<and>
    (\<forall>r < length (bi_rows bi). \<exists>vals. bi_rows bi ! r = map (Some \<circ> ConstNode) vals \<and>
       map value_type vals = map cd_type (to_columns t) \<and> length (in_value_rows ins ! r) = length vals \<and>
       (\<forall>i < length vals. value_for t (insert_targets ins t ! i) (in_value_rows ins ! r ! i)
          (ConstNode (vals ! (insert_targets ins t ! i)))))"
proof -
  have t: "table_ok t" using assms(1,2) by (simp add: catalog_tables_ok_def)
  obtain ordinals rows where o: "(if in_columns ins = [] then Inr (map word_of_nat [0..<length (to_columns t)])
        else rmap (target_ordinal ins t) (in_columns ins)) = Inr ordinals"
    "rmap (bind_insert_row t ordinals) (in_value_rows ins) = Inr rows" "bi = \<lparr>bi_table_id = to_table_id t, bi_rows = rows\<rparr>"
    using assms(4) unfolding BindInsert_def assms(2) by (auto simp: result_simps simp del: rmap.simps)
  note tg = BindInsert_targets [OF t assms(3) o(1)]
  have "\<exists>vals. rows ! r = map (Some \<circ> ConstNode) vals \<and> map value_type vals = map cd_type (to_columns t) \<and>
      length (in_value_rows ins ! r) = length vals \<and>
      (\<forall>i < length vals. value_for t (insert_targets ins t ! i) (in_value_rows ins ! r ! i) (ConstNode (vals ! (insert_targets ins t ! i))))"
    if "r < length rows" for r
  proof -
    have row: "bind_insert_row t ordinals (in_value_rows ins ! r) = Inr (rows ! r)"
      using rmap_Inr_nth [OF o(2)] rmap_Inr_length [OF o(2)] that by simp
    then have "length ordinals = length (to_columns t)" by (auto simp: bind_insert_row_def split: if_splits)
    then have "unat (ordinals ! i) = insert_targets ins t ! i" if "i < length (to_columns t)" for i
      using tg that by (metis nth_map)
    with bind_insert_row_complete [OF row] tg show ?thesis by (metis length_map)
  qed
  with o(2,3) rmap_Inr_length show ?thesis by auto
qed

section \<open>New tables\<close>

lemma bind_column_defs:
  assumes "rmap bind_column_def (enumerate 0 raws) = Inr columns"
  shows "length columns = length raws" and "i < length columns \<Longrightarrow> cd_ordinal (columns ! i) = word_of_nat i \<and>
    cd_name (columns ! i) = rd_name (raws ! i) \<and> MapRawTypeName (rd_raw_type_name (raws ! i)) = Inr (cd_type (columns ! i))"
proof -
  show len: "length columns = length raws" using rmap_Inr_length [OF assms] by simp
  show "i < length columns \<Longrightarrow> cd_ordinal (columns ! i) = word_of_nat i \<and>
    cd_name (columns ! i) = rd_name (raws ! i) \<and> MapRawTypeName (rd_raw_type_name (raws ! i)) = Inr (cd_type (columns ! i))"
    using rmap_Inr_nth [OF assms, of i] len by (cases "columns ! i") (auto simp: nth_enumerate_eq bind_column_def_def result_simps)
qed

lemma new_table_ok:
  assumes "rmap bind_column_def (enumerate 0 raws) = Inr columns" and "length raws < 2 ^ 32"
  shows "table_ok (MakeTableObject table_id name columns)"
  using bind_column_defs [OF assms(1)] assms(2) by (simp add: table_ok_def MakeTableObject_def)

text \<open>The tables of a catalog stay numbered by position when a statement creates another.\<close>

lemma BindCreateTable_keeps_tables_ok:
  assumes "catalog_tables_ok cat" "BindCreateTable create cat = (r, cat')" "length (ct_columns create) < 2 ^ 32"
  shows "catalog_tables_ok cat'"
proof (cases "rmap bind_column_def (enumerate 0 (ct_columns create))")
  case (Inl e)
  with assms show ?thesis by (simp add: BindCreateTable_def sbind_def sresult_def)
next
  case (Inr columns)
  then have run: "CreateTable (ct_table_name create) columns cat = (r, cat')"
    using assms(2) by (simp add: BindCreateTable_def sbind_def sresult_def)
  show ?thesis
  proof (cases "map_of (cat_tables cat) (ct_table_name create) = None")
    case False
    with run assms(1) show ?thesis by (auto simp: CreateTable_def)
  next
    case True
    obtain table_id schema where ss: "ss_AddTable (cat_schema cat) (ct_table_name create) columns = (table_id, schema)" by fastforce
    let ?tables = "emplace (ct_table_name create) (MakeTableObject table_id (ct_table_name create) columns) (cat_tables cat)"
    have keeps: "cat_tables (snd (PersistMetadata c)) = cat_tables c" for c
      by (simp add: PersistMetadata_def Let_def split: prod.splits)
    have "cat_tables (snd (sbind PersistMetadata (\<lambda>_. sreturn table_id) c)) = cat_tables c" for c
      using keeps [of c] by (auto simp: sbind_def sreturn_def split: prod.splits sum.splits)
    from this [of "cat\<lparr>cat_schema := schema, cat_tables := ?tables\<rparr>"] have "cat_tables cat' = ?tables"
      using run True ss by (simp add: CreateTable_def)
    with assms(1) new_table_ok [OF Inr assms(3)] show ?thesis
      by (auto simp: catalog_tables_ok_def GetTable_def map_of_emplace)
  qed
qed

end
