(* ===== verification/Session.thy ===== *)
theory Session
  imports DriverCorrect InsertBinding
begin

text \<open>
  A session: what a sequence of statements does to the database as the user sees it, its tables
  with their names and columns, and their rows. Each statement has a meaning on that level, a
  text that it prints and the database that it leaves; the driver, the catalog, the file and the
  buffer pool implement it.
\<close>

section \<open>The stored database\<close>

text \<open>
  A table of the schema can be queried: its columns are numbered by position, there is one at
  least, and the scan can read its \<open>VARCHAR\<close> columns.
\<close>

definition entry_ok :: "TableSchemaEntry \<Rightarrow> bool" where
  "entry_ok e = (table_ok (loaded_table e []) \<and> ts_columns e \<noteq> [] \<and> varchar_ordinals_low (map cd_type (ts_columns e)))"

definition stored_table :: "DiskManager \<Rightarrow> TypeId list \<Rightarrow> RowGroupFooterEntry list \<Rightarrow> cell list list \<Rightarrow> bool" where
  "stored_table dm ts rgs rows = (\<exists>contents. groups_stored dm rgs contents \<and> list_all (list_all2 cells_of_type ts) contents \<and>
     list_all (list_all nan_free) contents \<and> list_all light (table_rows rgs contents) \<and>
     rows = map (map clean_cell) (table_rows rgs contents))"

text \<open>
  The database as the user sees it: the tables in the order of their creation, and the rows of
  each. There are no rows but those of the tables.
\<close>

record database =
  db_schema :: "TableSchemaEntry list"
  db_rows :: tables

definition no_tables :: database where
  "no_tables = \<lparr>db_schema = [], db_rows = \<lambda>_. []\<rparr>"

definition add_table :: "string \<Rightarrow> ColumnDef list \<Rightarrow> database \<Rightarrow> database" where
  "add_table name columns db =
     db\<lparr>db_schema := db_schema db @
        [\<lparr>ts_table_id = word_of_nat (length (db_schema db)), ts_table_name = name, ts_columns = columns\<rparr>]\<rparr>"

definition add_rows :: "uint32 \<Rightarrow> cell list list \<Rightarrow> database \<Rightarrow> database" where
  "add_rows table_id rows db = db\<lparr>db_rows := (db_rows db)(table_id := db_rows db table_id @ rows)\<rparr>"

text \<open>
  A catalog stores a database: it has exactly these tables, and every table can be queried and
  is stored with exactly these rows.
\<close>

definition stored_database :: "Catalog \<Rightarrow> (string \<Rightarrow> RowGroupFooterEntry list) \<Rightarrow> database \<Rightarrow> bool" where
  "stored_database cat G db = (catalog_holds cat G \<and> ss_tables (cat_schema cat) = db_schema db \<and>
     (\<forall>table_id. table_id \<notin> ts_table_id ` set (db_schema db) \<longrightarrow> db_rows db table_id = []) \<and>
     (\<forall>e \<in> set (db_schema db). entry_ok e \<and>
        stored_table (cat_disk cat) (map cd_type (ts_columns e)) (G (ts_table_name e)) (db_rows db (ts_table_id e))))"

definition serves :: "Driver \<Rightarrow> database \<Rightarrow> bool" where
  "serves d db = (driver_ready d \<and> (\<exists>G. stored_database (dr_catalog d) G db))"

lemma stored_table_extends: "stored_table dm ts rgs rows \<Longrightarrow> extends dm dm' \<Longrightarrow> stored_table dm' ts rgs rows"
  unfolding stored_table_def using groups_stored_extends by blast

lemma stored_table_empty: "stored_table dm ts [] []"
  unfolding stored_table_def by (rule exI [of _ "[]"]) (simp add: groups_stored_def table_rows_def)

lemma loaded_table_ok: "table_ok (loaded_table e rgs) = table_ok (loaded_table e [])"
  by (simp add: table_ok_def loaded_table_def MakeTableObject_def)

lemma GetTable_entry:
  assumes "catalog_holds cat G" "GetTable cat name = Some t"
  obtains e where "e \<in> set (ss_tables (cat_schema cat))" "name = ts_table_name e" "t = loaded_table e (G name)"
  using map_of_SomeD [of "cat_tables cat" name t] assms that by (auto simp: GetTable_def catalog_holds_def tables_of_def)

lemma stored_database_ok:
  assumes "stored_database cat G db"
  shows "database_ok cat (dm_page (allocated (cat_disk cat))) (db_rows db)"
  unfolding database_ok_def
proof (intro allI impI)
  fix name t assume t: "GetTable cat name = Some t"
  have holds: "catalog_holds cat G" and schema: "ss_tables (cat_schema cat) = db_schema db"
    using assms by (simp_all add: stored_database_def)
  then have dm: "dm_inv (cat_disk cat)" by (simp add: catalog_holds_def)
  obtain e where e: "e \<in> set (ss_tables (cat_schema cat))" "name = ts_table_name e" "t = loaded_table e (G name)"
    by (rule GetTable_entry [OF holds t])
  note e_db = e(1) [unfolded schema]
  let ?ts = "map cd_type (ts_columns e)" and ?rgs = "G (ts_table_name e)"
  obtain contents where c: "groups_stored (cat_disk cat) ?rgs contents" "list_all (list_all2 cells_of_type ?ts) contents"
    "list_all (list_all nan_free) contents" "list_all light (table_rows ?rgs contents)"
    "db_rows db (ts_table_id e) = map (map clean_cell) (table_rows ?rgs contents)"
    using assms e_db unfolding stored_database_def stored_table_def by blast
  have "entry_ok e" using assms e_db by (simp add: stored_database_def)
  then have ok: "table_ok t" "varchar_ordinals_low ?ts" by (simp_all add: entry_ok_def e(2,3) loaded_table_ok [of e "G (ts_table_name e)"])
  have "table_at (dm_page (allocated (cat_disk cat))) t ?ts contents"
    using groups_allocated [OF dm c(1)] c(2) ok(2) by (auto simp: table_at_def groups_stored_def e(2,3) elim: list_all2_mono)
  moreover have "GetTableById cat (to_table_id t) = Some t" using GetTableById_holds [OF holds e(1)] by (simp add: e(2,3))
  ultimately show "table_ok t \<and> GetTableById cat (to_table_id t) = Some t \<and>
     (\<exists>contents. table_at (dm_page (allocated (cat_disk cat))) t (map cd_type (to_columns t)) contents \<and>
        db_rows db (to_table_id t) = map (map clean_cell) (table_rows (to_row_groups t) contents) \<and>
        list_all (list_all nan_free) contents \<and> list_all light (table_rows (to_row_groups t) contents))"
    using ok c(3-5) by (intro conjI exI [of _ contents]) (simp_all add: e(2,3))
qed

section \<open>INSERT\<close>

text \<open>The literals a bound row stores, and those that may be stored.\<close>

fun stored_cell :: "BoundExpression option \<Rightarrow> cell" where
  "stored_cell (Some (ConstNode v)) = (v, True)"
| "stored_cell _ = (VInt 0, False)"

fun storable :: "ConstValue \<Rightarrow> bool" where
  "storable (VInt x) = True"
| "storable (VFloat x) = (\<not> f32_is_nan x)"
| "storable (VString s) = (s \<noteq> [] \<and> length s < 2 ^ 17)"

definition new_rows :: "BoundInsert \<Rightarrow> cell list list" where
  "new_rows bi = map (map stored_cell) (bi_rows bi)"

lemma sbind_assoc: "sbind (sbind m f) g = sbind m (\<lambda>x. sbind (f x) g)"
  by (intro ext) (simp add: sbind_def split: prod.split sum.split)

lemma insert_bound_rows:
  "sbind (seach insert_bound_row (map (map (Some \<circ> ConstNode)) rows)) (\<lambda>_. InsertFinish) = insert_rows (map (map ConstNode) rows)"
proof (induction rows)
  case (Cons row rows)
  have "bound_values (map (Some \<circ> ConstNode) row) = Inr (map ConstNode row)"
    unfolding bound_values_def by (induction row) simp_all
  then have "insert_bound_row (map (Some \<circ> ConstNode) row) = InsertRow (map ConstNode row)"
    by (intro ext) (simp add: insert_bound_row_def sbind_def)
  with Cons.IH show ?case by (simp add: comp_def sbind_assoc)
qed (simp add: sbind_def fun_eq_iff)

lemma row_contents:
  assumes "list_all2 (\<lambda>rg cellss. list_all (\<lambda>cells. length cells = unat (rg_row_count rg)) cellss) rgs cs"
    and "\<And>row x. row \<in> set (table_rows rgs cs) \<Longrightarrow> x \<in> set row \<Longrightarrow> P x"
  shows "list_all (list_all (list_all P)) cs"
  using assms
proof (induction rule: list_all2_induct)
  case (Cons rg rgs cellss cs)
  have "P (cells ! i)" if "cells \<in> set cellss" "i < unat (rg_row_count rg)" for cells i
    by (rule Cons.prems [of "map (\<lambda>cells. cells ! i) cellss"]) (use that in \<open>auto simp: table_rows_def cells_rows_def\<close>)
  then have "list_all P cells" if "cells \<in> set cellss" for cells
    using bspec [OF Cons.hyps(1) [unfolded list_all_iff] that] that by (simp add: list_all_length)
  then have "list_all (list_all P) cellss" by (simp add: list_all_iff [of _ cellss])
  moreover have "list_all (list_all (list_all P)) cs"
  proof (rule Cons.IH)
    fix row x assume "row \<in> set (table_rows rgs cs)" "x \<in> set row"
    then show "P x" by (intro Cons.prems [of row x]) (simp_all add: table_rows_def)
  qed
  ultimately show ?case by simp
qed simp

lemma storable_contents:
  assumes "groups_stored dm rgs cs" "table_rows rgs cs = map literal_row rows" "list_all (list_all storable) rows"
  shows "list_all (list_all nan_free) cs" "list_all light (table_rows rgs cs)"
proof -
  have cell: "\<exists>v. x = (v, True) \<and> storable v" if "row \<in> set (table_rows rgs cs)" "x \<in> set row" for row x
    using that assms(2,3) by (auto simp: literal_row_def list_all_iff)
  have "list_all (list_all (list_all (\<lambda>x. \<exists>v. x = (v, True) \<and> storable v))) cs"
    by (rule row_contents [OF _ cell]) (use assms(1) in \<open>auto simp: groups_stored_def group_holds_def elim: list_all2_mono\<close>)
  moreover have "nan_free cells" if "list_all (\<lambda>x. \<exists>v. x = (v, True) \<and> storable v) cells" for cells
    using that by (fastforce simp: nan_free_def valid_floats_def list_all_iff split: ConstValue.splits)
  ultimately show "list_all (list_all nan_free) cs" by (auto simp: list_all_iff)
  have "value_weight v < 2 ^ 21" if "storable v" for v using that by (cases v) simp_all
  with cell show "list_all light (table_rows rgs cs)" by (fastforce simp: light_def list_all_iff cell_weight_def)
qed

text \<open>A bound insert into a table of the schema.\<close>

lemma bound_insert:
  assumes "stored_database cat G db" "BindInsert ins cat = Inr bi" "distinct (in_columns ins)"
  obtains e rows where "e \<in> set (ss_tables (cat_schema cat))" "bi_table_id bi = ts_table_id e"
    "bi_rows bi = map (map (Some \<circ> ConstNode)) rows" "list_all (\<lambda>row. map value_type row = map cd_type (ts_columns e)) rows"
proof -
  have holds: "catalog_holds cat G" using assms(1) by (simp add: stored_database_def)
  obtain t where t: "GetTable cat (in_table_name ins) = Some t" using assms(2) by (auto simp: BindInsert_def split: option.splits)
  obtain e where e: "e \<in> set (ss_tables (cat_schema cat))" "t = loaded_table e (G (in_table_name ins))" by (rule GetTable_entry [OF holds t])
  note bound = BindInsert_rows [OF database_tables_ok [OF stored_database_ok [OF assms(1)]] t assms(3,2)]
  define rows where "rows = map (map (fst \<circ> stored_cell)) (bi_rows bi)"
  have "map (Some \<circ> ConstNode) (rows ! r) = bi_rows bi ! r \<and> map value_type (rows ! r) = map cd_type (ts_columns e)"
    if r: "r < length (bi_rows bi)" for r
  proof -
    obtain vals where "bi_rows bi ! r = map (Some \<circ> ConstNode) vals" "map value_type vals = map cd_type (to_columns t)"
      using bound r by blast
    with r show ?thesis by (simp add: rows_def e(2) comp_def)
  qed
  then have "bi_rows bi = map (map (Some \<circ> ConstNode)) rows" "list_all (\<lambda>row. map value_type row = map cd_type (ts_columns e)) rows"
    by (auto simp: list_all_length rows_def intro!: nth_equalityI)
  with bound e show thesis using that by simp
qed

lemma run_executor_stores:
  assumes stored: "stored_database cat G db" and bind: "BindInsert ins cat = Inr bi" "distinct (in_columns ins)"
    and rows: "list_all (list_all (storable \<circ> fst)) (new_rows bi)" and e: "GetTableById cat (bi_table_id bi) = Some t"
    and room: "insert_room (map cd_type (to_columns t)) (length (bi_rows bi)) (cat_disk cat)"
  obtains cat' G' where "run_executor bi cat = (Inr (), cat')" "extends (cat_disk cat) (cat_disk cat')" "cat_schema cat' = cat_schema cat"
    "stored_database cat' G' (add_rows (bi_table_id bi) (new_rows bi) db)"
proof -
  obtain e rs where b: "e \<in> set (ss_tables (cat_schema cat))" "bi_table_id bi = ts_table_id e"
    "bi_rows bi = map (map (Some \<circ> ConstNode)) rs" "list_all (\<lambda>row. map value_type row = map cd_type (ts_columns e)) rs"
    by (rule bound_insert [OF stored bind])
  let ?ts = "map cd_type (ts_columns e)" and ?name = "ts_table_name e"
  note stored_parts = stored [unfolded stored_database_def]
  then have holds: "catalog_holds cat G" and schema: "ss_tables (cat_schema cat) = db_schema db"
    and absent: "\<And>i. i \<notin> ts_table_id ` set (db_schema db) \<Longrightarrow> db_rows db i = []"
    and tables: "\<And>d. d \<in> set (ss_tables (cat_schema cat)) \<Longrightarrow> entry_ok d \<and>
      stored_table (cat_disk cat) (map cd_type (ts_columns d)) (G (ts_table_name d)) (db_rows db (ts_table_id d))"
    by simp_all
  have new: "new_rows bi = map literal_row rs" by (simp add: new_rows_def b(3) literal_row_def comp_def)
  have fine: "list_all (list_all storable) rs" using rows by (simp add: new literal_row_def list_all_iff comp_def)
  have ok: "list_all (row_ok ?ts) rs"
  proof -
    have "v \<noteq> VString [] \<and> value_weight v < 2 ^ 17" if "storable v" for v using that by (cases v) simp_all
    with fine b(4) show ?thesis by (auto simp: row_ok_def list_all_iff)
  qed
  have ts: "?ts \<noteq> []" using tables [OF b(1)] by (simp add: entry_ok_def)
  have t: "t = loaded_table e (G ?name)" using e GetTableById_holds [OF holds b(1)] by (simp add: b(2))
  have room': "insert_room ?ts (length rs) (cat_disk cat)" using room by (simp add: t b(3))
  obtain contents where c: "groups_stored (cat_disk cat) (G ?name) contents" "list_all (list_all2 cells_of_type ?ts) contents"
    "list_all (list_all nan_free) contents" "list_all light (table_rows (G ?name) contents)"
    "db_rows db (ts_table_id e) = map (map clean_cell) (table_rows (G ?name) contents)"
    using tables [OF b(1)] unfolding stored_table_def by blast
  obtain ie ie' cat' rgs cs where run: "MakeInsertExecutor cat (ts_table_id e) = Inr ie"
    "insert_rows (map (map ConstNode) rs) (ie, cat) = (Inr (), (ie', cat'))" and
    cat': "catalog_holds cat' (G(?name := G ?name @ rgs))" "cat_schema cat' = cat_schema cat" "extends (cat_disk cat) (cat_disk cat')" and
    grown: "groups_stored (cat_disk cat') (G ?name @ rgs) (contents @ cs)" "list_all (list_all2 cells_of_type ?ts) cs"
    "table_rows (G ?name @ rgs) (contents @ cs) = table_rows (G ?name) contents @ map literal_row rs"
    "table_rows rgs cs = map literal_row rs" "groups_stored (cat_disk cat') rgs cs"
    by (rule insert_grows [OF holds b(1) refl ts c(1) ok room'])
  note cs = storable_contents [OF grown(5,4) fine]
  have "map (map clean_cell) (map literal_row rs) = map literal_row rs" by (simp add: literal_row_def)
  then have "stored_table (cat_disk cat') ?ts (G ?name @ rgs) (db_rows db (ts_table_id e) @ new_rows bi)"
    unfolding stored_table_def using grown c cs by (intro exI [of _ "contents @ cs"]) (simp add: new)
  moreover have "ts_table_name d \<noteq> ?name \<and> ts_table_id d \<noteq> ts_table_id e" if "d \<in> set (ss_tables (cat_schema cat))" "d \<noteq> e" for d
    using schema_inv_ids(1,2) [of "cat_schema cat"] holds that b(1) by (auto simp: catalog_holds_def distinct_map dest: inj_onD)
  ultimately have "stored_database cat' (G(?name := G ?name @ rgs)) (add_rows (bi_table_id bi) (new_rows bi) db)"
    unfolding stored_database_def using cat' tables stored_table_extends [OF _ cat'(3)] absent b(1)
    by (auto simp: b(2) add_rows_def schema [symmetric])
  moreover have "run_executor bi cat = (Inr (), cat')"
    using run insert_bound_rows [of rs] by (simp add: run_executor_def b(2,3))
  ultimately show thesis using that cat'(2,3) by blast
qed

section \<open>CREATE TABLE\<close>

text \<open>
  What a new table needs: a name that is free, lengths that the file format can hold, and
  columns that the scan can read.
\<close>

definition creatable :: "Catalog \<Rightarrow> string \<Rightarrow> ColumnDef list \<Rightarrow> bool" where
  "creatable cat name columns = (GetTable cat name = None \<and> string_ok name \<and> list_all column_def_ok columns \<and>
     columns \<noteq> [] \<and> length columns < 2 ^ 32 \<and> varchar_ordinals_low (map cd_type columns) \<and>
     length (ss_tables (cat_schema cat)) + 1 < 2 ^ 32 \<and> metadata_fits (with_table name columns cat))"

lemma WriteMetadataBlob_os: "WriteMetadataBlob blob dm = (r, dm') \<Longrightarrow> dm_os dm' = dm_os dm"
  by (auto simp: WriteMetadataBlob_def PersistHeader_def sbind_def Let_def split: prod.splits sum.splits if_splits)

lemma create_stores:
  assumes stored: "stored_database cat G db" and cols: "rmap bind_column_def (enumerate 0 (ct_columns create)) = Inr columns"
    and new: "creatable cat (ct_table_name create) columns"
  defines "table_id \<equiv> next_table_id (cat_schema cat)"
  obtains cat' where "BindCreateTable create cat = (Inr table_id, cat')" "extends (cat_disk cat) (cat_disk cat')"
    "stored_database cat' (G(ct_table_name create := [])) (add_table (ct_table_name create) columns db)"
    "Flush (with_table (ct_table_name create) columns cat) = (Inr (), cat')" "cat_schema cat' = cat_schema (with_table (ct_table_name create) columns cat)"
    "next_free (cat_disk cat') = next_free (cat_disk cat)" "catalog_holds (with_table (ct_table_name create) columns cat) (G(ct_table_name create := []))"
proof -
  let ?name = "ct_table_name create" and ?G = "G(ct_table_name create := [])"
  let ?e = "\<lparr>ts_table_id = table_id, ts_table_name = ?name, ts_columns = columns\<rparr>"
  note stored_parts = stored [unfolded stored_database_def]
  then have holds: "catalog_holds cat G" and schema: "ss_tables (cat_schema cat) = db_schema db"
    and absent: "\<And>i. i \<notin> ts_table_id ` set (db_schema db) \<Longrightarrow> db_rows db i = []"
    and tables: "\<And>d. d \<in> set (ss_tables (cat_schema cat)) \<Longrightarrow> entry_ok d \<and>
      stored_table (cat_disk cat) (map cd_type (ts_columns d)) (G (ts_table_name d)) (db_rows db (ts_table_id d))"
    by simp_all
  have free: "map_of (cat_tables cat) ?name = None" using new by (simp add: creatable_def GetTable_def)
  have with_holds: "catalog_holds (with_table ?name columns cat) ?G"
    by (rule with_table_holds [OF holds free]) (use new in \<open>simp_all add: creatable_def\<close>)
  have "metadata_fits (with_table ?name columns cat)" using new by (simp add: creatable_def)
  from flush_reopen [OF with_holds this] obtain cat' where c: "Flush (with_table ?name columns cat) = (Inr (), cat')" "catalog_holds cat' ?G"
    "cat_schema cat' = cat_schema (with_table ?name columns cat)" "pages_kept (cat_disk (with_table ?name columns cat)) (cat_disk cat')"
    "next_free_page_id (dm_header (cat_disk cat')) = next_free_page_id (dm_header (cat_disk (with_table ?name columns cat)))" by metis
  have disk: "cat_disk (with_table ?name columns cat) = cat_disk cat"
    and es: "ss_tables (cat_schema cat') = ss_tables (cat_schema cat) @ [?e]"
    by (simp_all add: c(3) with_table_def ss_AddTable_def Let_def table_id_def)
  have os: "dm_os (cat_disk cat') = dm_os (cat_disk cat)"
    using c(1) WriteMetadataBlob_os by (auto simp: Flush_def PersistMetadata_footer disk split: prod.splits)
  have ext: "extends (cat_disk cat) (cat_disk cat')"
    by (rule pages_extend) (use c(2,4,5) os disk in \<open>simp_all add: catalog_holds_def\<close>)
  have "distinct (map ts_table_id (ss_tables (cat_schema cat')))" "distinct (map ts_table_name (ss_tables (cat_schema cat')))"
    using schema_inv_ids(1,2) [of "cat_schema cat'"] c(2) by (simp_all add: catalog_holds_def)
  then have other: "ts_table_id d \<noteq> table_id \<and> ts_table_name d \<noteq> ?name" if "d \<in> set (ss_tables (cat_schema cat))" for d
    using that by (force simp: es)
  have "table_ok (loaded_table ?e [])"
    using new_table_ok [OF cols, of table_id ?name] new bind_column_defs(1) [OF cols]
    by (simp add: loaded_table_Nil creatable_def)
  then have "entry_ok ?e" using new by (simp add: entry_ok_def creatable_def)
  moreover have "table_id = word_of_nat (length (db_schema db))"
    using holds schema by (simp add: table_id_def catalog_holds_def schema_inv_def)
  moreover have "db_rows db table_id = []" using other by (intro absent) (auto simp: schema)
  ultimately have "stored_database cat' ?G (add_table ?name columns db)"
    unfolding stored_database_def using c(2) tables other stored_table_extends [OF _ ext] stored_table_empty absent
    by (auto simp: es schema add_table_def)
  moreover have "BindCreateTable create cat = (Inr table_id, cat')"
    using c(1) by (simp add: BindCreateTable_def cols CreateTable_flushes [OF free] table_id_def sbind_def)
  ultimately show thesis using that ext c(1,3,5) disk with_holds by simp
qed

section \<open>The meaning of a statement\<close>

definition parsed_as :: "system \<Rightarrow> string \<Rightarrow> ParsedStatement \<Rightarrow> bool" where
  "parsed_as sys sql statement = (is_sql sql \<and> ParseSingleStatement (sys_parse sys) (sys_stod sys) sql = Inr statement)"

definition inserted_text :: "system \<Rightarrow> nat \<Rightarrow> string" where
  "inserted_text sys n = show_nat n @ '' row(s) inserted ('' @ FormatElapsedSeconds (sys_seconds sys) @ ''s)'' @ newline"

definition created_text :: "uint32 \<Rightarrow> string" where
  "created_text table_id = ''Table created (id='' @ show_nat (unat table_id) @ '').'' @ newline"

definition error_text :: "string \<Rightarrow> string" where
  "error_text m = ''Error: '' @ m @ newline"

text \<open>
  \<open>statement_means sys cat db sql out db'\<close>: over a database \<open>db\<close> with the tables of \<open>cat\<close>, the
  statement prints \<open>out\<close> and leaves \<open>db'\<close>. What the binder lets through although the executor
  cannot run it has no meaning here. A statement that the binder rejects prints the error,
  and the database stays: that a failing binder leaves the catalog alone is to be shown.
\<close>

inductive statement_means :: "system \<Rightarrow> Catalog \<Rightarrow> database \<Rightarrow> string \<Rightarrow> string \<Rightarrow> database \<Rightarrow> bool"
  for sys cat db sql where
  selects: "parsed_as sys sql (SelectStatement select) \<Longrightarrow> statement_fine select \<Longrightarrow> BindSelect select cat = Inr plan \<Longrightarrow>
    plan_runnable plan \<Longrightarrow> narrow plan \<Longrightarrow> plan_fits (db_rows db) plan \<Longrightarrow> OutputSchema plan = Inr schema \<Longrightarrow>
    statement_means sys cat db sql (rows_text sys schema (plan_rows (db_rows db) plan)) db"
| inserts: "parsed_as sys sql (InsertStatement ins) \<Longrightarrow> distinct (in_columns ins) \<Longrightarrow> BindInsert ins cat = Inr bi \<Longrightarrow>
    list_all (list_all (storable \<circ> fst)) (new_rows bi) \<Longrightarrow> GetTableById cat (bi_table_id bi) = Some t \<Longrightarrow>
    insert_room (map cd_type (to_columns t)) (length (bi_rows bi)) (cat_disk cat) \<Longrightarrow>
    statement_means sys cat db sql (inserted_text sys (length (bi_rows bi))) (add_rows (bi_table_id bi) (new_rows bi) db)"
| creates: "parsed_as sys sql (CreateTableStatement create) \<Longrightarrow>
    rmap bind_column_def (enumerate 0 (ct_columns create)) = Inr columns \<Longrightarrow> creatable cat (ct_table_name create) columns \<Longrightarrow>
    statement_means sys cat db sql (created_text (word_of_nat (length (db_schema db)))) (add_table (ct_table_name create) columns db)"
| unreadable: "is_sql sql \<Longrightarrow> ParseSingleStatement (sys_parse sys) (sys_stod sys) sql = Inl e \<Longrightarrow> what e = Some m \<Longrightarrow>
    statement_means sys cat db sql (error_text m) db"
| rejected: "parsed_as sys sql statement \<Longrightarrow> fst (Bind statement cat) = Inl e \<Longrightarrow> what e = Some m \<Longrightarrow>
    statement_means sys cat db sql (error_text m) db"

text \<open>On a reliable disk the metadata is always written, so a \<open>CREATE TABLE\<close> that fails has changed nothing.\<close>

lemma WriteMetadataBlob_succeeds: "reliable (dm_os dm) \<Longrightarrow> \<exists>dm'. WriteMetadataBlob blob dm = (Inr (), dm')"
proof -
  assume os: "reliable (dm_os dm)"
  then have "FileSize dm = Inr (length (dm_file dm))" by (auto simp: FileSize_def reliable_def split: option.split)
  with os show ?thesis by (simp add: WriteMetadataBlob_def PersistHeader_def sbind_def pwrite_reliable Let_def)
qed

lemma rejected_unchanged:
  assumes "reliable (dm_os (cat_disk cat))" "fst (Bind statement cat) = Inl e"
  shows "snd (Bind statement cat) = cat"
proof (cases statement)
  case (CreateTableStatement create)
  show ?thesis
  proof (cases "\<exists>columns. rmap bind_column_def (enumerate 0 (ct_columns create)) = Inr columns \<and> GetTable cat (ct_table_name create) = None")
    case True
    then obtain columns where c: "rmap bind_column_def (enumerate 0 (ct_columns create)) = Inr columns"
      "map_of (cat_tables cat) (ct_table_name create) = None" by (auto simp: GetTable_def)
    let ?cat = "with_table (ct_table_name create) columns cat"
    have "cat_disk ?cat = cat_disk cat" by (simp add: with_table_def)
    then obtain dm where "WriteMetadataBlob (CombineSchemaAndFooter (cat_schema ?cat) (metadata_footer ?cat)) (cat_disk ?cat) = (Inr (), dm)"
      using WriteMetadataBlob_succeeds [of "cat_disk ?cat"] assms(1) by auto
    then have "Flush ?cat = (Inr (), ?cat\<lparr>cat_disk := dm\<rparr>)" by (simp add: Flush_def PersistMetadata_footer)
    with c assms(2) show ?thesis
      by (simp add: CreateTableStatement Bind_def BindCreateTable_def CreateTable_flushes [OF c(2)] sbind_def)
  next
    case False
    then show ?thesis
      by (auto simp: CreateTableStatement Bind_def BindCreateTable_def CreateTable_def GetTable_def sbind_def split: sum.split)
  qed
next
  case (InsertStatement ins)
  then show ?thesis by (cases "BindInsert ins cat") (simp_all add: Bind_def)
next
  case (SelectStatement select)
  then show ?thesis by (cases "BindSelect select cat") (simp_all add: Bind_def)
qed

lemma serves_grows:
  assumes "serves d db" "extends (driver_disk d) (cat_disk cat')" "stored_database cat' G' db'"
  shows "serves (d\<lparr>dr_catalog := cat', dr_out := out\<rparr>) db'"
proof -
  have "dm_inv (cat_disk cat')" using assms(2) by (simp add: extends_def)
  then have "pool_rests (allocated (cat_disk cat')) (dr_pool d)"
    using assms(1) by (intro pool_rests_grows [OF _ allocated_inv allocated_grows [OF assms(2)]]) (simp_all add: serves_def driver_ready_def)
  with \<open>dm_inv (cat_disk cat')\<close> assms(3) show ?thesis by (auto simp: serves_def driver_ready_def)
qed

lemma execute_fails:
  assumes "is_sql sql" "run_sql sys fuel sql d = (Inl e, d)" "what e = Some m"
  shows "ExecuteStatement sys fuel sql d = (Inr (), d\<lparr>dr_out := dr_out d @ error_text m\<rparr>)"
  using assms by (simp add: ExecuteStatement_sql catch_errors_def on_out_def put_def error_text_def)

lemma execute_insert:
  assumes "parsed_as sys sql (InsertStatement ins)" "BindInsert ins (dr_catalog d) = Inr bi" "run_executor bi (dr_catalog d) = (Inr (), cat')"
  shows "ExecuteStatement sys fuel sql d =
    (Inr (), d\<lparr>dr_catalog := cat', dr_out := dr_out d @ inserted_text sys (length (bi_rows bi))\<rparr>)"
  using assms
  by (simp add: parsed_as_def ExecuteStatement_sql catch_errors_def run_sql_def sbind_def on_catalog_def Bind_def run_bound_def
      RunInsert_def on_out_def put_def inserted_text_def)

lemma execute_create:
  assumes "parsed_as sys sql (CreateTableStatement create)" "BindCreateTable create (dr_catalog d) = (Inr table_id, cat')"
  shows "ExecuteStatement sys fuel sql d = (Inr (), d\<lparr>dr_catalog := cat', dr_out := dr_out d @ created_text table_id\<rparr>)"
  using assms
  by (simp add: parsed_as_def ExecuteStatement_sql catch_errors_def run_sql_def sbind_def on_catalog_def Bind_def run_bound_def
      RunCreateTable_def on_out_def put_def created_text_def)

lemma execute_select:
  assumes "serves d db" "parsed_as sys sql (SelectStatement select)" "statement_fine select" "BindSelect select (dr_catalog d) = Inr plan"
    "plan_runnable plan" "narrow plan" "plan_fits (db_rows db) plan" "OutputSchema plan = Inr schema"
  obtains N pool where "serves (d\<lparr>dr_pool := pool, dr_out := dr_out d @ rows_text sys schema (plan_rows (db_rows db) plan)\<rparr>) db"
    "\<forall>fuel \<ge> N. ExecuteStatement sys fuel sql d =
      (Inr (), d\<lparr>dr_pool := pool, dr_out := dr_out d @ rows_text sys schema (plan_rows (db_rows db) plan)\<rparr>)"
proof -
  obtain G where stored: "stored_database (dr_catalog d) G db" and ready: "driver_ready d" using assms(1) by (auto simp: serves_def)
  have p: "is_sql sql" "ParseSingleStatement (sys_parse sys) (sys_stod sys) sql = Inr (SelectStatement select)"
    using assms(2) by (simp_all add: parsed_as_def)
  obtain N pool where "driver_ready (d\<lparr>dr_pool := pool\<rparr>)" "\<forall>fuel \<ge> N. ExecuteStatement sys fuel sql d =
      (Inr (), d\<lparr>dr_pool := pool, dr_out := dr_out d @ rows_text sys schema (plan_rows (db_rows db) plan)\<rparr>)"
    using select_printed [OF ready stored_database_ok [OF stored] p assms(3-7)] assms(8) by auto
  then show thesis using that [of pool N] stored by (auto simp: serves_def driver_ready_def)
qed

lemma statement_implemented:
  assumes "serves d db" "statement_means sys (dr_catalog d) db sql out db'"
  shows "\<exists>N d'. (\<forall>fuel \<ge> N. ExecuteStatement sys fuel sql d = (Inr (), d')) \<and> dr_out d' = dr_out d @ out \<and> serves d' db'"
proof -
  obtain G where stored: "stored_database (dr_catalog d) G db" using assms(1) by (auto simp: serves_def)
  have ready: "driver_ready d" using assms(1) by (simp add: serves_def)
  show ?thesis
    using assms(2)
  proof cases
    case (selects select plan schema)
    obtain N pool where "serves (d\<lparr>dr_pool := pool, dr_out := dr_out d @ out\<rparr>) db'"
      "\<forall>fuel \<ge> N. ExecuteStatement sys fuel sql d = (Inr (), d\<lparr>dr_pool := pool, dr_out := dr_out d @ out\<rparr>)"
      unfolding selects(1,2) by (rule execute_select [OF assms(1) selects(3-9)])
    then show ?thesis by (intro exI [of _ N] exI [of _ "d\<lparr>dr_pool := pool, dr_out := dr_out d @ out\<rparr>"]) simp
  next
    case (inserts ins bi t)
    obtain cat' G' where run: "run_executor bi (dr_catalog d) = (Inr (), cat')" "extends (driver_disk d) (cat_disk cat')"
      "stored_database cat' G' db'"
      using run_executor_stores [OF stored inserts(5,4,6-8)] inserts(2) by blast
    from execute_insert [OF inserts(3,5) run(1)] serves_grows [OF assms(1) run(2,3)] show ?thesis
      by (intro exI [of _ 0] exI [of _ "d\<lparr>dr_catalog := cat', dr_out := dr_out d @ out\<rparr>"]) (simp add: inserts(1))
  next
    case (creates create columns)
    have "next_table_id (cat_schema (dr_catalog d)) = word_of_nat (length (db_schema db))"
      using stored by (simp add: stored_database_def catalog_holds_def schema_inv_def)
    then obtain cat' where run: "BindCreateTable create (dr_catalog d) = (Inr (word_of_nat (length (db_schema db))), cat')"
      "extends (driver_disk d) (cat_disk cat')" "stored_database cat' (G(ct_table_name create := [])) db'"
      using create_stores [OF stored creates(4,5)] creates(2) by metis
    from execute_create [OF creates(3) run(1)] serves_grows [OF assms(1) run(2,3)] show ?thesis
      by (intro exI [of _ 0] exI [of _ "d\<lparr>dr_catalog := cat', dr_out := dr_out d @ out\<rparr>"]) (simp add: creates(1))
  next
    case (unreadable e m)
    then have "ExecuteStatement sys fuel sql d = (Inr (), d\<lparr>dr_out := dr_out d @ out\<rparr>)" for fuel
      using execute_fails [OF unreadable(3), of sys fuel d e m] by (simp add: run_sql_def sbind_def)
    with assms(1) unreadable(2) show ?thesis
      by (intro exI [of _ 0] exI [of _ "d\<lparr>dr_out := dr_out d @ out\<rparr>"]) (simp add: serves_def)
  next
    case (rejected statement e m)
    have "reliable (dm_os (driver_disk d))" using stored by (simp add: stored_database_def catalog_holds_def dm_inv_def)
    from rejected_unchanged [OF this rejected(4)] rejected(4) have "Bind statement (dr_catalog d) = (Inl e, dr_catalog d)"
      by (metis prod.collapse)
    with rejected have "ExecuteStatement sys fuel sql d = (Inr (), d\<lparr>dr_out := dr_out d @ out\<rparr>)" for fuel
      using execute_fails [of sql sys fuel d e m] by (simp add: parsed_as_def run_sql_def sbind_def on_catalog_def)
    with assms(1) rejected(2) show ?thesis
      by (intro exI [of _ 0] exI [of _ "d\<lparr>dr_out := dr_out d @ out\<rparr>"]) (simp add: serves_def)
  qed
qed

section \<open>Sequences of statements\<close>

text \<open>
  What a sequence of statements means from a state of the driver on: every statement has a
  meaning in the state that the ones before it have led to.
\<close>

inductive statements_mean :: "system \<Rightarrow> Driver \<Rightarrow> database \<Rightarrow> string list \<Rightarrow> string \<Rightarrow> Driver \<Rightarrow> database \<Rightarrow> bool"
  for sys where
  no_statement: "statements_mean sys d db [] [] d db"
| next_statement: "statement_means sys (dr_catalog d) db sql out db1 \<Longrightarrow>
    \<forall>fuel \<ge> N. ExecuteStatement sys fuel sql d = (Inr (), d1) \<Longrightarrow> statements_mean sys d1 db1 sqls outs d2 db2 \<Longrightarrow>
    statements_mean sys d db (sql # sqls) (out @ outs) d2 db2"

lemma statement_reaches:
  assumes "serves d db" "statement_means sys (dr_catalog d) db sql out db'" "\<forall>fuel \<ge> N. ExecuteStatement sys fuel sql d = (Inr (), d')"
  shows "dr_out d' = dr_out d @ out \<and> serves d' db'"
proof -
  from statement_implemented [OF assms(1,2)] obtain M d1 where
    run: "\<forall>fuel \<ge> M. ExecuteStatement sys fuel sql d = (Inr (), d1)" "dr_out d1 = dr_out d @ out" "serves d1 db'" by blast
  have "d1 = d'" using run(1) assms(3) by (metis max.cobounded1 max.cobounded2 snd_conv)
  with run show ?thesis by simp
qed

lemma statements_implemented:
  "statements_mean sys d db sqls out d' db' \<Longrightarrow> serves d db \<Longrightarrow>
   (\<exists>N. \<forall>fuel \<ge> N. seach (ExecuteStatement sys fuel) sqls d = (Inr (), d')) \<and> dr_out d' = dr_out d @ out \<and> serves d' db'"
proof (induction rule: statements_mean.induct)
  case (next_statement d db sql out db1 N d1 sqls outs d2 db2)
  have run: "dr_out d1 = dr_out d @ out" "serves d1 db1" using statement_reaches [OF next_statement.prems next_statement.hyps(1,2)] by simp_all
  then obtain M where
    rest: "\<forall>fuel \<ge> M. seach (ExecuteStatement sys fuel) sqls d1 = (Inr (), d2)" "dr_out d2 = dr_out d1 @ outs" "serves d2 db2"
    using next_statement.IH by blast
  then have "\<forall>fuel \<ge> max N M. seach (ExecuteStatement sys fuel) (sql # sqls) d = (Inr (), d2)"
    using next_statement.hyps(2) by (simp add: sbind_def)
  then have "\<exists>N. \<forall>fuel \<ge> N. seach (ExecuteStatement sys fuel) (sql # sqls) d = (Inr (), d2)" ..
  with rest run(1) show ?case by simp
qed simp

end
