(* ===== verification/FileGrowth.thy ===== *)
theory FileGrowth
  imports Driver
begin

text \<open>
  How long the database file gets. Page identifiers have 32 bits, so no insert writes behind a
  fixed offset, whatever it stores and also when it fails; and the metadata of a database with
  few rows is short. With both, the lengths that closing the database needs to fit do fit.
\<close>

section \<open>Writing pages\<close>

definition short_file :: "nat \<Rightarrow> DiskManager \<Rightarrow> bool" where
  "short_file B dm = (length (dm_file dm) \<le> B)"

lemma pwrite_length: "length (snd (pwrite os f offset data)) \<le> max (length f) (offset + length data)"
proof (cases "os (SysPwrite offset (length data))")
  case (Some k)
  show ?thesis by (cases "take k data = []") (auto simp: pwrite_def Some write_at_def)
qed (simp add: pwrite_def)

definition kFileLimit :: nat where "kFileLimit = 2 ^ 45"

lemma keeps_PersistHeader: "kFileLimit \<le> B \<Longrightarrow> keeps (short_file B) PersistHeader"
proof (rule keepsI)
  fix dm assume "kFileLimit \<le> B" "short_file B dm"
  then show "short_file B (snd (PersistHeader dm))"
    using pwrite_length [of "dm_os dm" "dm_file dm" 0 "FileHeader_Serialize (dm_header dm)"]
    by (auto simp: PersistHeader_def short_file_def Let_def kFileLimit_def length_FileHeader_Serialize kSerializedSize_def split: prod.split)
qed

lemma keeps_AllocatePages: "kFileLimit \<le> B \<Longrightarrow> keeps (short_file B) (AllocatePages n)"
proof (rule keepsI)
  fix dm assume B: "kFileLimit \<le> B" and dm: "short_file B dm"
  let ?dm = "dm\<lparr>dm_header := (dm_header dm)\<lparr>next_free_page_id := next_free_page_id (dm_header dm) + n\<rparr>\<rparr>"
  have "keeps (short_file B) (sbind PersistHeader (\<lambda>_. sreturn x))" for x :: uint32
    by (intro keeps_intros keeps_PersistHeader [OF B])
  from keeps_snd [OF this, of ?dm] dm show "short_file B (snd (AllocatePages n dm))"
    by (simp add: AllocatePages_def short_file_def Let_def)
qed

lemma keeps_WritePages:
  assumes "kFileLimit \<le> B" "length data \<le> 2 ^ 44"
  shows "keeps (short_file B) (WritePages p data)"
proof (rule keepsI)
  fix dm assume "short_file B dm"
  moreover have "unat p * kPageSizeBytes \<le> 2 ^ 44" using unsigned_less [of p, where 'a = nat] by (simp add: kPageSizeBytes_def)
  ultimately show "short_file B (snd (WritePages p data dm))"
    using assms pwrite_length [of "dm_os dm" "dm_file dm" "unat p * kPageSizeBytes" data]
    by (auto simp: WritePages_def short_file_def kFileLimit_def split: prod.split)
qed

lemma keeps_pad_and_write: "kFileLimit \<le> B \<Longrightarrow> keeps (short_file B) (pad_and_write bytes)"
proof -
  assume B: "kFileLimit \<le> B"
  have "unat (n :: uint32) * kPageSizeBytes \<le> 2 ^ 44" for n using unsigned_less [of n, where 'a = nat] by (simp add: kPageSizeBytes_def)
  moreover have "length (take n bytes @ replicate (n - length bytes) 0) = n" for n by (simp add: min_def)
  ultimately show ?thesis
    unfolding pad_and_write_def Let_def
    by (intro keeps_intros keeps_AllocatePages [OF B] keeps_WritePages [OF B]) (simp only:)
qed

section \<open>Inserts\<close>

lemma keeps_flush_column: "kFileLimit \<le> B \<Longrightarrow> keeps (short_file B) (flush_column n column)"
  unfolding flush_column_def case_prod_beta
  by (cases column) (auto intro!: keeps_intros keeps_pad_and_write)

abbreviation short_catalog :: "nat \<Rightarrow> Catalog \<Rightarrow> bool" where
  "short_catalog B cat \<equiv> short_file B (cat_disk cat)"

lemma keeps_on_catalog_disk: "keeps (short_file B) act \<Longrightarrow> keeps (short_catalog B \<circ> snd) (on_catalog_disk act)"
  by (rule keepsI) (auto simp: on_catalog_disk_def split: prod.splits dest: keepsD)

lemma AddRowGroup_disk: "cat_disk (snd (cat_AddRowGroup name rg cat)) = cat_disk cat"
  by (simp add: cat_AddRowGroup_def split: option.split sum.split)

lemma keeps_FlushRowGroup: "kFileLimit \<le> B \<Longrightarrow> keeps (short_catalog B \<circ> snd) FlushRowGroup"
proof (rule keepsI)
  fix s :: insert_state
  assume B: "kFileLimit \<le> B" and s: "(short_catalog B \<circ> snd) s"
  obtain ie cat where [simp]: "s = (ie, cat)" by fastforce
  have add: "keeps (short_catalog B \<circ> snd) (\<lambda>(ie :: InsertExecutor, cat). case cat_AddRowGroup name rg cat of
      (Inl e, cat) \<Rightarrow> (Inl e, (ie, cat)) | (Inr _, cat) \<Rightarrow> (Inr (), (ie\<lparr>ie_staging := st\<rparr>, cat)))" for name rg st
  proof (rule keepsI)
    fix s :: insert_state
    assume "(short_catalog B \<circ> snd) s"
    with AddRowGroup_disk [of name rg "snd s"] show "(short_catalog B \<circ> snd) (snd ((\<lambda>(ie :: InsertExecutor, cat). case cat_AddRowGroup name rg cat of
      (Inl e, cat) \<Rightarrow> (Inl e, (ie, cat)) | (Inr _, cat) \<Rightarrow> (Inr (), (ie\<lparr>ie_staging := st\<rparr>, cat))) s))"
      by (auto split: prod.split sum.split)
  qed
  have "keeps (short_catalog B \<circ> snd) (sbind (on_catalog_disk (smap (flush_column n) cols)) (\<lambda>entries.
      sbind (sresult (BuildValidityBitmapBytes cols n)) (\<lambda>bytes. sbind (on_catalog_disk (pad_and_write bytes)) (\<lambda>rng.
        (\<lambda>(ie, cat). case cat_AddRowGroup name (rg entries rng) cat of
           (Inl e, cat) \<Rightarrow> (Inl e, (ie, cat)) | (Inr _, cat) \<Rightarrow> (Inr (), (ie\<lparr>ie_staging := st\<rparr>, cat)))))))" for n cols name rg st
    by (intro keeps_intros keeps_on_catalog_disk keeps_flush_column [OF B] keeps_pad_and_write [OF B] add)
  from keeps_snd [OF this, of s] s show "(short_catalog B \<circ> snd) (snd (FlushRowGroup s))"
    unfolding FlushRowGroup_def Let_def by simp
qed

lemma keeps_InsertRow: "kFileLimit \<le> B \<Longrightarrow> keeps (short_catalog B \<circ> snd) (InsertRow row)"
proof (rule keepsI)
  fix s :: insert_state
  assume B: "kFileLimit \<le> B" and "(short_catalog B \<circ> snd) s"
  moreover have "(short_catalog B \<circ> snd) (snd (FlushRowGroup (ie, snd s)))" for ie
    by (rule keeps_snd [OF keeps_FlushRowGroup [OF B]]) (use \<open>(short_catalog B \<circ> snd) s\<close> in simp)
  ultimately show "(short_catalog B \<circ> snd) (snd (InsertRow row s))"
    by (auto simp: InsertRow_def split: prod.split sum.split)
qed

lemma keeps_run_executor: "kFileLimit \<le> B \<Longrightarrow> keeps (short_catalog B) (run_executor ins)"
proof (rule keepsI)
  fix cat assume B: "kFileLimit \<le> B" and cat: "short_catalog B cat"
  have "keeps (short_catalog B \<circ> snd) (insert_bound_row row)" for row
    unfolding insert_bound_row_def by (intro keeps_intros keeps_InsertRow [OF B])
  then have "keeps (short_catalog B \<circ> snd) (seach insert_bound_row rows)" for rows
    by (induction rows) (auto intro!: keeps_intros)
  then have all: "keeps (short_catalog B \<circ> snd) (sbind (seach insert_bound_row rows) (\<lambda>_. InsertFinish))" for rows
    unfolding InsertFinish_def by (intro keeps_intros keeps_FlushRowGroup [OF B])
  show "short_catalog B (snd (run_executor ins cat))"
  proof (cases "MakeInsertExecutor cat (bi_table_id ins)")
    case (Inr ie)
    obtain res ie' cat' where run: "sbind (seach insert_bound_row (bi_rows ins)) (\<lambda>_. InsertFinish) (ie, cat) = (res, (ie', cat'))"
      by (metis surj_pair)
    from keepsD [OF all _ run] cat run Inr show ?thesis by (simp add: run_executor_def)
  qed (use cat in \<open>simp add: run_executor_def\<close>)
qed

section \<open>The length of the metadata\<close>

lemma length_WriteFixedPrefix: "length (WriteFixedPrefix buf data) = length buf + 1 + kZoneMapPrefixLength"
proof -
  have "length (fold (\<lambda>i b. b @ [f i]) xs b) = length b + length xs" for f :: "nat \<Rightarrow> byte" and xs b
    by (induction xs arbitrary: b) simp_all
  then show ?thesis by (simp add: WriteFixedPrefix_def)
qed

lemma length_WriteColumn: "length (WriteColumn buf c) \<le> length buf + 64"
  by (cases c) (auto simp: WriteFixedWidthEntry_def WriteVarcharEntry_def WritePageRange_def WriteFloat_def
      length_WriteFixedPrefix kZoneMapPrefixLength_def Let_def)

lemma length_WriteRowGroup: "row_group_wf rg \<Longrightarrow> length (WriteRowGroup buf rg) \<le> length buf + 2 ^ 39"
proof -
  assume "row_group_wf rg"
  then have "length (rg_columns rg) < 2 ^ 32" by (simp add: row_group_wf_def)
  moreover have "length (fold (\<lambda>c b. WriteColumn b c) cs b) \<le> length b + 64 * length cs" for cs b
  proof (induction cs arbitrary: b)
    case (Cons c cs)
    from Cons [of "WriteColumn b c"] length_WriteColumn [of b c] show ?case by simp
  qed simp
  from this [of "rg_columns rg" "WriteU32 (WritePageRange (WriteU32 (WriteU32 buf (rg_table_id rg)) (rg_row_count rg))
      (rg_validity_bitmap_region rg)) (word_of_nat (length (rg_columns rg)))"]
  have "length (WriteRowGroup buf rg) \<le> length buf + 20 + 64 * length (rg_columns rg)"
    by (simp add: WriteRowGroup_def WritePageRange_def Let_def)
  ultimately show ?thesis by simp
qed

lemma length_Footer_Serialize:
  assumes "list_all row_group_wf (ft_row_groups f)"
  shows "length (Footer_Serialize f) \<le> 4 + length (ft_row_groups f) * 2 ^ 39"
proof -
  have "length (fold (\<lambda>rg b. WriteRowGroup b rg) rgs b) \<le> length b + length rgs * 2 ^ 39" if "list_all row_group_wf rgs" for rgs b
    using that
  proof (induction rgs arbitrary: b)
    case (Cons rg rgs)
    then have "length (fold (\<lambda>rg b. WriteRowGroup b rg) (rg # rgs) b) \<le> length (WriteRowGroup b rg) + length rgs * 2 ^ 39" by simp
    also have "\<dots> \<le> length b + 2 ^ 39 + length rgs * 2 ^ 39"
      using length_WriteRowGroup [of rg b] Cons.prems by (intro add_mono) simp_all
    finally show ?case by simp
  qed simp
  from this [OF assms, of "WriteU32 [] (word_of_nat (length (ft_row_groups f)))"] show ?thesis by (simp add: Footer_Serialize_def)
qed

end
