(* ===== verification/ProgramCorrect.thy ===== *)
theory ProgramCorrect
  imports MainCorrect Session FileGrowth
begin

text \<open>
  The program from start to end: it opens a database file, runs the statements of its input,
  and closes the file, which then holds what the statements mean.
\<close>

section \<open>Closing and opening a database\<close>

text \<open>Every length still fits after the metadata has been written, and once more.\<close>

definition closable :: "Catalog \<Rightarrow> bool" where
  "closable cat = (metadata_fits cat \<and> metadata_fits (snd (Flush cat)))"

lemma flush_stores:
  assumes "stored_database cat G db" "metadata_fits cat"
  obtains cat' where "Flush cat = (Inr (), cat')" "stored_database cat' G db" "cat_schema cat' = cat_schema cat" "cat_tables cat' = cat_tables cat"
    "length (dm_file (cat_disk cat')) = max (length (dm_file (cat_disk cat))) (next_free (cat_disk cat) * kPageSizeBytes) +
       length (CombineSchemaAndFooter (cat_schema cat) (metadata_footer cat))"
    "next_free (cat_disk cat') = next_free (cat_disk cat)" "extends (cat_disk cat) (cat_disk cat')"
    "\<And>order os. enumerates order \<Longrightarrow> reliable os \<Longrightarrow>
       Catalog_Open order os (Some (dm_file (cat_disk cat'))) = Inr (cat'\<lparr>cat_disk := (cat_disk cat')\<lparr>dm_os := os\<rparr>, cat_order := order\<rparr>)"
proof -
  let ?dm = "cat_disk cat" and ?blob = "CombineSchemaAndFooter (cat_schema cat) (metadata_footer cat)"
  let ?off = "max (length (dm_file ?dm)) (next_free ?dm * kPageSizeBytes)"
  have holds: "catalog_holds cat G" using assms(1) by (simp add: stored_database_def)
  then have inv: "dm_inv ?dm" by (simp add: catalog_holds_def)
  have "length (WriteU32 [] x) \<noteq> 0" for x by simp
  then have ne: "?blob \<noteq> []" by (metis CombineSchemaAndFooter_def append_is_Nil_conv list.size(3))
  have small: "?off < 2 ^ 64" using assms(2) by (simp add: metadata_fits_def)
  obtain dm' where dm': "WriteMetadataBlob ?blob ?dm = (Inr (), dm')" "dm_inv dm'" "pages_kept ?dm dm'"
    "dm_header dm' = (dm_header ?dm)\<lparr>meta_offset := word_of_nat ?off\<rparr>" "dm_os dm' = dm_os ?dm"
    "length (dm_file dm') = ?off + length ?blob" "drop ?off (dm_file dm') = ?blob"
    by (rule WriteMetadataBlob_spec [OF inv ne small])
  let ?cat' = "cat\<lparr>cat_disk := dm'\<rparr>"
  have ext: "extends ?dm dm'" by (rule pages_extend [OF dm'(2,3,5)]) (simp add: dm'(4))
  have "stored_database ?cat' G db"
    using assms(1) holds dm'(2) stored_table_extends [OF _ ext] by (auto simp: stored_database_def catalog_holds_def)
  moreover have "Flush cat = (Inr (), ?cat')" by (simp add: Flush_def PersistMetadata_footer dm'(1))
  moreover have "Catalog_Open order os (Some (dm_file dm')) = Inr (?cat'\<lparr>cat_disk := dm'\<lparr>dm_os := os\<rparr>, cat_order := order\<rparr>)"
    if "enumerates order" "reliable os" for order os
  proof -
    let ?dm2 = "dm'\<lparr>dm_os := os\<rparr>"
    have inv2: "dm_inv ?dm2" using dm'(2) that(2) by (simp add: dm_inv_def)
    have "ReadMetadataBlob ?dm2 = Inr (drop ?off (dm_file ?dm2))"
      using dm'(4,6) small by (intro ReadMetadataBlob_spec [OF inv2]) simp_all
    then have "ReadMetadataBlob ?dm2 = Inr ?blob" using dm'(7) by simp
    from ReconstructFromDisk_flushed [OF holds assms(2) this, of order] DiskManager_Open_spec [OF inv2]
    show ?thesis by (simp add: Catalog_Open_def)
  qed
  ultimately show thesis using that [of ?cat'] dm'(4,6) ext by simp
qed

text \<open>A database of fewer than \<open>2 ^ 20\<close> rows can be closed, whatever its file was used for before.\<close>

definition row_total :: "database \<Rightarrow> nat" where
  "row_total db = (\<Sum>e \<leftarrow> db_schema db. length (db_rows db (ts_table_id e)))"

lemma stored_groups_few: "stored_table dm ts rgs rows \<Longrightarrow> length rgs \<le> length rows"
proof -
  assume "stored_table dm ts rgs rows"
  then obtain contents where c: "groups_stored dm rgs contents" "rows = map (map clean_cell) (table_rows rgs contents)"
    by (auto simp: stored_table_def)
  from c(1) have "list_all2 (\<lambda>rg cellss. 0 < unat (rg_row_count rg)) rgs contents"
    by (auto simp: groups_stored_def group_holds_def elim: list_all2_mono)
  then have "length rgs \<le> length (table_rows rgs contents)"
    by (induction rule: list_all2_induct) (simp_all add: table_rows_def cells_rows_def)
  then show ?thesis by (simp add: c(2))
qed

lemma stored_group_count:
  assumes "stored_database cat G db"
  shows "length (ft_row_groups (metadata_footer cat)) \<le> row_total db"
proof -
  let ?names = "map ts_table_name (db_schema db)"
  have holds: "catalog_holds cat G" and schema: "ss_tables (cat_schema cat) = db_schema db" using assms by (simp_all add: stored_database_def)
  then have "mset (cat_order cat ?names) = mset ?names" by (simp add: catalog_holds_def enumerates_def)
  then have "sum_list (map (length \<circ> G) (cat_order cat ?names)) = sum_list (map (length \<circ> G) ?names)"
    by (metis mset_map sum_mset_sum_list)
  then have "length (ft_row_groups (metadata_footer cat)) = (\<Sum>e \<leftarrow> db_schema db. length (G (ts_table_name e)))"
    using catalog_rows_groups [OF holds] by (simp add: metadata_footer_def schema length_concat comp_def)
  also have "\<dots> \<le> row_total db"
    unfolding row_total_def using assms by (intro sum_list_mono) (auto simp: stored_database_def intro: stored_groups_few)
  finally show ?thesis .
qed

lemma small_database_closable:
  assumes stored: "stored_database cat G db" and file_len: "length (dm_file (cat_disk cat)) \<le> 2 ^ 62"
    and schema: "length (SchemaSection_Serialize (cat_schema cat)) < 2 ^ 32" and rows: "row_total db < 2 ^ 20"
  shows "closable cat"
proof -
  have next_page: "next_free dm * kPageSizeBytes < 2 ^ 44" for dm
    using unsigned_less [of "next_free_page_id (dm_header dm)", where 'a = nat] by (simp add: kPageSizeBytes_def)
  have count: "length (ft_row_groups (metadata_footer cat)) < 2 ^ 20" using stored_group_count [OF stored] rows by simp
  have fits: "metadata_fits cat"
    unfolding metadata_fits_def using schema count file_len next_page [of "cat_disk cat"] by simp
  have holds: "catalog_holds cat G" using stored by (simp add: stored_database_def)
  have "list_all row_group_wf (ft_row_groups (metadata_footer cat))" using metadata_footer_wf [OF holds fits] by (simp add: footer_wf_def)
  from length_Footer_Serialize [OF this] count
  have blob: "length (CombineSchemaAndFooter (cat_schema cat) (metadata_footer cat)) < 2 ^ 60"
    using schema by (simp add: CombineSchemaAndFooter_def Let_def)
  show ?thesis
  proof (rule flush_stores [OF stored fits])
    fix cat' assume c: "Flush cat = (Inr (), cat')" "stored_database cat' G db" "cat_schema cat' = cat_schema cat"
      "length (dm_file (cat_disk cat')) = max (length (dm_file (cat_disk cat))) (next_free (cat_disk cat) * kPageSizeBytes) +
         length (CombineSchemaAndFooter (cat_schema cat) (metadata_footer cat))"
    have "length (ft_row_groups (metadata_footer cat')) < 2 ^ 20" using stored_group_count [OF c(2)] rows by simp
    moreover have "length (dm_file (cat_disk cat')) < 2 ^ 64"
      unfolding c(4) using file_len next_page [of "cat_disk cat"] blob by simp
    ultimately have "metadata_fits cat'"
      unfolding metadata_fits_def c(3) using schema next_page [of "cat_disk cat'"] by simp
    with fits c(1) show ?thesis by (simp add: closable_def)
  qed
qed

lemma stored_database_opened:
  assumes "stored_database cat G db" "enumerates order" "reliable os"
  shows "stored_database (cat\<lparr>cat_disk := (cat_disk cat)\<lparr>dm_os := os\<rparr>, cat_order := order\<rparr>) G db"
proof -
  have page: "dm_page (dm\<lparr>dm_os := os\<rparr>) = dm_page dm" for dm by (simp add: dm_page_def fun_eq_iff)
  show ?thesis
    using assms by (simp add: stored_database_def catalog_holds_def dm_inv_def stored_table_def groups_stored_def page)
qed

text \<open>The destructor of a pool that rests writes nothing.\<close>

lemma clean_pool_destroyed:
  assumes "driver_ready d"
  shows "BufferPoolManager_destructor (dr_pool d) dm = (Inr (), dm)"
proof -
  have clean: "list_all (\<lambda>m. \<not> is_dirty m) (bp_frames (dr_pool d))"
    using assms by (simp add: driver_ready_def pool_rests_def clean_pool_def)
  have "flush_frames (dr_pool d) is dm = (Inr (), dm)" if "set is \<subseteq> {0..<length (bp_frames (dr_pool d))}" for "is"
    using that
  proof (induction "is")
    case (Cons i "is")
    then have "\<not> is_dirty (bp_frames (dr_pool d) ! i)" using clean by (simp add: list_all_length)
    with Cons show ?case by (simp add: Let_def sbind_def)
  qed simp
  then show ?thesis by (simp add: BufferPoolManager_destructor_def)
qed

lemma closed_database_opens:
  assumes "serves d db" "closable (dr_catalog d)"
  obtains cat disk where "Flush (dr_catalog d) = (Inr (), cat)" "destroy (d\<lparr>dr_catalog := cat\<rparr>) = Inr disk"
    "\<And>order os. enumerates order \<Longrightarrow> reliable os \<Longrightarrow>
       \<exists>cat G. Catalog_Open order os (Some (dm_file disk)) = Inr cat \<and> stored_database cat G db"
proof -
  obtain G where stored: "stored_database (dr_catalog d) G db" using assms(1) by (auto simp: serves_def)
  have "metadata_fits (dr_catalog d)" using assms(2) by (simp add: closable_def)
  from flush_stores [OF stored this] obtain cat where cat: "Flush (dr_catalog d) = (Inr (), cat)" "stored_database cat G db"
    "extends (driver_disk d) (cat_disk cat)" by metis
  have "metadata_fits cat" using assms(2) cat(1) by (simp add: closable_def)
  from flush_stores [OF cat(2) this] obtain cat2 where cat2: "Flush cat = (Inr (), cat2)" "stored_database cat2 G db"
    "\<And>order os. enumerates order \<Longrightarrow> reliable os \<Longrightarrow>
       Catalog_Open order os (Some (dm_file (cat_disk cat2))) = Inr (cat2\<lparr>cat_disk := (cat_disk cat2)\<lparr>dm_os := os\<rparr>, cat_order := order\<rparr>)"
    by metis
  have "driver_ready (d\<lparr>dr_catalog := cat\<rparr>)"
    using serves_grows [OF assms(1) cat(3,2), of "dr_out d"] by (simp add: serves_def)
  then have "destroy (d\<lparr>dr_catalog := cat\<rparr>) = Inr (cat_disk cat2)"
    using clean_pool_destroyed [of "d\<lparr>dr_catalog := cat\<rparr>" "cat_disk cat"] cat2(1)
    by (simp add: destroy_def Catalog_destructor_def Flush_def)
  then show thesis using that [OF cat(1)] cat2(3) stored_database_opened [OF cat2(2)] by blast
qed

section \<open>A run of the program\<close>

lemma fresh_driver_serves:
  assumes "stored_database cat G db" "2 \<le> frames" "frames \<le> 2 ^ 31"
  shows "serves (MakeDriver cat (MakeBufferPoolManager frames) out) db"
proof -
  have "dm_inv (cat_disk cat)" using assms(1) by (simp add: stored_database_def catalog_holds_def)
  then show ?thesis using assms by (auto simp: serves_def driver_ready_def MakeDriver_def pool_rests_fresh allocated_inv)
qed

lemma program_run:
  assumes start: "open_catalog order os (files path) = Inr cat" "stored_database cat G db"
    and script: "\<not> con_interactive con" "list_all plain_line lines"
    and means: "statements_mean sys (se_driver (start_session cat [])) db (statements_of (script_text [] lines)) out d db'"
    and close: "closable (dr_catalog d)"
  shows "\<exists>N disk. (\<forall>fuel \<ge> N. main_program sys con fuel order os files [program, path] (script_input lines) =
      Inr \<lparr>ex_status = 0, ex_out = out, ex_err = [], ex_disk = Some disk\<rparr>) \<and>
    (\<forall>order os. enumerates order \<longrightarrow> reliable os \<longrightarrow>
      (\<exists>cat G. Catalog_Open order os (Some (dm_file disk)) = Inr cat \<and> stored_database cat G db'))"
proof -
  have "serves (se_driver (start_session cat [])) db"
    using fresh_driver_serves [OF start(2), of kDefaultBufferPoolFrames] by (simp add: start_session_def kDefaultBufferPoolFrames_def)
  from statements_implemented [OF means this] obtain N where
    run: "\<forall>fuel \<ge> N. seach (ExecuteStatement sys fuel) (statements_of (script_text [] lines)) (se_driver (start_session cat [])) = (Inr (), d)"
    and d: "dr_out d = out" "serves d db'" by (auto simp: start_session_def MakeDriver_def)
  obtain cat1 disk where c: "Flush (dr_catalog d) = (Inr (), cat1)" "destroy (d\<lparr>dr_catalog := cat1\<rparr>) = Inr disk"
    "\<And>order os. enumerates order \<Longrightarrow> reliable os \<Longrightarrow>
       \<exists>cat G. Catalog_Open order os (Some (dm_file disk)) = Inr cat \<and> stored_database cat G db'"
    by (rule closed_database_opens [OF d(2) close]) blast
  have "main_program sys con fuel order os files [program, path] (script_input lines) =
      Inr \<lparr>ex_status = 0, ex_out = out, ex_err = [], ex_disk = Some disk\<rparr>" if "N \<le> fuel" for fuel
  proof -
    let ?s = "start_session cat (script_input lines)"
    have "run_all sys fuel (statements_of (script_text (se_buffer ?s) lines)) (se_driver ?s) = (Inr (), d)"
      using run that by (simp add: start_session_def)
    then obtain b es where "main_loop sys con fuel ?s = (Inr (), ?s\<lparr>se_driver := d, se_buffer := b, se_input := es\<rparr>)"
      using main_loop_script [OF script, of ?s sys fuel "Inr ()" d] by (auto simp: start_session_def)
    then have "run_session sys con fuel ?s = (Inr (), ?s\<lparr>se_driver := d\<lparr>dr_catalog := cat1\<rparr>, se_buffer := b, se_input := es\<rparr>)"
      using script(1) c(1) by (simp add: run_session_def sbind_def maybe_print_prompt_def on_driver_def on_catalog_def)
    then show ?thesis using start(1) c(2) d(1) by (simp add: main_program_def)
  qed
  with c(3) show ?thesis by blast
qed

end
