(* ===== verification/QueryProps.thy ===== *)
theory QueryProps
  imports QueryCorrect
begin

text \<open>
  The main properties of the optimizer and of the execution of its plans, each with a concrete
  instance where its hypotheses hold.
\<close>

section \<open>An example query\<close>

text \<open>\<open>SELECT a.k, b.k FROM n AS a JOIN n AS b ON a.k = b.k WHERE a.k > 6\<close>.\<close>

abbreviation k_of :: "uint32 \<Rightarrow> BoundColumnRef" where
  "k_of b \<equiv> \<lparr>cr_table_id = b, cr_ordinal = 0, cr_type = kInteger\<rparr>"

definition scan_n :: "uint32 \<Rightarrow> uint32 \<Rightarrow> LogicalPlanNode" where
  "scan_n b t = MakeLogicalScan b t [\<lparr>oc_display_name = ''k'', oc_type = etInteger\<rparr>]"

definition greater_six :: "BoundColumnRef \<Rightarrow> BoundExpression" where
  "greater_six ref = BinaryOpNode kGreaterThan (ColumnRefNode ref) (ConstNode (VInt 6)) etBoolean"

definition join_query :: "uint32 \<Rightarrow> LogicalPlanNode" where
  "join_query t = ProjectionNode
     (FilterNode (JoinNode (scan_n 0 t) (scan_n 1 t) [(k_of 0, k_of 1)]) (greater_six (k_of 0)))
     [ColumnRefNode (k_of 0), ColumnRefNode (k_of 1)]
     [\<lparr>oc_display_name = ''k'', oc_type = etInteger\<rparr>, \<lparr>oc_display_name = ''k'', oc_type = etInteger\<rparr>]"

definition one_table :: "TableObject \<Rightarrow> DiskManager \<Rightarrow> Catalog" where
  "one_table table dm = \<lparr>cat_disk = dm, cat_schema = EmptySchemaSection, cat_tables = [(to_table_name table, table)], cat_order = id\<rparr>"

lemma one_table_lookup: "GetTableById (one_table table dm) (to_table_id table) = Some table"
  by (simp add: GetTableById_def one_table_def catalog_rows_def)

abbreviation numbers :: tables where
  "numbers \<equiv> \<lambda>_. [[(VInt 5, True)], [(VInt 7, True)]]"

lemma greater_six_fine: "conjunct_fine (greater_six (k_of b))"
  by (simp add: conjunct_fine_def greater_six_def IsArithmeticOperator_def IsLogicalOperator_def numeric_def no_int_arithmetic_total)

lemma join_query_wf: "plan_wf False (join_query t)" "narrow (join_query t)"
proof -
  have "expr_total (ColumnRefNode (k_of b))" for b by (rule no_int_arithmetic_total) simp_all
  moreover have "conjunct_ok False (JoinNode (scan_n 0 t) (scan_n 1 t) [(k_of 0, k_of 1)]) (greater_six (k_of 0))"
    using greater_six_fine by (simp add: conjunct_ok_def all_avail_def greater_six_def scan_n_def MakeLogicalScan_def)
  ultimately show "plan_wf False (join_query t)" "narrow (join_query t)"
    by (simp_all add: join_query_def scan_n_def MakeLogicalScan_def kAggregateOutputBindingId_def condition_ok_def output_ok_def
        all_avail_def greater_six_def)
qed

lemma greater_six_passes:
  "ref_cell env (k_of b) = (VInt x, True) \<Longrightarrow> env_passes (greater_six (k_of b)) env = (6 < sint x)"
  by (simp add: env_passes_def cells_pass_def greater_six_def IsArithmeticOperator_def IsLogicalOperator_def compare_ints_def
      word_sless_alt)

lemma join_query_rows:
  "plan_rows numbers (join_query t) = [[(VInt 7, True), (VInt 7, True)]]" "plan_fits numbers (join_query t)"
proof -
  let ?j = "\<lambda>x. join_env [0] (scan_env 0 [(VInt x, True)]) (scan_env 1 [(VInt x, True)])"
  have "plan_envs numbers (JoinNode (scan_n 0 t) (scan_n 1 t) [(k_of 0, k_of 1)]) = [?j 5, ?j 7]"
    by (simp add: scan_n_def MakeLogicalScan_def keys_match_def sides_def ref_cell_def scan_env_def)
  moreover have "ref_cell (?j x) (k_of 0) = (VInt x, True)" "ref_cell (?j x) (k_of 1) = (VInt x, True)" for x
    by (simp_all add: ref_cell_def join_env_def scan_env_def)
  ultimately show "plan_rows numbers (join_query t) = [[(VInt 7, True), (VInt 7, True)]]"
    by (simp add: join_query_def greater_six_passes env_cell_def)
  show "plan_fits numbers (join_query t)"
    by (simp add: join_query_def scan_n_def MakeLogicalScan_def scan_env_def cell_weight_def)
qed

lemma numbers_stored:
  obtains cat dm t where "dm_inv dm" "plan_tables cat (dm_page dm) numbers (join_query t)"
proof -
  obtain dm table contents where st: "table_stored dm table [kInteger] contents"
    "table_rows (to_row_groups table) contents = [[(VInt 5, True)], [(VInt 7, True)]]"
    by (rule number_table_stored)
  have "nan_free cells" if "cells_of_type kInteger cells" for cells
    using that by (auto simp: nan_free_def valid_floats_def cells_of_type_def list_all_iff split: ConstValue.splits)
  then have "list_all (list_all nan_free) contents"
    using st(1) by (auto simp: table_stored_def list_all_iff list_all2_Cons1)
  moreover have "list_all light (table_rows (to_row_groups table) contents)"
    by (simp add: st(2) light_def cell_weight_def)
  ultimately have "scan_ok (one_table table dm) (dm_page dm) numbers
      \<lparr>ls_binding_id = b, ls_physical_table_id = to_table_id table,
       ls_output_columns = [\<lparr>oc_display_name = ''k'', oc_type = etInteger\<rparr>], ls_required_ordinals = ords\<rparr>" for b ords
    using table_stored_at [OF st(1)] one_table_lookup [of table dm] st(2) unfolding scan_ok_def
    by (intro exI [of _ table] exI [of _ "[kInteger]"] exI [of _ contents]) simp
  then have "plan_tables (one_table table dm) (dm_page dm) numbers (join_query (to_table_id table))"
    by (simp add: join_query_def scan_n_def MakeLogicalScan_def)
  moreover have "dm_inv dm" using st(1) by (simp add: table_stored_def)
  ultimately show thesis by (rule that [rotated])
qed

section \<open>The optimizer\<close>

lemma query_runs:
  assumes "plan = ProjectionNode input es oc" "plan_wf False plan" "narrow plan"
    and "dm_inv dm" "plan_tables cat (dm_page dm) db plan" "plan_fits db plan" and "2 \<le> frames" "frames \<le> 2 ^ 31"
  shows "\<exists>op N cs st. Optimize plan cat = Inr op \<and>
    (\<forall>fuel \<ge> N. produces (Operator_GetNext fuel) (op, (MakeBufferPoolManager frames, dm)) cs st) \<and>
    concat (map chunk_rows cs) = plan_rows db plan"
proof -
  obtain op where op: "Optimize plan cat = Inr op" "yields (dm_page dm) op (map (type_of \<circ> ResultType) es) (plan_rows db plan)"
    using Optimize_yields [OF assms(1-3,5,6)] by blast
  have "pool_ready (dm_page dm) (MakeBufferPoolManager frames, dm)"
    using pool_inv_empty [OF assms(4,8)] assms(7) by (simp add: pool_ready_def spare_frames_def MakeBufferPoolManager_def)
  then obtain N cs op' pool' where run: "produces (Operator_GetNext N) (op, (MakeBufferPoolManager frames, dm)) cs (op', pool')"
    "concat (map chunk_rows cs) = plan_rows db plan"
    by (rule yieldsE [OF op(2)])
  with op(1) produces_more_fuel [OF run(1)] show ?thesis
    by (intro exI [of _ op] exI [of _ N] exI [of _ cs] exI [of _ "(op', pool')"]) simp
qed

text \<open>
  C3: an optimized query returns the rows its plan denotes. For a well-formed plan over tables
  that are stored in the file, the optimizer builds an operator tree, and running it over an
  empty buffer pool of at least two frames ends, without error, having returned exactly the
  rows of the reference semantics, in order. One amount of fuel is enough, and more fuel
  does not change the run.
\<close>

theorem optimized_query_correct:
  assumes "plan = ProjectionNode input es oc" "plan_wf False plan" "narrow plan"
    and "dm_inv dm" "plan_tables cat (dm_page dm) db plan" "plan_fits db plan" and "2 \<le> frames" "frames \<le> 2 ^ 31"
  shows "\<exists>op N cs st. Optimize plan cat = Inr op \<and>
    (\<forall>fuel \<ge> N. produces (Operator_GetNext fuel) (op, (MakeBufferPoolManager frames, dm)) cs st) \<and>
    concat (map chunk_rows cs) = plan_rows db plan"
  by (rule query_runs [OF assms])

theorem optimized_query_correct_witness:
  "\<exists>cat dm t op N cs st. Optimize (join_query t) cat = Inr op \<and>
    (\<forall>fuel \<ge> N. produces (Operator_GetNext fuel) (op, (MakeBufferPoolManager 2, dm)) cs st) \<and>
    concat (map chunk_rows cs) = [[(VInt 7, True), (VInt 7, True)]]"
proof -
  obtain cat dm t where db: "dm_inv dm" "plan_tables cat (dm_page dm) numbers (join_query t)" by (rule numbers_stored)
  from optimized_query_correct [OF join_query_def join_query_wf db join_query_rows(2), of 2] join_query_rows(1) [of t]
  show ?thesis by (intro exI [of _ cat] exI [of _ dm] exI [of _ t]) simp
qed

text \<open>
  C10: predicate pushdown keeps the meaning of a well-formed plan: moving the conjuncts of filters below
  joins and groupings leaves the environments and their order as they were, and afterwards
  every predicate only names columns of its input.
\<close>

theorem pushdown_preserves_meaning:
  assumes "plan_wf False plan"
  shows "plan_envs db (PushdownPredicates plan) = plan_envs db plan \<and> plan_wf True (PushdownPredicates plan)"
  using Rewrite_envs [OF assms] Rewrite_wf [OF assms] by (simp add: PushdownPredicates_def)

theorem pushdown_preserves_meaning_witness:
  "plan_envs numbers (PushdownPredicates (join_query 1)) = plan_envs numbers (join_query 1) \<and>
   plan_wf True (PushdownPredicates (join_query 1))"
  by (rule pushdown_preserves_meaning [OF join_query_wf(1)])

text \<open>
  C11: pruning removes no column that is needed: in the pruned plan every column that the
  select list names has a position in the rows of the input, and a column of its type is there.
\<close>

theorem pruned_columns_found:
  assumes "plan_wf True (ProjectionNode input es oc)" and "narrow input" and "e \<in> set es" and "ref \<in> set (CollectColumnRefs e)"
  shows "\<exists>input' i. PruneColumns (ProjectionNode input es oc) = ProjectionNode input' es oc \<and>
    FindColumnPosition input' ref = Inr i \<and> i < length (layout_types input') \<and> layout_types input' ! i = cr_type ref"
proof -
  let ?in = "Propagate input (concat (map CollectColumnRefs es))"
  have "covered (Propagate (ProjectionNode input es oc) []) \<and> ordinals_ok (Propagate (ProjectionNode input es oc) [])"
    using Propagate_covers [OF assms(1), of "[]"] narrow_aggregates [OF assms(2)] by simp
  then have ok: "located ?in ref" "ordinals_ok ?in" using assms(3,4) by (auto simp: list_all_iff)
  have "plan_wf True ?in" "avail ?in ref"
    using assms(1,3,4) by (auto simp: list_all_iff output_ok_def all_avail_def)
  from FindColumnPosition_located [OF this(1) ok(2) this(2) ok(1)] obtain i where
    "FindColumnPosition ?in ref = Inr i" "i < length (layout ?in)" "layout_types ?in ! i = cr_type ref" by metis
  then show ?thesis by (intro exI [of _ ?in] exI [of _ i]) (simp add: PruneColumns_def)
qed

theorem pruned_columns_found_witness:
  "\<exists>input' i. PruneColumns (ProjectionNode (scan_n 0 1) [ColumnRefNode (k_of 0)] []) = ProjectionNode input' [ColumnRefNode (k_of 0)] [] \<and>
    FindColumnPosition input' (k_of 0) = Inr i \<and> i < length (layout_types input') \<and> layout_types input' ! i = cr_type (k_of 0)"
proof -
  have "expr_total (ColumnRefNode (k_of 0))" by (rule no_int_arithmetic_total) simp_all
  then show ?thesis
    by (intro pruned_columns_found [where e = "ColumnRefNode (k_of 0)"])
      (simp_all add: scan_n_def MakeLogicalScan_def kAggregateOutputBindingId_def output_ok_def all_avail_def)
qed

end
