(* ===== verification/BinderProps.thy ===== *)
theory BinderProps
  imports SelectCorrect InsertBinding QueryProps
begin

text \<open>
  The main properties of the binder, each with a concrete instance where its hypotheses hold,
  and what it accepts or drops that it should not.
\<close>

section \<open>Example tables\<close>

abbreviation raw_column :: "string \<Rightarrow> RawExpression" where
  "raw_column name \<equiv> RawColumnRef \<lparr>rc_table_qualifier = None, rc_column_name = name\<rparr>"

abbreviation raw_of :: "string \<Rightarrow> string \<Rightarrow> RawExpression" where
  "raw_of table name \<equiv> RawColumnRef \<lparr>rc_table_qualifier = Some table, rc_column_name = name\<rparr>"

abbreviation item :: "RawExpression \<Rightarrow> SelectItem" where
  "item e \<equiv> \<lparr>si_is_wildcard = False, si_expression = Some e\<rparr>"

definition simple_select :: "SelectItem list \<Rightarrow> TableRefNode list \<Rightarrow> RawExpression option \<Rightarrow> SelectNode" where
  "simple_select items tables condition =
     \<lparr>select_list = items, from_tables = tables, where_clause = condition, sel_group_by = [], having_clause = None,
      has_distinct = False, has_order_by = False, has_limit = False, has_with_clause = False, has_set_operation = False\<rparr>"

definition int_column :: "string \<Rightarrow> uint32 \<Rightarrow> ColumnDef" where
  "int_column name i = \<lparr>cd_name = name, cd_type = kInteger, cd_ordinal = i\<rparr>"

definition xy_table :: "uint32 \<Rightarrow> string \<Rightarrow> TableObject" where
  "xy_table table_id name = MakeTableObject table_id name [int_column ''x'' 0, int_column ''y'' 1]"

definition ab_catalog :: Catalog where
  "ab_catalog = \<lparr>cat_disk = example_disk, cat_schema = EmptySchemaSection,
     cat_tables = [(''a'', xy_table 0 ''a''), (''b'', xy_table 1 ''b'')], cat_order = id\<rparr>"

lemma ab_tables:
  "GetTable ab_catalog ''a'' = Some (xy_table 0 ''a'')" "GetTable ab_catalog ''b'' = Some (xy_table 1 ''b'')"
  by (simp_all add: GetTable_def ab_catalog_def)

lemma xy_table_simps:
  "to_table_id (xy_table i name) = i" "to_columns (xy_table i name) = [int_column ''x'' 0, int_column ''y'' 1]"
  "FindColumn (xy_table i name) ''x'' = Inr (Some (int_column ''x'' 0))"
  "FindColumn (xy_table i name) ''y'' = Inr (Some (int_column ''y'' 1))"
  by (simp_all add: xy_table_def MakeTableObject_def int_column_def emplace_def FindColumn_def to_Column_def vec_at_def)

lemma xy_table_ok: "table_ok (xy_table i name)"
  by (auto simp: table_ok_def xy_table_def MakeTableObject_def int_column_def less_Suc_eq nth_Cons')

lemma ab_catalog_ok: "catalog_tables_ok ab_catalog"
  by (auto simp: catalog_tables_ok_def GetTable_def ab_catalog_def xy_table_ok split: if_splits)

section \<open>SELECT statements\<close>

definition k_select :: SelectNode where
  "k_select = simple_select [item (raw_column ''k'')] [BaseTableRefNode ''n'' None]
     (Some (RawBinaryOp kGreaterThan (raw_column ''k'') (RawConst (IntLiteral 6))))"

definition k_plan :: "uint32 \<Rightarrow> LogicalPlanNode" where
  "k_plan t = ProjectionNode (FilterNode (scan_n 0 t) (greater_six (k_of 0))) [ColumnRefNode (k_of 0)]
     [\<lparr>oc_display_name = ''k'', oc_type = etInteger\<rparr>]"

definition named_numbers :: "TableObject \<Rightarrow> TableObject" where
  "named_numbers t = t\<lparr>to_table_name := ''n'', to_columns := number_columns, to_column_ordinal_map := [(''k'', 0)]\<rparr>"

lemma k_select_fine: "statement_fine k_select"
  by (simp add: statement_fine_def k_select_def simple_select_def optional_fine_def)

lemma k_select_binds_in:
  assumes "GetTable cat ''n'' = Some t" "to_columns t = number_columns" "to_column_ordinal_map t = [(''k'', 0)]"
  shows "BindSelect k_select cat = Inr (k_plan (to_table_id t))"
proof -
  have col: "FindColumn t ''k'' = Inr (Some \<lparr>cd_name = ''k'', cd_type = kInteger, cd_ordinal = 0\<rparr>)"
    by (simp add: FindColumn_def assms(2,3) number_columns_def to_Column_def vec_at_def)
  have "map output_column (to_columns t) = [\<lparr>oc_display_name = ''k'', oc_type = etInteger\<rparr>]"
    by (simp add: assms(2) number_columns_def output_column_def)
  with col assms(1) show ?thesis
    by (simp add: BindSelect_def k_select_def simple_select_def BindFromClause_def sbind_def sreturn_def bind_base_table_def
        RegisterTable_def BindingFor_def combine_parts_def bind_where_def bind_where_conjunct_def BindPredicate_def Resolve_def
        resolve_step_def column_of_binding_def MakeColumnRef_def MakeIntConst_def MakeArithmeticOp_def MakeLogicalFilter_def
        MakeLogicalProjection_def ResultTypeForBinaryOp_checked_def IsLogicalOperator_def bind_select_list_def
        is_aggregate_query_def bind_projection_def bind_item_def k_plan_def scan_n_def greater_six_def)
qed

lemma k_select_binds: "BindSelect k_select (one_table (named_numbers t) dm) = Inr (k_plan (to_table_id t))"
  using k_select_binds_in [of "one_table (named_numbers t) dm" "named_numbers t"]
  by (simp add: GetTable_def one_table_def named_numbers_def)

lemma k_plan_runnable: "plan_runnable (k_plan t)" "narrow (k_plan t)" "plan_fits db (k_plan t)"
proof -
  have "expr_total (greater_six (k_of 0))" using greater_six_fine by (simp add: conjunct_fine_def)
  then show "plan_runnable (k_plan t)"
    by (simp add: k_plan_def scan_n_def MakeLogicalScan_def conjunct_runs_def greater_six_def column_total)
qed (simp_all add: k_plan_def scan_n_def MakeLogicalScan_def)

lemma k_plan_rows_in:
  assumes "db t = [[(VInt 5, True)], [(VInt 7, True)]]"
  shows "plan_rows db (k_plan t) = [[(VInt 7, True)]]"
proof -
  have "ref_cell (scan_env 0 [(VInt x, True)]) (k_of 0) = (VInt x, True)" for x by (simp add: ref_cell_def scan_env_def)
  then show ?thesis by (simp add: assms k_plan_def scan_n_def MakeLogicalScan_def greater_six_passes env_cell_def)
qed

lemma k_plan_rows: "plan_rows numbers (k_plan t) = [[(VInt 7, True)]]"
  by (rule k_plan_rows_in) simp

lemma numbers_database:
  obtains t dm where "dm_inv dm" "database_ok (one_table (named_numbers t) dm) (dm_page dm) numbers"
proof -
  obtain dm table contents where st: "table_stored dm table [kInteger] contents"
    "table_rows (to_row_groups table) contents = [[(VInt 5, True)], [(VInt 7, True)]]"
    by (rule number_table_stored)
  let ?t = "named_numbers table"
  have "nan_free cells" if "cells_of_type kInteger cells" for cells
    using that by (auto simp: nan_free_def valid_floats_def cells_of_type_def list_all_iff split: ConstValue.splits)
  then have nan: "list_all (list_all nan_free) contents"
    using st(1) by (auto simp: table_stored_def list_all_iff list_all2_Cons1)
  have "table_at (dm_page dm) ?t (map cd_type (to_columns ?t)) contents"
    using table_stored_at [OF st(1)] by (simp add: table_at_def named_numbers_def number_columns_def)
  moreover have "table_ok ?t"
    by (simp add: table_ok_def named_numbers_def number_columns_def MakeTableObject_def emplace_def)
  moreover have "to_row_groups ?t = to_row_groups table" by (simp add: named_numbers_def)
  moreover have "GetTable (one_table ?t dm) name = Some t \<Longrightarrow> t = ?t" for name t
    by (auto simp: GetTable_def one_table_def split: if_splits)
  ultimately have "database_ok (one_table ?t dm) (dm_page dm) numbers"
    using nan st(2) one_table_lookup [of ?t dm] unfolding database_ok_def
    by (fastforce simp: light_def cell_weight_def)
  moreover have "dm_inv dm" using st(1) by (simp add: table_stored_def)
  ultimately show thesis by (rule that [rotated])
qed

text \<open>
  A \<open>SELECT\<close> statement that binds returns its rows. Let the tables of the catalog be stored in
  the file. If the binder accepts a statement, and the plan avoids what the binder leaves
  unchecked, then the optimizer builds an operator tree for it, and running the tree over an
  empty buffer pool ends without error with exactly the rows that the plan denotes.
\<close>

theorem select_statement_runs:
  assumes "database_ok cat (dm_page dm) db" "dm_inv dm" and "statement_fine select" "BindSelect select cat = Inr plan"
    and "plan_runnable plan" "narrow plan" "plan_fits db plan" and "2 \<le> frames" "frames \<le> 2 ^ 31"
  shows "\<exists>op N cs st. Optimize plan cat = Inr op \<and>
    (\<forall>fuel \<ge> N. produces (Operator_GetNext fuel) (op, (MakeBufferPoolManager frames, dm)) cs st) \<and>
    concat (map chunk_rows cs) = plan_rows db plan"
proof -
  obtain input es cols where plan: "plan = ProjectionNode input es cols" "plan_wf False plan"
    using BindSelect_wf [OF database_tables_ok [OF assms(1)] assms(3,4)] assms(5) by blast
  from query_runs [OF plan assms(6,2) BindSelect_tables [OF assms(1,4)] assms(7-9)] show ?thesis .
qed

theorem select_statement_runs_witness:
  "\<exists>cat dm plan op N cs st. BindSelect k_select cat = Inr plan \<and> Optimize plan cat = Inr op \<and>
    (\<forall>fuel \<ge> N. produces (Operator_GetNext fuel) (op, (MakeBufferPoolManager 2, dm)) cs st) \<and>
    concat (map chunk_rows cs) = [[(VInt 7, True)]]"
proof -
  obtain t dm where db: "dm_inv dm" "database_ok (one_table (named_numbers t) dm) (dm_page dm) numbers" by (rule numbers_database)
  from select_statement_runs [OF db(2,1) k_select_fine k_select_binds k_plan_runnable, of 2] k_select_binds [of t dm]
  show ?thesis unfolding k_plan_rows
    by (intro exI [of _ "one_table (named_numbers t) dm"] exI [of _ dm] exI [of _ "k_plan (to_table_id t)"]) simp
qed

section \<open>FROM clauses\<close>

text \<open>
  C16: the disjoint sets of the binder compute connected components, and every operation ends.
  After any sequence of unions, asking whether two elements are in one group returns, with the
  fuel that the number of elements gives, whether a chain of united pairs links them.
\<close>

theorem groups_are_components:
  assumes "list_all (\<lambda>(a, b). a < n \<and> b < n) ps" and "x < n" "y < n"
  shows "\<exists>p p'. unite_all ps (MakeDisjointSet n) = (Inr (), p) \<and> same_group x y p = (Inr ((x, y) \<in> linked (set ps)), p')"
proof -
  have "linked {} = Id" by (simp add: linked_def)
  then have init: "\<forall>x < n. \<forall>y < n. root (MakeDisjointSet n) x = root (MakeDisjointSet n) y \<longleftrightarrow> (x, y) \<in> linked {}"
    by (simp add: MakeDisjointSet_root)
  obtain p where p: "unite_all ps (MakeDisjointSet n) = (Inr (), p)" "forest p" "length p = n"
    "\<forall>x < n. \<forall>y < n. root p x = root p y \<longleftrightarrow> (x, y) \<in> linked (set ps)"
    using unite_all_linked [OF MakeDisjointSet_forest(1), of n ps "{}"] init assms(1) by (auto simp: MakeDisjointSet_forest(2))
  from ds.find_both [OF p(2), of x y] obtain p' where "same_group x y p = (Inr (root p x = root p y), p')"
    using assms(2,3) p(3) by (auto simp: same_group_def)
  with p assms(2,3) show ?thesis by auto
qed

theorem groups_are_components_witness:
  "\<exists>p p'. unite_all [(1, 0), (2, 1)] (MakeDisjointSet 3) = (Inr (), p) \<and>
     same_group 0 2 p = (Inr ((0, 2) \<in> linked (set [(1, 0), (2, 1)])), p')"
  by (rule groups_are_components) simp_all

text \<open>
  C15: the items of a comma list are joined from left to right, each by the first \<open>WHERE\<close> equality
  that links it to an item before it, and a list in which some item has no such equality is
  rejected as a Cartesian product. The loop over disjoint sets is equivalent to this definition.
\<close>

theorem comma_list_joins_left_to_right:
  assumes "2 \<le> length parts"
  shows "combine_parts parts conjuncts scope =
    rbind (rfold (classify_conjunct scope parts) conjuncts no_connections) (\<lambda>st.
    rbind (joined_plan (zip (connecting_pairs st) (connecting_equalities st)) 1 (tl parts) (fb_plan (hd parts))) (\<lambda>combined.
      Inr \<lparr>fr_plan = combined, fr_remaining_where_conjuncts = remaining st\<rparr>))"
  by (rule combine_parts_joined [OF assms])

text \<open>Two tables and a scope for them.\<close>

definition ab_scope :: ResolutionScope where
  "ab_scope = [\<lparr>rb_binding_id = 0, rb_binding_name = ''a'', rb_table = xy_table 0 ''a''\<rparr>,
     \<lparr>rb_binding_id = 1, rb_binding_name = ''b'', rb_table = xy_table 1 ''b''\<rparr>]"

definition xy_scan :: "uint32 \<Rightarrow> LogicalPlanNode" where
  "xy_scan i = MakeLogicalScan i i [\<lparr>oc_display_name = ''x'', oc_type = etInteger\<rparr>, \<lparr>oc_display_name = ''y'', oc_type = etInteger\<rparr>]"

abbreviation int_ref :: "uint32 \<Rightarrow> uint32 \<Rightarrow> BoundColumnRef" where
  "int_ref b i \<equiv> \<lparr>cr_table_id = b, cr_ordinal = i, cr_type = kInteger\<rparr>"

lemma ab_scope_ok: "scope_ok ab_scope"
  by (auto simp: scope_ok_def ab_scope_def xy_table_ok less_Suc_eq)

lemma ab_resolve:
  "Resolve ab_scope \<lparr>rc_table_qualifier = Some ''a'', rc_column_name = ''x''\<rparr> = Inr (int_ref 0 0)"
  "Resolve ab_scope \<lparr>rc_table_qualifier = Some ''a'', rc_column_name = ''y''\<rparr> = Inr (int_ref 0 1)"
  "Resolve ab_scope \<lparr>rc_table_qualifier = Some ''b'', rc_column_name = ''x''\<rparr> = Inr (int_ref 1 0)"
  "Resolve ab_scope \<lparr>rc_table_qualifier = Some ''b'', rc_column_name = ''y''\<rparr> = Inr (int_ref 1 1)"
  by (simp_all add: Resolve_def resolve_qualified_def ab_scope_def xy_table_simps column_of_binding_def int_column_def)

abbreviation ab_parts :: "FromBinding list" where
  "ab_parts \<equiv> [\<lparr>fb_plan = xy_scan 0, fb_binding_ids = [0]\<rparr>, \<lparr>fb_plan = xy_scan 1, fb_binding_ids = [1]\<rparr>]"

definition x_equal :: RawExpression where "x_equal = RawBinaryOp kEqual (raw_of ''a'' ''x'') (raw_of ''b'' ''x'')"
definition y_equal :: RawExpression where "y_equal = RawBinaryOp kEqual (raw_of ''a'' ''y'') (raw_of ''b'' ''y'')"

lemma ab_part_index: "part_index_of ab_parts 0 = Inr 0" "part_index_of ab_parts 1 = Inr 1"
  by (simp_all add: part_index_of_def upt_rec)

lemma ab_classified:
  "rfold (classify_conjunct ab_scope ab_parts) [x_equal] no_connections =
     Inr \<lparr>remaining = [], connecting_pairs = [(0, 1)], connecting_equalities = [(int_ref 0 0, int_ref 1 0)]\<rparr>"
  by (simp add: classify_conjunct_def x_equal_def ab_resolve ab_part_index no_connections_def Let_def)

lemma ab_joined:
  "joined_plan (((0, Suc 0), eq) # cs) (Suc 0) [\<lparr>fb_plan = xy_scan 1, fb_binding_ids = [1]\<rparr>] (xy_scan 0) =
     Inr (JoinNode (xy_scan 0) (xy_scan 1) [eq])"
  by (simp add: links_def)

definition x_join :: FromClauseResult where
  "x_join = \<lparr>fr_plan = JoinNode (xy_scan 0) (xy_scan 1) [(int_ref 0 0, int_ref 1 0)], fr_remaining_where_conjuncts = []\<rparr>"

theorem comma_list_joins_left_to_right_witness: "combine_parts ab_parts [x_equal] ab_scope = Inr x_join"
proof -
  have "2 \<le> length ab_parts" by simp
  from comma_list_joins_left_to_right [OF this, of "[x_equal]" ab_scope] show ?thesis
    unfolding ab_classified by (simp add: ab_joined x_join_def del: joined_plan.simps)
qed

lemma ab_combined: "combine_parts ab_parts [x_equal] ab_scope = Inr x_join"
proof -
  have "2 \<le> length ab_parts" by simp
  note joined = combine_parts_joined [OF this]
  show ?thesis unfolding joined ab_classified by (simp add: ab_joined x_join_def del: joined_plan.simps)
qed

lemma ab_from:
  "BindFromClause [BaseTableRefNode ''a'' None, BaseTableRefNode ''b'' None] cs ab_catalog [] = (combine_parts ab_parts cs ab_scope, ab_scope)"
  by (simp add: BindFromClause_def sbind_def sreturn_def bind_base_table_def RegisterTable_def BindingFor_def ab_tables xy_table_simps
      ab_scope_def xy_scan_def output_column_def int_column_def Let_def)

definition ab_select :: "RawExpression \<Rightarrow> SelectNode" where
  "ab_select condition = simple_select [item (raw_of ''a'' ''x'')] [BaseTableRefNode ''a'' None, BaseTableRefNode ''b'' None] (Some condition)"

lemma ab_select_binds:
  "BindSelect (ab_select c) ab_catalog =
     rbind (combine_parts ab_parts (FlattenAnd c []) ab_scope) (\<lambda>from.
     rbind (bind_where ab_scope from) (bind_select_list (ab_select c) ab_scope))"
  by (simp add: BindSelect_def ab_select_def simple_select_def ab_from)

lemma ab_select_plan:
  "BindSelect (ab_select x_equal) ab_catalog =
     Inr (ProjectionNode (JoinNode (xy_scan 0) (xy_scan 1) [(int_ref 0 0, int_ref 1 0)]) [ColumnRefNode (int_ref 0 0)]
       [\<lparr>oc_display_name = ''x'', oc_type = etInteger\<rparr>])"
proof -
  have "FlattenAnd x_equal [] = [x_equal]" by (simp add: x_equal_def)
  moreover have "rbind (bind_where ab_scope x_join) (bind_select_list (ab_select x_equal) ab_scope) =
     Inr (ProjectionNode (JoinNode (xy_scan 0) (xy_scan 1) [(int_ref 0 0, int_ref 1 0)]) [ColumnRefNode (int_ref 0 0)]
       [\<lparr>oc_display_name = ''x'', oc_type = etInteger\<rparr>])"
    by (simp add: bind_where_def x_join_def bind_select_list_def ab_select_def simple_select_def is_aggregate_query_def bind_projection_def
        bind_item_def ab_resolve MakeColumnRef_def MakeLogicalProjection_def)
  ultimately show ?thesis by (simp add: ab_select_binds ab_combined del: FlattenAnd.simps)
qed

text \<open>
  C13: what an accepted \<open>SELECT\<close> is bound to. The plan is a projection, and in all of it: the
  binding identifiers of the tables are different, join keys, \<open>WHERE\<close> and \<open>HAVING\<close> predicates
  and grouping columns name columns of tables in the \<open>FROM\<close> clause, with the types they have
  there; predicates are boolean and their operators are applied to operands of their types;
  aggregates are applied to columns that they support; and every column in the select list is
  one of the input of the projection, by position and type. Of the statement only its size is
  assumed, and that predicates are no operands of comparisons and arithmetic.
\<close>

theorem bound_select_well_formed:
  assumes "catalog_tables_ok cat" "statement_fine select" "BindSelect select cat = Inr plan"
  shows "\<exists>input es cols. plan = ProjectionNode input es cols \<and> plan_bound (avail (from_plan plan)) plan"
  by (rule BindSelect_bound [OF assms])

theorem bound_select_well_formed_witness:
  "\<exists>plan input es cols. BindSelect (ab_select x_equal) ab_catalog = Inr plan \<and> plan = ProjectionNode input es cols \<and>
     plan_bound (avail (from_plan plan)) plan"
proof -
  have "statement_fine (ab_select x_equal)"
    by (simp add: statement_fine_def ab_select_def simple_select_def optional_fine_def x_equal_def)
  from bound_select_well_formed [OF ab_catalog_ok this ab_select_plan] show ?thesis using ab_select_plan by blast
qed

lemma FlattenAnd_out: "FlattenAnd e out = out @ FlattenAnd e []"
proof (induction e arbitrary: out)
  case (RawBinaryOp op l r)
  show ?case
  proof (cases "op = kAnd")
    case True
    then show ?thesis using RawBinaryOp.IH(2) [of "FlattenAnd l out"] RawBinaryOp.IH(2) [of "FlattenAnd l []"] RawBinaryOp.IH(1) [of out] by simp
  qed simp
qed simp_all

lemma find_append: "find P xs = Some x \<Longrightarrow> find P (xs @ ys) = Some x"
  by (induction xs) (auto split: if_splits)

lemma combine_further_equality:
  assumes comb: "combine_parts [p, q] cs scope = Inr res"
    and refs: "Resolve scope l = Inr a" "Resolve scope r = Inr b"
      "part_index_of [p, q] (cr_table_id a) = Inr i" "part_index_of [p, q] (cr_table_id b) = Inr j" "i \<noteq> j"
  shows "combine_parts [p, q] (cs @ [RawBinaryOp kEqual (RawColumnRef l) (RawColumnRef r)]) scope = Inr res"
proof -
  have "2 \<le> length [p, q]" by simp
  note joined = combine_parts_joined [OF this, of _ scope, unfolded list.sel]
  obtain st plan where st: "rfold (classify_conjunct scope [p, q]) cs no_connections = Inr st"
    "joined_plan (zip (connecting_pairs st) (connecting_equalities st)) 1 [q] (fb_plan p) = Inr plan"
    "res = \<lparr>fr_plan = plan, fr_remaining_where_conjuncts = remaining st\<rparr>"
    using comb unfolding joined by (auto simp: result_simps simp del: joined_plan.simps)
  have len: "length (connecting_equalities st) = length (connecting_pairs st)"
    using classified_pairs [OF st(1)] by (simp add: no_connections_def)
  let ?st = "st\<lparr>connecting_pairs := connecting_pairs st @ [(i, j)], connecting_equalities := connecting_equalities st @ [(a, b)]\<rparr>"
  have "classify_conjunct scope [p, q] (RawBinaryOp kEqual (RawColumnRef l) (RawColumnRef r)) st = Inr ?st"
    using refs by (simp add: classify_conjunct_def Let_def)
  with st(1) have st': "rfold (classify_conjunct scope [p, q]) (cs @ [RawBinaryOp kEqual (RawColumnRef l) (RawColumnRef r)]) no_connections = Inr ?st"
    by (simp add: rfold_append)
  have "joined_plan (zip (connecting_pairs ?st) (connecting_equalities ?st)) 1 [q] (fb_plan p) = Inr plan"
    using st(2) len
    by (cases "find (links 1) (zip (connecting_pairs st) (connecting_equalities st))") (auto simp: find_append split: option.splits)
  then show ?thesis unfolding joined st' by (simp add: st(3) del: joined_plan.simps)
qed

text \<open>
  C39: a further equality between the two items of a comma list is lost. Let a \<open>SELECT\<close> over two
  \<open>FROM\<close> items bind to a plan. Adding to its \<open>WHERE\<close> clause any equality of a column of the one item
  with a column of the other leaves the plan as it was: the added condition is neither a join
  key nor a predicate of it, so rows that violate it are returned.
\<close>

theorem second_equality_dropped:
  assumes "BindSelect select cat = Inr plan" "where_clause select = Some w" "from_tables select = [item1, item2]"
    and "smap (\<lambda>item. BindTableRef item cat) [item1, item2] [] = (Inr [p, q], scope)"
    and "Resolve scope l = Inr a" "Resolve scope r = Inr b"
    and "part_index_of [p, q] (cr_table_id a) = Inr i" "part_index_of [p, q] (cr_table_id b) = Inr j" "i \<noteq> j"
  shows "BindSelect (select\<lparr>where_clause := Some (RawBinaryOp kAnd w (RawBinaryOp kEqual (RawColumnRef l) (RawColumnRef r)))\<rparr>) cat = Inr plan"
proof -
  have bind_list: "bind_select_list (select\<lparr>where_clause := c\<rparr>) = bind_select_list select" for c
    by (intro ext) (simp add: bind_select_list_def is_aggregate_query_def bind_aggregate_def bind_projection_def cong: if_cong)
  have clause: "BindFromClause [item1, item2] cs cat [] = (combine_parts [p, q] cs scope, scope)" for cs
    using assms(4) by (simp add: BindFromClause_def sbind_def del: smap.simps)
  from assms(1) obtain res where res: "combine_parts [p, q] (FlattenAnd w []) scope = Inr res"
    "rbind (bind_where scope res) (bind_select_list select scope) = Inr plan" 
    by (auto simp: BindSelect_def assms(2,3) clause result_simps split: if_splits)
  have "FlattenAnd (RawBinaryOp kAnd w (RawBinaryOp kEqual (RawColumnRef l) (RawColumnRef r))) [] =
      FlattenAnd w [] @ [RawBinaryOp kEqual (RawColumnRef l) (RawColumnRef r)]" by simp
  then show ?thesis
    using assms(1,3) res(2) combine_further_equality [OF res(1) assms(5-9)]
    by (auto simp: BindSelect_def clause bind_list assms(3) simp del: FlattenAnd.simps split: if_splits)
qed

theorem second_equality_dropped_witness:
  "BindSelect (ab_select (RawBinaryOp kAnd x_equal y_equal)) ab_catalog =
     Inr (ProjectionNode (JoinNode (xy_scan 0) (xy_scan 1) [(int_ref 0 0, int_ref 1 0)]) [ColumnRefNode (int_ref 0 0)]
       [\<lparr>oc_display_name = ''x'', oc_type = etInteger\<rparr>])"
proof -
  have parts: "smap (\<lambda>item. BindTableRef item ab_catalog) [BaseTableRefNode ''a'' None, BaseTableRefNode ''b'' None] [] = (Inr ab_parts, ab_scope)"
    by (simp add: sbind_def sreturn_def bind_base_table_def RegisterTable_def BindingFor_def ab_tables xy_table_simps
      ab_scope_def xy_scan_def output_column_def int_column_def Let_def)
  have "(ab_select x_equal)\<lparr>where_clause := Some (RawBinaryOp kAnd x_equal y_equal)\<rparr> = ab_select (RawBinaryOp kAnd x_equal y_equal)"
    by (simp add: ab_select_def simple_select_def)
  with second_equality_dropped [OF ab_select_plan _ _ parts ab_resolve(2,4), of x_equal 0 1] ab_part_index show ?thesis
    by (simp add: ab_select_def simple_select_def y_equal_def)
qed

section \<open>Names\<close>

text \<open>
  C38: an unqualified column name resolves exactly when one table of the \<open>FROM\<close> clause has a column
  of that name, to the first such column of it; with more than one the name is ambiguous, with
  none it is unknown.
\<close>

theorem names_resolve_uniquely:
  assumes "scope_ok scope" and "rc_table_qualifier r = None"
  defines "having \<equiv> filter (\<lambda>b. has_column (rb_table b) (rc_column_name r)) scope"
  shows "(having = [] \<longrightarrow> Resolve scope r = Inl (ResolutionError (''Column not found: '' @ rc_column_name r))) \<and>
    (\<forall>b. having = [b] \<longrightarrow> (\<exists>c. named_column (rb_table b) (rc_column_name r) = Some c \<and> Resolve scope r = Inr (column_of_binding b c))) \<and>
    (2 \<le> length having \<longrightarrow> Resolve scope r = Inl (ResolutionError (''Ambiguous column reference: '' @ rc_column_name r)))"
proof -
  have "candidates bs name = map (\<lambda>b. column_of_binding b (the (named_column (rb_table b) name)))
      (filter (\<lambda>b. has_column (rb_table b) name) bs)" for bs name
    by (induction bs) (auto simp: candidates_def simp flip: named_column_iff)
  then have c: "candidates scope (rc_column_name r) =
      map (\<lambda>b. column_of_binding b (the (named_column (rb_table b) (rc_column_name r)))) having"
    by (simp add: having_def)
  have "named_column (rb_table b) (rc_column_name r) \<noteq> None" if "having = [b]" for b
  proof -
    have "b \<in> set having" using that by simp
    then show ?thesis by (simp add: having_def flip: named_column_iff)
  qed
  then show ?thesis
    unfolding Resolve_unqualified [OF assms(1,2)] c by (auto split: list.split)
qed

theorem names_resolve_uniquely_witness:
  "Resolve ab_scope \<lparr>rc_table_qualifier = None, rc_column_name = ''x''\<rparr> =
     Inl (ResolutionError ''Ambiguous column reference: x'') \<and>
   (\<exists>c. Resolve [hd ab_scope] \<lparr>rc_table_qualifier = None, rc_column_name = ''x''\<rparr> = Inr (column_of_binding (hd ab_scope) c))"
proof -
  have "scope_ok [hd ab_scope]" using ab_scope_ok by (simp add: scope_ok_def ab_scope_def)
  moreover have "has_column (xy_table i name) ''x''" for i name by (simp add: has_column_def xy_table_simps int_column_def)
  ultimately show ?thesis
    using names_resolve_uniquely [OF ab_scope_ok, of "\<lparr>rc_table_qualifier = None, rc_column_name = ''x''\<rparr>"]
      names_resolve_uniquely [of "[hd ab_scope]" "\<lparr>rc_table_qualifier = None, rc_column_name = ''x''\<rparr>"]
    by (auto simp: ab_scope_def)
qed

section \<open>INSERT statements\<close>

text \<open>
  C14: an \<open>INSERT\<close> that binds, and names no column twice, gives complete and well-typed rows: for
  every row of values there is one bound row with a literal for each column of the table, of
  the column's type, and the literal is the one that the statement puts at the position of
  that column in its column list, or in the table when it has no list.
\<close>

theorem insert_binds_complete_rows:
  assumes "catalog_tables_ok cat" "GetTable cat (in_table_name ins) = Some t" "distinct (in_columns ins)" "BindInsert ins cat = Inr bi"
  shows "bi_table_id bi = to_table_id t \<and> length (bi_rows bi) = length (in_value_rows ins) \<and>
    (\<forall>r < length (bi_rows bi). \<exists>vals. bi_rows bi ! r = map (Some \<circ> ConstNode) vals \<and>
       map value_type vals = map cd_type (to_columns t) \<and> length (in_value_rows ins ! r) = length vals \<and>
       (\<forall>i < length vals. value_for t (insert_targets ins t ! i) (in_value_rows ins ! r ! i)
          (ConstNode (vals ! (insert_targets ins t ! i)))))"
  by (rule BindInsert_rows [OF assms])

definition swapped_insert :: "string list \<Rightarrow> InsertNode" where
  "swapped_insert columns = \<lparr>in_table_name = ''a'', in_columns = columns,
     in_value_rows = [[RawConst (IntLiteral 1), RawConst (IntLiteral 2)]]\<rparr>"

lemma swapped_insert_binds:
  "BindInsert (swapped_insert [''y'', ''x'']) ab_catalog = Inr \<lparr>bi_table_id = 0, bi_rows = [[Some (ConstNode (VInt 2)), Some (ConstNode (VInt 1))]]\<rparr>"
  by (simp add: BindInsert_def swapped_insert_def ab_tables target_ordinal_def xy_table_simps int_column_def bind_insert_row_def
      bind_insert_value_def to_Column_def vec_at_def MakeIntConst_def)

theorem insert_binds_complete_rows_witness:
  "\<exists>bi vals. BindInsert (swapped_insert [''y'', ''x'']) ab_catalog = Inr bi \<and> bi_rows bi ! 0 = map (Some \<circ> ConstNode) vals \<and>
     map value_type vals = [kInteger, kInteger]"
proof -
  let ?bi = "\<lparr>bi_table_id = 0, bi_rows = [[Some (ConstNode (VInt 2)), Some (ConstNode (VInt 1))]]\<rparr>"
  have "GetTable ab_catalog (in_table_name (swapped_insert [''y'', ''x''])) = Some (xy_table 0 ''a'')"
    "distinct (in_columns (swapped_insert [''y'', ''x'']))"
    by (simp_all add: swapped_insert_def ab_tables)
  from insert_binds_complete_rows [OF ab_catalog_ok this swapped_insert_binds]
  have "\<forall>r < length (bi_rows ?bi). \<exists>vals. bi_rows ?bi ! r = map (Some \<circ> ConstNode) vals \<and>
      map value_type vals = map cd_type (to_columns (xy_table 0 ''a''))" by blast
  moreover have "0 < length (bi_rows ?bi)" by simp
  ultimately obtain vals where vals: "bi_rows ?bi ! 0 = map (Some \<circ> ConstNode) vals"
    "map value_type vals = map cd_type (to_columns (xy_table 0 ''a''))" by blast
  show ?thesis
    by (intro exI [of _ ?bi] exI [of _ vals] conjI swapped_insert_binds vals(1)) (simp add: vals(2) xy_table_simps int_column_def)
qed

section \<open>Constant conditions on groups\<close>

lemma bind_constant:
  "BindScalarExpression e [] = Inr b \<Longrightarrow> BindScalarExpression e scope = Inr b \<and> CollectColumnRefs b = []"
proof (induction e arbitrary: b)
  case (RawColumnRef node)
  then show ?case by (simp add: Resolve_def resolve_qualified_def split: option.splits)
next
  case (RawConst c)
  then show ?case using BindConst_Inr [of c b] by auto
next
  case (RawBinaryOp op l r)
  then show ?case by (auto simp: result_simps MakeBooleanOp_def MakeArithmeticOp_def split: if_splits)
next
  case (RawUnaryOp op e)
  then show ?case by (auto simp: result_simps MakeNot_def)
qed simp

lemma bound_having:
  assumes "BindSelect select cat = Inr plan" "sel_group_by select = []" "having_clause select = Some h"
  obtains scope p input calls cols es oc where "BindPredicate h scope = Inr p"
    "plan = ProjectionNode (FilterNode (AggregateNode input [] calls cols) p) es oc"
proof -
  obtain scope input where q: "bind_select_list select scope input = Inr plan"
    using assms(1) by (auto simp: BindSelect_def Let_def result_simps split: if_splits prod.splits)
  have "\<exists>items ab es oc. bind_aggregate select scope items input = Inr ab \<and> plan = ProjectionNode (ab_plan ab) es oc"
    using q assms(3) unfolding bind_select_list_def is_aggregate_query_def MakeLogicalProjection_def by (auto simp: rbind_Inr_iff)
  then obtain items ab es oc where b: "bind_aggregate select scope items input = Inr ab" "plan = ProjectionNode (ab_plan ab) es oc"
    by blast
  from b(1) assms(2,3) obtain p calls cols where "BindPredicate h scope = Inr p" "ab_plan ab = FilterNode (AggregateNode input [] calls cols) p"
    by (auto simp: bind_aggregate_def MakeLogicalAggregate_def MakeLogicalFilter_def Let_def result_simps split: if_splits)
  with b(2) that show thesis by blast
qed

text \<open>
  C40: a \<open>HAVING\<close> condition that names no column and does not hold is misplaced when there is no
  \<open>GROUP BY\<close>. Every such statement that binds denotes no row; but predicate pushdown moves the
  condition below the aggregate, and the plan it gives denotes exactly one row, the aggregates
  over no input. A condition names no column when it binds in an empty scope.
\<close>

theorem constant_having_misplaced:
  assumes "BindSelect select cat = Inr plan" "sel_group_by select = []" "having_clause select = Some h"
    and "BindPredicate h [] = Inr p" and "\<not> cells_pass (\<lambda>_. no_cell) p"
  shows "plan_rows db plan = [] \<and> (\<exists>row. plan_rows db (PushdownPredicates plan) = [row])"
proof -
  obtain scope p' input calls cols es oc where b: "BindPredicate h scope = Inr p'"
    "plan = ProjectionNode (FilterNode (AggregateNode input [] calls cols) p') es oc"
    by (rule bound_having [OF assms(1-3)])
  have p: "p' = p" "CollectColumnRefs p = []"
    using assms(4) b(1) bind_constant [of h p scope] by (auto simp: BindPredicate_def result_simps split: if_splits)
  have "eval_cells (ref_cell env) p = eval_cells (\<lambda>_. no_cell) p" for env by (rule eval_cells_cong) (simp add: p(2))
  then have "\<not> env_passes p env" for env using assms(5) by (simp add: env_passes_def cells_pass_def)
  then have none: "plan_rows db plan = []" by (simp add: b(2) p(1))
  have "ReferencesOnlyGroupByColumns c []" if "c \<in> set (ExtractConjuncts p)" for c
    using that ExtractConjuncts_refs [of p] p(2) by (auto simp: ReferencesOnlyGroupByColumns_def)
  then have "filter (\<lambda>c. ReferencesOnlyGroupByColumns c []) (ExtractConjuncts p) = ExtractConjuncts p"
    "filter (\<lambda>c. \<not> ReferencesOnlyGroupByColumns c []) (ExtractConjuncts p) = []"
    by (simp_all add: filter_id_conv filter_empty_conv)
  then have "PushdownPredicates plan = ProjectionNode (AggregateNode (PlaceInto (Rewrite input) (ExtractConjuncts p)) [] calls cols) es oc"
    by (simp add: PushdownPredicates_def b(2) p(1) WrapInFilter_def Let_def)
  with none show ?thesis by (simp add: group_keys_def Let_def)
qed

text \<open>The instance is \<open>SELECT COUNT(*) FROM a HAVING 1 = 2\<close>.\<close>

definition having_select :: SelectNode where
  "having_select = (simple_select [item (RawFunctionCall ''count'' [] True)] [BaseTableRefNode ''a'' None] None)
     \<lparr>having_clause := Some (RawBinaryOp kEqual (RawConst (IntLiteral 1)) (RawConst (IntLiteral 2)))\<rparr>"

theorem constant_having_misplaced_witness:
  "\<exists>plan row. BindSelect having_select ab_catalog = Inr plan \<and> plan_rows (\<lambda>_. []) plan = [] \<and>
     plan_rows (\<lambda>_. []) (PushdownPredicates plan) = [row]"
proof -
  let ?p = "BinaryOpNode kEqual (ConstNode (VInt 1)) (ConstNode (VInt 2)) etBoolean"
  have p: "BindPredicate (RawBinaryOp kEqual (RawConst (IntLiteral 1)) (RawConst (IntLiteral 2))) [] = Inr ?p"
    by (simp add: BindPredicate_def MakeIntConst_def MakeArithmeticOp_def ResultTypeForBinaryOp_checked_def IsLogicalOperator_def)
  have "\<exists>plan. BindSelect having_select ab_catalog = Inr plan"
    by (simp add: BindSelect_def having_select_def simple_select_def BindFromClause_def sbind_def sreturn_def bind_base_table_def RegisterTable_def
      BindingFor_def ab_tables combine_parts_def bind_where_def bind_select_list_def is_aggregate_query_def bind_aggregate_def
      bind_call_def BindAggregateCall_def tolower_def check_item_def MakeIntConst_def project_aggregate_item_def project_aggregate_def Let_def
      BindPredicate_def MakeArithmeticOp_def ResultTypeForBinaryOp_checked_def IsLogicalOperator_def vec_at_def)
  then obtain plan where plan: "BindSelect having_select ab_catalog = Inr plan" ..
  have "\<not> cells_pass (\<lambda>_. no_cell) ?p"
    by (simp add: cells_pass_def IsArithmeticOperator_def IsLogicalOperator_def compare_ints_def)
  from constant_having_misplaced [OF plan _ _ p this, of "\<lambda>_. []"] plan show ?thesis
    by (auto simp: having_select_def simple_select_def)
qed

section \<open>Statements that should be rejected\<close>

text \<open>
  A column named twice leaves another without a value: \<open>INSERT INTO a (x, x) VALUES (1, 2)\<close> binds to
  a row with a null pointer for \<open>y\<close>.
\<close>

theorem duplicate_insert_column_leaves_null:
  "BindInsert (swapped_insert [''x'', ''x'']) ab_catalog = Inr \<lparr>bi_table_id = 0, bi_rows = [[Some (ConstNode (VInt 2)), None]]\<rparr>"
  by (simp add: BindInsert_def swapped_insert_def ab_tables target_ordinal_def xy_table_simps int_column_def bind_insert_row_def
      bind_insert_value_def to_Column_def vec_at_def MakeIntConst_def)

text \<open>
  A select item of an aggregate query that is neither a call nor a column is accepted by the
  checks and then read through a null pointer: \<open>SELECT 1, COUNT(*) FROM a\<close> is undefined behaviour.
\<close>

theorem constant_aggregate_item_dereferences_null:
  "BindSelect (simple_select [item (RawConst (IntLiteral 1)), item (RawFunctionCall ''count'' [] True)] [BaseTableRefNode ''a'' None] None)
     ab_catalog = Inl (UndefinedBehaviour ''null pointer dereference'')"
  by (simp add: BindSelect_def simple_select_def BindFromClause_def sbind_def sreturn_def bind_base_table_def RegisterTable_def
      BindingFor_def ab_tables combine_parts_def bind_where_def bind_select_list_def is_aggregate_query_def bind_aggregate_def
      bind_call_def BindAggregateCall_def tolower_def check_item_def MakeIntConst_def project_aggregate_item_def project_key_def Let_def)

text \<open>Predicates are accepted as operands of a comparison, whose evaluation then fails.\<close>

definition compared_predicates :: RawExpression where
  "compared_predicates = RawBinaryOp kEqual x_equal x_equal"

theorem boolean_operands_accepted:
  "\<exists>p. BindPredicate compared_predicates ab_scope = Inr p \<and>
     eval_cells (\<lambda>_. (VInt 1, True)) p = Inl BadVariantAccess"
  by (simp add: BindPredicate_def compared_predicates_def x_equal_def ab_resolve ResultTypeForBinaryOp_checked_def MakeColumnRef_def
      MakeArithmeticOp_def IsLogicalOperator_def IsArithmeticOperator_def)

end
