(* ===== verification/ExampleSession.thy ===== *)
theory ExampleSession
  imports ProgramCorrect BinderProps
begin

text \<open>
  A small session: a new database file, a table of one column, two rows inserted into it and a
  query. The states that it goes through are instances of the hypotheses of the properties.
\<close>

section \<open>An example system\<close>

text \<open>A SQL parser that knows three statements, and the other facts the driver takes from outside.\<close>

definition no_doubles :: "string \<Rightarrow> float64 result" where
  "no_doubles text = Inl (InvalidArgument ''stod'')"

definition k_sql :: string where
  "k_sql = ''SELECT k FROM n WHERE k > 6''"

definition create_sql :: string where
  "create_sql = ''CREATE TABLE n (k INTEGER)''"

definition insert_sql :: string where
  "insert_sql = ''INSERT INTO n VALUES (5), (7)''"

definition create_n :: CreateTableNode where
  "create_n = \<lparr>ct_table_name = ''n'', ct_columns = [\<lparr>rd_name = ''k'', rd_raw_type_name = ''int4''\<rparr>]\<rparr>"

definition insert_n :: InsertNode where
  "insert_n = \<lparr>in_table_name = ''n'', in_columns = [], in_value_rows = [[RawConst (IntLiteral 5)], [RawConst (IntLiteral 7)]]\<rparr>"

definition known_statements :: "string \<Rightarrow> ParsedStatement option" where
  "known_statements = [k_sql \<mapsto> SelectStatement k_select, create_sql \<mapsto> CreateTableStatement create_n,
     insert_sql \<mapsto> InsertStatement insert_n]"

definition pg_types :: "string \<Rightarrow> string list" where
  "pg_types name = (if name = ''int4'' then [''pg_catalog''] else [])"

definition small_parser :: pg_parser where
  "small_parser sql =
     (case known_statements sql of Some statement \<Rightarrow> Inr (Some [stmt_tree (\<lambda>_. '''') pg_types statement]) | None \<Rightarrow> Inl ''syntax error'')"

definition small_system :: "bool \<Rightarrow> system" where
  "small_system terminal =
     \<lparr>sys_parse = small_parser, sys_stod = no_doubles, sys_stdout_is_terminal = terminal, sys_seconds = Float64 0\<rparr>"

lemma digits: "show_nat 0 = ''0''" "show_nat (Suc 0) = ''1''" "show_nat 2 = ''2''" "show_int 7 = ''7''"
  by (simp_all add: show_int_def show_nat.simps [of 0] show_nat.simps [of "Suc 0"] show_nat.simps [of 2] show_nat.simps [of 7] char_of_def bit_0)

lemma zero_seconds: "FormatElapsedSeconds (Float64 0) = ''0.000''"
proof -
  have "replicate 2 c = [c, c]" for c :: char by (simp add: numeral_2_eq_2)
  then show ?thesis by (simp add: FormatElapsedSeconds_def float_eval round_div_def show_nat.simps [of 0] char_of_def bit_0)
qed

lemma k_select_readable: "stmt_readable no_doubles (\<lambda>_. '''') (SelectStatement k_select)"
  by (simp add: k_select_def simple_select_def item_readable_def clause_readable_def)

lemma known_sql: "known_statements k_sql = Some (SelectStatement k_select)" "known_statements create_sql = Some (CreateTableStatement create_n)"
  "known_statements insert_sql = Some (InsertStatement insert_n)"
  by (simp_all add: known_statements_def k_sql_def create_sql_def insert_sql_def)

lemma small_system_parses:
  assumes "known_statements sql = Some statement" "stmt_readable no_doubles (\<lambda>_. '''') statement"
  shows "ParseSingleStatement (sys_parse (small_system terminal)) (sys_stod (small_system terminal)) sql = Inr statement"
  using stmt_tree_converts [OF assms(2)] assms(1) by (simp add: ParseSingleStatement_def small_system_def small_parser_def)

lemmas k_sql_parses = small_system_parses [OF known_sql(1) k_select_readable]

lemma k_sql_is_sql: "is_sql k_sql"
  by (simp add: is_sql_def k_sql_def backslash_def)

lemma sql_parsed: "parsed_as (small_system terminal) k_sql (SelectStatement k_select)"
  "parsed_as (small_system terminal) create_sql (CreateTableStatement create_n)"
  "parsed_as (small_system terminal) insert_sql (InsertStatement insert_n)"
proof -
  show "parsed_as (small_system terminal) k_sql (SelectStatement k_select)" by (simp add: parsed_as_def k_sql_is_sql k_sql_parses)
  show "parsed_as (small_system terminal) create_sql (CreateTableStatement create_n)"
    using small_system_parses [OF known_sql(2)] by (simp add: parsed_as_def is_sql_def create_sql_def backslash_def)
  show "parsed_as (small_system terminal) insert_sql (InsertStatement insert_n)"
    using small_system_parses [OF known_sql(3)] by (simp add: parsed_as_def is_sql_def insert_sql_def insert_n_def backslash_def)
qed

section \<open>An empty database\<close>

lemma stored_empty: "dm_inv dm \<Longrightarrow> enumerates order \<Longrightarrow> stored_database (MakeCatalog order dm) (\<lambda>_. []) no_tables"
  by (simp add: stored_database_def no_tables_def catalog_holds_def MakeCatalog_def tables_of_def EmptySchemaSection_def schema_inv_def schema_ok_def)

text \<open>While no table has rows, the metadata is the schema and an empty footer.\<close>

lemma no_rows_footer: "catalog_holds c (\<lambda>_. []) \<Longrightarrow> metadata_footer c = \<lparr>ft_row_groups = []\<rparr>"
  by (simp add: metadata_footer_def catalog_rows_groups)

lemma no_rows_fit:
  assumes "catalog_holds c (\<lambda>_. [])" "length (SchemaSection_Serialize (cat_schema c)) < 2 ^ 32"
    "length (dm_file (cat_disk c)) < 2 ^ 64" "next_free (cat_disk c) < 2 ^ 52"
  shows "metadata_fits c"
  using assms(2-4) by (simp add: metadata_fits_def no_rows_footer [OF assms(1)] kPageSizeBytes_def)

lemma no_rows_length: "length (CombineSchemaAndFooter s \<lparr>ft_row_groups = []\<rparr>) = 8 + length (SchemaSection_Serialize s)"
  by (simp add: CombineSchemaAndFooter_def Footer_Serialize_def Let_def)

lemma empty_schema_length: "length (SchemaSection_Serialize EmptySchemaSection) = 8"
  by (simp add: SchemaSection_Serialize_def EmptySchemaSection_def)

text \<open>A database file without tables.\<close>

lemma empty_database:
  obtains bytes cat where "open_catalog id complete_os (Some bytes) = Inr cat" "stored_database cat (\<lambda>_. []) no_tables"
    "cat_schema cat = EmptySchemaSection" "next_free (cat_disk cat) = 3" "length (dm_file (cat_disk cat)) = 12304"
proof -
  let ?c = "MakeCatalog id example_disk"
  have order: "enumerates id" by (simp add: enumerates_def)
  have stored: "stored_database ?c (\<lambda>_. []) no_tables" by (rule stored_empty [OF dm_inv_example_disk order])
  then have holds: "catalog_holds ?c (\<lambda>_. [])" by (simp add: stored_database_def)
  have parts: "cat_schema ?c = EmptySchemaSection" "next_free (cat_disk ?c) = 3" "length (dm_file (cat_disk ?c)) = 20"
    by (simp_all add: MakeCatalog_def example_disk_def example_header_def)
  have fits: "metadata_fits ?c" by (rule no_rows_fit [OF holds]) (simp_all add: parts empty_schema_length)
  show thesis
  proof (rule flush_stores [OF stored fits])
    fix c assume c: "stored_database c (\<lambda>_. []) no_tables" "cat_schema c = cat_schema ?c"
      "length (dm_file (cat_disk c)) = max (length (dm_file (cat_disk ?c))) (next_free (cat_disk ?c) * kPageSizeBytes) +
         length (CombineSchemaAndFooter (cat_schema ?c) (metadata_footer ?c))" "next_free (cat_disk c) = next_free (cat_disk ?c)"
      "\<And>order os. enumerates order \<Longrightarrow> reliable os \<Longrightarrow>
         Catalog_Open order os (Some (dm_file (cat_disk c))) = Inr (c\<lparr>cat_disk := (cat_disk c)\<lparr>dm_os := os\<rparr>, cat_order := order\<rparr>)"
    have "length (dm_file (cat_disk c)) = 12304"
      unfolding c(3) parts no_rows_footer [OF holds] no_rows_length empty_schema_length by (simp add: kPageSizeBytes_def)
    with c(2,4) show thesis
      by (intro that [of "dm_file (cat_disk c)", OF _ stored_database_opened [OF c(1) order reliable_complete_os]])
        (simp_all add: open_catalog_def c(5) [OF order reliable_complete_os] parts)
  qed
qed

section \<open>Three statements\<close>

definition n_entry :: TableSchemaEntry where
  "n_entry = \<lparr>ts_table_id = 0, ts_table_name = ''n'', ts_columns = number_columns\<rparr>"

definition n_schema :: SchemaSection where
  "n_schema = \<lparr>next_table_id = 1, ss_tables = [n_entry]\<rparr>"

definition n_empty :: database where
  "n_empty = add_table ''n'' number_columns no_tables"

lemma n_empty_simps: "db_schema n_empty = [n_entry]" "db_rows n_empty = (\<lambda>_. [])"
  by (simp_all add: n_empty_def add_table_def no_tables_def n_entry_def)

definition two_rows :: "cell list list" where
  "two_rows = [[(VInt 5, True)], [(VInt 7, True)]]"

definition two_inserts :: BoundInsert where
  "two_inserts = \<lparr>bi_table_id = 0, bi_rows = [[Some (ConstNode (VInt 5))], [Some (ConstNode (VInt 7))]]\<rparr>"

lemma n_schema_length: "length (SchemaSection_Serialize n_schema) = 31"
  by (simp add: SchemaSection_Serialize_def n_schema_def n_entry_def number_columns_def WriteTableSchema_def WriteColumnDef_def WriteString_def)

lemma n_schema_added:
  "cat_schema cat = EmptySchemaSection \<Longrightarrow> cat_schema (with_table ''n'' number_columns cat) = n_schema \<and>
    cat_disk (with_table ''n'' number_columns cat) = cat_disk cat"
  by (simp add: with_table_def ss_AddTable_def EmptySchemaSection_def n_schema_def n_entry_def Let_def)

lemma create_n_columns: "rmap bind_column_def (enumerate 0 (ct_columns create_n)) = Inr number_columns" "ct_table_name create_n = ''n''"
  by (simp_all add: create_n_def bind_column_def_def MapRawTypeName_def number_columns_def)

lemma n_creatable:
  assumes stored: "stored_database cat (\<lambda>_. []) no_tables" and cat: "cat_schema cat = EmptySchemaSection" "next_free (cat_disk cat) = 3"
    "length (dm_file (cat_disk cat)) = 12304"
  shows "creatable cat ''n'' number_columns"
proof -
  have holds: "catalog_holds cat (\<lambda>_. [])" using stored by (simp add: stored_database_def)
  then have none: "GetTable cat ''n'' = None" "map_of (cat_tables cat) ''n'' = None" "ss_tables (cat_schema cat) = []"
    by (simp_all add: GetTable_def catalog_holds_def tables_of_def cat(1) EmptySchemaSection_def)
  have cols: "string_ok ''n''" "length number_columns < 2 ^ 32" "list_all column_def_ok number_columns" "varchar_ordinals_low (map cd_type number_columns)"
    by (simp_all add: string_ok_def number_columns_def column_def_ok_def varchar_ordinals_low_def)
  have "catalog_holds (with_table ''n'' number_columns cat) ((\<lambda>_. [])(''n'' := []))"
    by (rule with_table_holds [OF holds none(2) cols(1-3)]) (simp add: none(3))
  then have new_holds: "catalog_holds (with_table ''n'' number_columns cat) (\<lambda>_. [])" by (simp add: fun_upd_idem)
  have "metadata_fits (with_table ''n'' number_columns cat)"
    by (rule no_rows_fit [OF new_holds]) (simp_all add: n_schema_added [OF cat(1)] n_schema_length cat(2,3))
  with none cols show ?thesis by (simp add: creatable_def number_columns_def)
qed

lemma small_create:
  assumes stored: "stored_database cat (\<lambda>_. []) no_tables" and cat: "cat_schema cat = EmptySchemaSection" "next_free (cat_disk cat) = 3"
    "length (dm_file (cat_disk cat)) = 12304"
  obtains cat' where "statement_means (small_system terminal) cat no_tables create_sql (created_text 0) n_empty"
    "BindCreateTable create_n cat = (Inr 0, cat')" "stored_database cat' (\<lambda>_. []) n_empty" "cat_schema cat' = n_schema"
    "next_free (cat_disk cat') = 3" "length (dm_file (cat_disk cat')) = 12343"
proof -
  let ?new = "with_table ''n'' number_columns cat"
  have id: "next_table_id (cat_schema cat) = 0" by (simp add: cat(1) EmptySchemaSection_def)
  note new = n_creatable [OF assms]
  show thesis
  proof (rule create_stores [OF stored create_n_columns(1), unfolded create_n_columns(2) id, OF new])
    fix cat' assume c: "BindCreateTable create_n cat = (Inr 0, cat')" "stored_database cat' ((\<lambda>_. [])(''n'' := [])) (add_table ''n'' number_columns no_tables)"
      "Flush ?new = (Inr (), cat')" "cat_schema cat' = cat_schema ?new" "next_free (cat_disk cat') = next_free (cat_disk cat)"
      "catalog_holds ?new ((\<lambda>_. [])(''n'' := []))"
    have stored': "stored_database cat' (\<lambda>_. []) n_empty" and holds: "catalog_holds ?new (\<lambda>_. [])"
      using c(2,6) by (simp_all add: fun_upd_idem n_empty_def)
    have "stored_database ?new (\<lambda>_. []) n_empty"
      using stored' holds c(4) stored_table_empty unfolding stored_database_def by (simp add: n_empty_simps)
    moreover have "metadata_fits ?new" using new by (simp add: creatable_def)
    ultimately have "length (dm_file (cat_disk cat')) = max (length (dm_file (cat_disk ?new))) (next_free (cat_disk ?new) * kPageSizeBytes) +
         length (CombineSchemaAndFooter (cat_schema ?new) (metadata_footer ?new))"
      by (rule flush_stores) (simp add: c(3))
    then have "length (dm_file (cat_disk cat')) = 12343"
      unfolding no_rows_footer [OF holds] no_rows_length
      by (simp add: n_schema_added [OF cat(1)] n_schema_length cat(2,3) kPageSizeBytes_def)
    moreover have "statement_means (small_system terminal) cat no_tables create_sql (created_text 0) n_empty"
      using statement_means.creates [OF sql_parsed(2) create_n_columns(1), where cat = cat and db = no_tables] new
      by (simp add: create_n_columns(2) n_empty_def no_tables_def)
    ultimately show thesis
      using that c(1,4,5) stored' n_schema_added [OF cat(1)] cat(2) by simp
  qed
qed

lemma n_table:
  assumes "stored_database cat G db" "cat_schema cat = n_schema"
  shows "GetTable cat ''n'' = Some (loaded_table n_entry (G ''n''))" "GetTableById cat 0 = Some (loaded_table n_entry (G ''n''))"
proof -
  have "catalog_holds cat G" using assms(1) by (simp add: stored_database_def)
  moreover have "n_entry \<in> set (ss_tables (cat_schema cat))" by (simp add: assms(2) n_schema_def)
  ultimately have holds: "catalog_holds cat G" "n_entry \<in> set (ss_tables (cat_schema cat))" .
  from GetTable_holds [OF this] GetTableById_holds [OF this]
  show "GetTable cat ''n'' = Some (loaded_table n_entry (G ''n''))" "GetTableById cat 0 = Some (loaded_table n_entry (G ''n''))"
    by (simp_all add: n_entry_def)
qed

lemma n_inserts:
  assumes "stored_database cat G db" "cat_schema cat = n_schema"
  shows "BindInsert insert_n cat = Inr two_inserts"
  by (simp add: BindInsert_def insert_n_def n_table(1) [OF assms] n_entry_def number_columns_def bind_insert_row_def bind_insert_value_def
      to_Column_def vec_at_def MakeIntConst_def two_inserts_def)

lemma two_inserts_fit:
  assumes "stored_database cat G db" "cat_schema cat = n_schema" "next_free (cat_disk cat) = 3"
  shows "insert_room (map cd_type (to_columns (loaded_table n_entry (G ''n'')))) (length (bi_rows two_inserts)) (cat_disk cat)"
    "new_rows two_inserts = two_rows" "bi_table_id two_inserts = 0" "distinct (in_columns insert_n)"
    "list_all (list_all (storable \<circ> fst)) (new_rows two_inserts)"
    "GetTableById cat (bi_table_id two_inserts) = Some (loaded_table n_entry (G ''n''))"
  using n_table(2) [OF assms(1,2)]
  by (simp_all add: insert_room_def n_entry_def number_columns_def two_inserts_def assms(3) kGroupPages_def kColumnPages_def
      kRowGroupSize_def new_rows_def two_rows_def insert_n_def)

lemma small_insert:
  assumes "stored_database cat G db" "cat_schema cat = n_schema" "next_free (cat_disk cat) = 3"
  shows "statement_means (small_system terminal) cat db insert_sql (inserted_text (small_system terminal) 2) (add_rows 0 two_rows db)"
  using statement_means.inserts [OF sql_parsed(3) two_inserts_fit(4) [OF assms] n_inserts [OF assms(1,2)] two_inserts_fit(5,6,1) [OF assms], where db = db]
    two_inserts_fit(2,3) [OF assms]
  by (simp add: two_inserts_def numeral_2_eq_2)

lemma small_insert_runs:
  assumes "stored_database cat G db" "cat_schema cat = n_schema" "next_free (cat_disk cat) = 3"
  obtains cat' G' where "run_executor two_inserts cat = (Inr (), cat')" "cat_schema cat' = n_schema"
    "stored_database cat' G' (add_rows 0 two_rows db)"
proof -
  note fit = two_inserts_fit [OF assms]
  obtain cat' G' where "run_executor two_inserts cat = (Inr (), cat')" "cat_schema cat' = cat_schema cat"
    "stored_database cat' G' (add_rows (bi_table_id two_inserts) (new_rows two_inserts) db)"
    by (rule run_executor_stores [OF assms(1) n_inserts [OF assms(1,2)] fit(4-6,1)])
  with fit(2,3) assms(2) that show thesis by simp
qed

lemma n_select_binds:
  assumes "stored_database cat G db" "cat_schema cat = n_schema"
  shows "BindSelect k_select cat = Inr (k_plan 0)"
  using k_select_binds_in [OF n_table(1) [OF assms]]
  by (simp add: n_entry_def loaded_table_def MakeTableObject_def number_columns_def emplace_def)

lemma small_select:
  assumes "stored_database cat G db" "cat_schema cat = n_schema"
  shows "statement_means (small_system terminal) cat db k_sql
    (rows_text (small_system terminal) [\<lparr>oc_display_name = ''k'', oc_type = etInteger\<rparr>] (plan_rows (db_rows db) (k_plan 0))) db"
  using statement_means.selects [OF sql_parsed(1) k_select_fine n_select_binds [OF assms] k_plan_runnable] by (simp add: k_plan_def)

lemma small_select_runs:
  assumes "serves d db" "cat_schema (dr_catalog d) = n_schema"
  obtains N pool where "\<forall>fuel \<ge> N. ExecuteStatement (small_system terminal) fuel k_sql d = (Inr (), d\<lparr>dr_pool := pool, dr_out := dr_out d @
      rows_text (small_system terminal) [\<lparr>oc_display_name = ''k'', oc_type = etInteger\<rparr>] (plan_rows (db_rows db) (k_plan 0))\<rparr>)"
proof -
  obtain G where "stored_database (dr_catalog d) G db" using assms(1) by (auto simp: serves_def)
  note binds = n_select_binds [OF this assms(2)]
  have "OutputSchema (k_plan 0) = Inr [\<lparr>oc_display_name = ''k'', oc_type = etInteger\<rparr>]" by (simp add: k_plan_def)
  from execute_select [OF assms(1) sql_parsed(1) k_select_fine binds k_plan_runnable this] that show thesis by blast
qed

text \<open>With its two rows the database can be closed.\<close>

lemma inserted_closable:
  assumes stored: "stored_database cat G n_empty" and cat: "cat_schema cat = n_schema" "length (dm_file (cat_disk cat)) = 12343"
    and run: "run_executor two_inserts cat = (Inr (), cat')" "cat_schema cat' = n_schema" "stored_database cat' G' (add_rows 0 two_rows n_empty)"
  shows "closable cat'"
proof (rule small_database_closable [OF run(3)])
  have "short_catalog (2 ^ 62) cat" by (simp add: short_file_def cat(2))
  from keepsD [OF keeps_run_executor this run(1)] show "length (dm_file (cat_disk cat')) \<le> 2 ^ 62"
    by (simp add: kFileLimit_def short_file_def)
  show "length (SchemaSection_Serialize (cat_schema cat')) < 2 ^ 32" by (simp add: run(2) n_schema_length)
  show "row_total (add_rows 0 two_rows n_empty) < 2 ^ 20"
    by (simp add: row_total_def add_rows_def n_empty_simps n_entry_def two_rows_def)
qed

text \<open>A driver over a database with an empty table, and one over the table with its two rows.\<close>

lemma created_driver:
  obtains d where "serves d n_empty" "cat_schema (dr_catalog d) = n_schema" "next_free (driver_disk d) = 3" "dr_out d = ''''"
proof -
  obtain bytes cat where start: "open_catalog id complete_os (Some bytes) = Inr cat" "stored_database cat (\<lambda>_. []) no_tables"
    "cat_schema cat = EmptySchemaSection" "next_free (cat_disk cat) = 3" "length (dm_file (cat_disk cat)) = 12304"
    by (rule empty_database)
  obtain cat1 where c: "stored_database cat1 (\<lambda>_. []) n_empty" "cat_schema cat1 = n_schema" "next_free (cat_disk cat1) = 3"
    by (rule small_create [OF start(2-5)])
  with fresh_driver_serves [OF c(1), of 2 "''''"] show thesis
    by (intro that [of "MakeDriver cat1 (MakeBufferPoolManager 2) ''''"]) (simp_all add: MakeDriver_def)
qed

lemma inserted_driver:
  obtains d db where "serves d db" "cat_schema (dr_catalog d) = n_schema" "db_rows db 0 = two_rows" "dr_out d = ''''"
proof -
  obtain d where d: "serves d n_empty" "cat_schema (dr_catalog d) = n_schema" "next_free (driver_disk d) = 3" by (rule created_driver)
  obtain G where stored: "stored_database (dr_catalog d) G n_empty" using d(1) by (auto simp: serves_def)
  obtain cat' G' where c: "run_executor two_inserts (dr_catalog d) = (Inr (), cat')" "cat_schema cat' = n_schema"
    "stored_database cat' G' (add_rows 0 two_rows n_empty)"
    by (rule small_insert_runs [OF stored d(2,3)])
  with fresh_driver_serves [OF c(3), of 2 "''''"] show thesis
    by (intro that [of "MakeDriver cat' (MakeBufferPoolManager 2) ''''" "add_rows 0 two_rows n_empty"])
      (simp_all add: MakeDriver_def add_rows_def n_empty_simps)
qed

end
