(* ===== verification/DriverProps.thy ===== *)
theory DriverProps
  imports ExampleSession
begin

text \<open>
  The main properties of the program, of the parser's translation, the driver and the read loop, each with
  a concrete instance where its hypotheses hold.
\<close>

section \<open>Parsing\<close>

text \<open>
  C8: translating the parse tree of a statement gives the statement back. For every statement
  whose expressions can be written in SQL, if the SQL parser returns the tree of that statement
  for a text and \<open>std::stod\<close> reads back the decimals in it, then parsing the text yields
  exactly that statement. The trees are those of the SQL parser's grammar: a chain of \<open>AND\<close> or
  \<open>OR\<close> of any length is one node with all its operands, and a type name may come with a schema
  before it. So no operand of a chain is lost or regrouped, the last of the names is the type,
  and operators, joins, select lists and values are neither reordered nor lost.
\<close>

theorem parsed_statement_roundtrip:
  assumes "pg sql = Inr (Some [stmt_tree show_double qualifier statement])" and "stmt_readable stod show_double statement"
  shows "ParseSingleStatement pg stod sql = Inr statement"
  using stmt_tree_converts [OF assms(2)] assms(1) by (simp add: ParseSingleStatement_def)

text \<open>The instances are a chain of three conditions, and a column of a built-in type.\<close>

definition above :: "int64 \<Rightarrow> RawExpression" where
  "above n = RawBinaryOp kGreaterThan (raw_column ''k'') (RawConst (IntLiteral n))"

definition above_tree :: "int32 \<Rightarrow> PgNode" where
  "above_tree n = NodeAExpr [NodeString ''>''] (Some (NodeColumnRef [NodeString ''k''])) (Some (NodeAConst False (ValIval n)))"

definition three_conditions :: SelectNode where
  "three_conditions = simple_select [item (raw_column ''k'')] [BaseTableRefNode ''n'' None]
     (Some (RawBinaryOp kAnd (RawBinaryOp kAnd (above 1) (above 2)) (above 3)))"

definition three_conditions_tree :: PgStmt where
  "three_conditions_tree = StmtSelect
     \<lparr>pg_target_list = [NodeResTarget '''' (Some (NodeColumnRef [NodeString ''k'']))], pg_from_clause = [NodeRangeVar ''n'' None],
      pg_where_clause = Some (NodeBoolExpr AND_EXPR [above_tree 1, above_tree 2, above_tree 3]), pg_group_clause = [],
      pg_having_clause = None, pg_n_distinct_clause = 0, pg_n_sort_clause = 0, pg_limit_count = False, pg_limit_offset = False,
      pg_with_clause = False, pg_set_operation = False, pg_values_lists = []\<rparr>"

definition create_n_tree :: PgStmt where
  "create_n_tree = StmtCreate \<lparr>pg_create_relation = Some ''n'',
     pg_table_elts = [NodeColumnDef ''k'' (Some [NodeString ''pg_catalog'', NodeString ''int4''])]\<rparr>"

theorem parsed_statement_roundtrip_witness:
  "ParseSingleStatement (\<lambda>_. Inr (Some [three_conditions_tree])) no_doubles k_sql = Inr (SelectStatement three_conditions) \<and>
   ParseSingleStatement (\<lambda>_. Inr (Some [create_n_tree])) no_doubles create_sql = Inr (CreateTableStatement create_n)"
proof
  have tree: "expr_tree (\<lambda>_. '''') (above n) = above_tree (word_of_int (sint n))" for n
    by (simp add: above_def above_tree_def IsLogicalOperator_def)
  have "make_bool AND_EXPR (make_bool AND_EXPR (above_tree a) (above_tree b)) (above_tree c) =
      NodeBoolExpr AND_EXPR [above_tree a, above_tree b, above_tree c]" for a b c
    by (simp add: above_tree_def)
  then have "stmt_tree (\<lambda>_. '''') pg_types (SelectStatement three_conditions) = three_conditions_tree"
    by (simp add: three_conditions_def three_conditions_tree_def simple_select_def select_tree_def item_tree_def tree IsLogicalOperator_def)
  moreover have "stmt_readable no_doubles (\<lambda>_. '''') (SelectStatement three_conditions)"
    by (simp add: three_conditions_def simple_select_def item_readable_def clause_readable_def above_def)
  ultimately show "ParseSingleStatement (\<lambda>_. Inr (Some [three_conditions_tree])) no_doubles k_sql = Inr (SelectStatement three_conditions)"
    by (intro parsed_statement_roundtrip) simp_all
  have "stmt_tree (\<lambda>_. '''') pg_types (CreateTableStatement create_n) = create_n_tree"
    by (simp add: create_n_def create_n_tree_def type_tree_def pg_types_def)
  then show "ParseSingleStatement (\<lambda>_. Inr (Some [create_n_tree])) no_doubles create_sql = Inr (CreateTableStatement create_n)"
    by (intro parsed_statement_roundtrip [where show_double = "\<lambda>_. ''''" and qualifier = pg_types]) simp_all
qed

section \<open>The program\<close>

text \<open>
  C1: a run of the program does what the statements of its input mean. Let it open a file that
  stores a database (or a new one), let the input be a script, a pipe of complete lines without
  the words \<open>quit\<close>, \<open>exit\<close> and \<open>help\<close>, and let every statement have a meaning in the state that
  the ones before it lead to. The program ends with status 0 and no error output; its output is
  the texts of the statements in order; and whoever opens the file that it leaves, with any hash
  order and operating system that reads and writes what it is asked to, gets a catalog that
  stores the database that the statements mean: exactly its tables with their names and columns,
  and in each table exactly its rows, in order. The lengths of the metadata must fit the file
  format when the program ends.
\<close>

theorem program_runs_script:
  assumes "open_catalog order os (files path) = Inr cat" "stored_database cat G db"
    and "\<not> con_interactive con" "list_all plain_line lines"
    and "statements_mean sys (se_driver (start_session cat [])) db (statements_of (script_text '''' lines)) out d db'"
    and "closable (dr_catalog d)"
  shows "\<exists>N disk. (\<forall>fuel \<ge> N. main_program sys con fuel order os files [program, path] (script_input lines) =
      Inr \<lparr>ex_status = 0, ex_out = out, ex_err = '''', ex_disk = Some disk\<rparr>) \<and>
    (\<forall>order os. enumerates order \<longrightarrow> reliable os \<longrightarrow>
      (\<exists>cat G. Catalog_Open order os (Some (dm_file disk)) = Inr cat \<and> stored_database cat G db'))"
  using assms by (rule program_run)

definition pipe :: console where
  "pipe = \<lparr>con_interactive = False, con_pending = \<lambda>_. False\<rparr>"

definition three_statements :: "string list" where
  "three_statements = [''CREATE TABLE n (k INTEGER);'', ''INSERT INTO n VALUES (5), (7);'', ''SELECT k FROM n WHERE k > 6;'']"

lemma three_statements: "list_all plain_line three_statements"
  "statements_of (script_text '''' three_statements) = [create_sql, insert_sql, k_sql]"
proof -
  show "list_all plain_line three_statements"
    by (simp add: three_statements_def plain_line_def command_of_def Trim_def strip_end_def blanks_def tab_def newline_def tolower_def char_of_def)
  show "statements_of (script_text '''' three_statements) = [create_sql, insert_sql, k_sql]"
    by (simp add: three_statements_def script_text_def statements_of.simps [of "CHR 0x0A # x" for x] statements_of.simps [of "[]"]
        until_semicolon_def after_semicolon_def newline_def Trim_def strip_end_def blanks_def tab_def create_sql_def insert_sql_def k_sql_def)
qed

lemma seven_text: "rows_text (small_system False) [\<lparr>oc_display_name = ''k'', oc_type = etInteger\<rparr>] [[(VInt 7, True)]] =
    ''k'' @ newline @ ''7'' @ newline @ ''(1 row returned in 0.000s)'' @ newline"
  by (simp add: rows_text_def header_text_def row_text_def footer_text_def digits small_system_def zero_seconds)

lemma two_inserted_text: "inserted_text (small_system False) 2 = ''2 row(s) inserted (0.000s)'' @ newline"
  by (simp add: inserted_text_def small_system_def zero_seconds digits)

text \<open>What the three statements mean, from a driver over an empty database on.\<close>

definition session_text :: string where
  "session_text = created_text 0 @ ''2 row(s) inserted (0.000s)'' @ newline @ ''k'' @ newline @ ''7'' @ newline @
     ''(1 row returned in 0.000s)'' @ newline"

lemma three_statements_mean:
  assumes d: "serves d no_tables" and cat: "stored_database (dr_catalog d) (\<lambda>_. []) no_tables" "cat_schema (dr_catalog d) = EmptySchemaSection"
    "next_free (driver_disk d) = 3" "length (dm_file (driver_disk d)) = 12304"
  obtains d' where "statements_mean (small_system False) d no_tables [create_sql, insert_sql, k_sql] session_text d' (add_rows 0 two_rows n_empty)"
    "closable (dr_catalog d')"
proof -
  let ?sys = "small_system False" and ?db = "add_rows 0 two_rows n_empty"
  obtain cat1 where c1: "statement_means ?sys (dr_catalog d) no_tables create_sql (created_text 0) n_empty" "BindCreateTable create_n (dr_catalog d) = (Inr 0, cat1)"
    "stored_database cat1 (\<lambda>_. []) n_empty" "cat_schema cat1 = n_schema" "next_free (cat_disk cat1) = 3" "length (dm_file (cat_disk cat1)) = 12343"
    by (rule small_create [OF cat])
  obtain cat2 G where c2: "run_executor two_inserts cat1 = (Inr (), cat2)" "cat_schema cat2 = n_schema" "stored_database cat2 G ?db"
    by (rule small_insert_runs [OF c1(3-5)])
  define d1 where "d1 = d\<lparr>dr_catalog := cat1, dr_out := dr_out d @ created_text 0\<rparr>"
  define d2 where "d2 = d1\<lparr>dr_catalog := cat2, dr_out := dr_out d1 @ inserted_text ?sys 2\<rparr>"
  have run1: "\<forall>fuel \<ge> 0. ExecuteStatement ?sys fuel create_sql d = (Inr (), d1)"
    using execute_create [OF sql_parsed(2), of d 0 cat1] c1(2) by (simp add: d1_def)
  have d1: "dr_catalog d1 = cat1" "serves d1 n_empty" using statement_reaches [OF d c1(1) run1] by (simp_all add: d1_def)
  have m2: "statement_means ?sys (dr_catalog d1) n_empty insert_sql (inserted_text ?sys 2) ?db"
    unfolding d1(1) by (rule small_insert [OF c1(3-5)])
  have "BindInsert insert_n (dr_catalog d1) = Inr two_inserts" unfolding d1(1) by (rule n_inserts [OF c1(3,4)])
  then have run2: "\<forall>fuel \<ge> 0. ExecuteStatement ?sys fuel insert_sql d1 = (Inr (), d2)"
    using execute_insert [OF sql_parsed(3), of d1 two_inserts cat2] c2(1) by (simp add: d1(1) d2_def two_inserts_def numeral_2_eq_2)
  have d2: "dr_catalog d2 = cat2" "serves d2 ?db" using statement_reaches [OF d1(2) m2 run2] by (simp_all add: d2_def)
  have rows: "plan_rows (db_rows ?db) (k_plan 0) = [[(VInt 7, True)]]"
    by (rule k_plan_rows_in) (simp add: add_rows_def n_empty_simps two_rows_def)
  have m3: "statement_means ?sys (dr_catalog d2) ?db k_sql (''k'' @ newline @ ''7'' @ newline @ ''(1 row returned in 0.000s)'' @ newline) ?db"
    using small_select [OF c2(3,2), of False] unfolding rows seven_text d2(1) .
  obtain N pool where run3: "\<forall>fuel \<ge> N. ExecuteStatement ?sys fuel k_sql d2 = (Inr (), d2\<lparr>dr_pool := pool, dr_out := dr_out d2 @
      ''k'' @ newline @ ''7'' @ newline @ ''(1 row returned in 0.000s)'' @ newline\<rparr>)"
    using small_select_runs [OF d2(2), of False] c2(2) unfolding rows seven_text d2(1) by blast
  note means = statements_mean.next_statement [OF c1(1) run1 statements_mean.next_statement [OF m2 run2
    statements_mean.next_statement [OF m3 run3 statements_mean.no_statement]]]
  show thesis
  proof (rule that)
    show "statements_mean ?sys d no_tables [create_sql, insert_sql, k_sql] session_text
        (d2\<lparr>dr_pool := pool, dr_out := dr_out d2 @ ''k'' @ newline @ ''7'' @ newline @ ''(1 row returned in 0.000s)'' @ newline\<rparr>) ?db"
      using means by (simp add: session_text_def two_inserted_text)
    show "closable (dr_catalog (d2\<lparr>dr_pool := pool, dr_out := dr_out d2 @ ''k'' @ newline @ ''7'' @ newline @ ''(1 row returned in 0.000s)'' @ newline\<rparr>))"
      using inserted_closable [OF c1(3,4,6) c2] by (simp add: d2(1))
  qed
qed

theorem program_runs_script_witness:
  "\<exists>bytes N disk. (\<forall>fuel \<ge> N. main_program (small_system False) pipe fuel id complete_os (\<lambda>_. Some bytes) [''gistdb'', ''n.db'']
      (script_input three_statements) = Inr \<lparr>ex_status = 0, ex_out = session_text, ex_err = '''', ex_disk = Some disk\<rparr>) \<and>
    (\<exists>cat G db. Catalog_Open rev complete_os (Some (dm_file disk)) = Inr cat \<and> stored_database cat G db \<and>
       db_schema db = [\<lparr>ts_table_id = 0, ts_table_name = ''n'', ts_columns = [\<lparr>cd_name = ''k'', cd_type = kInteger, cd_ordinal = 0\<rparr>]\<rparr>] \<and>
       db_rows db 0 = [[(VInt 5, True)], [(VInt 7, True)]])"
proof -
  obtain bytes cat where start: "open_catalog id complete_os (Some bytes) = Inr cat" "stored_database cat (\<lambda>_. []) no_tables"
    "cat_schema cat = EmptySchemaSection" "next_free (cat_disk cat) = 3" "length (dm_file (cat_disk cat)) = 12304"
    by (rule empty_database)
  let ?sys = "small_system False" and ?d = "se_driver (start_session cat [])" and ?db = "add_rows 0 two_rows n_empty"
  have d: "dr_catalog ?d = cat" by (simp add: start_session_def MakeDriver_def)
  have "serves ?d no_tables"
    using fresh_driver_serves [OF start(2), of kDefaultBufferPoolFrames] by (simp add: start_session_def kDefaultBufferPoolFrames_def)
  then obtain d' where m: "statements_mean ?sys ?d no_tables [create_sql, insert_sql, k_sql] session_text d' ?db" "closable (dr_catalog d')"
    by (rule three_statements_mean) (use start d in simp_all)
  obtain N disk where run: "\<forall>fuel \<ge> N. main_program ?sys pipe fuel id complete_os (\<lambda>_. Some bytes) [''gistdb'', ''n.db''] (script_input three_statements) =
      Inr \<lparr>ex_status = 0, ex_out = session_text, ex_err = '''', ex_disk = Some disk\<rparr>"
    "\<forall>order os. enumerates order \<longrightarrow> reliable os \<longrightarrow>
      (\<exists>cat G. Catalog_Open order os (Some (dm_file disk)) = Inr cat \<and> stored_database cat G ?db)"
    using program_runs_script [where files = "\<lambda>_. Some bytes" and path = "''n.db''" and con = pipe, OF start(1,2) _ three_statements(1) _ m(2),
        of ?sys session_text ?db "''gistdb''"] m(1)
    by (auto simp: three_statements(2) pipe_def)
  have "enumerates rev" by (simp add: enumerates_def)
  with run(2) reliable_complete_os obtain cat' G where c: "Catalog_Open rev complete_os (Some (dm_file disk)) = Inr cat'" "stored_database cat' G ?db"
    by blast
  have "db_schema ?db = [\<lparr>ts_table_id = 0, ts_table_name = ''n'', ts_columns = [\<lparr>cd_name = ''k'', cd_type = kInteger, cd_ordinal = 0\<rparr>]\<rparr>]"
    "db_rows ?db 0 = [[(VInt 5, True)], [(VInt 7, True)]]"
    by (simp_all add: add_rows_def n_empty_simps n_entry_def number_columns_def two_rows_def)
  with run(1) c show ?thesis by blast
qed

text \<open>
  C2: the driver implements the meaning of each statement. A driver serves a database when its
  catalog has exactly the tables of the database, with their names, columns and identifiers,
  the rows of each are stored in the pages of its file, and its buffer pool agrees with these
  pages and holds no pin. Executing a statement that has a meaning for that database then ends
  without error, prints the text the statement means, and the driver serves the database
  that it means: a \<open>SELECT\<close> prints its rows, an \<open>INSERT\<close> adds its rows at the end of one table,
  a \<open>CREATE TABLE\<close> adds the table with its name and columns, without rows, behind the others,
  and a statement that is not well-formed or that the binder rejects prints its error and
  leaves the database as it was. So an insert never invalidates what the pool has cached, and
  a later query sees the rows.
\<close>

theorem statement_refines:
  assumes "serves d db" and "statement_means sys (dr_catalog d) db sql out db'"
  shows "\<exists>N d'. (\<forall>fuel \<ge> N. ExecuteStatement sys fuel sql d = (Inr (), d')) \<and> dr_out d' = dr_out d @ out \<and> serves d' db'"
  by (rule statement_implemented [OF assms])

theorem statement_refines_witness:
  "\<exists>d N d' db. (\<forall>fuel \<ge> N. ExecuteStatement (small_system False) fuel insert_sql d = (Inr (), d')) \<and>
     dr_out d' = ''2 row(s) inserted (0.000s)'' @ newline \<and> serves d' db \<and> db_schema db = [n_entry] \<and>
     db_rows db = (\<lambda>_. [])(0 := [[(VInt 5, True)], [(VInt 7, True)]])"
proof -
  obtain d where d: "serves d n_empty" "cat_schema (dr_catalog d) = n_schema" "next_free (driver_disk d) = 3" "dr_out d = ''''"
    by (rule created_driver)
  then obtain G where "stored_database (dr_catalog d) G n_empty" by (auto simp: serves_def)
  from statement_refines [OF d(1) small_insert [OF this d(2,3), where terminal = False]] d(4) obtain N d' where
    run: "\<forall>fuel \<ge> N. ExecuteStatement (small_system False) fuel insert_sql d = (Inr (), d')"
    "dr_out d' = ''2 row(s) inserted (0.000s)'' @ newline" "serves d' (add_rows 0 two_rows n_empty)"
    by (auto simp: two_inserted_text)
  then show ?thesis
    by (intro exI [of _ d] exI [of _ N] exI [of _ d'] exI [of _ "add_rows 0 two_rows n_empty"])
      (simp add: add_rows_def n_empty_simps two_rows_def)
qed

section \<open>The driver\<close>

text \<open>
  A \<open>SELECT\<close> statement prints the rows it denotes. Let the tables of the catalog be stored in
  the file. If the text parses to a \<open>SELECT\<close> that the binder accepts, and the plan avoids what
  the binder leaves unchecked, then executing it ends without error and appends to the output
  the header, every row of the plan's meaning in order, and the footer with their number, as a
  table on a terminal and tab-separated otherwise. Nothing else changes but the cached pages,
  and the driver is ready for the next statement. One amount of fuel is enough.
\<close>

theorem select_prints_its_rows:
  assumes "driver_ready d" "database_ok (dr_catalog d) (dm_page (allocated (driver_disk d))) db"
    and "is_sql sql" "ParseSingleStatement (sys_parse sys) (sys_stod sys) sql = Inr (SelectStatement select)"
    and "statement_fine select" "BindSelect select (dr_catalog d) = Inr plan"
    and "plan_runnable plan" "narrow plan" "plan_fits db plan"
  shows "\<exists>N pool schema. OutputSchema plan = Inr schema \<and> driver_ready (d\<lparr>dr_pool := pool\<rparr>) \<and>
    (\<forall>fuel \<ge> N. ExecuteStatement sys fuel sql d =
      (Inr (), d\<lparr>dr_pool := pool, dr_out := dr_out d @ rows_text sys schema (plan_rows db plan)\<rparr>))"
  by (rule select_printed [OF assms])

theorem select_prints_its_rows_witness:
  "\<exists>d N pool. \<forall>fuel \<ge> N. ExecuteStatement (small_system False) fuel k_sql d =
     (Inr (), d\<lparr>dr_pool := pool, dr_out := dr_out d @ ''k'' @ newline @ ''7'' @ newline @ ''(1 row returned in 0.000s)'' @ newline\<rparr>)"
proof -
  obtain d db where d: "serves d db" "cat_schema (dr_catalog d) = n_schema" "db_rows db 0 = two_rows" by (rule inserted_driver)
  then obtain G where ready: "driver_ready d" and stored: "stored_database (dr_catalog d) G db" by (auto simp: serves_def)
  have "plan_rows (db_rows db) (k_plan 0) = [[(VInt 7, True)]]" using d(3) by (intro k_plan_rows_in) (simp add: two_rows_def)
  moreover have "OutputSchema (k_plan 0) = Inr [\<lparr>oc_display_name = ''k'', oc_type = etInteger\<rparr>]" by (simp add: k_plan_def)
  ultimately show ?thesis
    using select_prints_its_rows [OF ready stored_database_ok [OF stored] k_sql_is_sql k_sql_parses [of False] k_select_fine
      n_select_binds [OF stored d(2)] k_plan_runnable] seven_text
    by (intro exI [of _ d]) auto
qed

text \<open>
  C5: a \<open>SELECT\<close> changes neither the catalog nor the file. Whatever statement parses to a
  \<open>SELECT\<close>, whether it is bound or rejected, runs, fails half-way or is stopped, afterwards
  the catalog with its tables and its file is what it was, and no cached page is dirty.
\<close>

theorem select_is_read_only:
  assumes "ParseSingleStatement (sys_parse sys) (sys_stod sys) sql = Inr (SelectStatement select)"
    and "clean_pool (cat_disk (dr_catalog d)) (driver_pool d)" and "ExecuteStatement sys fuel sql d = (res, d')"
  shows "dr_catalog d' = dr_catalog d \<and> clean_pool (cat_disk (dr_catalog d)) (driver_pool d')"
  using keepsD [OF keeps_select_statement [OF assms(1)], of "dr_catalog d" d] assms(2,3) by (simp add: at_catalog_def)

theorem select_is_read_only_witness:
  "\<exists>d. let d' = snd (ExecuteStatement (small_system True) 5 k_sql d) in
     dr_catalog d' = dr_catalog d \<and> clean_pool (cat_disk (dr_catalog d)) (driver_pool d')"
proof -
  define d where "d = MakeDriver ab_catalog (MakeBufferPoolManager 2) ''''"
  have "clean_pool (cat_disk (dr_catalog d)) (driver_pool d)"
    by (simp add: d_def MakeDriver_def driver_pool_def clean_pool_def MakeBufferPoolManager_def empty_frame_def list_all_iff)
  moreover obtain res d' where run: "ExecuteStatement (small_system True) 5 k_sql d = (res, d')" by fastforce
  ultimately show ?thesis
    using select_is_read_only [OF k_sql_parses [of True] _ run] by (intro exI [of _ d]) (simp only: Let_def run snd_conv)
qed

text \<open>
  C6: no exception leaves \<open>ExecuteStatement\<close>. For every input, meta commands included, and
  every state of the driver, an outcome that is not normal is never an exception of the
  program: all of them have become error lines, and only undefined behaviour and the limit on
  fuel remain.
\<close>

theorem no_exception_escapes:
  "case ExecuteStatement sys fuel sql d of (Inl e, d') \<Rightarrow> what e = None | (Inr _, d') \<Rightarrow> True"
  using silent_ExecuteStatement [of sys fuel sql] by (auto simp: silent_def split: prod.split sum.split)

section \<open>The read loop\<close>

text \<open>
  C7: a script runs the statements of its text. Let the input be a pipe of complete lines, none
  of which is \<open>quit\<close>, \<open>exit\<close> or \<open>help\<close>. The read loop ends, and it does what executing one after
  the other the non-empty pieces of the whole text before its semicolons does, white space
  around them removed: it makes no difference where the text is broken into lines, and what
  follows the last semicolon is not executed.
\<close>

theorem script_runs_its_statements:
  assumes "\<not> con_interactive con" and "list_all plain_line lines"
    and "seach (ExecuteStatement sys fuel) (statements_of (script_text '''' lines)) (se_driver (start_session catalog [])) = (res, d)"
  shows "\<exists>s. main_loop sys con fuel (start_session catalog (script_input lines)) = (res, s) \<and> se_driver s = d"
  using main_loop_script [OF assms(1,2), of "start_session catalog (script_input lines)" sys fuel res d] assms(3)
  by (auto simp: start_session_def)

lemma three_lines: "list_all plain_line [''a'', ''b; c;'', ''d'']"
  "statements_of (script_text '''' [''a'', ''b; c;'', ''d'']) = [''a'' @ newline @ ''b'', ''c'']"
proof -
  show "list_all plain_line [''a'', ''b; c;'', ''d'']"
    by (simp add: plain_line_def command_of_def Trim_def strip_end_def blanks_def tab_def newline_def tolower_def char_of_def)
  show "statements_of (script_text '''' [''a'', ''b; c;'', ''d'']) = [''a'' @ newline @ ''b'', ''c'']"
    by (simp add: script_text_def statements_of.simps [of "CHR 0x0A # x" for x] statements_of.simps [of "CHR '' '' # x" for x]
        until_semicolon_def after_semicolon_def newline_def Trim_def strip_end_def blanks_def tab_def)
qed

theorem script_runs_its_statements_witness:
  "\<exists>s. main_loop (small_system False) pipe 9 (start_session ab_catalog (script_input [''a'', ''b; c;'', ''d''])) =
      (fst (seach (ExecuteStatement (small_system False) 9) [''a'' @ newline @ ''b'', ''c''] (se_driver (start_session ab_catalog []))), s) \<and>
     se_driver s = snd (seach (ExecuteStatement (small_system False) 9) [''a'' @ newline @ ''b'', ''c''] (se_driver (start_session ab_catalog [])))"
  by (rule script_runs_its_statements) (simp add: pipe_def, rule three_lines(1), simp only: three_lines(2) prod.collapse)

text \<open>
  White space after the last semicolon of a line stays in the buffer, and the shell takes no
  command while the buffer is not empty: after such a line \<open>quit\<close> is not obeyed.
\<close>

theorem quit_after_space_ignored:
  "se_buffer s = '' '' \<Longrightarrow> \<not> con_interactive con \<Longrightarrow>
   handle_line sys con fuel ''quit'' s = (Inr True, s\<lparr>se_buffer := '' '' @ newline @ ''quit''\<rparr>)"
  by (simp add: handle_line_def add_line_def run_statements.simps maybe_print_prompt_def newline_def sbind_def Let_def)

end
