(* ===== verification/Spec2Isabelle.thy ===== *)
theory Spec2Isabelle
  imports OperatorProps DriverProps
begin

text \<open>
  \<^bold>\<open>Verification of GistDB, a small columnar SQL database.\<close>

  \<^bold>\<open>The program.\<close> GistDB (\<open>src/src\<close>, \<open>src/include/gistdb\<close>) reads SQL statements from the standard
  input and runs them against one database file. A statement goes through these parts: the read
  loop of \<open>main.cpp\<close> cuts the input at semicolons; the driver (\<open>cli/driver\<close>) has it parsed
  (\<open>binder/parser\<close>, over the external parser libpg\_query), bound against the catalog
  (\<open>binder/binder\<close>, \<open>resolution\<close>, \<open>type_coercion\<close>), and executes it. A \<open>SELECT\<close> becomes a logical
  plan, which the optimizer rewrites (predicate pushdown, column pruning) and translates into a
  tree of operators that pull chunks of rows from each other; the scans at the leaves read pages
  through the buffer pool. An \<open>INSERT\<close> stages rows and writes them as row groups of pages straight
  through the disk manager, with statistics (zone maps) that the scans use to skip row groups. The
  catalog keeps schemas and row group entries in memory and writes them as one metadata blob.

  \<^bold>\<open>Modelling.\<close> A class is a record or a datatype, a method a function of the same name (a prefix
  such as \<open>dc_\<close> or \<open>cat_\<close> tells methods of the same name apart, and \<open>MakeX\<close> is the constructor
  of \<open>X\<close>). Code that changes an object is an action: a function from the state to a result and the
  state afterwards, also when it throws. A result is \<open>Inl\<close> an error or \<open>Inr\<close> a value; the type
  \<open>error\<close> has a constructor per exception class, \<open>UndefinedBehaviour\<close> for reads out of range, null
  pointers and signed overflow, which are error values here and never silently defined, and
  \<open>OutOfFuel\<close>. Integers are words of their width, floats are their IEEE-754 bit patterns with the
  arithmetic spelled out (\<open>Floats\<close>), strings are lists of bytes as characters. A unique pointer to a
  node is the node; an object that another one refers to is part of the state both work on. The
  theories of the model import each other as the modules of the program do.

  \<^item> \<open>Prelude\<close>: results, actions, the error type, shared lemmas, and \<open>keeps\<close>, preservation of a
    property of the state by an action.
  \<^item> Storage. \<open>ByteIO\<close> (\<open>serialization/byte_io\<close>), \<open>Bitmap\<close> (\<open>validity_bitmap\<close>), \<open>Columns\<close>
    (\<open>fixed_width_column\<close>, \<open>varchar_column\<close>), \<open>ZoneMaps\<close> (\<open>zone_map\<close>, \<open>column_footer_entry\<close>,
    \<open>row_group_footer_entry\<close>), \<open>FooterFormat\<close> (\<open>footer\<close>), \<open>Disk\<close> (\<open>file_header\<close>,
    \<open>disk_manager\<close>), \<open>Replacer\<close>, \<open>BufferPool\<close>, \<open>Schema\<close> (\<open>schema_section\<close>, \<open>table_object\<close>),
    \<open>Catalog\<close>. Shown: every format is read back as it was written; the bitmap, the columns, the
    replacer and the pool refine lists of bits, lists of cells, a list ordered by recency, and a
    page map; a flushed catalog is the same after reopening. Properties: \<open>StorageProps\<close>, \<open>Catalog\<close>.
  \<^item> Execution. \<open>Chunk\<close> (\<open>data_chunk\<close>), \<open>Expressions\<close> (\<open>bound_expression\<close>, \<open>expression_evaluator\<close>),
    \<open>Operators\<close> (filter, projection), \<open>Insert\<close> (\<open>insert_executor\<close>), \<open>SeqScan\<close>, \<open>HashJoin\<close>,
    \<open>Aggregation\<close> with their theorems in \<open>ScanCorrect\<close>, \<open>Pipeline\<close>, \<open>HashJoinCorrect\<close> and
    \<open>AggregationCorrect\<close>. Shown: the column-wise evaluator is the row-wise semantics; what an insert
    stores, a scan returns; skipping row groups is invisible; join and aggregation compute the
    equi-join and the grouping of the rows their children return, however these are cut into
    chunks. Properties: \<open>ExecProps\<close>, \<open>OperatorProps\<close>.
  \<^item> Planning. \<open>LogicalPlan\<close>, \<open>Optimizer\<close> (pushdown, pruning, translation, and running a tree),
    \<open>PlanSemantics\<close> (the reference meaning: a plan denotes a list of environments, and rows at its
    projection), \<open>PushdownCorrect\<close>, \<open>PruningCorrect\<close>, \<open>OperatorTree\<close>, \<open>QueryCorrect\<close>. Shown: each
    rewriting keeps the meaning, and the operator tree returns exactly the rows of the plan.
    Properties: \<open>QueryProps\<close>.
  \<^item> Binding. \<open>Ast\<close>, \<open>Resolution\<close>, \<open>TypeCoercion\<close>, \<open>Binder\<close>, with \<open>DisjointSets\<close>, \<open>FromCorrect\<close>,
    \<open>SelectCorrect\<close>, \<open>InsertBinding\<close>. Shown: in the plan of an accepted \<open>SELECT\<close> every reference is
    one to the tables in scope and every operator and aggregate has operands of its types
    (\<open>plan_bound\<close>), the disjoint sets compute connected components, a comma list is joined from
    left to right. Also shown are two ways in which a condition is lost or misplaced: a further
    equality between two items of a comma list, and a constant \<open>HAVING\<close> without \<open>GROUP BY\<close>.
    Properties: \<open>BinderProps\<close>.
  \<^item> Front end. \<open>Parser\<close> (translation of parse trees; and \<open>stmt_tree\<close>, the tree that the SQL parser's
    grammar gives a statement, with chains of \<open>AND\<close> and \<open>OR\<close> flattened and type names qualified by
    any schema, which the translation inverts), \<open>OutputFormatter\<close>, \<open>Driver\<close>, \<open>Main_Program\<close> (\<open>main.cpp\<close>), with \<open>ReadOnly\<close> (queries
    write nothing), \<open>DriverCorrect\<close> (a \<open>SELECT\<close> prints the rows its plan denotes, no exception
    leaves the driver) and \<open>MainCorrect\<close> (the read loop executes the statements of its whole input).
  \<^item> The whole. \<open>DiskGrowth\<close>: inserts and flushes write behind the allocated pages, past the buffer
    pool; a query over the allocated pages runs the same when the file goes on behind them, and
    what the pool has cached stays right when the file grows. \<open>Session\<close>: the abstract
    specification, a \<open>database\<close> as a list of tables with names and columns and the rows of each, and
    \<open>statement_means\<close>, what a statement prints and leaves. \<open>stored_database\<close> says that a catalog has
    exactly these tables and its file exactly these rows; \<open>serves\<close> relates a database to the driver,
    the catalog, the file and the pool, and every statement is shown to keep this relation.
    \<open>FileGrowth\<close>: bounds on the length of the file and of the metadata. \<open>ProgramCorrect\<close>: a run of the
    program over a script prints what its statements mean, and the file it leaves can be opened
    again and holds the database they mean. \<open>ExampleSession\<close>: a new file, \<open>CREATE TABLE\<close>, an \<open>INSERT\<close>
    of two rows and a query over them, as instances of the hypotheses. Properties: \<open>DriverProps\<close>.

  \<^bold>\<open>Interfaces.\<close> What a component promises to its clients is a locale that is interpreted on the
  model: \<open>codec\<close> (formats), \<open>bit_vector\<close>, \<open>column_store\<close>, \<open>strict_order\<close>, \<open>scalar_order\<close> and
  \<open>comparison\<close> (zone maps), \<open>replacement_policy\<close>, \<open>page_cache\<close> (the pool), \<open>row_operator\<close> and
  \<open>row_consumer\<close> (operators and loops over the rows of a child, the printing loops included), and
  \<open>disjoint_sets\<close>.

  \<^bold>\<open>Loops and fuel.\<close> Recursion is structural or has a termination proof (the inner loops of scan and
  join, the statement loop and the read loop of \<open>main\<close>). Fuel bounds only the loops over the chunks
  of an operator, whose end depends on the operator: hash join, aggregation and the driver take
  one fuel for the whole tree. The theorems show that some amount is enough and that more does not
  change the run. The loop of \<open>DisjointSet::Find\<close> takes the number of elements as fuel, which is
  shown to be enough.

  \<^bold>\<open>Parameters.\<close> The SQL parser and \<open>std::stod\<close>; the operating system's \<open>open\<close>, \<open>pread\<close> and
  \<open>pwrite\<close>, which may transfer less than asked (theorems assume a reliable one); the enumeration
  order of the catalog's hash table; the clock; whether standard input and output are terminals;
  the outcomes of \<open>read\<close> and the arrival of signals.

  \<^bold>\<open>Hypotheses.\<close> \<open>statement_fine\<close> and \<open>narrow\<close> collect what the binder does not check in a
  statement: predicates are no operands of comparisons and arithmetic, and the number of columns
  and tables is below the width of their identifiers. \<open>plan_runnable\<close>, which only the theorems
  about running a plan assume, is what the engine relies on beyond that: integer arithmetic is in
  range, a literal has the type of the column it is compared with, join keys are of equal type
  (the binder does not compare their types), \<open>HAVING\<close> is over grouping columns and no predicate
  is selected. \<open>plan_fits\<close> and \<open>light\<close> bound the size
  of values so that 32-bit offsets do not wrap. \<open>varchar_ordinals_low\<close> is the limit of the scan that
  \<open>OperatorProps.varchar_validity_out_of_bounds\<close> shows of the code that reads a vector. Values are no NaN where zone maps are used.
  \<open>storable\<close> and \<open>row_ok\<close> exclude empty strings, of which a whole row group cannot be written
  (\<open>OperatorProps.empty_region_refused\<close>), and strings of \<open>2 ^ 17\<close> characters or more. \<open>insert_room\<close>, \<open>creatable\<close>, \<open>metadata_fits\<close> and \<open>closable\<close>
  say that page numbers, lengths and offsets fit their fields of 32 and 64 bits.

  \<^bold>\<open>Not modelled.\<close> The external SQL parser (its trees are an input), the installation of the signal
  handler and the flags of the terminal, logging of measured times, memory management, and the
  tests and benchmarks of the repository. A chunk holds its columns instead of pointers into its
  producer, so the lifetime of those pointers is not modelled. The target is little-endian, and a
  file whose string offsets descend is outside the model of the scan.
\<close>

end
